(* ===== verification/Prelude.thy ===== *)
theory Prelude
  imports Main "HOL-Library.AList" "HOL-Library.List_Lexorder" "HOL-Library.Char_ord"
    "HOL-Library.Multiset" "HOL-Library.Monad_Syntax"
begin

text \<open>
  What every theory of the development shares: the fragments of Go's standard library the
  sources use (string formatting and joining, maps as association lists, stable sorting
  by a \<^verbatim>\<open>less\<close> function), the collections of simplification rules, and generic lemmas on
  lists and association lists.

  A Go map is an association list with distinct keys, updated by \<open>AList.update\<close>; the order of
  the list is the (unspecified) iteration order of the map. A Go string is a HOL
  \<^typ>\<open>string\<close>, compared bytewise by the lexicographic order of the library.
\<close>

named_theorems go_defs \<open>definitions of the fragments of Go's standard library\<close>
named_theorems alist_simps \<open>lookup and key rules of association lists\<close>

subsection \<open>Strings\<close>

text \<open>\<^verbatim>\<open>strings.Join\<close>\<close>

fun strings_Join :: "string list \<Rightarrow> string \<Rightarrow> string" where
  "strings_Join [] sep = []"
| "strings_Join [s] sep = s"
| "strings_Join (s # t # ss) sep = s @ sep @ strings_Join (t # ss) sep"

text \<open>\<^verbatim>\<open>strings.Split\<close> for a separator of one byte\<close>

fun strings_Split :: "string \<Rightarrow> char \<Rightarrow> string list" where
  "strings_Split [] sep = [[]]"
| "strings_Split (x # xs) sep =
     (if x = sep then [] # strings_Split xs sep
      else case strings_Split xs sep of
             [] \<Rightarrow> [[x]]
           | s # ss \<Rightarrow> (x # s) # ss)"

lemma strings_Split_nonempty [simp]: "strings_Split xs sep \<noteq> []"
  by (induction xs) (auto split: list.splits)

lemma strings_Split_no_sep: "sep \<notin> set xs \<Longrightarrow> strings_Split xs sep = [xs]"
  by (induction xs) auto

lemma strings_Split_append:
  "sep \<notin> set xs \<Longrightarrow> strings_Split (xs @ sep # ys) sep = xs # strings_Split ys sep"
  by (induction xs) auto

text \<open>The decimal rendering of \<^verbatim>\<open>fmt\<close>'s \<^verbatim>\<open>%d\<close>\<close>

definition digit_char :: "nat \<Rightarrow> char" where
  "digit_char d = char_of (48 + d)"

function nat_to_string :: "nat \<Rightarrow> string" where
  "nat_to_string n =
     (if n < 10 then [digit_char n] else nat_to_string (n div 10) @ [digit_char (n mod 10)])"
  by pat_completeness auto
termination by (relation "measure id") auto

declare nat_to_string.simps [simp del]

definition itoa :: "int \<Rightarrow> string" where
  "itoa i = (if i < 0 then ''-'' @ nat_to_string (nat (- i)) else nat_to_string (nat i))"

subsection \<open>Association lists as Go maps\<close>

lemma map_of_update [alist_simps]:
  "map_of (AList.update k v al) = (map_of al)(k \<mapsto> v)"
  by (simp add: update_conv')

lemma dom_map_of_update [alist_simps]:
  "dom (map_of (AList.update k v al)) = insert k (dom (map_of al))"
  by (auto simp: alist_simps)

lemma keys_update [alist_simps]: "fst ` set (AList.update k v al) = insert k (fst ` set al)"
  by (metis dom_map_of_update dom_map_of_conv_image_fst)

lemma distinct_keys_update [simp]:
  "distinct (map fst al) \<Longrightarrow> distinct (map fst (AList.update k v al))"
  by (rule distinct_update)

lemma values_update: "snd ` set (AList.update k v al) \<subseteq> insert v (snd ` set al)"
  by (induction al) auto

lemma update_entries: "set (AList.update k v al) \<subseteq> insert (k, v) (set al)"
  by (induction al) auto

subsection \<open>Sorting\<close>

text \<open>
  \<^verbatim>\<open>sort.SliceStable\<close>: the stable sort of a slice by a \<open>less\<close> function. \<^verbatim>\<open>sort.Sort\<close>, \<^verbatim>\<open>sort.Slice\<close>
  and \<^verbatim>\<open>slices.SortFunc\<close> promise only a sorted permutation; where the sources use them, the
  slice they sort was filled from a map in an unspecified order, so that a stable sort of
  an arbitrary enumeration yields every outcome they can.
\<close>

fun go_insert :: "('a \<Rightarrow> 'a \<Rightarrow> bool) \<Rightarrow> 'a \<Rightarrow> 'a list \<Rightarrow> 'a list" where
  "go_insert lt x [] = [x]"
| "go_insert lt x (y # ys) =
     (if lt y x then y # go_insert lt x ys else x # y # ys)"

fun go_sort :: "('a \<Rightarrow> 'a \<Rightarrow> bool) \<Rightarrow> 'a list \<Rightarrow> 'a list" where
  "go_sort lt [] = []"
| "go_sort lt (x # xs) = go_insert lt x (go_sort lt xs)"

lemma mset_go_insert [simp]: "mset (go_insert lt x xs) = add_mset x (mset xs)"
  by (induction xs) auto

lemma mset_go_sort [simp]: "mset (go_sort lt xs) = mset xs"
  by (induction xs) auto

lemma set_go_insert [simp]: "set (go_insert lt x xs) = insert x (set xs)"
  by (metis mset_go_insert set_mset_add_mset_insert set_mset_mset)

lemma set_go_sort [simp]: "set (go_sort lt xs) = set xs"
  by (metis mset_go_sort set_mset_mset)

lemma length_go_sort [simp]: "length (go_sort lt xs) = length xs"
  by (metis mset_go_sort size_mset)

lemma distinct_go_sort [simp]: "distinct (go_sort lt xs) = distinct xs"
  by (metis mset_go_sort mset_eq_imp_distinct_iff)

text \<open>
  What Go's sorting functions ask of their \<open>less\<close> argument, a strict weak order, on the
  elements that are sorted; and what they then promise: no element of the result is less
  than one before it.
\<close>

locale less_order =
  fixes lt :: "'a \<Rightarrow> 'a \<Rightarrow> bool" and dom_less :: "'a \<Rightarrow> 'a \<Rightarrow> bool"
  assumes less_asym: "dom_less x y \<Longrightarrow> lt x y \<Longrightarrow> \<not> lt y x"
    and less_trans_incomp:
      "dom_less x y \<Longrightarrow> dom_less y z \<Longrightarrow> dom_less x z \<Longrightarrow> \<not> lt y x \<Longrightarrow> \<not> lt z y \<Longrightarrow> \<not> lt z x"
begin

lemma sorted_go_insert:
  assumes "sorted_wrt (\<lambda>a b. \<not> lt b a) ys"
    and "\<forall>y \<in> set ys. dom_less x y \<and> dom_less y x" and "pairwise dom_less (set ys)"
    and "distinct ys"
  shows "sorted_wrt (\<lambda>a b. \<not> lt b a) (go_insert lt x ys)"
  using assms
proof (induction ys)
  case Nil
  then show ?case by simp
next
  case (Cons y ys)
  have dom: "\<forall>z \<in> set ys. dom_less y z"
    using Cons.prems(3,4) by (auto simp: pairwise_def)
  show ?case
  proof (cases "lt y x")
    case True
    have "sorted_wrt (\<lambda>a b. \<not> lt b a) (go_insert lt x ys)"
      using Cons by (auto simp: pairwise_def)
    moreover have "\<not> lt x y"
      using True Cons.prems(2) less_asym by auto
    ultimately show ?thesis using True Cons.prems(1) by auto
  next
    case False
    have "\<not> lt z x" if z: "z \<in> set ys" for z
    proof (rule less_trans_incomp [of x y z])
      show "\<not> lt z y" using Cons.prems(1) z by auto
    qed (use False z dom Cons.prems(2) in auto)
    then show ?thesis using False Cons.prems(1) by auto
  qed
qed

lemma sorted_go_sort:
  assumes "distinct xs" and "pairwise dom_less (set xs)"
  shows "sorted_wrt (\<lambda>a b. \<not> lt b a) (go_sort lt xs)"
  using assms
proof (induction xs)
  case Nil
  then show ?case by simp
next
  case (Cons x xs)
  have "\<forall>y \<in> set xs. dom_less x y \<and> dom_less y x"
    using Cons.prems by (auto simp: pairwise_def)
  moreover have "pairwise dom_less (set xs)"
    using Cons.prems by (auto simp: pairwise_def)
  ultimately show ?case
    using Cons by (auto intro!: sorted_go_insert)
qed

end

subsection \<open>Lists\<close>

lemma last_butlast: "xs \<noteq> [] \<Longrightarrow> xs = butlast xs @ [last xs]"
  by simp

lemma append_same_suffix: "xs @ ys = us @ vs \<Longrightarrow> length ys = length vs \<Longrightarrow> xs = us"
  by simp

lemma concat_map_singleton [simp]: "concat (map (\<lambda>x. [f x]) xs) = map f xs"
  by (induction xs) auto

end
