(* ===== verification/Owners.thy ===== *)
theory Owners
  imports Prelude
begin

text \<open>
  Ownership of Kubernetes objects (\<^verbatim>\<open>pkg/lib/ownerutil/util.go\<close>): owner references and owner labels. An object is
  its Go type, its group, version and kind, and its metadata. A function that fills in the kind of its
  argument returns the argument; a nil map or slice is an empty one.
\<close>

subsection \<open>Objects\<close>

datatype go_type =
    TService | TServiceAccount | TConfigMap | TSecret | TClusterRole | TClusterRoleBinding | TRole | TRoleBinding
  | TClusterServiceVersion | TInstallPlan | TSubscription | TCatalogSource | TOperatorGroup | TOperatorCondition
  | TAPIService | TCustomResourceDefinitionV1beta1 | TCustomResourceDefinition | TOther

record OwnerReference =
  or_APIVersion :: string
  or_Kind :: string
  or_Name :: string
  or_UID :: string
  or_BlockOwnerDeletion :: "bool option"
  or_Controller :: "bool option"

record GroupVersionKind =
  g_Group :: string
  g_Version :: string
  g_Kind :: string

record k8s_object =
  ob_type :: go_type
  ob_GVK :: GroupVersionKind
  ob_Name :: string
  ob_GenerateName :: string
  ob_Namespace :: string
  ob_UID :: string
  ob_Labels :: "(string \<times> string) list"
  ob_OwnerReferences :: "OwnerReference list"

definition GVK_Empty :: "GroupVersionKind \<Rightarrow> bool" where
  "GVK_Empty gvk \<longleftrightarrow> g_Group gvk = '''' \<and> g_Version gvk = '''' \<and> g_Kind gvk = ''''"

definition ToAPIVersionAndKind :: "GroupVersionKind \<Rightarrow> string \<times> string" where
  "ToAPIVersionAndKind gvk =
     (if GVK_Empty gvk then ('''', '''')
      else (if g_Group gvk \<noteq> '''' then g_Group gvk @ ''/'' @ g_Version gvk else g_Version gvk, g_Kind gvk))"

abbreviation gvk_of :: "string \<Rightarrow> string \<Rightarrow> string \<Rightarrow> GroupVersionKind" where
  "gvk_of g v k \<equiv> \<lparr>g_Group = g, g_Version = v, g_Kind = k\<rparr>"

fun type_GVK :: "go_type \<Rightarrow> GroupVersionKind option" where
  "type_GVK TService = Some (gvk_of '''' ''v1'' ''Service'')"
| "type_GVK TServiceAccount = Some (gvk_of '''' ''v1'' ''ServiceAccount'')"
| "type_GVK TConfigMap = Some (gvk_of '''' ''v1'' ''ConfigMap'')"
| "type_GVK TSecret = Some (gvk_of '''' ''v1'' ''Secret'')"
| "type_GVK TClusterRole = Some (gvk_of ''rbac.authorization.k8s.io'' ''v1'' ''ClusterRole'')"
| "type_GVK TClusterRoleBinding = Some (gvk_of ''rbac.authorization.k8s.io'' ''v1'' ''ClusterRoleBinding'')"
| "type_GVK TRole = Some (gvk_of ''rbac.authorization.k8s.io'' ''v1'' ''Role'')"
| "type_GVK TRoleBinding = Some (gvk_of ''rbac.authorization.k8s.io'' ''v1'' ''RoleBinding'')"
| "type_GVK TClusterServiceVersion = Some (gvk_of ''operators.coreos.com'' ''v1alpha1'' ''ClusterServiceVersion'')"
| "type_GVK TInstallPlan = Some (gvk_of ''operators.coreos.com'' ''v1alpha1'' ''InstallPlan'')"
| "type_GVK TSubscription = Some (gvk_of ''operators.coreos.com'' ''v1alpha1'' ''Subscription'')"
| "type_GVK TCatalogSource = Some (gvk_of ''operators.coreos.com'' ''v1alpha1'' ''CatalogSource'')"
| "type_GVK TOperatorGroup = Some (gvk_of ''operators.coreos.com'' ''v1'' ''OperatorGroup'')"
| "type_GVK TOperatorCondition = Some (gvk_of ''operators.coreos.com'' ''v2'' ''OperatorCondition'')"
| "type_GVK TAPIService = Some (gvk_of ''apiregistration.k8s.io'' ''v1'' ''APIService'')"
| "type_GVK TCustomResourceDefinitionV1beta1 = Some (gvk_of ''apiextensions.k8s.io'' ''v1beta1'' ''CustomResourceDefinition'')"
| "type_GVK TCustomResourceDefinition = Some (gvk_of ''apiextensions.k8s.io'' ''v1'' ''CustomResourceDefinition'')"
| "type_GVK TOther = None"

text \<open>\<open>None\<close> is the error that no kind can be inferred.\<close>

definition InferGroupVersionKind :: "k8s_object \<Rightarrow> k8s_object option" where
  "InferGroupVersionKind obj =
     (if \<not> GVK_Empty (ob_GVK obj) then Some obj
      else map_option (\<lambda>gvk. obj\<lparr>ob_GVK := gvk\<rparr>) (type_GVK (ob_type obj)))"

text \<open>Where the error is only logged\<close>

definition infer_or_keep :: "k8s_object \<Rightarrow> k8s_object" where
  "infer_or_keep obj = (case InferGroupVersionKind obj of Some obj \<Rightarrow> obj | None \<Rightarrow> obj)"

subsection \<open>Owner references\<close>

definition IsOwnedBy :: "k8s_object \<Rightarrow> k8s_object \<Rightarrow> bool" where
  "IsOwnedBy object owner = list_ex (\<lambda>oref. or_UID oref = ob_UID owner) (ob_OwnerReferences object)"

definition IsOwnedByKind :: "k8s_object \<Rightarrow> string \<Rightarrow> bool" where
  "IsOwnedByKind object ownerKind = list_ex (\<lambda>oref. or_Kind oref = ownerKind) (ob_OwnerReferences object)"

definition GetOwnerByKind :: "k8s_object \<Rightarrow> string \<Rightarrow> OwnerReference option" where
  "GetOwnerByKind object ownerKind = find (\<lambda>oref. or_Kind oref = ownerKind) (ob_OwnerReferences object)"

definition GetOwnersByKind :: "k8s_object \<Rightarrow> string \<Rightarrow> OwnerReference list" where
  "GetOwnersByKind object ownerKind = filter (\<lambda>oref. or_Kind oref = ownerKind) (ob_OwnerReferences object)"

fun owner_conflicts :: "k8s_object \<Rightarrow> OwnerReference list \<Rightarrow> bool \<Rightarrow> bool" where
  "owner_conflicts target [] conflicts = conflicts"
| "owner_conflicts target (owner # owners) conflicts =
     (if or_Kind owner = g_Kind (ob_GVK target) \<and> or_APIVersion owner = g_Version (ob_GVK target)
      then (if or_Name owner = ob_Name target \<and> or_UID owner = ob_UID target then False
            else owner_conflicts target owners True)
      else owner_conflicts target owners conflicts)"

definition HasOwnerConflict :: "k8s_object \<Rightarrow> OwnerReference list \<Rightarrow> bool" where
  "HasOwnerConflict target owners = owner_conflicts (infer_or_keep target) owners False"

definition Adoptable :: "k8s_object \<Rightarrow> OwnerReference list \<Rightarrow> bool" where
  "Adoptable target owners =
     (if owners = [] then False
      else list_ex (\<lambda>owner. or_Kind owner = g_Kind (ob_GVK (infer_or_keep target))) owners)"

definition owner_reference :: "k8s_object \<Rightarrow> bool \<Rightarrow> bool \<Rightarrow> OwnerReference" where
  "owner_reference owner blockOwnerDeletion isController =
     (let (apiVersion, kind) = ToAPIVersionAndKind (ob_GVK (infer_or_keep owner))
      in \<lparr>or_APIVersion = apiVersion, or_Kind = kind, or_Name = ob_Name owner, or_UID = ob_UID owner,
          or_BlockOwnerDeletion = Some blockOwnerDeletion, or_Controller = Some isController\<rparr>)"

definition NonBlockingOwner :: "k8s_object \<Rightarrow> OwnerReference" where
  "NonBlockingOwner owner = owner_reference owner False False"

definition add_reference :: "k8s_object \<Rightarrow> OwnerReference \<Rightarrow> k8s_object" where
  "add_reference object new =
     (if list_ex (\<lambda>item. or_Kind item = or_Kind new \<and> or_Name item = or_Name new \<and> or_UID item = or_UID new)
           (ob_OwnerReferences object)
      then object else object\<lparr>ob_OwnerReferences := ob_OwnerReferences object @ [new]\<rparr>)"

definition AddNonBlockingOwner :: "k8s_object \<Rightarrow> k8s_object \<Rightarrow> k8s_object" where
  "AddNonBlockingOwner object owner = add_reference object (NonBlockingOwner owner)"

definition AddOwner :: "k8s_object \<Rightarrow> k8s_object \<Rightarrow> bool \<Rightarrow> bool \<Rightarrow> k8s_object" where
  "AddOwner object owner blockOwnerDeletion isController =
     add_reference object (owner_reference owner blockOwnerDeletion isController)"

definition EnsureOwner :: "k8s_object \<Rightarrow> k8s_object \<Rightarrow> bool \<times> k8s_object" where
  "EnsureOwner object owner =
     (if IsOwnedBy object owner then (True, object) else (False, AddNonBlockingOwner object owner))"

subsection \<open>Owner labels\<close>

definition OwnerKey :: string where "OwnerKey = ''olm.owner''"
definition OwnerNamespaceKey :: string where "OwnerNamespaceKey = ''olm.owner.namespace''"
definition OwnerKind :: string where "OwnerKind = ''olm.owner.kind''"

definition OwnerLabel :: "k8s_object \<Rightarrow> string \<Rightarrow> (string \<times> string) list" where
  "OwnerLabel owner kind = [(OwnerKey, ob_Name owner), (OwnerNamespaceKey, ob_Namespace owner), (OwnerKind, kind)]"

definition AddOwnerLabelsForKind :: "k8s_object \<Rightarrow> k8s_object \<Rightarrow> string \<Rightarrow> k8s_object" where
  "AddOwnerLabelsForKind object owner kind =
     object\<lparr>ob_Labels := foldl (\<lambda>labels (key, val). AList.update key val labels) (ob_Labels object) (OwnerLabel owner kind)\<rparr>"

definition AddOwnerLabels :: "k8s_object \<Rightarrow> k8s_object \<Rightarrow> k8s_object option" where
  "AddOwnerLabels object owner =
     map_option (\<lambda>owner. AddOwnerLabelsForKind object owner (g_Kind (ob_GVK owner))) (InferGroupVersionKind owner)"

text \<open>A missing label reads as the empty string.\<close>

definition label_of :: "(string \<times> string) list \<Rightarrow> string \<Rightarrow> string" where
  "label_of labels key = (case map_of labels key of Some v \<Rightarrow> v | None \<Rightarrow> '''')"

definition IsOwnedByKindLabel :: "k8s_object \<Rightarrow> string \<Rightarrow> bool" where
  "IsOwnedByKindLabel object ownerKind =
     (if ob_Labels object = [] then False else label_of (ob_Labels object) OwnerKind = ownerKind)"

definition GetOwnerByKindLabel :: "k8s_object \<Rightarrow> string \<Rightarrow> string \<times> string \<times> bool" where
  "GetOwnerByKindLabel object ownerKind =
     (if \<not> IsOwnedByKindLabel object ownerKind then ('''', '''', False)
      else case map_of (ob_Labels object) OwnerNamespaceKey of
             None \<Rightarrow> ('''', '''', False)
           | Some namespace \<Rightarrow>
               (label_of (ob_Labels object) OwnerKey, namespace, map_of (ob_Labels object) OwnerKey \<noteq> None))"

definition IsOwnedByLabel :: "k8s_object \<Rightarrow> k8s_object \<Rightarrow> bool" where
  "IsOwnedByLabel object owner =
     (let (name, namespace, ok) = GetOwnerByKindLabel object (g_Kind (ob_GVK owner))
      in if \<not> ok then False else namespace = ob_Namespace owner \<and> name = ob_Name owner)"

definition AdoptableLabels :: "(string \<times> string) list \<Rightarrow> bool \<Rightarrow> k8s_object list \<Rightarrow> bool" where
  "AdoptableLabels labels checkName targets =
     (if labels = [] then False
      else list_ex (\<lambda>target. label_of labels OwnerKind = g_Kind (ob_GVK (infer_or_keep target)) \<and>
             label_of labels OwnerNamespaceKey = ob_Namespace target \<and>
             (\<not> checkName \<or> label_of labels OwnerKey = ob_Name target)) targets)"

subsection \<open>Lemmas\<close>

lemma infer_keeps [simp]:
  "ob_Name (infer_or_keep obj) = ob_Name obj" "ob_Namespace (infer_or_keep obj) = ob_Namespace obj"
  "ob_UID (infer_or_keep obj) = ob_UID obj"
  by (auto simp: infer_or_keep_def InferGroupVersionKind_def split: option.split)

lemma type_GVK_full:
  "type_GVK t = Some gvk \<Longrightarrow> \<not> GVK_Empty gvk \<and> g_Version gvk \<noteq> '''' \<and> CHR ''/'' \<notin> set (g_Version gvk)"
  by (cases t) (auto simp: GVK_Empty_def)

lemma infer_idem [simp]: "infer_or_keep (infer_or_keep obj) = infer_or_keep obj"
  by (auto simp: infer_or_keep_def InferGroupVersionKind_def split: option.split dest: type_GVK_full)

lemma owner_reference_fields [simp]:
  "or_Name (owner_reference owner b c) = ob_Name owner" "or_UID (owner_reference owner b c) = ob_UID owner"
  by (simp_all add: owner_reference_def case_prod_beta Let_def)

lemma add_reference_idem: "add_reference (add_reference object new) new = add_reference object new"
  by (simp add: add_reference_def)

lemma add_reference_mem:
  "\<exists>item \<in> set (ob_OwnerReferences (add_reference object new)).
     or_Kind item = or_Kind new \<and> or_Name item = or_Name new \<and> or_UID item = or_UID new"
  by (auto simp: add_reference_def list_ex_iff)

lemma add_reference_keeps: "set (ob_OwnerReferences object) \<subseteq> set (ob_OwnerReferences (add_reference object new))"
  by (auto simp: add_reference_def)

lemma OwnerLabel_lookup:
  "map_of (ob_Labels (AddOwnerLabelsForKind object owner kind)) =
     (map_of (ob_Labels object))(OwnerKey \<mapsto> ob_Name owner, OwnerNamespaceKey \<mapsto> ob_Namespace owner, OwnerKind \<mapsto> kind)"
  by (simp add: AddOwnerLabelsForKind_def OwnerLabel_def alist_simps)

lemma AddOwnerLabels_nonempty: "ob_Labels (AddOwnerLabelsForKind object owner kind) \<noteq> []"
  using OwnerLabel_lookup [of object owner kind] by (metis fun_upd_same map_of.simps(1) option.distinct(1))

lemmas owner_keys = OwnerKey_def OwnerNamespaceKey_def OwnerKind_def

text \<open>A reference of an object with a group never has a bare version.\<close>

lemma grouped_APIVersion:
  assumes "g_Group gvk \<noteq> ''''" and "CHR ''/'' \<notin> set (g_Version gvk)"
  shows "fst (ToAPIVersionAndKind gvk) \<noteq> g_Version gvk"
  using assms by (auto simp: ToAPIVersionAndKind_def GVK_Empty_def)

lemma owner_conflicts_None:
  "\<forall>owner \<in> set owners. or_APIVersion owner \<noteq> g_Version (ob_GVK target) \<Longrightarrow> owner_conflicts target owners c = c"
  by (induction owners) auto

end
