(* ===== verification/Rbac.thy ===== *)
theory Rbac
  imports Owners "HOL-Library.Word"
begin

text \<open>
  The roles and bindings an operator needs (\<^verbatim>\<open>rbac.go\<close>), with the hashes that name and label them
  (\<^verbatim>\<open>lib/kubernetes/pkg/util/hash/hash.go\<close>). A policy rule is a value of a type parameter. The JSON encoders and
  SHA-224 of the standard library are parameters, the hash as a word of 224 bits.
\<close>

subsection \<open>Hashes and names\<close>

definition base62_digit :: "nat \<Rightarrow> char" where
  "base62_digit d = char_of (if d < 10 then 48 + d else if d < 36 then 87 + d else 29 + d)"

function base62_nat :: "nat \<Rightarrow> string" where
  "base62_nat n = (if n < 62 then [base62_digit n] else base62_nat (n div 62) @ [base62_digit (n mod 62)])"
  by pat_completeness auto
termination by (relation "measure id") auto

declare base62_nat.simps [simp del]

definition toBase62 :: "224 word \<Rightarrow> string" where
  "toBase62 hash = base62_nat (unat hash)"

definition DeepHashObject :: "(string \<Rightarrow> 224 word) \<Rightarrow> string + string \<Rightarrow> string + string" where
  "DeepHashObject Sum224 encoded = map_sum (\<lambda>err. ''couldn't encode object: '' @ err) (\<lambda>raw. toBase62 (Sum224 raw)) encoded"

definition maxNameLength :: nat where
  "maxNameLength = 63"

text \<open>The outcome of code that may fail or panic\<close>

datatype 'a outcome = Ok 'a | Fail string | Panics

fun bind_outcome :: "'a outcome \<Rightarrow> ('a \<Rightarrow> 'b outcome) \<Rightarrow> 'b outcome" where
  "bind_outcome (Ok x) f = f x"
| "bind_outcome (Fail err) f = Fail err"
| "bind_outcome Panics f = Panics"

definition generateName :: "string \<Rightarrow> string + string \<Rightarrow> string outcome" where
  "generateName base hashed =
     (case hashed of
        Inl err \<Rightarrow> Fail err
      | Inr hash \<Rightarrow>
          (if length base + length hash > maxNameLength
           then (if maxNameLength < length hash + 1 then Panics
                 else Ok (take (maxNameLength - length hash - 1) base @ ''-'' @ hash))
           else Ok (base @ ''-'' @ hash)))"

subsection \<open>Permissions\<close>

record 'r StrategyDeploymentPermissions =
  sp_ServiceAccountName :: string
  sp_Rules :: "'r list"

record RoleRef =
  rr_Kind :: string
  rr_Name :: string
  rr_APIGroup :: string

record Subject =
  su_Kind :: string
  su_Name :: string
  su_Namespace :: string

record 'r Role =
  r_meta :: k8s_object
  r_Rules :: "'r list"

record RoleBinding =
  rb_meta :: k8s_object
  rb_RoleRef :: RoleRef
  rb_Subjects :: "Subject list"

record 'r OperatorPermissions =
  op_ServiceAccount :: k8s_object
  op_Roles :: "'r Role list"
  op_RoleBindings :: "RoleBinding list"
  op_ClusterRoles :: "'r Role list"
  op_ClusterRoleBindings :: "RoleBinding list"

definition NewOperatorPermissions :: "k8s_object \<Rightarrow> 'r OperatorPermissions" where
  "NewOperatorPermissions serviceAccount =
     \<lparr>op_ServiceAccount = serviceAccount, op_Roles = [], op_RoleBindings = [], op_ClusterRoles = [], op_ClusterRoleBindings = []\<rparr>"

definition AddRole :: "'r Role \<Rightarrow> 'r OperatorPermissions \<Rightarrow> 'r OperatorPermissions" where
  "AddRole role o' = o'\<lparr>op_Roles := op_Roles o' @ [role]\<rparr>"

definition AddRoleBinding :: "RoleBinding \<Rightarrow> 'r OperatorPermissions \<Rightarrow> 'r OperatorPermissions" where
  "AddRoleBinding roleBinding o' = o'\<lparr>op_RoleBindings := op_RoleBindings o' @ [roleBinding]\<rparr>"

definition AddClusterRole :: "'r Role \<Rightarrow> 'r OperatorPermissions \<Rightarrow> 'r OperatorPermissions" where
  "AddClusterRole clusterRole o' = o'\<lparr>op_ClusterRoles := op_ClusterRoles o' @ [clusterRole]\<rparr>"

definition AddClusterRoleBinding :: "RoleBinding \<Rightarrow> 'r OperatorPermissions \<Rightarrow> 'r OperatorPermissions" where
  "AddClusterRoleBinding clusterRoleBinding o' = o'\<lparr>op_ClusterRoleBindings := op_ClusterRoleBindings o' @ [clusterRoleBinding]\<rparr>"

text \<open>The encoders of the standard library, as far as they are used here\<close>

record 'r encoders =
  Sum224 :: "string \<Rightarrow> 224 word"
  encode_permission :: "string \<Rightarrow> 'r StrategyDeploymentPermissions \<Rightarrow> string + string"
  encode_cluster_permission :: "string \<Rightarrow> string \<Rightarrow> 'r StrategyDeploymentPermissions \<Rightarrow> string + string"
  marshal_rules :: "'r list \<Rightarrow> string + string"
  marshal_binding :: "RoleRef \<Rightarrow> Subject list \<Rightarrow> string + string"

definition ContentHashLabelKey :: string where
  "ContentHashLabelKey = ''olm.permissions.hash''"

definition PolicyRuleHashLabelValue :: "'r encoders \<Rightarrow> 'r list \<Rightarrow> string + string" where
  "PolicyRuleHashLabelValue E rules = map_sum id (\<lambda>raw. toBase62 (Sum224 E raw)) (marshal_rules E rules)"

definition RoleReferenceAndSubjectHashLabelValue :: "'r encoders \<Rightarrow> RoleRef \<Rightarrow> Subject list \<Rightarrow> string + string" where
  "RoleReferenceAndSubjectHashLabelValue E roleRef subjects =
     map_sum id (\<lambda>raw. toBase62 (Sum224 E raw)) (marshal_binding E roleRef subjects)"

definition outcome_of :: "string \<Rightarrow> string + 'a \<Rightarrow> 'a outcome" where
  "outcome_of msg r = (case r of Inl err \<Rightarrow> Fail (msg @ err) | Inr x \<Rightarrow> Ok x)"

text \<open>The part of a ClusterServiceVersion that describes its installation, and the object it is\<close>

record 'r csv_install =
  ci_object :: k8s_object
  ci_StrategyName :: string
  ci_Permissions :: "'r StrategyDeploymentPermissions list"
  ci_ClusterPermissions :: "'r StrategyDeploymentPermissions list"

type_synonym 'r permissions = "(string \<times> 'r OperatorPermissions) list"

definition new_object :: "go_type \<Rightarrow> string \<Rightarrow> string \<Rightarrow> k8s_object" where
  "new_object t name namespace =
     \<lparr>ob_type = t, ob_GVK = gvk_of '''' '''' '''', ob_Name = name, ob_GenerateName = '''', ob_Namespace = namespace, ob_UID = '''',
      ob_Labels = [], ob_OwnerReferences = []\<rparr>"

abbreviation csvKind :: string where "csvKind \<equiv> ''ClusterServiceVersion''"

definition label_hash :: "string \<Rightarrow> k8s_object \<Rightarrow> k8s_object" where
  "label_hash hash obj = obj\<lparr>ob_Labels := AList.update ContentHashLabelKey hash (ob_Labels obj)\<rparr>"

definition update_at :: "string \<Rightarrow> ('a \<Rightarrow> 'a) \<Rightarrow> (string \<times> 'a) list \<Rightarrow> (string \<times> 'a) list" where
  "update_at k f m = (case map_of m k of Some x \<Rightarrow> AList.update k (f x) m | None \<Rightarrow> m)"

text \<open>One iteration of the loop over the permissions\<close>

definition add_permission ::
    "'r encoders \<Rightarrow> k8s_object \<Rightarrow> 'r StrategyDeploymentPermissions \<Rightarrow> 'r permissions \<Rightarrow> 'r permissions outcome" where
  "add_permission E csv permission permissions =
     (let sa = sp_ServiceAccountName permission;
          permissions = (if map_of permissions sa = None
            then AList.update sa (NewOperatorPermissions
                   (AddNonBlockingOwner (new_object TServiceAccount sa (ob_Namespace csv)) csv)) permissions
            else permissions)
      in
      bind_outcome (generateName (ob_Name csv @ ''-'' @ sa)
                      (DeepHashObject (Sum224 E) (encode_permission E (ob_Name csv) permission))) (\<lambda>name.
      let meta = (\<lambda>t. (new_object t name (ob_Namespace csv))
                        \<lparr>ob_OwnerReferences := [NonBlockingOwner csv], ob_Labels := OwnerLabel csv csvKind\<rparr>)
      in
      bind_outcome (outcome_of ''failed to hash permission rules: '' (PolicyRuleHashLabelValue E (sp_Rules permission))) (\<lambda>hash.
      let role = \<lparr>r_meta = label_hash hash (meta TRole), r_Rules = sp_Rules permission\<rparr>;
          roleRef = \<lparr>rr_Kind = ''Role'', rr_Name = name, rr_APIGroup = ''rbac.authorization.k8s.io''\<rparr>;
          subjects = [\<lparr>su_Kind = ''ServiceAccount'', su_Name = sa, su_Namespace = ob_Namespace csv\<rparr>]
      in
      bind_outcome (outcome_of ''failed to hash binding content: '' (RoleReferenceAndSubjectHashLabelValue E roleRef subjects)) (\<lambda>hash.
      Ok (update_at sa (\<lambda>o'. AddRoleBinding
            \<lparr>rb_meta = label_hash hash (meta TRoleBinding), rb_RoleRef = roleRef, rb_Subjects = subjects\<rparr> (AddRole role o'))
          permissions)))))"

definition add_cluster_permission ::
    "'r encoders \<Rightarrow> k8s_object \<Rightarrow> 'r StrategyDeploymentPermissions \<Rightarrow> 'r permissions \<Rightarrow> 'r permissions outcome" where
  "add_cluster_permission E csv permission permissions =
     (let sa = sp_ServiceAccountName permission;
          permissions = (if map_of permissions sa = None
            then AList.update sa (NewOperatorPermissions
                   ((AddOwner (new_object TServiceAccount '''' '''') csv False False)\<lparr>ob_Name := sa\<rparr>)) permissions
            else permissions)
      in
      bind_outcome (generateName (ob_Name csv)
                      (DeepHashObject (Sum224 E) (encode_cluster_permission E (ob_Name csv) (ob_Namespace csv) permission))) (\<lambda>name.
      bind_outcome (outcome_of ''failed to hash permission rules: '' (PolicyRuleHashLabelValue E (sp_Rules permission))) (\<lambda>hash.
      let role = \<lparr>r_meta = label_hash hash ((new_object TClusterRole name '''')\<lparr>ob_Labels := OwnerLabel csv csvKind\<rparr>),
                  r_Rules = sp_Rules permission\<rparr>;
          roleRef = \<lparr>rr_Kind = ''ClusterRole'', rr_Name = name, rr_APIGroup = ''rbac.authorization.k8s.io''\<rparr>;
          subjects = [\<lparr>su_Kind = ''ServiceAccount'', su_Name = sa, su_Namespace = ob_Namespace csv\<rparr>]
      in
      bind_outcome (outcome_of ''failed to hash binding content: '' (RoleReferenceAndSubjectHashLabelValue E roleRef subjects)) (\<lambda>hash.
      Ok (update_at sa (\<lambda>o'. AddClusterRoleBinding
            \<lparr>rb_meta = label_hash hash ((new_object TClusterRoleBinding name (ob_Namespace csv))\<lparr>ob_Labels := OwnerLabel csv csvKind\<rparr>),
             rb_RoleRef = roleRef, rb_Subjects = subjects\<rparr> (AddClusterRole role o'))
          permissions)))))"

fun add_all :: "('p \<Rightarrow> 'm \<Rightarrow> 'm outcome) \<Rightarrow> 'p list \<Rightarrow> 'm \<Rightarrow> 'm outcome" where
  "add_all f [] m = Ok m"
| "add_all f (p # ps) m = bind_outcome (f p m) (add_all f ps)"

definition RBACForClusterServiceVersion :: "'r encoders \<Rightarrow> 'r csv_install \<Rightarrow> 'r permissions outcome" where
  "RBACForClusterServiceVersion E csv =
     (if ci_StrategyName csv \<noteq> ''deployment'' then Fail ''unrecognized install strategy''
      else bind_outcome (add_all (add_permission E (ci_object csv)) (ci_Permissions csv) [])
             (add_all (add_cluster_permission E (ci_object csv)) (ci_ClusterPermissions csv)))"

subsection \<open>The length of names\<close>

lemma length_base62_nat: "n < 62 ^ Suc k \<Longrightarrow> length (base62_nat n) \<le> Suc k"
proof (induction k arbitrary: n)
  case 0
  then show ?case by (simp add: base62_nat.simps)
next
  case (Suc k)
  have "n div 62 < 62 ^ Suc k" using Suc.prems by (simp add: div_less_iff_less_mult mult.commute)
  then show ?case using Suc.IH by (subst base62_nat.simps) simp
qed

lemma length_toBase62: "length (toBase62 h) \<le> 38"
proof -
  have "unat h < 2 ^ 224" using unsigned_less [of h, where ?'a = nat] by simp
  also have "(2 :: nat) ^ 224 < 62 ^ Suc 37" by simp
  finally show ?thesis unfolding toBase62_def using length_base62_nat [of "unat h" 37] by simp
qed

lemma generateName_length:
  assumes "generateName base (Inr hash) = Ok name"
  shows "length name \<le> maxNameLength \<or> length base + length hash = maxNameLength \<and> length name = Suc maxNameLength"
  using assms by (auto simp: generateName_def maxNameLength_def split: if_splits)

lemma generateName_hash:
  assumes "length hash \<le> 62"
  shows "\<exists>b. generateName base (Inr hash) = Ok (b @ ''-'' @ hash) \<and> b = take (length b) base"
proof (cases "length base + length hash > maxNameLength")
  case True
  then show ?thesis using assms
    by (intro exI [of _ "take (maxNameLength - length hash - 1) base"]) (auto simp: generateName_def maxNameLength_def min_def)
qed (simp add: generateName_def)

subsection \<open>What is granted\<close>

lemma bind_outcome_Ok: "bind_outcome r f = Ok y \<longleftrightarrow> (\<exists>x. r = Ok x \<and> f x = Ok y)"
  by (cases r) auto

lemma map_of_update_at [alist_simps]:
  "map_of (update_at k f m) k' = (if k' = k then map_option f (map_of m k) else map_of m k')"
  by (auto simp: update_at_def alist_simps split: option.split)

definition roles_of :: "'r permissions \<Rightarrow> string \<Rightarrow> 'r list list" where
  "roles_of m n = (case map_of m n of Some o' \<Rightarrow> map r_Rules (op_Roles o') | None \<Rightarrow> [])"

definition cluster_roles_of :: "'r permissions \<Rightarrow> string \<Rightarrow> 'r list list" where
  "cluster_roles_of m n = (case map_of m n of Some o' \<Rightarrow> map r_Rules (op_ClusterRoles o') | None \<Rightarrow> [])"

text \<open>A binding gives a role to a service account of the operator's namespace.\<close>

definition binds :: "string \<Rightarrow> string \<Rightarrow> string \<Rightarrow> 'r Role \<Rightarrow> RoleBinding \<Rightarrow> bool" where
  "binds kind n ns role rb \<longleftrightarrow>
     rb_RoleRef rb = \<lparr>rr_Kind = kind, rr_Name = ob_Name (r_meta role), rr_APIGroup = ''rbac.authorization.k8s.io''\<rparr> \<and>
     rb_Subjects rb = [\<lparr>su_Kind = ''ServiceAccount'', su_Name = n, su_Namespace = ns\<rparr>]"

definition all_bound :: "string \<Rightarrow> 'r permissions \<Rightarrow> bool" where
  "all_bound ns m \<longleftrightarrow> (\<forall>n o'. map_of m n = Some o' \<longrightarrow>
     list_all2 (binds ''Role'' n ns) (op_Roles o') (op_RoleBindings o') \<and>
     list_all2 (binds ''ClusterRole'' n ns) (op_ClusterRoles o') (op_ClusterRoleBindings o') \<and> ob_Name (op_ServiceAccount o') = n)"

lemma label_hash_Name [simp]: "ob_Name (label_hash h obj) = ob_Name obj"
  by (simp add: label_hash_def)

lemma add_reference_Name [simp]: "ob_Name (add_reference obj r) = ob_Name obj"
  by (simp add: add_reference_def)

lemma add_permission_Ok:
  assumes "add_permission E csv p m = Ok m'"
  shows "roles_of m' n = roles_of m n @ (if sp_ServiceAccountName p = n then [sp_Rules p] else [])"
    "cluster_roles_of m' n = cluster_roles_of m n" "all_bound (ob_Namespace csv) m \<Longrightarrow> all_bound (ob_Namespace csv) m'"
proof -
  let ?sa = "sp_ServiceAccountName p"
  obtain sa0 :: k8s_object and role rb where sa0: "ob_Name sa0 = ?sa" and role: "r_Rules role = sp_Rules p"
    and b: "binds ''Role'' ?sa (ob_Namespace csv) role rb"
    and m': "m' = update_at ?sa (\<lambda>o'. AddRoleBinding rb (AddRole role o'))
        (if map_of m ?sa = None then AList.update ?sa (NewOperatorPermissions sa0) m else m)"
  proof -
    assume g: "\<And>sa0 role rb. ob_Name sa0 = ?sa \<Longrightarrow> r_Rules role = sp_Rules p \<Longrightarrow> binds ''Role'' ?sa (ob_Namespace csv) role rb \<Longrightarrow>
       m' = update_at ?sa (\<lambda>o'. AddRoleBinding rb (AddRole role o'))
        (if map_of m ?sa = None then AList.update ?sa (NewOperatorPermissions sa0) m else m) \<Longrightarrow> thesis"
    show thesis
      using assms unfolding add_permission_def Let_def bind_outcome_Ok
      by (elim exE conjE, intro g) (auto simp: binds_def AddNonBlockingOwner_def new_object_def)
  qed
  show "roles_of m' n = roles_of m n @ (if ?sa = n then [sp_Rules p] else [])" "cluster_roles_of m' n = cluster_roles_of m n"
    by (auto simp: m' roles_of_def cluster_roles_of_def alist_simps AddRoleBinding_def AddRole_def NewOperatorPermissions_def role
        split: option.split)
  show "all_bound (ob_Namespace csv) m'" if "all_bound (ob_Namespace csv) m"
    using that b sa0 unfolding all_bound_def m'
    by (auto simp: alist_simps AddRoleBinding_def AddRole_def NewOperatorPermissions_def list_all2_appendI split: if_splits)
qed

lemma add_cluster_permission_Ok:
  assumes "add_cluster_permission E csv p m = Ok m'"
  shows "cluster_roles_of m' n = cluster_roles_of m n @ (if sp_ServiceAccountName p = n then [sp_Rules p] else [])"
    "roles_of m' n = roles_of m n" "all_bound (ob_Namespace csv) m \<Longrightarrow> all_bound (ob_Namespace csv) m'"
proof -
  let ?sa = "sp_ServiceAccountName p"
  obtain sa0 :: k8s_object and role rb where sa0: "ob_Name sa0 = ?sa" and role: "r_Rules role = sp_Rules p"
    and b: "binds ''ClusterRole'' ?sa (ob_Namespace csv) role rb"
    and m': "m' = update_at ?sa (\<lambda>o'. AddClusterRoleBinding rb (AddClusterRole role o'))
        (if map_of m ?sa = None then AList.update ?sa (NewOperatorPermissions sa0) m else m)"
  proof -
    assume g: "\<And>sa0 role rb. ob_Name sa0 = ?sa \<Longrightarrow> r_Rules role = sp_Rules p \<Longrightarrow> binds ''ClusterRole'' ?sa (ob_Namespace csv) role rb \<Longrightarrow>
       m' = update_at ?sa (\<lambda>o'. AddClusterRoleBinding rb (AddClusterRole role o'))
        (if map_of m ?sa = None then AList.update ?sa (NewOperatorPermissions sa0) m else m) \<Longrightarrow> thesis"
    show thesis
      using assms unfolding add_cluster_permission_def Let_def bind_outcome_Ok
      by (elim exE conjE, intro g) (auto simp: binds_def AddOwner_def new_object_def)
  qed
  show "cluster_roles_of m' n = cluster_roles_of m n @ (if ?sa = n then [sp_Rules p] else [])" "roles_of m' n = roles_of m n"
    by (auto simp: m' roles_of_def cluster_roles_of_def alist_simps AddClusterRoleBinding_def AddClusterRole_def
        NewOperatorPermissions_def role split: option.split)
  show "all_bound (ob_Namespace csv) m'" if "all_bound (ob_Namespace csv) m"
    using that b sa0 unfolding all_bound_def m'
    by (auto simp: alist_simps AddClusterRoleBinding_def AddClusterRole_def NewOperatorPermissions_def list_all2_appendI split: if_splits)
qed

lemma rbac_grants_rules:
  fixes E :: "'r encoders"
  assumes "RBACForClusterServiceVersion E csv = Ok m"
  shows "roles_of m n = map sp_Rules (filter (\<lambda>p. sp_ServiceAccountName p = n) (ci_Permissions csv)) \<and>
    cluster_roles_of m n = map sp_Rules (filter (\<lambda>p. sp_ServiceAccountName p = n) (ci_ClusterPermissions csv)) \<and>
    all_bound (ob_Namespace (ci_object csv)) m"
proof -
  let ?o = "ci_object csv"
  have 1: "add_all (add_permission E ?o) ps m0 = Ok m1 \<Longrightarrow>
      roles_of m1 n = roles_of m0 n @ map sp_Rules (filter (\<lambda>p. sp_ServiceAccountName p = n) ps) \<and>
      cluster_roles_of m1 n = cluster_roles_of m0 n \<and> (all_bound (ob_Namespace ?o) m0 \<longrightarrow> all_bound (ob_Namespace ?o) m1)" for ps m0 m1
    by (induction ps arbitrary: m0) (auto simp: bind_outcome_Ok add_permission_Ok)
  have 2: "add_all (add_cluster_permission E ?o) ps m0 = Ok m1 \<Longrightarrow>
      cluster_roles_of m1 n = cluster_roles_of m0 n @ map sp_Rules (filter (\<lambda>p. sp_ServiceAccountName p = n) ps) \<and>
      roles_of m1 n = roles_of m0 n \<and> (all_bound (ob_Namespace ?o) m0 \<longrightarrow> all_bound (ob_Namespace ?o) m1)" for ps m0 m1
    by (induction ps arbitrary: m0) (auto simp: bind_outcome_Ok add_cluster_permission_Ok)
  obtain m1 where m1: "add_all (add_permission E ?o) (ci_Permissions csv) [] = Ok m1"
      "add_all (add_cluster_permission E ?o) (ci_ClusterPermissions csv) m1 = Ok m"
    using assms by (auto simp: RBACForClusterServiceVersion_def bind_outcome_Ok split: if_splits)
  have "all_bound (ob_Namespace ?o) ([] :: 'r permissions)" "roles_of ([] :: 'r permissions) n = []"
      "cluster_roles_of ([] :: 'r permissions) n = []"
    by (simp_all add: all_bound_def roles_of_def cluster_roles_of_def)
  then show ?thesis using 1 [OF m1(1)] 2 [OF m1(2)] by simp
qed

end
