(* ===== verification/Json.thy ===== *)
theory Json
  imports Prelude
begin

text \<open>
  Decoding with Go's \<^verbatim>\<open>encoding/json\<close>, as far as the resolver uses it. A JSON text is represented by
  the document it holds (\<open>None\<close> when it is malformed), its length in bytes, and whether something
  follows the first value, which \<^verbatim>\<open>json.Unmarshal\<close> rejects and \<^verbatim>\<open>Decoder.Decode\<close> does not read. Keys
  match struct fields without regard to (ASCII) case; a repeated key takes its last value; \<^verbatim>\<open>null\<close>
  leaves a field unchanged; a value of the wrong kind is an error.
\<close>

datatype json =
    JNull
  | JBool bool
  | JNum string
  | JStr string
  | JArr "json list"
  | JObj "(string \<times> json) list"

record rawJSON =
  raw_doc :: "json option"
  raw_len :: nat
  raw_more :: bool

definition json_Unmarshal :: "rawJSON \<Rightarrow> json option" where
  "json_Unmarshal r = (if raw_more r then None else raw_doc r)"

definition lower_char :: "char \<Rightarrow> char" where
  "lower_char c = (let n = of_char c :: nat in
     if 65 \<le> n \<and> n \<le> 90 then char_of (n + 32) else c)"

definition EqualFold :: "string \<Rightarrow> string \<Rightarrow> bool" where
  "EqualFold a b \<longleftrightarrow> map lower_char a = map lower_char b"

text \<open>Decoding into a struct whose fields are all strings: the fields and their current values\<close>

fun decode_string :: "string \<Rightarrow> json \<Rightarrow> string option" where
  "decode_string cur (JStr s) = Some s"
| "decode_string cur JNull = Some cur"
| "decode_string cur _ = None"

fun set_field :: "string \<Rightarrow> json \<Rightarrow> (string \<times> string) list \<Rightarrow> (string \<times> string) list option" where
  "set_field key j [] = Some []"
| "set_field key j ((f, cur) # fs) =
     (if EqualFold key f
      then (case decode_string cur j of None \<Rightarrow> None | Some s \<Rightarrow> Some ((f, s) # fs))
      else (case set_field key j fs of None \<Rightarrow> None | Some fs \<Rightarrow> Some ((f, cur) # fs)))"

fun known_field :: "string \<Rightarrow> string list \<Rightarrow> bool" where
  "known_field key [] = False"
| "known_field key (f # fs) = (EqualFold key f \<or> known_field key fs)"

fun set_fields ::
    "bool \<Rightarrow> (string \<times> json) list \<Rightarrow> (string \<times> string) list \<Rightarrow> (string \<times> string) list option" where
  "set_fields strict [] fs = Some fs"
| "set_fields strict ((key, j) # ms) fs =
     (if strict \<and> \<not> known_field key (map fst fs) then None
      else case set_field key j fs of None \<Rightarrow> None | Some fs \<Rightarrow> set_fields strict ms fs)"

fun decode_strings :: "bool \<Rightarrow> string list \<Rightarrow> json \<Rightarrow> (string \<times> string) list option" where
  "decode_strings strict names (JObj ms) = set_fields strict ms (map (\<lambda>f. (f, '''')) names)"
| "decode_strings strict names JNull = Some (map (\<lambda>f. (f, '''')) names)"
| "decode_strings strict names _ = None"

definition field :: "(string \<times> string) list \<Rightarrow> string \<Rightarrow> string" where
  "field fs f = (case map_of fs f of Some s \<Rightarrow> s | None \<Rightarrow> '''')"

text \<open>What \<^verbatim>\<open>json.Marshal\<close> makes of a struct of strings, up to its text\<close>

definition json_of_strings :: "(string \<times> string) list \<Rightarrow> json" where
  "json_of_strings fs = JObj (map (\<lambda>(f, s). (f, JStr s)) fs)"

lemma EqualFold_refl [simp]: "EqualFold s s"
  by (simp add: EqualFold_def)

lemma set_field_other:
  assumes "\<forall>f \<in> fst ` set fs. \<not> EqualFold key f"
  shows "set_field key j fs = Some fs"
  using assms by (induction fs) auto

lemma set_field_at:
  assumes "\<forall>g \<in> fst ` set us. \<not> EqualFold f g"
  shows "set_field f (JStr s) (us @ (f, cur) # vs) = Some (us @ (f, s) # vs)"
  using assms by (induction us) auto

text \<open>Decoding what was encoded from the same fields gives them back.\<close>

lemma decode_encode:
  assumes "distinct (map (map lower_char \<circ> fst) fs)"
  shows "decode_strings False (map fst fs) (json_of_strings fs) = Some fs"
proof -
  have "set_fields False (map (\<lambda>(f, s). (f, JStr s)) ws) (us @ map (\<lambda>(f, s). (f, '''')) ws) = Some (us @ ws)"
    if "distinct (map (map lower_char \<circ> fst) (us @ ws))" for us ws :: "(string \<times> string) list"
    using that
  proof (induction ws arbitrary: us)
    case Nil
    then show ?case by simp
  next
    case (Cons w ws)
    obtain f s where w: "w = (f, s)" by force
    have "map lower_char f \<notin> set (map (map lower_char \<circ> fst) us)"
      using Cons.prems by (simp add: w)
    then have "\<forall>g \<in> fst ` set us. \<not> EqualFold f g" by (auto simp: EqualFold_def)
    then show ?case using set_field_at [of us f s "''''" "map (\<lambda>(f, s). (f, '''')) ws"]
        Cons.IH [of "us @ [w]"] Cons.prems by (simp add: w)
  qed
  from this [of "[]" fs] show ?thesis using assms
    by (simp add: json_of_strings_def comp_def case_prod_beta')
qed

end
