(* ===== verification/Cache_Entry.thy ===== *)
theory Cache_Entry
  imports Json "HOL-Library.Word"
begin

unbundle bit_operations_syntax

text \<open>
  The entries of the operator cache (\<^verbatim>\<open>resolver/cache/operators.go\<close>, the keys of \<^verbatim>\<open>cache.go\<close> and the
  property types of \<^verbatim>\<open>operator-registry/pkg/registry/types.go\<close>): source keys, API sets, source infos
  and entries. Entries are passed by pointer and used as map keys; the address is a field of the
  record. A version is a value of the type \<open>'v\<close> of the semver library, and a range of that library is
  the predicate it is there.
\<close>

subsection \<open>Source keys\<close>

record SourceKey =
  sk_Name :: string
  sk_Namespace :: string

definition existingOperatorKey :: string where
  "existingOperatorKey = ''@existing''"

definition SourceKey_String :: "SourceKey \<Rightarrow> string" where
  "SourceKey_String k = sk_Name k @ ''/'' @ sk_Namespace k"

definition SourceKey_Empty :: "SourceKey \<Rightarrow> bool" where
  "SourceKey_Empty k \<longleftrightarrow> sk_Name k = '''' \<and> sk_Namespace k = ''''"

definition SourceKey_Equal :: "SourceKey \<Rightarrow> SourceKey \<Rightarrow> bool" where
  "SourceKey_Equal k compare \<longleftrightarrow> sk_Name k = sk_Name compare \<and> sk_Namespace k = sk_Namespace compare"

definition Virtual :: "SourceKey \<Rightarrow> bool" where
  "Virtual k \<longleftrightarrow> sk_Name k = existingOperatorKey \<and> sk_Namespace k \<noteq> ''''"

definition NewVirtualSourceKey :: "string \<Rightarrow> SourceKey" where
  "NewVirtualSourceKey namespace = \<lparr>sk_Name = existingOperatorKey, sk_Namespace = namespace\<rparr>"

lemma SourceKey_Equal_iff [simp]: "SourceKey_Equal k k' \<longleftrightarrow> k = k'"
  by (auto simp: SourceKey_Equal_def)

lemma Virtual_New [simp]: "Virtual (NewVirtualSourceKey ns) \<longleftrightarrow> ns \<noteq> ''''"
  by (simp add: Virtual_def NewVirtualSourceKey_def)

subsection \<open>API keys and sets\<close>

record APIKey =
  api_Group :: string
  api_Version :: string
  api_Kind :: string
  api_Plural :: string

text \<open>A set of API keys, \<^verbatim>\<open>map[opregistry.APIKey]struct{}\<close>, by the list of its keys\<close>

type_synonym APISet = "APIKey list"

definition EmptyAPISet :: APISet where
  "EmptyAPISet = []"

definition PopAPIKey :: "APISet \<Rightarrow> APIKey option \<times> APISet" where
  "PopAPIKey s = (case s of [] \<Rightarrow> (None, []) | a # _ \<Rightarrow> (Some a, removeAll a s))"

definition APIKeyToGVKString :: "APIKey \<Rightarrow> string" where
  "APIKeyToGVKString key = strings_Join [api_Kind key, api_Version key, api_Group key] ''.''"

text \<open>\<^verbatim>\<open>fnv.New64a\<close>, and \<^verbatim>\<open>%x\<close> of a 64-bit word\<close>

definition fnv64a :: "string \<Rightarrow> 64 word" where
  "fnv64a s = foldl (\<lambda>h c. (h XOR of_nat (of_char c)) * 1099511628211) 14695981039346656037 s"

definition hex_digit :: "nat \<Rightarrow> char" where
  "hex_digit d = char_of (if d < 10 then 48 + d else 87 + d)"

function hex_nat :: "nat \<Rightarrow> string" where
  "hex_nat n = (if n < 16 then [hex_digit n] else hex_nat (n div 16) @ [hex_digit (n mod 16)])"
  by pat_completeness auto
termination by (relation "measure id") auto

declare hex_nat.simps [simp del]

definition APIKeyToGVKHash :: "APIKey \<Rightarrow> string" where
  "APIKeyToGVKHash key = hex_nat (unat (fnv64a (APIKeyToGVKString key)))"

definition APISet_String :: "APISet \<Rightarrow> string" where
  "APISet_String s = strings_Join (sort (map APIKeyToGVKString s)) '',''"

definition api_add :: "APISet \<Rightarrow> APIKey \<Rightarrow> APISet" where
  "api_add s a = (if a \<in> set s then s else s @ [a])"

definition APISet_Union :: "APISet \<Rightarrow> APISet list \<Rightarrow> APISet" where
  "APISet_Union s sets = foldl (foldl api_add) (foldl api_add [] s) sets"

definition APISet_Intersection :: "APISet \<Rightarrow> APISet list \<Rightarrow> APISet" where
  "APISet_Intersection s sets =
     foldl (\<lambda>acc t. foldl (\<lambda>acc a. if a \<in> set s then api_add acc a else acc) acc t) [] sets"

definition APISet_Difference :: "APISet \<Rightarrow> APISet \<Rightarrow> APISet" where
  "APISet_Difference s t = foldl (\<lambda>acc a. removeAll a acc) (APISet_Union EmptyAPISet [s]) t"

definition APISet_IsSubset :: "APISet \<Rightarrow> APISet \<Rightarrow> bool" where
  "APISet_IsSubset s t \<longleftrightarrow> list_all (\<lambda>a. a \<in> set t) s"

definition StripPlural :: "APISet \<Rightarrow> APISet" where
  "StripPlural s = foldl api_add [] (map (\<lambda>a. a\<lparr>api_Plural := ''''\<rparr>) s)"

lemma set_api_add [simp]: "set (api_add s a) = insert a (set s)"
  by (auto simp: api_add_def)

lemma distinct_api_add [simp]: "distinct (api_add s a) = distinct s"
  by (simp add: api_add_def)

lemma set_foldl_api_add [simp]: "set (foldl api_add s t) = set s \<union> set t"
  by (induction t arbitrary: s) auto

lemma distinct_foldl_api_add [simp]: "distinct (foldl api_add s t) = distinct s"
  by (induction t arbitrary: s) auto

lemma APISet_Union_set: "set (APISet_Union s sets) = set s \<union> \<Union> (set ` set sets)"
proof -
  have "set (foldl (foldl api_add) acc sets) = set acc \<union> \<Union> (set ` set sets)" for acc
    by (induction sets arbitrary: acc) auto
  then show ?thesis by (simp add: APISet_Union_def)
qed

lemma inter_step:
  "set (foldl (\<lambda>acc a. if a \<in> set s then api_add acc a else acc) acc t) = set acc \<union> (set s \<inter> set t)"
  by (induction t arbitrary: acc) auto

lemma APISet_Intersection_set:
  "set (APISet_Intersection s sets) = set s \<inter> \<Union> (set ` set sets)"
proof -
  have "set (foldl (\<lambda>acc t. foldl (\<lambda>acc a. if a \<in> set s then api_add acc a else acc) acc t) acc sets) =
      set acc \<union> (set s \<inter> \<Union> (set ` set sets))" for acc
    by (induction sets arbitrary: acc) (auto simp: inter_step)
  then show ?thesis by (simp add: APISet_Intersection_def)
qed

lemma APISet_Difference_set: "set (APISet_Difference s t) = set s - set t"
proof -
  have "set (foldl (\<lambda>acc a. removeAll a acc) acc t) = set acc - set t" for acc
    by (induction t arbitrary: acc) auto
  then show ?thesis by (simp add: APISet_Difference_def APISet_Union_set EmptyAPISet_def)
qed

lemma StripPlural_set: "set (StripPlural s) = (\<lambda>a. a\<lparr>api_Plural := ''''\<rparr>) ` set s"
  by (simp add: StripPlural_def)

subsection \<open>Properties and entries\<close>

text \<open>\<^verbatim>\<open>api.Property\<close>, and the property types of the registry\<close>

record Property =
  p_Type :: string
  p_Value :: rawJSON

definition GVKType :: string where "GVKType = ''olm.gvk''"
definition PackageType :: string where "PackageType = ''olm.package''"
definition DeprecatedType :: string where "DeprecatedType = ''olm.deprecated''"
definition LabelType :: string where "LabelType = ''olm.label''"

record GVKProperty =
  gvk_Group :: string
  gvk_Kind :: string
  gvk_Version :: string

record PackageProperty =
  pp_PackageName :: string
  pp_Version :: string

definition unmarshal_GVK :: "rawJSON \<Rightarrow> GVKProperty option" where
  "unmarshal_GVK r =
     Option.bind (json_Unmarshal r) (\<lambda>j.
       map_option (\<lambda>fs. \<lparr>gvk_Group = field fs ''group'', gvk_Kind = field fs ''kind'',
                          gvk_Version = field fs ''version''\<rparr>)
         (decode_strings False [''group'', ''kind'', ''version''] j))"

definition unmarshal_Package :: "rawJSON \<Rightarrow> PackageProperty option" where
  "unmarshal_Package r =
     Option.bind (json_Unmarshal r) (\<lambda>j.
       map_option (\<lambda>fs. \<lparr>pp_PackageName = field fs ''packageName'', pp_Version = field fs ''version''\<rparr>)
         (decode_strings False [''packageName'', ''version''] j))"

definition unmarshal_Label :: "rawJSON \<Rightarrow> string option" where
  "unmarshal_Label r =
     Option.bind (json_Unmarshal r) (\<lambda>j.
       map_option (\<lambda>fs. field fs ''label'') (decode_strings False [''label''] j))"

text \<open>The messages of deprecations of a package, a channel and a bundle\<close>

record Deprecations =
  dep_Package :: "string option"
  dep_Channel :: "string option"
  dep_Bundle :: "string option"

text \<open>Pointers to objects the resolver only passes on are numbers.\<close>

record OperatorSourceInfo =
  si_Package :: string
  si_Channel :: string
  si_StartingCSV :: string
  si_Catalog :: SourceKey
  si_DefaultChannel :: bool
  si_Deprecations :: "Deprecations option"
  si_Subscription :: "nat option"

definition OperatorSourceInfo_String :: "OperatorSourceInfo \<Rightarrow> string" where
  "OperatorSourceInfo_String i =
     si_Package i @ ''/'' @ si_Channel i @ '' in '' @ sk_Name (si_Catalog i) @ ''/'' @
     sk_Namespace (si_Catalog i)"

record 'v Entry =
  e_addr :: nat
  e_Name :: string
  e_Replaces :: string
  e_Skips :: "string list"
  e_SkipRange :: "('v \<Rightarrow> bool) option"
  e_ProvidedAPIs :: APISet
  e_RequiredAPIs :: APISet
  e_Version :: "'v option"
  e_SourceInfo :: "OperatorSourceInfo option"
  e_Properties :: "Property list"
  e_BundlePath :: string
  e_Bundle :: "nat option"

definition Entry_Package :: "'v Entry \<Rightarrow> string" where
  "Entry_Package o' = (case e_SourceInfo o' of Some si \<Rightarrow> si_Package si | None \<Rightarrow> '''')"

definition Entry_Channel :: "'v Entry \<Rightarrow> string" where
  "Entry_Channel o' = (case e_SourceInfo o' of Some si \<Rightarrow> si_Channel si | None \<Rightarrow> '''')"

end
