(* ===== verification/Predicates.thy ===== *)
theory Predicates
  imports Cache_Entry
begin

text \<open>
  The predicates on cache entries (\<^verbatim>\<open>resolver/cache/predicates.go\<close>) and \<^verbatim>\<open>Filter\<close>, \<^verbatim>\<open>Matches\<close> and
  \<^verbatim>\<open>ExactlyOne\<close> of \<^verbatim>\<open>cache.go\<close>. A counting predicate increments the \<^verbatim>\<open>int\<close> it points to, so testing
  threads the values of the counters, by number; a nil dereference is \<open>None\<close>. The lemmas separate the
  two effects: for entries with a source, testing is the pure predicate \<open>sat\<close>, and the counters of a
  conjunction of counting predicates count the entries that pass each prefix.

  The semver and CEL libraries are third-party; what the resolver calls of them is the record \<open>libs\<close>.
\<close>

record ('v, 'p) libs =
  semver_Parse :: "string \<Rightarrow> 'v option"
  semver_ParseRange :: "string \<Rightarrow> ('v \<Rightarrow> bool) option"
  semver_String :: "'v \<Rightarrow> string"
  cel_Validate :: "string \<Rightarrow> 'p option"
  cel_Evaluate :: "'p \<Rightarrow> (string \<times> json) option list \<Rightarrow> bool option"

datatype ('v, 'p) Predicate =
    csvNamePredicate string
  | channelPredicate string
  | pkgPredicate string
  | versionInRangePredicate "'v \<Rightarrow> bool" string
  | labelPredicate string
  | catalogPredicate SourceKey
  | gvkPredicate APIKey
  | skipRangeIncludesPredication 'v
  | replacesPredicate string
  | andPredicate "('v, 'p) Predicate list"
  | orPredicate "('v, 'p) Predicate list"
  | notPredicate "('v, 'p) Predicate list"
  | booleanPredicate bool
  | countingPredicate "('v, 'p) Predicate" nat
  | celPredicate 'p string string

subsection \<open>Tests of properties\<close>

definition pkg_Test :: "string \<Rightarrow> 'v Entry \<Rightarrow> bool" where
  "pkg_Test pkg o' \<longleftrightarrow>
     list_ex (\<lambda>p. p_Type p = PackageType \<and>
       (case unmarshal_Package (p_Value p) of None \<Rightarrow> False | Some prop \<Rightarrow> pp_PackageName prop = pkg))
       (e_Properties o') \<or> Entry_Package o' = pkg"

definition versionInRange_Test :: "('v, 'p) libs \<Rightarrow> ('v \<Rightarrow> bool) \<Rightarrow> 'v Entry \<Rightarrow> bool" where
  "versionInRange_Test L r o' \<longleftrightarrow>
     list_ex (\<lambda>p. p_Type p = PackageType \<and>
       (case unmarshal_Package (p_Value p) of None \<Rightarrow> False
        | Some prop \<Rightarrow> (case semver_Parse L (pp_Version prop) of None \<Rightarrow> False | Some ver \<Rightarrow> r ver)))
       (e_Properties o') \<or> (case e_Version o' of None \<Rightarrow> False | Some v \<Rightarrow> r v)"

definition label_Test :: "string \<Rightarrow> 'v Entry \<Rightarrow> bool" where
  "label_Test l o' \<longleftrightarrow>
     list_ex (\<lambda>p. p_Type p = LabelType \<and> unmarshal_Label (p_Value p) = Some l) (e_Properties o')"

definition gvk_Test :: "APIKey \<Rightarrow> 'v Entry \<Rightarrow> bool" where
  "gvk_Test api o' \<longleftrightarrow>
     list_ex (\<lambda>p. p_Type p = GVKType \<and>
       (case unmarshal_GVK (p_Value p) of None \<Rightarrow> False
        | Some prop \<Rightarrow> gvk_Kind prop = api_Kind api \<and> gvk_Version prop = api_Version api \<and>
                      gvk_Group prop = api_Group api))
       (e_Properties o')"

definition replaces_Test :: "string \<Rightarrow> 'v Entry \<Rightarrow> bool" where
  "replaces_Test r o' \<longleftrightarrow> e_Replaces o' = r \<or> r \<in> set (e_Skips o')"

definition cel_Test :: "('v, 'p) libs \<Rightarrow> 'p \<Rightarrow> 'v Entry \<Rightarrow> bool" where
  "cel_Test L program entry =
     (let props = map (\<lambda>p. map_option (\<lambda>v. (p_Type p, v)) (json_Unmarshal (p_Value p))) (e_Properties entry)
      in case cel_Evaluate L program props of None \<Rightarrow> False | Some ok \<Rightarrow> ok)"

definition channel_Test :: "string \<Rightarrow> 'v Entry \<Rightarrow> bool" where
  "channel_Test ch o' \<longleftrightarrow> ch = '''' \<or>
     (case e_SourceInfo o' of Some si \<Rightarrow> si_Channel si = ch | None \<Rightarrow> False)"

definition skipRange_Test :: "'v \<Rightarrow> 'v Entry \<Rightarrow> bool" where
  "skipRange_Test v o' \<longleftrightarrow> (case e_SkipRange o' of None \<Rightarrow> False | Some r \<Rightarrow> r v)"

subsection \<open>Test\<close>

type_synonym counters = "nat \<Rightarrow> nat"

text \<open>The loops of \<^verbatim>\<open>andPredicate\<close> and \<^verbatim>\<open>orPredicate\<close> stop at the first predicate that decides.\<close>

fun Test :: "('v, 'p) libs \<Rightarrow> ('v, 'p) Predicate \<Rightarrow> 'v Entry \<Rightarrow> counters \<Rightarrow> (bool \<times> counters) option"
  and Test_all :: "('v, 'p) libs \<Rightarrow> ('v, 'p) Predicate list \<Rightarrow> 'v Entry \<Rightarrow> counters \<Rightarrow> (bool \<times> counters) option"
  and Test_any :: "('v, 'p) libs \<Rightarrow> ('v, 'p) Predicate list \<Rightarrow> 'v Entry \<Rightarrow> counters \<Rightarrow> (bool \<times> counters) option"
where
  "Test L (csvNamePredicate c) o' n = Some (e_Name o' = c, n)"
| "Test L (channelPredicate ch) o' n = Some (channel_Test ch o', n)"
| "Test L (pkgPredicate pkg) o' n = Some (pkg_Test pkg o', n)"
| "Test L (versionInRangePredicate r str) o' n = Some (versionInRange_Test L r o', n)"
| "Test L (labelPredicate l) o' n = Some (label_Test l o', n)"
| "Test L (catalogPredicate key) o' n =
     (case e_SourceInfo o' of None \<Rightarrow> None | Some si \<Rightarrow> Some (SourceKey_Equal key (si_Catalog si), n))"
| "Test L (gvkPredicate api) o' n = Some (gvk_Test api o', n)"
| "Test L (skipRangeIncludesPredication v) o' n = Some (skipRange_Test v o', n)"
| "Test L (replacesPredicate r) o' n = Some (replaces_Test r o', n)"
| "Test L (andPredicate ps) o' n = Test_all L ps o' n"
| "Test L (orPredicate ps) o' n = Test_any L ps o' n"
| "Test L (notPredicate ps) o' n = map_option (\<lambda>(b, n). (\<not> b, n)) (Test_any L ps o' n)"
| "Test L (booleanPredicate b) o' n = Some (b, n)"
| "Test L (countingPredicate p i) o' n =
     map_option (\<lambda>(b, n). if b then (True, n(i := Suc (n i))) else (False, n)) (Test L p o' n)"
| "Test L (celPredicate program rule failureMessage) o' n = Some (cel_Test L program o', n)"
| "Test_all L [] o' n = Some (True, n)"
| "Test_all L (p # ps) o' n =
     (case Test L p o' n of
        None \<Rightarrow> None
      | Some (b, n) \<Rightarrow> (if b then Test_all L ps o' n else Some (False, n)))"
| "Test_any L [] o' n = Some (False, n)"
| "Test_any L (p # ps) o' n =
     (case Test L p o' n of
        None \<Rightarrow> None
      | Some (b, n) \<Rightarrow> (if b then Some (True, n) else Test_any L ps o' n))"

definition Matches ::
    "('v, 'p) libs \<Rightarrow> 'v Entry \<Rightarrow> ('v, 'p) Predicate list \<Rightarrow> counters \<Rightarrow> (bool \<times> counters) option" where
  "Matches L o' ps n = Test L (andPredicate ps) o' n"

fun Filter ::
    "('v, 'p) libs \<Rightarrow> 'v Entry list \<Rightarrow> ('v, 'p) Predicate list \<Rightarrow> counters \<Rightarrow>
     ('v Entry list \<times> counters) option" where
  "Filter L [] ps n = Some ([], n)"
| "Filter L (o' # operators) ps n =
     (case Matches L o' ps n of
        None \<Rightarrow> None
      | Some (b, n) \<Rightarrow>
          map_option (\<lambda>(result, n). (if b then o' # result else result, n)) (Filter L operators ps n))"

definition ExactlyOne :: "'v Entry list \<Rightarrow> 'v Entry option" where
  "ExactlyOne operators = (if length operators \<noteq> 1 then None else Some (operators ! 0))"

subsection \<open>Rendering\<close>

definition go_quote :: "string \<Rightarrow> string" where
  "go_quote s = [CHR 0x22] @ concat (map (\<lambda>c.
     if c = CHR 0x22 then [CHR 0x5C, CHR 0x22] else if c = CHR 0x5C then [CHR 0x5C, CHR 0x5C]
     else if c = CHR 0x0A then [CHR 0x5C, CHR ''n''] else if c = CHR 0x09 then [CHR 0x5C, CHR ''t'']
     else [c]) s) @ [CHR 0x22]"

fun Predicate_String :: "('v, 'p) libs \<Rightarrow> ('v, 'p) Predicate \<Rightarrow> string" where
  "Predicate_String L (csvNamePredicate c) = ''with name: '' @ c"
| "Predicate_String L (channelPredicate ch) = ''with channel: '' @ ch"
| "Predicate_String L (pkgPredicate pkg) = ''with package: '' @ pkg"
| "Predicate_String L (versionInRangePredicate r str) = ''with version in range: '' @ str"
| "Predicate_String L (labelPredicate l) = ''with label: '' @ l"
| "Predicate_String L (catalogPredicate key) =
     ''from catalog: '' @ sk_Namespace key @ ''/'' @ sk_Name key"
| "Predicate_String L (gvkPredicate api) =
     ''providing an API with group: '' @ api_Group api @ '', version: '' @ api_Version api @
     '', kind: '' @ api_Kind api"
| "Predicate_String L (skipRangeIncludesPredication v) = ''skip range includes: '' @ semver_String L v"
| "Predicate_String L (replacesPredicate r) = ''replaces: '' @ r"
| "Predicate_String L (andPredicate ps) = strings_Join (map (Predicate_String L) ps) '' and ''"
| "Predicate_String L (orPredicate ps) = strings_Join (map (Predicate_String L) ps) '' or ''"
| "Predicate_String L (notPredicate ps) = strings_Join (map (Predicate_String L) ps) '' and not ''"
| "Predicate_String L (booleanPredicate b) = (if b then ''predicate is true'' else ''predicate is false'')"
| "Predicate_String L (countingPredicate p i) = Predicate_String L p"
| "Predicate_String L (celPredicate program rule failureMessage) =
     ''with constraint: '' @ go_quote rule @ '' and message: '' @ go_quote failureMessage"

definition CreateCelPredicate :: "('v, 'p) libs \<Rightarrow> string \<Rightarrow> string \<Rightarrow> ('v, 'p) Predicate option" where
  "CreateCelPredicate L rule failureMessage =
     map_option (\<lambda>prog. celPredicate prog rule failureMessage) (cel_Validate L rule)"

subsection \<open>What testing decides\<close>

fun sat :: "('v, 'p) libs \<Rightarrow> ('v, 'p) Predicate \<Rightarrow> 'v Entry \<Rightarrow> bool" where
  "sat L (csvNamePredicate c) o' = (e_Name o' = c)"
| "sat L (channelPredicate ch) o' = channel_Test ch o'"
| "sat L (pkgPredicate pkg) o' = pkg_Test pkg o'"
| "sat L (versionInRangePredicate r str) o' = versionInRange_Test L r o'"
| "sat L (labelPredicate l) o' = label_Test l o'"
| "sat L (catalogPredicate key) o' = (\<exists>si. e_SourceInfo o' = Some si \<and> si_Catalog si = key)"
| "sat L (gvkPredicate api) o' = gvk_Test api o'"
| "sat L (skipRangeIncludesPredication v) o' = skipRange_Test v o'"
| "sat L (replacesPredicate r) o' = replaces_Test r o'"
| "sat L (andPredicate ps) o' = (\<forall>p \<in> set ps. sat L p o')"
| "sat L (orPredicate ps) o' = (\<exists>p \<in> set ps. sat L p o')"
| "sat L (notPredicate ps) o' = (\<forall>p \<in> set ps. \<not> sat L p o')"
| "sat L (booleanPredicate b) o' = b"
| "sat L (countingPredicate p i) o' = sat L p o'"
| "sat L (celPredicate program rule failureMessage) o' = cel_Test L program o'"

lemma Test_sat:
  fixes p :: "('v, 'p) Predicate" and ps :: "('v, 'p) Predicate list"
  assumes "e_SourceInfo o' \<noteq> None"
  shows "\<exists>n'. Test L p o' n = Some (sat L p o', n')"
    and "\<exists>n'. Test_all L ps o' n = Some (\<forall>p \<in> set ps. sat L p o', n')"
    and "\<exists>n'. Test_any L ps o' n = Some (\<exists>p \<in> set ps. sat L p o', n')"
  using assms
proof (induction L p o' n and L ps o' n and L ps o' n rule: Test_Test_all_Test_any.induct)
  case (6 L key o' n)
  then show ?case by auto
next
  case (14 L p i o' n)
  then show ?case by (cases "sat L p o'") auto
next
  case (17 L p ps o' n)
  then show ?case by (cases "sat L p o'") fastforce+
next
  case (19 L p ps o' n)
  then show ?case by (cases "sat L p o'") fastforce+
qed auto

definition sourced :: "'v Entry \<Rightarrow> bool" where
  "sourced e \<longleftrightarrow> e_SourceInfo e \<noteq> None"

lemma Matches_sat: "sourced e \<Longrightarrow> \<exists>n'. Matches L e ps n = Some (\<forall>p \<in> set ps. sat L p e, n')"
  using Test_sat(1) [of e L "andPredicate ps" n] by (simp add: Matches_def sourced_def)

lemma Filter_sat:
  "\<forall>e \<in> set es. sourced e \<Longrightarrow>
   \<exists>n'. Filter L es ps n = Some (filter (\<lambda>e. \<forall>p \<in> set ps. sat L p e) es, n')"
proof (induction es arbitrary: n)
  case (Cons e es)
  obtain n1 where 1: "Matches L e ps n = Some (\<forall>p \<in> set ps. sat L p e, n1)"
    using Matches_sat Cons.prems by force
  obtain n2 where "Filter L es ps n1 = Some (filter (\<lambda>e. \<forall>p \<in> set ps. sat L p e) es, n2)"
    using Cons.IH [of n1] Cons.prems by auto
  then show ?case using 1 by simp
qed simp

subsection \<open>What counting predicates count\<close>

text \<open>\<open>plain p\<close>: testing \<open>p\<close> changes no counter.\<close>

fun plain :: "('v, 'p) Predicate \<Rightarrow> bool" where
  "plain (countingPredicate p i) = False"
| "plain (andPredicate ps) = list_all plain ps"
| "plain (orPredicate ps) = list_all plain ps"
| "plain (notPredicate ps) = list_all plain ps"
| "plain _ = True"

lemma Test_plain:
  fixes p :: "('v, 'p) Predicate" and ps :: "('v, 'p) Predicate list"
  shows "plain p \<Longrightarrow> Test L p o' n = Some (b, n') \<Longrightarrow> n' = n"
    and "list_all plain ps \<Longrightarrow> Test_all L ps o' n = Some (b, n') \<Longrightarrow> n' = n"
    and "list_all plain ps \<Longrightarrow> Test_any L ps o' n = Some (b, n') \<Longrightarrow> n' = n"
proof (induction L p o' n and L ps o' n and L ps o' n arbitrary: b n' and b n' and b n'
    rule: Test_Test_all_Test_any.induct)
  case (6 L key o' n)
  then show ?case by (auto split: option.splits)
next
  case (17 L p ps o' n)
  obtain b1 n1 where 1: "Test L p o' n = Some (b1, n1)" using "17.prems"(2) by (auto split: option.splits)
  have "n1 = n" using "17.IH"(1) [OF _ 1] "17.prems"(1) by simp
  then show ?case using 1 "17.IH"(2) [OF 1 refl] "17.prems" by (cases b1) simp_all
next
  case (19 L p ps o' n)
  obtain b1 n1 where 1: "Test L p o' n = Some (b1, n1)" using "19.prems"(2) by (auto split: option.splits)
  have "n1 = n" using "19.IH"(1) [OF _ 1] "19.prems"(1) by simp
  then show ?case using 1 "19.IH"(2) [OF 1 refl] "19.prems" by (cases b1) simp_all
qed auto

abbreviation counting :: "(('v, 'p) Predicate \<times> nat) list \<Rightarrow> ('v, 'p) Predicate list" where
  "counting cs \<equiv> map (\<lambda>(p, i). countingPredicate p i) cs"

lemma Test_counting:
  assumes "sourced e" and "plain p"
  shows "Test L (countingPredicate p i) e n = Some (sat L p e, if sat L p e then n(i := Suc (n i)) else n)"
proof -
  obtain n' where n': "Test L p e n = Some (sat L p e, n')"
    using Test_sat(1) [of e L p n] assms(1) unfolding sourced_def by blast
  have "n' = n" by (rule Test_plain(1) [OF assms(2) n'])
  then show ?thesis using n' by simp
qed

lemma Test_all_counting:
  assumes "sourced e" and "\<forall>(p, i) \<in> set cs. plain p" and "distinct (map snd cs)"
  shows "\<exists>n'. Test_all L (counting cs) e n = Some (\<forall>(p, i) \<in> set cs. sat L p e, n') \<and>
    (\<forall>j. j \<notin> snd ` set cs \<longrightarrow> n' j = n j) \<and>
    (\<forall>k < length cs. n' (snd (cs ! k)) =
       n (snd (cs ! k)) + (if \<forall>(p, i) \<in> set (take (Suc k) cs). sat L p e then 1 else 0))"
  using assms(2,3)
proof (induction cs arbitrary: n)
  case (Cons c cs)
  obtain p i where c: "c = (p, i)" by force
  have pl: "plain p" using Cons.prems by (simp add: c)
  note t = Test_counting [OF assms(1) pl, of L i n]
  show ?case
  proof (cases "sat L p e")
    case True
    define n0 where "n0 = n(i := Suc (n i))"
    obtain n' where n': "Test_all L (counting cs) e n0 = Some (\<forall>(p, i) \<in> set cs. sat L p e, n')"
        "\<forall>j. j \<notin> snd ` set cs \<longrightarrow> n' j = n0 j"
        "\<forall>k < length cs. n' (snd (cs ! k)) =
           n0 (snd (cs ! k)) + (if \<forall>(p, i) \<in> set (take (Suc k) cs). sat L p e then 1 else 0)"
      using Cons.IH [of n0] Cons.prems by auto
    have i: "i \<notin> snd ` set cs" using Cons.prems by (simp add: c)
    have "n' (snd ((c # cs) ! k)) = n (snd ((c # cs) ! k)) +
        (if \<forall>(p, i) \<in> set (take (Suc k) (c # cs)). sat L p e then 1 else 0)"
      if k: "k < length (c # cs)" for k
    proof (cases k)
      case 0
      then show ?thesis using True n'(2) i by (simp add: c n0_def)
    next
      case (Suc m)
      then have "snd (cs ! m) \<noteq> i" using i k nth_mem [of m cs] by auto
      then show ?thesis using Suc k n'(3) True by (simp add: c n0_def)
    qed
    then show ?thesis using t True n'(1,2) i by (intro exI [of _ n']) (auto simp: c n0_def)
  next
    case False
    then show ?thesis using t by (intro exI [of _ n]) (auto simp: c)
  qed
qed simp

text \<open>
  Filtering by a conjunction of counting predicates leaves in each counter the number of entries
  that satisfy the predicates up to it.
\<close>

lemma Filter_counting:
  assumes "\<forall>e \<in> set es. sourced e" and "\<forall>(p, i) \<in> set cs. plain p" and "distinct (map snd cs)"
  shows "\<exists>n'. Filter L es [andPredicate (counting cs)] n =
      Some (filter (\<lambda>e. \<forall>(p, i) \<in> set cs. sat L p e) es, n') \<and>
    (\<forall>k < length cs. n' (snd (cs ! k)) = n (snd (cs ! k)) +
       length (filter (\<lambda>e. \<forall>(p, i) \<in> set (take (Suc k) cs). sat L p e) es))"
  using assms(1)
proof (induction es arbitrary: n)
  case (Cons e es)
  obtain n1 where 1: "Test_all L (counting cs) e n = Some (\<forall>(p, i) \<in> set cs. sat L p e, n1)"
      "\<forall>k < length cs. n1 (snd (cs ! k)) =
         n (snd (cs ! k)) + (if \<forall>(p, i) \<in> set (take (Suc k) cs). sat L p e then 1 else 0)"
    using Test_all_counting [OF _ assms(2,3), of e L n] Cons.prems by auto
  obtain n2 where 2: "Filter L es [andPredicate (counting cs)] n1 =
      Some (filter (\<lambda>e. \<forall>(p, i) \<in> set cs. sat L p e) es, n2)"
      "\<forall>k < length cs. n2 (snd (cs ! k)) = n1 (snd (cs ! k)) +
         length (filter (\<lambda>e. \<forall>(p, i) \<in> set (take (Suc k) cs). sat L p e) es)"
    using Cons.IH [of n1] Cons.prems by auto
  have "Matches L e [andPredicate (counting cs)] n = Some (\<forall>(p, i) \<in> set cs. sat L p e, n1)"
    using 1(1) by (simp add: Matches_def)
  then show ?case using 1(2) 2 by (intro exI [of _ n2]) simp
qed simp

end
