(* ===== verification/Olm_Constraints.thy ===== *)
theory Olm_Constraints
  imports Predicates
begin

text \<open>
  Dependency constraints: the parser of \<^verbatim>\<open>api/pkg/constraints/constraint.go\<close> and their conversion to
  predicates by \<^verbatim>\<open>predicateConverter\<close> in \<^verbatim>\<open>resolver.go\<close>. A compound constraint converts to the predicate
  of its boolean meaning, and conversion fails exactly when some part is empty or has an invalid range
  or rule.
\<close>

subsection \<open>Parsing\<close>

datatype Constraint = Constraint
  (c_FailureMessage: string)
  (c_Cel: "string option")
  (c_Package: "(string \<times> string) option")
  (c_GVK: "GVKProperty option")
  (c_All: "Constraint list option")
  (c_Any: "Constraint list option")
  (c_Not: "Constraint list option")

definition OLMConstraintType :: string where
  "OLMConstraintType = ''olm.constraint''"

definition maxConstraintSize :: nat where
  "maxConstraintSize = push_bit 16 2"

datatype conversion_error =
    ErrMaxConstraintSizeExceeded
  | ErrJSON
  | ErrRange string
  | ErrCel string
  | ErrEmptyConstraint
  | ParseOlmConstraint conversion_error
  | ConvertOlmConstraint conversion_error

definition emptyConstraint :: Constraint where
  "emptyConstraint = Constraint '''' None None None None None None"

text \<open>Decoding a pointer to a struct of strings: \<^verbatim>\<open>null\<close> is the nil pointer.\<close>

definition decode_ptr :: "string list \<Rightarrow> json \<Rightarrow> (string \<times> string) list option option" where
  "decode_ptr names j = (if j = JNull then Some None else map_option Some (decode_strings True names j))"

definition with_FailureMessage :: "json \<Rightarrow> Constraint \<Rightarrow> Constraint option" where
  "with_FailureMessage j c = (case c of Constraint fm cel pkg gvk al an no \<Rightarrow>
     map_option (\<lambda>fm. Constraint fm cel pkg gvk al an no) (decode_string fm j))"

definition with_Cel :: "json \<Rightarrow> Constraint \<Rightarrow> Constraint option" where
  "with_Cel j c = (case c of Constraint fm cel pkg gvk al an no \<Rightarrow>
     map_option (\<lambda>p. Constraint fm (map_option (\<lambda>fs. field fs ''rule'') p) pkg gvk al an no)
       (decode_ptr [''rule''] j))"

definition with_Package :: "json \<Rightarrow> Constraint \<Rightarrow> Constraint option" where
  "with_Package j c = (case c of Constraint fm cel pkg gvk al an no \<Rightarrow>
     map_option (\<lambda>p. Constraint fm cel
         (map_option (\<lambda>fs. (field fs ''packageName'', field fs ''versionRange'')) p) gvk al an no)
       (decode_ptr [''packageName'', ''versionRange''] j))"

definition with_GVK :: "json \<Rightarrow> Constraint \<Rightarrow> Constraint option" where
  "with_GVK j c = (case c of Constraint fm cel pkg gvk al an no \<Rightarrow>
     map_option (\<lambda>p. Constraint fm cel pkg
         (map_option (\<lambda>fs. \<lparr>gvk_Group = field fs ''group'', gvk_Kind = field fs ''kind'',
                             gvk_Version = field fs ''version''\<rparr>) p) al an no)
       (decode_ptr [''group'', ''kind'', ''version''] j))"

fun with_All :: "Constraint list option \<Rightarrow> Constraint \<Rightarrow> Constraint" where
  "with_All p (Constraint fm cel pkg gvk al an no) = Constraint fm cel pkg gvk p an no"

fun with_Any :: "Constraint list option \<Rightarrow> Constraint \<Rightarrow> Constraint" where
  "with_Any p (Constraint fm cel pkg gvk al an no) = Constraint fm cel pkg gvk al p no"

fun with_Not :: "Constraint list option \<Rightarrow> Constraint \<Rightarrow> Constraint" where
  "with_Not p (Constraint fm cel pkg gvk al an no) = Constraint fm cel pkg gvk al an p"

text \<open>
  The decoder with \<^verbatim>\<open>DisallowUnknownFields\<close>: a constraint, its members, a compound constraint, its
  members, and a list of constraints
\<close>

fun decode_Constraint :: "json \<Rightarrow> Constraint option"
  and decode_members :: "(string \<times> json) list \<Rightarrow> Constraint \<Rightarrow> Constraint option"
  and decode_Compound :: "json \<Rightarrow> Constraint list option option"
  and decode_compound_members :: "(string \<times> json) list \<Rightarrow> Constraint list \<Rightarrow> Constraint list option"
  and decode_list :: "json list \<Rightarrow> Constraint list option"
where
  "decode_Constraint (JObj ms) = decode_members ms emptyConstraint"
| "decode_Constraint JNull = Some emptyConstraint"
| "decode_Constraint _ = None"
| "decode_members [] c = Some c"
| "decode_members ((key, j) # ms) c =
     Option.bind
       (if EqualFold key ''failureMessage'' then with_FailureMessage j c
        else if EqualFold key ''cel'' then with_Cel j c
        else if EqualFold key ''package'' then with_Package j c
        else if EqualFold key ''gvk'' then with_GVK j c
        else if EqualFold key ''all'' then map_option (\<lambda>p. with_All p c) (decode_Compound j)
        else if EqualFold key ''any'' then map_option (\<lambda>p. with_Any p c) (decode_Compound j)
        else if EqualFold key ''not'' then map_option (\<lambda>p. with_Not p c) (decode_Compound j)
        else None)
       (decode_members ms)"
| "decode_Compound (JObj ms) = map_option Some (decode_compound_members ms [])"
| "decode_Compound JNull = Some None"
| "decode_Compound _ = None"
| "decode_compound_members [] cs = Some cs"
| "decode_compound_members ((key, j) # ms) cs =
     (if EqualFold key ''constraints''
      then (case j of
              JArr js \<Rightarrow> Option.bind (decode_list js) (decode_compound_members ms)
            | JNull \<Rightarrow> decode_compound_members ms []
            | _ \<Rightarrow> None)
      else None)"
| "decode_list [] = Some []"
| "decode_list (j # js) =
     (case decode_Constraint j of None \<Rightarrow> None
      | Some c \<Rightarrow> map_option (\<lambda>cs. c # cs) (decode_list js))"

definition Parse :: "rawJSON \<Rightarrow> conversion_error + Constraint" where
  "Parse v =
     (if raw_len v > maxConstraintSize then Inl ErrMaxConstraintSizeExceeded
      else case Option.bind (raw_doc v) decode_Constraint of
             None \<Rightarrow> Inl ErrJSON
           | Some c \<Rightarrow> Inr c)"

subsection \<open>Conversion to predicates\<close>

definition newPackageRequiredPredicate ::
    "('v, 'p) libs \<Rightarrow> string \<Rightarrow> string \<Rightarrow> conversion_error + ('v, 'p) Predicate" where
  "newPackageRequiredPredicate L name verRange =
     (case semver_ParseRange L verRange of
        None \<Rightarrow> Inl (ErrRange verRange)
      | Some ver \<Rightarrow> Inr (andPredicate [pkgPredicate name, versionInRangePredicate ver verRange]))"

definition gvk_APIKey :: "GVKProperty \<Rightarrow> APIKey" where
  "gvk_APIKey g = \<lparr>api_Group = gvk_Group g, api_Version = gvk_Version g, api_Kind = gvk_Kind g,
                   api_Plural = ''''\<rparr>"

fun convertConstraint ::
    "('v, 'p) libs \<Rightarrow> Constraint \<Rightarrow> conversion_error + ('v, 'p) Predicate"
  and convertConstraints ::
    "('v, 'p) libs \<Rightarrow> Constraint list \<Rightarrow> conversion_error + ('v, 'p) Predicate list"
where
  "convertConstraint L (Constraint fm cel pkg gvk al an no) =
     (case gvk of Some g \<Rightarrow> Inr (gvkPredicate (gvk_APIKey g)) | None \<Rightarrow>
      case pkg of Some (name, vrange) \<Rightarrow> newPackageRequiredPredicate L name vrange | None \<Rightarrow>
      case al of Some cs \<Rightarrow> map_sum id andPredicate (convertConstraints L cs) | None \<Rightarrow>
      case an of Some cs \<Rightarrow> map_sum id orPredicate (convertConstraints L cs) | None \<Rightarrow>
      case no of Some cs \<Rightarrow> map_sum id notPredicate (convertConstraints L cs) | None \<Rightarrow>
      case cel of
        Some rule \<Rightarrow> (case CreateCelPredicate L rule fm of None \<Rightarrow> Inl (ErrCel rule) | Some p \<Rightarrow> Inr p)
      | None \<Rightarrow> Inl ErrEmptyConstraint)"
| "convertConstraints L [] = Inr []"
| "convertConstraints L (c # cs) =
     (case convertConstraint L c of
        Inl err \<Rightarrow> Inl err
      | Inr p \<Rightarrow> map_sum id (\<lambda>ps. p # ps) (convertConstraints L cs))"

definition predicateForConstraintProperty ::
    "('v, 'p) libs \<Rightarrow> rawJSON \<Rightarrow> conversion_error + ('v, 'p) Predicate" where
  "predicateForConstraintProperty L value =
     (case Parse value of
        Inl err \<Rightarrow> Inl (ParseOlmConstraint err)
      | Inr constraint \<Rightarrow>
          (case convertConstraints L [constraint] of
             Inl err \<Rightarrow> Inl (ConvertOlmConstraint err)
           | Inr preds \<Rightarrow> Inr (preds ! 0)))"

definition predicateForRequiredGVKProperty ::
    "rawJSON \<Rightarrow> conversion_error + ('v, 'p) Predicate" where
  "predicateForRequiredGVKProperty value =
     (case unmarshal_GVK value of
        None \<Rightarrow> Inl ErrJSON
      | Some gvk \<Rightarrow> Inr (gvkPredicate (gvk_APIKey gvk)))"

definition predicateForRequiredPackageProperty ::
    "('v, 'p) libs \<Rightarrow> rawJSON \<Rightarrow> conversion_error + ('v, 'p) Predicate" where
  "predicateForRequiredPackageProperty L value =
     (case Option.bind (json_Unmarshal value) (decode_strings False [''packageName'', ''versionRange'']) of
        None \<Rightarrow> Inl ErrJSON
      | Some fs \<Rightarrow> newPackageRequiredPredicate L (field fs ''packageName'') (field fs ''versionRange''))"

definition predicateForRequiredLabelProperty ::
    "rawJSON \<Rightarrow> conversion_error + ('v, 'p) Predicate" where
  "predicateForRequiredLabelProperty value =
     (case unmarshal_Label value of
        None \<Rightarrow> Inl ErrJSON
      | Some label \<Rightarrow> Inr (labelPredicate label))"

text \<open>\<open>Inr None\<close> is the nil predicate of a property that is no dependency.\<close>

definition predicateForProperty ::
    "('v, 'p) libs \<Rightarrow> Property \<Rightarrow> conversion_error + ('v, 'p) Predicate option" where
  "predicateForProperty L property =
     (if p_Type property = OLMConstraintType
      then map_sum id Some (predicateForConstraintProperty L (p_Value property))
      else if p_Type property = ''olm.gvk.required''
      then map_sum id Some (predicateForRequiredGVKProperty (p_Value property))
      else if p_Type property = ''olm.package.required''
      then map_sum id Some (predicateForRequiredPackageProperty L (p_Value property))
      else if p_Type property = ''olm.label.required''
      then map_sum id Some (predicateForRequiredLabelProperty (p_Value property))
      else Inr None)"

fun convertDependencyProperties ::
    "('v, 'p) libs \<Rightarrow> Property list \<Rightarrow> conversion_error + ('v, 'p) Predicate list" where
  "convertDependencyProperties L [] = Inr []"
| "convertDependencyProperties L (property # properties) =
     (case predicateForProperty L property of
        Inl err \<Rightarrow> Inl err
      | Inr predicate \<Rightarrow>
          map_sum id (\<lambda>ps. case predicate of None \<Rightarrow> ps | Some p \<Rightarrow> p # ps)
            (convertDependencyProperties L properties))"

subsection \<open>The meaning of constraints\<close>

text \<open>
  A constraint with several parts means the first of them in the order GVK, package, all, any, not,
  CEL rule.
\<close>

fun meets :: "('v, 'p) libs \<Rightarrow> Constraint \<Rightarrow> 'v Entry \<Rightarrow> bool" where
  "meets L (Constraint fm cel pkg gvk al an no) e =
     (case gvk of Some g \<Rightarrow> gvk_Test (gvk_APIKey g) e | None \<Rightarrow>
      case pkg of
        Some (name, vrange) \<Rightarrow> pkg_Test name e \<and>
          (case semver_ParseRange L vrange of None \<Rightarrow> False | Some r \<Rightarrow> versionInRange_Test L r e)
      | None \<Rightarrow>
      case al of Some cs \<Rightarrow> (\<forall>c \<in> set cs. meets L c e) | None \<Rightarrow>
      case an of Some cs \<Rightarrow> (\<exists>c \<in> set cs. meets L c e) | None \<Rightarrow>
      case no of Some cs \<Rightarrow> (\<forall>c \<in> set cs. \<not> meets L c e) | None \<Rightarrow>
      case cel of
        Some rule \<Rightarrow> (case cel_Validate L rule of None \<Rightarrow> False | Some prog \<Rightarrow> cel_Test L prog e)
      | None \<Rightarrow> False)"

text \<open>\<open>convertible L c\<close>: every part that conversion reaches is valid.\<close>

fun convertible :: "('v, 'p) libs \<Rightarrow> Constraint \<Rightarrow> bool" where
  "convertible L (Constraint fm cel pkg gvk al an no) =
     (case gvk of Some g \<Rightarrow> True | None \<Rightarrow>
      case pkg of Some (name, vrange) \<Rightarrow> semver_ParseRange L vrange \<noteq> None | None \<Rightarrow>
      case al of Some cs \<Rightarrow> (\<forall>c \<in> set cs. convertible L c) | None \<Rightarrow>
      case an of Some cs \<Rightarrow> (\<forall>c \<in> set cs. convertible L c) | None \<Rightarrow>
      case no of Some cs \<Rightarrow> (\<forall>c \<in> set cs. convertible L c) | None \<Rightarrow>
      case cel of Some rule \<Rightarrow> cel_Validate L rule \<noteq> None | None \<Rightarrow> False)"

text \<open>The predicate of a constraint has its meaning, and conversion gives one for convertible ones.\<close>

definition converts :: "('v, 'p) libs \<Rightarrow> Constraint \<Rightarrow> conversion_error + ('v, 'p) Predicate \<Rightarrow> bool" where
  "converts L c r \<longleftrightarrow>
     (case r of
        Inl err \<Rightarrow> \<not> convertible L c
      | Inr p \<Rightarrow> convertible L c \<and> plain p \<and> (\<forall>e. sat L p e = meets L c e))"

definition converts_list ::
    "('v, 'p) libs \<Rightarrow> Constraint list \<Rightarrow> conversion_error + ('v, 'p) Predicate list \<Rightarrow> bool" where
  "converts_list L cs r \<longleftrightarrow>
     (case r of
        Inl err \<Rightarrow> \<not> (\<forall>c \<in> set cs. convertible L c)
      | Inr ps \<Rightarrow> (\<forall>c \<in> set cs. convertible L c) \<and>
          list_all2 (\<lambda>c p. plain p \<and> (\<forall>e. sat L p e = meets L c e)) cs ps)"

lemma list_all2_sat:
  assumes "list_all2 (\<lambda>c p. plain p \<and> (\<forall>e. sat L p e = meets L c e)) cs ps"
  shows "(\<forall>p \<in> set ps. sat L p e) = (\<forall>c \<in> set cs. meets L c e)"
    "(\<exists>p \<in> set ps. sat L p e) = (\<exists>c \<in> set cs. meets L c e)"
    "(\<forall>p \<in> set ps. \<not> sat L p e) = (\<forall>c \<in> set cs. \<not> meets L c e)" "list_all plain ps"
  using assms by (induction rule: list_all2_induct) auto

text \<open>Compound constraints, given that their parts convert\<close>

lemma converts_compound:
  assumes "converts_list L cs (convertConstraints L cs)"
  shows "converts L (Constraint fm cel None None (Some cs) an no)
      (convertConstraint L (Constraint fm cel None None (Some cs) an no))"
    "converts L (Constraint fm cel None None None (Some cs) no)
      (convertConstraint L (Constraint fm cel None None None (Some cs) no))"
    "converts L (Constraint fm cel None None None None (Some cs))
      (convertConstraint L (Constraint fm cel None None None None (Some cs)))"
  using assms
  by (cases "convertConstraints L cs"; auto simp: converts_def converts_list_def list_all2_sat)+

lemma convert_correct:
  fixes L :: "('v, 'p) libs"
  shows "converts L c (convertConstraint L c)" and "converts_list L cs (convertConstraints L cs)"
proof (induction L c and L cs rule: convertConstraint_convertConstraints.induct)
  case (1 L fm cel pkg gvk al an no)
  consider "gvk \<noteq> None" | "gvk = None" "pkg \<noteq> None" | cs where "gvk = None" "pkg = None" "al = Some cs"
    | cs where "gvk = None" "pkg = None" "al = None" "an = Some cs"
    | cs where "gvk = None" "pkg = None" "al = None" "an = None" "no = Some cs"
    | "gvk = None" "pkg = None" "al = None" "an = None" "no = None"
    by (cases gvk; cases pkg; cases al; cases an; cases no) auto
  then show ?case
  proof cases
    case 6
    then show ?thesis
      by (auto simp: converts_def CreateCelPredicate_def split: option.splits)
  qed (use 1 converts_compound in \<open>auto simp: converts_def newPackageRequiredPredicate_def split: option.splits\<close>)
next
  case (2 L)
  then show ?case by (simp add: converts_list_def)
next
  case (3 L c cs)
  show ?case
  proof (cases "convertConstraint L c")
    case (Inl err)
    then show ?thesis using 3(1) by (simp add: converts_def converts_list_def)
  next
    case (Inr p)
    then have "converts_list L cs (convertConstraints L cs)" using 3(2) by simp
    then show ?thesis using 3(1) Inr
      by (cases "convertConstraints L cs") (auto simp: converts_def converts_list_def)
  qed
qed

end
