(* ===== verification/Api_Properties.thy ===== *)
theory Api_Properties
  imports Olm_Constraints
begin

text \<open>
  Properties made from API sets (\<^verbatim>\<open>providedAPIsToProperties\<close> and \<^verbatim>\<open>requiredAPIsToProperties\<close> of \<^verbatim>\<open>resolver.go\<close>) and the
  annotation that carries properties on an installed operator (\<^verbatim>\<open>projection/properties.go\<close>).

  The properties are sorted by their JSON text, so the text \<^verbatim>\<open>json.Marshal\<close> gives to a struct of strings is
  modelled too. Bytes above 127 are copied, which is what happens to valid UTF-8 other than the line
  separators U+2028 and U+2029.
\<close>

subsection \<open>The text of a struct of strings\<close>

definition json_escape :: "char \<Rightarrow> string" where
  "json_escape c =
     (let n = of_char c :: nat in
      if n = 34 then [CHR 0x5C, CHR 0x22]
      else if n = 92 then [CHR 0x5C, CHR 0x5C]
      else if n = 8 then [CHR 0x5C, CHR ''b'']
      else if n = 12 then [CHR 0x5C, CHR ''f'']
      else if n = 10 then [CHR 0x5C, CHR ''n'']
      else if n = 13 then [CHR 0x5C, CHR ''r'']
      else if n = 9 then [CHR 0x5C, CHR ''t'']
      else if n < 32 \<or> n = 38 \<or> n = 60 \<or> n = 62
      then [CHR 0x5C, CHR ''u'', CHR ''0'', CHR ''0'', hex_digit (n div 16), hex_digit (n mod 16)]
      else [c])"

definition json_quote :: "string \<Rightarrow> string" where
  "json_quote s = CHR 0x22 # concat (map json_escape s) @ [CHR 0x22]"

definition marshal_text :: "(string \<times> string) list \<Rightarrow> string" where
  "marshal_text fs = ''{'' @ strings_Join (map (\<lambda>(f, s). json_quote f @ '':'' @ json_quote s) fs) '','' @ ''}''"

definition json_Marshal :: "(string \<times> string) list \<Rightarrow> rawJSON" where
  "json_Marshal fs = \<lparr>raw_doc = Some (json_of_strings fs), raw_len = length (marshal_text fs), raw_more = False\<rparr>"

subsection \<open>API sets as properties\<close>

definition provided_fields :: "APIKey \<Rightarrow> (string \<times> string) list" where
  "provided_fields a = [(''group'', api_Group a), (''kind'', api_Kind a), (''version'', api_Version a)]"

definition required_fields :: "APIKey \<Rightarrow> (string \<times> string) list" where
  "required_fields a = [(''group'', api_Group a), (''version'', api_Version a), (''kind'', api_Kind a)]"

text \<open>Each property with the text of its value, which it is sorted by\<close>

definition sorted_properties :: "string \<Rightarrow> (string \<times> string) list list \<Rightarrow> Property list" where
  "sorted_properties t vals =
     map snd (go_sort (\<lambda>i j. fst i < fst j)
       (map (\<lambda>fs. (marshal_text fs, \<lparr>p_Type = t, p_Value = json_Marshal fs\<rparr>)) vals))"

definition providedAPIsToProperties :: "APISet \<Rightarrow> Property list" where
  "providedAPIsToProperties apis = sorted_properties GVKType (map provided_fields apis)"

definition requiredAPIsToProperties :: "APISet \<Rightarrow> Property list" where
  "requiredAPIsToProperties apis = sorted_properties ''olm.gvk.required'' (map required_fields apis)"

subsection \<open>The properties annotation\<close>

text \<open>
  The layout of an annotation's text is not represented: the length of the text of a value inside it is the
  parameter \<open>len\<close>.
\<close>

type_synonym json_len = "json \<Rightarrow> nat"

definition raw_of :: "json_len \<Rightarrow> json \<Rightarrow> rawJSON" where
  "raw_of len j = \<lparr>raw_doc = Some j, raw_len = len j, raw_more = False\<rparr>"

definition empty_text :: rawJSON where
  "empty_text = \<lparr>raw_doc = None, raw_len = 0, raw_more = False\<rparr>"

text \<open>Marshalling fails when a property's value is not one JSON document.\<close>

fun annotation_values :: "Property list \<Rightarrow> json list option" where
  "annotation_values [] = Some []"
| "annotation_values (prop # props) =
     (case json_Unmarshal (p_Value prop) of
        None \<Rightarrow> None
      | Some j \<Rightarrow> map_option (\<lambda>js. JObj [(''type'', JStr (p_Type prop)), (''value'', j)] # js) (annotation_values props))"

definition PropertiesAnnotationFromPropertyList :: "json_len \<Rightarrow> Property list \<Rightarrow> string + rawJSON" where
  "PropertiesAnnotationFromPropertyList len props =
     (case annotation_values props of
        None \<Rightarrow> Inl ''failed to marshal properties annotation''
      | Some js \<Rightarrow> Inr (raw_of len (JObj (if js = [] then [] else [(''properties'', JArr js)]))))"

text \<open>Decoding one property: its members in order, into the type and the raw value\<close>

fun set_property :: "json_len \<Rightarrow> (string \<times> json) list \<Rightarrow> Property \<Rightarrow> Property option" where
  "set_property len [] p = Some p"
| "set_property len ((key, j) # ms) p =
     (if EqualFold key ''type''
      then (case decode_string (p_Type p) j of None \<Rightarrow> None | Some t \<Rightarrow> set_property len ms (p\<lparr>p_Type := t\<rparr>))
      else if EqualFold key ''value'' then set_property len ms (p\<lparr>p_Value := raw_of len j\<rparr>)
      else set_property len ms p)"

fun decode_property :: "json_len \<Rightarrow> json \<Rightarrow> Property option" where
  "decode_property len (JObj ms) = set_property len ms \<lparr>p_Type = '''', p_Value = empty_text\<rparr>"
| "decode_property len JNull = Some \<lparr>p_Type = '''', p_Value = empty_text\<rparr>"
| "decode_property len _ = None"

fun decode_all :: "('a \<Rightarrow> 'b option) \<Rightarrow> 'a list \<Rightarrow> 'b list option" where
  "decode_all f [] = Some []"
| "decode_all f (x # xs) = (case f x of None \<Rightarrow> None | Some y \<Rightarrow> map_option (\<lambda>ys. y # ys) (decode_all f xs))"

fun decode_properties :: "json_len \<Rightarrow> (string \<times> json) list \<Rightarrow> Property list \<Rightarrow> Property list option" where
  "decode_properties len [] ps = Some ps"
| "decode_properties len ((key, j) # ms) ps =
     (if EqualFold key ''properties''
      then (case j of
              JArr js \<Rightarrow> (case decode_all (decode_property len) js of
                             None \<Rightarrow> None
                           | Some ps \<Rightarrow> decode_properties len ms ps)
            | JNull \<Rightarrow> decode_properties len ms []
            | _ \<Rightarrow> None)
      else decode_properties len ms ps)"

definition PropertyListFromPropertiesAnnotation :: "json_len \<Rightarrow> rawJSON \<Rightarrow> string + Property list" where
  "PropertyListFromPropertiesAnnotation len raw =
     (case (case json_Unmarshal raw of
              Some (JObj ms) \<Rightarrow> decode_properties len ms []
            | Some JNull \<Rightarrow> Some []
            | _ \<Rightarrow> None) of
        None \<Rightarrow> Inl ''failed to unmarshal properties annotation''
      | Some ps \<Rightarrow> Inr ps)"

subsection \<open>The text determines the strings\<close>

lemma hex_digit_inj: "i < 16 \<Longrightarrow> j < 16 \<Longrightarrow> hex_digit i = hex_digit j \<longleftrightarrow> i = j"
  by (auto simp: hex_digit_def char_of_eq_iff [symmetric] split: if_splits)

lemma hex_pair_inj:
  assumes "hex_digit (i div 16) = hex_digit (j div 16)" and "hex_digit (i mod 16) = hex_digit (j mod 16)"
    and "i < 256" and "j < 256"
  shows "i = j"
proof -
  have "i div 16 = j div 16" "i mod 16 = j mod 16"
    using assms hex_digit_inj [of "i div 16" "j div 16"] hex_digit_inj [of "i mod 16" "j mod 16"] by auto
  then show ?thesis by (metis div_mult_mod_eq)
qed

text \<open>The letters of the short escapes\<close>

definition short_escape :: "char \<Rightarrow> nat" where
  "short_escape x =
     (if x = CHR 0x22 then 34 else if x = CHR 0x5C then 92 else if x = CHR ''b'' then 8 else if x = CHR ''f'' then 12
      else if x = CHR ''n'' then 10 else if x = CHR ''r'' then 13 else 9)"

lemma json_escape_cases:
  obtains (plain) "json_escape c = [c]" "c \<noteq> CHR 0x5C" "c \<noteq> CHR 0x22"
  | (short) x where "json_escape c = [CHR 0x5C, x]" "x \<noteq> CHR ''u''" "of_char c = short_escape x"
  | (code) "json_escape c = [CHR 0x5C, CHR ''u'', CHR ''0'', CHR ''0'', hex_digit (of_char c div 16), hex_digit (of_char c mod 16)]"
proof -
  let ?n = "of_char c :: nat"
  consider "?n = 34" | "?n = 92" | "?n = 8" | "?n = 12" | "?n = 10" | "?n = 13" | "?n = 9"
    | "?n \<notin> {34, 92, 8, 12, 10, 13, 9}" "?n < 32 \<or> ?n = 38 \<or> ?n = 60 \<or> ?n = 62"
    | "?n \<notin> {34, 92, 8, 12, 10, 13, 9}" "\<not> (?n < 32 \<or> ?n = 38 \<or> ?n = 60 \<or> ?n = 62)" by blast
  then show ?thesis
  proof cases
    case 8
    then show ?thesis by (intro code) (simp add: json_escape_def Let_def)
  next
    case 9
    then show ?thesis by (intro plain) (auto simp: json_escape_def)
  qed (rule short, simp add: json_escape_def, simp, simp add: short_escape_def)+
qed

lemma json_escape_prefix_free:
  assumes eq: "json_escape c @ xs = json_escape d @ ys"
  shows "c = d \<and> xs = ys"
proof -
  have b: "of_char c < (256::nat)" "of_char d < (256::nat)" by (rule nat_of_char_less_256)+
  have "of_char c = (of_char d :: nat) \<and> xs = ys"
  proof (cases c rule: json_escape_cases)
    case plain
    then show ?thesis using eq by (cases d rule: json_escape_cases) simp_all
  next
    case (short x)
    then show ?thesis using eq by (cases d rule: json_escape_cases) auto
  next
    case code
    then show ?thesis using eq hex_pair_inj [OF _ _ b] by (cases d rule: json_escape_cases) auto
  qed
  then show ?thesis by simp
qed

lemma json_escape_no_quote: "json_escape c @ xs \<noteq> CHR 0x22 # ys"
  by (cases c rule: json_escape_cases) auto

lemma json_quote_prefix_free:
  assumes "json_quote s @ xs = json_quote t @ ys"
  shows "s = t \<and> xs = ys"
proof -
  have "concat (map json_escape s) @ CHR 0x22 # xs = concat (map json_escape t) @ CHR 0x22 # ys \<Longrightarrow> s = t \<and> xs = ys"
  proof (induction s arbitrary: t)
    case Nil
    then show ?case using json_escape_no_quote by (cases t) (auto, metis)
  next
    case (Cons c s)
    show ?case
    proof (cases t)
      case Nil
      then show ?thesis using Cons.prems json_escape_no_quote by simp
    next
      case (Cons d t')
      then have "json_escape c @ concat (map json_escape s) @ CHR 0x22 # xs =
          json_escape d @ concat (map json_escape t') @ CHR 0x22 # ys" using Cons.prems by simp
      note eq = json_escape_prefix_free [OF this]
      then show ?thesis using Cons.IH [of t'] \<open>t = d # t'\<close> by simp
    qed
  qed
  then show ?thesis using assms by (simp add: json_quote_def)
qed

text \<open>So structs with the same fields that have the same text are equal.\<close>

lemma marshal_text_inj:
  assumes "map fst fs = map fst gs" and "marshal_text fs = marshal_text gs"
  shows "fs = gs"
proof -
  let ?r = "\<lambda>(f, s). json_quote f @ '':'' @ json_quote s"
  have "strings_Join (map ?r fs) '','' @ x # xs = strings_Join (map ?r gs) '','' @ y # ys \<Longrightarrow> fs = gs" for x xs y ys
    using assms(1)
  proof (induction fs arbitrary: gs)
    case (Cons p fs)
    obtain f s where p: "p = (f, s)" by force
    obtain t gs' where gs: "gs = (f, t) # gs'" "map fst fs = map fst gs'" using Cons.prems(2) p by (cases gs) auto
    show ?case
    proof (cases "fs = []")
      case True
      then have "json_quote s @ x # xs = json_quote t @ y # ys" using Cons.prems(1) gs p by simp
      then show ?thesis using json_quote_prefix_free [of s "x # xs" t "y # ys"] gs True p by simp
    next
      case False
      then have ne: "gs' \<noteq> []" using gs(2) by auto
      have cons: "strings_Join (map ?r ((k, v) # zs)) '','' = json_quote k @ '':'' @ json_quote v @ '','' @ strings_Join (map ?r zs) '',''"
        if "zs \<noteq> []" for k v zs using that by (cases zs) auto
      have "json_quote s @ '','' @ strings_Join (map ?r fs) '','' @ x # xs =
          json_quote t @ '','' @ strings_Join (map ?r gs') '','' @ y # ys"
        using Cons.prems(1) unfolding gs(1) p cons [OF False] cons [OF ne] by simp
      note eq = json_quote_prefix_free [OF this]
      then have "strings_Join (map ?r fs) '','' @ x # xs = strings_Join (map ?r gs') '','' @ y # ys" by simp
      from Cons.IH [OF this gs(2)] eq show ?thesis by (simp add: gs(1) p)
    qed
  qed simp
  from this [of "CHR ''}''" "[]" "CHR ''}''" "[]"] assms(2) show ?thesis by (simp add: marshal_text_def)
qed

subsection \<open>The properties do not depend on the order of the API set\<close>

lemma go_sort_key: "go_sort (\<lambda>i j. f i < f j) xs = sort_key f xs" for f :: "'a \<Rightarrow> 'b :: linorder"
proof -
  have "go_insert (\<lambda>i j. f i < f j) x ys = insort_key f x ys" for x ys
    by (induction ys) auto
  then show ?thesis by (induction xs) (simp_all add: sort_key_def)
qed

lemma sorted_properties_perm:
  assumes "mset vals = mset vals'" and "\<forall>fs \<in> set vals. map fst fs = names"
  shows "sorted_properties t vals = sorted_properties t vals'"
proof -
  let ?p = "\<lambda>fs. (marshal_text fs, \<lparr>p_Type = t, p_Value = json_Marshal fs\<rparr>)"
  have "inj_on fst (set (map ?p vals))"
  proof (rule inj_onI)
    fix x y assume "x \<in> set (map ?p vals)" "y \<in> set (map ?p vals)" "fst x = fst y"
    then obtain fs gs where "fs \<in> set vals" "gs \<in> set vals" "x = ?p fs" "y = ?p gs" "marshal_text fs = marshal_text gs" by auto
    then show "x = y" using marshal_text_inj [of fs gs] assms(2) by simp
  qed
  moreover have "mset (map ?p vals) = mset (sort_key fst (map ?p vals'))" using assms(1) by simp
  ultimately have "sort_key fst (map ?p vals) = sort_key fst (map ?p vals')"
    by (intro sort_key_inj_key_eq) simp_all
  then show ?thesis by (simp add: sorted_properties_def go_sort_key)
qed

lemma APIsToProperties_perm:
  assumes "mset apis = mset apis'"
  shows "providedAPIsToProperties apis = providedAPIsToProperties apis'"
    and "requiredAPIsToProperties apis = requiredAPIsToProperties apis'"
proof -
  have "mset (map f apis) = mset (map f apis')" for f :: "APIKey \<Rightarrow> (string \<times> string) list" using assms by simp
  then show "providedAPIsToProperties apis = providedAPIsToProperties apis'" "requiredAPIsToProperties apis = requiredAPIsToProperties apis'"
    unfolding providedAPIsToProperties_def requiredAPIsToProperties_def
    by (intro sorted_properties_perm [where names = "[''group'', ''kind'', ''version'']"]
        sorted_properties_perm [where names = "[''group'', ''version'', ''kind'']"];
        simp add: provided_fields_def required_fields_def)+
qed

lemma set_sorted_properties:
  "set (sorted_properties t vals) = (\<lambda>fs. \<lparr>p_Type = t, p_Value = json_Marshal fs\<rparr>) ` set vals"
  by (force simp: sorted_properties_def image_iff)

text \<open>What a reader of the properties gets\<close>

definition api_GVK :: "APIKey \<Rightarrow> GVKProperty" where
  "api_GVK a = \<lparr>gvk_Group = api_Group a, gvk_Kind = api_Kind a, gvk_Version = api_Version a\<rparr>"

lemma unmarshal_GVK_Marshal [simp]:
  "unmarshal_GVK (json_Marshal (provided_fields a)) = Some (api_GVK a)"
  "unmarshal_GVK (json_Marshal (required_fields a)) = Some (api_GVK a)"
  by (simp_all add: unmarshal_GVK_def json_Unmarshal_def json_Marshal_def json_of_strings_def provided_fields_def
      required_fields_def api_GVK_def EqualFold_def lower_char_def field_def)

lemma unmarshal_Package_Marshal [simp]:
  "unmarshal_Package (json_Marshal [(''packageName'', p), (''version'', v)]) = Some \<lparr>pp_PackageName = p, pp_Version = v\<rparr>"
  by (simp add: unmarshal_Package_def json_Unmarshal_def json_Marshal_def json_of_strings_def EqualFold_def lower_char_def field_def)

lemma provided_properties:
  "p \<in> set (providedAPIsToProperties apis) \<longleftrightarrow>
     (\<exists>a \<in> set apis. p = \<lparr>p_Type = GVKType, p_Value = json_Marshal (provided_fields a)\<rparr>)"
  by (auto simp: providedAPIsToProperties_def set_sorted_properties)

lemma required_properties:
  "p \<in> set (requiredAPIsToProperties apis) \<longleftrightarrow>
     (\<exists>a \<in> set apis. p = \<lparr>p_Type = ''olm.gvk.required'', p_Value = json_Marshal (required_fields a)\<rparr>)"
  by (auto simp: requiredAPIsToProperties_def set_sorted_properties)

subsection \<open>The annotation round trip\<close>

lemma annotation_values_decode:
  "annotation_values ps = Some js \<Longrightarrow>
     decode_all (decode_property len) js =
       Some (map (\<lambda>p. \<lparr>p_Type = p_Type p, p_Value = raw_of len (the (json_Unmarshal (p_Value p)))\<rparr>) ps) \<and>
     (js = [] \<longleftrightarrow> ps = [])"
proof (induction ps arbitrary: js)
  case (Cons p ps)
  obtain j js' where "json_Unmarshal (p_Value p) = Some j" "annotation_values ps = Some js'"
      "js = JObj [(''type'', JStr (p_Type p)), (''value'', j)] # js'"
    using Cons.prems by (auto split: option.splits)
  then show ?case using Cons.IH [of js'] by (simp add: EqualFold_def lower_char_def)
qed simp

lemma annotation_roundtrip:
  assumes "PropertiesAnnotationFromPropertyList len ps = Inr raw"
  shows "PropertyListFromPropertiesAnnotation len raw =
    Inr (map (\<lambda>p. \<lparr>p_Type = p_Type p, p_Value = raw_of len (the (json_Unmarshal (p_Value p)))\<rparr>) ps)"
proof -
  obtain js where js: "annotation_values ps = Some js"
      "raw = raw_of len (JObj (if js = [] then [] else [(''properties'', JArr js)]))"
    using assms by (auto simp: PropertiesAnnotationFromPropertyList_def split: option.splits)
  show ?thesis
    using annotation_values_decode [OF js(1), of len]
    by (auto simp: PropertyListFromPropertiesAnnotation_def js(2) raw_of_def [of len "JObj _"] json_Unmarshal_def
        EqualFold_def lower_char_def)
qed

lemma annotation_total:
  "(\<exists>raw. PropertiesAnnotationFromPropertyList len ps = Inr raw) \<longleftrightarrow> (\<forall>p \<in> set ps. json_Unmarshal (p_Value p) \<noteq> None)"
proof -
  have "annotation_values ps \<noteq> None \<longleftrightarrow> (\<forall>p \<in> set ps. json_Unmarshal (p_Value p) \<noteq> None)"
    by (induction ps) (auto split: option.splits)
  then show ?thesis by (auto simp: PropertiesAnnotationFromPropertyList_def split: option.splits)
qed

end
