(* ===== verification/Registry_Source.thy ===== *)
theory Registry_Source
  imports Api_Properties
begin

text \<open>
  The sources of catalog content (\<^verbatim>\<open>source_registry.go\<close>): the snapshot of a catalog, made from the bundles its
  registry lists, and the invalidator that says how long snapshots are valid. What the registry's client
  returns is an argument: the bundles, how the iteration over them ended, and the packages by name.
\<close>

subsection \<open>What a registry returns\<close>

record Dependency =
  d_Type :: string
  d_Value :: rawJSON

record Bundle =
  b_addr :: nat
  b_CsvName :: string
  b_PackageName :: string
  b_ChannelName :: string
  b_CsvJson :: string
  b_Object :: "string list"
  b_BundlePath :: string
  b_ProvidedApis :: "APIKey list"
  b_RequiredApis :: "APIKey list"
  b_Version :: string
  b_SkipRange :: string
  b_Dependencies :: "Dependency list"
  b_Properties :: "Property list"
  b_Replaces :: string
  b_Skips :: "string list"
  b_Deprecation :: "string option"

record Channel =
  ch_Name :: string
  ch_Deprecation :: "string option"

record Package =
  pkg_Name :: string
  pkg_Channels :: "Channel list"
  pkg_DefaultChannelName :: string
  pkg_Deprecation :: "string option"

record registry_client =
  cl_ListBundles :: "string + Bundle list \<times> string option"
  cl_GetPackage :: "string \<Rightarrow> string + Package"

subsection \<open>Entries of bundles\<close>

fun legacyDependenciesToProperties :: "Dependency list \<Rightarrow> string + Property list" where
  "legacyDependenciesToProperties [] = Inr []"
| "legacyDependenciesToProperties (dependency # dependencies) =
     (case (if d_Type dependency = ''olm.gvk''
            then (case Option.bind (json_Unmarshal (d_Value dependency)) (decode_strings False [''group'', ''version'', ''kind'']) of
                    None \<Rightarrow> Inl ''failed to unmarshal legacy 'olm.gvk' dependency''
                  | Some fs \<Rightarrow> Inr [\<lparr>p_Type = ''olm.gvk.required'',
                      p_Value = json_Marshal [(''group'', field fs ''group''), (''version'', field fs ''version''),
                        (''kind'', field fs ''kind'')]\<rparr>])
            else if d_Type dependency = ''olm.package''
            then (case Option.bind (json_Unmarshal (d_Value dependency)) (decode_strings False [''packageName'', ''version'']) of
                    None \<Rightarrow> Inl ''failed to unmarshal legacy 'olm.package' dependency''
                  | Some fs \<Rightarrow> Inr [\<lparr>p_Type = ''olm.package.required'',
                      p_Value = json_Marshal [(''packageName'', field fs ''packageName''), (''versionRange'', field fs ''version'')]\<rparr>])
            else if d_Type dependency = ''olm.label''
            then Inr [\<lparr>p_Type = ''olm.label.required'', p_Value = d_Value dependency\<rparr>]
            else if d_Type dependency = ''olm.constraint''
            then Inr [\<lparr>p_Type = ''olm.constraint'', p_Value = d_Value dependency\<rparr>]
            else Inr []) of
        Inl err \<Rightarrow> Inl err
      | Inr ps \<Rightarrow> map_sum id (\<lambda>result. ps @ result) (legacyDependenciesToProperties dependencies))"

text \<open>\<^verbatim>\<open>semver.ParseTolerant\<close> is a parameter beside the other functions of the library.\<close>

definition newOperatorFromBundle ::
    "('v, 'p) libs \<Rightarrow> (string \<Rightarrow> 'v option) \<Rightarrow> nat \<Rightarrow> Bundle \<Rightarrow> string \<Rightarrow> SourceKey \<Rightarrow> string \<Rightarrow> string + 'v Entry" where
  "newOperatorFromBundle L ParseTolerant addr bundle startingCSV sourceKey defaultChannel =
     (let provided = foldl api_add EmptyAPISet (b_ProvidedApis bundle);
          required = foldl api_add EmptyAPISet (b_RequiredApis bundle);
          properties = (if b_Properties bundle = [] then providedAPIsToProperties provided else b_Properties bundle)
      in case (if b_Dependencies bundle \<noteq> []
               then map_sum (\<lambda>err. ''failed to translate legacy dependencies to properties: '' @ err) id
                      (legacyDependenciesToProperties (b_Dependencies bundle))
               else Inr (requiredAPIsToProperties required)) of
           Inl err \<Rightarrow> Inl err
         | Inr ps \<Rightarrow>
             Inr \<lparr>e_addr = addr, e_Name = b_CsvName bundle, e_Replaces = b_Replaces bundle, e_Skips = b_Skips bundle,
                  e_SkipRange = semver_ParseRange L (b_SkipRange bundle),
                  e_ProvidedAPIs = provided, e_RequiredAPIs = required, e_Version = ParseTolerant (b_Version bundle),
                  e_SourceInfo = Some \<lparr>si_Package = b_PackageName bundle, si_Channel = b_ChannelName bundle,
                    si_StartingCSV = startingCSV, si_Catalog = sourceKey,
                    si_DefaultChannel = (b_ChannelName bundle = defaultChannel), si_Deprecations = None,
                    si_Subscription = None\<rparr>,
                  e_Properties = properties @ ps, e_BundlePath = b_BundlePath bundle,
                  e_Bundle = (if b_BundlePath bundle = '''' then Some (b_addr bundle) else None)\<rparr>)"

definition EnsurePackageProperty :: "'v Entry \<Rightarrow> string \<Rightarrow> string \<Rightarrow> 'v Entry" where
  "EnsurePackageProperty o' name version =
     (if list_ex (\<lambda>p. p_Type p = PackageType) (e_Properties o') then o'
      else o'\<lparr>e_Properties := e_Properties o' @
        [\<lparr>p_Type = PackageType, p_Value = json_Marshal [(''packageName'', name), (''version'', version)]\<rparr>]\<rparr>)"

definition no_deprecations :: Deprecations where
  "no_deprecations = \<lparr>dep_Package = None, dep_Channel = None, dep_Bundle = None\<rparr>"

text \<open>The statements that collect the deprecations of a bundle; a later channel of the same name wins.\<close>

definition deprecations_of :: "Package \<Rightarrow> Bundle \<Rightarrow> Deprecations option" where
  "deprecations_of p b =
     (let or_new = (\<lambda>d. case d of Some d \<Rightarrow> d | None \<Rightarrow> no_deprecations);
          ds = map_option (\<lambda>m. no_deprecations\<lparr>dep_Package := Some (''olm.package/'' @ pkg_Name p @ '': '' @ m)\<rparr>) (pkg_Deprecation p);
          ds = foldl (\<lambda>ds c. case ch_Deprecation c of
                        Some m \<Rightarrow> (if ch_Name c = b_ChannelName b
                                   then Some ((or_new ds)\<lparr>dep_Channel := Some (''olm.channel/'' @ ch_Name c @ '': '' @ m)\<rparr>) else ds)
                      | None \<Rightarrow> ds) ds (pkg_Channels p)
      in case b_Deprecation b of
           Some m \<Rightarrow> Some ((or_new ds)\<lparr>dep_Bundle := Some (''olm.bundle/'' @ b_CsvName b @ '': '' @ m)\<rparr>)
         | None \<Rightarrow> ds)"

text \<open>The entry of a bundle of a package\<close>

definition bundle_entry ::
    "('v, 'p) libs \<Rightarrow> (string \<Rightarrow> 'v option) \<Rightarrow> SourceKey \<Rightarrow> nat \<Rightarrow> Package \<Rightarrow> Bundle \<Rightarrow> string + 'v Entry" where
  "bundle_entry L ParseTolerant key addr p b =
     map_sum id (\<lambda>o'.
        EnsurePackageProperty
          (o'\<lparr>e_SourceInfo := map_option (\<lambda>si. si\<lparr>si_Deprecations := deprecations_of p b\<rparr>) (e_SourceInfo o'),
              e_ProvidedAPIs := StripPlural (e_ProvidedAPIs o'), e_RequiredAPIs := StripPlural (e_RequiredAPIs o'),
              e_Replaces := b_Replaces b\<rparr>)
          (b_PackageName b) (b_Version b))
       (newOperatorFromBundle L ParseTolerant addr b '''' key (pkg_DefaultChannelName p))"

text \<open>
  The loop over the bundles: the packages fetched so far are kept; a bundle whose package cannot be fetched or
  that cannot be turned into an entry is left out.
\<close>

fun bundle_entries ::
    "('v, 'p) libs \<Rightarrow> (string \<Rightarrow> 'v option) \<Rightarrow> SourceKey \<Rightarrow> (string \<Rightarrow> string + Package) \<Rightarrow>
     (string \<times> Package) list \<Rightarrow> nat \<Rightarrow> Bundle list \<Rightarrow> 'v Entry list" where
  "bundle_entries L ParseTolerant key GetPackage packages addr [] = []"
| "bundle_entries L ParseTolerant key GetPackage packages addr (b # bs) =
     (case (case map_of packages (b_PackageName b) of
              Some p \<Rightarrow> Inr (p, packages)
            | None \<Rightarrow> map_sum id (\<lambda>p. (p, AList.update (b_PackageName b) p packages)) (GetPackage (b_PackageName b))) of
        Inl err \<Rightarrow> bundle_entries L ParseTolerant key GetPackage packages addr bs
      | Inr (p, packages) \<Rightarrow>
          (case bundle_entry L ParseTolerant key addr p b of
             Inl err \<Rightarrow> bundle_entries L ParseTolerant key GetPackage packages addr bs
           | Inr o' \<Rightarrow> o' # bundle_entries L ParseTolerant key GetPackage packages (Suc addr) bs))"

subsection \<open>The invalidator\<close>

text \<open>
  A channel is a number; closing one that is closed would panic. The pending timers are those of the
  goroutines that wait for the end of the time to live.
\<close>

record sourceInvalidator =
  inv_validChans :: "(SourceKey \<times> nat) list"
  inv_next :: nat
  inv_closed :: "nat list"
  inv_timers :: "(SourceKey \<times> nat) list"
  inv_panicked :: bool

definition close_chan :: "nat \<Rightarrow> sourceInvalidator \<Rightarrow> sourceInvalidator" where
  "close_chan c i =
     (if c \<in> set (inv_closed i) then i\<lparr>inv_panicked := True\<rparr> else i\<lparr>inv_closed := c # inv_closed i\<rparr>)"

definition Invalidate :: "SourceKey \<Rightarrow> sourceInvalidator \<Rightarrow> sourceInvalidator" where
  "Invalidate key i =
     (case map_of (inv_validChans i) key of
        Some c \<Rightarrow> (close_chan c i)\<lparr>inv_validChans := AList.delete key (inv_validChans i)\<rparr>
      | None \<Rightarrow> i)"

definition GetValidChannel :: "SourceKey \<Rightarrow> sourceInvalidator \<Rightarrow> nat \<times> sourceInvalidator" where
  "GetValidChannel key i =
     (case map_of (inv_validChans i) key of
        Some c \<Rightarrow> (c, i)
      | None \<Rightarrow>
          (let c = inv_next i
           in (c, i\<lparr>inv_next := Suc c, inv_validChans := AList.update key c (inv_validChans i),
                    inv_timers := (key, c) # inv_timers i\<rparr>)))"

text \<open>A timer ends: the channel is closed unless it is no longer the one of its source.\<close>

definition timer_ends :: "SourceKey \<Rightarrow> nat \<Rightarrow> sourceInvalidator \<Rightarrow> sourceInvalidator" where
  "timer_ends key c i =
     (let i = i\<lparr>inv_timers := remove1 (key, c) (inv_timers i)\<rparr>
      in if map_of (inv_validChans i) key = Some c
         then (close_chan c i)\<lparr>inv_validChans := AList.delete key (inv_validChans i)\<rparr> else i)"

definition new_invalidator :: sourceInvalidator where
  "new_invalidator = \<lparr>inv_validChans = [], inv_next = 0, inv_closed = [], inv_timers = [], inv_panicked = False\<rparr>"

subsection \<open>Snapshots and sources\<close>

text \<open>A snapshot with the channel that says when it stops being valid\<close>

definition registry_Snapshot ::
    "('v, 'p) libs \<Rightarrow> (string \<Rightarrow> 'v option) \<Rightarrow> nat \<Rightarrow> SourceKey \<Rightarrow> registry_client \<Rightarrow> sourceInvalidator \<Rightarrow>
     (string + 'v Entry list \<times> nat) \<times> sourceInvalidator" where
  "registry_Snapshot L ParseTolerant addr key client i =
     (case cl_ListBundles client of
        Inl err \<Rightarrow> (Inl (''failed to list bundles: '' @ err), i)
      | Inr (bundles, it_Error) \<Rightarrow>
          (let operators = bundle_entries L ParseTolerant key (cl_GetPackage client) [] addr bundles
           in case it_Error of
                Some err \<Rightarrow> (Inl (''error encountered while listing bundles: '' @ err), i)
              | None \<Rightarrow> (let (c, i) = GetValidChannel key i in (Inr (operators, c), i))))"

datatype registry_source = errorSource string | registrySource SourceKey registry_client

text \<open>
  The catalogs of the namespaces in order; a namespace whose catalogs cannot be listed ends the loop, with what
  was listed before it unused.
\<close>

fun list_catalogs :: "(string \<Rightarrow> string + SourceKey list) \<Rightarrow> string list \<Rightarrow> (string \<times> string) + SourceKey list" where
  "list_catalogs lister [] = Inr []"
| "list_catalogs lister (ns # namespaces) =
     (case lister ns of
        Inl err \<Rightarrow> Inl (ns, err)
      | Inr cats \<Rightarrow> map_sum id (\<lambda>rest. cats @ rest) (list_catalogs lister namespaces))"

definition registry_Sources ::
    "(string \<Rightarrow> string + SourceKey list) \<Rightarrow> (string list \<Rightarrow> (SourceKey \<times> registry_client) list) \<Rightarrow> string list \<Rightarrow>
     (SourceKey \<times> registry_source) list" where
  "registry_Sources lister ClientsForNamespaces namespaces =
     (case list_catalogs lister namespaces of
        Inl (ns, err) \<Rightarrow>
          [(\<lparr>sk_Name = '''', sk_Namespace = ns\<rparr>,
            errorSource (''failed to list catalogsources for namespace '' @ go_quote ns @ '': '' @ err))]
      | Inr cats \<Rightarrow>
          (let clients = ClientsForNamespaces namespaces
           in foldl (\<lambda>result key. AList.update key
                (case map_of clients key of
                   Some client \<Rightarrow> registrySource key client
                 | None \<Rightarrow> errorSource (''no registry client established for catalogsource '' @ sk_Namespace key @ ''/'' @ sk_Name key))
                result) [] cats))"

definition source_Snapshot ::
    "('v, 'p) libs \<Rightarrow> (string \<Rightarrow> 'v option) \<Rightarrow> nat \<Rightarrow> registry_source \<Rightarrow> sourceInvalidator \<Rightarrow>
     (string + 'v Entry list \<times> nat) \<times> sourceInvalidator" where
  "source_Snapshot L ParseTolerant addr s i =
     (case s of
        errorSource err \<Rightarrow> (Inl err, i)
      | registrySource key client \<Rightarrow> registry_Snapshot L ParseTolerant addr key client i)"

subsection \<open>The entries of a snapshot\<close>

text \<open>Without the map of fetched packages and with the addresses left open, the loop is a partial map.\<close>

definition entry_of_bundle ::
    "('v, 'p) libs \<Rightarrow> (string \<Rightarrow> 'v option) \<Rightarrow> SourceKey \<Rightarrow> (string \<Rightarrow> string + Package) \<Rightarrow> Bundle \<Rightarrow> 'v Entry option" where
  "entry_of_bundle L ParseTolerant key GetPackage b =
     (case GetPackage (b_PackageName b) of
        Inl err \<Rightarrow> None
      | Inr p \<Rightarrow> (case bundle_entry L ParseTolerant key 0 p b of Inl err \<Rightarrow> None | Inr e \<Rightarrow> Some e))"

lemma newOperator_addr:
  "newOperatorFromBundle L PT addr b starting key ch = map_sum id (\<lambda>e. e\<lparr>e_addr := addr\<rparr>) (newOperatorFromBundle L PT 0 b starting key ch)"
  by (auto simp: newOperatorFromBundle_def Let_def split: sum.split)

lemma bundle_entry_addr:
  "bundle_entry L PT key addr p b = map_sum id (\<lambda>e. e\<lparr>e_addr := addr\<rparr>) (bundle_entry L PT key 0 p b)"
  unfolding bundle_entry_def newOperator_addr [of L PT addr]
  by (cases "newOperatorFromBundle L PT 0 b '''' key (pkg_DefaultChannelName p)") (simp_all add: EnsurePackageProperty_def)

lemma bundle_entries_eq:
  assumes "\<forall>n p. map_of packages n = Some p \<longrightarrow> GetPackage n = Inr p"
  shows "map (\<lambda>e. e\<lparr>e_addr := 0\<rparr>) (bundle_entries L PT key GetPackage packages addr bs) =
      map (\<lambda>e. e\<lparr>e_addr := 0\<rparr>) (List.map_filter (entry_of_bundle L PT key GetPackage) bs) \<and>
    map e_addr (bundle_entries L PT key GetPackage packages addr bs) =
      [addr..<addr + length (bundle_entries L PT key GetPackage packages addr bs)]"
  using assms
proof (induction bs arbitrary: packages addr)
  case (Cons b bs)
  show ?case
  proof (cases "GetPackage (b_PackageName b)")
    case (Inl err)
    then have "map_of packages (b_PackageName b) = None" using Cons.prems by (cases "map_of packages (b_PackageName b)") auto
    then show ?thesis using Cons Inl by (simp add: entry_of_bundle_def)
  next
    case (Inr p)
    let ?pks = "case map_of packages (b_PackageName b) of Some _ \<Rightarrow> packages | None \<Rightarrow> AList.update (b_PackageName b) p packages"
    have look: "(case map_of packages (b_PackageName b) of
              Some p \<Rightarrow> Inr (p, packages)
            | None \<Rightarrow> map_sum id (\<lambda>p. (p, AList.update (b_PackageName b) p packages)) (GetPackage (b_PackageName b))) = Inr (p, ?pks)"
      using Inr Cons.prems by (auto split: option.splits)
    have inv: "\<forall>n q. map_of ?pks n = Some q \<longrightarrow> GetPackage n = Inr q"
      using Inr Cons.prems by (auto simp: alist_simps split: option.splits)
    show ?thesis
    proof (cases "bundle_entry L PT key 0 p b")
      case (Inl err)
      then have "bundle_entry L PT key addr p b = Inl err" by (subst bundle_entry_addr) simp
      then show ?thesis using Cons.IH [OF inv, of addr] Inl Inr by (simp add: look entry_of_bundle_def)
    next
      case e: (Inr e)
      let ?rest = "bundle_entries L PT key GetPackage ?pks (Suc addr) bs"
      have "bundle_entry L PT key addr p b = Inr (e\<lparr>e_addr := addr\<rparr>)" using e by (subst bundle_entry_addr) simp
      then have eq: "bundle_entries L PT key GetPackage packages addr (b # bs) = e\<lparr>e_addr := addr\<rparr> # ?rest" by (simp add: look)
      have "[addr..<addr + length (e\<lparr>e_addr := addr\<rparr> # ?rest)] = addr # [Suc addr..<Suc addr + length ?rest]"
        by (simp add: upt_conv_Cons del: upt_Suc)
      then show ?thesis using Cons.IH [OF inv, of "Suc addr"] e Inr
        unfolding eq by (simp add: entry_of_bundle_def del: upt_Suc)
    qed
  qed
qed simp_all

text \<open>What holds of every entry of a registry's snapshot\<close>

definition registry_entry :: "SourceKey \<Rightarrow> 'v Entry \<Rightarrow> bool" where
  "registry_entry key e \<longleftrightarrow> list_ex (\<lambda>p. p_Type p = PackageType) (e_Properties e) \<and>
     (\<exists>si. e_SourceInfo e = Some si \<and> si_Catalog si = key \<and> si_Subscription si = None) \<and>
     (e_Bundle e = None \<longleftrightarrow> e_BundlePath e \<noteq> '''') \<and>
     (\<forall>a \<in> set (e_ProvidedAPIs e) \<union> set (e_RequiredAPIs e). api_Plural a = '''')"

lemma bundle_entry_registry:
  assumes "bundle_entry L PT key addr p b = Inr e"
  shows "registry_entry key e \<and> e_Name e = b_CsvName b \<and> Entry_Package e = b_PackageName b \<and> Entry_Channel e = b_ChannelName b"
proof -
  obtain o' where o': "newOperatorFromBundle L PT addr b '''' key (pkg_DefaultChannelName p) = Inr o'"
    and e: "e = EnsurePackageProperty
          (o'\<lparr>e_SourceInfo := map_option (\<lambda>si. si\<lparr>si_Deprecations := deprecations_of p b\<rparr>) (e_SourceInfo o'),
              e_ProvidedAPIs := StripPlural (e_ProvidedAPIs o'), e_RequiredAPIs := StripPlural (e_RequiredAPIs o'),
              e_Replaces := b_Replaces b\<rparr>) (b_PackageName b) (b_Version b)"
    using assms by (cases "newOperatorFromBundle L PT addr b '''' key (pkg_DefaultChannelName p)") (auto simp: bundle_entry_def)
  have f: "e_Name o' = b_CsvName b" "e_BundlePath o' = b_BundlePath b"
      "e_Bundle o' = (if b_BundlePath b = '''' then Some (b_addr b) else None)"
      "\<exists>si. e_SourceInfo o' = Some si \<and> si_Package si = b_PackageName b \<and> si_Channel si = b_ChannelName b \<and>
         si_Catalog si = key \<and> si_Subscription si = None"
    using o' by (auto simp: newOperatorFromBundle_def Let_def split: sum.splits)
  have plural: "\<forall>a \<in> set (StripPlural s). api_Plural a = ''''" for s by (auto simp: StripPlural_set)
  then show ?thesis using f
    by (auto simp: e EnsurePackageProperty_def registry_entry_def Entry_Package_def Entry_Channel_def)
qed

lemma bundle_entries_registry:
  "e \<in> set (bundle_entries L PT key GetPackage packages addr bs) \<Longrightarrow>
     registry_entry key e \<and> (\<exists>b \<in> set bs. e_Name e = b_CsvName b \<and> Entry_Package e = b_PackageName b \<and> Entry_Channel e = b_ChannelName b)"
proof (induction bs arbitrary: packages addr)
  case (Cons b bs)
  define found where "found = (case map_of packages (b_PackageName b) of
              Some p \<Rightarrow> Inr (p, packages)
            | None \<Rightarrow> map_sum id (\<lambda>p. (p, AList.update (b_PackageName b) p packages)) (GetPackage (b_PackageName b)))"
  have mem: "e \<in> set (case found of
        Inl err \<Rightarrow> bundle_entries L PT key GetPackage packages addr bs
      | Inr (p, packages) \<Rightarrow>
          (case bundle_entry L PT key addr p b of
             Inl err \<Rightarrow> bundle_entries L PT key GetPackage packages addr bs
           | Inr o' \<Rightarrow> o' # bundle_entries L PT key GetPackage packages (Suc addr) bs))"
    using Cons.prems by (simp add: found_def)
  consider p where "bundle_entry L PT key addr p b = Inr e"
    | packages' addr' where "e \<in> set (bundle_entries L PT key GetPackage packages' addr' bs)"
  proof (cases found)
    case (Inr q)
    obtain p packages' where "q = (p, packages')" by force
    then show ?thesis using mem Inr that by (cases "bundle_entry L PT key addr p b") auto
  qed (use mem that in simp)

  then show ?case
  proof cases
    case 1
    from bundle_entry_registry [OF this] show ?thesis by simp
  next
    case 2
    then show ?thesis using Cons.IH by auto
  qed
qed simp

text \<open>
  What the dependencies in the old format mean. A dependency is malformed when it requires an API or a package and its
  value cannot be read; a known one requires a provider of an API, a package in a range of versions, a label, or what a
  constraint says.
\<close>

definition dependency_fields :: "string list \<Rightarrow> Dependency \<Rightarrow> (string \<times> string) list option" where
  "dependency_fields ks d = Option.bind (json_Unmarshal (d_Value d)) (decode_strings False ks)"

definition malformed :: "Dependency \<Rightarrow> bool" where
  "malformed d \<longleftrightarrow> d_Type d = ''olm.gvk'' \<and> dependency_fields [''group'', ''version'', ''kind''] d = None \<or>
     d_Type d = ''olm.package'' \<and> dependency_fields [''packageName'', ''version''] d = None"

definition known_dependency :: "Dependency \<Rightarrow> bool" where
  "known_dependency d \<longleftrightarrow> d_Type d \<in> {''olm.gvk'', ''olm.package'', ''olm.label'', ''olm.constraint''}"

definition dependency_meaning ::
    "('v, 'p) libs \<Rightarrow> Dependency \<Rightarrow> conversion_error + ('v, 'p) Predicate" where
  "dependency_meaning L d =
     (let f = (\<lambda>ks. field (the (dependency_fields ks d))); gvk = [''group'', ''version'', ''kind'']; package = [''packageName'', ''version'']
      in if d_Type d = ''olm.gvk''
         then Inr (gvkPredicate \<lparr>api_Group = f gvk ''group'', api_Version = f gvk ''version'', api_Kind = f gvk ''kind'', api_Plural = ''''\<rparr>)
         else if d_Type d = ''olm.package'' then newPackageRequiredPredicate L (f package ''packageName'') (f package ''version'')
         else if d_Type d = ''olm.label'' then predicateForRequiredLabelProperty (d_Value d)
         else predicateForConstraintProperty L (d_Value d))"

text \<open>A legacy dependency becomes a property with the meaning the dependency had.\<close>

lemma legacy_single:
  assumes "\<not> malformed d"
  shows "map_sum id (map (predicateForProperty L)) (legacyDependenciesToProperties [d]) =
    Inr (if known_dependency d then [map_sum id Some (dependency_meaning L d)] else [])"
proof -
  consider (gvk) fs where "d_Type d = ''olm.gvk''" "dependency_fields [''group'', ''version'', ''kind''] d = Some fs"
    | (package) fs where "d_Type d = ''olm.package''" "dependency_fields [''packageName'', ''version''] d = Some fs"
    | (other) "d_Type d \<noteq> ''olm.gvk''" "d_Type d \<noteq> ''olm.package''"
    using assms by (auto simp: malformed_def)
  then show ?thesis
  proof cases
    case gvk
    let ?a = "\<lparr>api_Group = field fs ''group'', api_Version = field fs ''version'', api_Kind = field fs ''kind'', api_Plural = ''''\<rparr>"
    have "legacyDependenciesToProperties [d] = Inr [\<lparr>p_Type = ''olm.gvk.required'', p_Value = json_Marshal (required_fields ?a)\<rparr>]"
      using gvk by (simp add: required_fields_def dependency_fields_def)
    then show ?thesis using gvk
      by (simp add: predicateForProperty_def OLMConstraintType_def predicateForRequiredGVKProperty_def api_GVK_def gvk_APIKey_def
          known_dependency_def dependency_meaning_def)
  next
    case package
    let ?fs = "[(''packageName'', field fs ''packageName''), (''versionRange'', field fs ''version'')]"
    have "legacyDependenciesToProperties [d] = Inr [\<lparr>p_Type = ''olm.package.required'', p_Value = json_Marshal ?fs\<rparr>]"
      using package by (simp add: dependency_fields_def)
    moreover have "Option.bind (json_Unmarshal (json_Marshal ?fs)) (decode_strings False [''packageName'', ''versionRange'']) = Some ?fs"
      using decode_encode [of ?fs] by (simp add: json_Unmarshal_def json_Marshal_def lower_char_def)
    ultimately show ?thesis using package
      by (simp add: predicateForProperty_def OLMConstraintType_def predicateForRequiredPackageProperty_def field_def
          known_dependency_def dependency_meaning_def)
  next
    case other
    then show ?thesis by (simp add: predicateForProperty_def OLMConstraintType_def known_dependency_def dependency_meaning_def)
  qed
qed

lemma legacy_malformed:
  assumes "malformed d"
  shows "legacyDependenciesToProperties (d # ds) = Inl (''failed to unmarshal legacy '' @ [CHR 0x27] @ d_Type d @ [CHR 0x27] @ '' dependency'')"
  using assms by (auto simp: malformed_def dependency_fields_def)

lemma legacy_Cons:
  "legacyDependenciesToProperties (d # ds) =
     (case legacyDependenciesToProperties [d] of
        Inl err \<Rightarrow> Inl err | Inr ps \<Rightarrow> map_sum id (\<lambda>result. ps @ result) (legacyDependenciesToProperties ds))"
  by (auto split: option.splits)

lemma legacy_all:
  "map_sum id (map (predicateForProperty L)) (legacyDependenciesToProperties ds) =
     (case find malformed ds of
        Some d \<Rightarrow> Inl (''failed to unmarshal legacy '' @ [CHR 0x27] @ d_Type d @ [CHR 0x27] @ '' dependency'')
      | None \<Rightarrow> Inr (map (\<lambda>d. map_sum id Some (dependency_meaning L d)) (filter known_dependency ds)))"
proof (induction ds)
  case (Cons d ds)
  show ?case
  proof (cases "malformed d")
    case True
    then show ?thesis using legacy_malformed [of d ds] by simp
  next
    case False
    obtain ps where "legacyDependenciesToProperties [d] = Inr ps"
        "map (predicateForProperty L) ps = (if known_dependency d then [map_sum id Some (dependency_meaning L d)] else [])"
      using legacy_single [OF False, of L] by (cases "legacyDependenciesToProperties [d]") auto
    moreover note Cons.IH False
    ultimately show ?thesis unfolding legacy_Cons [of d ds]
      by (cases "legacyDependenciesToProperties ds"; cases "find malformed ds") auto
  qed
qed simp

subsection \<open>The invalidator never closes a channel twice\<close>

inductive inv_run :: "sourceInvalidator \<Rightarrow> bool" where
  inv_start: "inv_run new_invalidator"
| inv_get: "inv_run i \<Longrightarrow> inv_run (snd (GetValidChannel key i))"
| inv_invalidate: "inv_run i \<Longrightarrow> inv_run (Invalidate key i)"
| inv_timer: "inv_run i \<Longrightarrow> (key, c) \<in> set (inv_timers i) \<Longrightarrow> inv_run (timer_ends key c i)"

definition inv_ok :: "sourceInvalidator \<Rightarrow> bool" where
  "inv_ok i \<longleftrightarrow> \<not> inv_panicked i \<and> distinct (map fst (inv_validChans i)) \<and> inj_on snd (set (inv_validChans i)) \<and>
     (\<forall>(key, c) \<in> set (inv_validChans i). c < inv_next i \<and> c \<notin> set (inv_closed i) \<and> (key, c) \<in> set (inv_timers i)) \<and>
     (\<forall>(key, c) \<in> set (inv_timers i). c < inv_next i) \<and> (\<forall>c \<in> set (inv_closed i). c < inv_next i) \<and>
     (\<forall>c < inv_next i. c \<in> set (inv_closed i) \<or> c \<in> snd ` set (inv_validChans i)) \<and>
     distinct (inv_timers i)"

lemma inv_okD:
  assumes "inv_ok i" and "map_of (inv_validChans i) key = Some c"
  shows "c < inv_next i" "c \<notin> set (inv_closed i)" "(key, c) \<in> set (inv_timers i)"
  using assms map_of_SomeD [OF assms(2)] by (auto simp: inv_ok_def)

lemma delete_chans:
  assumes "inv_ok i" and "map_of (inv_validChans i) key = Some c"
  shows "set (AList.delete key (inv_validChans i)) = set (inv_validChans i) - {(key, c)}"
proof -
  have "distinct (map fst (inv_validChans i))" using assms(1) by (simp add: inv_ok_def)
  then have "(key, c') \<in> set (inv_validChans i) \<longleftrightarrow> c' = c" for c' using assms(2) by (metis map_of_eq_Some_iff option.inject)
  then show ?thesis by (auto simp: AList.delete_eq)
qed

lemma set_update_fresh: "map_of al k = None \<Longrightarrow> set (AList.update k v al) = insert (k, v) (set al)"
  by (induction al) (auto split: if_splits)

lemma inv_ok_get: "inv_ok i \<Longrightarrow> inv_ok (snd (GetValidChannel key i))"
proof (cases "map_of (inv_validChans i) key")
  case None
  assume ok: "inv_ok i"
  show ?thesis using ok None
    by (auto simp: GetValidChannel_def inv_ok_def Let_def set_update_fresh inj_on_def less_Suc_eq split: prod.splits)
qed (simp add: GetValidChannel_def)

text \<open>Closing the channel of a source and forgetting it\<close>

lemma inv_ok_close:
  assumes ok: "inv_ok i" and c: "map_of (inv_validChans i) key = Some c"
  shows "inv_ok ((close_chan c i)\<lparr>inv_validChans := AList.delete key (inv_validChans i)\<rparr>)"
proof -
  note d = inv_okD [OF ok c] delete_chans [OF ok c]
  have inj: "inj_on snd (set (inv_validChans i))" and dist: "distinct (map fst (inv_validChans i))"
    using ok by (simp_all add: inv_ok_def)
  have other: "c' \<noteq> c" if "(k', c') \<in> set (inv_validChans i) - {(key, c)}" for k' c'
  proof
    assume "c' = c"
    then have "(k', c') = (key, c)" using that by (intro inj_onD [OF inj _ _ map_of_SomeD [OF c]]) simp_all
    then show False using that by simp
  qed
  have c2: "(close_chan c i)\<lparr>inv_validChans := AList.delete key (inv_validChans i)\<rparr> =
      i\<lparr>inv_closed := c # inv_closed i, inv_validChans := AList.delete key (inv_validChans i)\<rparr>"
    using d(2) by (simp add: close_chan_def)
  show ?thesis unfolding inv_ok_def c2
  proof (simp add: d(4), intro conjI)
    show "\<not> inv_panicked i" "distinct (inv_timers i)" "c < inv_next i" "\<forall>x \<in> set (inv_timers i). case x of (key, c) \<Rightarrow> c < inv_next i"
        "\<forall>c \<in> set (inv_closed i). c < inv_next i"
      using ok d(1) by (simp_all add: inv_ok_def)
    show "distinct (map fst (AList.delete key (inv_validChans i)))" by (rule distinct_delete [OF dist])
    show "inj_on snd (set (inv_validChans i) - {(key, c)})" by (rule inj_on_subset [OF inj]) blast
    show "\<forall>x \<in> set (inv_validChans i) - {(key, c)}. case x of (key, c') \<Rightarrow>
        c' < inv_next i \<and> c' \<noteq> c \<and> c' \<notin> set (inv_closed i) \<and> (key, c') \<in> set (inv_timers i)"
      using ok other by (auto simp: inv_ok_def)
    show "\<forall>c' < inv_next i. c' = c \<or> c' \<in> set (inv_closed i) \<or> c' \<in> snd ` (set (inv_validChans i) - {(key, c)})"
    proof (intro allI impI)
      fix c' assume "c' < inv_next i"
      then have "c' \<in> set (inv_closed i) \<or> c' \<in> snd ` set (inv_validChans i)" using ok by (simp add: inv_ok_def)
      then show "c' = c \<or> c' \<in> set (inv_closed i) \<or> c' \<in> snd ` (set (inv_validChans i) - {(key, c)})"
      proof (elim disjE imageE)
        fix x assume x: "c' = snd x" "x \<in> set (inv_validChans i)"
        then have "c' = c \<or> x \<in> set (inv_validChans i) - {(key, c)}" by (cases x) auto
        then show ?thesis using x(1) by blast
      qed simp
    qed
  qed
qed

lemma inv_ok_drop_timer:
  assumes "inv_ok i" and "(key, c) \<notin> set (inv_validChans i)"
  shows "inv_ok (i\<lparr>inv_timers := remove1 (key, c) (inv_timers i)\<rparr>)"
  using assms by (auto simp: inv_ok_def set_remove1_eq)

lemma inv_run_ok: "inv_run i \<Longrightarrow> inv_ok i"
proof (induction rule: inv_run.induct)
  case inv_start
  show ?case by (simp add: inv_ok_def new_invalidator_def)
next
  case (inv_get i key)
  then show ?case by (simp add: inv_ok_get)
next
  case (inv_invalidate i key)
  then show ?case by (auto simp: Invalidate_def inv_ok_close split: option.split)
next
  case (inv_timer i key c)
  show ?case
  proof (cases "map_of (inv_validChans i) key = Some c")
    case True
    let ?j = "(close_chan c i)\<lparr>inv_validChans := AList.delete key (inv_validChans i)\<rparr>"
    have "inv_ok (?j\<lparr>inv_timers := remove1 (key, c) (inv_timers ?j)\<rparr>)"
      by (rule inv_ok_drop_timer [OF inv_ok_close [OF inv_timer.IH True]]) (simp add: AList.delete_eq)
    moreover have "timer_ends key c i = ?j\<lparr>inv_timers := remove1 (key, c) (inv_timers ?j)\<rparr>"
      using True by (simp add: timer_ends_def Let_def close_chan_def)
    ultimately show ?thesis by simp
  next
    case False
    have "distinct (map fst (inv_validChans i))" using inv_timer.IH by (simp add: inv_ok_def)
    then have "(key, c) \<notin> set (inv_validChans i)" using False by (metis map_of_eq_Some_iff)
    from inv_ok_drop_timer [OF inv_timer.IH this] show ?thesis using False by (simp add: timer_ends_def)
  qed
qed

text \<open>A channel that was handed out is open until it is invalidated or its time is over, and a timer is running for it.\<close>

lemma channel_open:
  assumes "inv_run i" and "GetValidChannel key i = (c, i')"
  shows "c \<notin> set (inv_closed i')" "map_of (inv_validChans i') key = Some c" "(key, c) \<in> set (inv_timers i')"
proof -
  have i': "inv_run i'" using inv_get [OF assms(1), of key] assms(2) by simp
  show m: "map_of (inv_validChans i') key = Some c"
    using assms(2) by (auto simp: GetValidChannel_def Let_def alist_simps split: option.splits)
  show "c \<notin> set (inv_closed i')" "(key, c) \<in> set (inv_timers i')" using inv_okD [OF inv_run_ok [OF i'] m] by simp_all
qed

lemma invalidated:
  assumes "inv_run i" and "map_of (inv_validChans i) key = Some c"
  shows "c \<in> set (inv_closed (Invalidate key i))" "c \<in> set (inv_closed (timer_ends key c i))"
    "map_of (inv_validChans (Invalidate key i)) key = None"
  using inv_okD(2) [OF inv_run_ok [OF assms(1)] assms(2)] assms(2)
  by (auto simp: Invalidate_def timer_ends_def close_chan_def Let_def delete_conv')

end
