(* ===== verification/Steps.thy ===== *)
theory Steps
  imports Rbac Registry_Source
begin

text \<open>
  The steps of an install plan (\<^verbatim>\<open>steps.go\<close> and \<^verbatim>\<open>OrderSteps\<close> of \<^verbatim>\<open>installplan_types.go\<close>): the resources a bundle is made
  of. The serializer and the decoders of the Kubernetes libraries are parameters; the order of the service
  accounts is that of a map.
\<close>

subsection \<open>Objects that become steps\<close>

record 'r csv_json =
  cj_APIVersion :: string
  cj_Kind :: string
  cj_object :: k8s_object
  cj_Replaces :: string
  cj_properties :: "rawJSON option"
  cj_StrategyName :: string
  cj_Permissions :: "'r StrategyDeploymentPermissions list"
  cj_ClusterPermissions :: "'r StrategyDeploymentPermissions list"

record SubscriptionSpec =
  ss_CatalogSource :: string
  ss_CatalogSourceNamespace :: string
  ss_Package :: string
  ss_Channel :: string
  ss_StartingCSV :: string
  ss_InstallPlanApproval :: string

datatype 'r kobject =
    KServiceAccount k8s_object
  | KRole "'r Role"
  | KBinding RoleBinding
  | KCsv "'r csv_json"
  | KSubscription k8s_object SubscriptionSpec
  | KUnstructured k8s_object string

fun meta_of :: "'r kobject \<Rightarrow> k8s_object" where
  "meta_of (KServiceAccount o') = o'"
| "meta_of (KRole role) = r_meta role"
| "meta_of (KBinding rb) = rb_meta rb"
| "meta_of (KCsv csv) = cj_object csv"
| "meta_of (KSubscription o' spec) = o'"
| "meta_of (KUnstructured o' raw) = o'"

record StepResource =
  sr_CatalogSource :: string
  sr_CatalogSourceNamespace :: string
  sr_Group :: string
  sr_Version :: string
  sr_Kind :: string
  sr_Name :: string
  sr_Manifest :: string

record Step =
  stp_Resolving :: string
  stp_Resource :: StepResource
  stp_Status :: string

text \<open>What is used of the libraries: the serializer, the decoders, and the encoders for hashes\<close>

record 'r codecs =
  serialize :: "'r kobject \<Rightarrow> string + string"
  decode_csv :: "string \<Rightarrow> string + 'r csv_json"
  decode_object :: "string \<Rightarrow> string + k8s_object"
  codec_encoders :: "'r encoders"
  codec_len :: json_len

subsection \<open>Step resources\<close>

definition NewStepResourceFromObject ::
    "'r codecs \<Rightarrow> 'r kobject \<Rightarrow> string \<Rightarrow> string \<Rightarrow> StepResource outcome" where
  "NewStepResourceFromObject C obj catalogSourceName catalogSourceNamespace =
     (case serialize C obj of
        Inl err \<Rightarrow> Fail err
      | Inr manifest \<Rightarrow>
      case InferGroupVersionKind (meta_of obj) of
        None \<Rightarrow> Fail ''could not infer GVK for object''
      | Some metaObj \<Rightarrow>
          (let gvk = ob_GVK metaObj;
               name = (if ob_Name metaObj = '''' then ob_GenerateName metaObj else ob_Name metaObj);
               resource = \<lparr>sr_CatalogSource = catalogSourceName, sr_CatalogSourceNamespace = catalogSourceNamespace,
                 sr_Group = g_Group gvk, sr_Version = g_Version gvk, sr_Kind = g_Kind gvk, sr_Name = name, sr_Manifest = manifest\<rparr>
           in Ok (if g_Kind gvk = ''Secret'' then resource\<lparr>sr_Kind := ''BundleSecret''\<rparr> else resource)))"

definition NewSubscriptionStepResource :: "'r codecs \<Rightarrow> string \<Rightarrow> OperatorSourceInfo \<Rightarrow> StepResource outcome" where
  "NewSubscriptionStepResource C namespace info =
     NewStepResourceFromObject C
       (KSubscription
          (new_object TSubscription
             (strings_Join [si_Package info, si_Channel info, sk_Name (si_Catalog info), sk_Namespace (si_Catalog info)] ''-'')
             namespace)
          \<lparr>ss_CatalogSource = sk_Name (si_Catalog info), ss_CatalogSourceNamespace = sk_Namespace (si_Catalog info),
           ss_Package = si_Package info, ss_Channel = si_Channel info, ss_StartingCSV = si_StartingCSV info,
           ss_InstallPlanApproval = ''Automatic''\<rparr>)
       (sk_Name (si_Catalog info)) (sk_Namespace (si_Catalog info))"

fun step_resources :: "'r codecs \<Rightarrow> string \<Rightarrow> string \<Rightarrow> 'r kobject list \<Rightarrow> StepResource list outcome" where
  "step_resources C cat catNs [] = Ok []"
| "step_resources C cat catNs (obj # objs) =
     bind_outcome (NewStepResourceFromObject C obj cat catNs) (\<lambda>step.
     bind_outcome (step_resources C cat catNs objs) (\<lambda>steps. Ok (step # steps)))"

text \<open>The objects of one service account in the order their steps are made\<close>

definition permission_objects :: "'r OperatorPermissions \<Rightarrow> 'r kobject list" where
  "permission_objects perms =
     (if ob_Name (op_ServiceAccount perms) \<noteq> ''default'' then [KServiceAccount (op_ServiceAccount perms)] else []) @
     map KRole (op_Roles perms) @ map KBinding (op_RoleBindings perms) @
     map KRole (op_ClusterRoles perms) @ map KBinding (op_ClusterRoleBindings perms)"

definition NewServiceAccountStepResources ::
    "'r codecs \<Rightarrow> 'r csv_json \<Rightarrow> string \<Rightarrow> string \<Rightarrow> StepResource list outcome" where
  "NewServiceAccountStepResources C csv cat catNs =
     bind_outcome
       (RBACForClusterServiceVersion (codec_encoders C)
          \<lparr>ci_object = cj_object csv, ci_StrategyName = cj_StrategyName csv, ci_Permissions = cj_Permissions csv,
           ci_ClusterPermissions = cj_ClusterPermissions csv\<rparr>)
       (\<lambda>operatorPermissions. step_resources C cat catNs (concat (map (\<lambda>(_, perms). permission_objects perms) operatorPermissions)))"

text \<open>The loop over the other objects of a bundle; ClusterServiceVersions among them are left out.\<close>

fun object_steps :: "'r codecs \<Rightarrow> string \<Rightarrow> string \<Rightarrow> string list \<Rightarrow> StepResource list outcome" where
  "object_steps C cat catNs [] = Ok []"
| "object_steps C cat catNs (object # objects) =
     (case decode_object C object of
        Inl err \<Rightarrow> Fail err
      | Inr unst \<Rightarrow>
          (if g_Kind (ob_GVK unst) = csvKind then object_steps C cat catNs objects
           else bind_outcome (NewStepResourceFromObject C (KUnstructured unst object) cat catNs) (\<lambda>step.
                bind_outcome (object_steps C cat catNs objects) (\<lambda>steps. Ok (step # steps)))))"

definition V1alpha1CSVFromBundle :: "'r codecs \<Rightarrow> Bundle \<Rightarrow> string + 'r csv_json" where
  "V1alpha1CSVFromBundle C bundle = decode_csv C (b_CsvJson bundle)"

definition NewStepResourceFromBundle ::
    "'r codecs \<Rightarrow> Bundle \<Rightarrow> string \<Rightarrow> string \<Rightarrow> string \<Rightarrow> string \<Rightarrow> StepResource list outcome" where
  "NewStepResourceFromBundle C bundle namespace replaces cat catNs =
     (case V1alpha1CSVFromBundle C bundle of
        Inl err \<Rightarrow> Fail err
      | Inr csv \<Rightarrow>
          (if cj_APIVersion csv = '''' then Fail (''bundle CSV '' @ ob_Name (cj_object csv) @ '' missing APIVersion'')
           else if cj_Kind csv = '''' then Fail (''bundle CSV '' @ ob_Name (cj_object csv) @ '' missing Kind'')
           else case PropertiesAnnotationFromPropertyList (codec_len C) (b_Properties bundle) of
                  Inl err \<Rightarrow> Fail (''failed to construct properties annotation for '' @ go_quote (ob_Name (cj_object csv)) @ '': '' @ err)
                | Inr anno \<Rightarrow>
                    (let csv = csv\<lparr>cj_object := (cj_object csv)\<lparr>ob_Namespace := namespace\<rparr>, cj_Replaces := replaces,
                                   cj_properties := Some anno\<rparr>
                     in bind_outcome (NewStepResourceFromObject C (KCsv csv) cat catNs) (\<lambda>step.
                        bind_outcome (object_steps C cat catNs (b_Object bundle)) (\<lambda>steps.
                        bind_outcome (NewServiceAccountStepResources C csv cat catNs) (\<lambda>operatorServiceAccountSteps.
                        Ok (step # steps @ operatorServiceAccountSteps)))))))"

definition NewStepsFromBundle ::
    "'r codecs \<Rightarrow> Bundle \<Rightarrow> string \<Rightarrow> string \<Rightarrow> string \<Rightarrow> string \<Rightarrow> Step list outcome" where
  "NewStepsFromBundle C bundle namespace replaces cat catNs =
     bind_outcome (NewStepResourceFromBundle C bundle namespace replaces cat catNs) (\<lambda>bundleSteps.
     Ok (map (\<lambda>s. \<lparr>stp_Resolving = b_CsvName bundle, stp_Resource = s, stp_Status = ''Unknown''\<rparr>) bundleSteps))"

subsection \<open>The order of steps\<close>

abbreviation crdKind :: string where "crdKind \<equiv> ''CustomResourceDefinition''"

definition OrderSteps :: "Step list \<Rightarrow> Step list" where
  "OrderSteps steps =
     (let csvList = filter (\<lambda>step. sr_Kind (stp_Resource step) = csvKind) steps;
          crdList = filter (\<lambda>step. sr_Kind (stp_Resource step) = crdKind) steps;
          remainingResources = filter (\<lambda>step. sr_Kind (stp_Resource step) \<noteq> csvKind \<and> sr_Kind (stp_Resource step) \<noteq> crdKind) steps
      in csvList @ crdList @ remainingResources)"

definition step_rank :: "Step \<Rightarrow> nat" where
  "step_rank s = (if sr_Kind (stp_Resource s) = csvKind then 0 else if sr_Kind (stp_Resource s) = crdKind then 1 else 2)"

lemma OrderSteps_rank: "OrderSteps steps = filter (\<lambda>s. step_rank s = 0) steps @ filter (\<lambda>s. step_rank s = 1) steps @ filter (\<lambda>s. step_rank s = 2) steps"
proof -
  have "(step_rank s = 0) = (sr_Kind (stp_Resource s) = csvKind)" "(step_rank s = 1) = (sr_Kind (stp_Resource s) = crdKind)"
    "(step_rank s = 2) = (sr_Kind (stp_Resource s) \<noteq> csvKind \<and> sr_Kind (stp_Resource s) \<noteq> crdKind)" for s
    by (auto simp: step_rank_def)
  then show ?thesis by (simp add: OrderSteps_def Let_def)
qed

text \<open>It is the stable sort by rank.\<close>

lemma OrderSteps_sort: "OrderSteps steps = sort_key step_rank steps"
proof -
  have 3: "step_rank s < 3" for s by (simp add: step_rank_def)
  have "mset steps = mset (OrderSteps steps)"
    unfolding OrderSteps_rank
  proof (induction steps)
    case (Cons s steps)
    have "step_rank s = 0 \<or> step_rank s = 1 \<or> step_rank s = 2" using 3 [of s] by linarith
    then show ?case using Cons.IH by (elim disjE) (simp_all add: ac_simps)
  qed simp
  moreover have "sorted (map step_rank (filter (\<lambda>s. step_rank s = k) steps))" for k by (induction steps) auto
  then have "sorted (map step_rank (OrderSteps steps))" unfolding OrderSteps_rank by (auto simp: sorted_append)

  moreover have "filter (\<lambda>y. step_rank y = k) (OrderSteps steps) = filter (\<lambda>y. step_rank y = k) steps" for k
  proof -
    consider "k = 0" | "k = 1" | "k = 2" | "k \<ge> 3" by linarith
    then show ?thesis
    proof cases
      case 4
      then have "step_rank y \<noteq> k" for y using 3 [of y] by simp
      then show ?thesis by simp
    qed (auto simp: OrderSteps_rank filter_empty_conv conj_commute cong: conj_cong)
  qed
  then have "filter (\<lambda>y. step_rank k = step_rank y) (OrderSteps steps) = filter (\<lambda>y. step_rank k = step_rank y) steps" for k
    by (simp add: eq_commute [of "step_rank k"])
  ultimately show ?thesis by (intro properties_for_sort_key [symmetric]) simp_all
qed

subsection \<open>The steps of a bundle\<close>

lemma resource_kind:
  assumes "NewStepResourceFromObject C obj cat catNs = Ok r"
  shows "sr_Kind r \<noteq> ''Secret''" "sr_CatalogSource r = cat" "sr_CatalogSourceNamespace r = catNs"
    "\<exists>m. InferGroupVersionKind (meta_of obj) = Some m \<and> sr_Kind r = (if g_Kind (ob_GVK m) = ''Secret'' then ''BundleSecret'' else g_Kind (ob_GVK m))"
    "serialize C obj = Inr (sr_Manifest r)"
proof -
  obtain manifest m where m: "serialize C obj = Inr manifest" "InferGroupVersionKind (meta_of obj) = Some m"
    using assms by (auto simp: NewStepResourceFromObject_def split: sum.splits option.splits)
  define r0 where "r0 = \<lparr>sr_CatalogSource = cat, sr_CatalogSourceNamespace = catNs,
      sr_Group = g_Group (ob_GVK m), sr_Version = g_Version (ob_GVK m), sr_Kind = g_Kind (ob_GVK m),
      sr_Name = (if ob_Name m = '''' then ob_GenerateName m else ob_Name m), sr_Manifest = manifest\<rparr>"
  have "Ok r = Ok (if g_Kind (ob_GVK m) = ''Secret'' then r0\<lparr>sr_Kind := ''BundleSecret''\<rparr> else r0)"
    unfolding assms [symmetric] NewStepResourceFromObject_def m by (simp add: Let_def r0_def)
  then have r: "r = (if g_Kind (ob_GVK m) = ''Secret'' then r0\<lparr>sr_Kind := ''BundleSecret''\<rparr> else r0)" by simp
  then show "sr_Kind r \<noteq> ''Secret''" "sr_CatalogSource r = cat" "sr_CatalogSourceNamespace r = catNs" "serialize C obj = Inr (sr_Manifest r)"
    using m(1) by (simp_all add: r0_def)
  show "\<exists>m. InferGroupVersionKind (meta_of obj) = Some m \<and> sr_Kind r = (if g_Kind (ob_GVK m) = ''Secret'' then ''BundleSecret'' else g_Kind (ob_GVK m))"
    using m(2) r by (simp add: r0_def)
qed

end
