(* ===== verification/Gini.thy ===== *)
theory Gini
  imports Prelude
begin

text \<open>
  The SAT library the resolver is built on (\<^verbatim>\<open>github.com/go-air/gini\<close>), as far as
  \<^verbatim>\<open>pkg/controller/registry/resolver/solver\<close> calls it. The library is third-party code, vendored under
  \<^verbatim>\<open>src/vendor/github.com/go-air/gini\<close> and not part of this program, so its
  operations are parameters of the model, collected in the record \<open>gini\<close>, and what the solver
  relies on is stated as the laws of two locales: \<open>logic_C\<close> for combinational circuits
  (\<^verbatim>\<open>logic.C\<close>, \<^verbatim>\<open>logic.CardSort\<close>) and \<open>inter_S\<close> for the incremental solver with scoped
  assumptions (\<^verbatim>\<open>inter.S\<close>). Every law restates documentation of the library's interfaces. An
  implementation of the record that satisfies all of them is in \<^verbatim>\<open>Ref_Gini\<close>.

  A literal is a number whose lowest bit is its sign (\<^verbatim>\<open>z.Lit\<close>); a valuation assigns a truth
  value to every literal and is \<open>proper\<close> when it respects negation.
\<close>

type_synonym lit = nat
type_synonym valuation = "lit \<Rightarrow> bool"

definition LitNull :: lit where "LitNull = 0"

definition lit_not :: "lit \<Rightarrow> lit" where
  "lit_not m = (if even m then m + 1 else m - 1)"

definition proper :: "valuation \<Rightarrow> bool" where
  "proper v \<longleftrightarrow> (\<forall>m. v (lit_not m) = (\<not> v m))"

lemma lit_not_not [simp]: "lit_not (lit_not m) = m"
  by (auto simp: lit_not_def elim: oddE)

lemma proper_not [simp]: "proper v \<Longrightarrow> v (lit_not m) = (\<not> v m)"
  by (simp add: proper_def)

record ('c, 'k, 's) gini =
  NewCCap :: "nat \<Rightarrow> 'c"                          \<comment> \<open>\<^verbatim>\<open>logic.NewCCap\<close>\<close>
  C_Lit :: "'c \<Rightarrow> lit \<times> 'c"                       \<comment> \<open>\<^verbatim>\<open>(*logic.C).Lit\<close>\<close>
  C_Or :: "'c \<Rightarrow> lit \<Rightarrow> lit \<Rightarrow> lit \<times> 'c"           \<comment> \<open>\<^verbatim>\<open>(*logic.C).Or\<close>\<close>
  C_CardSort :: "'c \<Rightarrow> lit list \<Rightarrow> 'k \<times> 'c"       \<comment> \<open>\<^verbatim>\<open>(*logic.C).CardSort\<close>\<close>
  C_Len :: "'c \<Rightarrow> nat"                             \<comment> \<open>\<^verbatim>\<open>(*logic.C).Len\<close>\<close>
  C_ToCnf :: "'c \<Rightarrow> 's \<Rightarrow> 's"                       \<comment> \<open>\<^verbatim>\<open>(*logic.C).ToCnf\<close>\<close>
  C_CnfSince :: "'c \<Rightarrow> 's \<Rightarrow> int list \<Rightarrow> lit \<Rightarrow> int list \<times> 's"
                                                  \<comment> \<open>\<^verbatim>\<open>(*logic.C).CnfSince\<close>\<close>
  Card_Leq :: "'k \<Rightarrow> int \<Rightarrow> lit"                    \<comment> \<open>\<^verbatim>\<open>(*logic.CardSort).Leq\<close>\<close>
  Card_N :: "'k \<Rightarrow> nat"                            \<comment> \<open>\<^verbatim>\<open>(*logic.CardSort).N\<close>\<close>
  New_S :: "'s"                                   \<comment> \<open>\<^verbatim>\<open>gini.New\<close>\<close>
  S_Assume :: "lit list \<Rightarrow> 's \<Rightarrow> 's"                \<comment> \<open>\<^verbatim>\<open>inter.Assumable.Assume\<close>\<close>
  S_Test :: "'s \<Rightarrow> int \<times> 's"                       \<comment> \<open>\<^verbatim>\<open>inter.Testable.Test\<close>\<close>
  S_Untest :: "'s \<Rightarrow> int \<times> 's"                     \<comment> \<open>\<^verbatim>\<open>inter.Testable.Untest\<close>\<close>
  S_Solve :: "'s \<Rightarrow> int \<times> 's"                      \<comment> \<open>\<^verbatim>\<open>inter.Solvable.Solve\<close>\<close>
  S_Value :: "'s \<Rightarrow> lit \<Rightarrow> bool"                    \<comment> \<open>\<^verbatim>\<open>inter.Model.Value\<close>\<close>
  S_Why :: "'s \<Rightarrow> lit list"                        \<comment> \<open>\<^verbatim>\<open>inter.Assumable.Why\<close>\<close>

subsection \<open>Circuits\<close>

text \<open>
  \<open>wires c\<close> are the literals of the circuit and \<open>gates c v\<close> says that the valuation \<open>v\<close> gives
  every gate of \<open>c\<close> its value. A circuit \<open>c'\<close> extends \<open>c\<close> when it keeps the wires and gates
  of \<open>c\<close> and adds only gates whose value is determined by those: every valuation of \<open>c\<close>
  carries over.
\<close>

definition extends ::
    "('c \<Rightarrow> lit set) \<Rightarrow> ('c \<Rightarrow> valuation \<Rightarrow> bool) \<Rightarrow> 'c \<Rightarrow> 'c \<Rightarrow> bool" where
  "extends wires gates c c' \<longleftrightarrow>
     wires c \<subseteq> wires c' \<and> (\<forall>v. proper v \<longrightarrow> gates c' v \<longrightarrow> gates c v) \<and>
     (\<forall>v. proper v \<longrightarrow> gates c v \<longrightarrow>
        (\<exists>v'. proper v' \<and> gates c' v' \<and> (\<forall>m \<in> wires c. v' m = v m)))"

lemma extends_refl [simp]: "extends wires gates c c"
  by (auto simp: extends_def)

lemma extends_trans:
  assumes "extends wires gates c c'" and "extends wires gates c' c''"
  shows "extends wires gates c c''"
proof -
  have "\<exists>v''. proper v'' \<and> gates c'' v'' \<and> (\<forall>m \<in> wires c. v'' m = v m)"
    if "proper v" "gates c v" for v
  proof -
    from assms(1) that obtain v' where v': "proper v'" "gates c' v'" "\<forall>m \<in> wires c. v' m = v m"
      by (auto simp: extends_def)
    from assms(2) v'(1,2) obtain v'' where v'': "proper v''" "gates c'' v''"
        "\<forall>m \<in> wires c'. v'' m = v' m"
      by (auto simp: extends_def)
    have "wires c \<subseteq> wires c'" using assms(1) by (simp add: extends_def)
    then show ?thesis using v' v'' by (intro exI [of _ v'']) auto
  qed
  then show ?thesis using assms by (auto simp: extends_def)
qed

locale logic_C =
  fixes G :: "('c, 'k, 's) gini"
    and wires :: "'c \<Rightarrow> lit set" and gates :: "'c \<Rightarrow> valuation \<Rightarrow> bool"
  assumes wires_not: "m \<in> wires c \<Longrightarrow> lit_not m \<in> wires c"
    and wires_null: "LitNull \<notin> wires c"
    and NewCCap_sat: "\<exists>v. proper v \<and> gates (NewCCap G cap) v"
    and Lit_fresh: "C_Lit G c = (m, c') \<Longrightarrow>
      m \<notin> wires c \<and> lit_not m \<notin> wires c \<and> m \<in> wires c' \<and> even m \<and> m \<noteq> LitNull \<and>
      wires c \<subseteq> wires c'"
    and Lit_gates: "C_Lit G c = (m, c') \<Longrightarrow> proper v \<Longrightarrow> gates c' v \<Longrightarrow> gates c v"
    and Lit_free: "C_Lit G c = (m, c') \<Longrightarrow> proper v \<Longrightarrow> gates c v \<Longrightarrow>
      \<exists>v'. proper v' \<and> gates c' v' \<and> v' m = bv \<and> (\<forall>j \<in> wires c. v' j = v j)"
    and Or_wires: "a \<in> wires c \<Longrightarrow> b \<in> wires c \<Longrightarrow> C_Or G c a b = (m, c') \<Longrightarrow>
      m \<in> wires c' \<and> extends wires gates c c'"
    and Or_value: "a \<in> wires c \<Longrightarrow> b \<in> wires c \<Longrightarrow> C_Or G c a b = (m, c') \<Longrightarrow>
      proper v \<Longrightarrow> gates c' v \<Longrightarrow> v m = (v a \<or> v b)"
    and CardSort_wires: "set ms \<subseteq> wires c \<Longrightarrow> C_CardSort G c ms = (k, c') \<Longrightarrow>
      Card_Leq G k n \<in> wires c' \<and> Card_N G k = length ms \<and> extends wires gates c c'"
    and CardSort_value: "set ms \<subseteq> wires c \<Longrightarrow> C_CardSort G c ms = (k, c') \<Longrightarrow>
      proper v \<Longrightarrow> gates c' v \<Longrightarrow>
      v (Card_Leq G k n) = (int (length (filter v ms)) \<le> n)"
begin

lemma Lit_extends: "C_Lit G c = (m, c') \<Longrightarrow> extends wires gates c c'"
  unfolding extends_def using Lit_fresh Lit_gates Lit_free by blast

end

subsection \<open>The incremental solver\<close>

text \<open>
  \<^verbatim>\<open>Untest\<close> is only described for a solver without pending assumptions, as the search calls it.
  \<open>clauses s v\<close>: the valuation \<open>v\<close> satisfies the clauses taught to \<open>s\<close>; \<open>scopes s\<close>: the
  assumptions of the open test scopes, innermost first; \<open>pending s\<close>: the assumptions made since;
  \<open>conflicted s\<close>: the last call answered \<^verbatim>\<open>-1\<close>, so that \<^verbatim>\<open>Test\<close> must not be called. \<open>marked c ms v\<close>:
  \<open>v\<close> respects the gates of \<open>c\<close> that the marks \<open>ms\<close> of \<^verbatim>\<open>CnfSince\<close> say have been taught.
\<close>

definition satisfiable_with :: "(valuation \<Rightarrow> bool) \<Rightarrow> lit set \<Rightarrow> bool" where
  "satisfiable_with cl ms \<longleftrightarrow> (\<exists>v. proper v \<and> cl v \<and> (\<forall>m \<in> ms. v m))"

lemma satisfiable_with_mono:
  "satisfiable_with cl ms \<Longrightarrow> ns \<subseteq> ms \<Longrightarrow> satisfiable_with cl ns"
  by (auto simp: satisfiable_with_def)

locale inter_S = logic_C G wires gates
  for G :: "('c, 'k, 's) gini" and wires gates +
  fixes clauses :: "'s \<Rightarrow> valuation \<Rightarrow> bool"
    and scopes :: "'s \<Rightarrow> lit list list" and pending :: "'s \<Rightarrow> lit list"
    and conflicted :: "'s \<Rightarrow> bool"
    and marked :: "'c \<Rightarrow> int list \<Rightarrow> valuation \<Rightarrow> bool"
  assumes New_S: "clauses (New_S G) = (\<lambda>_. True)" "scopes (New_S G) = []"
      "pending (New_S G) = []" "\<not> conflicted (New_S G)"
    and ToCnf: "scopes s = [] \<Longrightarrow> proper v \<Longrightarrow>
        clauses (C_ToCnf G c s) v = (clauses s v \<and> gates c v)"
      "scopes s = [] \<Longrightarrow> scopes (C_ToCnf G c s) = []"
      "scopes s = [] \<Longrightarrow> pending (C_ToCnf G c s) = pending s"
      "scopes s = [] \<Longrightarrow> \<not> conflicted s \<Longrightarrow> \<not> conflicted (C_ToCnf G c s)"
    and marked_gates: "proper v \<Longrightarrow> gates c v \<Longrightarrow> marked c mk v"
    and marked_old: "set ms \<subseteq> wires c \<Longrightarrow> C_CardSort G c ms = (k, c') \<Longrightarrow> proper v \<Longrightarrow>
        gates c v \<Longrightarrow> marked c' (replicate (C_Len G c) 1) v"
    and CnfSince: "scopes s = [] \<Longrightarrow> C_CnfSince G c s mk root = (mk', s') \<Longrightarrow> proper v \<Longrightarrow>
        marked c mk v \<Longrightarrow> clauses s' v = (clauses s v \<and> marked c mk' v)"
      "scopes s = [] \<Longrightarrow> C_CnfSince G c s mk root = (mk', s') \<Longrightarrow> proper v \<Longrightarrow>
        marked c mk' v \<Longrightarrow> marked c mk v"
      "scopes s = [] \<Longrightarrow> C_CnfSince G c s mk root = (mk', s') \<Longrightarrow>
        scopes s' = [] \<and> pending s' = pending s \<and> (conflicted s' \<longrightarrow> conflicted s) \<and>
        (\<forall>v. proper v \<longrightarrow> clauses s' v \<longrightarrow> clauses s v)"
    and CnfSince_Leq: "set ms \<subseteq> wires c \<Longrightarrow> C_CardSort G c ms = (k, c') \<Longrightarrow> scopes s = [] \<Longrightarrow>
        C_CnfSince G c' s mk (Card_Leq G k n) = (mk', s') \<Longrightarrow> proper v \<Longrightarrow>
        marked c' mk' v \<Longrightarrow> v (Card_Leq G k n) = (int (length (filter v ms)) \<le> n)"
    and Assume: "clauses (S_Assume G ms s) = clauses s" "scopes (S_Assume G ms s) = scopes s"
      "pending (S_Assume G ms s) = pending s @ ms"
      "conflicted (S_Assume G ms s) = conflicted s"
    and Test_state: "\<not> conflicted s \<Longrightarrow> S_Test G s = (r, s') \<Longrightarrow>
        clauses s' = clauses s \<and> scopes s' = pending s # scopes s \<and> pending s' = [] \<and>
        conflicted s' = (r = -1) \<and> r \<in> {-1, 0, 1}"
    and Test_unsat: "\<not> conflicted s \<Longrightarrow> S_Test G s = (-1, s') \<Longrightarrow>
        \<not> satisfiable_with (clauses s') (set (concat (scopes s')))"
    and Test_sat: "\<not> conflicted s \<Longrightarrow> S_Test G s = (1, s') \<Longrightarrow>
        \<exists>v. proper v \<and> clauses s' v \<and> (\<forall>m \<in> set (concat (scopes s')). v m) \<and>
            (\<forall>m. even m \<longrightarrow> S_Value G s' m = v m)"
    and Untest_state: "scopes s = ms # mss \<Longrightarrow> pending s = [] \<Longrightarrow> S_Untest G s = (r, s') \<Longrightarrow>
        clauses s' = clauses s \<and> scopes s' = mss \<and> pending s' = [] \<and>
        conflicted s' = (r = -1) \<and> r \<in> {-1, 0}"
    and Untest_unsat: "scopes s = ms # mss \<Longrightarrow> pending s = [] \<Longrightarrow> S_Untest G s = (-1, s') \<Longrightarrow>
        \<not> satisfiable_with (clauses s') (set (concat (scopes s')))"
    and Solve_state: "S_Solve G s = (r, s') \<Longrightarrow>
        clauses s' = clauses s \<and> scopes s' = scopes s \<and> pending s' = [] \<and>
        conflicted s' = (r = -1) \<and> r \<in> {-1, 1}"
    and Solve_unsat: "S_Solve G s = (-1, s') \<Longrightarrow>
        \<not> satisfiable_with (clauses s) (set (concat (scopes s)) \<union> set (pending s))"
    and Solve_sat: "S_Solve G s = (1, s') \<Longrightarrow>
        \<exists>v. proper v \<and> clauses s v \<and> (\<forall>m \<in> set (concat (scopes s)) \<union> set (pending s). v m) \<and>
            (\<forall>m. even m \<longrightarrow> S_Value G s' m = v m)"
    and Why: "conflicted s \<Longrightarrow> pending s = [] \<Longrightarrow>
        \<not> satisfiable_with (clauses s) (set (concat (scopes s))) \<Longrightarrow>
        set (S_Why G s) \<subseteq> set (concat (scopes s)) \<and>
        \<not> satisfiable_with (clauses s) (set (S_Why G s))"
begin

lemma Solve_iff:
  assumes "S_Solve G s = (r, s')"
  shows "r = 1 \<longleftrightarrow> satisfiable_with (clauses s) (set (concat (scopes s)) \<union> set (pending s))"
proof
  assume "r = 1"
  then show "satisfiable_with (clauses s) (set (concat (scopes s)) \<union> set (pending s))"
    using Solve_sat [of s s'] assms unfolding satisfiable_with_def by blast
next
  assume "satisfiable_with (clauses s) (set (concat (scopes s)) \<union> set (pending s))"
  then have "r \<noteq> -1" using Solve_unsat [of s s'] assms by blast
  then show "r = 1" using Solve_state [OF assms] by blast
qed

lemma Test_sat_iff:
  assumes "\<not> conflicted s" and "S_Test G s = (1, s')"
  shows "satisfiable_with (clauses s') (set (concat (scopes s')))"
  using Test_sat [OF assms] unfolding satisfiable_with_def by blast

end

end
