(* ===== verification/Lit_Mapping.thy ===== *)
theory Lit_Mapping
  imports Gini
begin

text \<open>
  Constraints, variables and their translation to literals: \<^verbatim>\<open>constraints.go\<close>, \<^verbatim>\<open>variable.go\<close> and
  \<^verbatim>\<open>lit_mapping.go\<close> of \<^verbatim>\<open>pkg/controller/registry/resolver/solver\<close>, with the two implementations of
  \<^verbatim>\<open>solver.Variable\<close> and the wrapper \<^verbatim>\<open>prettyConstraint\<close> of \<^verbatim>\<open>variable_types.go\<close>. The lemmas show
  that the literal of a constraint has the truth value of the constraint under every valuation
  of the circuit, so that assuming all of them expresses the problem.
\<close>

named_theorems lm_defs \<open>definitions of the literal mapping\<close>

subsection \<open>Constraints and variables\<close>

type_synonym ident = string

datatype solver_constraint =
    zeroConstraint
  | mandatory
  | prohibited
  | dependency "ident list"
  | conflict ident
  | leq "ident list" int
  | prettyConstraint solver_constraint string

fun constraint_String :: "solver_constraint \<Rightarrow> ident \<Rightarrow> string" where
  "constraint_String zeroConstraint subject = []"
| "constraint_String mandatory subject = subject @ '' is mandatory''"
| "constraint_String prohibited subject = subject @ '' is prohibited''"
| "constraint_String (dependency ids) subject =
     (if length ids = 0
      then subject @ '' has a dependency without any candidates to satisfy it''
      else subject @ '' requires at least one of '' @ strings_Join ids '', '')"
| "constraint_String (conflict c) subject = subject @ '' conflicts with '' @ c"
| "constraint_String (leq ids n) subject =
     subject @ '' permits at most '' @ itoa n @ '' of '' @ strings_Join ids '', ''"
| "constraint_String (prettyConstraint c msg) subject = msg"

fun constraint_order :: "solver_constraint \<Rightarrow> ident list" where
  "constraint_order (dependency ids) = ids"
| "constraint_order (prettyConstraint c msg) = constraint_order c"
| "constraint_order _ = []"

fun constraint_anchor :: "solver_constraint \<Rightarrow> bool" where
  "constraint_anchor mandatory = True"
| "constraint_anchor (prettyConstraint c msg) = constraint_anchor c"
| "constraint_anchor _ = False"

text \<open>
  \<^verbatim>\<open>solver.Variable\<close> is an interface; its implementations are the bundle and generic variables of
  the resolver and the \<^verbatim>\<open>zeroVariable\<close> of the solver.
\<close>

datatype solver_variable =
    BundleVariable ident "solver_constraint list" string
  | GenericVariable ident "solver_constraint list"
  | zeroVariable

fun Identifier :: "solver_variable \<Rightarrow> ident" where
  "Identifier (BundleVariable i cs replaces) = i"
| "Identifier (GenericVariable i cs) = i"
| "Identifier zeroVariable = []"

fun Constraints :: "solver_variable \<Rightarrow> solver_constraint list" where
  "Constraints (BundleVariable i cs replaces) = cs"
| "Constraints (GenericVariable i cs) = cs"
| "Constraints zeroVariable = []"

record AppliedConstraint =
  AC_Variable :: solver_variable
  AC_Constraint :: solver_constraint

definition AppliedConstraint_String :: "AppliedConstraint \<Rightarrow> string" where
  "AppliedConstraint_String a =
     constraint_String (AC_Constraint a) (Identifier (AC_Variable a))"

subsection \<open>The mapping\<close>

datatype lm_error =
    NotProvided ident  \<comment> \<open>\<^verbatim>\<open>variable %q referenced but not provided\<close>\<close>
  | NoVariable lit          \<comment> \<open>\<^verbatim>\<open>no variable corresponding to %s\<close>\<close>
  | NoConstraint lit        \<comment> \<open>\<^verbatim>\<open>no constraint corresponding to %s\<close>\<close>

record 'c litMapping =
  inorder :: "solver_variable list"
  variables :: "(lit \<times> solver_variable) list"
  lits :: "(ident \<times> lit) list"
  constraints :: "(lit \<times> AppliedConstraint) list"
  circ :: 'c
  errs :: "lm_error list"

definition LitOf :: "'c litMapping \<Rightarrow> ident \<Rightarrow> lit \<times> 'c litMapping" where
  "LitOf d i =
     (case map_of (lits d) i of
        Some m \<Rightarrow> (m, d)
      | None \<Rightarrow> (LitNull, d\<lparr>errs := errs d @ [NotProvided i]\<rparr>))"

definition VariableOf :: "'c litMapping \<Rightarrow> lit \<Rightarrow> solver_variable \<times> 'c litMapping" where
  "VariableOf d m =
     (case map_of (variables d) m of
        Some v \<Rightarrow> (v, d)
      | None \<Rightarrow> (zeroVariable, d\<lparr>errs := errs d @ [NoVariable m]\<rparr>))"

definition ConstraintOf :: "'c litMapping \<Rightarrow> lit \<Rightarrow> AppliedConstraint \<times> 'c litMapping" where
  "ConstraintOf d m =
     (case map_of (constraints d) m of
        Some a \<Rightarrow> (a, d)
      | None \<Rightarrow> (\<lparr>AC_Variable = zeroVariable, AC_Constraint = zeroConstraint\<rparr>,
                 d\<lparr>errs := errs d @ [NoConstraint m]\<rparr>))"

fun LitsOf :: "'c litMapping \<Rightarrow> ident list \<Rightarrow> lit list \<times> 'c litMapping" where
  "LitsOf d [] = ([], d)"
| "LitsOf d (i # is) =
     (let (m, d) = LitOf d i; (ms, d) = LitsOf d is in (m # ms, d))"

text \<open>The loop of \<^verbatim>\<open>dependency.apply\<close>\<close>

fun dependency_apply ::
    "('c, 'k, 's) gini \<Rightarrow> 'c litMapping \<Rightarrow> lit \<Rightarrow> ident list \<Rightarrow> lit \<times> 'c litMapping" where
  "dependency_apply G lm m [] = (m, lm)"
| "dependency_apply G lm m (each # ids) =
     (let (n, lm) = LitOf lm each;
          (m, c) = C_Or G (circ lm) m n
      in dependency_apply G (lm\<lparr>circ := c\<rparr>) m ids)"

fun constraint_apply ::
    "('c, 'k, 's) gini \<Rightarrow> solver_constraint \<Rightarrow> 'c litMapping \<Rightarrow> ident \<Rightarrow> lit \<times> 'c litMapping" where
  "constraint_apply G zeroConstraint lm subject = (LitNull, lm)"
| "constraint_apply G mandatory lm subject = LitOf lm subject"
| "constraint_apply G prohibited lm subject =
     (let (m, lm) = LitOf lm subject in (lit_not m, lm))"
| "constraint_apply G (dependency ids) lm subject =
     (let (m, lm) = LitOf lm subject in dependency_apply G lm (lit_not m) ids)"
| "constraint_apply G (conflict c) lm subject =
     (let (m, lm) = LitOf lm subject;
          (n, lm) = LitOf lm c;
          (r, c) = C_Or G (circ lm) (lit_not m) (lit_not n)
      in (r, lm\<lparr>circ := c\<rparr>))"
| "constraint_apply G (leq ids n) lm subject =
     (let (ms, lm) = LitsOf lm ids;
          (k, c) = C_CardSort G (circ lm) ms
      in (Card_Leq G k n, lm\<lparr>circ := c\<rparr>))"
| "constraint_apply G (prettyConstraint c msg) lm subject = constraint_apply G c lm subject"

datatype solver_error =
    DuplicateIdentifier ident
  | InconsistentLitMapping "lm_error list"
  | NotSatisfiable "AppliedConstraint list"
  | UnexpectedInternalError
  | ErrIncomplete

text \<open>The first pass of \<^verbatim>\<open>newLitMapping\<close>, which assigns literals\<close>

fun assign_lits ::
    "('c, 'k, 's) gini \<Rightarrow> solver_variable list \<Rightarrow> 'c litMapping \<Rightarrow> solver_error + 'c litMapping" where
  "assign_lits G [] d = Inr d"
| "assign_lits G (v # vs) d =
     (let (im, c) = C_Lit G (circ d); d = d\<lparr>circ := c\<rparr> in
      case map_of (lits d) (Identifier v) of
        Some _ \<Rightarrow> Inl (DuplicateIdentifier (Identifier v))
      | None \<Rightarrow>
          assign_lits G vs
            (d\<lparr>lits := AList.update (Identifier v) im (lits d),
               variables := AList.update im v (variables d)\<rparr>))"

text \<open>The second pass: the inner loop over one variable's constraints and the outer one\<close>

fun apply_constraints ::
    "('c, 'k, 's) gini \<Rightarrow> solver_variable \<Rightarrow> solver_constraint list \<Rightarrow> 'c litMapping \<Rightarrow> 'c litMapping" where
  "apply_constraints G v [] d = d"
| "apply_constraints G v (c # cs) d =
     (let (m, d) = constraint_apply G c d (Identifier v) in
      if m = LitNull then apply_constraints G v cs d
      else apply_constraints G v cs
             (d\<lparr>constraints := AList.update m \<lparr>AC_Variable = v, AC_Constraint = c\<rparr> (constraints d)\<rparr>))"

fun apply_variables ::
    "('c, 'k, 's) gini \<Rightarrow> solver_variable list \<Rightarrow> 'c litMapping \<Rightarrow> 'c litMapping" where
  "apply_variables G [] d = d"
| "apply_variables G (v # vs) d = apply_variables G vs (apply_constraints G v (Constraints v) d)"

definition newLitMapping ::
    "('c, 'k, 's) gini \<Rightarrow> solver_variable list \<Rightarrow> solver_error + 'c litMapping" where
  "newLitMapping G vs =
     (case assign_lits G vs
             \<lparr>inorder = vs, variables = [], lits = [], constraints = [],
              circ = NewCCap G (length vs), errs = []\<rparr> of
        Inl e \<Rightarrow> Inl e
      | Inr d \<Rightarrow> Inr (apply_variables G vs d))"

text \<open>\<^verbatim>\<open>litMapping.Error\<close>: nil exactly when no error was recorded\<close>

definition lm_Error :: "'c litMapping \<Rightarrow> solver_error option" where
  "lm_Error d = (if length (errs d) = 0 then None else Some (InconsistentLitMapping (errs d)))"

definition AddConstraints :: "('c, 'k, 's) gini \<Rightarrow> 'c litMapping \<Rightarrow> 's \<Rightarrow> 's" where
  "AddConstraints G d g = C_ToCnf G (circ d) g"

definition AssumeConstraints :: "('c, 'k, 's) gini \<Rightarrow> 'c litMapping \<Rightarrow> 's \<Rightarrow> 's" where
  "AssumeConstraints G d s = foldl (\<lambda>s m. S_Assume G [m] s) s (map fst (constraints d))"

text \<open>The loop of \<^verbatim>\<open>CardinalityConstrainer\<close>: the bounds \<open>w, w + 1, \<dots>, N\<close> are taught in turn\<close>

fun teach_Leq ::
    "('c, 'k, 's) gini \<Rightarrow> 'c \<Rightarrow> 'k \<Rightarrow> int list \<Rightarrow> 's \<Rightarrow> nat list \<Rightarrow> 's" where
  "teach_Leq G c cs marks g [] = g"
| "teach_Leq G c cs marks g (w # ws) =
     (let (marks, g) = C_CnfSince G c g marks (Card_Leq G cs (int w))
      in teach_Leq G c cs marks g ws)"

definition CardinalityConstrainer ::
    "('c, 'k, 's) gini \<Rightarrow> 'c litMapping \<Rightarrow> 's \<Rightarrow> lit list \<Rightarrow> 'k \<times> 'c litMapping \<times> 's" where
  "CardinalityConstrainer G d g ms =
     (let clen = C_Len G (circ d);
          (cs, c) = C_CardSort G (circ d) ms;
          marks = replicate clen 1
      in (cs, d\<lparr>circ := c\<rparr>, teach_Leq G c cs marks g [0..<Suc (Card_N G cs)]))"

definition AnchorIdentifiers :: "'c litMapping \<Rightarrow> ident list" where
  "AnchorIdentifiers d =
     map Identifier (filter (\<lambda>v. list_ex constraint_anchor (Constraints v)) (inorder d))"

fun lm_Variables ::
    "('c, 'k, 's) gini \<Rightarrow> 's \<Rightarrow> solver_variable list \<Rightarrow> 'c litMapping \<Rightarrow>
     solver_variable list \<times> 'c litMapping" where
  "lm_Variables G g [] d = ([], d)"
| "lm_Variables G g (i # is) d =
     (let (m, d) = LitOf d (Identifier i);
          (rest, d) = lm_Variables G g is d
      in (if S_Value G g m then i # rest else rest, d))"

definition Variables ::
    "('c, 'k, 's) gini \<Rightarrow> 'c litMapping \<Rightarrow> 's \<Rightarrow> solver_variable list \<times> 'c litMapping" where
  "Variables G d g = lm_Variables G g (inorder d) d"

definition Lits :: "'c litMapping \<Rightarrow> lit list \<times> 'c litMapping" where
  "Lits d = LitsOf d (map Identifier (inorder d))"

definition Conflicts ::
    "('c, 'k, 's) gini \<Rightarrow> 'c litMapping \<Rightarrow> 's \<Rightarrow> AppliedConstraint list" where
  "Conflicts G d g =
     sort_key AppliedConstraint_String (List.map_filter (map_of (constraints d)) (S_Why G g))"

lemmas lm_op_defs [lm_defs] = LitOf_def VariableOf_def ConstraintOf_def lm_Error_def
  AddConstraints_def Lits_def Variables_def

subsection \<open>The meaning of constraints\<close>

text \<open>
  What the documentation of the constructors in \<^verbatim>\<open>constraints.go\<close> promises, over the set \<open>S\<close> of
  selected identifiers: a selection is a solution when it satisfies every constraint of every
  variable of the input.
\<close>

fun holds :: "ident set \<Rightarrow> ident \<Rightarrow> solver_constraint \<Rightarrow> bool" where
  "holds S subject zeroConstraint = True"
| "holds S subject mandatory = (subject \<in> S)"
| "holds S subject prohibited = (subject \<notin> S)"
| "holds S subject (dependency ids) = (subject \<in> S \<longrightarrow> (\<exists>i \<in> set ids. i \<in> S))"
| "holds S subject (conflict c) = (\<not> (subject \<in> S \<and> c \<in> S))"
| "holds S subject (leq ids n) = (int (length (filter (\<lambda>i. i \<in> S) ids)) \<le> n)"
| "holds S subject (prettyConstraint c msg) = holds S subject c"

definition is_solution :: "solver_variable list \<Rightarrow> ident set \<Rightarrow> bool" where
  "is_solution vs S \<longleftrightarrow> (\<forall>v \<in> set vs. \<forall>c \<in> set (Constraints v). holds S (Identifier v) c)"

text \<open>The identifiers a constraint refers to besides its subject\<close>

fun refs :: "solver_constraint \<Rightarrow> ident set" where
  "refs (dependency ids) = set ids"
| "refs (conflict c) = {c}"
| "refs (leq ids n) = set ids"
| "refs (prettyConstraint c msg) = refs c"
| "refs _ = {}"

definition references :: "solver_variable list \<Rightarrow> ident set" where
  "references vs = (\<Union>v \<in> set vs. \<Union>c \<in> set (Constraints v). refs c)"

lemma holds_cong_refs:
  "S \<inter> insert subject (refs c) = T \<inter> insert subject (refs c) \<Longrightarrow> holds S subject c = holds T subject c"
proof (induction c)
  case (leq ids n)
  then have "filter (\<lambda>i. i \<in> S) ids = filter (\<lambda>i. i \<in> T) ids"
    by (intro filter_cong) auto
  then show ?case by simp
qed auto

lemma is_solution_cong:
  assumes "S \<inter> (Identifier ` set vs \<union> references vs) = T \<inter> (Identifier ` set vs \<union> references vs)"
  shows "is_solution vs S = is_solution vs T"
proof -
  have "holds S (Identifier v) c = holds T (Identifier v) c"
    if "v \<in> set vs" "c \<in> set (Constraints v)" for v c
  proof (rule holds_cong_refs)
    have "insert (Identifier v) (refs c) \<subseteq> Identifier ` set vs \<union> references vs"
      using that by (auto simp: references_def)
    then show "S \<inter> insert (Identifier v) (refs c) = T \<inter> insert (Identifier v) (refs c)"
      using assms by blast
  qed
  then show ?thesis by (simp add: is_solution_def)
qed

text \<open>Constraints other than mandatory and dependency are kept by smaller selections.\<close>

lemma holds_antimono:
  assumes "holds T subject c" and "S \<subseteq> T"
    and "constraint_anchor c \<Longrightarrow> subject \<in> S"
    and "subject \<in> S \<Longrightarrow> constraint_order c \<noteq> [] \<Longrightarrow> \<exists>i \<in> set (constraint_order c). i \<in> S"
  shows "holds S subject c"
  using assms
proof (induction c)
  case (dependency ids)
  then show ?case by (cases ids) auto
next
  case (leq ids n)
  have "length (filter (\<lambda>i. i \<in> S) ids) \<le> length (filter (\<lambda>i. i \<in> T) ids)"
    using leq.prems(2) by (induction ids) auto
  then show ?case using leq.prems(1) by simp
qed auto

subsection \<open>Lookups\<close>

definition selected :: "'c litMapping \<Rightarrow> valuation \<Rightarrow> ident set" where
  "selected d v = {i. \<exists>m. map_of (lits d) i = Some m \<and> v m}"

lemma selected_circ [simp]: "selected (d\<lparr>circ := c\<rparr>) v = selected d v"
  "selected (d\<lparr>constraints := k\<rparr>) v = selected d v"
  by (simp_all add: selected_def)

lemma LitOf_known [simp]: "map_of (lits d) i = Some m \<Longrightarrow> LitOf d i = (m, d)"
  by (simp add: LitOf_def)

lemma LitOf_frame:
  "LitOf d i = (m, d') \<Longrightarrow> lits d' = lits d \<and> circ d' = circ d \<and> variables d' = variables d \<and>
     constraints d' = constraints d \<and> inorder d' = inorder d \<and>
     (\<exists>es. errs d' = errs d @ es \<and> (es = [] \<longleftrightarrow> i \<in> dom (map_of (lits d))))"
  by (auto simp: LitOf_def split: option.splits)

lemma LitsOf_known:
  "set is \<subseteq> dom (map_of (lits d)) \<Longrightarrow> LitsOf d is = (map (\<lambda>i. the (map_of (lits d) i)) is, d)"
  by (induction "is") auto

lemma LitsOf_frame:
  "LitsOf d is = (ms, d') \<Longrightarrow> lits d' = lits d \<and> circ d' = circ d \<and> variables d' = variables d \<and>
     constraints d' = constraints d \<and> inorder d' = inorder d \<and>
     (\<exists>es. errs d' = errs d @ es \<and> (es = [] \<longleftrightarrow> set is \<subseteq> dom (map_of (lits d))))"
proof (induction "is" arbitrary: d ms)
  case Nil
  then show ?case by auto
next
  case (Cons i "is")
  obtain m d1 where d1: "LitOf d i = (m, d1)" by force
  obtain ms' where d2: "LitsOf d1 is = (ms', d')"
    using Cons.prems d1 by (auto split: prod.splits)
  show ?case using LitOf_frame [OF d1] Cons.IH [OF d2] by auto
qed

subsection \<open>The encoding of constraints\<close>

text \<open>
  What building a constraint does to the mapping: it may only grow the circuit and record errors,
  and it records one exactly when an identifier is not provided.
\<close>

definition lm_frame :: "'c litMapping \<Rightarrow> 'c litMapping \<Rightarrow> ident set \<Rightarrow> bool" where
  "lm_frame d d' ids \<longleftrightarrow> lits d' = lits d \<and> variables d' = variables d \<and>
     constraints d' = constraints d \<and> inorder d' = inorder d \<and>
     (\<exists>es. errs d' = errs d @ es \<and> (es = [] \<longleftrightarrow> ids \<subseteq> dom (map_of (lits d))))"

lemma lm_frame_trans:
  "lm_frame d d1 A \<Longrightarrow> lm_frame d1 d2 B \<Longrightarrow> lm_frame d d2 (A \<union> B)"
  by (auto simp: lm_frame_def)

lemma lm_frame_circ [simp]: "lm_frame d (d'\<lparr>circ := c\<rparr>) A = lm_frame d d' A"
  by (simp add: lm_frame_def)

lemma LitOf_lm_frame: "LitOf d i = (m, d') \<Longrightarrow> lm_frame d d' {i}"
  by (drule LitOf_frame) (simp add: lm_frame_def)

lemma LitsOf_lm_frame: "LitsOf d is = (ms, d') \<Longrightarrow> lm_frame d d' (set is)"
  by (drule LitsOf_frame) (simp add: lm_frame_def)

lemma dependency_apply_frame:
  "dependency_apply G d m ids = (r, d') \<Longrightarrow> lm_frame d d' (set ids)"
proof (induction ids arbitrary: d m)
  case Nil
  then show ?case by (simp add: lm_frame_def)
next
  case (Cons i ids)
  obtain n d1 where d1: "LitOf d i = (n, d1)" by force
  obtain m1 c1 where c1: "C_Or G (circ d1) m n = (m1, c1)" by force
  have "dependency_apply G (d1\<lparr>circ := c1\<rparr>) m1 ids = (r, d')"
    using Cons.prems d1 c1 by simp
  from lm_frame_trans [OF _ Cons.IH [OF this], of d "{i}"] show ?case
    using LitOf_lm_frame [OF d1] by (simp add: lm_frame_def)
qed

lemma constraint_apply_frame:
  assumes "constraint_apply G c d subject = (r, d')" and "subject \<in> dom (map_of (lits d))"
  shows "lm_frame d d' (refs c)"
  using assms
proof (induction c)
  case (dependency ids)
  then show ?case by (auto intro: dependency_apply_frame)
next
  case (conflict c)
  then show ?case
    by (auto simp: Let_def split: prod.splits dest: LitOf_lm_frame)
next
  case (leq ids n)
  then show ?case
    by (auto simp: Let_def split: prod.splits dest: LitsOf_lm_frame)
qed (auto simp: lm_frame_def split: prod.splits)

context logic_C
begin

definition lm_ok :: "'c litMapping \<Rightarrow> bool" where
  "lm_ok d \<longleftrightarrow> (\<forall>i m. map_of (lits d) i = Some m \<longrightarrow> m \<in> wires (circ d) \<and> even m)"

lemma lm_ok_extends:
  "lm_ok d \<Longrightarrow> extends wires gates (circ d) c \<Longrightarrow> lits d' = lits d \<Longrightarrow> circ d' = c \<Longrightarrow> lm_ok d'"
  by (fastforce simp: lm_ok_def extends_def)

lemma lm_ok_not_null: "lm_ok d \<Longrightarrow> map_of (lits d) i = Some m \<Longrightarrow> m \<noteq> LitNull"
  using wires_null by (auto simp: lm_ok_def)

text \<open>The literal of a constraint is a wire with the constraint's truth value.\<close>

definition encodes :: "'c litMapping \<Rightarrow> lit \<Rightarrow> ident \<Rightarrow> solver_constraint \<Rightarrow> bool" where
  "encodes d r subject c \<longleftrightarrow> r \<in> wires (circ d) \<and>
     (\<forall>v. proper v \<longrightarrow> gates (circ d) v \<longrightarrow> v r = holds (selected d v) subject c)"

lemma encodes_extends:
  "encodes d r subject c \<Longrightarrow> extends wires gates (circ d) (circ d') \<Longrightarrow> lits d' = lits d \<Longrightarrow>
   encodes d' r subject c"
  by (auto simp: encodes_def extends_def selected_def)

lemma encodes_not_null: "encodes d r subject c \<Longrightarrow> r \<noteq> LitNull"
  using wires_null by (auto simp: encodes_def)

lemma dependency_apply_value:
  assumes "lm_ok d" and "m \<in> wires (circ d)" and "set ids \<subseteq> dom (map_of (lits d))"
    and "dependency_apply G d m ids = (r, d')"
  shows "extends wires gates (circ d) (circ d') \<and> r \<in> wires (circ d') \<and>
    (\<forall>v. proper v \<longrightarrow> gates (circ d') v \<longrightarrow> v r = (v m \<or> (\<exists>i \<in> set ids. i \<in> selected d v)))"
  using assms
proof (induction ids arbitrary: d m)
  case Nil
  then show ?case by simp
next
  case (Cons i ids)
  obtain n where n: "map_of (lits d) i = Some n" using Cons.prems(3) by auto
  obtain m1 c1 where c1: "C_Or G (circ d) m n = (m1, c1)" by force
  have nw: "n \<in> wires (circ d)" using Cons.prems(1) n by (simp add: lm_ok_def)
  note or = Or_wires [OF Cons.prems(2) nw c1] Or_value [OF Cons.prems(2) nw c1]
  let ?d = "d\<lparr>circ := c1\<rparr>"
  have rest: "dependency_apply G ?d m1 ids = (r, d')"
    using Cons.prems(4) n c1 by simp
  have "lm_ok ?d" by (rule lm_ok_extends [OF Cons.prems(1)]) (use or(1) in auto)
  then have IH: "extends wires gates c1 (circ d')" "r \<in> wires (circ d')"
      "\<And>v. proper v \<Longrightarrow> gates (circ d') v \<Longrightarrow>
         v r = (v m1 \<or> (\<exists>i \<in> set ids. i \<in> selected d v))"
    using Cons.IH [OF _ _ _ rest] or(1) Cons.prems(3) by auto
  have "v r = (v m \<or> (\<exists>j \<in> set (i # ids). j \<in> selected d v))"
    if v: "proper v" "gates (circ d') v" for v
  proof -
    have "gates c1 v" using v IH(1) by (simp add: extends_def)
    then have "v m1 = (v m \<or> i \<in> selected d v)"
      using or(2) [OF v(1)] n by (simp add: selected_def)
    then show ?thesis using IH(3) [OF v] by auto
  qed
  moreover have "extends wires gates (circ d) (circ d')"
    by (rule extends_trans [OF conjunct2 [OF or(1)] IH(1)])
  ultimately show ?case using IH(2) by blast
qed

lemma selected_filter:
  assumes "set ids \<subseteq> dom (map_of (lits d))"
  shows "length (filter v (map (\<lambda>i. the (map_of (lits d) i)) ids)) =
    length (filter (\<lambda>i. i \<in> selected d v) ids)"
  using assms by (induction ids) (auto simp: selected_def)

lemma constraint_apply_value:
  assumes "constraint_apply G c d subject = (r, d')" and "lm_ok d"
    and "map_of (lits d) subject = Some s" and "refs c \<subseteq> dom (map_of (lits d))"
  shows "extends wires gates (circ d) (circ d') \<and>
    (if r = LitNull then \<forall>S. holds S subject c else encodes d' r subject c)"
  using assms
proof (induction c)
  case zeroConstraint
  then show ?case by simp
next
  case mandatory
  then have "s \<in> wires (circ d)" "s \<noteq> LitNull"
    using lm_ok_not_null by (auto simp: lm_ok_def)
  then show ?case using mandatory by (auto simp: encodes_def selected_def)
next
  case prohibited
  then have "lit_not s \<in> wires (circ d)" using wires_not by (auto simp: lm_ok_def)
  moreover have "lit_not s \<noteq> LitNull" using calculation wires_null by auto
  ultimately show ?case using prohibited by (auto simp: encodes_def selected_def)
next
  case (dependency ids)
  have s: "lit_not s \<in> wires (circ d)" using dependency.prems by (simp add: lm_ok_def wires_not)
  have ap: "dependency_apply G d (lit_not s) ids = (r, d')" using dependency.prems by simp
  from dependency_apply_value [OF dependency.prems(2) s _ ap] dependency_apply_frame [OF ap]
  show ?case using dependency.prems wires_null
    by (auto simp: encodes_def selected_def lm_frame_def)
next
  case (conflict c)
  obtain n where n: "map_of (lits d) c = Some n" using conflict.prems(4) by auto
  obtain c' where c': "C_Or G (circ d) (lit_not s) (lit_not n) = (r, c')" "d' = d\<lparr>circ := c'\<rparr>"
    using conflict.prems n by (auto split: prod.splits)
  have "lit_not s \<in> wires (circ d)" "lit_not n \<in> wires (circ d)"
    using conflict.prems n by (auto simp: lm_ok_def wires_not)
  from Or_wires [OF this c'(1)] Or_value [OF this c'(1)] show ?case
    using c'(2) conflict.prems(3) n wires_null by (auto simp: encodes_def selected_def)
next
  case (leq ids n)
  let ?ms = "map (\<lambda>i. the (map_of (lits d) i)) ids"
  have ids: "set ids \<subseteq> dom (map_of (lits d))" using leq.prems(4) by simp
  obtain k c' where c': "C_CardSort G (circ d) ?ms = (k, c')" "d' = d\<lparr>circ := c'\<rparr>"
      "r = Card_Leq G k n"
    using leq.prems(1) by (auto simp: LitsOf_known [OF ids] split: prod.splits)
  have "set ?ms \<subseteq> wires (circ d)" using ids leq.prems(2) by (fastforce simp: lm_ok_def)
  note card = CardSort_wires [OF this c'(1)] CardSort_value [OF this c'(1)]
  have "encodes d' r subject (leq ids n)"
    using card c'(2,3) selected_filter [OF ids] by (simp add: encodes_def del: filter_map)
  then show ?case using encodes_not_null card(1) c'(2) by auto
next
  case (prettyConstraint c msg)
  then show ?case by (auto simp: encodes_def)
qed

end

end
