(* ===== verification/Variable_Types.thy ===== *)
theory Variable_Types
  imports Lit_Mapping Olm_Constraints
begin

text \<open>
  The solver variables the resolver creates (\<^verbatim>\<open>resolver/variable_types.go\<close>): bundle variables, which
  carry the identity of a cache entry in their identifier, and the generic variables for subscriptions
  and for the invariants that no two operators provide the same API or come from the same package.
  The lemmas say what each means in a solution.
\<close>

text \<open>
  The errors of the resolver. \<open>Panic\<close> is a nil dereference of the source, which ends the program.
\<close>

datatype resolver_error =
    Panic
  | UnknownSource string              \<comment> \<open>\<^verbatim>\<open>unable to resolve the source of bundle %s\<close>\<close>
  | UnparsableIdentifier ident        \<comment> \<open>\<^verbatim>\<open>unable to parse identifier %s for source info\<close>\<close>
  | NoChannelHeads string string      \<comment> \<open>\<^verbatim>\<open>no channel heads (...) found in channel %q of package %q\<close>\<close>
  | ReplacementCycle string string string  \<comment> \<open>\<^verbatim>\<open>a cycle exists in the chain of replacement (...)\<close>\<close>
  | MultipleChains "string list" string string
                                      \<comment> \<open>\<^verbatim>\<open>a unique replacement chain within a channel is required (...)\<close>\<close>
  | NoChains string string            \<comment> \<open>\<^verbatim>\<open>found no replacement chains in channel %q of package %q\<close>\<close>
  | SystemConstraints string          \<comment> \<open>an error of the system constraints provider\<close>
  | Conversion conversion_error
  | NoPotentialBundles string         \<comment> \<open>\<^verbatim>\<open>could not find any potential bundles for subscription: %s\<close>\<close>
  | MultipleNameMatches string string "string list"
                                      \<comment> \<open>\<^verbatim>\<open>multiple name matches for status.installedCSV of subscription (...)\<close>\<close>
  | NoNamespace                       \<comment> \<open>\<^verbatim>\<open>at least one namespace must be provided to resolution\<close>\<close>
  | CacheErrors "(SourceKey \<times> string) list"
  | Solver solver_error
  | SolverNoReturn
  | NotExactlyOne nat                 \<comment> \<open>\<^verbatim>\<open>expected exactly one operator, got %d\<close>\<close>
  | Aggregate "resolver_error list"

subsection \<open>Bundle variables\<close>

text \<open>A \<^verbatim>\<open>BundleVariable\<close> is mutable and shared by pointer; as a \<^verbatim>\<open>solver.Variable\<close> it is \<open>bv_variable\<close>.\<close>

record BundleVar =
  bv_identifier :: ident
  bv_constraints :: "solver_constraint list"
  bv_Replaces :: string

definition bv_variable :: "BundleVar \<Rightarrow> solver_variable" where
  "bv_variable i = BundleVariable (bv_identifier i) (bv_constraints i) (bv_Replaces i)"

definition MakeProhibited :: "BundleVar \<Rightarrow> BundleVar" where
  "MakeProhibited i = i\<lparr>bv_constraints := bv_constraints i @ [prohibited]\<rparr>"

definition AddConflict :: "BundleVar \<Rightarrow> ident \<Rightarrow> BundleVar" where
  "AddConflict i id' = i\<lparr>bv_constraints := bv_constraints i @ [conflict id']\<rparr>"

definition AddConstraint :: "BundleVar \<Rightarrow> solver_constraint \<Rightarrow> BundleVar" where
  "AddConstraint i c = i\<lparr>bv_constraints := bv_constraints i @ [c]\<rparr>"

definition BundleSourceInfo :: "ident \<Rightarrow> resolver_error + string \<times> string \<times> SourceKey" where
  "BundleSourceInfo i =
     (let info = strings_Split i CHR ''/'' in
      if length info \<noteq> 4 then Inl (UnparsableIdentifier i)
      else Inr (info ! 3, info ! 2, \<lparr>sk_Name = info ! 0, sk_Namespace = info ! 1\<rparr>))"

definition bundleID :: "string \<Rightarrow> string \<Rightarrow> SourceKey \<Rightarrow> ident" where
  "bundleID bundle channel catalog = SourceKey_String catalog @ ''/'' @ channel @ ''/'' @ bundle"

definition NewBundleVariableFromOperator :: "'v Entry \<Rightarrow> resolver_error + BundleVar" where
  "NewBundleVariableFromOperator o' =
     (case e_SourceInfo o' of
        None \<Rightarrow> Inl (UnknownSource (e_Name o'))
      | Some si \<Rightarrow>
          (let i = bundleID (e_Name o') (Entry_Channel o') (si_Catalog si);
               constraints =
                 (if Virtual (si_Catalog si) \<and> si_Subscription si = None
                  then [prettyConstraint mandatory
                          (''clusterserviceversion '' @ e_Name o' @
                           '' exists and is not referenced by a subscription'')]
                  else []) @
                 (if list_ex (\<lambda>p. p_Type p = DeprecatedType) (e_Properties o')
                  then [prettyConstraint prohibited (''bundle '' @ i @ '' is deprecated'')] else [])
           in Inr \<lparr>bv_identifier = i, bv_constraints = constraints, bv_Replaces = ''''\<rparr>))"

subsection \<open>Generic variables\<close>

definition NewInvalidSubscriptionVariable :: "string \<Rightarrow> string \<Rightarrow> solver_variable" where
  "NewInvalidSubscriptionVariable name reason =
     GenericVariable (''subscription:'' @ name)
       [prettyConstraint mandatory (''subscription '' @ name @ '' exists''),
        prettyConstraint prohibited reason]"

definition NewSubscriptionVariable :: "string \<Rightarrow> ident list \<Rightarrow> solver_variable" where
  "NewSubscriptionVariable name dependencies =
     (let exists = prettyConstraint mandatory (''subscription '' @ name @ '' exists'') in
      if length dependencies = 0
      then GenericVariable (''subscription:'' @ name)
             [exists, prettyConstraint (dependency [])
                (''no operators found matching the criteria of subscription '' @ name)]
      else let req = (if length dependencies = 1 then dependencies ! 0
                      else ''at least one of '' @ strings_Join (butlast dependencies) '', '' @ '' or '' @
                           last dependencies)
           in GenericVariable (''subscription:'' @ name)
                [exists, prettyConstraint (dependency dependencies)
                   (''subscription '' @ name @ '' requires '' @ req)])"

definition NewSingleAPIProviderVariable :: "string \<Rightarrow> string \<Rightarrow> string \<Rightarrow> ident list \<Rightarrow> solver_variable" where
  "NewSingleAPIProviderVariable grp version kind providers =
     (let gvk = kind @ '' ('' @ grp @ ''/'' @ version @ '')'' in
      if length providers \<le> 1 then GenericVariable gvk []
      else GenericVariable gvk
             [prettyConstraint mandatory (''there can be only one provider of '' @ gvk),
              prettyConstraint (leq providers 1)
                (strings_Join (butlast providers) '', '' @ '' and '' @ last providers @ '' provide '' @ gvk)])"

definition NewSinglePackageInstanceVariable :: "string \<Rightarrow> ident list \<Rightarrow> solver_variable" where
  "NewSinglePackageInstanceVariable pkg providers =
     (if length providers \<le> 1 then GenericVariable pkg []
      else GenericVariable pkg
             [prettyConstraint mandatory (''there can be only one operator from package '' @ pkg),
              prettyConstraint (leq providers 1)
                (strings_Join (butlast providers) '', '' @ '' and '' @ last providers @
                 '' originate from package '' @ pkg)])"

subsection \<open>Identifiers of bundles\<close>

definition plain_name :: "string \<Rightarrow> bool" where
  "plain_name s \<longleftrightarrow> CHR ''/'' \<notin> set s"

lemma BundleSourceInfo_bundleID:
  assumes "plain_name name" "plain_name channel" "plain_name (sk_Name catalog)" "plain_name (sk_Namespace catalog)"
  shows "BundleSourceInfo (bundleID name channel catalog) = Inr (name, channel, catalog)"
proof -
  have "bundleID name channel catalog =
      sk_Name catalog @ CHR ''/'' # sk_Namespace catalog @ CHR ''/'' # channel @ CHR ''/'' # name"
    by (simp add: bundleID_def SourceKey_String_def)
  then have "strings_Split (bundleID name channel catalog) CHR ''/'' =
      [sk_Name catalog, sk_Namespace catalog, channel, name]"
    using assms by (simp add: plain_name_def strings_Split_append strings_Split_no_sep)
  then show ?thesis by (simp add: BundleSourceInfo_def)
qed

lemma Identifier_bv [simp]: "Identifier (bv_variable i) = bv_identifier i"
  "Constraints (bv_variable i) = bv_constraints i"
  by (simp_all add: bv_variable_def)

lemma AddConflict_simps [simp]:
  "bv_identifier (AddConflict i x) = bv_identifier i" "bv_identifier (AddConstraint i c) = bv_identifier i"
  "bv_constraints (AddConflict i x) = bv_constraints i @ [conflict x]"
  "bv_constraints (AddConstraint i c) = bv_constraints i @ [c]"
  by (simp_all add: AddConflict_def AddConstraint_def)

subsection \<open>What the variables mean in a solution\<close>

definition admits :: "ident set \<Rightarrow> solver_variable \<Rightarrow> bool" where
  "admits S v \<longleftrightarrow> (\<forall>c \<in> set (Constraints v). holds S (Identifier v) c)"

lemma is_solution_admits: "is_solution vs S \<longleftrightarrow> (\<forall>v \<in> set vs. admits S v)"
  by (simp add: is_solution_def admits_def)

lemma admits_invalid: "\<not> admits S (NewInvalidSubscriptionVariable name reason)"
  by (simp add: admits_def NewInvalidSubscriptionVariable_def)

lemma admits_subscription:
  "admits S (NewSubscriptionVariable name ids) \<longleftrightarrow>
     ''subscription:'' @ name \<in> S \<and> (\<exists>i \<in> set ids. i \<in> S)"
  by (auto simp: admits_def NewSubscriptionVariable_def Let_def)

lemma length_filter_le_1:
  "distinct xs \<Longrightarrow> length (filter P xs) \<le> 1 \<longleftrightarrow> (\<forall>x \<in> set xs. \<forall>y \<in> set xs. P x \<and> P y \<longrightarrow> x = y)"
proof -
  assume "distinct xs"
  then have "length (filter P xs) = card {x \<in> set xs. P x}"
    using distinct_card [of "filter P xs"] by simp
  then show ?thesis using card_le_Suc0_iff_eq [of "{x \<in> set xs. P x}"] by auto
qed

lemma admits_single:
  assumes "distinct ids" and "admits S v"
    and "v = NewSingleAPIProviderVariable g ver k ids \<or> v = NewSinglePackageInstanceVariable pkg ids"
    and "i \<in> set ids" "j \<in> set ids" "i \<in> S" "j \<in> S"
  shows "i = j"
proof (cases "length ids \<le> 1")
  case True
  then show ?thesis using assms(4,5) by (cases ids) auto
next
  case False
  then have "int (length (filter (\<lambda>i. i \<in> S) ids)) \<le> 1"
    using assms(2,3) by (auto simp: admits_def NewSingleAPIProviderVariable_def NewSinglePackageInstanceVariable_def Let_def)
  then show ?thesis using length_filter_le_1 [OF assms(1), of "\<lambda>i. i \<in> S"] assms(4-7) by auto
qed

end
