(* ===== verification/Channel_Sort.thy ===== *)
theory Channel_Sort
  imports Variable_Types
begin

text \<open>
  The order of bundles (\<^verbatim>\<open>sortChannel\<close> and \<^verbatim>\<open>sortBundles\<close> of \<^verbatim>\<open>resolver.go\<close>). Within a channel the order
  is the chain of replacements from the channel's only head; entries that are skipped by another one
  are left out. Channels of a catalog are ordered with default channels first, then by package and
  channel name, and catalogs by first appearance.
\<close>

subsection \<open>sortChannel\<close>

definition bundle_lookup :: "'v Entry list \<Rightarrow> (string \<times> 'v Entry) list" where
  "bundle_lookup bundles = foldl (\<lambda>m b. AList.update (e_Name b) b m) [] bundles"

text \<open>The maps \<^verbatim>\<open>replacedBy\<close>, \<^verbatim>\<open>replaces\<close> and \<^verbatim>\<open>skipped\<close>; the keys of the first two are pointers.\<close>

record 'v channel_maps =
  m_replacedBy :: "(nat \<times> 'v Entry) list"
  m_replaces :: "(nat \<times> 'v Entry) list"
  m_skipped :: "(string \<times> 'v Entry) list"

definition add_replaces :: "(string \<times> 'v Entry) list \<Rightarrow> 'v Entry \<Rightarrow> 'v channel_maps \<Rightarrow> 'v channel_maps" where
  "add_replaces lookup b ms =
     (if e_Replaces b \<noteq> ''''
      then case map_of lookup (e_Replaces b) of
             Some r \<Rightarrow> ms\<lparr>m_replacedBy := AList.update (e_addr r) b (m_replacedBy ms),
                          m_replaces := AList.update (e_addr b) r (m_replaces ms)\<rparr>
           | None \<Rightarrow> ms
      else ms)"

definition add_skip :: "(string \<times> 'v Entry) list \<Rightarrow> 'v Entry \<Rightarrow> 'v channel_maps \<Rightarrow> string \<Rightarrow> 'v channel_maps" where
  "add_skip lookup b ms skip =
     (case map_of lookup skip of
        Some r \<Rightarrow> ms\<lparr>m_replacedBy := AList.update (e_addr r) b (m_replacedBy ms),
                     m_skipped := AList.update skip r (m_skipped ms)\<rparr>
      | None \<Rightarrow> ms)"

definition channel_maps_of :: "'v Entry list \<Rightarrow> 'v channel_maps" where
  "channel_maps_of bundles =
     (let lookup = bundle_lookup bundles in
      foldl (\<lambda>ms b. foldl (add_skip lookup b) (add_replaces lookup b ms) (e_Skips b))
        \<lparr>m_replacedBy = [], m_replaces = [], m_skipped = []\<rparr> bundles)"

text \<open>The loop along the replacements from a head; \<open>None\<close> is the cycle error.\<close>

function walk_chain ::
    "(nat \<times> 'v Entry) list \<Rightarrow> string list \<Rightarrow> 'v Entry \<Rightarrow> nat list \<Rightarrow> 'v Entry list option" where
  "walk_chain replaces skipped current visited =
     map_option (\<lambda>chain. if e_Name current \<in> set skipped then chain else current # chain)
       (case map_of replaces (e_addr current) of
          None \<Rightarrow> Some []
        | Some next \<Rightarrow>
            (if e_addr next \<in> set (e_addr current # visited) then None
             else walk_chain replaces skipped next (e_addr current # visited)))"
  by pat_completeness auto
termination
proof (relation "measure (\<lambda>(replaces, skipped, current, visited).
    card (e_addr ` snd ` set replaces - insert (e_addr current) (set visited)))")
  fix replaces :: "(nat \<times> 'v Entry) list" and skipped :: "string list"
    and current next' :: "'v Entry" and visited :: "nat list"
  assume next': "map_of replaces (e_addr current) = Some next'"
    and new: "e_addr next' \<notin> set (e_addr current # visited)"
  have "e_addr next' \<in> e_addr ` snd ` set replaces"
    using map_of_SomeD [OF next'] by (metis image_eqI snd_conv)
  then have "e_addr ` snd ` set replaces - insert (e_addr next') (set (e_addr current # visited)) \<subset>
      e_addr ` snd ` set replaces - insert (e_addr current) (set visited)"
    using new by auto
  then show "((replaces, skipped, next', e_addr current # visited), replaces, skipped, current, visited)
      \<in> measure (\<lambda>(replaces, skipped, current, visited).
          card (e_addr ` snd ` set replaces - insert (e_addr current) (set visited)))"
    by (simp add: psubset_card_mono)
qed simp

declare walk_chain.simps [simp del]

definition chain_String :: "'v Entry list \<Rightarrow> string" where
  "chain_String chain =
     (if length chain = 0 then ''[]''
      else if length chain = 1 then e_Name (chain ! 0)
      else e_Name (chain ! 0) @ ''...'' @ e_Name (last chain))"

fun walk_heads ::
    "(nat \<times> 'v Entry) list \<Rightarrow> string list \<Rightarrow> 'v Entry list \<Rightarrow> 'v Entry + 'v Entry list list" where
  "walk_heads replaces skipped [] = Inr []"
| "walk_heads replaces skipped (head # heads) =
     (case walk_chain replaces skipped head [] of
        None \<Rightarrow> Inl head
      | Some chain \<Rightarrow> map_sum id (\<lambda>chains. chain # chains) (walk_heads replaces skipped heads))"

definition sortChannel :: "'v Entry list \<Rightarrow> resolver_error + 'v Entry list" where
  "sortChannel bundles =
     (if length bundles < 1 then Inr bundles
      else
        let packageName = Entry_Package (bundles ! 0);
            channelName = Entry_Channel (bundles ! 0);
            maps = channel_maps_of bundles;
            headCandidates = filter (\<lambda>b. map_of (m_replacedBy maps) (e_addr b) = None) bundles
        in
          if length headCandidates = 0 then Inl (NoChannelHeads channelName packageName)
          else case walk_heads (m_replaces maps) (map fst (m_skipped maps)) headCandidates of
                 Inl head \<Rightarrow> Inl (ReplacementCycle (e_Name head) channelName packageName)
               | Inr rchains \<Rightarrow>
                   (if length rchains > 1
                    then Inl (MultipleChains (map chain_String rchains) channelName packageName)
                    else if length rchains = 0 then Inl (NoChains channelName packageName)
                    else Inr (rchains ! 0)))"

subsection \<open>sortBundles\<close>

record PackageChannel =
  pc_Package :: string
  pc_Channel :: string
  pc_DefaultChannel :: bool

definition PackageChannel_of :: "'v Entry \<Rightarrow> OperatorSourceInfo \<Rightarrow> PackageChannel" where
  "PackageChannel_of b si =
     \<lparr>pc_Package = Entry_Package b, pc_Channel = Entry_Channel b, pc_DefaultChannel = si_DefaultChannel si\<rparr>"

text \<open>
  \<^verbatim>\<open>partitionedBundles\<close> with the orders \<^verbatim>\<open>catalogOrder\<close> and \<^verbatim>\<open>channelOrder\<close>: both append a key when they
  see it first, so the association lists below hold the keys in these orders.
\<close>

type_synonym 'v partition = "(SourceKey \<times> (PackageChannel \<times> 'v Entry list) list) list"

definition add_bundle :: "'v partition \<Rightarrow> 'v Entry \<Rightarrow> OperatorSourceInfo \<Rightarrow> 'v partition" where
  "add_bundle parts b si =
     (let pc = PackageChannel_of b si;
          channels = (case map_of parts (si_Catalog si) of Some cs \<Rightarrow> cs | None \<Rightarrow> []);
          bs = (case map_of channels pc of Some bs \<Rightarrow> bs | None \<Rightarrow> [])
      in AList.update (si_Catalog si) (AList.update pc (bs @ [b]) channels) parts)"

fun partition_bundles :: "'v Entry list \<Rightarrow> 'v partition \<Rightarrow> resolver_error + 'v partition" where
  "partition_bundles [] parts = Inr parts"
| "partition_bundles (b # bs) parts =
     (case e_SourceInfo b of
        None \<Rightarrow> Inl Panic
      | Some si \<Rightarrow> partition_bundles bs (add_bundle parts b si))"

definition channel_Less :: "PackageChannel \<Rightarrow> PackageChannel \<Rightarrow> bool" where
  "channel_Less pi pj =
     (if pc_DefaultChannel pi \<noteq> pc_DefaultChannel pj then pc_DefaultChannel pi
      else if pc_Package pi \<noteq> pc_Package pj then pc_Package pi < pc_Package pj
      else pc_Channel pi < pc_Channel pj)"

fun sort_channels ::
    "(PackageChannel \<times> 'v Entry list) list \<Rightarrow> resolver_error + (PackageChannel \<times> 'v Entry list) list" where
  "sort_channels [] = Inr []"
| "sort_channels ((pc, bs) # channels) =
     (case sortChannel bs of
        Inl err \<Rightarrow> Inl err
      | Inr bs' \<Rightarrow> map_sum id (\<lambda>cs. (pc, bs') # cs) (sort_channels channels))"

fun sort_catalogs :: "'v partition \<Rightarrow> resolver_error + 'v Entry list" where
  "sort_catalogs [] = Inr []"
| "sort_catalogs ((catalog, channels) # parts) =
     (case sort_channels (go_sort (\<lambda>a b. channel_Less (fst a) (fst b)) channels) of
        Inl err \<Rightarrow> Inl err
      | Inr cs \<Rightarrow> map_sum id (\<lambda>rest. concat (map snd cs) @ rest) (sort_catalogs parts))"

definition sortBundles :: "'v Entry list \<Rightarrow> resolver_error + 'v Entry list" where
  "sortBundles bundles =
     (case partition_bundles bundles [] of Inl err \<Rightarrow> Inl err | Inr parts \<Rightarrow> sort_catalogs parts)"

subsection \<open>What the maps of a channel hold\<close>

text \<open>The bundle of the channel that \<open>b\<close> replaces, and the names that are skipped in it\<close>

definition replaced :: "(string \<times> 'v Entry) list \<Rightarrow> 'v Entry \<Rightarrow> 'v Entry option" where
  "replaced lookup b = (if e_Replaces b \<noteq> '''' then map_of lookup (e_Replaces b) else None)"

definition skips_in :: "(string \<times> 'v Entry) list \<Rightarrow> 'v Entry list \<Rightarrow> string set" where
  "skips_in lookup bundles = {s. s \<in> dom (map_of lookup) \<and> (\<exists>b \<in> set bundles. s \<in> set (e_Skips b))}"

text \<open>The bundles that another one of the channel replaces or skips\<close>

definition superseded :: "(string \<times> 'v Entry) list \<Rightarrow> 'v Entry list \<Rightarrow> 'v Entry set" where
  "superseded lookup bundles =
     {r. \<exists>b \<in> set bundles. replaced lookup b = Some r} \<union> {r. \<exists>s \<in> skips_in lookup bundles. map_of lookup s = Some r}"

lemma bundle_lookup_SomeD:
  "map_of (bundle_lookup bundles) n = Some r \<Longrightarrow> r \<in> set bundles \<and> e_Name r = n"
proof -
  have "map_of (foldl (\<lambda>m b. AList.update (e_Name b) b m) m bundles) n = Some r \<Longrightarrow>
      map_of m n = Some r \<or> (r \<in> set bundles \<and> e_Name r = n)" for m
    by (induction bundles arbitrary: m) (fastforce simp: alist_simps split: if_splits)+
  then show "map_of (bundle_lookup bundles) n = Some r \<Longrightarrow> r \<in> set bundles \<and> e_Name r = n"
    by (fastforce simp: bundle_lookup_def)
qed

lemma add_replaces_eq:
  "add_replaces lookup b ms =
     (case replaced lookup b of
        Some r \<Rightarrow> ms\<lparr>m_replacedBy := AList.update (e_addr r) b (m_replacedBy ms),
                     m_replaces := AList.update (e_addr b) r (m_replaces ms)\<rparr>
      | None \<Rightarrow> ms)"
  by (simp add: add_replaces_def replaced_def)

lemma fold_skips:
  "m_replaces (foldl (add_skip lookup b) ms ss) = m_replaces ms"
  "fst ` set (m_skipped (foldl (add_skip lookup b) ms ss)) =
     fst ` set (m_skipped ms) \<union> (set ss \<inter> dom (map_of lookup))"
  "fst ` set (m_replacedBy (foldl (add_skip lookup b) ms ss)) =
     fst ` set (m_replacedBy ms) \<union> e_addr ` {r. \<exists>s \<in> set ss. map_of lookup s = Some r}"
  by (induction ss arbitrary: ms) (auto simp: add_skip_def alist_simps split: option.splits)

abbreviation fold_maps ::
    "(string \<times> 'v Entry) list \<Rightarrow> 'v channel_maps \<Rightarrow> 'v Entry list \<Rightarrow> 'v channel_maps" where
  "fold_maps lookup \<equiv> foldl (\<lambda>ms b. foldl (add_skip lookup b) (add_replaces lookup b ms) (e_Skips b))"

lemma fold_maps_skipped:
  "fst ` set (m_skipped (fold_maps lookup ms bs)) = fst ` set (m_skipped ms) \<union> skips_in lookup bs"
  by (induction bs arbitrary: ms)
    (auto simp: skips_in_def fold_skips add_replaces_eq split: option.splits)

lemma fold_maps_replacedBy:
  "fst ` set (m_replacedBy (fold_maps lookup ms bs)) =
     fst ` set (m_replacedBy ms) \<union> e_addr ` superseded lookup bs"
proof (induction bs arbitrary: ms)
  case Nil
  then show ?case by (simp add: superseded_def skips_in_def)
next
  case (Cons b bs)
  have "superseded lookup (b # bs) = superseded lookup bs \<union>
      {r. replaced lookup b = Some r} \<union> {r. \<exists>s \<in> set (e_Skips b). map_of lookup s = Some r}"
    by (auto simp: superseded_def skips_in_def)
  moreover have "fst ` set (m_replacedBy (add_replaces lookup b ms)) =
      fst ` set (m_replacedBy ms) \<union> e_addr ` {r. replaced lookup b = Some r}"
    by (auto simp: add_replaces_eq alist_simps split: option.splits)
  ultimately show ?case using Cons.IH by (simp add: fold_skips image_Un Un_ac)
qed

lemma fold_maps_replaces:
  assumes "distinct (map e_addr bs)"
  shows "map_of (m_replaces (fold_maps lookup ms bs)) a =
    (case List.find (\<lambda>b. e_addr b = a \<and> replaced lookup b \<noteq> None) bs of
       Some b \<Rightarrow> replaced lookup b | None \<Rightarrow> map_of (m_replaces ms) a)"
  using assms
proof (induction bs arbitrary: ms)
  case (Cons b bs)
  have "map_of (m_replaces (add_replaces lookup b ms)) a =
      (if e_addr b = a \<and> replaced lookup b \<noteq> None then replaced lookup b else map_of (m_replaces ms) a)"
    by (auto simp: add_replaces_eq alist_simps split: option.splits)
  moreover have "List.find (\<lambda>b. e_addr b = a \<and> replaced lookup b \<noteq> None) bs = None" if "e_addr b = a"
    using Cons.prems that unfolding find_None_iff by (metis distinct.simps(2) image_eqI list.simps(9) list.set_map)
  ultimately show ?case using Cons by (auto simp: fold_skips split: option.splits)
qed simp

lemma channel_maps_replaces:
  assumes "distinct (map e_addr bundles)" and "b \<in> set bundles"
  shows "map_of (m_replaces (channel_maps_of bundles)) (e_addr b) = replaced (bundle_lookup bundles) b"
proof -
  let ?P = "\<lambda>c. e_addr c = e_addr b \<and> replaced (bundle_lookup bundles) c \<noteq> None"
  have "List.find ?P bundles = (if replaced (bundle_lookup bundles) b \<noteq> None then Some b else None)"
  proof (cases "List.find ?P bundles")
    case None
    then show ?thesis using assms(2) by (auto simp: find_None_iff)
  next
    case (Some c)
    then have "c \<in> set bundles" "e_addr c = e_addr b" "replaced (bundle_lookup bundles) c \<noteq> None"
      by (auto simp: find_Some_iff)
    moreover from this have "c = b" using assms by (metis distinct_map inj_onD)
    ultimately show ?thesis using Some by simp
  qed
  then show ?thesis using fold_maps_replaces [OF assms(1), of "bundle_lookup bundles"]
    by (simp add: channel_maps_of_def Let_def)
qed

subsection \<open>The chain\<close>

text \<open>\<open>replacements R w\<close>: each element of \<open>w\<close> is what the one before it replaces, up to the end.\<close>

fun replacements :: "('v Entry \<Rightarrow> 'v Entry option) \<Rightarrow> 'v Entry list \<Rightarrow> bool" where
  "replacements R [] = False"
| "replacements R [b] = (R b = None)"
| "replacements R (b # c # w) = (R b = Some c \<and> replacements R (c # w))"

lemma walk_chain_Some:
  assumes "walk_chain R sk cur vis = Some chain"
  shows "\<exists>w. replacements (\<lambda>b. map_of R (e_addr b)) (cur # w) \<and> distinct (map e_addr (cur # w)) \<and>
    e_addr ` set w \<inter> set vis = {} \<and> chain = filter (\<lambda>b. e_Name b \<notin> set sk) (cur # w)"
  using assms
proof (induction R sk cur vis arbitrary: chain rule: walk_chain.induct)
  case (1 R sk cur vis)
  show ?case
  proof (cases "map_of R (e_addr cur)")
    case None
    then show ?thesis using "1.prems" by (intro exI [of _ "[]"]) (auto simp: walk_chain.simps [of R sk cur])
  next
    case (Some nx)
    then have new: "e_addr nx \<notin> set (e_addr cur # vis)"
      using "1.prems" by (auto simp: walk_chain.simps [of R sk cur] split: if_splits)
    obtain ch where ch: "walk_chain R sk nx (e_addr cur # vis) = Some ch"
        "chain = (if e_Name cur \<in> set sk then ch else cur # ch)"
      using "1.prems" Some new by (auto simp: walk_chain.simps [of R sk cur] split: if_splits)
    obtain w where w: "replacements (\<lambda>b. map_of R (e_addr b)) (nx # w)" "distinct (map e_addr (nx # w))"
        "e_addr ` set w \<inter> set (e_addr cur # vis) = {}" "ch = filter (\<lambda>b. e_Name b \<notin> set sk) (nx # w)"
      using "1.IH" [OF Some new ch(1)] by blast
    show ?thesis using w Some new ch(2) by (intro exI [of _ "nx # w"]) auto
  qed
qed

lemma walk_heads_Inr:
  "walk_heads R sk heads = Inr cs \<Longrightarrow> list_all2 (\<lambda>h c. walk_chain R sk h [] = Some c) heads cs"
  by (induction heads arbitrary: cs) (auto split: option.splits sum.splits simp: map_sum_def)

lemma replacements_cong:
  "(\<And>b. b \<in> set w \<Longrightarrow> R b = R' b) \<Longrightarrow> replacements R w = replacements R' w"
  by (induction R w rule: replacements.induct) auto

lemma replacements_members:
  assumes "replacements R w" and "hd w \<in> A" and "\<forall>b c. b \<in> A \<longrightarrow> R b = Some c \<longrightarrow> c \<in> A"
  shows "set w \<subseteq> A"
  using assms
proof (induction R w rule: replacements.induct)
  case (3 R b c w)
  then have "c \<in> A" by auto
  then show ?case using 3 by auto
qed auto

text \<open>
  The result of \<^verbatim>\<open>sortChannel\<close>: the channel has exactly one bundle that no other one replaces or skips,
  and the result is the chain of replacements that starts there, without the skipped bundles.
\<close>

definition is_channel_order :: "'v Entry list \<Rightarrow> 'v Entry list \<Rightarrow> bool" where
  "is_channel_order bundles chain \<longleftrightarrow>
     (let lookup = bundle_lookup bundles in
      \<exists>head w. {b \<in> set bundles. b \<notin> superseded lookup bundles} = {head} \<and>
        replacements (replaced lookup) (head # w) \<and> distinct (head # w) \<and> set (head # w) \<subseteq> set bundles \<and>
        chain = filter (\<lambda>b. e_Name b \<notin> skips_in lookup bundles) (head # w))"

lemma superseded_member: "r \<in> superseded (bundle_lookup bundles) bundles \<Longrightarrow> r \<in> set bundles"
  using bundle_lookup_SomeD by (fastforce simp: superseded_def replaced_def split: if_splits)

lemma addr_superseded:
  assumes "distinct (map e_addr bundles)" and "b \<in> set bundles"
  shows "e_addr b \<in> e_addr ` superseded (bundle_lookup bundles) bundles \<longleftrightarrow>
    b \<in> superseded (bundle_lookup bundles) bundles"
  using assms superseded_member by (metis (no_types, lifting) distinct_map image_iff inj_onD)

lemma head_candidates:
  assumes "distinct (map e_addr bundles)"
  shows "filter (\<lambda>b. map_of (m_replacedBy (channel_maps_of bundles)) (e_addr b) = None) bundles =
    filter (\<lambda>b. b \<notin> superseded (bundle_lookup bundles) bundles) bundles"
proof (rule filter_cong [OF refl])
  fix b assume b: "b \<in> set bundles"
  have "map_of (m_replacedBy (channel_maps_of bundles)) (e_addr b) = None \<longleftrightarrow>
      e_addr b \<notin> e_addr ` superseded (bundle_lookup bundles) bundles"
    using fold_maps_replacedBy [of "bundle_lookup bundles" "\<lparr>m_replacedBy = [], m_replaces = [], m_skipped = []\<rparr>" bundles]
    by (simp add: map_of_eq_None_iff channel_maps_of_def Let_def)
  then show "(map_of (m_replacedBy (channel_maps_of bundles)) (e_addr b) = None) =
      (b \<notin> superseded (bundle_lookup bundles) bundles)"
    using addr_superseded [OF assms b] by simp
qed

lemma sortChannel_correct:
  assumes "distinct (map e_addr bundles)" and "bundles \<noteq> []" and "sortChannel bundles = Inr chain"
  shows "is_channel_order bundles chain"
proof -
  let ?lk = "bundle_lookup bundles" and ?ms = "channel_maps_of bundles"
  let ?heads = "filter (\<lambda>b. b \<notin> superseded ?lk bundles) bundles"
  obtain cs where cs: "walk_heads (m_replaces ?ms) (map fst (m_skipped ?ms)) ?heads = Inr cs"
      "\<not> length cs > 1" "cs \<noteq> []" "chain = cs ! 0"
    using assms(2,3) by (auto simp: sortChannel_def head_candidates [OF assms(1)] Let_def
        split: if_splits sum.splits)
  then have cs: "walk_heads (m_replaces ?ms) (map fst (m_skipped ?ms)) ?heads = Inr cs"
      "length cs = 1" "chain = cs ! 0"
    by (auto simp: not_less le_Suc_eq)
  note l2 = walk_heads_Inr [OF cs(1)]
  obtain head where head: "?heads = [head]"
    using list_all2_lengthD [OF l2] cs(2) by (auto simp: length_Suc_conv)
  have walk: "walk_chain (m_replaces ?ms) (map fst (m_skipped ?ms)) head [] = Some chain"
    using l2 cs(2,3) unfolding head by (auto simp: list_all2_Cons1)
  obtain w where w: "replacements (\<lambda>b. map_of (m_replaces ?ms) (e_addr b)) (head # w)"
      "distinct (map e_addr (head # w))"
      "chain = filter (\<lambda>b. e_Name b \<notin> fst ` set (m_skipped ?ms)) (head # w)"
    using walk_chain_Some [OF walk] by auto
  have "head \<in> set ?heads" by (simp add: head)
  then have hb: "head \<in> set bundles" by simp
  have mem: "set (head # w) \<subseteq> set bundles"
  proof (rule replacements_members [OF w(1)])
    show "\<forall>b c. b \<in> set bundles \<longrightarrow> map_of (m_replaces ?ms) (e_addr b) = Some c \<longrightarrow> c \<in> set bundles"
      using channel_maps_replaces [OF assms(1)] bundle_lookup_SomeD by (auto simp: replaced_def split: if_splits)
  qed (use hb in simp)
  have chain: "replacements (replaced ?lk) (head # w)"
    using w(1) replacements_cong [of "head # w" "\<lambda>b. map_of (m_replaces ?ms) (e_addr b)" "replaced ?lk"]
      channel_maps_replaces [OF assms(1)] mem by blast
  have unique: "{b \<in> set bundles. b \<notin> superseded ?lk bundles} = {head}"
    using head by (metis empty_set list.simps(15) set_filter)
  have skips: "fst ` set (m_skipped ?ms) = skips_in ?lk bundles"
    by (simp add: channel_maps_of_def Let_def fold_maps_skipped)
  have dist: "distinct (head # w)" using w(2) by (auto simp: distinct_map)
  show ?thesis
    unfolding is_channel_order_def Let_def
    by (intro exI conjI, rule unique, rule chain, rule dist, rule mem, rule w(3) [unfolded skips])
qed

subsection \<open>Sorting only selects and reorders\<close>

lemma add_skips_replaces: "snd ` set (m_replaces (foldl (add_skip lookup b) ms ss)) = snd ` set (m_replaces ms)"
  by (simp add: fold_skips)

lemma fold_maps_replaces_values:
  "snd ` set (m_replaces (fold_maps lookup ms bs)) \<subseteq> snd ` set (m_replaces ms) \<union> ran (map_of lookup)"
proof (induction bs arbitrary: ms)
  case (Cons b bs)
  have "snd ` set (m_replaces (add_replaces lookup b ms)) \<subseteq> snd ` set (m_replaces ms) \<union> ran (map_of lookup)"
  proof (cases "replaced lookup b")
    case (Some r)
    then have "r \<in> ran (map_of lookup)" by (auto simp: replaced_def ran_def split: if_splits)
    then show ?thesis using Some values_update [of "e_addr b" r "m_replaces ms"] by (auto simp: add_replaces_eq)
  qed (simp add: add_replaces_eq)
  then show ?case using Cons [of "foldl (add_skip lookup b) (add_replaces lookup b ms) (e_Skips b)"]
    by (simp add: add_skips_replaces) blast
qed simp

lemma channel_maps_values: "snd ` set (m_replaces (channel_maps_of bundles)) \<subseteq> set bundles"
proof -
  have "ran (map_of (bundle_lookup bundles)) \<subseteq> set bundles"
    by (auto simp: ran_def dest: bundle_lookup_SomeD)
  then show ?thesis
    using fold_maps_replaces_values [of "bundle_lookup bundles" "\<lparr>m_replacedBy = [], m_replaces = [], m_skipped = []\<rparr>" bundles]
    by (auto simp: channel_maps_of_def Let_def)
qed

lemma walk_chain_members:
  assumes "walk_chain R sk cur vis = Some chain" shows "set chain \<subseteq> insert cur (snd ` set R)"
proof -
  obtain w where w: "replacements (\<lambda>b. map_of R (e_addr b)) (cur # w)"
      "chain = filter (\<lambda>b. e_Name b \<notin> set sk) (cur # w)"
    using walk_chain_Some [OF assms] by auto
  have "set (cur # w) \<subseteq> insert cur (snd ` set R)"
    by (rule replacements_members [OF w(1)]) (auto dest!: map_of_SomeD intro: rev_image_eqI)
  then show ?thesis using w(2) by auto
qed

lemma sortChannel_subset:
  assumes "sortChannel bundles = Inr chain" shows "set chain \<subseteq> set bundles"
proof (cases "bundles = []")
  case False
  let ?ms = "channel_maps_of bundles"
  let ?heads = "filter (\<lambda>b. map_of (m_replacedBy ?ms) (e_addr b) = None) bundles"
  obtain cs where cs: "walk_heads (m_replaces ?ms) (map fst (m_skipped ?ms)) ?heads = Inr cs"
      "cs \<noteq> []" "chain = cs ! 0"
    using assms False by (auto simp: sortChannel_def Let_def split: if_splits sum.splits)
  obtain h where "h \<in> set ?heads" "walk_chain (m_replaces ?ms) (map fst (m_skipped ?ms)) h [] = Some chain"
    using walk_heads_Inr [OF cs(1)] cs(2,3) by (cases ?heads; cases cs) auto
  then show ?thesis using walk_chain_members channel_maps_values [of bundles] by fastforce
qed (use assms in \<open>simp add: sortChannel_def\<close>)

definition part_entries :: "'v partition \<Rightarrow> 'v Entry set" where
  "part_entries parts = (\<Union>(k, channels) \<in> set parts. \<Union>(pc, bs) \<in> set channels. set bs)"

lemma sort_channels_subset:
  "sort_channels channels = Inr cs \<Longrightarrow> set (concat (map snd cs)) \<subseteq> (\<Union>(pc, bs) \<in> set channels. set bs)"
proof (induction channels arbitrary: cs)
  case (Cons c channels)
  obtain pc bs where c: "c = (pc, bs)" by force
  then obtain bs' cs' where *: "sortChannel bs = Inr bs'" "sort_channels channels = Inr cs'" "cs = (pc, bs') # cs'"
    using Cons.prems by (auto split: sum.splits simp: map_sum_def)
  show ?case using sortChannel_subset [OF *(1)] Cons.IH [OF *(2)] c *(3) by auto
qed simp

lemma sort_catalogs_subset: "sort_catalogs parts = Inr bs \<Longrightarrow> set bs \<subseteq> part_entries parts"
proof (induction parts arbitrary: bs)
  case (Cons p parts)
  obtain k channels where p: "p = (k, channels)" by force
  let ?sorted = "go_sort (\<lambda>a b. channel_Less (fst a) (fst b)) channels"
  obtain cs rest where *: "sort_channels ?sorted = Inr cs" "sort_catalogs parts = Inr rest"
      "bs = concat (map snd cs) @ rest"
    using Cons.prems p by (auto split: sum.splits simp: map_sum_def)
  have "set (concat (map snd cs)) \<subseteq> (\<Union>(pc, bs) \<in> set channels. set bs)"
    using sort_channels_subset [OF *(1)] by simp
  then show ?case using Cons.IH [OF *(2)] *(3) p by (simp add: part_entries_def) blast
qed simp

lemma part_entries_update:
  "part_entries (AList.update k cs parts) \<subseteq> part_entries parts \<union> part_entries [(k, cs)]"
  using update_entries [of k cs parts] by (fastforce simp: part_entries_def)

lemma add_bundle_entries: "part_entries (add_bundle parts b si) \<subseteq> insert b (part_entries parts)"
proof -
  let ?k = "si_Catalog si" and ?pc = "PackageChannel_of b si"
  define cs where "cs = (case map_of parts ?k of Some cs \<Rightarrow> cs | None \<Rightarrow> [])"
  define bs where "bs = (case map_of cs ?pc of Some bs \<Rightarrow> bs | None \<Rightarrow> [])"
  have cs: "part_entries [(?k, cs)] \<subseteq> part_entries parts"
  proof (cases "map_of parts ?k")
    case (Some cs)
    then show ?thesis using map_of_SomeD [OF Some] unfolding cs_def by (simp add: part_entries_def) blast
  qed (simp add: cs_def part_entries_def)
  have bs: "set bs \<subseteq> part_entries [(?k, cs)]"
    unfolding bs_def by (cases "map_of cs ?pc") (auto simp: part_entries_def dest!: map_of_SomeD)
  have "part_entries [(?k, AList.update ?pc (bs @ [b]) cs)] \<subseteq> part_entries [(?k, cs)] \<union> set (bs @ [b])"
    using update_entries [of ?pc "bs @ [b]" cs] by (fastforce simp: part_entries_def)
  then have "part_entries [(?k, AList.update ?pc (bs @ [b]) cs)] \<subseteq> insert b (part_entries parts)"
    using cs bs by auto
  moreover have "add_bundle parts b si = AList.update ?k (AList.update ?pc (bs @ [b]) cs) parts"
    by (simp only: add_bundle_def Let_def bs_def cs_def)
  ultimately show ?thesis
    using part_entries_update [of ?k "AList.update ?pc (bs @ [b]) cs" parts] by auto
qed

lemma partition_bundles_entries:
  "partition_bundles bs parts = Inr parts' \<Longrightarrow> part_entries parts' \<subseteq> part_entries parts \<union> set bs"
proof (induction bs arbitrary: parts)
  case (Cons b bs)
  then obtain si where "partition_bundles bs (add_bundle parts b si) = Inr parts'" by (auto split: option.splits)
  from Cons.IH [OF this] add_bundle_entries [of parts b si] show ?case by auto
qed simp

lemma sortBundles_subset: "sortBundles bs = Inr cs \<Longrightarrow> set cs \<subseteq> set bs"
  using partition_bundles_entries [of bs "[]"] sort_catalogs_subset
  by (fastforce simp: sortBundles_def part_entries_def split: sum.splits)

end
