(* ===== verification/Snapshots.thy ===== *)
theory Snapshots
  imports Predicates
begin

text \<open>
  The snapshot cache of \<^verbatim>\<open>resolver/cache/cache.go\<close>. Snapshot headers are shared by pointer between the
  cache and the finders it hands out, so they live in a heap, addressed by number. A header is created
  locked and unlocked by the goroutine that fills it; every reader takes its lock first, so no reader
  sees it before, and the model creates it filled. What may change later is whether a snapshot is
  still valid: the addresses whose \<^verbatim>\<open>Valid\<close> channel has been closed.

  \<^verbatim>\<open>Namespaced\<close> holds the cache's lock twice, first for reading and then for writing; other calls may
  run in between, so the two critical sections are two operations (\<open>Namespaced_lookup\<close> and
  \<open>Namespaced_update\<close>), and the results about the second hold in any state it may find.
\<close>

subsection \<open>State\<close>

record 'v snapshotHeader =
  hdr_key :: SourceKey
  hdr_snapshot :: "'v Entry list option"
  hdr_err :: "string option"
  hdr_priority :: int

text \<open>A finder, \<^verbatim>\<open>NamespacedOperatorCache\<close>, is its map of snapshots.\<close>

type_synonym snapshot_map = "(SourceKey \<times> nat) list"

record 'v Cache =
  ch_snapshots :: snapshot_map
  ch_headers :: "'v snapshotHeader list"
  ch_closed :: "nat set"

text \<open>What a source's \<^verbatim>\<open>Snapshot\<close> may return: an error, no snapshot, or one\<close>

type_synonym 'v source = "string + 'v Entry list option"

definition Valid :: "'v Cache \<Rightarrow> nat \<Rightarrow> bool" where
  "Valid c a \<longleftrightarrow> a < length (ch_headers c) \<and> hdr_snapshot (ch_headers c ! a) \<noteq> None \<and>
     hdr_err (ch_headers c ! a) = None \<and> a \<notin> ch_closed c"

definition StaticSources :: "(SourceKey \<times> 'v source) list \<Rightarrow> string list \<Rightarrow> (SourceKey \<times> 'v source) list" where
  "StaticSources p namespaces =
     filter (\<lambda>(key, source). list_ex (\<lambda>namespace. sk_Namespace key = namespace) namespaces) p"

definition newCache :: "'v Cache" where
  "newCache = \<lparr>ch_snapshots = [], ch_headers = [], ch_closed = {}\<rparr>"

subsection \<open>Namespaced\<close>

text \<open>Under the read lock: the snapshots that are valid, and the keys that are missed\<close>

fun Namespaced_lookup ::
    "'v Cache \<Rightarrow> (SourceKey \<times> 'v source) list \<Rightarrow> snapshot_map \<times> SourceKey list" where
  "Namespaced_lookup c [] = ([], [])"
| "Namespaced_lookup c ((key, source) # sources) =
     (let (result, misses) = Namespaced_lookup c sources in
      case map_of (ch_snapshots c) key of
        Some a \<Rightarrow> (if Valid c a then (AList.update key a result, misses) else (result, key # misses))
      | None \<Rightarrow> (result, key # misses))"

text \<open>Clearing expired snapshots while holding the write lock\<close>

definition clear_expired :: "'v Cache \<Rightarrow> 'v Cache" where
  "clear_expired c = c\<lparr>ch_snapshots := filter (\<lambda>(key, a). Valid c a) (ch_snapshots c)\<rparr>"

text \<open>
  The loop over the misses, which moves those that were populated meanwhile to the front:
  \<^verbatim>\<open>misses[found], misses[i] = misses[i], misses[found]\<close>
\<close>

fun recheck ::
    "'v Cache \<Rightarrow> nat list \<Rightarrow> SourceKey list \<Rightarrow> nat \<Rightarrow> snapshot_map \<Rightarrow> SourceKey list \<times> nat \<times> snapshot_map" where
  "recheck c [] misses found result = (misses, found, result)"
| "recheck c (i # is) misses found result =
     (case map_of (ch_snapshots c) (misses ! i) of
        Some a \<Rightarrow>
          (if Valid c a
           then recheck c is (misses[found := misses ! i, i := misses ! found]) (Suc found)
                  (AList.update (misses ! i) a result)
           else recheck c is misses found result)
      | None \<Rightarrow> recheck c is misses found result)"

definition new_header ::
    "(SourceKey \<Rightarrow> int) \<Rightarrow> SourceKey \<Rightarrow> 'v source \<Rightarrow> 'v snapshotHeader" where
  "new_header Priority key source =
     \<lparr>hdr_key = key,
      hdr_snapshot = (case source of Inr s \<Rightarrow> s | Inl _ \<Rightarrow> None),
      hdr_err = (case source of
                   Inl err \<Rightarrow> Some err
                 | Inr (Some s) \<Rightarrow> None
                 | Inr None \<Rightarrow> Some ''source produced no snapshot and no error''),
      hdr_priority = Priority key\<rparr>"

fun populate ::
    "(SourceKey \<Rightarrow> int) \<Rightarrow> (SourceKey \<Rightarrow> 'v source) \<Rightarrow> SourceKey list \<Rightarrow> 'v Cache \<Rightarrow> snapshot_map \<Rightarrow>
     'v Cache \<times> snapshot_map" where
  "populate Priority src [] c result = (c, result)"
| "populate Priority src (miss # misses) c result =
     (let a = length (ch_headers c);
          c = c\<lparr>ch_headers := ch_headers c @ [new_header Priority miss (src miss)],
                ch_snapshots := AList.update miss a (ch_snapshots c)\<rparr>
      in populate Priority src misses c (AList.update miss a result))"

definition Namespaced_update ::
    "(SourceKey \<Rightarrow> int) \<Rightarrow> (SourceKey \<Rightarrow> 'v source) \<Rightarrow> 'v Cache \<Rightarrow> snapshot_map \<Rightarrow> SourceKey list \<Rightarrow>
     'v Cache \<times> snapshot_map" where
  "Namespaced_update Priority src c result misses =
     (let c = clear_expired c;
          (misses, found, result) = recheck c [0..<length misses] misses 0 result
      in populate Priority src (drop found misses) c result)"

text \<open>One call without interference\<close>

definition Namespaced ::
    "(SourceKey \<Rightarrow> int) \<Rightarrow> (SourceKey \<times> 'v source) list \<Rightarrow> 'v Cache \<Rightarrow> 'v Cache \<times> snapshot_map" where
  "Namespaced Priority sources c =
     (let (result, misses) = Namespaced_lookup c sources in
      if length misses = 0 then (c, result)
      else Namespaced_update Priority (\<lambda>k. the (map_of sources k)) c result misses)"

subsection \<open>Finders\<close>

definition finder_Error :: "'v snapshotHeader list \<Rightarrow> snapshot_map \<Rightarrow> (SourceKey \<times> string) list" where
  "finder_Error H m =
     List.map_filter (\<lambda>(key, a). map_option (\<lambda>err. (key, err)) (hdr_err (H ! a))) m"

definition hdr_Find ::
    "('v, 'p) libs \<Rightarrow> 'v snapshotHeader \<Rightarrow> ('v, 'p) Predicate list \<Rightarrow> counters \<Rightarrow>
     ('v Entry list \<times> counters) option" where
  "hdr_Find L hdr ps n =
     (case hdr_snapshot hdr of None \<Rightarrow> Some ([], n) | Some es \<Rightarrow> Filter L es ps n)"

text \<open>\<^verbatim>\<open>sortableSnapshots.Less\<close>\<close>

definition snapshot_Less ::
    "SourceKey option \<Rightarrow> SourceKey option \<Rightarrow> string \<Rightarrow> 'v snapshotHeader \<Rightarrow> 'v snapshotHeader \<Rightarrow> bool" where
  "snapshot_Less existing preferred preferredNamespace i j =
     (if existing = Some (hdr_key i) then True
      else if existing = Some (hdr_key j) then False
      else if preferred = Some (hdr_key i) then True
      else if preferred = Some (hdr_key j) then False
      else if hdr_priority i \<noteq> hdr_priority j then hdr_priority i > hdr_priority j
      else if sk_Namespace (hdr_key i) \<noteq> sk_Namespace (hdr_key j) \<and>
              sk_Namespace (hdr_key i) = preferredNamespace then True
      else if sk_Namespace (hdr_key i) \<noteq> sk_Namespace (hdr_key j) \<and>
              sk_Namespace (hdr_key j) = preferredNamespace then False
      else sk_Name (hdr_key i) < sk_Name (hdr_key j))"

text \<open>The key of the virtual catalog of the preferred namespace, if there is a snapshot of it\<close>

definition find_existing :: "snapshot_map \<Rightarrow> string \<Rightarrow> SourceKey option" where
  "find_existing m preferredNamespace =
     List.find (\<lambda>key. Virtual key \<and> sk_Namespace key = preferredNamespace) (map fst m)"

definition sorted_snapshots ::
    "'v snapshotHeader list \<Rightarrow> snapshot_map \<Rightarrow> SourceKey option \<Rightarrow> string \<Rightarrow> 'v snapshotHeader list" where
  "sorted_snapshots H m preferred preferredNamespace =
     go_sort (snapshot_Less (find_existing m preferredNamespace) preferred preferredNamespace)
       (map (\<lambda>(key, a). H ! a) m)"

fun find_all ::
    "('v, 'p) libs \<Rightarrow> 'v snapshotHeader list \<Rightarrow> ('v, 'p) Predicate list \<Rightarrow> counters \<Rightarrow>
     ('v Entry list \<times> counters) option" where
  "find_all L [] ps n = Some ([], n)"
| "find_all L (hdr # hdrs) ps n =
     (case hdr_Find L hdr ps n of
        None \<Rightarrow> None
      | Some (es, n) \<Rightarrow> map_option (\<lambda>(es', n). (es @ es', n)) (find_all L hdrs ps n))"

definition FindPreferred ::
    "('v, 'p) libs \<Rightarrow> 'v snapshotHeader list \<Rightarrow> snapshot_map \<Rightarrow> SourceKey option \<Rightarrow> string \<Rightarrow>
     ('v, 'p) Predicate list \<Rightarrow> counters \<Rightarrow> ('v Entry list \<times> counters) option" where
  "FindPreferred L H m preferred preferredNamespace ps n =
     (let preferred = (case preferred of
                         Some k \<Rightarrow> if SourceKey_Empty k then None else Some k | None \<Rightarrow> None)
      in find_all L (sorted_snapshots H m preferred preferredNamespace) ps n)"

definition Find ::
    "('v, 'p) libs \<Rightarrow> 'v snapshotHeader list \<Rightarrow> snapshot_map \<Rightarrow> ('v, 'p) Predicate list \<Rightarrow> counters \<Rightarrow>
     ('v Entry list \<times> counters) option" where
  "Find L H m ps n = FindPreferred L H m None '''' ps n"

text \<open>\<^verbatim>\<open>Catalog(k).Find(p...)\<close>: the empty key is every catalog, an unknown one has no entries.\<close>

definition Catalog_Find ::
    "('v, 'p) libs \<Rightarrow> 'v snapshotHeader list \<Rightarrow> snapshot_map \<Rightarrow> SourceKey \<Rightarrow> ('v, 'p) Predicate list \<Rightarrow>
     counters \<Rightarrow> ('v Entry list \<times> counters) option" where
  "Catalog_Find L H m k ps n =
     (if SourceKey_Empty k then Find L H m ps n
      else case map_of m k of
             Some a \<Rightarrow> hdr_Find L (H ! a) ps n
           | None \<Rightarrow> Some ([], n))"

subsection \<open>The order of snapshots\<close>

text \<open>
  The keys \<^verbatim>\<open>Less\<close> compares, in this order: the existing operators, the preferred catalog, the
  priority, the preferred namespace, the name.
\<close>

definition snapshot_rank ::
    "SourceKey option \<Rightarrow> SourceKey option \<Rightarrow> string \<Rightarrow> 'v snapshotHeader \<Rightarrow> bool \<times> bool \<times> int \<times> bool \<times> string" where
  "snapshot_rank existing preferred ns h =
     (existing \<noteq> Some (hdr_key h), preferred \<noteq> Some (hdr_key h), - hdr_priority h,
      sk_Namespace (hdr_key h) \<noteq> ns, sk_Name (hdr_key h))"

fun rank_less :: "bool \<times> bool \<times> int \<times> bool \<times> string \<Rightarrow> bool \<times> bool \<times> int \<times> bool \<times> string \<Rightarrow> bool" where
  "rank_less (e, p, r, n, s) (e', p', r', n', s') \<longleftrightarrow>
     e < e' \<or> e = e' \<and> (p < p' \<or> p = p' \<and> (r < r' \<or> r = r' \<and> (n < n' \<or> n = n' \<and> s < s')))"

lemma rank_less_asym: "rank_less a b \<Longrightarrow> \<not> rank_less b a"
  by (cases a; cases b) auto

lemma rank_less_negtrans: "\<not> rank_less b a \<Longrightarrow> \<not> rank_less c b \<Longrightarrow> \<not> rank_less c a"
  by (cases a; cases b; cases c) (auto simp: not_less_iff_gr_or_eq)

lemma snapshot_Less_rank:
  assumes "hdr_key i \<noteq> hdr_key j"
  shows "snapshot_Less existing preferred ns i j \<longleftrightarrow>
    rank_less (snapshot_rank existing preferred ns i) (snapshot_rank existing preferred ns j)"
proof -
  have "existing = Some (hdr_key i) \<Longrightarrow> existing \<noteq> Some (hdr_key j)"
    "preferred = Some (hdr_key i) \<Longrightarrow> preferred \<noteq> Some (hdr_key j)" using assms by auto
  then show ?thesis by (auto simp: snapshot_Less_def snapshot_rank_def)
qed

interpretation snapshot_order: less_order "snapshot_Less existing preferred ns"
    "\<lambda>i j. hdr_key i \<noteq> hdr_key j" for existing preferred ns
proof
  fix x y :: "'a snapshotHeader"
  assume "hdr_key x \<noteq> hdr_key y" "snapshot_Less existing preferred ns x y"
  then show "\<not> snapshot_Less existing preferred ns y x"
    by (simp add: snapshot_Less_rank rank_less_asym)
next
  fix x y z :: "'a snapshotHeader"
  assume ne: "hdr_key x \<noteq> hdr_key y" "hdr_key y \<noteq> hdr_key z" "hdr_key x \<noteq> hdr_key z"
    and le: "\<not> snapshot_Less existing preferred ns y x" "\<not> snapshot_Less existing preferred ns z y"
  note rank = snapshot_Less_rank [OF ne(1) [symmetric]] snapshot_Less_rank [OF ne(2) [symmetric]]
    snapshot_Less_rank [OF ne(3) [symmetric]]
  show "\<not> snapshot_Less existing preferred ns z x"
    using le unfolding rank by (rule rank_less_negtrans)
qed

subsection \<open>The invariant\<close>

text \<open>Every key of a map of snapshots is the key of the header it leads to.\<close>

definition wf_map :: "'v snapshotHeader list \<Rightarrow> snapshot_map \<Rightarrow> bool" where
  "wf_map H m \<longleftrightarrow> distinct (map fst m) \<and> (\<forall>(k, a) \<in> set m. a < length H \<and> hdr_key (H ! a) = k)"

lemma wf_map_headers:
  assumes "wf_map H m"
  shows "distinct (map (\<lambda>(k, a). H ! a) m)"
    "pairwise (\<lambda>i j. hdr_key i \<noteq> hdr_key j) (set (map (\<lambda>(k, a). H ! a) m))"
proof -
  have "map hdr_key (map (\<lambda>(k, a). H ! a) m) = map fst m" "distinct (map fst m)"
    using assms by (auto simp: wf_map_def)
  then have "distinct (map hdr_key (map (\<lambda>(k, a). H ! a) m))" by metis
  then show "distinct (map (\<lambda>(k, a). H ! a) m)"
    "pairwise (\<lambda>i j. hdr_key i \<noteq> hdr_key j) (set (map (\<lambda>(k, a). H ! a) m))"
    unfolding distinct_map pairwise_def by (blast, metis inj_onD)
qed

lemma sorted_snapshots_sorted:
  assumes "wf_map H m"
  shows "sorted_wrt (\<lambda>i j. \<not> snapshot_Less (find_existing m ns) preferred ns j i)
      (sorted_snapshots H m preferred ns)"
    "mset (sorted_snapshots H m preferred ns) = mset (map (\<lambda>(k, a). H ! a) m)"
  unfolding sorted_snapshots_def
  by (rule snapshot_order.sorted_go_sort [OF wf_map_headers [OF assms]]) simp

lemma wf_map_update:
  assumes "wf_map H m" and "a < length H" and "hdr_key (H ! a) = k"
  shows "wf_map H (AList.update k a m)"
  using assms update_entries [of k a m] by (auto simp: wf_map_def)

lemma wf_map_append: "wf_map H m \<Longrightarrow> wf_map (H @ H') m"
  by (auto simp: wf_map_def nth_append)

subsection \<open>The second critical section\<close>

text \<open>\<open>live c k\<close>: the address of the valid snapshot the cache holds for \<open>k\<close>, if any\<close>

definition live :: "'v Cache \<Rightarrow> SourceKey \<Rightarrow> nat option" where
  "live c k = (case map_of (ch_snapshots c) k of
     Some a \<Rightarrow> if Valid c a then Some a else None | None \<Rightarrow> None)"

lemma map_of_filter_distinct:
  "distinct (map fst m) \<Longrightarrow> map_of (filter (\<lambda>(k, a). P a) m) k =
     (case map_of m k of Some a \<Rightarrow> if P a then Some a else None | None \<Rightarrow> None)"
  by (induction m) (auto split: option.splits simp: map_of_eq_None_iff [symmetric] image_iff dest: map_of_SomeD)

lemma clear_expired_map:
  assumes "distinct (map fst (ch_snapshots c))"
  shows "map_of (ch_snapshots (clear_expired c)) = live c" "live (clear_expired c) = live c"
proof -
  show 1: "map_of (ch_snapshots (clear_expired c)) = live c"
    using map_of_filter_distinct [OF assms, of "Valid c"] by (simp add: clear_expired_def live_def fun_eq_iff)
  have "Valid (clear_expired c) = Valid c" by (simp add: Valid_def clear_expired_def fun_eq_iff)
  then show "live (clear_expired c) = live c"
    using 1 by (auto simp: live_def fun_eq_iff split: option.splits)
qed

text \<open>The loop splits the misses into those found meanwhile and the others, and records the former.\<close>

lemma mset_swap2: "i < length xs \<Longrightarrow> j < length xs \<Longrightarrow> mset (xs[i := xs ! j, j := xs ! i]) = mset xs"
  by (rule mset_swap)

lemma recheck_step:
  "recheck c (i # is) misses found result =
     (case live c (misses ! i) of
        Some a \<Rightarrow> recheck c is (misses[found := misses ! i, i := misses ! found]) (Suc found)
                    (AList.update (misses ! i) a result)
      | None \<Rightarrow> recheck c is misses found result)"
  by (simp add: live_def split: option.split)

lemma recheck_inv:
  assumes "recheck c [i..<length misses] misses found result = (ms', f', r')"
    and "found \<le> i" and "i \<le> length misses"
    and "\<forall>j < found. live c (misses ! j) \<noteq> None"
    and "\<forall>j. found \<le> j \<and> j < i \<longrightarrow> live c (misses ! j) = None"
  shows "mset ms' = mset misses \<and> f' \<le> length misses \<and>
    (\<forall>j < f'. live c (ms' ! j) \<noteq> None) \<and>
    (\<forall>j. f' \<le> j \<and> j < length misses \<longrightarrow> live c (ms' ! j) = None) \<and>
    map_of r' = (\<lambda>k. if k \<in> set (drop i misses) \<and> live c k \<noteq> None then live c k else map_of result k)"
  using assms
proof (induction "length misses - i" arbitrary: i misses found result)
  case 0
  then show ?case by auto
next
  case (Suc n)
  have i: "i < length misses" using Suc.hyps(2) by simp
  have upt: "[i..<length misses] = i # [Suc i..<length misses]" using i by (simp add: upt_conv_Cons)
  have drop: "drop i misses = misses ! i # drop (Suc i) misses" using i by (simp add: Cons_nth_drop_Suc)
  show ?case
  proof (cases "live c (misses ! i)")
    case None
    then have "recheck c [Suc i..<length misses] misses found result = (ms', f', r')"
      using Suc.prems(1) by (simp add: upt recheck_step del: recheck.simps)
    moreover have "\<forall>j. found \<le> j \<and> j < Suc i \<longrightarrow> live c (misses ! j) = None"
      using Suc.prems(5) None by (auto simp: less_Suc_eq)
    moreover have "n = length misses - Suc i" "found \<le> Suc i" "Suc i \<le> length misses"
      using Suc.hyps(2) Suc.prems(2) i by auto
    ultimately have IH: "mset ms' = mset misses \<and> f' \<le> length misses \<and>
      (\<forall>j < f'. live c (ms' ! j) \<noteq> None) \<and>
      (\<forall>j. f' \<le> j \<and> j < length misses \<longrightarrow> live c (ms' ! j) = None) \<and>
      map_of r' = (\<lambda>k. if k \<in> set (drop (Suc i) misses) \<and> live c k \<noteq> None then live c k else map_of result k)"
      using Suc.hyps(1) [of misses "Suc i" found result] Suc.prems(4) by blast
    then show ?thesis using None by (auto simp: drop fun_eq_iff)
  next
    case (Some a)
    let ?ms = "misses[found := misses ! i, i := misses ! found]"
    have run: "recheck c [Suc i..<length ?ms] ?ms (Suc found) (AList.update (misses ! i) a result) = (ms', f', r')"
      using Suc.prems(1) Some by (simp add: upt recheck_step del: recheck.simps)
    have dr: "drop (Suc i) ?ms = drop (Suc i) misses" using Suc.prems(2) by simp
    have a: "\<forall>j < Suc found. live c (?ms ! j) \<noteq> None"
      using Suc.prems(2,4) i Some by (auto simp: nth_list_update less_Suc_eq)
    have b: "\<forall>j. Suc found \<le> j \<and> j < Suc i \<longrightarrow> live c (?ms ! j) = None"
      using Suc.prems(2,5) i by (auto simp: nth_list_update less_Suc_eq)
    from Suc.hyps(1) [OF _ run _ _ a b] have IH: "mset ms' = mset ?ms \<and> f' \<le> length misses \<and>
      (\<forall>j < f'. live c (ms' ! j) \<noteq> None) \<and>
      (\<forall>j. f' \<le> j \<and> j < length misses \<longrightarrow> live c (ms' ! j) = None) \<and>
      map_of r' = (\<lambda>k. if k \<in> set (drop (Suc i) misses) \<and> live c k \<noteq> None then live c k
        else map_of (AList.update (misses ! i) a result) k)"
      using Suc.hyps(2) Suc.prems(2) i dr by simp
    moreover have "mset ?ms = mset misses" using i Suc.prems(2) by (intro mset_swap2) auto
    ultimately show ?thesis using Some by (auto simp: drop fun_eq_iff alist_simps)
  qed
qed

lemma recheck_wf:
  "recheck c is ms f r = (ms', f', r') \<Longrightarrow> wf_map (ch_headers c) (ch_snapshots c) \<Longrightarrow>
   wf_map (ch_headers c) r \<Longrightarrow> wf_map (ch_headers c) r'"
proof (induction c "is" ms f r arbitrary: ms' f' r' rule: recheck.induct)
  case (2 c i "is" ms f r)
  show ?case
  proof (cases "live c (ms ! i)")
    case None
    then show ?thesis using 2 by (auto simp: live_def split: option.splits if_splits)
  next
    case (Some a)
    then have a: "map_of (ch_snapshots c) (ms ! i) = Some a" "Valid c a"
      by (auto simp: live_def split: option.splits if_splits)
    have "wf_map (ch_headers c) (AList.update (ms ! i) a r)"
      using "2.prems"(2) map_of_SomeD [OF a(1)] by (intro wf_map_update "2.prems"(3)) (auto simp: wf_map_def)
    then show ?thesis using "2.IH"(2) [OF a] "2.prems"(1,2) a by simp
  qed
qed simp

text \<open>\<open>created P src c c' k a\<close>: \<open>a\<close> is a new header, filled from the source of \<open>k\<close>.\<close>

definition created ::
    "(SourceKey \<Rightarrow> int) \<Rightarrow> (SourceKey \<Rightarrow> 'v source) \<Rightarrow> 'v Cache \<Rightarrow> 'v Cache \<Rightarrow> SourceKey \<Rightarrow> nat \<Rightarrow> bool" where
  "created P src c c' k a \<longleftrightarrow> length (ch_headers c) \<le> a \<and> a < length (ch_headers c') \<and>
     ch_headers c' ! a = new_header P k (src k)"

lemma new_header_key [simp]: "hdr_key (new_header P k s) = k"
  by (simp add: new_header_def)

lemma populate_correct:
  assumes "populate P src ms c r = (c', r')" and "distinct ms"
    and "wf_map (ch_headers c) (ch_snapshots c)" and "wf_map (ch_headers c) r"
  shows "wf_map (ch_headers c') (ch_snapshots c') \<and> wf_map (ch_headers c') r' \<and>
    ch_closed c' = ch_closed c \<and> (\<exists>H. ch_headers c' = ch_headers c @ H) \<and>
    (\<forall>k \<in> set ms. \<exists>a. map_of r' k = Some a \<and> map_of (ch_snapshots c') k = Some a \<and> created P src c c' k a) \<and>
    (\<forall>k. k \<notin> set ms \<longrightarrow> map_of r' k = map_of r k \<and> map_of (ch_snapshots c') k = map_of (ch_snapshots c) k)"
  using assms
proof (induction ms arbitrary: c r)
  case Nil
  then show ?case by auto
next
  case (Cons m ms)
  let ?a = "length (ch_headers c)" and ?h = "new_header P m (src m)"
  let ?c = "c\<lparr>ch_headers := ch_headers c @ [?h], ch_snapshots := AList.update m ?a (ch_snapshots c)\<rparr>"
  have run: "populate P src ms ?c (AList.update m ?a r) = (c', r')"
    using Cons.prems(1) by (simp add: Let_def)
  have wf: "wf_map (ch_headers ?c) (ch_snapshots ?c)" "wf_map (ch_headers ?c) (AList.update m ?a r)"
    using Cons.prems(3,4) wf_map_append [of "ch_headers c" _ "[?h]"] by (auto intro: wf_map_update)
  have m: "m \<notin> set ms" and d: "distinct ms" using Cons.prems(2) by auto
  note IH = Cons.IH [OF run d wf]
  obtain H where H: "ch_headers c' = ch_headers c @ ?h # H" using IH by auto
  have new: "created P src c c' k a" if "created P src ?c c' k a" for k a
    using that by (simp add: created_def)
  have "map_of r' m = Some ?a" "map_of (ch_snapshots c') m = Some ?a"
    using IH m by (auto simp: alist_simps)
  moreover have "created P src c c' m ?a" using H by (simp add: created_def nth_append)
  moreover have "map_of r' k = map_of r k \<and> map_of (ch_snapshots c') k = map_of (ch_snapshots c) k"
    if "k \<notin> set (m # ms)" for k
    using IH that by (simp add: alist_simps)
  ultimately show ?case using IH H new by auto
qed

text \<open>
  What the second critical section leaves behind, in whatever state it starts: for each missed key
  the valid snapshot that is there by now, or a new one; nothing else changes in the result, and the
  cache keeps its valid snapshots.
\<close>

lemma Namespaced_update_correct:
  assumes upd: "Namespaced_update P src c result misses = (c', result')" and "distinct misses"
    and wf: "wf_map (ch_headers c) (ch_snapshots c)" "wf_map (ch_headers c) result"
  shows "wf_map (ch_headers c') (ch_snapshots c') \<and> wf_map (ch_headers c') result' \<and>
    (\<exists>H. ch_headers c' = ch_headers c @ H) \<and>
    (\<forall>k \<in> set misses. \<exists>a. map_of result' k = Some a \<and> map_of (ch_snapshots c') k = Some a \<and>
       (case live c k of Some b \<Rightarrow> a = b | None \<Rightarrow> created P src c c' k a)) \<and>
    (\<forall>k. k \<notin> set misses \<longrightarrow> map_of result' k = map_of result k \<and> map_of (ch_snapshots c') k = live c k)"
proof -
  let ?c = "clear_expired c"
  have dk: "distinct (map fst (ch_snapshots c))" using wf(1) by (simp add: wf_map_def)
  note cur = clear_expired_map [OF dk]
  obtain ms f r where rc: "recheck ?c [0..<length misses] misses 0 result = (ms, f, r)" by (metis prod_cases3)
  have pop: "populate P src (drop f ms) ?c r = (c', result')"
    using upd rc by (simp add: Namespaced_update_def Let_def)
  have R: "mset ms = mset misses" "f \<le> length misses" "\<forall>j < f. live c (ms ! j) \<noteq> None"
      "\<forall>j. f \<le> j \<and> j < length misses \<longrightarrow> live c (ms ! j) = None"
      "map_of r = (\<lambda>k. if k \<in> set misses \<and> live c k \<noteq> None then live c k else map_of result k)"
    using recheck_inv [OF rc, unfolded cur(2)] by simp_all
  have ms: "set ms = set misses" "distinct ms" "length ms = length misses"
    using R(1) assms(2) by (metis set_mset_mset, metis mset_eq_imp_distinct_iff, metis size_mset)
  have rest: "set (drop f ms) = {k \<in> set misses. live c k = None}"
  proof -
    have "set (take f ms) \<subseteq> {k. live c k \<noteq> None}" using R(2,3) ms(3) by (auto simp: in_set_conv_nth)
    moreover have "set (drop f ms) \<subseteq> {k. live c k = None}" using R(4) ms(3) by (auto simp: in_set_conv_nth)
    moreover have "set misses = set (take f ms) \<union> set (drop f ms)"
      using ms(1) by (metis append_take_drop_id set_append)
    ultimately show ?thesis by auto
  qed
  have wf1: "wf_map (ch_headers ?c) (ch_snapshots ?c)"
    using wf(1) distinct_map_filter [OF dk] by (auto simp: wf_map_def clear_expired_def)
  have wf2: "wf_map (ch_headers ?c) r"
    by (rule recheck_wf [OF rc wf1]) (use wf(2) in \<open>simp add: clear_expired_def\<close>)
  have hd: "ch_headers ?c = ch_headers c" by (simp add: clear_expired_def)
  note P = populate_correct [OF pop distinct_drop [OF ms(2)] wf1 wf2, unfolded rest cur(1) hd]
  have "\<exists>a. map_of result' k = Some a \<and> map_of (ch_snapshots c') k = Some a \<and>
      (case live c k of Some b \<Rightarrow> a = b | None \<Rightarrow> created P src c c' k a)" if k: "k \<in> set misses" for k
  proof (cases "live c k")
    case None
    then show ?thesis using P k by (auto simp: created_def hd)
  next
    case (Some b)
    then have "map_of result' k = map_of r k" "map_of (ch_snapshots c') k = live c k"
      using P by auto
    then show ?thesis using Some k R(5) by simp
  qed
  moreover have "map_of result' k = map_of result k \<and> map_of (ch_snapshots c') k = live c k"
    if "k \<notin> set misses" for k
    using P that R(5) by auto
  ultimately show ?thesis using P by blast
qed

subsection \<open>A whole call\<close>

lemma Namespaced_lookup_correct:
  assumes "Namespaced_lookup c sources = (result, misses)" and "distinct (map fst sources)"
    and "wf_map (ch_headers c) (ch_snapshots c)"
  shows "wf_map (ch_headers c) result \<and> distinct misses \<and>
    set misses = {k \<in> fst ` set sources. live c k = None} \<and>
    (\<forall>k. map_of result k = (if k \<in> fst ` set sources then live c k else None))"
  using assms(1,2)
proof (induction sources arbitrary: result misses)
  case Nil
  then show ?case by (auto simp: wf_map_def)
next
  case (Cons s sources)
  obtain key src where s: "s = (key, src)" by force
  obtain r ms where 1: "Namespaced_lookup c sources = (r, ms)" by force
  have new: "key \<notin> fst ` set sources" and d: "distinct (map fst sources)"
    using Cons.prems(2) by (auto simp: s)
  note IH = Cons.IH [OF 1 d]
  show ?case
  proof (cases "live c key")
    case None
    then have "result = r" "misses = key # ms"
      using Cons.prems(1) 1 by (auto simp: s live_def split: option.splits if_splits)
    then show ?thesis using IH None new by (auto simp: s)
  next
    case (Some a)
    then have a: "map_of (ch_snapshots c) key = Some a" "Valid c a"
      by (auto simp: live_def split: option.splits if_splits)
    then have res: "result = AList.update key a r" "misses = ms" using Cons.prems(1) 1 by (auto simp: s)
    have "wf_map (ch_headers c) (AList.update key a r)"
      using assms(3) map_of_SomeD [OF a(1)] IH by (intro wf_map_update) (auto simp: wf_map_def)
    then show ?thesis using IH Some new res by (auto simp: s alist_simps)
  qed
qed

text \<open>
  The finder that a call hands out has exactly the keys of the sources; each leads to the snapshot the
  cache held and that was valid, or to a new one.
\<close>

lemma Namespaced_correct:
  assumes "Namespaced P sources c = (c', m)" and "distinct (map fst sources)"
    and "wf_map (ch_headers c) (ch_snapshots c)"
  shows "wf_map (ch_headers c') (ch_snapshots c') \<and> wf_map (ch_headers c') m \<and>
    dom (map_of m) = fst ` set sources \<and>
    (\<forall>k \<in> fst ` set sources. \<exists>a. map_of m k = Some a \<and>
       (case live c k of Some b \<Rightarrow> a = b
        | None \<Rightarrow> created P (\<lambda>k. the (map_of sources k)) c c' k a))"
proof -
  obtain result misses where 1: "Namespaced_lookup c sources = (result, misses)" by force
  note L = Namespaced_lookup_correct [OF 1 assms(2,3)]
  show ?thesis
  proof (cases "misses = []")
    case True
    then have "c' = c" "m = result" using assms(1) 1 by (auto simp: Namespaced_def)
    moreover have "\<forall>k \<in> fst ` set sources. live c k \<noteq> None" using L True by auto
    ultimately show ?thesis using L assms(3) by (auto simp: dom_def split: option.splits)
  next
    case False
    then have upd: "Namespaced_update P (\<lambda>k. the (map_of sources k)) c result misses = (c', m)"
      using assms(1) 1 by (simp add: Namespaced_def)
    note U = Namespaced_update_correct [OF upd _ assms(3)]
    have keys: "\<exists>a. map_of m k = Some a \<and>
       (case live c k of Some b \<Rightarrow> a = b
        | None \<Rightarrow> created P (\<lambda>k. the (map_of sources k)) c c' k a)" if k: "k \<in> fst ` set sources" for k
    proof (cases "live c k")
      case None
      then have "k \<in> set misses" using L k by blast
      then show ?thesis using U L None by fastforce
    next
      case (Some b)
      then have "k \<notin> set misses" using L by simp
      then show ?thesis using U L Some k by simp
    qed
    moreover have "map_of m k = None" if "k \<notin> fst ` set sources" for k
      using U L that by simp
    ultimately have "dom (map_of m) = fst ` set sources" by (intro set_eqI) (metis domIff option.distinct(1))
    then show ?thesis using U L keys by blast
  qed
qed

subsection \<open>What finders find\<close>

definition hdr_entries :: "'v snapshotHeader \<Rightarrow> 'v Entry list" where
  "hdr_entries hdr = (case hdr_snapshot hdr of None \<Rightarrow> [] | Some es \<Rightarrow> es)"

text \<open>All entries of the headers have a source.\<close>

definition all_sourced :: "'v snapshotHeader list \<Rightarrow> bool" where
  "all_sourced H \<longleftrightarrow> (\<forall>hdr \<in> set H. \<forall>e \<in> set (hdr_entries hdr). sourced e)"

abbreviation passes :: "('v, 'p) libs \<Rightarrow> ('v, 'p) Predicate list \<Rightarrow> 'v Entry \<Rightarrow> bool" where
  "passes L ps e \<equiv> \<forall>p \<in> set ps. sat L p e"

lemma hdr_Find_sat:
  assumes "\<forall>e \<in> set (hdr_entries hdr). sourced e"
  shows "\<exists>n'. hdr_Find L hdr ps n = Some (filter (passes L ps) (hdr_entries hdr), n')"
  using Filter_sat [OF assms, of L ps n] by (cases "hdr_snapshot hdr") (auto simp: hdr_Find_def hdr_entries_def)

lemma find_all_sat:
  "all_sourced H \<Longrightarrow> \<exists>n'. find_all L H ps n = Some (filter (passes L ps) (concat (map hdr_entries H)), n')"
proof (induction H arbitrary: n)
  case (Cons h H)
  obtain n1 where "hdr_Find L h ps n = Some (filter (passes L ps) (hdr_entries h), n1)"
    using hdr_Find_sat [of h L ps n] Cons.prems by (auto simp: all_sourced_def)
  moreover obtain n2 where "find_all L H ps n1 = Some (filter (passes L ps) (concat (map hdr_entries H)), n2)"
    using Cons.IH [of n1] Cons.prems by (auto simp: all_sourced_def)
  ultimately show ?case by simp
qed simp

lemma sorted_snapshots_sourced:
  assumes "all_sourced H" and "wf_map H m"
  shows "all_sourced (sorted_snapshots H m preferred ns)"
proof -
  have "set (sorted_snapshots H m preferred ns) \<subseteq> set H"
    using assms(2) by (auto simp: sorted_snapshots_def wf_map_def)
  then show ?thesis using assms(1) by (auto simp: all_sourced_def)
qed

definition preferred_key :: "SourceKey option \<Rightarrow> SourceKey option" where
  "preferred_key preferred =
     (case preferred of Some k \<Rightarrow> if SourceKey_Empty k then None else Some k | None \<Rightarrow> None)"

lemma FindPreferred_sat:
  assumes "all_sourced H" and "wf_map H m"
  shows "\<exists>n'. FindPreferred L H m preferred ns ps n =
    Some (filter (passes L ps)
      (concat (map hdr_entries (sorted_snapshots H m (preferred_key preferred) ns))), n')"
  using find_all_sat [OF sorted_snapshots_sourced [OF assms], of L "preferred_key preferred" ns ps n]
  by (simp add: FindPreferred_def preferred_key_def)

end
