(* ===== verification/Bundle_Variables.thy ===== *)
theory Bundle_Variables
  imports Channel_Sort Snapshots
begin

text \<open>
  The closure of bundles under their dependencies (\<^verbatim>\<open>newBundleVariableFromEntry\<close> and
  \<^verbatim>\<open>getBundleVariables\<close> of \<^verbatim>\<open>resolver.go\<close>). Bundle variables are shared by pointer between the map of
  visited entries and the maps of variables, and are changed after they were stored there, so they
  live in a heap, addressed by number. A panic is \<open>Inl Panic\<close> and ends everything; the errors the
  code collects are part of the state.
\<close>

subsection \<open>The resolver and its finder\<close>

record ('v, 'p) Resolver =
  r_libs :: "('v, 'p) libs"
  r_system :: "('v Entry \<Rightarrow> string + solver_constraint list) option"

record 'v finder =
  f_headers :: "'v snapshotHeader list"
  f_map :: snapshot_map

text \<open>Finding with predicates that count nothing that is read later\<close>

definition f_Find :: "('v, 'p) libs \<Rightarrow> 'v finder \<Rightarrow> ('v, 'p) Predicate list \<Rightarrow> 'v Entry list option" where
  "f_Find L F ps = map_option fst (Find L (f_headers F) (f_map F) ps (\<lambda>_. 0))"

definition f_FindPreferred ::
    "('v, 'p) libs \<Rightarrow> 'v finder \<Rightarrow> SourceKey \<Rightarrow> string \<Rightarrow> ('v, 'p) Predicate list \<Rightarrow> 'v Entry list option" where
  "f_FindPreferred L F k ns ps = map_option fst (FindPreferred L (f_headers F) (f_map F) (Some k) ns ps (\<lambda>_. 0))"

definition f_Catalog ::
    "('v, 'p) libs \<Rightarrow> 'v finder \<Rightarrow> SourceKey \<Rightarrow> ('v, 'p) Predicate list \<Rightarrow> 'v Entry list option" where
  "f_Catalog L F k ps = map_option fst (Catalog_Find L (f_headers F) (f_map F) k ps (\<lambda>_. 0))"

definition f_Filter ::
    "('v, 'p) libs \<Rightarrow> 'v Entry list \<Rightarrow> ('v, 'p) Predicate list \<Rightarrow> 'v Entry list option" where
  "f_Filter L es ps = map_option fst (Filter L es ps (\<lambda>_. 0))"

subsection \<open>newBundleVariableFromEntry\<close>

definition newBundleVariableFromEntry :: "('v, 'p) Resolver \<Rightarrow> 'v Entry \<Rightarrow> resolver_error + BundleVar" where
  "newBundleVariableFromEntry r entry =
     (case NewBundleVariableFromOperator entry of
        Inl err \<Rightarrow> Inl err
      | Inr bundle \<Rightarrow>
          (case (r_system r, e_SourceInfo entry) of
             (Some system, Some si) \<Rightarrow>
               (if Virtual (si_Catalog si) then Inr bundle
                else case system entry of
                       Inl err \<Rightarrow> Inl (SystemConstraints err)
                     | Inr cs \<Rightarrow> Inr (bundle\<lparr>bv_constraints := bv_constraints bundle @ cs\<rparr>))
           | _ \<Rightarrow> Inr bundle))"

subsection \<open>getBundleVariables\<close>

text \<open>
  \<open>g_heap\<close> holds the bundle variables, \<open>g_visited\<close> maps the address of an entry to that of its
  variable, \<open>g_variables\<close> is the map of all variables found, by identifier, and the stack has its top
  at the end, as in the code.
\<close>

record 'v gb_state =
  g_heap :: "BundleVar list"
  g_visited :: "(nat \<times> nat) list"
  g_stack :: "'v Entry list"
  g_variables :: "(ident \<times> nat) list"
  g_errs :: "resolver_error list"

text \<open>The filter for all sources that have a candidate\<close>

fun sourcePredicate ::
    "'v Entry list \<Rightarrow> OperatorSourceInfo list \<Rightarrow> ('v, 'p) Predicate \<Rightarrow> ('v, 'p) Predicate option" where
  "sourcePredicate [] sources p = Some p"
| "sourcePredicate (b # bs) sources p =
     (case e_SourceInfo b of
        None \<Rightarrow> None
      | Some si \<Rightarrow>
          (if si \<in> set sources then sourcePredicate bs sources p
           else if Virtual (si_Catalog si)
           then sourcePredicate bs (si # sources)
                  (orPredicate [p, andPredicate [csvNamePredicate (e_Name b), catalogPredicate (si_Catalog si)]])
           else sourcePredicate bs (si # sources)
                  (orPredicate [p, andPredicate [pkgPredicate (si_Package si), channelPredicate (si_Channel si),
                     catalogPredicate (si_Catalog si)]])))"

text \<open>The loop over the bundles that satisfy one dependency; the second result is \<^verbatim>\<open>bundleDependencies\<close>.\<close>

fun add_candidates ::
    "('v, 'p) Resolver \<Rightarrow> 'v Entry list \<Rightarrow> 'v gb_state \<Rightarrow> ident list \<Rightarrow> 'v gb_state \<times> ident list" where
  "add_candidates r [] st deps = (st, deps)"
| "add_candidates r (b # bs) st deps =
     (case newBundleVariableFromEntry r b of
        Inl err \<Rightarrow> add_candidates r bs (st\<lparr>g_errs := g_errs st @ [err]\<rparr>) deps
      | Inr i \<Rightarrow>
          add_candidates r bs
            (st\<lparr>g_heap := g_heap st @ [i],
                g_variables := AList.update (bv_identifier i) (length (g_heap st)) (g_variables st),
                g_stack := g_stack st @ [b]\<rparr>)
            (deps @ [bv_identifier i]))"

text \<open>The candidates for a dependency predicate, in order\<close>

definition dependency_bundles ::
    "('v, 'p) Resolver \<Rightarrow> 'v finder \<Rightarrow> string \<Rightarrow> 'v Entry \<Rightarrow> ('v, 'p) Predicate \<Rightarrow> resolver_error + 'v Entry list" where
  "dependency_bundles r F preferredNamespace bundle d =
     (let L = r_libs r in
      case (Option.bind (f_Find L F [d]) (\<lambda>bs. sourcePredicate bs [] (booleanPredicate False)),
            e_SourceInfo bundle) of
        (Some source, Some si) \<Rightarrow>
          (case f_FindPreferred L F (si_Catalog si) preferredNamespace [source] of
             None \<Rightarrow> Inl Panic
           | Some found \<Rightarrow>
               (case sortBundles found of
                  Inl err \<Rightarrow> Inl err
                | Inr sortedBundles \<Rightarrow> (case f_Filter L sortedBundles [d] of None \<Rightarrow> Inl Panic | Some bs \<Rightarrow> Inr bs)))
      | _ \<Rightarrow> Inl Panic)"

fun add_dependencies ::
    "('v, 'p) Resolver \<Rightarrow> 'v finder \<Rightarrow> string \<Rightarrow> 'v Entry \<Rightarrow> nat \<Rightarrow> ('v, 'p) Predicate list \<Rightarrow> 'v gb_state \<Rightarrow>
     resolver_error + 'v gb_state" where
  "add_dependencies r F ns bundle a [] st = Inr st"
| "add_dependencies r F ns bundle a (d # ds) st =
     (case dependency_bundles r F ns bundle d of
        Inl err \<Rightarrow>
          (if err = Panic then Inl Panic
           else add_dependencies r F ns bundle a ds (st\<lparr>g_errs := g_errs st @ [err]\<rparr>))
      | Inr bs \<Rightarrow>
          (let (st, deps) = add_candidates r bs st [];
               c = prettyConstraint (dependency deps)
                     (''bundle '' @ e_Name bundle @ '' requires an operator '' @ Predicate_String (r_libs r) d)
           in add_dependencies r F ns bundle a ds
                (st\<lparr>g_heap := (g_heap st)[a := AddConstraint (g_heap st ! a) c]\<rparr>)))"

text \<open>One iteration of the loop over the stack\<close>

definition bundle_step ::
    "('v, 'p) Resolver \<Rightarrow> 'v finder \<Rightarrow> string \<Rightarrow> 'v gb_state \<Rightarrow> resolver_error + 'v gb_state" where
  "bundle_step r F ns st =
     (let bundle = last (g_stack st); st = st\<lparr>g_stack := butlast (g_stack st)\<rparr> in
      case map_of (g_visited st) (e_addr bundle) of
        Some b \<Rightarrow>
          Inr (st\<lparr>g_variables := AList.update (bv_identifier (g_heap st ! b)) b (g_variables st)\<rparr>)
      | None \<Rightarrow>
          (case newBundleVariableFromEntry r bundle of
             Inl err \<Rightarrow> Inr (st\<lparr>g_errs := g_errs st @ [err]\<rparr>)
           | Inr bv \<Rightarrow>
               (let a = length (g_heap st);
                    st = st\<lparr>g_heap := g_heap st @ [bv], g_visited := AList.update (e_addr bundle) a (g_visited st)\<rparr>
                in
                case convertDependencyProperties (r_libs r) (e_Properties bundle) of
                  Inl err \<Rightarrow> Inr (st\<lparr>g_errs := g_errs st @ [Conversion err]\<rparr>)
                | Inr ds \<Rightarrow>
                    map_sum id (\<lambda>st. st\<lparr>g_variables :=
                        AList.update (bv_identifier (g_heap st ! a)) a (g_variables st)\<rparr>)
                      (add_dependencies r F ns bundle a ds st))))"

subsection \<open>The entries a finder reaches\<close>

definition pool :: "'v finder \<Rightarrow> 'v Entry set" where
  "pool F = (\<Union>(k, a) \<in> set (f_map F). set (hdr_entries (f_headers F ! a)))"

lemma finite_pool [simp]: "finite (pool F)"
  by (auto simp: pool_def)

lemma Filter_subset: "Filter L es ps n = Some (fs, n') \<Longrightarrow> set fs \<subseteq> set es"
proof (induction es arbitrary: n fs n')
  case (Cons e es)
  then show ?case by (fastforce split: option.splits prod.splits if_splits)
qed simp

lemma find_all_subset:
  "find_all L hs ps n = Some (es, n') \<Longrightarrow> set es \<subseteq> (\<Union>h \<in> set hs. set (hdr_entries h))"
proof (induction hs arbitrary: n es n')
  case (Cons h hs)
  then obtain es1 n1 es2 n2 where *: "hdr_Find L h ps n = Some (es1, n1)" "find_all L hs ps n1 = Some (es2, n2)"
      "es = es1 @ es2" by (auto split: option.splits)
  have "set es1 \<subseteq> set (hdr_entries h)"
    using *(1) by (auto simp: hdr_Find_def hdr_entries_def split: option.splits dest: Filter_subset)
  then show ?case using Cons.IH [OF *(2)] *(3) by auto
qed simp

lemma FindPreferred_pool:
  assumes "FindPreferred L (f_headers F) (f_map F) k ns ps n = Some (es, n')" shows "set es \<subseteq> pool F"
proof -
  obtain k' where "find_all L (sorted_snapshots (f_headers F) (f_map F) k' ns) ps n = Some (es, n')"
    using assms by (simp add: FindPreferred_def Let_def)
  then show ?thesis using find_all_subset by (fastforce simp: sorted_snapshots_def pool_def)
qed

lemma f_FindPreferred_pool: "f_FindPreferred L F k ns ps = Some es \<Longrightarrow> set es \<subseteq> pool F"
  by (auto simp: f_FindPreferred_def dest: FindPreferred_pool)

lemma f_Filter_subset: "f_Filter L es ps = Some fs \<Longrightarrow> set fs \<subseteq> set es"
  by (auto simp: f_Filter_def dest: Filter_subset)

lemma dependency_bundles_pool: "dependency_bundles r F ns bundle d = Inr bs \<Longrightarrow> set bs \<subseteq> pool F"
  by (auto simp: dependency_bundles_def Let_def split: option.splits sum.splits prod.splits
      dest!: f_Filter_subset sortBundles_subset f_FindPreferred_pool)

subsection \<open>The loop over the stack\<close>

lemma add_candidates_frame:
  "add_candidates r bs st deps = (st', deps') \<Longrightarrow>
     g_visited st' = g_visited st \<and> set (g_stack st') \<subseteq> set (g_stack st) \<union> set bs"
proof (induction bs arbitrary: st deps)
  case (Cons b bs)
  then show ?case by (fastforce split: sum.splits)
qed simp

lemma add_dependencies_frame:
  "add_dependencies r F ns bundle a ds st = Inr st' \<Longrightarrow>
     g_visited st' = g_visited st \<and> set (g_stack st') \<subseteq> set (g_stack st) \<union> pool F"
proof (induction ds arbitrary: st)
  case (Cons d ds)
  show ?case
  proof (cases "dependency_bundles r F ns bundle d")
    case (Inl err)
    then have "add_dependencies r F ns bundle a ds (st\<lparr>g_errs := g_errs st @ [err]\<rparr>) = Inr st'"
      using Cons.prems by (simp split: if_splits)
    from Cons.IH [OF this] show ?thesis by simp
  next
    case (Inr bs)
    obtain st1 deps where c: "add_candidates r bs st [] = (st1, deps)" by force
    let ?c = "prettyConstraint (dependency deps)
        (''bundle '' @ e_Name bundle @ '' requires an operator '' @ Predicate_String (r_libs r) d)"
    have "add_dependencies r F ns bundle a ds (st1\<lparr>g_heap := (g_heap st1)[a := AddConstraint (g_heap st1 ! a) ?c]\<rparr>) = Inr st'"
      using Cons.prems Inr c by simp
    from Cons.IH [OF this] add_candidates_frame [OF c] dependency_bundles_pool [OF Inr] show ?thesis by auto
  qed
qed simp

text \<open>
  The loop ends: an iteration marks an entry as visited that was not, or it takes one off the stack and
  puts none on it.
\<close>

definition unvisited :: "'v finder \<Rightarrow> 'v gb_state \<Rightarrow> nat set" where
  "unvisited F st = e_addr ` (pool F \<union> set (g_stack st)) - fst ` set (g_visited st)"

lemma finite_unvisited [simp]: "finite (unvisited F st)"
  by (simp add: unvisited_def)

lemma bundle_step_decreases:
  assumes "g_stack st \<noteq> []" and "bundle_step r F ns st = Inr st'"
  shows "unvisited F st' \<subset> unvisited F st \<or>
    unvisited F st' \<subseteq> unvisited F st \<and> length (g_stack st') < length (g_stack st)"
proof (cases "map_of (g_visited st) (e_addr (last (g_stack st))) \<noteq> None \<or>
    (\<exists>err. newBundleVariableFromEntry r (last (g_stack st)) = Inl err)")
  case True
  then have "g_stack st' = butlast (g_stack st)" "g_visited st' = g_visited st"
    using assms(2) by (auto simp: bundle_step_def Let_def split: option.splits)
  moreover have "set (butlast (g_stack st)) \<subseteq> set (g_stack st)" by (meson in_set_butlastD subsetI)
  ultimately show ?thesis using assms(1) by (auto simp: unvisited_def)
next
  case False
  let ?b = "last (g_stack st)"
  obtain bv where bv: "newBundleVariableFromEntry r ?b = Inr bv" "map_of (g_visited st) (e_addr ?b) = None"
    using False by (cases "newBundleVariableFromEntry r ?b") auto
  have "g_visited st' = AList.update (e_addr ?b) (length (g_heap st)) (g_visited st) \<and>
      set (g_stack st') \<subseteq> set (butlast (g_stack st)) \<union> pool F"
    using assms(2) bv by (auto simp: bundle_step_def Let_def map_sum_def split: sum.splits
        dest!: add_dependencies_frame)
  moreover have "set (butlast (g_stack st)) \<subseteq> set (g_stack st)" by (meson in_set_butlastD subsetI)
  moreover have "e_addr ?b \<in> unvisited F st"
    using assms(1) bv(2) by (auto simp: unvisited_def map_of_eq_None_iff)
  ultimately have "unvisited F st' \<subset> unvisited F st"
    by (auto simp: unvisited_def alist_simps)
  then show ?thesis by simp
qed

function bundle_loop ::
    "('v, 'p) Resolver \<Rightarrow> 'v finder \<Rightarrow> string \<Rightarrow> 'v gb_state \<Rightarrow> resolver_error + 'v gb_state" where
  "bundle_loop r F ns st =
     (if length (g_stack st) = 0 then Inr st
      else case bundle_step r F ns st of
             Inl err \<Rightarrow> Inl err
           | Inr st' \<Rightarrow> bundle_loop r F ns st')"
  by pat_completeness auto
termination
proof (relation "inv_image (finite_psubset <*lex*> less_than)
    (\<lambda>(r, F, ns, st). (unvisited F st, length (g_stack st)))")
  fix r :: "('v, 'p) Resolver" and F :: "'v finder" and ns and st st' :: "'v gb_state"
  assume "length (g_stack st) \<noteq> 0" and "bundle_step r F ns st = Inr st'"
  then show "((r, F, ns, st'), r, F, ns, st) \<in> inv_image (finite_psubset <*lex*> less_than)
      (\<lambda>(r, F, ns, st). (unvisited F st, length (g_stack st)))"
    using bundle_step_decreases [of st r F ns st'] by auto
qed auto

declare bundle_loop.simps [simp del]

text \<open>
  The pointers that outlive a call: the heap and the visited entries. \<open>getBundleVariables\<close> gives the
  identifiers of the initial bundles and the variables, or the errors; the code changes the map of
  visited entries in both cases.
\<close>

record world =
  w_heap :: "BundleVar list"
  w_visited :: "(nat \<times> nat) list"

definition getBundleVariables ::
    "('v, 'p) Resolver \<Rightarrow> 'v finder \<Rightarrow> string \<Rightarrow> 'v Entry list \<Rightarrow> world \<Rightarrow>
     (resolver_error + ident list \<times> (ident \<times> nat) list) \<times> world" where
  "getBundleVariables r F preferredNamespace bundleStack w =
     (case bundle_loop r F preferredNamespace
             \<lparr>g_heap = w_heap w, g_visited = w_visited w, g_stack = bundleStack, g_variables = [], g_errs = []\<rparr> of
        Inl err \<Rightarrow> (Inl err, w)
      | Inr st \<Rightarrow>
          (if length (g_errs st) > 0 then Inl (Aggregate (g_errs st))
           else if list_all (\<lambda>o'. map_of (g_visited st) (e_addr o') \<noteq> None) bundleStack
           then Inr (remdups (map (\<lambda>o'. bv_identifier (g_heap st ! the (map_of (g_visited st) (e_addr o')))) bundleStack),
                     g_variables st)
           else Inl Panic,
           \<lparr>w_heap = g_heap st, w_visited = g_visited st\<rparr>))"

end
