(* ===== verification/Encoding.thy ===== *)
theory Encoding
  imports Lit_Mapping
begin

text \<open>
  The two passes of \<^verbatim>\<open>newLitMapping\<close>: the first gives the variables of the input distinct fresh
  literals or reports the first duplicate identifier; after the second, a valuation of the circuit
  makes the literals of all applied constraints true exactly when the identifiers it selects are a
  solution. Every selection is made by some valuation.
\<close>

lemma update_fresh: "k \<notin> fst ` set al \<Longrightarrow> AList.update k v al = al @ [(k, v)]"
  by (induction al) auto

subsection \<open>The first pass\<close>

definition assigned :: "solver_variable \<Rightarrow> lit \<Rightarrow> 'c \<Rightarrow> 'c litMapping \<Rightarrow> 'c litMapping" where
  "assigned v im c d = d\<lparr>circ := c, lits := AList.update (Identifier v) im (lits d),
     variables := AList.update im v (variables d)\<rparr>"

lemma assign_lits_Cons:
  assumes "C_Lit G (circ d) = (im, c)"
  shows "assign_lits G (v # vs) d =
    (if map_of (lits d) (Identifier v) = None then assign_lits G vs (assigned v im c d)
     else Inl (DuplicateIdentifier (Identifier v)))"
  using assms by (simp add: Let_def assigned_def split: option.splits)

lemma assigned_simps [simp]:
  "circ (assigned v im c d) = c" "inorder (assigned v im c d) = inorder d"
  "constraints (assigned v im c d) = constraints d" "errs (assigned v im c d) = errs d"
  "map_of (lits (assigned v im c d)) = (map_of (lits d))(Identifier v \<mapsto> im)"
  "map_of (variables (assigned v im c d)) = (map_of (variables d))(im \<mapsto> v)"
  "fst ` set (variables (assigned v im c d)) = insert im (fst ` set (variables d))"
  by (simp_all add: assigned_def alist_simps)

lemma assigned_dom: "dom (map_of (lits (assigned v im c d))) = insert (Identifier v) (dom (map_of (lits d)))"
  by simp

lemma assign_lits_frame:
  "assign_lits G vs d = Inr d' \<Longrightarrow>
     inorder d' = inorder d \<and> constraints d' = constraints d \<and> errs d' = errs d"
proof (induction vs arbitrary: d)
  case (Cons v vs)
  then show ?case by (auto simp: Let_def split: prod.splits option.splits)
qed simp

lemma assign_lits_dom:
  "assign_lits G vs d = Inr d' \<Longrightarrow>
     dom (map_of (lits d')) = dom (map_of (lits d)) \<union> Identifier ` set vs \<and>
     distinct (map Identifier vs) \<and> dom (map_of (lits d)) \<inter> Identifier ` set vs = {}"
proof (induction vs arbitrary: d)
  case (Cons v vs)
  obtain im c where c: "C_Lit G (circ d) = (im, c)" by force
  let ?d = "assigned v im c d"
  have new: "map_of (lits d) (Identifier v) = None" and rest: "assign_lits G vs ?d = Inr d'"
    using Cons.prems unfolding assign_lits_Cons [OF c] by (auto split: if_splits)
  then show ?case using Cons.IH [OF rest, unfolded assigned_dom] by auto
qed simp

lemma assign_lits_error:
  "assign_lits G vs d = Inl e \<longleftrightarrow>
     (\<exists>us v ws. vs = us @ v # ws \<and> e = DuplicateIdentifier (Identifier v) \<and>
        Identifier v \<in> dom (map_of (lits d)) \<union> Identifier ` set us \<and>
        distinct (map Identifier us) \<and> dom (map_of (lits d)) \<inter> Identifier ` set us = {})"
  (is "_ \<longleftrightarrow> (\<exists>us v ws. ?P d vs us v ws)")
proof (induction vs arbitrary: d)
  case Nil
  then show ?case by simp
next
  case (Cons v vs)
  obtain im c where c: "C_Lit G (circ d) = (im, c)" by force
  let ?d = "assigned v im c d"
  show ?case
  proof (cases "map_of (lits d) (Identifier v)")
    case None
    have "assign_lits G (v # vs) d = assign_lits G vs ?d"
      unfolding assign_lits_Cons [OF c] using None by simp
    also have "\<dots> = Inl e \<longleftrightarrow> (\<exists>us w ws. ?P ?d vs us w ws)" by (rule Cons.IH)
    also have "\<dots> \<longleftrightarrow> (\<exists>us w ws. ?P d (v # vs) us w ws)"
    proof (intro iffI; elim exE)
      fix us w ws assume "?P ?d vs us w ws"
      then have "?P d (v # vs) (v # us) w ws" using None unfolding assigned_dom by auto
      then show "\<exists>us w ws. ?P d (v # vs) us w ws" by blast
    next
      fix us w ws assume P: "?P d (v # vs) us w ws"
      then obtain us' where us': "us = v # us'" "vs = us' @ w # ws"
        using None by (cases us) auto
      then have "?P ?d vs us' w ws" using P unfolding assigned_dom by auto
      then show "\<exists>us w ws. ?P ?d vs us w ws" by blast
    qed
    finally show ?thesis .
  next
    case (Some m)
    then have "assign_lits G (v # vs) d = Inl (DuplicateIdentifier (Identifier v))"
      unfolding assign_lits_Cons [OF c] by simp
    moreover have "us = [] \<and> w = v" if "?P d (v # vs) us w ws" for us w ws
      using that Some by (cases us) auto
    ultimately show ?thesis using Some by fastforce
  qed
qed

context logic_C
begin

text \<open>Every choice of the identifiers seen so far is made by a valuation of the circuit.\<close>

definition free :: "'c litMapping \<Rightarrow> bool" where
  "free d \<longleftrightarrow> (\<forall>S. \<exists>v. proper v \<and> gates (circ d) v \<and> selected d v = S \<inter> dom (map_of (lits d)))"

definition backlinks :: "'c litMapping \<Rightarrow> bool" where
  "backlinks d \<longleftrightarrow>
     fst ` set (variables d) \<subseteq> wires (circ d) \<and>
     (\<forall>i m. map_of (lits d) i = Some m \<longrightarrow>
        (\<exists>v. map_of (variables d) m = Some v \<and> Identifier v = i))"

lemma freeD:
  "free d \<Longrightarrow> \<exists>v. proper v \<and> gates (circ d) v \<and> selected d v = S \<inter> dom (map_of (lits d))"
  by (simp add: free_def)

lemma free_extends:
  assumes "free d" and ok: "lm_ok d" and ext: "extends wires gates (circ d) (circ d')"
    and "lits d' = lits d"
  shows "free d'"
  unfolding free_def
proof
  fix S
  obtain v where v: "proper v" "gates (circ d) v" "selected d v = S \<inter> dom (map_of (lits d))"
    using freeD [OF assms(1), of S] by blast
  obtain v' where v': "proper v'" "gates (circ d') v'" "\<forall>m \<in> wires (circ d). v' m = v m"
    using ext v unfolding extends_def by blast
  have "selected d' v' = selected d v"
    using v'(3) ok assms(4) by (auto simp: selected_def lm_ok_def)
  then show "\<exists>v. proper v \<and> gates (circ d') v \<and> selected d' v = S \<inter> dom (map_of (lits d'))"
    using v v' assms(4) by (intro exI [of _ v']) simp
qed

lemma assign_step:
  assumes c: "C_Lit G (circ d) = (im, c)" and new: "map_of (lits d) (Identifier v) = None"
    and d': "d' = assigned v im c d"
    and ok: "lm_ok d" and free: "free d" and bl: "backlinks d"
  shows "lm_ok d'" and "free d'" and "backlinks d'"
proof -
  note fresh = Lit_fresh [OF c]
  show "lm_ok d'" using ok fresh by (auto simp: lm_ok_def d')
  have "im \<notin> fst ` set (variables d)" using bl fresh by (auto simp: backlinks_def)
  then show "backlinks d'"
    using bl fresh ok unfolding backlinks_def d' lm_ok_def assigned_simps
    by (auto 0 3)
  show "free d'"
    unfolding free_def
  proof
    fix S
    obtain u where u: "proper u" "gates (circ d) u" "selected d u = S \<inter> dom (map_of (lits d))"
      using freeD [OF free, of S] by blast
    obtain u' where u': "proper u'" "gates c u'" "u' im = (Identifier v \<in> S)"
        "\<forall>j \<in> wires (circ d). u' j = u j"
      using Lit_free [OF c u(1,2)] by blast
    have "i \<in> selected d' u' \<longleftrightarrow> i \<in> S \<inter> dom (map_of (lits d'))" for i
    proof (cases "i = Identifier v")
      case True
      then show ?thesis using u'(3) by (simp add: selected_def d')
    next
      case False
      then have "i \<in> selected d' u' \<longleftrightarrow> i \<in> selected d u"
        using u'(4) ok by (auto simp: selected_def d' lm_ok_def)
      then show ?thesis using u(3) False by (simp add: d')
    qed
    then show "\<exists>v. proper v \<and> gates (circ d') v \<and> selected d' v = S \<inter> dom (map_of (lits d'))"
      using u' d' by (intro exI [of _ u']) auto
  qed
qed

lemma assign_lits_ok:
  assumes "assign_lits G vs d = Inr d'" and "lm_ok d" and "free d" and "backlinks d"
  shows "lm_ok d' \<and> free d' \<and> backlinks d'"
  using assms
proof (induction vs arbitrary: d)
  case Nil
  then show ?case by simp
next
  case (Cons v vs)
  obtain im c where c: "C_Lit G (circ d) = (im, c)" by force
  have new: "map_of (lits d) (Identifier v) = None"
    and rest: "assign_lits G vs (assigned v im c d) = Inr d'"
    using Cons.prems(1) unfolding assign_lits_Cons [OF c] by (auto split: if_splits)
  show ?case using Cons.IH [OF rest] assign_step [OF c new refl] Cons.prems(2-4) by blast
qed

lemma lits_inj:
  assumes "free d" and "map_of (lits d) i = Some m" and "map_of (lits d) j = Some m"
  shows "i = j"
proof -
  obtain v where v: "selected d v = {i} \<inter> dom (map_of (lits d))"
    using freeD [OF assms(1), of "{i}"] by blast
  have "i \<in> selected d v" using v assms(2) by (simp add: domI)
  then have "v m" using assms(2) by (simp add: selected_def)
  then have "j \<in> selected d v" using assms(3) by (auto simp: selected_def)
  then show ?thesis using v by auto
qed

end

subsection \<open>The second pass\<close>

definition lm_keep :: "'c litMapping \<Rightarrow> 'c litMapping \<Rightarrow> ident set \<Rightarrow> bool" where
  "lm_keep d d' ids \<longleftrightarrow> lits d' = lits d \<and> variables d' = variables d \<and> inorder d' = inorder d \<and>
     (\<exists>es. errs d' = errs d @ es \<and> (es = [] \<longleftrightarrow> ids \<subseteq> dom (map_of (lits d))))"

lemma lm_keep_trans: "lm_keep d d1 A \<Longrightarrow> lm_keep d1 d2 B \<Longrightarrow> lm_keep d d2 (A \<union> B)"
  by (auto simp: lm_keep_def)

lemma lm_frame_keep: "lm_frame d d' A \<Longrightarrow> lm_keep d d' A"
  by (simp add: lm_frame_def lm_keep_def)

lemma lm_keep_constraints [simp]: "lm_keep d (d'\<lparr>constraints := k\<rparr>) A = lm_keep d d' A"
  by (simp add: lm_keep_def)

lemma lm_keep_errs: "lm_keep d d' A \<Longrightarrow> errs d' = [] \<Longrightarrow> errs d = [] \<and> A \<subseteq> dom (map_of (lits d))"
  by (auto simp: lm_keep_def)

lemma apply_constraints_keep:
  "Identifier x \<in> dom (map_of (lits d)) \<Longrightarrow>
   lm_keep d (apply_constraints G x cs d) (\<Union>c \<in> set cs. refs c)"
proof (induction cs arbitrary: d)
  case Nil
  then show ?case by (simp add: lm_keep_def)
next
  case (Cons c cs)
  obtain m d1 where d1: "constraint_apply G c d (Identifier x) = (m, d1)" by force
  have k1: "lm_keep d d1 (refs c)"
    using constraint_apply_frame [OF d1 Cons.prems] by (rule lm_frame_keep)
  let ?d = "if m = LitNull then d1 else
    d1\<lparr>constraints := AList.update m \<lparr>AC_Variable = x, AC_Constraint = c\<rparr> (constraints d1)\<rparr>"
  have k: "lm_keep d ?d (refs c)" using k1 by simp
  then have "Identifier x \<in> dom (map_of (lits ?d))" using Cons.prems by (simp add: lm_keep_def)
  from lm_keep_trans [OF k Cons.IH [OF this]] show ?case using d1 by (simp split: if_splits)
qed

lemma apply_variables_keep:
  "Identifier ` set vs \<subseteq> dom (map_of (lits d)) \<Longrightarrow>
   lm_keep d (apply_variables G vs d) (references vs)"
proof (induction vs arbitrary: d)
  case Nil
  then show ?case by (simp add: lm_keep_def references_def)
next
  case (Cons x vs)
  let ?d = "apply_constraints G x (Constraints x) d"
  have k: "lm_keep d ?d (\<Union>c \<in> set (Constraints x). refs c)"
    using Cons.prems by (intro apply_constraints_keep) simp
  then have "Identifier ` set vs \<subseteq> dom (map_of (lits ?d))"
    using Cons.prems by (simp add: lm_keep_def)
  from lm_keep_trans [OF k Cons.IH [OF this]] show ?case by (simp add: references_def)
qed

lemma constraint_apply_anchor:
  "constraint_anchor c \<Longrightarrow> constraint_apply G c d i = LitOf d i"
  by (induction c) auto

text \<open>The literal of a variable with an anchor constraint is recorded for it.\<close>

lemma apply_constraints_keys:
  assumes "map_of (lits d) (Identifier x) = Some m" and "m \<noteq> LitNull"
  shows "fst ` set (constraints d) \<subseteq> fst ` set (constraints (apply_constraints G x cs d)) \<and>
    (list_ex constraint_anchor cs \<longrightarrow> m \<in> fst ` set (constraints (apply_constraints G x cs d)))"
  using assms
proof (induction cs arbitrary: d)
  case (Cons c cs)
  obtain n d1 where d1: "constraint_apply G c d (Identifier x) = (n, d1)" by force
  define d2 where "d2 = (if n = LitNull then d1 else
    d1\<lparr>constraints := AList.update n \<lparr>AC_Variable = x, AC_Constraint = c\<rparr> (constraints d1)\<rparr>)"
  have frame: "lits d1 = lits d" "constraints d1 = constraints d"
    using constraint_apply_frame [OF d1] Cons.prems(1) by (auto simp: lm_frame_def)
  have "fst ` set (constraints d) \<subseteq> fst ` set (constraints d2)"
    using frame(2) by (auto simp: d2_def alist_simps)
  moreover have "m \<in> fst ` set (constraints d2)" if "constraint_anchor c"
    using that d1 Cons.prems by (simp add: constraint_apply_anchor d2_def alist_simps)
  moreover have "map_of (lits d2) (Identifier x) = Some m" using Cons.prems(1) frame(1) by (simp add: d2_def)
  moreover have "apply_constraints G x (c # cs) d = apply_constraints G x cs d2"
    using d1 by (simp add: d2_def)
  ultimately show ?case using Cons.IH [of d2] Cons.prems(2) by auto
qed simp

lemma apply_variables_keys:
  assumes "Identifier ` set vs \<subseteq> dom (map_of (lits d))" and "LitNull \<notin> ran (map_of (lits d))"
  shows "fst ` set (constraints d) \<subseteq> fst ` set (constraints (apply_variables G vs d)) \<and>
    (\<forall>x \<in> set vs. list_ex constraint_anchor (Constraints x) \<longrightarrow>
       the (map_of (lits d) (Identifier x)) \<in> fst ` set (constraints (apply_variables G vs d)))"
  using assms
proof (induction vs arbitrary: d)
  case (Cons x vs)
  let ?d = "apply_constraints G x (Constraints x) d"
  obtain m where m: "map_of (lits d) (Identifier x) = Some m" using Cons.prems(1) by auto
  then have "m \<noteq> LitNull" using Cons.prems(2) by (auto simp: ran_def)
  note keys = apply_constraints_keys [OF m this, of G "Constraints x"]
  have "lits ?d = lits d"
    using apply_constraints_keep [of x d G "Constraints x"] m by (auto simp: lm_keep_def)
  then have IH: "fst ` set (constraints ?d) \<subseteq> fst ` set (constraints (apply_variables G vs ?d))"
      "\<forall>x \<in> set vs. list_ex constraint_anchor (Constraints x) \<longrightarrow>
         the (map_of (lits d) (Identifier x)) \<in> fst ` set (constraints (apply_variables G vs ?d))"
    using Cons.IH [of ?d] Cons.prems by simp_all
  have "list_ex constraint_anchor (Constraints x) \<longrightarrow>
      m \<in> fst ` set (constraints (apply_variables G vs ?d))"
    using keys IH(1) by blast
  then show ?case using subset_trans [OF conjunct1 [OF keys] IH(1)] IH(2) m
    unfolding apply_variables.simps by simp
qed simp

context logic_C
begin

text \<open>
  Every recorded literal encodes the constraint recorded with it, and every constraint applied so
  far is encoded by a recorded literal, unless it is one that always holds.
\<close>

definition enc_inv :: "'c litMapping \<Rightarrow> (solver_variable \<times> solver_constraint) set \<Rightarrow> bool" where
  "enc_inv d P \<longleftrightarrow>
     (\<forall>(m, a) \<in> set (constraints d). (AC_Variable a, AC_Constraint a) \<in> P \<and>
        encodes d m (Identifier (AC_Variable a)) (AC_Constraint a)) \<and>
     (\<forall>(x, c) \<in> P. (\<forall>S. holds S (Identifier x) c) \<or>
        (\<exists>m \<in> fst ` set (constraints d). encodes d m (Identifier x) c))"

lemma enc_inv_extends:
  assumes "enc_inv d P" and "extends wires gates (circ d) (circ d')" and "lits d' = lits d"
    and "constraints d' = constraints d"
  shows "enc_inv d' P"
  using assms(1) encodes_extends [OF _ assms(2,3)] unfolding enc_inv_def assms(4) by fast

lemma encodes_constraints [simp]:
  "encodes (d\<lparr>constraints := k\<rparr>) m i c = encodes d m i c"
  by (simp add: encodes_def)

lemma enc_inv_update:
  assumes "enc_inv d P" and enc: "encodes d m (Identifier x) c"
  shows "enc_inv (d\<lparr>constraints := AList.update m \<lparr>AC_Variable = x, AC_Constraint = c\<rparr> (constraints d)\<rparr>)
    (insert (x, c) P)"
proof -
  let ?a = "\<lparr>AC_Variable = x, AC_Constraint = c\<rparr>"
  let ?d = "d\<lparr>constraints := AList.update m ?a (constraints d)\<rparr>"
  have entries: "e \<in> insert (m, ?a) (set (constraints d))" if "e \<in> set (constraints ?d)" for e
    using that update_entries [of m ?a "constraints d"] by auto
  have keys: "fst ` set (constraints ?d) = insert m (fst ` set (constraints d))"
    by (simp add: alist_simps)
  have "(AC_Variable b, AC_Constraint b) \<in> insert (x, c) P \<and>
      encodes ?d n (Identifier (AC_Variable b)) (AC_Constraint b)"
    if "(n, b) \<in> set (constraints ?d)" for n b
    using entries [OF that] assms by (auto simp: enc_inv_def)
  moreover have "(\<forall>S. holds S (Identifier y) k) \<or>
      (\<exists>n \<in> fst ` set (constraints ?d). encodes ?d n (Identifier y) k)"
    if yk: "(y, k) \<in> insert (x, c) P" for y k
  proof (cases "(y, k) = (x, c)")
    case True
    then show ?thesis using enc unfolding keys by simp
  next
    case False
    then have "(y, k) \<in> P" using yk by auto
    then have "(\<forall>S. holds S (Identifier y) k) \<or>
        (\<exists>n \<in> fst ` set (constraints d). encodes d n (Identifier y) k)"
      using assms(1) unfolding enc_inv_def by blast
    then show ?thesis unfolding keys by auto
  qed
  ultimately show ?thesis unfolding enc_inv_def by blast
qed

lemma apply_constraints_inv:
  assumes "lm_ok d" and "Identifier x \<in> dom (map_of (lits d))"
    and "(\<Union>c \<in> set cs. refs c) \<subseteq> dom (map_of (lits d))" and "enc_inv d P"
  shows "enc_inv (apply_constraints G x cs d) (P \<union> {x} \<times> set cs) \<and>
    extends wires gates (circ d) (circ (apply_constraints G x cs d))"
  using assms
proof (induction cs arbitrary: d P)
  case Nil
  then show ?case by simp
next
  case (Cons c cs)
  obtain s where s: "map_of (lits d) (Identifier x) = Some s" using Cons.prems(2) by blast
  obtain m d1 where d1: "constraint_apply G c d (Identifier x) = (m, d1)" by force
  note frame = constraint_apply_frame [OF d1 Cons.prems(2), unfolded lm_frame_def]
  have "refs c \<subseteq> dom (map_of (lits d))" using Cons.prems(3) by simp
  note val = constraint_apply_value [OF d1 Cons.prems(1) s this]
  define d2 where "d2 = (if m = LitNull then d1 else
    d1\<lparr>constraints := AList.update m \<lparr>AC_Variable = x, AC_Constraint = c\<rparr> (constraints d1)\<rparr>)"
  have inv1: "enc_inv d1 P" by (rule enc_inv_extends [OF Cons.prems(4)]) (use val frame in auto)
  have inv2: "enc_inv d2 (insert (x, c) P)"
  proof (cases "m = LitNull")
    case True
    then show ?thesis using inv1 val unfolding d2_def enc_inv_def by auto
  next
    case False
    then show ?thesis using enc_inv_update [OF inv1] val unfolding d2_def by simp
  qed
  have lits2: "lits d2 = lits d" "circ d2 = circ d1" using frame by (simp_all add: d2_def)
  have ok2: "lm_ok d2" by (rule lm_ok_extends [OF Cons.prems(1)]) (use val lits2 in auto)
  have IH: "enc_inv (apply_constraints G x cs d2) (insert (x, c) P \<union> {x} \<times> set cs) \<and>
      extends wires gates (circ d2) (circ (apply_constraints G x cs d2))"
    by (rule Cons.IH [OF ok2 _ _ inv2]) (use Cons.prems lits2 in auto)
  have eq: "apply_constraints G x (c # cs) d = apply_constraints G x cs d2"
    using d1 by (simp add: d2_def)
  have P: "insert (x, c) P \<union> {x} \<times> set cs = P \<union> {x} \<times> set (c # cs)" by auto
  show ?case
    using IH extends_trans [OF conjunct1 [OF val]] lits2(2) unfolding eq P by simp
qed

lemma apply_variables_inv:
  assumes "lm_ok d" and "Identifier ` set vs \<subseteq> dom (map_of (lits d))"
    and "references vs \<subseteq> dom (map_of (lits d))" and "enc_inv d P"
  shows "enc_inv (apply_variables G vs d) (P \<union> (SIGMA x:set vs. set (Constraints x))) \<and>
    extends wires gates (circ d) (circ (apply_variables G vs d))"
  using assms
proof (induction vs arbitrary: d P)
  case Nil
  then show ?case by simp
next
  case (Cons x vs)
  let ?d = "apply_constraints G x (Constraints x) d"
  have x: "Identifier x \<in> dom (map_of (lits d))" using Cons.prems(2) by simp
  have keep: "lits ?d = lits d"
    using apply_constraints_keep [OF x, of G "Constraints x"] by (simp add: lm_keep_def)
  have "(\<Union>c \<in> set (Constraints x). refs c) \<subseteq> dom (map_of (lits d))"
    using Cons.prems(3) by (auto simp: references_def)
  note inv = apply_constraints_inv [OF Cons.prems(1) x this Cons.prems(4)]
  have "lm_ok ?d" by (rule lm_ok_extends [OF Cons.prems(1)]) (use inv keep in auto)
  then have IH: "enc_inv (apply_variables G vs ?d)
        ((P \<union> {x} \<times> set (Constraints x)) \<union> (SIGMA x:set vs. set (Constraints x))) \<and>
      extends wires gates (circ ?d) (circ (apply_variables G vs ?d))"
    by (rule Cons.IH) (use Cons.prems keep inv in \<open>auto simp: references_def\<close>)
  have P: "(P \<union> {x} \<times> set (Constraints x)) \<union> (SIGMA x:set vs. set (Constraints x)) =
      P \<union> (SIGMA x:set (x # vs). set (Constraints x))" by auto
  show ?case
    using IH extends_trans [OF conjunct2 [OF inv]] unfolding P apply_variables.simps by blast
qed

text \<open>What a literal mapping without errors provides.\<close>

definition lm_good :: "solver_variable list \<Rightarrow> 'c litMapping \<Rightarrow> bool" where
  "lm_good vs d \<longleftrightarrow> inorder d = vs \<and> distinct (map Identifier vs) \<and> errs d = [] \<and>
     dom (map_of (lits d)) = Identifier ` set vs \<and> references vs \<subseteq> Identifier ` set vs \<and>
     lm_ok d \<and> free d \<and>
     (\<forall>x \<in> set vs. \<exists>m. map_of (lits d) (Identifier x) = Some m \<and> map_of (variables d) m = Some x) \<and>
     snd ` set (lits d) \<subseteq> fst ` set (variables d) \<and> snd ` set (variables d) \<subseteq> set vs \<and>
     distinct (map fst (lits d)) \<and>
     (\<forall>x \<in> set vs. list_ex constraint_anchor (Constraints x) \<longrightarrow>
        the (map_of (lits d) (Identifier x)) \<in> fst ` set (constraints d)) \<and>
     enc_inv d (SIGMA x:set vs. set (Constraints x))"

lemma newLitMapping_parts:
  assumes "newLitMapping G vs = Inr d"
  obtains d1 where "assign_lits G vs \<lparr>inorder = vs, variables = [], lits = [], constraints = [],
      circ = NewCCap G (length vs), errs = []\<rparr> = Inr d1" "d = apply_variables G vs d1"
  using assms by (auto simp: newLitMapping_def split: sum.splits)

lemma initial_mapping:
  assumes "d = \<lparr>inorder = vs, variables = [], lits = [], constraints = [],
      circ = NewCCap G (length vs), errs = []\<rparr>"
  shows "lm_ok d \<and> free d \<and> backlinks d"
  using NewCCap_sat [of "length vs"]
  by (auto simp: assms lm_ok_def free_def backlinks_def selected_def)

lemma Identifier_unique:
  "distinct (map Identifier vs) \<Longrightarrow> x \<in> set vs \<Longrightarrow> y \<in> set vs \<Longrightarrow> Identifier x = Identifier y \<Longrightarrow> x = y"
  by (metis distinct_map inj_onD)

lemma assign_lits_distinct:
  "assign_lits G vs d = Inr d' \<Longrightarrow> distinct (map fst (lits d)) \<Longrightarrow> distinct (map fst (lits d'))"
proof (induction vs arbitrary: d)
  case (Cons x vs)
  obtain im c where c: "C_Lit G (circ d) = (im, c)" by force
  have "assign_lits G vs (assigned x im c d) = Inr d'"
    using Cons.prems(1) unfolding assign_lits_Cons [OF c] by (auto split: if_splits)
  from Cons.IH [OF this] show ?case using Cons.prems(2) by (simp add: assigned_def)
qed simp

lemma assign_lits_variables:
  assumes "assign_lits G vs d = Inr d'" and "snd ` set (variables d) \<subseteq> A"
    and "snd ` set (lits d) \<subseteq> fst ` set (variables d)"
  shows "snd ` set (variables d') \<subseteq> A \<union> set vs \<and> snd ` set (lits d') \<subseteq> fst ` set (variables d')"
  using assms
proof (induction vs arbitrary: d A)
  case (Cons x vs)
  obtain im c where c: "C_Lit G (circ d) = (im, c)" by force
  have rest: "assign_lits G vs (assigned x im c d) = Inr d'"
    using Cons.prems(1) unfolding assign_lits_Cons [OF c] by (auto split: if_splits)
  have "snd ` set (variables (assigned x im c d)) \<subseteq> insert x A"
    using values_update [of im x "variables d"] Cons.prems(2) by (auto simp: assigned_def)
  moreover have "snd ` set (lits (assigned x im c d)) \<subseteq> fst ` set (variables (assigned x im c d))"
    using values_update [of "Identifier x" im "lits d"] Cons.prems(3) unfolding assigned_simps
    by (auto simp: assigned_def)
  ultimately show ?case using Cons.IH [OF rest, of "insert x A"] by simp
qed simp

lemma newLitMapping_good:
  assumes new: "newLitMapping G vs = Inr d" and "errs d = []"
  shows "lm_good vs d"
proof -
  obtain d1 where d1: "assign_lits G vs \<lparr>inorder = vs, variables = [], lits = [], constraints = [],
      circ = NewCCap G (length vs), errs = []\<rparr> = Inr d1" and d: "d = apply_variables G vs d1"
    using newLitMapping_parts [OF new] by metis
  have ok1: "lm_ok d1" "free d1" "backlinks d1"
    using assign_lits_ok [OF d1] initial_mapping by auto
  note frame1 = assign_lits_frame [OF d1] and dom1 = assign_lits_dom [OF d1]
  have ids: "dom (map_of (lits d1)) = Identifier ` set vs" using dom1 by simp
  note keep = apply_variables_keep [of vs d1 G, folded d]
  have refs: "references vs \<subseteq> dom (map_of (lits d1))"
    using lm_keep_errs [OF keep] ids assms(2) by blast
  have "enc_inv d1 {}" using frame1 by (simp add: enc_inv_def)
  from apply_variables_inv [OF ok1(1) _ refs this, folded d]
  have inv: "enc_inv d (SIGMA x:set vs. set (Constraints x))" "extends wires gates (circ d1) (circ d)"
    using ids by simp_all
  have eq: "lits d = lits d1" "variables d = variables d1" "inorder d = vs"
    using keep ids frame1 by (simp_all add: lm_keep_def)
  have "lm_ok d" by (rule lm_ok_extends [OF ok1(1) inv(2)]) (simp_all add: eq)
  moreover have "free d" by (rule free_extends [OF ok1(2,1) inv(2)]) (simp add: eq)
  moreover have vars: "snd ` set (variables d1) \<subseteq> {} \<union> set vs \<and> snd ` set (lits d1) \<subseteq> fst ` set (variables d1)"
    by (rule assign_lits_variables [OF d1]) simp_all
  moreover have "\<exists>m. map_of (lits d) (Identifier x) = Some m \<and> map_of (variables d) m = Some x"
    if x: "x \<in> set vs" for x
  proof -
    obtain m where m: "map_of (lits d1) (Identifier x) = Some m" using x ids by blast
    obtain y where y: "map_of (variables d1) m = Some y" "Identifier y = Identifier x"
      using ok1(3) m unfolding backlinks_def by blast
    have "y \<in> set vs" using map_of_SomeD [OF y(1)] vars by force
    then have "y = x" using Identifier_unique [of vs y x] y(2) x dom1 by blast
    then show ?thesis using m y(1) eq by simp
  qed
  moreover have "LitNull \<notin> ran (map_of (lits d1))"
    using lm_ok_not_null [OF ok1(1)] by (auto simp: ran_def)
  ultimately show ?thesis
    using assms(2) dom1 ids refs inv eq assign_lits_distinct [OF d1] apply_variables_keys [of vs d1 G, folded d]
    unfolding lm_good_def by simp
qed

text \<open>The problem a good mapping poses is the one the input states.\<close>

lemma enc_inv_solution:
  assumes "enc_inv d (SIGMA x:set vs. set (Constraints x))" and "proper v" and "gates (circ d) v"
  shows "(\<forall>m \<in> fst ` set (constraints d). v m) \<longleftrightarrow> is_solution vs (selected d v)"
proof
  assume true: "\<forall>m \<in> fst ` set (constraints d). v m"
  have "holds (selected d v) (Identifier x) c" if "x \<in> set vs" "c \<in> set (Constraints x)" for x c
  proof -
    have "(x, c) \<in> (SIGMA x:set vs. set (Constraints x))" using that by simp
    then consider "\<forall>S. holds S (Identifier x) c"
      | m where "m \<in> fst ` set (constraints d)" "encodes d m (Identifier x) c"
      using assms(1) unfolding enc_inv_def by blast
    then show ?thesis using true assms(2,3) by cases (auto simp: encodes_def)
  qed
  then show "is_solution vs (selected d v)" by (simp add: is_solution_def)
next
  assume sol: "is_solution vs (selected d v)"
  have "v m" if ma: "(m, a) \<in> set (constraints d)" for m a
  proof -
    have "AC_Variable a \<in> set vs" "AC_Constraint a \<in> set (Constraints (AC_Variable a))"
        "encodes d m (Identifier (AC_Variable a)) (AC_Constraint a)"
      using assms(1) ma unfolding enc_inv_def by auto
    then show ?thesis using sol assms(2,3) by (auto simp: encodes_def is_solution_def)
  qed
  then show "\<forall>m \<in> fst ` set (constraints d). v m" by auto
qed

lemma good_solution:
  assumes "lm_good vs d" and "is_solution vs S"
  shows "\<exists>v. proper v \<and> gates (circ d) v \<and> selected d v = S \<inter> Identifier ` set vs \<and>
    (\<forall>m \<in> fst ` set (constraints d). v m)"
proof -
  have good: "free d" "dom (map_of (lits d)) = Identifier ` set vs"
      "references vs \<subseteq> Identifier ` set vs" "enc_inv d (SIGMA x:set vs. set (Constraints x))"
    using assms(1) by (simp_all add: lm_good_def)
  obtain v where v: "proper v" "gates (circ d) v" "selected d v = S \<inter> Identifier ` set vs"
    using freeD [OF good(1), of S] good(2) by auto
  have "is_solution vs (S \<inter> Identifier ` set vs)"
    using assms(2) is_solution_cong [of S vs "S \<inter> Identifier ` set vs"] good(3) by blast
  then show ?thesis using v enc_inv_solution [OF good(4) v(1,2)] by auto
qed

end

end
