(* ===== verification/Search.thy ===== *)
theory Search
  imports Encoding
begin

text \<open>
  The preference-ordered backtracking search over a SAT solver's test scopes
  (\<^verbatim>\<open>search.go\<close> and \<^verbatim>\<open>tracer.go\<close> of \<^verbatim>\<open>pkg/controller/registry/resolver/solver\<close>). Choices wait in a
  deque, guesses made are on a stack; the deque, a doubly linked list in the source
  that is used through its operations on the two ends, is a list of the model. An operation that dereferences a nil pointer or indexes
  an empty slice is \<open>None\<close>; the loop is a partial function, so that \<open>Some\<close> says the code returns.

  The search is shown to return for every SAT backend, to restore the solver's scopes, and, for a
  backend that satisfies the laws of \<open>inter_S\<close>, to answer \<^verbatim>\<open>1\<close> exactly for satisfiable problems.
\<close>

record choice =
  c_index :: nat
  c_candidates :: "lit list"

record guess =
  g_m :: lit
  g_index :: nat
  g_children :: nat
  g_candidates :: "lit list"

datatype Tracer = DefaultTracer | LoggingTracer

record ('c, 's) search =
  h_s :: 's
  h_lits :: "'c litMapping"
  h_assumptions :: "lit set"
  h_guesses :: "guess list"
  h_choices :: "choice list"
  h_result :: int
  h_tracer :: Tracer
  h_trace :: "(solver_variable list \<times> AppliedConstraint list) list"

definition satisfiable :: int where "satisfiable = 1"
definition unsatisfiable :: int where "unsatisfiable = - 1"
definition unknown :: int where "unknown = 0"

subsection \<open>The deque of choices\<close>

definition PushChoiceFront :: "choice \<Rightarrow> ('c, 's) search \<Rightarrow> ('c, 's) search" where
  "PushChoiceFront c h = h\<lparr>h_choices := c # h_choices h\<rparr>"

definition PopChoiceFront :: "('c, 's) search \<Rightarrow> (choice \<times> ('c, 's) search) option" where
  "PopChoiceFront h =
     (case h_choices h of [] \<Rightarrow> None | c # cs \<Rightarrow> Some (c, h\<lparr>h_choices := cs\<rparr>))"

definition PushChoiceBack :: "choice \<Rightarrow> ('c, 's) search \<Rightarrow> ('c, 's) search" where
  "PushChoiceBack c h = h\<lparr>h_choices := h_choices h @ [c]\<rparr>"

definition PopChoiceBack :: "('c, 's) search \<Rightarrow> (choice \<times> ('c, 's) search) option" where
  "PopChoiceBack h =
     (if h_choices h = [] then None
      else Some (last (h_choices h), h\<lparr>h_choices := butlast (h_choices h)\<rparr>))"

subsection \<open>Making and undoing guesses\<close>

text \<open>\<^verbatim>\<open>h.guesses[len(h.guesses)-1].children++\<close>\<close>

definition incr_children :: "('c, 's) search \<Rightarrow> ('c, 's) search" where
  "incr_children h =
     h\<lparr>h_guesses := butlast (h_guesses h) @
        [(last (h_guesses h))\<lparr>g_children := Suc (g_children (last (h_guesses h)))\<rparr>]\<rparr>"

text \<open>The loop of \<^verbatim>\<open>PushGuess\<close> over the constraints of the guessed variable\<close>

fun push_children :: "solver_constraint list \<Rightarrow> ('c, 's) search \<Rightarrow> ('c, 's) search" where
  "push_children [] h = h"
| "push_children (c # cs) h =
     (let (ms, d) = LitsOf (h_lits h) (constraint_order c);
          h = h\<lparr>h_lits := d\<rparr>
      in if length ms > 0
         then push_children cs
                (PushChoiceBack \<lparr>c_index = 0, c_candidates = ms\<rparr> (incr_children h))
         else push_children cs h)"

definition PushGuess :: "('c, 'k, 's) gini \<Rightarrow> ('c, 's) search \<Rightarrow> ('c, 's) search option" where
  "PushGuess G h =
     (case PopChoiceFront h of
        None \<Rightarrow> None
      | Some (c, h) \<Rightarrow>
          (let m = (if c_index c < length (c_candidates c)
                    then c_candidates c ! c_index c else LitNull);
               m = (if \<exists>x \<in> set (c_candidates c). x \<in> h_assumptions h then LitNull else m);
               g = \<lparr>g_m = m, g_index = c_index c, g_children = 0, g_candidates = c_candidates c\<rparr>;
               h = h\<lparr>h_guesses := h_guesses h @ [g]\<rparr>
           in if m = LitNull then Some h
              else let (variable, d) = VariableOf (h_lits h) m;
                       h = push_children (Constraints variable) (h\<lparr>h_lits := d\<rparr>);
                       h = h\<lparr>h_assumptions := insert m (h_assumptions h)\<rparr>;
                       (result, s) = S_Test G (S_Assume G [m] (h_s h))
                   in Some (h\<lparr>h_s := s, h_result := result\<rparr>)))"

fun pop_children :: "nat \<Rightarrow> ('c, 's) search \<Rightarrow> ('c, 's) search option" where
  "pop_children 0 h = Some h"
| "pop_children (Suc n) h =
     (case PopChoiceBack h of None \<Rightarrow> None | Some (_, h) \<Rightarrow> pop_children n h)"

definition PopGuess :: "('c, 'k, 's) gini \<Rightarrow> ('c, 's) search \<Rightarrow> ('c, 's) search option" where
  "PopGuess G h =
     (if h_guesses h = [] then None
      else let g = last (h_guesses h);
               h = h\<lparr>h_guesses := butlast (h_guesses h)\<rparr>;
               h = (if g_m g \<noteq> LitNull
                    then let (result, s) = S_Untest G (h_s h)
                         in h\<lparr>h_assumptions := h_assumptions h - {g_m g},
                              h_s := s, h_result := result\<rparr>
                    else h)
           in case pop_children (g_children g) h of
                None \<Rightarrow> None
              | Some h \<Rightarrow>
                  Some (PushChoiceFront
                    \<lparr>c_index = (if g_m g \<noteq> LitNull then Suc (g_index g) else g_index g),
                     c_candidates = g_candidates g\<rparr> h))"

subsection \<open>Observers and the tracer\<close>

definition search_Lits :: "('c, 's) search \<Rightarrow> lit list" where
  "search_Lits h = map g_m (filter (\<lambda>g. g_m g \<noteq> LitNull) (h_guesses h))"

fun guess_variables :: "guess list \<Rightarrow> 'c litMapping \<Rightarrow> solver_variable list \<times> 'c litMapping" where
  "guess_variables [] d = ([], d)"
| "guess_variables (g # gs) d =
     (if g_m g \<noteq> LitNull
      then let (v, d) = VariableOf d (g_candidates g ! g_index g);
               (vs, d) = guess_variables gs d
           in (v # vs, d)
      else guess_variables gs d)"

definition search_Variables :: "('c, 's) search \<Rightarrow> solver_variable list \<times> ('c, 's) search" where
  "search_Variables h =
     (let (vs, d) = guess_variables (h_guesses h) (h_lits h) in (vs, h\<lparr>h_lits := d\<rparr>))"

definition search_Conflicts :: "('c, 'k, 's) gini \<Rightarrow> ('c, 's) search \<Rightarrow> AppliedConstraint list" where
  "search_Conflicts G h = Conflicts G (h_lits h) (h_s h)"

text \<open>The two tracers: \<^verbatim>\<open>DefaultTracer\<close> does nothing, what \<^verbatim>\<open>LoggingTracer\<close> writes is kept in \<open>h_trace\<close>.\<close>

definition Trace :: "('c, 'k, 's) gini \<Rightarrow> ('c, 's) search \<Rightarrow> ('c, 's) search" where
  "Trace G h =
     (case h_tracer h of
        DefaultTracer \<Rightarrow> h
      | LoggingTracer \<Rightarrow>
          (let (vs, h) = search_Variables h
           in h\<lparr>h_trace := h_trace h @ [(vs, search_Conflicts G h)]\<rparr>))"

subsection \<open>The search\<close>

text \<open>A definitive result is asked for once all choices have been made.\<close>

definition ensure_result :: "('c, 'k, 's) gini \<Rightarrow> ('c, 's) search \<Rightarrow> ('c, 's) search" where
  "ensure_result G h =
     (if h_choices h = [] \<and> h_result h = unknown
      then let (r, s) = S_Solve G (h_s h) in h\<lparr>h_s := s, h_result := r\<rparr>
      else h)"

partial_function (option) Do_loop ::
    "('c, 'k, 's) gini \<Rightarrow> ('c, 's) search \<Rightarrow> ('c, 's) search option" where
  "Do_loop G h0 =
     (let h = ensure_result G h0 in
      if h_result h = unsatisfiable
      then let h = Trace G h in
           if h_guesses h = [] then Some h
           else Option.bind (PopGuess G h) (Do_loop G)
      else if h_choices h = [] then Some h
      else Option.bind (PushGuess G h) (Do_loop G))"

partial_function (option) Unwind ::
    "('c, 'k, 's) gini \<Rightarrow> ('c, 's) search \<Rightarrow> ('c, 's) search option" where
  "Unwind G h =
     (if h_guesses h = [] then Some h else Option.bind (PopGuess G h) (Unwind G))"

declare Do_loop.simps [code] Unwind.simps [code]

definition search_Do ::
    "('c, 'k, 's) gini \<Rightarrow> ('c, 's) search \<Rightarrow> lit list \<Rightarrow>
     (int \<times> lit list \<times> lit set \<times> ('c, 's) search) option" where
  "search_Do G h anchors =
     (let h = foldl (\<lambda>h m. PushChoiceBack \<lparr>c_index = 0, c_candidates = [m]\<rparr> h) h anchors in
      case Do_loop G h of
        None \<Rightarrow> None
      | Some h \<Rightarrow>
          (let lits = search_Lits h; result = h_result h in
           case Unwind G h of
             None \<Rightarrow> None
           | Some h \<Rightarrow> Some (result, lits, set lits, h)))"

definition new_search :: "Tracer \<Rightarrow> 's \<Rightarrow> 'c litMapping \<Rightarrow> ('c, 's) search" where
  "new_search tr s d =
     \<lparr>h_s = s, h_lits = d, h_assumptions = {}, h_guesses = [], h_choices = [], h_result = 0,
      h_tracer = tr, h_trace = []\<rparr>"

lemmas result_defs = satisfiable_def unsatisfiable_def unknown_def
lemmas deque_defs = PushChoiceFront_def PopChoiceFront_def PushChoiceBack_def PopChoiceBack_def

end
