(* ===== verification/Search_Total.thy ===== *)
theory Search_Total
  imports Search
begin

text \<open>
  The search returns, whatever the SAT backend answers. Each pass through the loop of \<^verbatim>\<open>Do\<close> makes
  the stack of guesses, read as a vector of remaining candidates, smaller in the lexicographic
  order; the length of the vector is bounded because a guessed literal is never guessed again below
  itself. The invariant also shows that no choice is popped from an empty deque.
\<close>

subsection \<open>The effect of each operation on stack and deque\<close>

text \<open>What the search may do to the mapping: record more errors\<close>

definition same_mapping :: "'c litMapping \<Rightarrow> 'c litMapping \<Rightarrow> bool" where
  "same_mapping d d' \<longleftrightarrow> (\<exists>es. d' = d\<lparr>errs := errs d @ es\<rparr>)"

lemma same_mapping_refl [simp]: "same_mapping d d"
  unfolding same_mapping_def by (rule exI [of _ "[]"]) simp

lemma same_mapping_trans: "same_mapping d d' \<Longrightarrow> same_mapping d' d'' \<Longrightarrow> same_mapping d d''"
  by (auto simp: same_mapping_def)

lemma same_mapping_errs [simp]: "same_mapping d (d\<lparr>errs := errs d @ es\<rparr>)"
  by (auto simp: same_mapping_def)

lemma same_mappingD:
  assumes "same_mapping d d'"
  shows "lits d' = lits d" "variables d' = variables d" "constraints d' = constraints d"
    "inorder d' = inorder d" "circ d' = circ d"
  using assms by (auto simp: same_mapping_def)

lemma LitOf_same: "LitOf d i = (m, d') \<Longrightarrow> same_mapping d d' \<and> m \<in> insert LitNull (snd ` set (lits d))"
  by (auto simp: LitOf_def split: option.splits dest!: map_of_SomeD intro: rev_image_eqI)

lemma LitsOf_same:
  "LitsOf d is = (ms, d') \<Longrightarrow>
     same_mapping d d' \<and> set ms \<subseteq> insert LitNull (snd ` set (lits d)) \<and> length ms = length is"
proof (induction "is" arbitrary: d ms)
  case Nil
  then show ?case by simp
next
  case (Cons i "is")
  obtain m d1 where d1: "LitOf d i = (m, d1)" by force
  obtain ms' where d2: "LitsOf d1 is = (ms', d')" "ms = m # ms'"
    using Cons.prems d1 by (auto split: prod.splits)
  note s1 = LitOf_same [OF d1] and s2 = Cons.IH [OF d2(1)]
  then show ?case using d2(2) same_mapping_trans same_mappingD(1) [of d d1] by auto
qed

lemma VariableOf_same: "VariableOf d m = (v, d') \<Longrightarrow>
    same_mapping d d' \<and> v \<in> insert zeroVariable (snd ` set (variables d))"
  by (auto simp: VariableOf_def split: option.splits dest!: map_of_SomeD intro: rev_image_eqI)

lemma guess_variables_same: "guess_variables gs d = (vs, d') \<Longrightarrow> same_mapping d d'"
proof (induction gs arbitrary: d vs)
  case Nil
  then show ?case by simp
next
  case (Cons g gs)
  then show ?case
    using VariableOf_same same_mapping_trans
    by (fastforce split: if_splits prod.splits)
qed

lemma Trace_simps [simp]:
  "h_s (Trace G h) = h_s h" "h_assumptions (Trace G h) = h_assumptions h"
  "h_guesses (Trace G h) = h_guesses h" "h_choices (Trace G h) = h_choices h"
  "h_result (Trace G h) = h_result h"
  by (simp_all add: Trace_def search_Variables_def Let_def split: prod.split Tracer.split)

lemma Trace_same: "same_mapping (h_lits h) (h_lits (Trace G h))"
  using guess_variables_same [of "h_guesses h" "h_lits h"]
  by (simp add: Trace_def search_Variables_def Let_def split: prod.split Tracer.split)

lemma ensure_result_simps [simp]:
  "h_lits (ensure_result G h) = h_lits h" "h_assumptions (ensure_result G h) = h_assumptions h"
  "h_guesses (ensure_result G h) = h_guesses h" "h_choices (ensure_result G h) = h_choices h"
  by (simp_all add: ensure_result_def split: prod.split)

definition orders_known :: "'c litMapping \<Rightarrow> solver_constraint list \<Rightarrow> bool" where
  "orders_known d cs \<longleftrightarrow> (\<forall>c \<in> set cs. set (constraint_order c) \<subseteq> dom (map_of (lits d)))"

text \<open>The choices that guessing a variable adds\<close>

fun new_choices :: "solver_constraint list \<Rightarrow> 'c litMapping \<Rightarrow> choice list" where
  "new_choices [] d = []"
| "new_choices (c # cs) d =
     (let (ms, d) = LitsOf d (constraint_order c) in
      (if length ms > 0 then [\<lparr>c_index = 0, c_candidates = ms\<rparr>] else []) @ new_choices cs d)"

lemma push_children_eq:
  assumes "h_guesses h = gs @ [g]"
  shows "\<exists>d. push_children cs h = h\<lparr>h_lits := d,
      h_choices := h_choices h @ new_choices cs (h_lits h),
      h_guesses := gs @ [g\<lparr>g_children := g_children g + length (new_choices cs (h_lits h))\<rparr>]\<rparr> \<and>
    same_mapping (h_lits h) d \<and> (orders_known (h_lits h) cs \<longrightarrow> d = h_lits h)"
  using assms
proof (induction cs arbitrary: h g)
  case Nil
  then show ?case by (intro exI [of _ "h_lits h"]) (cases h, simp)
next
  case (Cons c cs)
  obtain ms d where d: "LitsOf (h_lits h) (constraint_order c) = (ms, d)" by force
  have sd: "same_mapping (h_lits h) d" using LitsOf_same [OF d] by simp
  have kd: "orders_known (h_lits h) (c # cs) \<longrightarrow> d = h_lits h \<and> orders_known d cs"
    using d LitsOf_known [of "constraint_order c" "h_lits h"] by (auto simp: orders_known_def)
  show ?case
  proof (cases "length ms > 0")
    case True
    let ?h = "PushChoiceBack \<lparr>c_index = 0, c_candidates = ms\<rparr> (incr_children (h\<lparr>h_lits := d\<rparr>))"
    let ?g = "g\<lparr>g_children := Suc (g_children g)\<rparr>"
    have "h_guesses ?h = gs @ [?g]"
      using Cons.prems by (simp add: deque_defs incr_children_def)
    from Cons.IH [OF this] obtain d' where d': "same_mapping d d'" "orders_known d cs \<longrightarrow> d' = d"
      "push_children cs ?h = ?h\<lparr>h_lits := d',
        h_choices := h_choices ?h @ new_choices cs d,
        h_guesses := gs @ [?g\<lparr>g_children := Suc (g_children g) + length (new_choices cs d)\<rparr>]\<rparr>"
      by (auto simp: deque_defs incr_children_def)
    show ?thesis
      by (rule exI [of _ d'])
        (use True d d' kd same_mapping_trans [OF sd] in \<open>auto simp: deque_defs incr_children_def\<close>)
  next
    case False
    then have "new_choices (c # cs) (h_lits h) = new_choices cs d" using d by simp
    with False show ?thesis
      using d kd Cons.IH [of "h\<lparr>h_lits := d\<rparr>" g] Cons.prems same_mapping_trans [OF sd] by auto
  qed
qed

lemma new_choices_props:
  assumes "\<forall>c \<in> set cs. length (constraint_order c) \<le> B" and "c \<in> set (new_choices cs d)"
  shows "c_index c = 0 \<and> length (c_candidates c) \<le> B \<and> c_candidates c \<noteq> [] \<and>
    set (c_candidates c) \<subseteq> insert LitNull (snd ` set (lits d))"
  using assms
proof (induction cs arbitrary: d)
  case Nil
  then show ?case by simp
next
  case (Cons x cs)
  obtain ms d1 where d1: "LitsOf d (constraint_order x) = (ms, d1)" by force
  note s = LitsOf_same [OF d1]
  show ?case
  proof (cases "c \<in> set (new_choices cs d1)")
    case True
    then show ?thesis using Cons.IH [of d1] Cons.prems(1) s same_mappingD(1) [of d d1] by simp
  next
    case False
    then show ?thesis using Cons.prems d1 s by (auto split: if_splits)
  qed
qed

lemma length_new_choices: "length (new_choices cs d) \<le> length cs"
  by (induction cs arbitrary: d) (auto simp: Let_def split: prod.split intro: le_SucI)

lemma pop_children_eq:
  "n \<le> length (h_choices h) \<Longrightarrow>
   pop_children n h = Some (h\<lparr>h_choices := take (length (h_choices h) - n) (h_choices h)\<rparr>)"
proof (induction n arbitrary: h)
  case 0
  then show ?case by simp
next
  case (Suc n)
  let ?h = "h\<lparr>h_choices := butlast (h_choices h)\<rparr>"
  have "h_choices h \<noteq> []" using Suc.prems by auto
  then have "pop_children (Suc n) h = pop_children n ?h"
    by (simp add: PopChoiceBack_def)
  also have "\<dots> = Some (?h\<lparr>h_choices := take (length (h_choices ?h) - n) (h_choices ?h)\<rparr>)"
    using Suc.prems by (intro Suc.IH) simp
  finally show ?case by (simp add: butlast_conv_take min_def)
qed

subsection \<open>The two moves of the search\<close>

definition guess_lit :: "choice \<Rightarrow> lit set \<Rightarrow> lit" where
  "guess_lit c A =
     (if \<exists>x \<in> set (c_candidates c). x \<in> A then LitNull
      else if c_index c < length (c_candidates c) then c_candidates c ! c_index c else LitNull)"

definition guess_of :: "choice \<Rightarrow> lit \<Rightarrow> nat \<Rightarrow> guess" where
  "guess_of c m n = \<lparr>g_m = m, g_index = c_index c, g_children = n, g_candidates = c_candidates c\<rparr>"

lemma guess_of_simps [simp]:
  "g_m (guess_of c m n) = m" "g_index (guess_of c m n) = c_index c"
  "g_children (guess_of c m n) = n" "g_candidates (guess_of c m n) = c_candidates c"
  by (simp_all add: guess_of_def)

lemma PushGuess_null:
  assumes "h_choices h = c # cs" and "guess_lit c (h_assumptions h) = LitNull"
  shows "PushGuess G h =
    Some (h\<lparr>h_choices := cs, h_guesses := h_guesses h @ [guess_of c LitNull 0]\<rparr>)"
  using assms
  by (simp add: PushGuess_def PopChoiceFront_def Let_def guess_lit_def guess_of_def split: if_splits)

lemma PushGuess_real:
  assumes "h_choices h = c # cs" and m: "guess_lit c (h_assumptions h) = m" "m \<noteq> LitNull"
    and v: "VariableOf (h_lits h) m = (v, d1)"
    and nc: "new_choices (Constraints v) d1 = nc"
    and t: "S_Test G (S_Assume G [m] (h_s h)) = (r, s)"
  shows "\<exists>d. PushGuess G h = Some (h\<lparr>h_lits := d, h_choices := cs @ nc,
      h_guesses := h_guesses h @ [guess_of c m (length nc)],
      h_assumptions := insert m (h_assumptions h), h_s := s, h_result := r\<rparr>) \<and>
    same_mapping (h_lits h) d \<and>
    (m \<in> dom (map_of (variables (h_lits h))) \<and> orders_known (h_lits h) (Constraints v) \<longrightarrow> d = h_lits h)"
proof -
  let ?h = "h\<lparr>h_choices := cs, h_guesses := h_guesses h @ [guess_of c m 0], h_lits := d1\<rparr>"
  obtain d where d: "push_children (Constraints v) ?h = ?h\<lparr>h_lits := d,
        h_choices := cs @ nc, h_guesses := h_guesses h @ [guess_of c m (length nc)]\<rparr>"
      "same_mapping d1 d" "orders_known d1 (Constraints v) \<longrightarrow> d = d1"
    using push_children_eq [of ?h "h_guesses h" "guess_of c m 0" "Constraints v"] nc
    by (auto simp: guess_of_def)
  have guard: "\<not> (\<exists>x \<in> set (c_candidates c). x \<in> h_assumptions h)"
      "c_index c < length (c_candidates c)" "c_candidates c ! c_index c = m"
    using m by (auto simp: guess_lit_def split: if_splits)
  have "same_mapping (h_lits h) d"
    using VariableOf_same [OF v] d(2) same_mapping_trans by blast
  moreover have "m \<in> dom (map_of (variables (h_lits h))) \<longrightarrow> d1 = h_lits h"
    using v by (auto simp: VariableOf_def)
  moreover have "PushGuess G h = Some (h\<lparr>h_lits := d, h_choices := cs @ nc,
      h_guesses := h_guesses h @ [guess_of c m (length nc)],
      h_assumptions := insert m (h_assumptions h), h_s := s, h_result := r\<rparr>)"
    using assms(1) guard m(2) v t d(1) [unfolded guess_of_def]
    by (simp add: PushGuess_def PopChoiceFront_def Let_def guess_of_def)
  ultimately show ?thesis using d(3) by (intro exI [of _ d]) auto
qed

text \<open>The state once the last guess is off the stack and its assumption undone\<close>

definition undo :: "('c, 'k, 's) gini \<Rightarrow> guess \<Rightarrow> ('c, 's) search \<Rightarrow> ('c, 's) search" where
  "undo G g h =
     (if g_m g \<noteq> LitNull
      then h\<lparr>h_assumptions := h_assumptions h - {g_m g}, h_s := snd (S_Untest G (h_s h)),
             h_result := fst (S_Untest G (h_s h))\<rparr>
      else h)"

definition choice_of :: "guess \<Rightarrow> choice" where
  "choice_of g = \<lparr>c_index = (if g_m g \<noteq> LitNull then Suc (g_index g) else g_index g),
                  c_candidates = g_candidates g\<rparr>"

lemma undo_simps [simp]:
  "h_lits (undo G g h) = h_lits h" "h_guesses (undo G g h) = h_guesses h"
  "h_choices (undo G g h) = h_choices h"
  by (simp_all add: undo_def)

lemma PopGuess_eq:
  assumes "h_guesses h = gs @ [g]" and "g_children g \<le> length (h_choices h)"
  shows "PopGuess G h = Some ((undo G g h)\<lparr>h_guesses := gs,
    h_choices := choice_of g # take (length (h_choices h) - g_children g) (h_choices h)\<rparr>)"
  using assms
  by (simp add: PopGuess_def Let_def undo_def choice_of_def pop_children_eq PushChoiceFront_def
      split: prod.split)

subsection \<open>The invariant\<close>

definition real_lits :: "guess list \<Rightarrow> lit list" where
  "real_lits gs = map g_m (filter (\<lambda>g. g_m g \<noteq> LitNull) gs)"

lemma real_lits_simps [simp]:
  "real_lits [] = []"
  "real_lits (gs @ gs') = real_lits gs @ real_lits gs'"
  "real_lits [g] = (if g_m g = LitNull then [] else [g_m g])"
  by (simp_all add: real_lits_def)

definition fits :: "lit set \<Rightarrow> nat \<Rightarrow> nat \<Rightarrow> lit list \<Rightarrow> bool" where
  "fits U B i ms \<longleftrightarrow> i \<le> length ms \<and> length ms \<le> B \<and> set ms \<subseteq> insert LitNull U"

definition guess_ok :: "lit set \<Rightarrow> nat \<Rightarrow> guess \<Rightarrow> bool" where
  "guess_ok U B g \<longleftrightarrow> fits U B (g_index g) (g_candidates g) \<and> g_children g \<le> B \<and>
     (if g_m g = LitNull then g_children g = 0
      else g_index g < length (g_candidates g) \<and> g_candidates g ! g_index g = g_m g)"

lemma guess_ok_lit:
  assumes "guess_ok U B g" and "g_m g \<noteq> LitNull"
  shows "g_m g \<in> U" "g_candidates g ! g_index g = g_m g"
proof -
  have i: "g_index g < length (g_candidates g)" "g_candidates g ! g_index g = g_m g"
      "set (g_candidates g) \<subseteq> insert LitNull U"
    using assms by (simp_all add: guess_ok_def fits_def)
  then show "g_m g \<in> U" "g_candidates g ! g_index g = g_m g"
    using nth_mem [OF i(1)] assms(2) by auto
qed

definition balanced :: "nat \<Rightarrow> guess list \<Rightarrow> nat \<Rightarrow> bool" where
  "balanced A gs n \<longleftrightarrow> n + length gs = A + sum_list (map g_children gs) \<and>
     (\<forall>k < length gs. k < A + sum_list (map g_children (take k gs)))"

text \<open>
  \<open>U\<close> holds the literals that can be guessed, \<open>A\<close> is the number of anchors, \<open>B\<close> bounds
  the constraints of a variable and the candidates of a constraint.
\<close>

definition bounded :: "'c litMapping \<Rightarrow> nat \<Rightarrow> bool" where
  "bounded d B \<longleftrightarrow> (\<forall>x \<in> insert zeroVariable (snd ` set (variables d)).
     length (Constraints x) \<le> B \<and> (\<forall>c \<in> set (Constraints x). length (constraint_order c) \<le> B))"

definition tinv :: "'c litMapping \<Rightarrow> lit set \<Rightarrow> nat \<Rightarrow> nat \<Rightarrow> ('c, 's) search \<Rightarrow> bool" where
  "tinv d U A B h \<longleftrightarrow> same_mapping d (h_lits h) \<and>
     (\<forall>c \<in> set (h_choices h). fits U B (c_index c) (c_candidates c)) \<and>
     (\<forall>g \<in> set (h_guesses h). guess_ok U B g) \<and>
     distinct (real_lits (h_guesses h)) \<and> h_assumptions h = set (real_lits (h_guesses h)) \<and>
     balanced A (h_guesses h) (length (h_choices h))"

lemma balanced_push:
  assumes "balanced A gs (Suc n)" and "g_children g = k"
  shows "balanced A (gs @ [g]) (n + k)"
proof -
  have "length gs < A + sum_list (map g_children gs)"
    using assms(1) by (simp add: balanced_def)
  then have "\<forall>j < length (gs @ [g]). j < A + sum_list (map g_children (take j (gs @ [g])))"
    using assms(1) by (auto simp: balanced_def less_Suc_eq)
  then show ?thesis using assms by (simp add: balanced_def)
qed

lemma balanced_pop:
  assumes "balanced A (gs @ [g]) n"
  shows "g_children g \<le> n \<and> balanced A gs (Suc (n - g_children g))"
proof -
  have "length gs < A + sum_list (map g_children gs)"
    using assms by (auto simp: balanced_def dest!: spec [of _ "length gs"])
  moreover have "\<forall>k < length gs. k < A + sum_list (map g_children (take k gs))"
    using assms by (auto simp: balanced_def dest: spec)
  moreover have "n + length gs + 1 = A + sum_list (map g_children gs) + g_children g"
    using assms by (simp add: balanced_def)
  ultimately show ?thesis unfolding balanced_def by auto
qed

lemma guess_lit_props:
  assumes "guess_lit c A = m" and "m \<noteq> LitNull"
  shows "m \<notin> A" "c_index c < length (c_candidates c)" "c_candidates c ! c_index c = m"
  using assms nth_mem by (auto simp: guess_lit_def split: if_splits)

lemma PushGuess_tinv:
  assumes inv: "tinv d U A B h" and bd: "bounded d B" and U: "snd ` set (lits d) \<subseteq> U"
    and ch: "h_choices h = c # cs"
  shows "\<exists>h' g. PushGuess G h = Some h' \<and> tinv d U A B h' \<and>
    h_guesses h' = h_guesses h @ [g] \<and> g_index g = c_index c"
proof -
  let ?m = "guess_lit c (h_assumptions h)"
  have fit: "fits U B (c_index c) (c_candidates c)" and bal: "balanced A (h_guesses h) (Suc (length cs))"
    using inv ch by (auto simp: tinv_def)
  show ?thesis
  proof (cases "?m = LitNull")
    case True
    let ?h = "h\<lparr>h_choices := cs, h_guesses := h_guesses h @ [guess_of c LitNull 0]\<rparr>"
    have "tinv d U A B ?h"
      using inv ch fit balanced_push [OF bal, of "guess_of c LitNull 0"]
      by (auto simp: tinv_def guess_ok_def)
    then show ?thesis using PushGuess_null [OF ch True, of G]
      by (intro exI [of _ ?h] exI [of _ "guess_of c LitNull 0"]) simp
  next
    case False
    obtain v d1 where v: "VariableOf (h_lits h) ?m = (v, d1)" by force
    obtain r s where t: "S_Test G (S_Assume G [?m] (h_s h)) = (r, s)" by force
    define nc where "nc = new_choices (Constraints v) d1"
    obtain d2 where push: "PushGuess G h = Some (h\<lparr>h_lits := d2, h_choices := cs @ nc,
        h_guesses := h_guesses h @ [guess_of c ?m (length nc)],
        h_assumptions := insert ?m (h_assumptions h), h_s := s, h_result := r\<rparr>)"
        "same_mapping (h_lits h) d2"
      using PushGuess_real [OF ch refl False v nc_def [symmetric] t] by blast
    have sd: "same_mapping d (h_lits h)" using inv by (simp add: tinv_def)
    have vb: "length (Constraints v) \<le> B" "\<forall>c \<in> set (Constraints v). length (constraint_order c) \<le> B"
      using VariableOf_same [OF v] bd same_mappingD(2) [OF sd] by (auto simp: bounded_def)
    have "lits d1 = lits d"
      using VariableOf_same [OF v] same_mappingD(1) sd by metis
    then have new: "\<forall>c \<in> set nc. fits U B (c_index c) (c_candidates c)"
      using new_choices_props [OF vb(2)] U unfolding nc_def fits_def by fastforce
    have "length nc \<le> B" using length_new_choices vb(1) le_trans unfolding nc_def by blast
    moreover have "?m \<in> U" using guess_lit_props [OF refl False] fit False nth_mem
      by (fastforce simp: fits_def)
    ultimately have "tinv d U A B (h\<lparr>h_lits := d2, h_choices := cs @ nc,
        h_guesses := h_guesses h @ [guess_of c ?m (length nc)],
        h_assumptions := insert ?m (h_assumptions h), h_s := s, h_result := r\<rparr>)"
      using inv ch fit new False same_mapping_trans [OF sd push(2)] guess_lit_props [OF refl False]
        balanced_push [OF bal, of "guess_of c ?m (length nc)" "length nc"]
      by (auto simp: tinv_def guess_ok_def)
    then show ?thesis using push(1) by (intro exI conjI) (assumption | simp)+
  qed
qed

lemma PopGuess_tinv:
  assumes inv: "tinv d U A B h" and gs: "h_guesses h = gs @ [g]"
  shows "\<exists>h' cs. PopGuess G h = Some h' \<and> tinv d U A B h' \<and> h_guesses h' = gs \<and>
    h_choices h' = choice_of g # cs \<and> h_result h' = h_result (undo G g h) \<and> h_s h' = h_s (undo G g h)"
proof -
  have "balanced A (gs @ [g]) (length (h_choices h))" and ok: "guess_ok U B g"
    using inv gs by (auto simp: tinv_def)
  note bal = balanced_pop [OF this(1)]
  have pop: "PopGuess G h = Some ((undo G g h)\<lparr>h_guesses := gs,
      h_choices := choice_of g # take (length (h_choices h) - g_children g) (h_choices h)\<rparr>)"
    using gs bal by (intro PopGuess_eq) auto
  have fit: "fits U B (c_index (choice_of g)) (c_candidates (choice_of g))"
    using ok by (auto simp: guess_ok_def fits_def choice_of_def split: if_splits)
  have asm: "h_assumptions (undo G g h) = set (real_lits gs)"
    using inv gs by (auto simp: tinv_def undo_def)
  have "tinv d U A B ((undo G g h)\<lparr>h_guesses := gs,
      h_choices := choice_of g # take (length (h_choices h) - g_children g) (h_choices h)\<rparr>)"
    using inv gs fit bal asm by (auto simp: tinv_def dest: in_set_takeD)
  then show ?thesis using pop by auto
qed

lemma tinv_ensure_result [simp]: "tinv d U A B (ensure_result G h) = tinv d U A B h"
  by (simp add: tinv_def)

lemma tinv_Trace: "tinv d U A B h \<Longrightarrow> tinv d U A B (Trace G h)"
  using Trace_same same_mapping_trans by (fastforce simp: tinv_def)

subsection \<open>The measure\<close>

text \<open>At most \<open>A + B * card U\<close> guesses are on the stack.\<close>

lemma sum_children_le:
  "(\<forall>g \<in> set gs. guess_ok U B g) \<Longrightarrow> sum_list (map g_children gs) \<le> B * length (real_lits gs)"
  by (induction gs) (auto simp: real_lits_def guess_ok_def add_le_mono)

lemma length_guesses_le:
  assumes inv: "tinv d U A B h" and "finite U"
  shows "length (h_guesses h) \<le> A + B * card U"
proof -
  have "set (real_lits (h_guesses h)) \<subseteq> U"
    using inv nth_mem by (fastforce simp: tinv_def real_lits_def guess_ok_def fits_def)
  then have "length (real_lits (h_guesses h)) \<le> card U"
    using inv assms(2) by (metis card_mono distinct_card tinv_def)
  then have "B * length (real_lits (h_guesses h)) \<le> B * card U" by simp
  moreover have "sum_list (map g_children (h_guesses h)) \<le> B * length (real_lits (h_guesses h))"
    using inv by (intro sum_children_le) (auto simp: tinv_def)
  moreover have "length (h_guesses h) \<le> A + sum_list (map g_children (h_guesses h))"
    using inv by (auto simp: tinv_def balanced_def)
  ultimately show ?thesis by linarith
qed

definition gval :: "nat \<Rightarrow> guess \<Rightarrow> nat" where
  "gval B g = 2 * (B + 1 - g_index g)"

definition pval :: "nat \<Rightarrow> choice list \<Rightarrow> nat" where
  "pval B cs = (case cs of [] \<Rightarrow> 0 | c # _ \<Rightarrow> 2 * (B + 1 - c_index c) + 1)"

definition vec :: "nat \<Rightarrow> nat \<Rightarrow> ('c, 's) search \<Rightarrow> nat list" where
  "vec M B h = map (gval B) (h_guesses h) @
     (if h_result h = unsatisfiable then 0 else pval B (h_choices h)) #
     replicate (M - length (h_guesses h)) 0"

lemma lex_at:
  "x < y \<Longrightarrow> length xs' = length ys' \<Longrightarrow> (us @ x # xs', us @ y # ys') \<in> lex less_than"
  by (auto simp: lex_conv)

lemma vec_pop:
  assumes inv: "tinv d U A B h" and M: "A + B * card U \<le> M" and "finite U"
    and unsat: "h_result h = unsatisfiable" and gs: "h_guesses h = gs @ [g]"
    and h': "h_guesses h' = gs" "h_choices h' = choice_of g # cs"
      "h_result h' = h_result (undo G g h)"
    and h0: "h_guesses h0 = h_guesses h"
  shows "(vec M B h', vec M B h0) \<in> lex less_than"
proof -
  have len: "length gs < M" using length_guesses_le [OF inv assms(3)] M gs by simp
  have "g_index g \<le> B" "g_m g \<noteq> LitNull \<longrightarrow> g_index g < B"
    using inv gs by (auto simp: tinv_def guess_ok_def fits_def)
  then have less: "(if h_result h' = unsatisfiable then 0 else pval B (h_choices h')) < gval B g"
    using unsat h' by (auto simp: pval_def gval_def choice_of_def undo_def)
  show ?thesis unfolding vec_def h0 gs h'(1) using len less
    by (simp only: map_append list.map append_assoc append_Cons append_Nil)
      (rule lex_at; simp)
qed

lemma vec_push:
  assumes inv: "tinv d U A B h'" and M: "A + B * card U \<le> M" and "finite U"
    and sat: "h_result h \<noteq> unsatisfiable" and ch: "h_choices h = c # cs"
    and h': "h_guesses h' = h_guesses h @ [g]" "g_index g = c_index c"
  shows "(vec M B h', vec M B h) \<in> lex less_than"
proof -
  have len: "length (h_guesses h) < M" using length_guesses_le [OF inv assms(3)] M h' by simp
  have less: "gval B g < pval B (h_choices h)"
    using ch h'(2) by (simp add: pval_def gval_def)
  show ?thesis unfolding vec_def h'(1) using len less sat
    by (simp only: map_append list.map append_assoc append_Cons append_Nil if_False simp_thms)
      (rule lex_at; simp)
qed

subsection \<open>A rule for the loop\<close>

text \<open>
  From a state that satisfies the invariant, the loop returns. What is kept by asking for a
  result, by tracing, by undoing a guess after \<^verbatim>\<open>unsatisfiable\<close> and by making one otherwise holds
  of the state it returns.
\<close>

definition loop_exit :: "('c, 's) search \<Rightarrow> bool" where
  "loop_exit h \<longleftrightarrow>
     (if h_result h = unsatisfiable then h_guesses h = [] else h_choices h = [])"

lemma Do_loop_rule:
  assumes fin: "finite U" and bd: "bounded d B" and U: "snd ` set (lits d) \<subseteq> U"
    and ens: "\<And>h. tinv d U A B h \<Longrightarrow> I h \<Longrightarrow> I (ensure_result G h)"
    and tr: "\<And>h. tinv d U A B h \<Longrightarrow> I h \<Longrightarrow> I (Trace G h)"
    and pop: "\<And>h h' gs g. tinv d U A B h \<Longrightarrow> I h \<Longrightarrow> h_result h = unsatisfiable \<Longrightarrow>
      h_guesses h = gs @ [g] \<Longrightarrow> PopGuess G h = Some h' \<Longrightarrow> I h'"
    and push: "\<And>h h' c cs. tinv d U A B h \<Longrightarrow> I h \<Longrightarrow> h_result h \<noteq> unsatisfiable \<Longrightarrow>
      h_choices h = c # cs \<Longrightarrow> PushGuess G h = Some h' \<Longrightarrow> I h'"
    and "tinv d U A B h" and "I h"
  shows "\<exists>h' h0. Do_loop G h = Some h' \<and> tinv d U A B h' \<and> I h' \<and> loop_exit h' \<and>
    tinv d U A B h0 \<and> I h0 \<and> (h' = ensure_result G h0 \<or> h' = Trace G (ensure_result G h0))"
  using assms(8,9)
proof (induction h rule: wf_induct_rule [OF wf_inv_image [OF wf_lex [OF wf_less_than],
        of "vec (A + B * card U) B"]])
  case (1 h)
  note IH = "1.IH" [unfolded in_inv_image]
  let ?h = "ensure_result G h"
  have e: "tinv d U A B ?h" "I ?h" using "1.prems" ens by simp_all
  show ?case
  proof (cases "h_result ?h = unsatisfiable")
    case unsat: True
    let ?t = "Trace G ?h"
    have t: "tinv d U A B ?t" "I ?t" using e tr tinv_Trace by blast+
    show ?thesis
    proof (cases "h_guesses h = []")
      case True
      then have "Do_loop G h = Some ?t" using unsat by (simp add: Do_loop.simps [of G h])
      moreover have "loop_exit ?t" using unsat True by (simp add: loop_exit_def)
      ultimately show ?thesis using t "1.prems" by blast
    next
      case False
      then obtain gs g where gs: "h_guesses ?t = gs @ [g]"
        by (metis Trace_simps(3) append_butlast_last_id ensure_result_simps(3))
      obtain h' cs where h': "PopGuess G ?t = Some h'" "tinv d U A B h'" "h_guesses h' = gs"
          "h_choices h' = choice_of g # cs" "h_result h' = h_result (undo G g ?t)"
        using PopGuess_tinv [OF t(1) gs, of G] by blast
      have "(vec (A + B * card U) B h', vec (A + B * card U) B h) \<in> lex less_than"
        by (rule vec_pop [OF t(1) _ fin _ gs h'(3-5)]) (use unsat in auto)
      moreover have "I h'" using pop [OF t _ gs h'(1)] unsat by simp
      moreover have "Do_loop G h = Do_loop G h'"
        using unsat gs h'(1) by (simp add: Do_loop.simps [of G h])
      ultimately show ?thesis using IH h'(2) by simp
    qed
  next
    case sat: False
    show ?thesis
    proof (cases "h_choices h")
      case Nil
      then have "Do_loop G h = Some ?h" using sat by (simp add: Do_loop.simps [of G h])
      moreover have "loop_exit ?h" using sat Nil by (simp add: loop_exit_def)
      ultimately show ?thesis using e "1.prems" by blast
    next
      case (Cons c cs)
      then have h: "?h = h" by (simp add: ensure_result_def)
      obtain h' g where h': "PushGuess G h = Some h'" "tinv d U A B h'"
          "h_guesses h' = h_guesses h @ [g]" "g_index g = c_index c"
        using PushGuess_tinv [OF "1.prems"(1) bd U Cons, of G] by blast
      have "(vec (A + B * card U) B h', vec (A + B * card U) B h) \<in> lex less_than"
        by (rule vec_push [OF h'(2) _ fin _ Cons h'(3,4)]) (use sat h in auto)
      moreover have "I h'" using push [OF "1.prems" _ Cons h'(1)] sat h by simp
      moreover have "Do_loop G h = Do_loop G h'"
        using sat Cons h h'(1) by (simp add: Do_loop.simps [of G h])
      ultimately show ?thesis using IH h'(2) by simp
    qed
  qed
qed

lemma Unwind_rule:
  assumes pop: "\<And>h h' gs g. tinv d U A B h \<Longrightarrow> I h \<Longrightarrow> h_guesses h = gs @ [g] \<Longrightarrow>
      PopGuess G h = Some h' \<Longrightarrow> I h'"
    and "tinv d U A B h" and "I h"
  shows "\<exists>h'. Unwind G h = Some h' \<and> tinv d U A B h' \<and> I h' \<and> h_guesses h' = []"
  using assms(2,3)
proof (induction "h_guesses h" arbitrary: h rule: rev_induct)
  case Nil
  then show ?case by (simp add: Unwind.simps [of G h])
next
  case (snoc g gs)
  obtain h' where h': "PopGuess G h = Some h'" "tinv d U A B h'" "h_guesses h' = gs"
    using PopGuess_tinv [OF snoc.prems(1), of gs g G] snoc.hyps(2) by auto
  have "I h'" using pop [OF snoc.prems _ h'(1)] snoc.hyps(2) by metis
  then obtain h'' where "Unwind G h' = Some h''" "tinv d U A B h''" "I h''" "h_guesses h'' = []"
    using snoc.hyps(1) [of h'] h' by metis
  moreover have "Unwind G h = Unwind G h'"
    using h'(1) snoc.hyps(2) by (simp add: Unwind.simps [of G h] flip: snoc.hyps(2))
  ultimately show ?case by simp
qed

end
