(* ===== verification/Search_Sound.thy ===== *)
theory Search_Sound
  imports Search_Total
begin

text \<open>
  What the search computes over a SAT backend with the laws of \<open>inter_S\<close>: its answer is
  \<^verbatim>\<open>1\<close> or \<^verbatim>\<open>-1\<close> and decides the assumptions it started from, and it leaves the solver in the test
  scope it found it in. Two more invariants describe which choices have been made: choices leave
  the deque in the order they entered it, and a choice passed over without a guess has an assumed
  candidate or none left to try.
\<close>

subsection \<open>The start of a search\<close>

definition search_bound :: "'c litMapping \<Rightarrow> nat" where
  "search_bound d = 1 + sum_list (map (\<lambda>(_, x). length (Constraints x) +
     sum_list (map (\<lambda>c. length (constraint_order c)) (Constraints x))) (variables d))"

lemma elem_le_sum_list_nat: "x \<in> set xs \<Longrightarrow> f x \<le> sum_list (map f xs)" for f :: "'a \<Rightarrow> nat"
  by (induction xs) auto

lemma bounded_search_bound: "bounded d (search_bound d)"
  unfolding bounded_def
proof
  fix x assume x: "x \<in> insert zeroVariable (snd ` set (variables d))"
  let ?f = "\<lambda>x. length (Constraints x) + sum_list (map (\<lambda>c. length (constraint_order c)) (Constraints x))"
  have "?f x \<le> search_bound d"
  proof (cases "x = zeroVariable")
    case False
    then obtain m where "(m, x) \<in> set (variables d)" using x by auto
    from elem_le_sum_list_nat [OF this, of "\<lambda>(_, x). ?f x"] show ?thesis
      by (simp add: search_bound_def)
  qed simp
  moreover have "length (constraint_order c) \<le>
      sum_list (map (\<lambda>c. length (constraint_order c)) (Constraints x))"
    if "c \<in> set (Constraints x)" for c
    using elem_le_sum_list_nat [OF that, of "\<lambda>c. length (constraint_order c)"] .
  ultimately show "length (Constraints x) \<le> search_bound d \<and>
      (\<forall>c \<in> set (Constraints x). length (constraint_order c) \<le> search_bound d)"
    by fastforce
qed

definition start_search :: "Tracer \<Rightarrow> 's \<Rightarrow> 'c litMapping \<Rightarrow> lit list \<Rightarrow> ('c, 's) search" where
  "start_search tr s d anchors =
     (new_search tr s d)\<lparr>h_choices := map (\<lambda>m. \<lparr>c_index = 0, c_candidates = [m]\<rparr>) anchors\<rparr>"

lemma push_anchors:
  "foldl (\<lambda>h m. PushChoiceBack \<lparr>c_index = 0, c_candidates = [m]\<rparr> h) h anchors =
   h\<lparr>h_choices := h_choices h @ map (\<lambda>m. \<lparr>c_index = 0, c_candidates = [m]\<rparr>) anchors\<rparr>"
  by (induction anchors arbitrary: h) (simp_all add: PushChoiceBack_def)

lemma search_Do_eq:
  "search_Do G (new_search tr s d) anchors =
     (case Do_loop G (start_search tr s d anchors) of
        None \<Rightarrow> None
      | Some h \<Rightarrow> (case Unwind G h of
           None \<Rightarrow> None
         | Some h' \<Rightarrow> Some (h_result h, real_lits (h_guesses h), set (real_lits (h_guesses h)), h')))"
  unfolding search_Do_def push_anchors start_search_def
  by (simp add: new_search_def search_Lits_def real_lits_def split: option.split)

abbreviation search_lits :: "'c litMapping \<Rightarrow> lit list \<Rightarrow> lit set" where
  "search_lits d anchors \<equiv> set anchors \<union> snd ` set (lits d)"

abbreviation sinv :: "'c litMapping \<Rightarrow> lit list \<Rightarrow> ('c, 's) search \<Rightarrow> bool" where
  "sinv d anchors \<equiv> tinv d (search_lits d anchors) (length anchors) (search_bound d)"

lemma sinv_start: "sinv d anchors (start_search tr s d anchors)"
  by (auto simp: tinv_def start_search_def new_search_def fits_def balanced_def search_bound_def)

text \<open>
  A run of the search: the loop ends in \<open>h\<close>, where the last pass started in \<open>h0\<close>, and unwinding
  the guesses ends in \<open>h'\<close>. An assertion kept by the steps of the loop and by the unwinding holds
  of all three.
\<close>

definition search_run ::
    "('c, 'k, 's) gini \<Rightarrow> Tracer \<Rightarrow> 's \<Rightarrow> 'c litMapping \<Rightarrow> lit list \<Rightarrow>
     ('c, 's) search \<Rightarrow> ('c, 's) search \<Rightarrow> ('c, 's) search \<Rightarrow> bool" where
  "search_run G tr s d anchors h h0 h' \<longleftrightarrow>
     search_Do G (new_search tr s d) anchors =
       Some (h_result h, real_lits (h_guesses h), set (real_lits (h_guesses h)), h') \<and>
     loop_exit h \<and> (h = ensure_result G h0 \<or> h = Trace G (ensure_result G h0)) \<and>
     h_guesses h' = [] \<and> (h_guesses h = [] \<longrightarrow> h' = h)"

lemma search_runD:
  assumes "search_run G tr s d anchors h h0 h'"
  shows "h_guesses h = h_guesses h0" "h_choices h = h_choices h0" "h_assumptions h = h_assumptions h0"
    "h_s h = h_s (ensure_result G h0)" "h_result h = h_result (ensure_result G h0)"
  using assms by (auto simp: search_run_def)

lemma search_Do_rule:
  fixes I :: "('c, 's) search \<Rightarrow> bool"
  assumes ens: "\<And>h. sinv d anchors h \<Longrightarrow> I h \<Longrightarrow> I (ensure_result G h)"
    and tr: "\<And>h. sinv d anchors h \<Longrightarrow> I h \<Longrightarrow> I (Trace G h)"
    and pop: "\<And>h h' gs g. sinv d anchors h \<Longrightarrow> I h \<Longrightarrow>
      h_guesses h = gs @ [g] \<Longrightarrow> PopGuess G h = Some h' \<Longrightarrow> I h'"
    and push: "\<And>h h' c cs. sinv d anchors h \<Longrightarrow> I h \<Longrightarrow> h_result h \<noteq> unsatisfiable \<Longrightarrow>
      h_choices h = c # cs \<Longrightarrow> PushGuess G h = Some h' \<Longrightarrow> I h'"
    and "I (start_search tr s d anchors)"
  shows "\<exists>h h0 h'. search_run G tr s d anchors h h0 h' \<and> sinv d anchors h \<and> I h \<and>
    sinv d anchors h0 \<and> I h0 \<and> sinv d anchors h' \<and> I h'"
proof -
  have "\<exists>h h0. Do_loop G (start_search tr s d anchors) = Some h \<and> sinv d anchors h \<and> I h \<and>
      loop_exit h \<and> sinv d anchors h0 \<and> I h0 \<and>
      (h = ensure_result G h0 \<or> h = Trace G (ensure_result G h0))"
  proof (rule Do_loop_rule [OF _ bounded_search_bound])
    show "I (ensure_result G h)" if "sinv d anchors h" "I h" for h by (rule ens [OF that])
    show "I (Trace G h)" if "sinv d anchors h" "I h" for h by (rule tr [OF that])
    show "I h'" if "sinv d anchors h" "I h" "h_guesses h = gs @ [g]" "PopGuess G h = Some h'"
      for h h' gs g by (rule pop [OF that])
    show "I h'" if "sinv d anchors h" "I h" "h_result h \<noteq> unsatisfiable" "h_choices h = c # cs"
        "PushGuess G h = Some h'" for h h' c cs by (rule push [OF that])
  qed (fact sinv_start assms(5) | auto)+
  then obtain h h0 where h: "Do_loop G (start_search tr s d anchors) = Some h" "sinv d anchors h" "I h"
      "loop_exit h" "sinv d anchors h0" "I h0"
      "h = ensure_result G h0 \<or> h = Trace G (ensure_result G h0)"
    by (elim exE conjE) (rule that)
  have "\<exists>h'. Unwind G h = Some h' \<and> sinv d anchors h' \<and> I h' \<and> h_guesses h' = []"
    by (rule Unwind_rule [where I = I, OF _ h(2,3)]) (rule pop)
  then obtain h' where h': "Unwind G h = Some h'" "sinv d anchors h'" "I h'" "h_guesses h' = []"
    by (elim exE conjE) (rule that)
  have "search_run G tr s d anchors h h0 h'"
    using h(4,7) h'(1,4) by (auto simp: search_run_def search_Do_eq h(1) Unwind.simps [of G h])
  then show ?thesis using h(2,3,5,6) h'(2,3) by blast
qed

subsection \<open>The order of choices\<close>

text \<open>
  Choices are made first in, first out: the candidates of the guesses made and of the choices
  waiting are those of the anchors, followed by those of the dependencies of each guessed variable
  in the order of the guesses.
\<close>

definition kids :: "'c litMapping \<Rightarrow> guess \<Rightarrow> lit list list" where
  "kids d g = (if g_m g = LitNull then []
     else map c_candidates (new_choices (Constraints (fst (VariableOf d (g_m g)))) d))"

definition fifo :: "'c litMapping \<Rightarrow> lit list \<Rightarrow> ('c, 's) search \<Rightarrow> bool" where
  "fifo d anchors h \<longleftrightarrow>
     map g_candidates (h_guesses h) @ map c_candidates (h_choices h) =
       map (\<lambda>m. [m]) anchors @ concat (map (kids d) (h_guesses h)) \<and>
     (\<forall>g \<in> set (h_guesses h). g_children g = length (kids d g))"

lemma same_lits_LitOf: "lits d' = lits d \<Longrightarrow> fst (LitOf d' i) = fst (LitOf d i)"
  by (simp add: LitOf_def split: option.split)

lemma same_lits_LitsOf: "lits d' = lits d \<Longrightarrow> fst (LitsOf d' is) = fst (LitsOf d is)"
proof (induction "is" arbitrary: d d')
  case (Cons i "is")
  have "lits (snd (LitOf d' i)) = lits (snd (LitOf d i))"
    using Cons.prems LitOf_frame [of d] LitOf_frame [of d'] by (metis prod.collapse)
  from Cons.IH [OF this] same_lits_LitOf [OF Cons.prems, of i] show ?case
    by (simp add: split_beta Let_def)
qed simp

lemma new_choices_eq:
  "same_mapping d d' \<Longrightarrow> new_choices cs d' =
     map (\<lambda>ms. \<lparr>c_index = 0, c_candidates = ms\<rparr>)
       (filter (\<lambda>ms. ms \<noteq> []) (map (\<lambda>c. fst (LitsOf d (constraint_order c))) cs))"
proof (induction cs arbitrary: d')
  case (Cons c cs)
  obtain ms d2 where d2: "LitsOf d' (constraint_order c) = (ms, d2)" by force
  have "same_mapping d d2" using LitsOf_same [OF d2] same_mapping_trans Cons.prems by blast
  moreover have "ms = fst (LitsOf d (constraint_order c))"
    using same_lits_LitsOf [OF same_mappingD(1) [OF Cons.prems], of "constraint_order c"] d2 by simp
  ultimately show ?case using Cons.IH [of d2] d2 by simp
qed simp

lemma new_choices_same:
  "same_mapping d d' \<Longrightarrow> new_choices cs d' = new_choices cs d"
  using new_choices_eq [of d d' cs] new_choices_eq [OF same_mapping_refl, of cs d] by simp

lemma VariableOf_fst: "same_mapping d d' \<Longrightarrow> fst (VariableOf d' m) = fst (VariableOf d m)"
  by (simp add: VariableOf_def same_mappingD(2) split: option.split)

lemma fifo_push:
  assumes inv: "tinv d U A B h" and fifo: "fifo d anchors h" and ch: "h_choices h = c # cs"
    and push: "PushGuess G h = Some h'"
  shows "fifo d anchors h'"
proof (cases "guess_lit c (h_assumptions h) = LitNull")
  case True
  then show ?thesis using PushGuess_null [OF ch True, of G] push fifo ch
    by (auto simp: fifo_def kids_def)
next
  case False
  let ?m = "guess_lit c (h_assumptions h)"
  obtain v d1 where v: "VariableOf (h_lits h) ?m = (v, d1)" by force
  obtain r s where t: "S_Test G (S_Assume G [?m] (h_s h)) = (r, s)" by force
  have sd: "same_mapping d (h_lits h)" using inv by (simp add: tinv_def)
  have "same_mapping d d1" using VariableOf_same [OF v] same_mapping_trans [OF sd] by blast
  moreover have "v = fst (VariableOf d ?m)" using VariableOf_fst [OF sd, of ?m] v by simp
  ultimately have kids: "map c_candidates (new_choices (Constraints v) d1) =
      kids d (guess_of c ?m (length (new_choices (Constraints v) d1)))"
    using False new_choices_same [of d d1] by (simp add: kids_def)
  then have len: "length (kids d (guess_of c ?m (length (new_choices (Constraints v) d1)))) =
      length (new_choices (Constraints v) d1)"
    by (metis length_map)
  have h': "h_choices h' = cs @ new_choices (Constraints v) d1"
      "h_guesses h' = h_guesses h @ [guess_of c ?m (length (new_choices (Constraints v) d1))]"
    using PushGuess_real [OF ch refl False v refl t] push by auto
  show ?thesis using fifo ch kids len unfolding fifo_def h' by simp
qed

lemma fifo_pop:
  assumes inv: "tinv d U A B h" and fifo: "fifo d anchors h" and gs: "h_guesses h = gs @ [g]"
    and pop: "PopGuess G h = Some h'"
  shows "fifo d anchors h'"
proof -
  let ?n = "length (h_choices h) - g_children g"
  have n: "g_children g \<le> length (h_choices h)"
    using inv gs balanced_pop [of A gs g] by (auto simp: tinv_def)
  have h': "h_guesses h' = gs" "h_choices h' = choice_of g # take ?n (h_choices h)"
    using PopGuess_eq [OF gs n, of G] pop by auto
  have "map g_candidates gs @ g_candidates g # map c_candidates (take ?n (h_choices h)) @
      map c_candidates (drop ?n (h_choices h)) =
      (map (\<lambda>m. [m]) anchors @ concat (map (kids d) gs)) @ kids d g"
    using fifo unfolding fifo_def gs map_append [symmetric] append_take_drop_id by simp
  moreover have "length (map c_candidates (drop ?n (h_choices h))) = length (kids d g)"
    using fifo gs n by (simp add: fifo_def)
  ultimately have "map g_candidates gs @ g_candidates g # map c_candidates (take ?n (h_choices h)) =
      map (\<lambda>m. [m]) anchors @ concat (map (kids d) gs)"
    by - (rule append_same_suffix [of _ "map c_candidates (drop ?n (h_choices h))" _ "kids d g"], simp_all)
  then show ?thesis using fifo gs unfolding fifo_def h' by (simp add: choice_of_def)
qed

lemma fifo_start: "fifo d anchors (start_search tr s d anchors)"
  by (simp add: fifo_def start_search_def new_search_def comp_def)

lemma fifo_run:
  "\<exists>h h0 h'. search_run G tr s d anchors h h0 h' \<and> sinv d anchors h \<and> fifo d anchors h \<and>
     sinv d anchors h0 \<and> fifo d anchors h0 \<and> sinv d anchors h' \<and> fifo d anchors h'"
proof (rule search_Do_rule)
  show "fifo d anchors (ensure_result G h)" "fifo d anchors (Trace G h)" if "fifo d anchors h"
    for h
    using that by (simp_all add: fifo_def)
qed (rule fifo_start fifo_push fifo_pop; assumption)+

text \<open>
  Whatever the SAT backend answers, the search returns, without guessing a literal twice, and with
  the guesses undone and the choices as they were.
\<close>

lemma search_Do_returns:
  "\<exists>r ms h'. search_Do G (new_search tr s d) anchors = Some (r, ms, set ms, h') \<and> distinct ms \<and>
     set ms \<subseteq> set anchors \<union> snd ` set (lits d) \<and> h_guesses h' = [] \<and> h_assumptions h' = {} \<and>
     map c_candidates (h_choices h') = map (\<lambda>m. [m]) anchors \<and> same_mapping d (h_lits h')"
proof -
  obtain h h0 h' where run: "search_run G tr s d anchors h h0 h'" and h: "sinv d anchors h"
      "sinv d anchors h'" "fifo d anchors h'"
    using fifo_run [of G tr s d anchors] by blast
  have r: "search_Do G (new_search tr s d) anchors =
       Some (h_result h, real_lits (h_guesses h), set (real_lits (h_guesses h)), h')"
      "h_guesses h' = []"
    using run by (simp_all add: search_run_def)
  have "set (real_lits (h_guesses h)) \<subseteq> set anchors \<union> snd ` set (lits d)"
    using h(1) nth_mem by (fastforce simp: tinv_def real_lits_def guess_ok_def fits_def)
  moreover have "distinct (real_lits (h_guesses h))" "h_assumptions h' = {}"
      "same_mapping d (h_lits h')" "map c_candidates (h_choices h') = map (\<lambda>m. [m]) anchors"
    using h r(2) by (simp_all add: tinv_def fifo_def)
  ultimately show ?thesis using r by (intro exI conjI)
qed

subsection \<open>What the search decides\<close>

context inter_S
begin

definition guess_scopes :: "guess list \<Rightarrow> lit list list" where
  "guess_scopes gs = rev (map (\<lambda>m. [m]) (real_lits gs))"

definition known :: "'s \<Rightarrow> int \<Rightarrow> bool" where
  "known s r \<longleftrightarrow> r \<in> {-1, 0, 1} \<and> conflicted s = (r = -1) \<and>
     (r = -1 \<longrightarrow> \<not> satisfiable_with (clauses s) (set (concat (scopes s)))) \<and>
     (r = 1 \<longrightarrow> satisfiable_with (clauses s) (set (concat (scopes s))))"

definition scoped :: "'s \<Rightarrow> ('c, 's) search \<Rightarrow> bool" where
  "scoped s0 h \<longleftrightarrow> clauses (h_s h) = clauses s0 \<and> pending (h_s h) = [] \<and>
     scopes (h_s h) = guess_scopes (h_guesses h) @ scopes s0 \<and> known (h_s h) (h_result h)"

lemma scoped_ensure:
  assumes "scoped s0 h"
  shows "scoped s0 (ensure_result G h)"
proof (cases "h_choices h = [] \<and> h_result h = unknown")
  case True
  obtain r s where s: "S_Solve G (h_s h) = (r, s)" by force
  show ?thesis
    using True assms s Solve_state [OF s] Solve_iff [OF s]
    by (auto simp: scoped_def known_def ensure_result_def)
next
  case False
  then show ?thesis using assms by (auto simp: ensure_result_def)
qed

lemma scoped_Trace: "scoped s0 h \<Longrightarrow> scoped s0 (Trace G h)"
  by (simp add: scoped_def)

lemma scoped_push:
  assumes "scoped s0 h" and sat: "h_result h \<noteq> unsatisfiable" and ch: "h_choices h = c # cs"
    and push: "PushGuess G h = Some h'"
  shows "scoped s0 h'"
proof (cases "guess_lit c (h_assumptions h) = LitNull")
  case True
  then show ?thesis using PushGuess_null [OF ch True, of G] push assms(1)
    by (auto simp: scoped_def guess_scopes_def)
next
  case False
  let ?m = "guess_lit c (h_assumptions h)"
  obtain v d1 where v: "VariableOf (h_lits h) ?m = (v, d1)" by force
  obtain r s where t: "S_Test G (S_Assume G [?m] (h_s h)) = (r, s)" by force
  have h': "h_s h' = s" "h_result h' = r" "real_lits (h_guesses h') = real_lits (h_guesses h) @ [?m]"
    using PushGuess_real [OF ch refl False v refl t] push False by auto
  have nc: "\<not> conflicted (S_Assume G [?m] (h_s h))"
    using assms(1) sat by (simp add: scoped_def known_def Assume result_defs)
  show ?thesis
    using assms(1) h' Test_state [OF nc t] Test_unsat [OF nc] Test_sat_iff [OF nc] t
    by (auto simp: scoped_def known_def guess_scopes_def Assume)
qed

lemma scoped_pop:
  assumes "scoped s0 h" and gs: "h_guesses h = gs @ [g]" and inv: "tinv d U A B h"
    and pop: "PopGuess G h = Some h'"
  shows "scoped s0 h'"
proof -
  have h': "h_guesses h' = gs" "h_result h' = h_result (undo G g h)" "h_s h' = h_s (undo G g h)"
    using PopGuess_tinv [OF inv gs, of G] pop by auto
  show ?thesis
  proof (cases "g_m g = LitNull")
    case True
    then show ?thesis using assms(1) gs h' by (simp add: scoped_def undo_def guess_scopes_def)
  next
    case False
    obtain r s where u: "S_Untest G (h_s h) = (r, s)" by force
    have sc: "scopes (h_s h) = [g_m g] # guess_scopes gs @ scopes s0"
      using assms(1) gs False by (simp add: scoped_def guess_scopes_def)
    have none: "pending (h_s h) = []" using assms(1) by (simp add: scoped_def)
    show ?thesis
      using assms(1) False h' u Untest_state [OF sc none u] Untest_unsat [OF sc none]
      by (auto simp: scoped_def known_def undo_def)
  qed
qed

text \<open>
  Started in a scope that is not known to be unsatisfiable, the search answers \<^verbatim>\<open>1\<close> when the
  assumptions of the scope can be met and \<^verbatim>\<open>-1\<close> otherwise, and returns to the same scope. With
  \<^verbatim>\<open>1\<close>, the guesses can be met together with them.
\<close>

lemma search_Do_decides:
  assumes "pending s = []" and "\<not> conflicted s"
  obtains r ms h' where "search_Do G (new_search tr s d) anchors = Some (r, ms, set ms, h')"
    "scopes (h_s h') = scopes s" "clauses (h_s h') = clauses s" "pending (h_s h') = []"
    "if satisfiable_with (clauses s) (set (concat (scopes s)))
     then r = satisfiable \<and> satisfiable_with (clauses s) (set (concat (scopes s)) \<union> set ms)
     else r = unsatisfiable \<and> conflicted (h_s h')"
    "same_mapping d (h_lits h')"
proof -
  have start: "scoped s (start_search tr s d anchors)"
    using assms by (simp add: scoped_def start_search_def new_search_def guess_scopes_def known_def)
  have "\<exists>h h0 h'. search_run G tr s d anchors h h0 h' \<and> sinv d anchors h \<and> scoped s h \<and>
    sinv d anchors h0 \<and> scoped s h0 \<and> sinv d anchors h' \<and> scoped s h'"
    by (rule search_Do_rule)
      (rule scoped_ensure scoped_Trace scoped_pop scoped_push start; assumption)+
  then obtain h h0 h' where run: "search_run G tr s d anchors h h0 h'" and h: "scoped s h" "scoped s h0"
      "sinv d anchors h'" "scoped s h'"
    by blast
  have kn: "known (h_s h) (h_result h)" "scopes (h_s h) = guess_scopes (h_guesses h) @ scopes s"
      "clauses (h_s h) = clauses s"
    using h(1) by (auto simp: scoped_def)
  have dec: "h_result h = satisfiable \<or> h_result h = unsatisfiable"
  proof (cases "h_result h = unsatisfiable")
    case False
    then have "h_choices h0 = []"
      using run search_runD(2) [OF run] by (simp add: search_run_def loop_exit_def)
    moreover obtain r t where t: "S_Solve G (h_s h0) = (r, t)" by force
    ultimately show ?thesis
      using search_runD(5) [OF run] Solve_state [OF t] h(2) False t
      by (auto simp: ensure_result_def scoped_def known_def result_defs split: if_splits)
  qed simp
  have conc: "set (concat (scopes (h_s h))) = set (concat (scopes s)) \<union> set (real_lits (h_guesses h))"
    using kn(2) by (auto simp: guess_scopes_def)
  have res: "if satisfiable_with (clauses s) (set (concat (scopes s)))
     then h_result h = satisfiable \<and>
       satisfiable_with (clauses s) (set (concat (scopes s)) \<union> set (real_lits (h_guesses h)))
     else h_result h = unsatisfiable \<and> conflicted (h_s h')"
  proof (cases "h_result h = unsatisfiable")
    case True
    then have "h_guesses h = []" "h' = h" using run by (auto simp: search_run_def loop_exit_def)
    then show ?thesis using True kn conc by (auto simp: known_def result_defs)
  next
    case False
    then have "satisfiable_with (clauses s) (set (concat (scopes s)) \<union> set (real_lits (h_guesses h)))"
      using dec kn(1,3) conc by (simp add: known_def result_defs)
    moreover from this have "satisfiable_with (clauses s) (set (concat (scopes s)))"
      by (rule satisfiable_with_mono) simp
    ultimately show ?thesis using dec False by simp
  qed
  have run': "h_guesses h' = []" "search_Do G (new_search tr s d) anchors =
       Some (h_result h, real_lits (h_guesses h), set (real_lits (h_guesses h)), h')"
    using run by (simp_all add: search_run_def)
  show ?thesis
  proof (rule that [OF run'(2) _ _ _ res])
    show "same_mapping d (h_lits h')" using h(3) by (simp add: tinv_def)
  qed (use h(4) run'(1) in \<open>auto simp: scoped_def guess_scopes_def\<close>)
qed

end

end
