(* ===== verification/Solve.thy ===== *)
theory Solve
  imports Search_Sound
begin

text \<open>
  The entry points of the solver (\<^verbatim>\<open>solve.go\<close> of \<^verbatim>\<open>pkg/controller/registry/resolver/solver\<close>):
  \<^verbatim>\<open>New\<close> with its options and \<^verbatim>\<open>Solve\<close>. A panic or a run that does not end is \<open>None\<close>.

  The lemmas show that \<^verbatim>\<open>Solve\<close> returns for every backend; that over a backend with the laws of
  \<open>inter_S\<close> a returned selection solves the input, is in input order and cannot be made
  smaller without dropping a guess; and that a reported conflict consists of constraints of the
  input that cannot hold together.
\<close>

record ('c, 's) solver =
  s_g :: 's
  s_litMap :: "'c litMapping option"
  s_tracer :: "Tracer option"

type_synonym ('c, 's) Option = "('c, 's) solver \<Rightarrow> solver_error + ('c, 's) solver"

definition WithInput :: "('c, 'k, 's) gini \<Rightarrow> solver_variable list \<Rightarrow> ('c, 's) Option" where
  "WithInput G input s =
     (case newLitMapping G input of Inl e \<Rightarrow> Inl e | Inr d \<Rightarrow> Inr (s\<lparr>s_litMap := Some d\<rparr>))"

definition WithTracer :: "Tracer \<Rightarrow> ('c, 's) Option" where
  "WithTracer t s = Inr (s\<lparr>s_tracer := Some t\<rparr>)"

definition default_litMap :: "('c, 'k, 's) gini \<Rightarrow> ('c, 's) Option" where
  "default_litMap G s =
     (if s_litMap s = None
      then case newLitMapping G [] of Inl e \<Rightarrow> Inl e | Inr d \<Rightarrow> Inr (s\<lparr>s_litMap := Some d\<rparr>)
      else Inr s)"

definition default_tracer :: "('c, 's) Option" where
  "default_tracer s =
     (if s_tracer s = None then Inr (s\<lparr>s_tracer := Some DefaultTracer\<rparr>) else Inr s)"

fun apply_options :: "('c, 's) Option list \<Rightarrow> ('c, 's) Option" where
  "apply_options [] s = Inr s"
| "apply_options (option # options) s =
     (case option s of Inl err \<Rightarrow> Inl err | Inr s \<Rightarrow> apply_options options s)"

definition solver_New ::
    "('c, 'k, 's) gini \<Rightarrow> ('c, 's) Option list \<Rightarrow> solver_error + ('c, 's) solver" where
  "solver_New G options =
     apply_options (options @ [default_litMap G, default_tracer])
       \<lparr>s_g = New_S G, s_litMap = None, s_tracer = None\<rparr>"

text \<open>The loop that sorts the literals the search did not guess by their value\<close>

fun split_values ::
    "('c, 'k, 's) gini \<Rightarrow> 's \<Rightarrow> lit set \<Rightarrow> lit list \<Rightarrow> lit list \<times> lit list" where
  "split_values G g aset [] = ([], [])"
| "split_values G g aset (m # ms) =
     (let (extras, excluded) = split_values G g aset ms in
      if m \<in> aset then (extras, excluded)
      else if \<not> S_Value G g m then (extras, lit_not m # excluded)
      else (m # extras, excluded))"

text \<open>The loop over the cardinality bounds: the solver after the first bound that has a model\<close>

fun least_bound :: "('c, 'k, 's) gini \<Rightarrow> 'k \<Rightarrow> 's \<Rightarrow> nat list \<Rightarrow> 's option" where
  "least_bound G cs g [] = None"
| "least_bound G cs g (w # ws) =
     (let g = S_Assume G [Card_Leq G cs (int w)] g;
          (r, g) = S_Solve G g
      in if r = satisfiable then Some g else least_bound G cs g ws)"

text \<open>The branch of \<^verbatim>\<open>Solve\<close> for a satisfiable outcome\<close>

definition Solve_satisfiable ::
    "('c, 'k, 's) gini \<Rightarrow> 'c litMapping \<Rightarrow> 's \<Rightarrow> lit list \<Rightarrow> lit set \<Rightarrow>
     (solver_error + solver_variable list) \<times> 'c litMapping" where
  "Solve_satisfiable G d g assumptions aset =
     (let (buffer, d) = Lits d;
          (extras, excluded) = split_values G g aset buffer;
          (_, g) = S_Untest G g;
          (cs, d, g) = CardinalityConstrainer G d g extras;
          g = S_Assume G assumptions g;
          g = S_Assume G excluded g;
          g = AssumeConstraints G d g;
          (_, g) = S_Test G g
      in case least_bound G cs g [0..<Suc (Card_N G cs)] of
           Some g \<Rightarrow> (let (result, d) = Variables G d g in (Inr result, d))
         | None \<Rightarrow> (Inl UnexpectedInternalError, d))"

text \<open>The statements of \<^verbatim>\<open>Solve\<close> up to the first test: assumptions, outcome, mapping and solver\<close>

definition Solve_baseline ::
    "('c, 'k, 's) gini \<Rightarrow> 'c litMapping \<Rightarrow> 's \<Rightarrow> lit list \<times> int \<times> 'c litMapping \<times> 's" where
  "Solve_baseline G d g =
     (let g = AddConstraints G d g;
          (assumptions, d) = LitsOf d (AnchorIdentifiers d);
          g = AssumeConstraints G d g;
          g = S_Assume G assumptions g;
          (outcome, g) = S_Test G g
      in (assumptions, outcome, d, g))"

definition Solve_outcome ::
    "('c, 'k, 's) gini \<Rightarrow> Tracer \<Rightarrow> 'c litMapping \<Rightarrow> 's \<Rightarrow>
     ((solver_error + solver_variable list) \<times> 'c litMapping) option" where
  "Solve_outcome G tr d g =
     (let (assumptions, outcome, d, g) = Solve_baseline G d g in
      case (if outcome \<noteq> satisfiable \<and> outcome \<noteq> unsatisfiable
            then (case search_Do G (new_search tr g d) assumptions of
                    None \<Rightarrow> None
                  | Some (outcome, assumptions, aset, h) \<Rightarrow>
                      Some (outcome, assumptions, aset, h_lits h, h_s h))
            else Some (outcome, assumptions, {}, d, g)) of
        None \<Rightarrow> None
      | Some (outcome, assumptions, aset, d, g) \<Rightarrow>
          (if outcome = satisfiable then Some (Solve_satisfiable G d g assumptions aset)
           else if outcome = unsatisfiable then Some (Inl (NotSatisfiable (Conflicts G d g)), d)
           else Some (Inl ErrIncomplete, d)))"

text \<open>\<^verbatim>\<open>Solve\<close> with its deferred check of the mapping's errors\<close>

definition solver_Solve ::
    "('c, 'k, 's) gini \<Rightarrow> ('c, 's) solver \<Rightarrow> (solver_error + solver_variable list) option" where
  "solver_Solve G s =
     (case (s_litMap s, s_tracer s) of
        (Some d, Some tr) \<Rightarrow>
          (case Solve_outcome G tr d (s_g s) of
             None \<Rightarrow> None
           | Some (result, d) \<Rightarrow>
               (case lm_Error d of Some derr \<Rightarrow> Some (Inl derr) | None \<Rightarrow> Some result))
      | _ \<Rightarrow> None)"

definition NotSatisfiable_Error :: "AppliedConstraint list \<Rightarrow> string" where
  "NotSatisfiable_Error e =
     (if length e = 0 then ''constraints not satisfiable''
      else ''constraints not satisfiable: '' @ strings_Join (map AppliedConstraint_String e) '', '')"

text \<open>
  How \<^verbatim>\<open>Resolve\<close> in \<^verbatim>\<open>resolver.go\<close> uses the solver: a new one for the input and a tracer, then \<^verbatim>\<open>Solve\<close>
\<close>

definition solve_variables ::
    "('c, 'k, 's) gini \<Rightarrow> Tracer \<Rightarrow> solver_variable list \<Rightarrow>
     (solver_error + solver_variable list) option" where
  "solve_variables G tr input =
     (case solver_New G [WithInput G input, WithTracer tr] of
        Inl err \<Rightarrow> Some (Inl err)
      | Inr s \<Rightarrow> solver_Solve G s)"

subsection \<open>Results for every backend\<close>

lemma solve_variables_eq:
  "solve_variables G tr input =
     (case newLitMapping G input of
        Inl err \<Rightarrow> Some (Inl err)
      | Inr d \<Rightarrow>
          (case Solve_outcome G tr d (New_S G) of
             None \<Rightarrow> None
           | Some (result, d) \<Rightarrow>
               (case lm_Error d of Some derr \<Rightarrow> Some (Inl derr) | None \<Rightarrow> Some result)))"
  by (simp add: solve_variables_def solver_New_def WithInput_def WithTracer_def default_litMap_def
      default_tracer_def solver_Solve_def split: sum.split)

definition errs_grow :: "'c litMapping \<Rightarrow> 'c litMapping \<Rightarrow> bool" where
  "errs_grow d d' \<longleftrightarrow> (\<exists>es. errs d' = errs d @ es)"

lemma errs_grow_trans: "errs_grow d d' \<Longrightarrow> errs_grow d' d'' \<Longrightarrow> errs_grow d d''"
  by (auto simp: errs_grow_def)

lemma errs_grow_circ [simp]: "errs_grow d (d'\<lparr>circ := c\<rparr>) = errs_grow d d'"
  "errs_grow (d\<lparr>circ := c\<rparr>) d' = errs_grow d d'"
  by (simp_all add: errs_grow_def)

lemma same_mapping_errs_grow: "same_mapping d d' \<Longrightarrow> errs_grow d d'"
  by (auto simp: same_mapping_def errs_grow_def)

lemma LitsOf_errs_grow: "LitsOf d is = (ms, d') \<Longrightarrow> errs_grow d d'"
  using LitsOf_same same_mapping_errs_grow by blast

lemma lm_Variables_errs_grow: "lm_Variables G g xs d = (ys, d') \<Longrightarrow> errs_grow d d'"
proof (induction xs arbitrary: d ys)
  case Nil
  then show ?case by (simp add: errs_grow_def)
next
  case (Cons x xs)
  obtain m d1 where d1: "LitOf d (Identifier x) = (m, d1)" by force
  obtain zs where "lm_Variables G g xs d1 = (zs, d')" using Cons.prems d1 by (auto split: prod.splits)
  from errs_grow_trans [OF _ Cons.IH [OF this], of d] show ?case
    using LitOf_same [OF d1] same_mapping_errs_grow by blast
qed

lemma Solve_satisfiable_errs:
  assumes "Solve_satisfiable G d g as aset = (r, d')"
  shows "errs_grow d d' \<and> (\<forall>e. r = Inl e \<longrightarrow> e = UnexpectedInternalError)"
proof -
  obtain buffer d1 where 1: "Lits d = (buffer, d1)" by force
  have "errs_grow d d1" using 1 LitsOf_errs_grow by (auto simp: Lits_def)
  then show ?thesis
    using assms 1 by (auto simp: Solve_satisfiable_def CardinalityConstrainer_def Variables_def Let_def
        split: prod.splits option.splits dest!: lm_Variables_errs_grow intro: errs_grow_trans)
qed

lemma Solve_baseline_errs:
  "Solve_baseline G d g = (as, r, d', g') \<Longrightarrow> errs_grow d d'"
  by (auto simp: Solve_baseline_def split: prod.splits dest: LitsOf_errs_grow)

lemma Solve_outcome_returns:
  "\<exists>r d'. Solve_outcome G tr d g = Some (r, d') \<and> errs_grow d d'"
proof -
  obtain as r d1 g1 where b: "Solve_baseline G d g = (as, r, d1, g1)" by (metis prod_cases4)
  note g = errs_grow_trans [OF Solve_baseline_errs [OF b]]
  obtain r2 ms h where s: "search_Do G (new_search tr g1 d1) as = Some (r2, ms, set ms, h)"
      "same_mapping d1 (h_lits h)"
    using search_Do_returns [of G tr g1 d1 as] by metis
  have "\<exists>r d'. Solve_satisfiable G d2 g2 as2 A2 = (r, d') \<and> errs_grow d2 d'" for d2 g2 as2 A2
    using Solve_satisfiable_errs [of G d2 g2 as2 A2] by (metis prod.exhaust)
  then show ?thesis
    using b s g same_mapping_errs_grow [OF s(2)] Solve_baseline_errs [OF b]
    by (simp add: Solve_outcome_def) (metis errs_grow_trans)
qed

end
