(* ===== verification/Ref_Gini.thy ===== *)
theory Ref_Gini
  imports Gini
begin

text \<open>
  An executable implementation of the record \<open>gini\<close> that satisfies the laws of \<open>logic_C\<close>
  and \<open>inter_S\<close>: circuits are lists of gates, the solver decides its queries by backtracking
  over the variables in order. Its argument says how much \<^verbatim>\<open>Test\<close> and \<^verbatim>\<open>Untest\<close> find out, which
  the interface leaves open between two extremes: with \<open>eager\<close> they decide the scoped
  assumptions, without it they always answer \<^verbatim>\<open>0\<close> (unknown). Theorems about the solver that have
  the laws as hypotheses are applied to this implementation to show that the hypotheses can hold.
\<close>

datatype gate = Inp | OrG lit lit | LeqG "lit list" int

type_synonym circuit = "gate list"

definition node_lit :: "nat \<Rightarrow> lit" where
  "node_lit i = 2 * (i + 1)"

definition ref_wires :: "circuit \<Rightarrow> lit set" where
  "ref_wires c = {m. 2 \<le> m \<and> m < 2 * (length c + 1)}"

fun gate_refs :: "gate \<Rightarrow> lit list" where
  "gate_refs Inp = []"
| "gate_refs (OrG a b) = [a, b]"
| "gate_refs (LeqG ms n) = ms"

fun gate_val :: "gate \<Rightarrow> valuation \<Rightarrow> bool \<Rightarrow> bool" where
  "gate_val Inp v b = b"
| "gate_val (OrG x y) v b = (v x \<or> v y)"
| "gate_val (LeqG ms n) v b = (int (length (filter v ms)) \<le> n)"

text \<open>A gate is meaningful when it reads earlier wires only; others constrain nothing.\<close>

definition gate_ok :: "circuit \<Rightarrow> valuation \<Rightarrow> nat \<Rightarrow> bool" where
  "gate_ok c v i \<longleftrightarrow>
     ((\<forall>m \<in> set (gate_refs (c ! i)). 2 \<le> m \<and> m < 2 * (i + 1)) \<longrightarrow>
      v (node_lit i) = gate_val (c ! i) v (v (node_lit i)))"

definition ref_gates :: "circuit \<Rightarrow> valuation \<Rightarrow> bool" where
  "ref_gates c v \<longleftrightarrow> (\<forall>i \<in> {0..<length c}. gate_ok c v i)"

definition ref_Lit :: "circuit \<Rightarrow> lit \<times> circuit" where
  "ref_Lit c = (node_lit (length c), c @ [Inp])"

definition ref_Or :: "circuit \<Rightarrow> lit \<Rightarrow> lit \<Rightarrow> lit \<times> circuit" where
  "ref_Or c a b = (node_lit (length c), c @ [OrG a b])"

definition ref_CardSort :: "circuit \<Rightarrow> lit list \<Rightarrow> (nat \<times> nat) \<times> circuit" where
  "ref_CardSort c ms =
     ((length c, length ms), c @ map (\<lambda>i. LeqG ms (int i - 1)) [0..<length ms + 2])"

definition ref_Leq :: "nat \<times> nat \<Rightarrow> int \<Rightarrow> lit" where
  "ref_Leq k n = node_lit (fst k + nat (min (max n (- 1)) (int (snd k)) + 1))"

subsection \<open>Circuit laws\<close>

lemma ref_wires_append: "ref_wires c \<subseteq> ref_wires (c @ d)"
  by (auto simp: ref_wires_def)

lemma gate_val_cong:
  "(\<forall>m \<in> set (gate_refs g). v m = w m) \<Longrightarrow> gate_val g v b = gate_val g w b"
  by (cases g) (auto cong: filter_cong)

lemma gate_ok_cong:
  assumes "\<forall>m. 2 \<le> m \<and> m < 2 * (i + 2) \<longrightarrow> v m = w m"
  shows "gate_ok c v i = gate_ok c w i"
proof (cases "\<forall>m \<in> set (gate_refs (c ! i)). 2 \<le> m \<and> m < 2 * (i + 1)")
  case True
  then have "gate_val (c ! i) v (v (node_lit i)) = gate_val (c ! i) w (v (node_lit i))"
    using assms by (intro gate_val_cong) auto
  moreover have "v (node_lit i) = w (node_lit i)"
    using assms by (simp add: node_lit_def)
  ultimately show ?thesis by (simp add: gate_ok_def)
qed (auto simp: gate_ok_def)

lemma gate_ok_append: "i < length c \<Longrightarrow> gate_ok (c @ d) v i = gate_ok c v i"
  by (simp add: gate_ok_def nth_append)

lemma ref_gates_append:
  "ref_gates (c @ d) v \<longleftrightarrow>
     ref_gates c v \<and> (\<forall>i \<in> {length c..<length c + length d}. gate_ok (c @ d) v i)"
proof -
  have "{0..<length (c @ d)} = {0..<length c} \<union> {length c..<length c + length d}"
    by auto
  then show ?thesis
    unfolding ref_gates_def by (simp only: ball_Un) (simp add: gate_ok_append)
qed

lemma ref_gates_cong:
  assumes "\<forall>m \<in> ref_wires c. v m = w m"
  shows "ref_gates c v = ref_gates c w"
proof -
  have "gate_ok c v i = gate_ok c w i" if "i < length c" for i
    by (rule gate_ok_cong) (use assms that in \<open>auto simp: ref_wires_def\<close>)
  then show ?thesis by (auto simp: ref_gates_def)
qed

definition set_var :: "valuation \<Rightarrow> nat \<Rightarrow> bool \<Rightarrow> valuation" where
  "set_var v i b = (\<lambda>m. if m div 2 = i + 1 then b = even m else v m)"

lemma lit_not_div [simp]: "lit_not m div 2 = m div 2"
  by (auto simp: lit_not_def elim: oddE)

lemma even_lit_not [simp]: "even (lit_not m) = odd m"
  by (auto simp: lit_not_def elim: oddE)

lemma proper_set_var: "proper v \<Longrightarrow> proper (set_var v i b)"
  by (auto simp: proper_def set_var_def)

lemma set_var_node [simp]: "set_var v i b (node_lit i) = b"
  by (simp add: set_var_def node_lit_def)

lemma set_var_old: "m < 2 * (i + 1) \<Longrightarrow> set_var v i b m = v m"
  by (auto simp: set_var_def)

lemma set_var_wires: "m \<in> ref_wires c \<Longrightarrow> set_var v (length c) b m = v m"
  by (simp add: ref_wires_def set_var_old)

text \<open>Appending one gate over existing wires extends a circuit.\<close>

lemma snoc_gates:
  assumes "proper v" and "ref_gates c v"
    and "set (gate_refs g) \<subseteq> ref_wires c" and "g = Inp \<or> b = gate_val g v b"
  shows "ref_gates (c @ [g]) (set_var v (length c) b)"
proof -
  let ?w = "set_var v (length c) b"
  have "ref_gates c ?w"
    using assms(2) ref_gates_cong [of c v ?w] by (simp add: set_var_wires)
  moreover have "gate_val g ?w b = gate_val g v b"
    by (rule gate_val_cong) (use assms(3) set_var_wires in blast)
  ultimately show ?thesis
    using assms(4) by (cases "g = Inp") (auto simp: ref_gates_append gate_ok_def)
qed

lemma snoc_extends:
  assumes "set (gate_refs g) \<subseteq> ref_wires c"
  shows "extends ref_wires ref_gates c (c @ [g])"
  unfolding extends_def
proof (intro conjI allI impI)
  show "ref_wires c \<subseteq> ref_wires (c @ [g])" by (rule ref_wires_append)
next
  fix v assume "ref_gates (c @ [g]) v" then show "ref_gates c v"
    by (simp add: ref_gates_append)
next
  fix v assume v: "proper v" "ref_gates c v"
  let ?b = "gate_val g v False"
  have "g = Inp \<or> ?b = gate_val g v ?b" by (cases g) auto
  then have "ref_gates (c @ [g]) (set_var v (length c) ?b)"
    using v assms by (intro snoc_gates) auto
  then show "\<exists>v'. proper v' \<and> ref_gates (c @ [g]) v' \<and> (\<forall>m \<in> ref_wires c. v' m = v m)"
    using v(1) by (intro exI [of _ "set_var v (length c) ?b"])
      (simp add: proper_set_var set_var_wires)
qed

lemma append_extends:
  "\<forall>g \<in> set d. set (gate_refs g) \<subseteq> ref_wires c \<Longrightarrow> extends ref_wires ref_gates c (c @ d)"
proof (induction d rule: rev_induct)
  case Nil
  then show ?case by simp
next
  case (snoc g d)
  have "extends ref_wires ref_gates c (c @ d)" using snoc by simp
  moreover have "extends ref_wires ref_gates (c @ d) ((c @ d) @ [g])"
    using snoc.prems ref_wires_append by (intro snoc_extends) fastforce
  ultimately show ?case using extends_trans by fastforce
qed

lemma node_value:
  assumes "ref_gates c v" and "i < length c" and "c ! i = g"
    and "\<forall>m \<in> set (gate_refs g). 2 \<le> m \<and> m < 2 * (i + 1)"
  shows "v (node_lit i) = gate_val g v (v (node_lit i))"
  using assms unfolding ref_gates_def gate_ok_def
  by (metis atLeast0LessThan lessThan_iff)

lemma ref_Or_value:
  assumes "a \<in> ref_wires c" and "b \<in> ref_wires c" and "ref_gates (c @ [OrG a b]) v"
  shows "v (node_lit (length c)) = (v a \<or> v b)"
  using node_value [OF assms(3), of "length c" "OrG a b"] assms(1,2)
  by (simp add: ref_wires_def)

lemma ref_Leq_value:
  assumes ms: "set ms \<subseteq> ref_wires c" and k: "ref_CardSort c ms = (k, c')"
    and v: "ref_gates c' v"
  shows "v (ref_Leq k n) = (int (length (filter v ms)) \<le> n)"
proof -
  let ?j = "nat (min (max n (- 1)) (int (length ms)) + 1)"
  have c': "c' = c @ map (\<lambda>i. LeqG ms (int i - 1)) [0..<length ms + 2]"
    and leq: "ref_Leq k n = node_lit (length c + ?j)"
    using k by (auto simp: ref_CardSort_def ref_Leq_def)
  have j: "?j < length ms + 2" by linarith
  have nth: "c' ! (length c + ?j) = LeqG ms (int ?j - 1)"
    using j by (simp add: c' nth_append del: upt_Suc)
  have "v (ref_Leq k n) = gate_val (LeqG ms (int ?j - 1)) v (v (node_lit (length c + ?j)))"
    unfolding leq
    by (rule node_value [OF v _ nth]) (use j ms in \<open>force simp: c' ref_wires_def\<close>)+
  moreover have "length (filter v ms) \<le> length ms" by simp
  ultimately show ?thesis by (simp, linarith)
qed

lemma ref_CardSort_wires:
  assumes ms: "set ms \<subseteq> ref_wires c" and k: "ref_CardSort c ms = (k, c')"
  shows "ref_Leq k n \<in> ref_wires c' \<and> snd k = length ms \<and> extends ref_wires ref_gates c c'"
proof -
  have c': "c' = c @ map (\<lambda>i. LeqG ms (int i - 1)) [0..<length ms + 2]"
    and k': "k = (length c, length ms)"
    using k by (auto simp: ref_CardSort_def)
  have "nat (min (max n (- 1)) (int (length ms)) + 1) < length ms + 2" by linarith
  then have "ref_Leq k n \<in> ref_wires c'"
    by (simp add: c' k' ref_Leq_def ref_wires_def node_lit_def)
  moreover have "extends ref_wires ref_gates c c'"
    unfolding c' by (rule append_extends) (use ms in auto)
  ultimately show ?thesis by (simp add: k')
qed

subsection \<open>The backtracking solver\<close>

text \<open>A partial assignment lists the values of the variables \<open>0, 1, \<dots>\<close>.\<close>

definition v_of :: "bool list \<Rightarrow> valuation" where
  "v_of bs m = (if m div 2 < length bs then (bs ! (m div 2)) = even m else odd m)"

definition consistent_upto :: "circuit list \<Rightarrow> lit list \<Rightarrow> bool list \<Rightarrow> bool" where
  "consistent_upto cs ms bs \<longleftrightarrow>
     (\<forall>m \<in> set ms. m div 2 < length bs \<longrightarrow> v_of bs m) \<and>
     (\<forall>c \<in> set cs. ref_gates (take (length bs - 1) c) (v_of bs))"

fun backtrack :: "circuit list \<Rightarrow> lit list \<Rightarrow> nat \<Rightarrow> bool list \<Rightarrow> bool list option" where
  "backtrack cs ms 0 bs = (if consistent_upto cs ms bs then Some bs else None)"
| "backtrack cs ms (Suc k) bs =
     (if consistent_upto cs ms bs
      then case backtrack cs ms k (bs @ [False]) of
             Some r \<Rightarrow> Some r
           | None \<Rightarrow> backtrack cs ms k (bs @ [True])
      else None)"

definition n_vars :: "circuit list \<Rightarrow> lit list \<Rightarrow> nat" where
  "n_vars cs ms = Suc (max (foldr max (map length cs) 0) (foldr max (map (\<lambda>m. m div 2) ms) 0))"

definition find_model :: "circuit list \<Rightarrow> lit list \<Rightarrow> bool list option" where
  "find_model cs ms = backtrack cs ms (n_vars cs ms) []"

lemma proper_v_of [simp]: "proper (v_of bs)"
  by (auto simp: proper_def v_of_def)

lemma foldr_max_ge: "x \<in> set xs \<Longrightarrow> x \<le> foldr max xs (0::nat)"
  by (induction xs) auto

lemma n_vars_bounds:
  "c \<in> set cs \<Longrightarrow> length c < n_vars cs ms" "m \<in> set ms \<Longrightarrow> m div 2 < n_vars cs ms"
  using foldr_max_ge [of "length c" "map length cs"] foldr_max_ge [of "m div 2" "map (\<lambda>m. m div 2) ms"]
  by (auto simp: n_vars_def less_Suc_eq_le le_max_iff_disj)

lemma consistent_full:
  assumes "length bs = n_vars cs ms"
  shows "consistent_upto cs ms bs \<longleftrightarrow>
    (\<forall>m \<in> set ms. v_of bs m) \<and> (\<forall>c \<in> set cs. ref_gates c (v_of bs))"
proof -
  have "take (length bs - 1) c = c" if "c \<in> set cs" for c
    using n_vars_bounds(1) [OF that, of ms] assms by simp
  moreover have "m div 2 < length bs" if "m \<in> set ms" for m
    using n_vars_bounds(2) [OF that, of cs] assms by simp
  ultimately show ?thesis by (simp add: consistent_upto_def)
qed

lemma backtrack_Some:
  "backtrack cs ms k bs = Some r \<Longrightarrow> consistent_upto cs ms r \<and> length r = length bs + k"
  by (induction k arbitrary: bs) (fastforce split: if_splits option.splits)+

lemma v_of_map:
  assumes "proper v" and "m div 2 < k"
  shows "v_of (map (\<lambda>i. v (2 * i)) [0..<k]) m = v m"
proof (cases "even m")
  case True
  then show ?thesis using assms by (auto simp: v_of_def elim!: evenE)
next
  case False
  then have "lit_not (2 * (m div 2)) = m"
    by (auto simp: lit_not_def elim: oddE)
  then have "v m = (\<not> v (2 * (m div 2)))" using assms(1) by (metis proper_not)
  then show ?thesis using assms False by (simp add: v_of_def)
qed

lemma consistent_prefix:
  assumes v: "proper v" and ms: "\<forall>m \<in> set ms. v m" and cs: "\<forall>c \<in> set cs. ref_gates c v"
  shows "consistent_upto cs ms (map (\<lambda>i. v (2 * i)) [0..<k])"
  unfolding consistent_upto_def
proof (intro conjI ballI impI)
  fix m assume "m \<in> set ms" "m div 2 < length (map (\<lambda>i. v (2 * i)) [0..<k])"
  then show "v_of (map (\<lambda>i. v (2 * i)) [0..<k]) m" using v ms v_of_map by simp
next
  fix c assume c: "c \<in> set cs"
  let ?w = "v_of (map (\<lambda>i. v (2 * i)) [0..<k])"
  have "ref_gates (take (k - 1) c) v"
    using cs c ref_gates_append [of "take (k - 1) c" "drop (k - 1) c" v] by simp
  moreover have "ref_gates (take (k - 1) c) v = ref_gates (take (k - 1) c) ?w"
    using v_of_map [OF v, of _ k] by (intro ref_gates_cong) (auto simp: ref_wires_def)
  ultimately show "ref_gates (take (length (map (\<lambda>i. v (2 * i)) [0..<k]) - 1) c) ?w" by simp
qed

lemma backtrack_complete:
  assumes "proper v" and "\<forall>m \<in> set ms. v m" and "\<forall>c \<in> set cs. ref_gates c v"
  shows "backtrack cs ms k (map (\<lambda>i. v (2 * i)) [0..<j]) \<noteq> None"
proof (induction k arbitrary: j)
  case 0
  show ?case using consistent_prefix [OF assms] by simp
next
  case (Suc k)
  have "backtrack cs ms k (map (\<lambda>i. v (2 * i)) [0..<j] @ [v (2 * j)]) \<noteq> None"
    using Suc.IH [of "Suc j"] by simp
  then show ?case using consistent_prefix [OF assms, of j]
    by (cases "v (2 * j)") (auto split: option.splits)
qed

lemma find_model_Some:
  assumes "find_model cs ms = Some bs"
  shows "(\<forall>m \<in> set ms. v_of bs m) \<and> (\<forall>c \<in> set cs. ref_gates c (v_of bs))"
  using backtrack_Some [of cs ms "n_vars cs ms" "[]" bs] assms consistent_full [of bs cs ms]
  by (simp add: find_model_def)

lemma find_model_None:
  assumes "find_model cs ms = None" and "proper v" and "\<forall>c \<in> set cs. ref_gates c v"
  shows "\<not> (\<forall>m \<in> set ms. v m)"
  using backtrack_complete [OF assms(2) _ assms(3), of ms "n_vars cs ms" 0] assms(1)
  by (auto simp: find_model_def)

subsection \<open>Evaluation\<close>

text \<open>Evaluation looks at the newest variable only: its literals and the gate it is the output of.\<close>

definition newest_ok :: "circuit list \<Rightarrow> lit list \<Rightarrow> bool list \<Rightarrow> bool" where
  "newest_ok cs ms bs \<longleftrightarrow>
     (let v = v_of bs; n = length bs - 1 in
      (\<forall>m \<in> set ms. m div 2 = n \<longrightarrow> v m) \<and>
      (0 < n \<longrightarrow> (\<forall>c \<in> set cs. n \<le> length c \<longrightarrow> gate_ok c v (n - 1))))"

fun backtrack_newest :: "circuit list \<Rightarrow> lit list \<Rightarrow> nat \<Rightarrow> bool list \<Rightarrow> bool list option" where
  "backtrack_newest cs ms 0 bs = Some bs"
| "backtrack_newest cs ms (Suc k) bs =
     (case (if newest_ok cs ms (bs @ [False]) then backtrack_newest cs ms k (bs @ [False]) else None) of
        Some r \<Rightarrow> Some r
      | None \<Rightarrow> if newest_ok cs ms (bs @ [True]) then backtrack_newest cs ms k (bs @ [True]) else None)"

lemma v_of_snoc: "m div 2 < length bs \<Longrightarrow> v_of (bs @ [b]) m = v_of bs m"
  by (simp add: v_of_def nth_append)

lemma ref_gates_snoc:
  "ref_gates (take (length bs) c) (v_of (bs @ [b])) \<longleftrightarrow>
     ref_gates (take (length bs - 1) c) (v_of bs) \<and>
     (0 < length bs \<and> length bs \<le> length c \<longrightarrow> gate_ok c (v_of (bs @ [b])) (length bs - 1))"
proof -
  let ?n = "length bs - 1" and ?v = "v_of (bs @ [b])"
  have pre: "ref_gates (take ?n c) ?v = ref_gates (take ?n c) (v_of bs)"
    by (rule ref_gates_cong) (auto simp: ref_wires_def intro!: v_of_snoc)
  show ?thesis
  proof (cases "0 < length bs \<and> length bs \<le> length c")
    case True
    then have "length bs = Suc ?n" "?n < length c" by linarith+
    then have sp: "take (length bs) c = take ?n c @ [c ! ?n]" using take_Suc_conv_app_nth [of ?n c] by metis
    have "{length (take ?n c)..<length (take ?n c) + length [c ! ?n]} = {?n}" using True by auto
    then have "ref_gates (take (length bs) c) ?v \<longleftrightarrow> ref_gates (take ?n c) ?v \<and> gate_ok (take (length bs) c) ?v ?n"
      using ref_gates_append [of "take ?n c" "[c ! ?n]" ?v] unfolding sp by simp
    moreover have "gate_ok (take (length bs) c) ?v ?n = gate_ok c ?v ?n"
      using True by (simp add: gate_ok_def)
    ultimately show ?thesis using True pre by simp
  next
    case False
    then have "take (length bs) c = take ?n c" by auto
    then show ?thesis unfolding \<open>take (length bs) c = take ?n c\<close> pre using False by blast
  qed
qed

lemma consistent_snoc:
  "consistent_upto cs ms (bs @ [b]) \<longleftrightarrow> consistent_upto cs ms bs \<and> newest_ok cs ms (bs @ [b])"
  unfolding consistent_upto_def newest_ok_def Let_def
  by (auto simp: ref_gates_snoc v_of_snoc less_Suc_eq)

lemma backtrack_newest:
  "backtrack cs ms k bs = (if consistent_upto cs ms bs then backtrack_newest cs ms k bs else None)"
proof (induction k arbitrary: bs)
  case (Suc k)
  show ?case by (simp add: Suc.IH consistent_snoc split: option.split)
qed simp

lemma find_model_code [code]: "find_model cs ms = backtrack_newest (remdups cs) ms (n_vars cs ms) []"
proof -
  have "newest_ok (remdups cs) ms = newest_ok cs ms" by (simp add: newest_ok_def fun_eq_iff Let_def)
  then have "backtrack_newest (remdups cs) ms k bs = backtrack_newest cs ms k bs" for k bs
    by (induction k arbitrary: bs) (simp_all split: option.split)
  moreover have "consistent_upto cs ms []" by (simp add: consistent_upto_def ref_gates_def)
  ultimately show ?thesis by (simp add: find_model_def backtrack_newest)
qed
text \<open>Literals are read off in unary, which the simplifier evaluates without division.\<close>

fun v_lit :: "bool list \<Rightarrow> nat \<Rightarrow> bool" where
  "v_lit (b # bs) 0 = b"
| "v_lit (b # bs) (Suc 0) = (\<not> b)"
| "v_lit (b # bs) (Suc (Suc m)) = v_lit bs m"
| "v_lit [] 0 = False"
| "v_lit [] (Suc 0) = True"
| "v_lit [] (Suc (Suc m)) = v_lit [] m"

lemma v_of_code [code]: "v_of bs m = v_lit bs m"
  by (induction bs m rule: v_lit.induct) (auto simp: v_of_def)

fun half :: "nat \<Rightarrow> nat" where
  "half (Suc (Suc m)) = Suc (half m)"
| "half m = 0"

lemma half_eq: "half m = m div 2"
  by (induction m rule: half.induct) auto

lemma newest_ok_code [code]:
  "newest_ok cs ms bs \<longleftrightarrow>
     (let v = v_of bs; n = length bs - 1 in
      list_all (\<lambda>m. half m = n \<longrightarrow> v m) ms \<and>
      (0 < n \<longrightarrow> list_all (\<lambda>c. n \<le> length c \<longrightarrow> gate_ok c v (n - 1)) cs))"
  by (simp add: newest_ok_def half_eq list_all_iff)

subsection \<open>The solver state and its operations\<close>

record ref_S =
  taught :: "circuit list"
  rscopes :: "lit list list"
  rpending :: "lit list"
  rmodel :: "bool list"
  rconflicted :: bool

definition ref_clauses :: "ref_S \<Rightarrow> valuation \<Rightarrow> bool" where
  "ref_clauses s v \<longleftrightarrow> (\<forall>c \<in> set (taught s). ref_gates c v)"

definition ref_ToCnf :: "circuit \<Rightarrow> ref_S \<Rightarrow> ref_S" where
  "ref_ToCnf c s = s\<lparr>taught := c # taught s\<rparr>"

definition ref_CnfSince :: "circuit \<Rightarrow> ref_S \<Rightarrow> int list \<Rightarrow> lit \<Rightarrow> int list \<times> ref_S" where
  "ref_CnfSince c s mk root = (replicate (length c) 1, s\<lparr>taught := c # taught s\<rparr>)"

definition ref_marked :: "circuit \<Rightarrow> int list \<Rightarrow> valuation \<Rightarrow> bool" where
  "ref_marked c mk v \<longleftrightarrow> ref_gates (take (length mk) c) v"

definition ref_Assume :: "lit list \<Rightarrow> ref_S \<Rightarrow> ref_S" where
  "ref_Assume ms s = s\<lparr>rpending := rpending s @ ms\<rparr>"

definition ref_check :: "bool \<Rightarrow> ref_S \<Rightarrow> int \<times> ref_S" where
  "ref_check eager s =
     (if eager \<and> find_model (taught s) (concat (rscopes s)) = None
      then (- 1, s\<lparr>rconflicted := True\<rparr>) else (0, s\<lparr>rconflicted := False\<rparr>))"

definition ref_Test :: "bool \<Rightarrow> ref_S \<Rightarrow> int \<times> ref_S" where
  "ref_Test eager s = ref_check eager (s\<lparr>rscopes := rpending s # rscopes s, rpending := []\<rparr>)"

definition ref_Untest :: "bool \<Rightarrow> ref_S \<Rightarrow> int \<times> ref_S" where
  "ref_Untest eager s = ref_check eager (s\<lparr>rscopes := tl (rscopes s), rpending := []\<rparr>)"

definition ref_Solve :: "ref_S \<Rightarrow> int \<times> ref_S" where
  "ref_Solve s =
     (case find_model (taught s) (concat (rscopes s) @ rpending s) of
        None \<Rightarrow> (- 1, s\<lparr>rpending := [], rconflicted := True\<rparr>)
      | Some bs \<Rightarrow> (1, s\<lparr>rpending := [], rconflicted := False, rmodel := bs\<rparr>))"

definition ref_gini :: "bool \<Rightarrow> (circuit, nat \<times> nat, ref_S) gini" where
  "ref_gini eager =
     \<lparr>NewCCap = (\<lambda>_. []), C_Lit = ref_Lit, C_Or = ref_Or, C_CardSort = ref_CardSort,
      C_Len = length, C_ToCnf = ref_ToCnf, C_CnfSince = ref_CnfSince,
      Card_Leq = ref_Leq, Card_N = snd,
      New_S = \<lparr>taught = [], rscopes = [], rpending = [], rmodel = [], rconflicted = False\<rparr>,
      S_Assume = ref_Assume, S_Test = ref_Test eager, S_Untest = ref_Untest eager,
      S_Solve = ref_Solve, S_Value = (\<lambda>s. v_of (rmodel s)), S_Why = (\<lambda>s. concat (rscopes s))\<rparr>"

lemmas ref_op_defs = ref_Lit_def ref_Or_def ref_ToCnf_def ref_CnfSince_def ref_Assume_def
  ref_Test_def ref_Untest_def ref_check_def ref_Solve_def ref_clauses_def ref_marked_def

lemma ref_unsat:
  "find_model (taught s) ms = None \<Longrightarrow> \<not> satisfiable_with (ref_clauses s) (set ms)"
  unfolding satisfiable_with_def ref_clauses_def using find_model_None by blast

lemma ref_gates_Nil [simp]: "ref_gates [] v"
  by (simp add: ref_gates_def)

lemma ref_gates_take: "ref_gates c v \<Longrightarrow> ref_gates (take k c) v"
  using ref_gates_append [of "take k c" "drop k c" v] by simp

lemma ref_logic_C: "logic_C (ref_gini eager) ref_wires ref_gates"
proof (unfold_locales, goal_cases)
  case (1 m c)
  then show ?case unfolding ref_wires_def lit_not_def mem_Collect_eq by presburger
next
  case (2 c)
  show ?case by (simp add: ref_wires_def LitNull_def)
next
  case (3 cap)
  show ?case by (auto simp: ref_gini_def intro!: exI [of _ "v_of []"])
next
  case (4 c m c')
  then show ?case
    by (auto simp: ref_gini_def ref_Lit_def ref_wires_def node_lit_def lit_not_def LitNull_def)
next
  case (5 c m c' v)
  then show ?case by (auto simp: ref_gini_def ref_Lit_def ref_gates_append)
next
  case (6 c m c' v bv)
  then have "ref_gates c' (set_var v (length c) bv)" "m = node_lit (length c)"
    using snoc_gates [of v c Inp bv] by (auto simp: ref_gini_def ref_Lit_def)
  then show ?case using 6
    by (intro exI [of _ "set_var v (length c) bv"]) (simp add: proper_set_var set_var_wires)
next
  case (7 a c b m c')
  then have "extends ref_wires ref_gates c (c @ [OrG a b])" by (intro snoc_extends) simp
  then show ?case using 7 by (auto simp: ref_gini_def ref_Or_def ref_wires_def node_lit_def)
next
  case (8 a c b m c' v)
  then show ?case using ref_Or_value by (auto simp: ref_gini_def ref_Or_def)
next
  case (9 ms c k c' n)
  then show ?case using ref_CardSort_wires by (simp add: ref_gini_def)
next
  case (10 ms c k c' v n)
  then show ?case using ref_Leq_value by (simp add: ref_gini_def)
qed


lemma ref_Solve_sat:
  assumes "ref_Solve s = (1, s')"
  shows "\<exists>v. proper v \<and> ref_clauses s v \<and>
    (\<forall>m \<in> set (concat (rscopes s)) \<union> set (rpending s). v m) \<and> (\<forall>m. v_of (rmodel s') m = v m)"
proof -
  obtain bs where bs: "find_model (taught s) (concat (rscopes s) @ rpending s) = Some bs"
      "rmodel s' = bs"
    using assms by (auto simp: ref_Solve_def split: option.splits)
  then show ?thesis using find_model_Some [OF bs(1)]
    by (intro exI [of _ "v_of bs"]) (auto simp: ref_clauses_def)
qed

lemma ref_Solve_unsat:
  assumes "ref_Solve s = (- 1, s')"
  shows "\<not> satisfiable_with (ref_clauses s) (set (concat (rscopes s)) \<union> set (rpending s))"
  using assms ref_unsat [of s "concat (rscopes s) @ rpending s"]
  by (auto simp: ref_Solve_def split: option.splits)

lemma ref_check_unsat:
  assumes "ref_check eager s = (- 1, s')"
  shows "\<not> satisfiable_with (ref_clauses s') (set (concat (rscopes s')))"
proof -
  have s': "s' = s\<lparr>rconflicted := True\<rparr>" "find_model (taught s) (concat (rscopes s)) = None"
    using assms by (auto simp: ref_check_def split: if_splits)
  then show ?thesis using ref_unsat [of s' "concat (rscopes s')"] by simp
qed

lemma ref_check_state:
  assumes "ref_check eager s = (r, s')"
  shows "ref_clauses s' = ref_clauses s \<and> rscopes s' = rscopes s \<and> rpending s' = rpending s \<and>
    rconflicted s' = (r = - 1) \<and> r \<in> {- 1, 0}"
  using assms by (auto simp: ref_check_def ref_clauses_def fun_eq_iff split: if_splits)

interpretation ref: inter_S "ref_gini eager" ref_wires ref_gates ref_clauses rscopes rpending
  rconflicted ref_marked for eager
proof (intro inter_S.intro ref_logic_C inter_S_axioms.intro, goal_cases)
  case (14 ms c k c' s mk n mk' s' v)
  then have "ref_gates c' v"
    by (auto simp: ref_gini_def ref_CnfSince_def ref_marked_def ref_CardSort_def)
  then show ?case using 14 ref_Leq_value by (simp add: ref_gini_def)
next
  case (19 s r s')
  then show ?case
    using ref_check_state [of eager "s\<lparr>rscopes := rpending s # rscopes s, rpending := []\<rparr>" r s']
    by (auto simp: ref_gini_def ref_Test_def ref_clauses_def fun_eq_iff)
next
  case (20 s s')
  then show ?case using ref_check_unsat by (simp add: ref_gini_def ref_Test_def)
next
  case (21 s s')
  then show ?case by (simp add: ref_gini_def ref_Test_def ref_check_def split: if_splits)
next
  case (22 s ms mss r s')
  then show ?case
    using ref_check_state [of eager "s\<lparr>rscopes := tl (rscopes s), rpending := []\<rparr>" r s']
    by (auto simp: ref_gini_def ref_Untest_def ref_clauses_def fun_eq_iff)
next
  case (23 s ms mss s')
  then show ?case using ref_check_unsat by (simp add: ref_gini_def ref_Untest_def)
next
  case (24 s r s')
  then show ?case
    by (auto simp: ref_gini_def ref_Solve_def ref_clauses_def fun_eq_iff split: option.splits)
next
  case (25 s s')
  then show ?case using ref_Solve_unsat [of s s'] by (simp add: ref_gini_def)
next
  case (26 s s')
  then obtain v where "proper v" "ref_clauses s v" "\<forall>m. v_of (rmodel s') m = v m"
      "\<forall>m \<in> set (concat (rscopes s)) \<union> set (rpending s). v m"
    using ref_Solve_sat [of s s'] by (auto simp: ref_gini_def)
  then show ?case by (intro exI [of _ v]) (auto simp: ref_gini_def)
qed (auto simp: ref_gini_def ref_op_defs ref_CardSort_def fun_eq_iff intro: ref_gates_take)

end
