(* ===== verification/Solve_Correct.thy ===== *)
theory Solve_Correct
  imports Solve Ref_Gini
begin

text \<open>
  The correctness of \<^verbatim>\<open>Solve\<close> over a SAT backend with the laws of \<open>inter_S\<close>, stage by stage: the
  baseline scope, the search, the branch for a satisfiable outcome with its minimisation, and the
  conflict reported for an unsatisfiable one.
\<close>

subsection \<open>The search does not disturb a mapping without errors\<close>

definition closed_mapping :: "'c litMapping \<Rightarrow> bool" where
  "closed_mapping d \<longleftrightarrow> (\<forall>m \<in> snd ` set (lits d).
     \<exists>x. map_of (variables d) m = Some x \<and> orders_known d (Constraints x))"

lemma closed_mappingD:
  assumes "closed_mapping d" and "m \<in> snd ` set (lits d)"
  obtains x where "VariableOf d m = (x, d)" "m \<in> dom (map_of (variables d))"
    "orders_known d (Constraints x)"
  using assms by (force simp: closed_mapping_def VariableOf_def)

lemma guess_variables_closed:
  assumes "closed_mapping d" and "\<forall>g \<in> set gs. guess_ok (snd ` set (lits d)) B g"
  shows "snd (guess_variables gs d) = d"
  using assms(2)
proof (induction gs)
  case (Cons g gs)
  have "snd (VariableOf d (g_candidates g ! g_index g)) = d" if "g_m g \<noteq> LitNull"
    using guess_ok_lit [of _ B g] Cons.prems that closed_mappingD [OF assms(1)]
    by (metis list.set_intros(1) snd_conv)
  then show ?case using Cons by (simp add: split_beta Let_def)
qed simp

lemma search_Do_closed:
  assumes cl: "closed_mapping d" and an: "set anchors \<subseteq> snd ` set (lits d)"
    and run: "search_Do G (new_search tr s d) anchors = Some (r, ms, A, h)"
  shows "h_lits h = d"
proof -
  have U: "search_lits d anchors = snd ` set (lits d)" using an by auto
  have "\<exists>h h0 h'. search_run G tr s d anchors h h0 h' \<and> sinv d anchors h \<and> h_lits h = d \<and>
    sinv d anchors h0 \<and> h_lits h0 = d \<and> sinv d anchors h' \<and> h_lits h' = d"
  proof (rule search_Do_rule)
    show "h_lits (Trace G h) = d" if inv: "sinv d anchors h" and h: "h_lits h = d" for h
    proof -
      have "snd (guess_variables (h_guesses h) d) = d"
        by (rule guess_variables_closed [OF cl]) (use inv U in \<open>auto simp: tinv_def\<close>)
      then show ?thesis using h
        by (simp add: Trace_def search_Variables_def split_beta Let_def split: Tracer.split)
    qed
    show "h_lits h' = d" if inv: "sinv d anchors h" and "h_lits h = d" and "h_guesses h = gs @ [g]"
      and "PopGuess G h = Some h'" for h h' gs g
    proof -
      have "g_children g \<le> length (h_choices h)"
        using inv that(3) balanced_pop [of _ gs g] by (auto simp: tinv_def)
      from PopGuess_eq [OF that(3) this, of G] show ?thesis using that(2,4) by auto
    qed
    show "h_lits h' = d" if inv: "sinv d anchors h" and h: "h_lits h = d" and ch: "h_choices h = c # cs"
      and push: "PushGuess G h = Some h'" for h h' c cs
    proof (cases "guess_lit c (h_assumptions h) = LitNull")
      case True
      then show ?thesis using PushGuess_null [OF ch True, of G] push h by auto
    next
      case False
      let ?m = "guess_lit c (h_assumptions h)"
      have "fits (search_lits d anchors) (search_bound d) (c_index c) (c_candidates c)"
        using inv ch by (simp add: tinv_def)
      then have "?m \<in> snd ` set (lits d)"
        using guess_lit_props [OF refl False] False nth_mem unfolding U by (fastforce simp: fits_def)
      then obtain x where x: "VariableOf (h_lits h) ?m = (x, d)" "?m \<in> dom (map_of (variables (h_lits h)))"
          "orders_known (h_lits h) (Constraints x)"
        using closed_mappingD [OF cl] h by metis
      obtain r s where t: "S_Test G (S_Assume G [?m] (h_s h)) = (r, s)" by force
      show ?thesis using PushGuess_real [OF ch refl False x(1) refl t] push x(2,3) h by auto
    qed
  qed (simp_all add: start_search_def new_search_def)
  then show ?thesis using run by (auto simp: search_run_def)
qed

subsection \<open>The baseline scope\<close>

lemma satisfiable_with_cong:
  "(\<And>v. proper v \<Longrightarrow> cl v = cl' v) \<Longrightarrow> satisfiable_with cl ms = satisfiable_with cl' ms"
  by (auto simp: satisfiable_with_def)

context logic_C
begin

abbreviation keys :: "'c litMapping \<Rightarrow> lit set" where
  "keys d \<equiv> fst ` set (constraints d)"

definition anchor_lits :: "'c litMapping \<Rightarrow> lit list" where
  "anchor_lits d = map (\<lambda>i. the (map_of (lits d) i)) (AnchorIdentifiers d)"

lemma lm_goodD:
  assumes "lm_good vs d"
  shows "inorder d = vs" "distinct (map Identifier vs)" "errs d = []"
    "dom (map_of (lits d)) = Identifier ` set vs" "references vs \<subseteq> Identifier ` set vs"
    "lm_ok d" "free d" "enc_inv d (SIGMA x:set vs. set (Constraints x))"
  using assms by (simp_all add: lm_good_def)

lemma good_anchors:
  assumes "lm_good vs d"
  shows "LitsOf d (AnchorIdentifiers d) = (anchor_lits d, d)"
    "set (anchor_lits d) \<subseteq> keys d" "set (anchor_lits d) \<subseteq> snd ` set (lits d)"
proof -
  have ids: "set (AnchorIdentifiers d) \<subseteq> dom (map_of (lits d))"
    using lm_goodD(1,4) [OF assms] by (auto simp: AnchorIdentifiers_def)
  then show "LitsOf d (AnchorIdentifiers d) = (anchor_lits d, d)"
    by (simp add: LitsOf_known anchor_lits_def)
  show "set (anchor_lits d) \<subseteq> keys d"
    using assms by (auto simp: lm_good_def anchor_lits_def AnchorIdentifiers_def)
  show "set (anchor_lits d) \<subseteq> snd ` set (lits d)"
    using ids by (force simp: anchor_lits_def dest: map_of_SomeD)
qed

lemma good_closed:
  assumes "lm_good vs d"
  shows "closed_mapping d"
  unfolding closed_mapping_def
proof
  fix m assume "m \<in> snd ` set (lits d)"
  then have "m \<in> fst ` set (variables d)" using assms by (auto simp: lm_good_def)
  then obtain x where x: "map_of (variables d) m = Some x"
    by (metis domD dom_map_of_conv_image_fst)
  then have "x \<in> set vs" using assms map_of_SomeD [OF x] by (force simp: lm_good_def)
  moreover have "set (constraint_order c) \<subseteq> refs c" for c by (induction c) auto
  ultimately have "orders_known d (Constraints x)"
    using lm_goodD(4,5) [OF assms] by (fastforce simp: orders_known_def references_def)
  then show "\<exists>x. map_of (variables d) m = Some x \<and> orders_known d (Constraints x)" using x by blast
qed

text \<open>The constraints of a good mapping can be met exactly when the input has a solution.\<close>

lemma good_satisfiable:
  assumes "lm_good vs d"
  shows "satisfiable_with (gates (circ d)) (keys d) \<longleftrightarrow> (\<exists>S. is_solution vs S)"
proof
  assume "satisfiable_with (gates (circ d)) (keys d)"
  then obtain v where "proper v" "gates (circ d) v" "\<forall>m \<in> keys d. v m"
    unfolding satisfiable_with_def by metis
  then show "\<exists>S. is_solution vs S"
    using enc_inv_solution [OF lm_goodD(8) [OF assms]] by metis
next
  assume "\<exists>S. is_solution vs S"
  then obtain S where "is_solution vs S" by metis
  from good_solution [OF assms this] show "satisfiable_with (gates (circ d)) (keys d)"
    unfolding satisfiable_with_def by metis
qed

end

context inter_S
begin

definition fresh_S :: "'s \<Rightarrow> bool" where
  "fresh_S g \<longleftrightarrow> (\<forall>v. proper v \<longrightarrow> clauses g v) \<and> scopes g = [] \<and> pending g = [] \<and> \<not> conflicted g"

lemma fresh_New: "fresh_S (New_S G)"
  by (simp add: fresh_S_def New_S)

lemma AssumeConstraints_state:
  "clauses (AssumeConstraints G d g) = clauses g" "scopes (AssumeConstraints G d g) = scopes g"
  "pending (AssumeConstraints G d g) = pending g @ map fst (constraints d)"
  "conflicted (AssumeConstraints G d g) = conflicted g"
proof -
  have "clauses (foldl (\<lambda>s m. S_Assume G [m] s) g ms) = clauses g \<and>
      scopes (foldl (\<lambda>s m. S_Assume G [m] s) g ms) = scopes g \<and>
      pending (foldl (\<lambda>s m. S_Assume G [m] s) g ms) = pending g @ ms \<and>
      conflicted (foldl (\<lambda>s m. S_Assume G [m] s) g ms) = conflicted g" for ms
    by (induction ms arbitrary: g) (simp_all add: Assume)
  then show "clauses (AssumeConstraints G d g) = clauses g" "scopes (AssumeConstraints G d g) = scopes g"
    "pending (AssumeConstraints G d g) = pending g @ map fst (constraints d)"
    "conflicted (AssumeConstraints G d g) = conflicted g"
    by (simp_all add: AssumeConstraints_def)
qed

text \<open>
  The solver between the first test and its undoing: the circuit is taught, the constraints are
  assumed in the one open scope, together with the literals of the anchors, which are among them.
\<close>

definition baseline :: "'c litMapping \<Rightarrow> 's \<Rightarrow> bool" where
  "baseline d g \<longleftrightarrow> (\<forall>v. proper v \<longrightarrow> clauses g v = gates (circ d) v) \<and> pending g = [] \<and>
     (\<exists>ms. scopes g = [ms] \<and> set ms = keys d)"

lemma baseline_satisfiable:
  assumes "lm_good vs d" and "baseline d g"
  shows "satisfiable_with (clauses g) (set (concat (scopes g))) \<longleftrightarrow> (\<exists>S. is_solution vs S)"
proof -
  have "satisfiable_with (clauses g) (set (concat (scopes g))) = satisfiable_with (gates (circ d)) (keys d)"
    using assms(2) satisfiable_with_cong [of "clauses g" "gates (circ d)"] by (auto simp: baseline_def)
  then show ?thesis using good_satisfiable [OF assms(1)] by simp
qed

lemma Solve_baseline_state:
  assumes good: "lm_good vs d" and fresh: "fresh_S g"
    and base: "Solve_baseline G d g = (as, r, d', g')"
  shows "as = anchor_lits d \<and> d' = d \<and> baseline d g' \<and> known g' r \<and>
    (r = 1 \<longrightarrow> (\<exists>v. proper v \<and> gates (circ d) v \<and> (\<forall>m \<in> keys d. v m) \<and>
       (\<forall>m. even m \<longrightarrow> S_Value G g' m = v m)))"
proof -
  let ?g = "S_Assume G (anchor_lits d) (AssumeConstraints G d (AddConstraints G d g))"
  have t: "S_Test G ?g = (r, g')" and eq: "as = anchor_lits d" "d' = d"
    using base good_anchors(1) [OF good] by (auto simp: Solve_baseline_def split: prod.splits)
  have nc: "\<not> conflicted ?g" and cl: "\<And>v. proper v \<Longrightarrow> clauses ?g v = gates (circ d) v"
      and sc: "scopes ?g = []" "pending ?g = map fst (constraints d) @ anchor_lits d"
    using fresh by (auto simp: fresh_S_def Assume AssumeConstraints_state AddConstraints_def ToCnf)
  have st: "clauses g' = clauses ?g" "scopes g' = [map fst (constraints d) @ anchor_lits d]"
      "pending g' = []" "conflicted g' = (r = -1)" "r \<in> {-1, 0, 1}"
    using Test_state [OF nc t] sc by auto
  have "set (map fst (constraints d) @ anchor_lits d) = keys d"
    using good_anchors(2) [OF good] by auto
  then have "baseline d g'" using st cl by (simp add: baseline_def)
  moreover have "known g' r"
    using st Test_unsat [OF nc] Test_sat_iff [OF nc] t by (auto simp: known_def)
  moreover have "\<exists>v. proper v \<and> gates (circ d) v \<and> (\<forall>m \<in> keys d. v m) \<and>
       (\<forall>m. even m \<longrightarrow> S_Value G g' m = v m)" if "r = 1"
    using Test_sat [OF nc, of g'] t that st cl by auto
  ultimately show ?thesis using eq by blast
qed

end

subsection \<open>The reported conflict\<close>

text \<open>
  \<open>applied vs a\<close>: the applied constraint \<open>a\<close> is one of the input; \<open>holds_all S as\<close>: the selection
  \<open>S\<close> satisfies all of \<open>as\<close>.
\<close>

definition applied :: "solver_variable list \<Rightarrow> AppliedConstraint \<Rightarrow> bool" where
  "applied vs a \<longleftrightarrow> AC_Variable a \<in> set vs \<and> AC_Constraint a \<in> set (Constraints (AC_Variable a))"

definition holds_all :: "ident set \<Rightarrow> AppliedConstraint list \<Rightarrow> bool" where
  "holds_all S as \<longleftrightarrow> (\<forall>a \<in> set as. holds S (Identifier (AC_Variable a)) (AC_Constraint a))"

definition lit_ids :: "'c litMapping \<Rightarrow> lit list \<Rightarrow> ident set" where
  "lit_ids d ms = {i. \<exists>m \<in> set ms. map_of (lits d) i = Some m}"

definition minimal_over :: "solver_variable list \<Rightarrow> ident set \<Rightarrow> ident set \<Rightarrow> bool" where
  "minimal_over vs P S \<longleftrightarrow> is_solution vs S \<and> P \<subseteq> S \<and> S \<subseteq> Identifier ` set vs \<and>
     (\<forall>S'. is_solution vs S' \<longrightarrow> P \<subseteq> S' \<longrightarrow> \<not> S' \<subset> S)"

lemma set_map_filter: "set (List.map_filter f xs) = {y. \<exists>x \<in> set xs. f x = Some y}"
  by (induction xs) (auto simp: List.map_filter_simps split: option.splits)

lemma set_Conflicts: "set (Conflicts G d g) = {a. \<exists>m \<in> set (S_Why G g). map_of (constraints d) m = Some a}"
  by (simp add: Conflicts_def set_map_filter)

lemma sorted_Conflicts: "sorted (map AppliedConstraint_String (Conflicts G d g))"
  by (simp add: Conflicts_def)

lemma holds_known:
  assumes "applied vs a" and "references vs \<subseteq> Identifier ` set vs"
  shows "holds (S \<inter> Identifier ` set vs) (Identifier (AC_Variable a)) (AC_Constraint a) =
    holds S (Identifier (AC_Variable a)) (AC_Constraint a)"
proof (rule holds_cong_refs)
  have "insert (Identifier (AC_Variable a)) (refs (AC_Constraint a)) \<subseteq> Identifier ` set vs"
    using assms by (fastforce simp: applied_def references_def)
  then show "S \<inter> Identifier ` set vs \<inter> insert (Identifier (AC_Variable a)) (refs (AC_Constraint a)) =
      S \<inter> insert (Identifier (AC_Variable a)) (refs (AC_Constraint a))" by blast
qed

context inter_S
begin

lemma encodesD:
  "encodes d m i c \<Longrightarrow> proper v \<Longrightarrow> gates (circ d) v \<Longrightarrow> v m = holds (selected d v) i c"
  by (simp add: encodes_def)

lemma good_constraint:
  assumes "lm_good vs d" and "(m, a) \<in> set (constraints d)"
  shows "applied vs a" "encodes d m (Identifier (AC_Variable a)) (AC_Constraint a)"
  using lm_goodD(8) [OF assms(1)] assms(2) by (auto simp: enc_inv_def applied_def)

lemma Conflicts_applied:
  "lm_good vs d \<Longrightarrow> a \<in> set (Conflicts G d g) \<Longrightarrow> applied vs a"
  using good_constraint(1) by (auto simp: set_Conflicts dest: map_of_SomeD)

lemma Conflicts_unsatisfiable:
  assumes good: "lm_good vs d" and base: "baseline d g" and "conflicted g"
    and "\<not> satisfiable_with (clauses g) (set (concat (scopes g)))"
  shows "\<not> holds_all S (Conflicts G d g)"
proof
  assume all: "holds_all S (Conflicts G d g)"
  have why: "set (S_Why G g) \<subseteq> keys d" "\<not> satisfiable_with (clauses g) (set (S_Why G g))"
    using Why [OF assms(3) _ assms(4)] base by (auto simp: baseline_def)
  obtain v where v: "proper v" "gates (circ d) v" "selected d v = S \<inter> Identifier ` set vs"
    using freeD [OF lm_goodD(7) [OF good], of S] lm_goodD(4) [OF good] by auto
  have "v m" if m: "m \<in> set (S_Why G g)" for m
  proof -
    have "m \<in> dom (map_of (constraints d))" using why(1) m by (auto simp: dom_map_of_conv_image_fst)
    then obtain a where a: "map_of (constraints d) m = Some a" by blast
    then have "a \<in> set (Conflicts G d g)" using m by (auto simp: set_Conflicts)
    then have "holds S (Identifier (AC_Variable a)) (AC_Constraint a)"
      using all by (simp add: holds_all_def)
    then have "holds (selected d v) (Identifier (AC_Variable a)) (AC_Constraint a)"
      using good_constraint(1) [OF good map_of_SomeD [OF a]]
      by (simp add: v(3) holds_known [OF _ lm_goodD(5) [OF good]])
    then show "v m"
      using encodesD [OF good_constraint(2) [OF good map_of_SomeD [OF a]] v(1,2)] by simp
  qed
  moreover have "clauses g v" using v base by (simp add: baseline_def)
  ultimately show False using why(2) v(1) unfolding satisfiable_with_def by metis
qed

end

subsection \<open>Minimising the selection\<close>

lemma split_values_eq:
  "split_values G g aset ms =
     (filter (\<lambda>m. m \<notin> aset \<and> S_Value G g m) ms,
      map lit_not (filter (\<lambda>m. m \<notin> aset \<and> \<not> S_Value G g m) ms))"
  by (induction ms) auto

lemma split_values_sets:
  assumes "split_values G g aset ms = (extras, excluded)"
  shows "set extras = {m \<in> set ms. m \<notin> aset \<and> S_Value G g m}"
    "set excluded = lit_not ` {m \<in> set ms. m \<notin> aset \<and> \<not> S_Value G g m}"
  using assms by (auto simp: split_values_eq)

lemma lm_Variables_known:
  "Identifier ` set xs \<subseteq> dom (map_of (lits d)) \<Longrightarrow>
   lm_Variables G g xs d = (filter (\<lambda>x. S_Value G g (the (map_of (lits d) (Identifier x)))) xs, d)"
proof (induction xs)
  case (Cons x xs)
  then obtain m where "map_of (lits d) (Identifier x) = Some m" by auto
  then show ?case using Cons by (simp add: LitOf_def)
qed simp

context inter_S
begin

lemma good_lit:
  assumes "lm_good vs d" and "x \<in> set vs"
  obtains m where "map_of (lits d) (Identifier x) = Some m" "m \<in> wires (circ d)" "even m"
proof -
  have "Identifier x \<in> dom (map_of (lits d))" using lm_goodD(4) [OF assms(1)] assms(2) by simp
  then obtain m where m: "map_of (lits d) (Identifier x) = Some m" by blast
  then show ?thesis using that [OF m] lm_goodD(6) [OF assms(1)] by (simp add: lm_ok_def)
qed

text \<open>The gates for every bound are taught, and nothing else.\<close>

lemma teach_Leq_state:
  assumes ms: "set ms \<subseteq> wires c" and cs: "C_CardSort G c ms = (k, c')"
    and "scopes g = []" and "\<not> conflicted g"
    and "\<forall>v. proper v \<longrightarrow> clauses g v = (gates c v \<and> marked c' mk v)"
  shows "\<exists>mk'. let g' = teach_Leq G c' k mk g ws in
    scopes g' = [] \<and> pending g' = pending g \<and> \<not> conflicted g' \<and>
    (\<forall>v. proper v \<longrightarrow> clauses g' v = (gates c v \<and> marked c' mk' v)) \<and>
    (\<forall>v. proper v \<longrightarrow> marked c' mk' v \<longrightarrow> marked c' mk v \<and>
       (\<forall>w \<in> set ws. v (Card_Leq G k (int w)) = (length (filter v ms) \<le> w)))"
  using assms(3-5)
proof (induction ws arbitrary: mk g)
  case Nil
  then show ?case by auto
next
  case (Cons w ws)
  obtain mk1 g1 where 1: "C_CnfSince G c' g mk (Card_Leq G k (int w)) = (mk1, g1)" by force
  note st = CnfSince(3) [OF Cons.prems(1) 1] and sh = CnfSince(2) [OF Cons.prems(1) 1]
  have "clauses g1 v = (gates c v \<and> marked c' mk1 v)" if v: "proper v" for v
  proof (cases "marked c' mk v")
    case True
    then show ?thesis using CnfSince(1) [OF Cons.prems(1) 1 v True] Cons.prems(3) [rule_format, OF v] by auto
  next
    case False
    then show ?thesis using st sh [OF v] Cons.prems(3) [rule_format, OF v] v by blast
  qed
  then obtain mk' where mk': "let g' = teach_Leq G c' k mk1 g1 ws in
      scopes g' = [] \<and> pending g' = pending g1 \<and> \<not> conflicted g' \<and>
      (\<forall>v. proper v \<longrightarrow> clauses g' v = (gates c v \<and> marked c' mk' v)) \<and>
      (\<forall>v. proper v \<longrightarrow> marked c' mk' v \<longrightarrow> marked c' mk1 v \<and>
         (\<forall>w \<in> set ws. v (Card_Leq G k (int w)) = (length (filter v ms) \<le> w)))"
    using Cons.IH [of g1 mk1] st Cons.prems(2) by blast
  have "v (Card_Leq G k (int w)) = (length (filter v ms) \<le> w)" if "proper v" "marked c' mk1 v" for v
    using CnfSince_Leq [OF ms cs Cons.prems(1) 1 that] by simp
  then show ?case using mk' st sh 1 by (intro exI [of _ mk']) (simp add: Let_def)
qed

definition bound_model :: "'k \<Rightarrow> 's \<Rightarrow> 's \<Rightarrow> nat \<Rightarrow> valuation \<Rightarrow> bool" where
  "bound_model k g g' w v \<longleftrightarrow> proper v \<and> clauses g v \<and> (\<forall>m \<in> set (concat (scopes g)). v m) \<and>
     v (Card_Leq G k (int w)) \<and> (\<forall>m. even m \<longrightarrow> S_Value G g' m = v m)"

definition bound_sat :: "'k \<Rightarrow> 's \<Rightarrow> nat \<Rightarrow> bool" where
  "bound_sat k g w \<longleftrightarrow>
     satisfiable_with (clauses g) (insert (Card_Leq G k (int w)) (set (concat (scopes g))))"

lemma Solve_bound:
  assumes "S_Solve G (S_Assume G [Card_Leq G k (int w)] g) = (r, g')" and "pending g = []"
  shows "clauses g' = clauses g" "scopes g' = scopes g" "pending g' = []"
    "r = satisfiable \<Longrightarrow> \<exists>v. bound_model k g g' w v" "r \<noteq> satisfiable \<Longrightarrow> \<not> bound_sat k g w"
proof -
  let ?g = "S_Assume G [Card_Leq G k (int w)] g"
  have st: "clauses ?g = clauses g" "scopes ?g = scopes g" "pending ?g = [Card_Leq G k (int w)]"
    using assms(2) by (simp_all add: Assume)
  show "clauses g' = clauses g" "scopes g' = scopes g" "pending g' = []"
    using Solve_state [OF assms(1)] st by simp_all
  show "\<exists>v. bound_model k g g' w v" if "r = satisfiable"
    using Solve_sat [of ?g g'] assms(1) that st by (auto simp: bound_model_def result_defs)
  show "\<not> bound_sat k g w" if "r \<noteq> satisfiable"
    using Solve_unsat [of ?g g'] Solve_state [OF assms(1)] assms(1) that st
    by (auto simp: bound_sat_def result_defs)
qed

lemma bound_cong:
  assumes "clauses g = clauses h" "scopes g = scopes h"
  shows "bound_model k g g' w = bound_model k h g' w" "bound_sat k g = bound_sat k h"
  by (intro ext, simp add: bound_model_def bound_sat_def assms)+

lemma least_bound_Some:
  assumes "least_bound G k g ws = Some g'" and "pending g = []"
  shows "\<exists>us w us' v. ws = us @ w # us' \<and> bound_model k g g' w v \<and> (\<forall>u \<in> set us. \<not> bound_sat k g u)"
  using assms
proof (induction ws arbitrary: g)
  case (Cons w ws)
  obtain r g1 where 1: "S_Solve G (S_Assume G [Card_Leq G k (int w)] g) = (r, g1)" by force
  note b = Solve_bound [OF 1 Cons.prems(2)]
  show ?case
  proof (cases "r = satisfiable")
    case True
    then have "g' = g1" using Cons.prems(1) 1 by simp
    then obtain v where "bound_model k g g' w v" using b(4) True by blast
    then show ?thesis by (intro exI [of _ "[]"] exI [of _ w] exI [of _ ws] exI [of _ v]) simp
  next
    case False
    have "least_bound G k g1 ws = Some g'" using Cons.prems(1) 1 False by simp
    from Cons.IH [OF this b(3), unfolded bound_cong [OF b(1,2)]]
    obtain us w' us' v where "ws = us @ w' # us'" "bound_model k g g' w' v"
        "\<forall>u \<in> set us. \<not> bound_sat k g u"
      by metis
    then show ?thesis using b(5) [OF False]
      by (intro exI [of _ "w # us"] exI [of _ w'] exI [of _ us'] exI [of _ v]) simp
  qed
qed simp

lemma least_bound_None:
  assumes "least_bound G k g ws = None" and "pending g = []" and "w \<in> set ws"
  shows "\<not> bound_sat k g w"
  using assms
proof (induction ws arbitrary: g)
  case (Cons u ws)
  obtain r g1 where 1: "S_Solve G (S_Assume G [Card_Leq G k (int u)] g) = (r, g1)" by force
  note b = Solve_bound [OF 1 Cons.prems(2)]
  have r: "r \<noteq> satisfiable" "least_bound G k g1 ws = None"
    using Cons.prems(1) 1 by (auto split: if_splits)
  from Cons.IH [OF r(2) b(3), unfolded bound_cong [OF b(1,2)]] show ?case
    using Cons.prems(3) b(5) [OF r(1)] by auto
qed simp

text \<open>
  The solver before the loop over the bounds (\<open>prepared\<close>): its scope assumes the constraints, the
  guesses and the exclusions, and its clauses are the circuit and the bounds on the extras.
\<close>

definition prepared :: "'c litMapping \<Rightarrow> lit list \<Rightarrow> lit set \<Rightarrow> 'k \<Rightarrow> 's \<Rightarrow> bool" where
  "prepared d extras A k g \<longleftrightarrow> pending g = [] \<and> set (concat (scopes g)) = A \<and>
     Card_N G k = length extras \<and>
     (\<forall>v. proper v \<longrightarrow> clauses g v \<longrightarrow> gates (circ d) v \<and>
        (\<forall>w \<in> {0..length extras}. v (Card_Leq G k (int w)) = (length (filter v extras) \<le> w))) \<and>
     (\<forall>v. proper v \<longrightarrow> gates (circ d) v \<longrightarrow>
        (\<exists>v'. proper v' \<and> clauses g v' \<and> (\<forall>m \<in> wires (circ d). v' m = v m)))"

lemma Solve_satisfiable_prepared:
  assumes good: "lm_good vs d" and base: "baseline d g"
    and sat: "satisfiable_with (clauses g) (set (concat (scopes g)))"
    and buffer: "buffer = map (\<lambda>i. the (map_of (lits d) i)) (map Identifier vs)"
    and split: "split_values G g aset buffer = (extras, excluded)"
  shows "\<exists>k g4 d'. prepared d extras (set as \<union> set excluded \<union> keys d) k g4 \<and>
    Solve_satisfiable G d g as aset =
      (case least_bound G k g4 [0..<Suc (length extras)] of
         Some g \<Rightarrow> (Inr (filter (\<lambda>x. S_Value G g (the (map_of (lits d) (Identifier x)))) vs), d')
       | None \<Rightarrow> (Inl UnexpectedInternalError, d')) \<and> errs d' = []"
proof -
  have ids: "set (map Identifier vs) \<subseteq> dom (map_of (lits d))" and inorder: "inorder d = vs"
    using lm_goodD(1,4) [OF good] by auto
  have Lits: "Lits d = (buffer, d)" using LitsOf_known [OF ids] by (simp add: Lits_def buffer inorder)
  have bw: "set buffer \<subseteq> wires (circ d)"
    using good_lit [OF good] by (force simp: buffer)
  then have ew: "set extras \<subseteq> wires (circ d)" using split by (auto simp: split_values_eq)
  obtain r1 g1 where 1: "S_Untest G g = (r1, g1)" by force
  obtain ms where ms: "scopes g = [ms]" "pending g = []" using base by (auto simp: baseline_def)
  have s1: "clauses g1 = clauses g" "scopes g1 = []" "pending g1 = []" "\<not> conflicted g1"
    using Untest_state [OF ms 1] Untest_unsat [OF ms, of g1] 1 satisfiable_with_mono [OF sat, of "{}"]
    by auto
  obtain k c' where k: "C_CardSort G (circ d) extras = (k, c')" by force
  note card = CardSort_wires [OF ew k]
  define g2 where "g2 = teach_Leq G c' k (replicate (C_Len G (circ d)) 1) g1 [0..<Suc (Card_N G k)]"
  have cl1: "\<forall>v. proper v \<longrightarrow>
      clauses g1 v = (gates (circ d) v \<and> marked c' (replicate (C_Len G (circ d)) 1) v)"
    using marked_old [OF ew k] base s1(1) by (auto simp: baseline_def)
  obtain mk where g2: "scopes g2 = []" "pending g2 = []" "\<not> conflicted g2"
      "\<And>v. proper v \<Longrightarrow> clauses g2 v = (gates (circ d) v \<and> marked c' mk v)"
      and leq: "\<And>v. proper v \<Longrightarrow> marked c' mk v \<Longrightarrow> \<forall>w \<in> set [0..<Suc (Card_N G k)].
         v (Card_Leq G k (int w)) = (length (filter v extras) \<le> w)"
    using teach_Leq_state [OF ew k s1(2,4) cl1, of "[0..<Suc (Card_N G k)]", folded g2_def] s1(3)
    unfolding Let_def by metis
  have "set [0..<Suc (Card_N G k)] = {0..length extras}" using card by auto
  note leq = leq [unfolded this]
  let ?d = "d\<lparr>circ := c'\<rparr>"
  let ?g3 = "AssumeConstraints G ?d (S_Assume G excluded (S_Assume G as g2))"
  obtain r4 g4 where 4: "S_Test G ?g3 = (r4, g4)" by force
  have s4: "clauses g4 = clauses g2" "pending g4 = []"
      "scopes g4 = [as @ excluded @ map fst (constraints d)]"
    using Test_state [OF _ 4] g2(1-3) by (simp_all add: AssumeConstraints_state Assume)
  have "\<exists>v'. proper v' \<and> clauses g4 v' \<and> (\<forall>m \<in> wires (circ d). v' m = v m)"
    if v: "proper v" "gates (circ d) v" for v
  proof -
    have ext: "extends wires gates (circ d) c'" using card by simp
    then obtain v' where v': "proper v'" "gates c' v'" "\<forall>m \<in> wires (circ d). v' m = v m"
      using v unfolding extends_def by metis
    then have "gates (circ d) v'" using ext by (simp add: extends_def)
    then show ?thesis using v' g2(4) [OF v'(1)] marked_gates [OF v'(1,2)] s4(1) by auto
  qed
  moreover have "gates (circ d) v \<and>
      (\<forall>w \<in> {0..length extras}. v (Card_Leq G k (int w)) = (length (filter v extras) \<le> w))"
    if "proper v" "clauses g4 v" for v
    using g2(4) leq that s4(1) by simp
  ultimately have "prepared d extras (set as \<union> set excluded \<union> keys d) k g4"
    using s4(2,3) card unfolding prepared_def by (auto simp: sup_assoc)
  moreover have "lm_Variables G g5 vs ?d =
      (filter (\<lambda>x. S_Value G g5 (the (map_of (lits d) (Identifier x)))) vs, ?d)" for g5
    using lm_Variables_known [of vs ?d G g5] ids by simp
  then have "Solve_satisfiable G d g as aset =
      (case least_bound G k g4 [0..<Suc (length extras)] of
         Some g \<Rightarrow> (Inr (filter (\<lambda>x. S_Value G g (the (map_of (lits d) (Identifier x)))) vs), ?d)
       | None \<Rightarrow> (Inl UnexpectedInternalError, ?d))"
    using split 1 k 4 card inorder
    by (simp add: Solve_satisfiable_def Lits CardinalityConstrainer_def g2_def Variables_def
        split: option.split)
  ultimately show ?thesis using lm_goodD(3) [OF good] by (intro exI [of _ k] exI [of _ g4] exI [of _ ?d]) simp
qed

lemma good_lit_id:
  assumes "lm_good vs d" and "m \<in> snd ` set (lits d)"
  shows "\<exists>x \<in> set vs. map_of (lits d) (Identifier x) = Some m"
proof -
  obtain i where "(i, m) \<in> set (lits d)" using assms(2) by auto
  then have i: "map_of (lits d) i = Some m" using assms(1) by (simp add: lm_good_def)
  then have "i \<in> Identifier ` set vs" using lm_goodD(4) [OF assms(1)] by blast
  then show ?thesis using i by auto
qed

text \<open>
  The models the loop looks for: a bound can be met when some solution that keeps the guesses and
  the exclusions has at most that many extras.
\<close>

lemma preparedD:
  assumes "prepared d extras A k g" and "proper v" and "clauses g v"
  shows "gates (circ d) v"
    "w \<le> length extras \<Longrightarrow> v (Card_Leq G k (int w)) = (length (filter v extras) \<le> w)"
  using assms by (simp_all add: prepared_def)

lemma prepared_bound_sat:
  assumes "prepared d extras A k g" and "w \<le> length extras" and "proper v" and "gates (circ d) v"
    and "\<forall>m \<in> A. v m" and "A \<subseteq> wires (circ d)" and "set extras \<subseteq> wires (circ d)"
    and "length (filter v extras) \<le> w"
  shows "bound_sat k g w"
proof -
  obtain v' where v': "proper v'" "clauses g v'" "\<forall>m \<in> wires (circ d). v' m = v m"
    using assms(1,3,4) unfolding prepared_def by metis
  have "filter v' extras = filter v extras" using v'(3) assms(7) by (intro filter_cong) auto
  then have "v' (Card_Leq G k (int w))"
    using preparedD(2) [OF assms(1) v'(1,2) assms(2)] assms(8) by simp
  moreover have "\<forall>m \<in> set (concat (scopes g)). v' m"
    using assms(1,5,6) v'(3) by (auto simp: prepared_def)
  ultimately show ?thesis using v'(1,2) unfolding bound_sat_def satisfiable_with_def by auto
qed

lemma upt_split: "[0..<n] = us @ w # us' \<Longrightarrow> us = [0..<w] \<and> w < n"
proof -
  assume eq: "[0..<n] = us @ w # us'"
  then have len: "length us < n" by (metis append_eq_conv_conj diff_zero length_append length_upt
        length_Cons less_add_same_cancel1 zero_less_Suc)
  then have "w = length us" using eq by (metis add.left_neutral nth_append_length nth_upt)
  moreover have "us = take (length us) [0..<n]" using eq by simp
  ultimately show ?thesis using len by (metis add.left_neutral less_imp_le take_upt)
qed

lemma filter_less:
  assumes "\<forall>m \<in> set ms. v' m \<longrightarrow> v m" and "m \<in> set ms" and "v m" and "\<not> v' m"
  shows "length (filter v' ms) < length (filter v ms)"
  using assms
proof (induction ms)
  case (Cons n ms)
  have "length (filter v' ms) \<le> length (filter v ms)"
    using Cons.prems(1) by (induction ms) auto
  then show ?case using Cons by auto
qed simp

lemma extras_decrease:
  assumes good: "lm_good vs d"
    and split: "split_values G g aset (map (\<lambda>i. the (map_of (lits d) i)) (map Identifier vs)) = (extras, excluded)"
    and v: "\<forall>m \<in> set excluded. v m" "proper v"
    and sub: "selected d v' \<subset> selected d v" and P: "lit_ids d as \<subseteq> selected d v'" "aset \<subseteq> set as"
  shows "length (filter v' extras) < length (filter v extras)"
proof -
  have mono: "v m" if m: "m \<in> set extras" "v' m" for m
  proof -
    obtain x where x: "x \<in> set vs" "m = the (map_of (lits d) (Identifier x))"
      using m(1) unfolding split_values_sets(1) [OF split] by auto
    obtain n where "map_of (lits d) (Identifier x) = Some n" using good_lit [OF good x(1)] by metis
    then have "Identifier x \<in> selected d v'" using x m(2) by (simp add: selected_def)
    then have "Identifier x \<in> selected d v" using sub by auto
    then show "v m" using x by (auto simp: selected_def)
  qed
  obtain i where i: "i \<in> selected d v" "i \<notin> selected d v'" using sub by blast
  then obtain m where m: "map_of (lits d) i = Some m" "v m" "\<not> v' m"
    by (auto simp: selected_def)
  have "m \<notin> aset" using m(1) i(2) P by (auto simp: lit_ids_def)
  moreover obtain x where x: "x \<in> set vs" "i = Identifier x"
    using lm_goodD(4) [OF good] domI [of "map_of (lits d)" i] m(1) by auto
  moreover have "lit_not m \<notin> set excluded" using m(2) v by auto
  moreover have "m \<in> set (map (\<lambda>i. the (map_of (lits d) i)) (map Identifier vs))"
    using calculation m(1) by force
  ultimately have "m \<in> set extras" unfolding split_values_sets [OF split] by blast
  then show ?thesis using mono m(2,3) by (intro filter_less) auto
qed

lemma bound_minimal:
  assumes good: "lm_good vs d"
    and split: "split_values G g aset (map (\<lambda>i. the (map_of (lits d) i)) (map Identifier vs)) = (extras, excluded)"
    and prep: "prepared d extras (set as \<union> set excluded \<union> keys d) k g4"
    and wires: "set as \<union> set excluded \<union> keys d \<subseteq> wires (circ d)" "set extras \<subseteq> wires (circ d)"
    and as: "set as \<subseteq> snd ` set (lits d)" "aset \<subseteq> set as"
    and v: "proper v" "\<forall>m \<in> set as \<union> set excluded \<union> keys d. v m"
    and dom: "selected d v \<subseteq> Identifier ` set vs"
    and w: "length (filter v extras) \<le> w" "w \<le> length extras" "\<forall>u < w. \<not> bound_sat k g4 u"
    and S': "is_solution vs S'" "lit_ids d as \<subseteq> S'" "S' \<subset> selected d v"
  shows False
proof -
  have "S' \<inter> Identifier ` set vs = S'" using S'(3) dom by blast
  then obtain v' where v': "proper v'" "gates (circ d) v'" "selected d v' = S'" "\<forall>m \<in> keys d. v' m"
    using good_solution [OF good S'(1)] by auto
  have less: "length (filter v' extras) < length (filter v extras)"
    by (rule extras_decrease [OF good split _ v(1)]) (use v(2) S'(2,3) v'(3) as(2) in auto)
  have asv: "v' m" if m: "m \<in> set as" for m
  proof -
    have "m \<in> snd ` set (lits d)" using as(1) m by blast
    then obtain x where "map_of (lits d) (Identifier x) = Some m"
      using good_lit_id [OF good] by metis
    moreover from this have "Identifier x \<in> selected d v'"
      using m S'(2) v'(3) by (auto simp: lit_ids_def)
    ultimately show "v' m" by (simp add: selected_def)
  qed
  have exv: "v' m" if m: "m \<in> set excluded" for m
  proof -
    obtain x where x: "x \<in> set vs" "m = lit_not (the (map_of (lits d) (Identifier x)))"
      using m unfolding split_values_sets(2) [OF split] by auto
    obtain n where n: "map_of (lits d) (Identifier x) = Some n" using good_lit [OF good x(1)] by metis
    have "v m" using v(2) m by simp
    then have "\<not> v n" using x(2) n v(1) by simp
    then have "Identifier x \<notin> selected d v'" using n S'(3) v'(3) by (auto simp: selected_def)
    then show "v' m" using x(2) n v'(1) by (simp add: selected_def)
  qed
  have "bound_sat k g4 (length (filter v' extras))"
    by (rule prepared_bound_sat [OF prep _ v'(1,2) _ wires])
      (use asv exv v'(4) in \<open>auto simp: length_filter_le\<close>)
  then show False using less w by simp
qed

lemma Solve_satisfiable_result:
  assumes good: "lm_good vs d" and base: "baseline d g"
    and sat: "satisfiable_with (clauses g) (set (concat (scopes g)))"
    and as: "set as \<subseteq> snd ` set (lits d)" "aset \<subseteq> set as"
    and split: "split_values G g aset (map (\<lambda>i. the (map_of (lits d) i)) (map Identifier vs)) = (extras, excluded)"
  obtains d' sel S where "Solve_satisfiable G d g as aset = (Inr sel, d')" "errs d' = []"
      "sel = filter (\<lambda>x. Identifier x \<in> S) vs" "minimal_over vs (lit_ids d as) S"
  | d' where "Solve_satisfiable G d g as aset = (Inl UnexpectedInternalError, d')" "errs d' = []"
      "\<not> satisfiable_with (gates (circ d)) (set as \<union> set excluded \<union> keys d)"
proof -
  let ?A = "set as \<union> set excluded \<union> keys d"
  obtain k g4 d' where prep: "prepared d extras ?A k g4"
    and res: "Solve_satisfiable G d g as aset =
      (case least_bound G k g4 [0..<Suc (length extras)] of
         Some g \<Rightarrow> (Inr (filter (\<lambda>x. S_Value G g (the (map_of (lits d) (Identifier x)))) vs), d')
       | None \<Rightarrow> (Inl UnexpectedInternalError, d'))" and errs: "errs d' = []"
    using Solve_satisfiable_prepared [OF good base sat refl split, of as] by metis
  have pend: "pending g4 = []" "set (concat (scopes g4)) = ?A" using prep by (simp_all add: prepared_def)
  have bw: "the (map_of (lits d) (Identifier x)) \<in> wires (circ d)" if "x \<in> set vs" for x
    using good_lit [OF good that] by (metis option.sel)
  have ew: "set extras \<subseteq> wires (circ d)" "set excluded \<subseteq> wires (circ d)"
    using bw wires_not unfolding split_values_sets [OF split] by auto
  moreover have "set as \<subseteq> wires (circ d)"
  proof
    fix m assume "m \<in> set as"
    then have "m \<in> snd ` set (lits d)" using as(1) by blast
    then obtain x where "x \<in> set vs" "map_of (lits d) (Identifier x) = Some m"
      using good_lit_id [OF good] by metis
    then show "m \<in> wires (circ d)" using bw [of x] by simp
  qed
  moreover have "keys d \<subseteq> wires (circ d)" using good_constraint(2) [OF good] by (auto simp: encodes_def)
  ultimately have Aw: "?A \<subseteq> wires (circ d)" by blast
  show thesis
  proof (cases "least_bound G k g4 [0..<Suc (length extras)]")
    case None
    have "\<not> satisfiable_with (gates (circ d)) ?A"
    proof
      assume "satisfiable_with (gates (circ d)) ?A"
      then obtain v where v: "proper v" "gates (circ d) v" "\<forall>m \<in> ?A. v m"
        unfolding satisfiable_with_def by metis
      have "bound_sat k g4 (length extras)"
        by (rule prepared_bound_sat [OF prep _ v Aw ew(1)]) simp_all
      then show False using least_bound_None [OF None pend(1), of "length extras"] by simp
    qed
    then show ?thesis using that(2) [of d'] res None errs by simp
  next
    case (Some g5)
    from least_bound_Some [OF Some pend(1)] obtain us w us' v
      where w: "[0..<Suc (length extras)] = us @ w # us'" and bm: "bound_model k g4 g5 w v"
        and us: "\<forall>u \<in> set us. \<not> bound_sat k g4 u" by metis
    note w = upt_split [OF w]
    have v: "proper v" "clauses g4 v" "v (Card_Leq G k (int w))" "\<forall>m. even m \<longrightarrow> S_Value G g5 m = v m"
        and vA: "\<forall>m \<in> ?A. v m"
      using bm unfolding bound_model_def pend(2) by blast+
    have gv: "gates (circ d) v" using preparedD(1) [OF prep v(1,2)] .
    have count: "length (filter v extras) \<le> w" "w \<le> length extras"
      using preparedD(2) [OF prep v(1,2), of w] v(3) w by simp_all
    let ?S = "selected d v"
    have sel: "filter (\<lambda>x. S_Value G g5 (the (map_of (lits d) (Identifier x)))) vs =
        filter (\<lambda>x. Identifier x \<in> ?S) vs"
    proof (rule filter_cong [OF refl])
      fix x assume "x \<in> set vs"
      then obtain m where "map_of (lits d) (Identifier x) = Some m" "even m"
        using good_lit [OF good] by metis
      then show "S_Value G g5 (the (map_of (lits d) (Identifier x))) = (Identifier x \<in> ?S)"
        using v(4) by (simp add: selected_def)
    qed
    have "is_solution vs ?S"
      using enc_inv_solution [OF lm_goodD(8) [OF good] v(1) gv] vA by blast
    moreover have "lit_ids d as \<subseteq> ?S" using vA by (auto simp: lit_ids_def selected_def)
    moreover have Sdom: "?S \<subseteq> Identifier ` set vs"
      using lm_goodD(4) [OF good] by (auto simp: selected_def)
    moreover have "\<not> S' \<subset> ?S" if S': "is_solution vs S'" "lit_ids d as \<subseteq> S'" for S'
    proof
      assume "S' \<subset> ?S"
      then show False
        using bound_minimal [OF good split prep Aw ew(1) as v(1) vA Sdom count _ S'] us w by simp
    qed
    ultimately have "minimal_over vs (lit_ids d as) ?S" unfolding minimal_over_def by blast
    then show ?thesis using that(1) [of _ d' ?S] res Some sel errs by simp
  qed
qed

end

subsection \<open>All stages together\<close>

text \<open>
  The possible outcomes for an input without errors, where \<open>P\<close> are the identifiers guessed by the
  search, or the mandatory ones when it was not needed.
\<close>

inductive outcome :: "solver_variable list \<Rightarrow> ident set \<Rightarrow> solver_error + solver_variable list \<Rightarrow> bool"
  for vs P where
  out_selected: "minimal_over vs P S \<Longrightarrow> outcome vs P (Inr (filter (\<lambda>x. Identifier x \<in> S) vs))"
| out_unsatisfiable: "\<forall>a \<in> set as. applied vs a \<Longrightarrow> \<forall>S. \<not> holds_all S as \<Longrightarrow>
    sorted (map AppliedConstraint_String as) \<Longrightarrow> outcome vs P (Inl (NotSatisfiable as))"
| out_internal: "\<exists>S. is_solution vs S \<Longrightarrow> outcome vs P (Inl UnexpectedInternalError)"

definition Solve_guesses :: "('c, 'k, 's) gini \<Rightarrow> Tracer \<Rightarrow> 'c litMapping \<Rightarrow> 's \<Rightarrow> lit list" where
  "Solve_guesses G tr d g =
     (let (assumptions, outcome, d, g) = Solve_baseline G d g in
      if outcome \<noteq> satisfiable \<and> outcome \<noteq> unsatisfiable
      then (case search_Do G (new_search tr g d) assumptions of
              Some (_, ms, _) \<Rightarrow> ms | None \<Rightarrow> assumptions)
      else assumptions)"

context inter_S
begin

lemma outcome_satisfiable:
  assumes good: "lm_good vs d" and base: "baseline d g"
    and sat: "satisfiable_with (clauses g) (set (concat (scopes g)))"
    and as: "set as \<subseteq> snd ` set (lits d)" "aset \<subseteq> set as"
  shows "\<exists>r d'. Solve_satisfiable G d g as aset = (r, d') \<and> errs d' = [] \<and> outcome vs (lit_ids d as) r"
proof -
  obtain extras excluded where
    split: "split_values G g aset (map (\<lambda>i. the (map_of (lits d) i)) (map Identifier vs)) = (extras, excluded)"
    by force
  have "\<exists>S. is_solution vs S" using baseline_satisfiable [OF good base] sat by simp
  with Solve_satisfiable_result [OF good base sat as split] show ?thesis
    by (metis out_selected out_internal)
qed

lemma outcome_unsatisfiable:
  assumes good: "lm_good vs d" and base: "baseline d g" and "conflicted g"
    and "\<not> satisfiable_with (clauses g) (set (concat (scopes g)))"
  shows "outcome vs P (Inl (NotSatisfiable (Conflicts G d g)))"
proof (rule out_unsatisfiable)
  show "\<forall>a \<in> set (Conflicts G d g). applied vs a" using Conflicts_applied [OF good] by blast
  show "\<forall>S. \<not> holds_all S (Conflicts G d g)" using Conflicts_unsatisfiable [OF assms] by blast
qed (rule sorted_Conflicts)

lemma outcome_good:
  assumes good: "lm_good vs d" and fresh: "fresh_S g"
  shows "\<exists>r d'. Solve_outcome G tr d g = Some (r, d') \<and> errs d' = [] \<and>
    outcome vs (lit_ids d (Solve_guesses G tr d g)) r"
proof -
  obtain as r d1 g1 where b: "Solve_baseline G d g = (as, r, d1, g1)" by (metis prod_cases4)
  have st: "as = anchor_lits d" "d1 = d" "baseline d g1" "known g1 r"
    using Solve_baseline_state [OF good fresh b] by blast+
  note anchors = good_anchors(3) [OF good, folded st(1)]
  consider "r = 1" | "r = -1" | "r = 0" using st(4) by (auto simp: known_def)
  then show ?thesis
  proof cases
    case 1
    then have "satisfiable_with (clauses g1) (set (concat (scopes g1)))"
      using st(4) by (simp add: known_def)
    from outcome_satisfiable [OF good st(3) this anchors, of "{}"] show ?thesis
      using 1 st(2) b by (simp add: Solve_outcome_def Solve_guesses_def result_defs)
  next
    case 2
    then show ?thesis using st(2,4) b outcome_unsatisfiable [OF good st(3)] lm_goodD(3) [OF good]
      by (simp add: Solve_outcome_def Solve_guesses_def result_defs known_def)
  next
    case 3
    have pre: "pending g1 = []" "\<not> conflicted g1"
      using st(3,4) 3 by (simp_all add: baseline_def known_def)
    obtain r2 ms h where s: "search_Do G (new_search tr g1 d) as = Some (r2, ms, set ms, h)"
        "scopes (h_s h) = scopes g1" "clauses (h_s h) = clauses g1" "pending (h_s h) = []"
        "if satisfiable_with (clauses g1) (set (concat (scopes g1)))
         then r2 = satisfiable \<and> satisfiable_with (clauses g1) (set (concat (scopes g1)) \<union> set ms)
         else r2 = unsatisfiable \<and> conflicted (h_s h)"
      using search_Do_decides [OF pre, of tr d as] by metis
    have hl: "h_lits h = d" by (rule search_Do_closed [OF good_closed [OF good] anchors s(1)])
    have base: "baseline d (h_s h)" using st(3) s(2-4) by (simp add: baseline_def)
    have ms: "set ms \<subseteq> snd ` set (lits d)"
      using search_Do_returns [of G tr g1 d as] s(1) anchors by auto
    show ?thesis
    proof (cases "satisfiable_with (clauses g1) (set (concat (scopes g1)))")
      case True
      then have "satisfiable_with (clauses (h_s h)) (set (concat (scopes (h_s h))))" using s(2,3) by simp
      from outcome_satisfiable [OF good base this ms, of "set ms"] show ?thesis
        using True 3 st(2) b s(1,5) hl by (simp add: Solve_outcome_def Solve_guesses_def result_defs)
    next
      case False
      then have "outcome vs P (Inl (NotSatisfiable (Conflicts G d (h_s h))))" for P
        using outcome_unsatisfiable [OF good base] s(2,3,5) by simp
      then show ?thesis using False 3 st(2) b s(1,5) hl lm_goodD(3) [OF good]
        by (simp add: Solve_outcome_def Solve_guesses_def result_defs)
    qed
  qed
qed

end

end
