(* ===== verification/Solver_Properties.thy ===== *)
theory Solver_Properties
  imports Solve_Correct
begin

text \<open>
  The properties of the constraint solver as its callers see it: \<^verbatim>\<open>solver.New\<close> followed by \<^verbatim>\<open>Solve\<close>
  (\<open>solve_variables\<close>). Those about the answer have the laws of the SAT backend as a hypothesis, and
  their witnesses discharge it with the executable backend of \<^verbatim>\<open>Ref_Gini\<close>.
\<close>

subsection \<open>Inputs without errors\<close>

definition well_formed :: "solver_variable list \<Rightarrow> bool" where
  "well_formed vs \<longleftrightarrow> distinct (map Identifier vs) \<and> references vs \<subseteq> Identifier ` set vs"

lemma newLitMapping_cases:
  "case newLitMapping G vs of
     Inl e \<Rightarrow> \<not> distinct (map Identifier vs)
   | Inr d \<Rightarrow> distinct (map Identifier vs) \<and> (errs d = [] \<longleftrightarrow> references vs \<subseteq> Identifier ` set vs)"
proof (cases "assign_lits G vs \<lparr>inorder = vs, variables = [], lits = [], constraints = [],
      circ = NewCCap G (length vs), errs = []\<rparr>")
  case (Inl e)
  then show ?thesis using Inl [unfolded assign_lits_error]
    by (auto simp: newLitMapping_def)
next
  case (Inr d1)
  have dom: "dom (map_of (lits d1)) = Identifier ` set vs" "distinct (map Identifier vs)"
    using assign_lits_dom [OF Inr] by simp_all
  have "lm_keep d1 (apply_variables G vs d1) (references vs)"
    using apply_variables_keep [of vs d1 G] dom by simp
  then have "errs (apply_variables G vs d1) = [] \<longleftrightarrow> references vs \<subseteq> Identifier ` set vs"
    using assign_lits_frame [OF Inr] dom by (auto simp: lm_keep_def)
  then show ?thesis using Inr dom by (simp add: newLitMapping_def)
qed

lemma well_formed_mapping:
  "well_formed vs \<longleftrightarrow> (\<exists>d. newLitMapping G vs = Inr d \<and> errs d = [])"
  using newLitMapping_cases [where G = G and vs = vs] by (auto simp: well_formed_def split: sum.splits)

text \<open>The identifiers of the literals that are assumed while the selection is minimised\<close>

definition guessed :: "('c, 'k, 's) gini \<Rightarrow> Tracer \<Rightarrow> solver_variable list \<Rightarrow> ident set" where
  "guessed G tr vs =
     (case newLitMapping G vs of
        Inl _ \<Rightarrow> {}
      | Inr d \<Rightarrow> lit_ids d (Solve_guesses G tr d (New_S G)))"

lemma lit_ids_code [code]:
  "lit_ids d ms = set (filter (\<lambda>i. case map_of (lits d) i of Some m \<Rightarrow> m \<in> set ms | None \<Rightarrow> False)
     (map fst (lits d)))"
  by (force simp: lit_ids_def split: option.splits dest: map_of_SomeD)

context inter_S
begin

lemma solve_well_formed:
  assumes "well_formed vs"
  obtains r where "solve_variables G tr vs = Some r" "outcome vs (guessed G tr vs) r"
proof -
  obtain d where d: "newLitMapping G vs = Inr d" "errs d = []"
    using assms well_formed_mapping [where G = G and vs = vs] by blast
  have good: "lm_good vs d" by (rule newLitMapping_good [OF d])
  obtain r d' where r: "Solve_outcome G tr d (New_S G) = Some (r, d')" "errs d' = []"
      "outcome vs (lit_ids d (Solve_guesses G tr d (New_S G))) r"
    using outcome_good [OF good fresh_New] by metis
  have "solve_variables G tr vs = Some r"
    using d(1) r(1,2) by (simp add: solve_variables_eq lm_Error_def)
  then show ?thesis using that d(1) r(3) by (simp add: guessed_def)
qed

end

lemma solve_error_free:
  assumes "solve_variables G tr vs = Some r" and "\<not> well_formed vs"
  shows "(\<exists>i. r = Inl (DuplicateIdentifier i)) \<or> (\<exists>es. es \<noteq> [] \<and> r = Inl (InconsistentLitMapping es))"
proof (cases "newLitMapping G vs")
  case (Inl e)
  then have "\<exists>i. e = DuplicateIdentifier i"
    by (auto simp: newLitMapping_def assign_lits_error split: sum.splits)
  then show ?thesis using assms(1) Inl by (auto simp: solve_variables_eq)
next
  case (Inr d)
  then have "errs d \<noteq> []" using assms(2) well_formed_mapping [where G = G and vs = vs] by blast
  moreover obtain r' d' where "Solve_outcome G tr d (New_S G) = Some (r', d')" "errs_grow d d'"
    using Solve_outcome_returns [of G tr d "New_S G"] by blast
  ultimately show ?thesis using assms(1) Inr
    by (auto simp: solve_variables_eq lm_Error_def errs_grow_def)
qed

inductive_cases outcome_InrE: "outcome vs P (Inr sel)"
inductive_cases outcome_NotSatisfiableE: "outcome vs P (Inl (NotSatisfiable as))"

lemma is_solution_applied: "is_solution vs S \<Longrightarrow> \<forall>a \<in> set as. applied vs a \<Longrightarrow> holds_all S as"
  by (auto simp: is_solution_def holds_all_def applied_def)

subsection \<open>Small inputs for the witnesses\<close>

definition pick_second :: "solver_variable list" where
  "pick_second =
     [GenericVariable ''a'' [mandatory, dependency [''b'', ''c'']],
      GenericVariable ''b'' [prohibited], GenericVariable ''c'' []]"

definition no_way :: "solver_variable list" where
  "no_way = [GenericVariable ''a'' [mandatory, dependency [''b'']], GenericVariable ''b'' [prohibited]]"

lemma solve_pick_second:
  "solve_variables (ref_gini True) DefaultTracer pick_second =
     Some (Inr [GenericVariable ''a'' [mandatory, dependency [''b'', ''c'']], GenericVariable ''c'' []])"
  by code_simp

lemma solve_no_way:
  "solve_variables (ref_gini True) DefaultTracer no_way =
     Some (Inl (NotSatisfiable (map (\<lambda>(x, c). \<lparr>AC_Variable = no_way ! x, AC_Constraint = c\<rparr>)
       [(0, mandatory), (0, mandatory), (0, dependency [''b'']), (1, prohibited)])))"
  by code_simp

subsection \<open>Properties\<close>

lemma solve_not_well_formed:
  assumes "solve_variables G tr vs = Some r" and "\<forall>i es. r \<noteq> Inl (DuplicateIdentifier i) \<and>
    r \<noteq> Inl (InconsistentLitMapping es)"
  shows "well_formed vs"
  using assms solve_error_free by blast

lemma solve_variables_returns: "\<exists>r. solve_variables G tr vs = Some r"
proof (cases "newLitMapping G vs")
  case (Inl e)
  then show ?thesis by (simp add: solve_variables_eq)
next
  case (Inr d)
  obtain r d' where "Solve_outcome G tr d (New_S G) = Some (r, d')"
    using Solve_outcome_returns [of G tr d "New_S G"] by blast
  then show ?thesis using Inr by (simp add: solve_variables_eq split: option.split)
qed

text \<open>What an answer of the solver is\<close>

lemma solve_decided:
  assumes "inter_S G wires gates clauses scopes pending conflicted marked" and "well_formed vs"
  shows "if \<exists>S. is_solution vs S
    then (\<exists>sel. solve_variables G tr vs = Some (Inr sel)) \<or>
      solve_variables G tr vs = Some (Inl UnexpectedInternalError)
    else \<exists>as. solve_variables G tr vs = Some (Inl (NotSatisfiable as))"
proof -
  obtain P r where r: "solve_variables G tr vs = Some r" "outcome vs P r"
    using inter_S.solve_well_formed [OF assms] by metis
  from r(2) show ?thesis
  proof cases
    case (out_selected S)
    then have "\<exists>S. is_solution vs S" by (auto simp: minimal_over_def)
    then show ?thesis using out_selected r(1) by simp
  next
    case (out_unsatisfiable as)
    then have "\<nexists>S. is_solution vs S" using is_solution_applied by blast
    then show ?thesis using out_unsatisfiable r(1) by simp
  next
    case out_internal
    then show ?thesis using r(1) by simp
  qed
qed

lemma solve_selects:
  assumes "inter_S G wires gates clauses scopes pending conflicted marked"
    and "solve_variables G tr vs = Some (Inr sel)"
  shows "is_solution vs (Identifier ` set sel) \<and>
    sel = filter (\<lambda>x. Identifier x \<in> Identifier ` set sel) vs"
proof -
  have "well_formed vs" by (rule solve_not_well_formed [OF assms(2)]) simp
  from inter_S.solve_well_formed [OF assms(1) this, of tr] obtain P where "outcome vs P (Inr sel)"
    using assms(2) by (metis option.inject)
  then obtain S where S: "sel = filter (\<lambda>x. Identifier x \<in> S) vs" "minimal_over vs P S"
    by (elim outcome_InrE)
  then have "Identifier ` set sel = S" by (auto simp: minimal_over_def)
  then show ?thesis using S by (simp add: minimal_over_def)
qed

text \<open>
  C1. Soundness of \<^verbatim>\<open>Solve\<close>: a selection it returns satisfies every constraint of every input
  variable and lists variables of the input in input order.
\<close>

theorem solve_sound:
  assumes "inter_S G wires gates clauses scopes pending conflicted marked"
    and "solve_variables G tr vs = Some (Inr sel)"
  shows "is_solution vs (Identifier ` set sel) \<and>
    sel = filter (\<lambda>x. Identifier x \<in> Identifier ` set sel) vs"
  by (rule solve_selects [OF assms])

theorem solve_sound_witness:
  "is_solution pick_second
     (Identifier ` set [GenericVariable ''a'' [mandatory, dependency [''b'', ''c'']], GenericVariable ''c'' []])"
  using solve_sound [OF ref.inter_S_axioms solve_pick_second] by blast

text \<open>
  C2. The conflict reported by \<^verbatim>\<open>Solve\<close> consists of constraints of input variables that no
  selection satisfies together, sorted by their rendering; so the input has no solution.
\<close>

theorem solve_conflict:
  assumes "inter_S G wires gates clauses scopes pending conflicted marked"
    and "solve_variables G tr vs = Some (Inl (NotSatisfiable as))"
  shows "(\<forall>a \<in> set as. applied vs a) \<and> (\<nexists>S. holds_all S as) \<and>
    sorted (map AppliedConstraint_String as) \<and> (\<nexists>S. is_solution vs S)"
proof -
  have "well_formed vs" by (rule solve_not_well_formed [OF assms(2)]) simp
  from inter_S.solve_well_formed [OF assms(1) this, of tr] obtain P
    where "outcome vs P (Inl (NotSatisfiable as))"
    using assms(2) by (metis option.inject)
  then have "\<forall>a \<in> set as. applied vs a" "\<forall>S. \<not> holds_all S as" "sorted (map AppliedConstraint_String as)"
    by (elim outcome_NotSatisfiableE, blast)+
  then show ?thesis using is_solution_applied by blast
qed

theorem solve_conflict_witness: "\<nexists>S. is_solution no_way S"
  using solve_conflict [OF ref.inter_S_axioms solve_no_way] by blast

text \<open>
  C3. \<^verbatim>\<open>Solve\<close> decides well-formed inputs: without a solution it reports a conflict, with one it
  returns a selection or fails with the internal error; it never reports an incomplete search.
\<close>

theorem solve_decides:
  assumes "inter_S G wires gates clauses scopes pending conflicted marked" and "well_formed vs"
  shows "if \<exists>S. is_solution vs S
    then (\<exists>sel. solve_variables G tr vs = Some (Inr sel)) \<or>
      solve_variables G tr vs = Some (Inl UnexpectedInternalError)
    else \<exists>as. solve_variables G tr vs = Some (Inl (NotSatisfiable as))"
  by (rule solve_decided [OF assms])

theorem solve_decides_witness:
  "\<exists>as. solve_variables (ref_gini False) DefaultTracer no_way = Some (Inl (NotSatisfiable as))"
proof -
  have "well_formed no_way" by (simp add: well_formed_def no_way_def references_def)
  moreover have "\<nexists>S. is_solution no_way S" by (simp add: is_solution_def no_way_def)
  ultimately show ?thesis
    using solve_decides [OF ref.inter_S_axioms, of no_way False DefaultTracer] by simp
qed

text \<open>
  C4. The selection is minimal: none of its proper subsets that keeps what the search guessed (the
  mandatory variables, when the first test decided the input) is a solution.
\<close>

theorem solve_minimal:
  assumes "inter_S G wires gates clauses scopes pending conflicted marked"
    and "solve_variables G tr vs = Some (Inr sel)"
    and "is_solution vs S'" and "guessed G tr vs \<subseteq> S'"
  shows "\<not> S' \<subset> Identifier ` set sel"
proof -
  have "well_formed vs" by (rule solve_not_well_formed [OF assms(2)]) simp
  from inter_S.solve_well_formed [OF assms(1) this, of tr]
  have "outcome vs (guessed G tr vs) (Inr sel)" using assms(2) by (metis option.inject)
  then obtain S where S: "sel = filter (\<lambda>x. Identifier x \<in> S) vs" "minimal_over vs (guessed G tr vs) S"
    by (elim outcome_InrE)
  then have "Identifier ` set sel = S" by (auto simp: minimal_over_def)
  then show ?thesis using S(2) assms(3,4) by (simp add: minimal_over_def)
qed

theorem solve_minimal_witness:
  "\<not> {''a'', ''c''} \<subset>
     Identifier ` set [GenericVariable ''a'' [mandatory, dependency [''b'', ''c'']], GenericVariable ''c'' []]"
proof (rule solve_minimal [OF ref.inter_S_axioms solve_pick_second])
  show "is_solution pick_second {''a'', ''c''}" by (simp add: is_solution_def pick_second_def)
  show "guessed (ref_gini True) DefaultTracer pick_second \<subseteq> {''a'', ''c''}" by code_simp
qed

text \<open>
  C5. \<^verbatim>\<open>Solve\<close> returns, for every SAT backend, whatever it answers, and every input: the search
  ends, no choice is popped from an empty deque and no guess from an empty stack.
\<close>

theorem solve_returns: "\<exists>r. solve_variables G tr vs = Some r"
  by (rule solve_variables_returns)

text \<open>
  C6. \<^verbatim>\<open>New\<close> rejects an input exactly when two of its variables have the same identifier, and names
  the first one that occurs a second time.
\<close>

theorem solve_duplicate:
  "solver_New G [WithInput G vs, WithTracer tr] = Inl e \<longleftrightarrow>
     (\<exists>us v ws. vs = us @ v # ws \<and> e = DuplicateIdentifier (Identifier v) \<and>
        Identifier v \<in> Identifier ` set us \<and> distinct (map Identifier us))"
proof -
  have "solver_New G [WithInput G vs, WithTracer tr] = Inl e \<longleftrightarrow> newLitMapping G vs = Inl e"
    by (auto simp: solver_New_def WithInput_def WithTracer_def default_litMap_def default_tracer_def
        split: sum.splits)
  also have "\<dots> \<longleftrightarrow> assign_lits G vs \<lparr>inorder = vs, variables = [], lits = [], constraints = [],
      circ = NewCCap G (length vs), errs = []\<rparr> = Inl e"
    by (simp add: newLitMapping_def split: sum.split)
  finally show ?thesis by (simp add: assign_lits_error)
qed

text \<open>
  C7. An input whose constraints refer to an identifier that is not provided is answered with the
  errors of the literal mapping, whatever the search makes of it.
\<close>

theorem solve_dangling:
  assumes "distinct (map Identifier vs)" and "\<not> references vs \<subseteq> Identifier ` set vs"
  shows "\<exists>es. es \<noteq> [] \<and> solve_variables G tr vs = Some (Inl (InconsistentLitMapping es))"
proof -
  obtain d where d: "newLitMapping G vs = Inr d"
    using newLitMapping_cases [where G = G and vs = vs] assms(1) by (auto split: sum.splits)
  then have "errs d \<noteq> []"
    using newLitMapping_cases [where G = G and vs = vs] assms(2) by simp
  moreover obtain r' d' where "Solve_outcome G tr d (New_S G) = Some (r', d')" "errs_grow d d'"
    using Solve_outcome_returns [of G tr d "New_S G"] by blast
  ultimately show ?thesis using d
    by (auto simp: solve_variables_eq lm_Error_def errs_grow_def)
qed

theorem solve_dangling_witness:
  "\<exists>es. es \<noteq> [] \<and> solve_variables (ref_gini False) LoggingTracer
     [GenericVariable ''a'' [dependency [''b'']]] = Some (Inl (InconsistentLitMapping es))"
  by (rule solve_dangling) (simp_all add: references_def)

end
