(* ===== verification/Csv.thy ===== *)
theory Csv
  imports Cache_Entry
begin

text \<open>
  The API types of installed operators: the part of a \<^verbatim>\<open>ClusterServiceVersion\<close> and of an \<^verbatim>\<open>OperatorGroup\<close> the
  controllers work with, and the operations on them in \<^verbatim>\<open>clusterserviceversion.go\<close> and
  \<^verbatim>\<open>operatorgroup_types.go\<close>: phases and the bounded history of conditions, copies, install modes.

  Phases and reasons are strings, as in the code. Times are numbers, an unset time is \<open>None\<close>. An object has
  an address where the code compares pointers. The properties annotation is kept apart from the others, as
  the JSON text it holds.
\<close>

subsection \<open>Phases and reasons\<close>

abbreviation (input) CSVPhaseNone :: string where "CSVPhaseNone \<equiv> ''''"
abbreviation CSVPhasePending :: string where "CSVPhasePending \<equiv> ''Pending''"
abbreviation CSVPhaseInstallReady :: string where "CSVPhaseInstallReady \<equiv> ''InstallReady''"
abbreviation CSVPhaseInstalling :: string where "CSVPhaseInstalling \<equiv> ''Installing''"
abbreviation CSVPhaseSucceeded :: string where "CSVPhaseSucceeded \<equiv> ''Succeeded''"
abbreviation CSVPhaseFailed :: string where "CSVPhaseFailed \<equiv> ''Failed''"
abbreviation CSVPhaseUnknown :: string where "CSVPhaseUnknown \<equiv> ''Unknown''"
abbreviation CSVPhaseReplacing :: string where "CSVPhaseReplacing \<equiv> ''Replacing''"
abbreviation CSVPhaseDeleting :: string where "CSVPhaseDeleting \<equiv> ''Deleting''"

definition obsoleteReasons :: "string list" where
  "obsoleteReasons = [''Replaced'', ''BeingReplaced'']"

definition uncopiableReasons :: "string list" where
  "uncopiableReasons =
     [''Copied'', ''InvalidInstallModes'', ''NoTargetNamespaces'', ''UnsupportedOperatorGroup'', ''NoOperatorGroup'',
      ''TooManyOperatorGroups'', ''InterOperatorGroupOwnerConflict'', ''CannotModifyStaticOperatorGroupProvidedAPIs'']"

definition safeToAnnotateOperatorGroupReasons :: "string list" where
  "safeToAnnotateOperatorGroupReasons =
     [''OwnerConflict'', ''InstallSucceeded'', ''InvalidInstallModes'', ''NoTargetNamespaces'',
      ''UnsupportedOperatorGroup'', ''NoOperatorGroup'', ''TooManyOperatorGroups'',
      ''InterOperatorGroupOwnerConflict'', ''CannotModifyStaticOperatorGroupProvidedAPIs'']"

subsection \<open>Data\<close>

record CRDDescription =
  crd_Name :: string
  crd_Version :: string
  crd_Kind :: string

record APIServiceDescription =
  as_Name :: string
  as_Group :: string
  as_Version :: string
  as_Kind :: string
  as_DeploymentName :: string

record InstallMode =
  im_Type :: string
  im_Supported :: bool

record DependentStatus =
  ds_Group :: string
  ds_Version :: string
  ds_Kind :: string
  ds_Status :: string
  ds_UUID :: string
  ds_Message :: string

record RequirementStatus =
  req_Group :: string
  req_Version :: string
  req_Kind :: string
  req_Name :: string
  req_Status :: string
  req_Message :: string
  req_UUID :: string
  req_Dependents :: "DependentStatus list"

record csv_condition =
  cc_Phase :: string
  cc_Message :: string
  cc_Reason :: string
  cc_LastUpdateTime :: "nat option"
  cc_LastTransitionTime :: "nat option"

record csv_status =
  st_Phase :: string
  st_Message :: string
  st_Reason :: string
  st_LastUpdateTime :: "nat option"
  st_LastTransitionTime :: "nat option"
  st_Conditions :: "csv_condition list"
  st_RequirementStatus :: "RequirementStatus list"
  st_CertsLastUpdated :: "nat option"
  st_CertsRotateAt :: "nat option"

record RuleWithOperations =
  rwo_APIGroups :: "string list"
  rwo_Resources :: "string list"

record WebhookDescription =
  wh_GenerateName :: string
  wh_Rules :: "RuleWithOperations list"

record 'v ClusterServiceVersion =
  csv_addr :: nat
  csv_Name :: string
  csv_Namespace :: string
  csv_Annotations :: "(string \<times> string) list"
  csv_properties :: "rawJSON option"
  csv_Labels :: "(string \<times> string) list"
  csv_Version :: 'v
  csv_Replaces :: string
  csv_OwnedCRDs :: "CRDDescription list"
  csv_RequiredCRDs :: "CRDDescription list"
  csv_OwnedAPIServices :: "APIServiceDescription list"
  csv_RequiredAPIServices :: "APIServiceDescription list"
  csv_NativeAPIs :: "(string \<times> string \<times> string) list"
  csv_Webhooks :: "WebhookDescription list"
  csv_MinKubeVersion :: string
  csv_InstallModes :: "InstallMode list"
  csv_Status :: csv_status

record LabelSelector =
  ls_MatchLabels :: "(string \<times> string) list"
  ls_MatchExpressions :: "(string \<times> string \<times> string list) list"

record OperatorGroup =
  og_Name :: string
  og_Namespace :: string
  og_UID :: string
  og_Annotations :: "(string \<times> string) list"
  og_TargetNamespaces :: "string list"
  og_Selector :: "LabelSelector option"
  og_UpgradeStrategy :: string
  og_ServiceAccountName :: string
  og_StaticProvidedAPIs :: bool
  og_Namespaces :: "string list"
  og_ServiceAccountRef :: "string option"

text \<open>A subscription, its spec and the status fields the resolver reads\<close>

record Subscription =
  sub_addr :: nat
  sub_Name :: string
  sub_Namespace :: string
  sub_CatalogSource :: string
  sub_CatalogSourceNamespace :: string
  sub_Package :: string
  sub_Channel :: string
  sub_StartingCSV :: string
  sub_CurrentCSV :: string
  sub_InstalledCSV :: string

subsection \<open>The status of a ClusterServiceVersion\<close>

definition ConditionsLengthLimit :: nat where
  "ConditionsLengthLimit = 20"

definition TrimConditionsIfLimitExceeded :: "csv_status \<Rightarrow> csv_status" where
  "TrimConditionsIfLimitExceeded s =
     (if length (st_Conditions s) \<le> ConditionsLengthLimit then s
      else s\<lparr>st_Conditions := drop (length (st_Conditions s) - ConditionsLengthLimit) (st_Conditions s)\<rparr>)"

definition newCondition :: "csv_status \<Rightarrow> string \<Rightarrow> string \<Rightarrow> csv_condition" where
  "newCondition s reason message =
     \<lparr>cc_Phase = st_Phase s, cc_Message = message, cc_Reason = reason,
      cc_LastUpdateTime = st_LastUpdateTime s, cc_LastTransitionTime = st_LastTransitionTime s\<rparr>"

definition SetPhase :: "string \<Rightarrow> string \<Rightarrow> string \<Rightarrow> nat option \<Rightarrow> csv_status \<Rightarrow> csv_status" where
  "SetPhase phase reason message now s =
     TrimConditionsIfLimitExceeded
      (let s = s\<lparr>st_LastUpdateTime := now\<rparr>;
           s = (if st_Phase s \<noteq> phase then s\<lparr>st_Phase := phase, st_LastTransitionTime := now\<rparr> else s);
           s = s\<lparr>st_Message := message, st_Reason := reason\<rparr>
       in if st_Conditions s = [] then s\<lparr>st_Conditions := [newCondition s reason message]\<rparr>
          else let previousCondition = last (st_Conditions s)
               in if cc_Phase previousCondition \<noteq> st_Phase s \<or> cc_Reason previousCondition \<noteq> st_Reason s
                  then s\<lparr>st_Conditions := st_Conditions s @ [newCondition s reason message]\<rparr> else s)"

text \<open>Setting a phase also emits an event: its type, reason and message.\<close>

type_synonym event = "string \<times> string \<times> string"

definition SetPhaseWithEvent ::
    "string \<Rightarrow> string \<Rightarrow> string \<Rightarrow> nat option \<Rightarrow> csv_status \<Rightarrow> event list \<times> csv_status" where
  "SetPhaseWithEvent phase reason message now s =
     ([(if phase = CSVPhaseFailed then ''Warning'' else ''Normal'', reason, message)],
      SetPhase phase reason message now s)"

definition SetPhaseWithEventIfChanged ::
    "string \<Rightarrow> string \<Rightarrow> string \<Rightarrow> nat option \<Rightarrow> csv_status \<Rightarrow> event list \<times> csv_status" where
  "SetPhaseWithEventIfChanged phase reason message now s =
     (if st_Phase s = phase \<and> st_Reason s = reason \<and> st_Message s = message then ([], s)
      else SetPhaseWithEvent phase reason message now s)"

definition SetRequirementStatus :: "RequirementStatus list \<Rightarrow> csv_status \<Rightarrow> csv_status" where
  "SetRequirementStatus statuses s = s\<lparr>st_RequirementStatus := statuses\<rparr>"

subsection \<open>Tests on a ClusterServiceVersion\<close>

definition IsObsolete :: "'v ClusterServiceVersion \<Rightarrow> bool" where
  "IsObsolete c = list_ex (\<lambda>condition. cc_Reason condition \<in> set obsoleteReasons) (st_Conditions (csv_Status c))"

text \<open>On the metadata of any object: its namespace, annotations and labels\<close>

definition meta_IsCopied :: "string \<Rightarrow> (string \<times> string) list \<Rightarrow> (string \<times> string) list \<Rightarrow> bool" where
  "meta_IsCopied namespace annotations labels =
     ((case map_of annotations ''olm.operatorNamespace'' of
         Some operatorNamespace \<Rightarrow> namespace \<noteq> operatorNamespace
       | None \<Rightarrow> False) \<or>
      map_of labels ''olm.copiedFrom'' \<noteq> None)"

definition IsCopied :: "'v ClusterServiceVersion \<Rightarrow> bool" where
  "IsCopied c = (st_Reason (csv_Status c) = ''Copied'' \<or> meta_IsCopied (csv_Namespace c) (csv_Annotations c) (csv_Labels c))"

definition IsUncopiable :: "'v ClusterServiceVersion \<Rightarrow> bool" where
  "IsUncopiable c = (st_Phase (csv_Status c) = CSVPhaseNone \<or> st_Reason (csv_Status c) \<in> set uncopiableReasons)"

definition IsSafeToUpdateOperatorGroupAnnotations :: "'v ClusterServiceVersion \<Rightarrow> bool" where
  "IsSafeToUpdateOperatorGroupAnnotations c = (st_Reason (csv_Status c) \<in> set safeToAnnotateOperatorGroupReasons)"

subsection \<open>Install modes\<close>

abbreviation InstallModeTypeOwnNamespace :: string where "InstallModeTypeOwnNamespace \<equiv> ''OwnNamespace''"
abbreviation InstallModeTypeSingleNamespace :: string where "InstallModeTypeSingleNamespace \<equiv> ''SingleNamespace''"
abbreviation InstallModeTypeMultiNamespace :: string where "InstallModeTypeMultiNamespace \<equiv> ''MultiNamespace''"
abbreviation InstallModeTypeAllNamespaces :: string where "InstallModeTypeAllNamespaces \<equiv> ''AllNamespaces''"

type_synonym InstallModeSet = "(string \<times> bool) list"

fun add_modes :: "InstallMode list \<Rightarrow> InstallModeSet \<Rightarrow> InstallModeSet option" where
  "add_modes [] set' = Some set'"
| "add_modes (mode # modes) set' =
     (if map_of set' (im_Type mode) \<noteq> None then None
      else add_modes modes (AList.update (im_Type mode) (im_Supported mode) set'))"

definition NewInstallModeSet :: "InstallMode list \<Rightarrow> string + InstallModeSet" where
  "NewInstallModeSet modes =
     (case add_modes modes [] of
        None \<Rightarrow> Inl ''InstallMode list contains duplicates, cannot make set''
      | Some set' \<Rightarrow> Inr set')"

text \<open>A type that is not in the set reads as not supported.\<close>

definition mode_on :: "InstallModeSet \<Rightarrow> string \<Rightarrow> bool" where
  "mode_on set' t = (map_of set' t = Some True)"

text \<open>Why a set of install modes does not support a choice of namespaces\<close>

datatype mode_error =
    ZeroNamespaces
  | NoOwnNamespace
  | NoAllNamespaces
  | NoSingleNamespace
  | NoMultiNamespace nat
  | AllNamespacesAmongOthers

fun check_namespaces :: "InstallModeSet \<Rightarrow> string \<Rightarrow> string list \<Rightarrow> mode_error option" where
  "check_namespaces set' operatorNamespace [] = None"
| "check_namespaces set' operatorNamespace (namespace # namespaces) =
     (if namespace = operatorNamespace \<and> \<not> mode_on set' InstallModeTypeOwnNamespace then Some NoOwnNamespace
      else if namespace = '''' then Some AllNamespacesAmongOthers
      else check_namespaces set' operatorNamespace namespaces)"

definition Supports :: "InstallModeSet \<Rightarrow> string \<Rightarrow> string list \<Rightarrow> mode_error option" where
  "Supports set' operatorNamespace namespaces =
     (let numNamespaces = length namespaces in
      if numNamespaces = 0 then Some ZeroNamespaces
      else if numNamespaces = 1
      then (if namespaces ! 0 = operatorNamespace
            then (if \<not> mode_on set' InstallModeTypeOwnNamespace then Some NoOwnNamespace else None)
            else if namespaces ! 0 = ''''
            then (if \<not> mode_on set' InstallModeTypeAllNamespaces then Some NoAllNamespaces else None)
            else (if \<not> mode_on set' InstallModeTypeSingleNamespace then Some NoSingleNamespace else None))
      else if \<not> mode_on set' InstallModeTypeMultiNamespace then Some (NoMultiNamespace numNamespaces)
      else check_namespaces set' operatorNamespace namespaces)"

subsection \<open>Operator groups\<close>

definition BuildTargetNamespaces :: "OperatorGroup \<Rightarrow> string" where
  "BuildTargetNamespaces o' = strings_Join (go_sort (<) (og_Namespaces o')) '',''"

definition UpgradeStrategyUnsafeFailForward :: string where
  "UpgradeStrategyUnsafeFailForward = ''TechPreviewUnsafeFailForward''"

definition UpgradeStrategy :: "OperatorGroup \<Rightarrow> string" where
  "UpgradeStrategy o' =
     (if og_UpgradeStrategy o' = UpgradeStrategyUnsafeFailForward then og_UpgradeStrategy o' else ''Default'')"

definition IsServiceAccountSpecified :: "OperatorGroup \<Rightarrow> bool" where
  "IsServiceAccountSpecified o' = (if og_ServiceAccountName o' = '''' then False else True)"

definition HasServiceAccountSynced :: "OperatorGroup \<Rightarrow> bool" where
  "HasServiceAccountSynced o' =
     (if IsServiceAccountSpecified o' \<and> og_ServiceAccountRef o' \<noteq> None then True else False)"

definition OperatorGroupLabelPrefix :: string where
  "OperatorGroupLabelPrefix = ''olm.operatorgroup.uid/''"

definition OGLabelKeyAndValue :: "OperatorGroup \<Rightarrow> string + string \<times> string" where
  "OGLabelKeyAndValue o' =
     (if og_UID o' = '''' then Inl ''Missing UID'' else Inr (OperatorGroupLabelPrefix @ og_UID o', ''''))"

definition NamespaceLabelSelector :: "OperatorGroup \<Rightarrow> string + LabelSelector option" where
  "NamespaceLabelSelector o' =
     (if og_TargetNamespaces o' = []
      then (if og_Selector o' \<noteq> None then Inr (og_Selector o') else Inr None)
      else map_sum id (\<lambda>kv. Some \<lparr>ls_MatchLabels = [kv], ls_MatchExpressions = []\<rparr>) (OGLabelKeyAndValue o'))"

definition IsOperatorGroupLabel :: "string \<Rightarrow> bool" where
  "IsOperatorGroupLabel label = (take (length OperatorGroupLabelPrefix) label = OperatorGroupLabelPrefix)"

subsection \<open>Lemmas\<close>

text \<open>
  What the history promises: it is short, its last condition is of the status' phase and reason, and no two
  neighbours agree in both.
\<close>

definition status_ok :: "csv_status \<Rightarrow> bool" where
  "status_ok s \<longleftrightarrow> length (st_Conditions s) \<le> ConditionsLengthLimit \<and>
     (st_Conditions s \<noteq> [] \<longrightarrow> cc_Phase (last (st_Conditions s)) = st_Phase s \<and> cc_Reason (last (st_Conditions s)) = st_Reason s) \<and>
     successively (\<lambda>c d. cc_Phase c \<noteq> cc_Phase d \<or> cc_Reason c \<noteq> cc_Reason d) (st_Conditions s)"

lemma successively_drop: "successively P xs \<Longrightarrow> successively P (drop n xs)"
  by (metis append_take_drop_id successively_append_iff)

lemma Trim_simps [simp]:
  "length (st_Conditions (TrimConditionsIfLimitExceeded s)) \<le> ConditionsLengthLimit"
  "st_Phase (TrimConditionsIfLimitExceeded s) = st_Phase s" "st_Reason (TrimConditionsIfLimitExceeded s) = st_Reason s"
  "st_Message (TrimConditionsIfLimitExceeded s) = st_Message s"
  "st_Conditions (TrimConditionsIfLimitExceeded s) = [] \<longleftrightarrow> st_Conditions s = []"
  by (auto simp: TrimConditionsIfLimitExceeded_def ConditionsLengthLimit_def)

lemma Trim_suffix: "\<exists>n < max 1 (length (st_Conditions s)). st_Conditions (TrimConditionsIfLimitExceeded s) = drop n (st_Conditions s)"
proof (cases "length (st_Conditions s) \<le> ConditionsLengthLimit")
  case True
  then show ?thesis by (auto simp: TrimConditionsIfLimitExceeded_def intro!: exI [of _ 0])
next
  case False
  then show ?thesis
    by (auto simp: TrimConditionsIfLimitExceeded_def ConditionsLengthLimit_def
        intro!: exI [of _ "length (st_Conditions s) - 20"])
qed

lemma SetPhase_fields [simp]:
  "st_Phase (SetPhase phase reason message now s) = phase" "st_Reason (SetPhase phase reason message now s) = reason"
  "st_Message (SetPhase phase reason message now s) = message"
  by (auto simp: SetPhase_def Let_def)

lemma SetPhase_ok:
  assumes ok: "status_ok s"
  shows "status_ok (SetPhase phase reason message now s)" "st_Conditions (SetPhase phase reason message now s) \<noteq> []"
proof -
  let ?R = "\<lambda>c d. cc_Phase c \<noteq> cc_Phase d \<or> cc_Reason c \<noteq> cc_Reason d"
  define s' where "s' = (let s = s\<lparr>st_LastUpdateTime := now\<rparr>;
           s = (if st_Phase s \<noteq> phase then s\<lparr>st_Phase := phase, st_LastTransitionTime := now\<rparr> else s);
           s = s\<lparr>st_Message := message, st_Reason := reason\<rparr>
       in if st_Conditions s = [] then s\<lparr>st_Conditions := [newCondition s reason message]\<rparr>
          else let previousCondition = last (st_Conditions s)
               in if cc_Phase previousCondition \<noteq> st_Phase s \<or> cc_Reason previousCondition \<noteq> st_Reason s
                  then s\<lparr>st_Conditions := st_Conditions s @ [newCondition s reason message]\<rparr> else s)"
  have eq: "SetPhase phase reason message now s = TrimConditionsIfLimitExceeded s'" by (simp add: SetPhase_def s'_def)
  have cs: "st_Conditions s' \<noteq> [] \<and> cc_Phase (last (st_Conditions s')) = phase \<and> cc_Reason (last (st_Conditions s')) = reason \<and>
      successively ?R (st_Conditions s')"
    using ok by (auto simp: s'_def Let_def newCondition_def status_ok_def successively_append_iff)
  then show "st_Conditions (SetPhase phase reason message now s) \<noteq> []" by (simp add: eq)
  obtain n where n: "n < max 1 (length (st_Conditions s'))"
      "st_Conditions (TrimConditionsIfLimitExceeded s') = drop n (st_Conditions s')" using Trim_suffix by blast
  have "last (drop n (st_Conditions s')) = last (st_Conditions s')" using cs n(1) by (intro last_drop) (cases "st_Conditions s'"; auto)
  moreover have "st_Phase s' = phase" "st_Reason s' = reason" by (auto simp: s'_def Let_def)
  ultimately show "status_ok (SetPhase phase reason message now s)"
    unfolding status_ok_def eq using cs successively_drop [of ?R "st_Conditions s'" n] Trim_simps(1) [of s']
    by (simp only: n(2) Trim_simps simp_thms)
qed

lemma add_modes_Some:
  "add_modes modes set' = Some r \<longleftrightarrow>
     distinct (map im_Type modes) \<and> im_Type ` set modes \<inter> dom (map_of set') = {} \<and>
     r = foldl (\<lambda>s m. AList.update (im_Type m) (im_Supported m) s) set' modes"
  by (induction modes arbitrary: set') (auto simp: alist_simps)

lemma check_namespaces_None:
  "check_namespaces set' ns namespaces = None \<longleftrightarrow>
     (ns \<in> set namespaces \<longrightarrow> mode_on set' InstallModeTypeOwnNamespace) \<and> '''' \<notin> set namespaces"
  by (induction namespaces) auto

end
