(* ===== verification/Resolver.thy ===== *)
theory Resolver
  imports Bundle_Variables Solver_Properties Csv
begin

text \<open>
  The resolver (\<^verbatim>\<open>resolver.go\<close>): the solver variables of a subscription, the invariants that at most
  one operator provides an API or comes from a package, and \<^verbatim>\<open>Resolve\<close>, which builds the solver's input
  from the existing operators and the subscriptions and reads the operators to install off its answer.

  The order in which Go iterates over a map is not specified; it is a parameter, which gives an order of
  the entries for each kind of map.
\<close>

subsection \<open>Subscriptions and variables\<close>

text \<open>A solver variable is a pointer to a bundle variable or a generic variable.\<close>

datatype rvar = BundleRef nat | Generic solver_variable

fun rvar_variable :: "BundleVar list \<Rightarrow> rvar \<Rightarrow> solver_variable" where
  "rvar_variable heap (BundleRef a) = bv_variable (heap ! a)"
| "rvar_variable heap (Generic v) = v"

type_synonym rvars = "(ident \<times> rvar) list"

record iteration =
  it_bundles :: "(ident \<times> nat) list \<Rightarrow> (ident \<times> nat) list"
  it_variables :: "rvars \<Rightarrow> rvars"
  it_gvks :: "(GVKProperty \<times> ident list) list \<Rightarrow> (GVKProperty \<times> ident list) list"
  it_packages :: "(string \<times> ident list) list \<Rightarrow> (string \<times> ident list) list"

text \<open>Iteration visits every entry of a map once.\<close>

definition iterates :: "iteration \<Rightarrow> bool" where
  "iterates it \<longleftrightarrow> (\<forall>m. mset (it_bundles it m) = mset m) \<and> (\<forall>m. mset (it_variables it m) = mset m) \<and>
     (\<forall>m. mset (it_gvks it m) = mset m) \<and> (\<forall>m. mset (it_packages it m) = mset m)"

subsection \<open>getSubscriptionVariables\<close>

definition subscription_catalog :: "Subscription \<Rightarrow> SourceKey" where
  "subscription_catalog sub = \<lparr>sk_Name = sub_CatalogSource sub, sk_Namespace = sub_CatalogSourceNamespace sub\<rparr>"

definition csvPredicate :: "Subscription \<Rightarrow> 'v Entry option \<Rightarrow> ('v, 'p) Predicate" where
  "csvPredicate sub current =
     (if current = None \<and> sub_StartingCSV sub \<noteq> '''' then csvNamePredicate (sub_StartingCSV sub)
      else booleanPredicate True)"

text \<open>The counters 0 to 3 are \<^verbatim>\<open>nall\<close>, \<^verbatim>\<open>npkg\<close>, \<^verbatim>\<open>nch\<close> and \<^verbatim>\<open>ncsv\<close>.\<close>

definition cachePredicates :: "Subscription \<Rightarrow> 'v Entry option \<Rightarrow> ('v, 'p) Predicate list" where
  "cachePredicates sub current =
     [andPredicate
        [countingPredicate (booleanPredicate True) 0,
         countingPredicate (pkgPredicate (sub_Package sub)) 1,
         countingPredicate (channelPredicate (sub_Channel sub)) 2,
         countingPredicate (csvPredicate sub current) 3]]"

text \<open>The predicate on replacements of the installed operator; \<open>None\<close> is a nil version, a panic.\<close>

definition channelPredicates :: "'v Entry option \<Rightarrow> ('v, 'p) Predicate list option" where
  "channelPredicates current =
     (case current of
        None \<Rightarrow> Some []
      | Some c \<Rightarrow> map_option (\<lambda>v. [orPredicate [skipRangeIncludesPredication v, replacesPredicate (e_Name c)]])
          (e_Version c))"

text \<open>The variable of a subscription that matches nothing\<close>

definition invalid_subscription :: "Subscription \<Rightarrow> counters \<Rightarrow> solver_variable option" where
  "invalid_subscription sub n =
     (let name = sub_Name sub in
      if n 0 = 0
      then Some (NewInvalidSubscriptionVariable name
        (''no operators found from catalog '' @ sub_CatalogSource sub @ '' in namespace '' @
         sub_CatalogSourceNamespace sub @ '' referenced by subscription '' @ name))
      else if n 1 = 0
      then Some (NewInvalidSubscriptionVariable name
        (''no operators found in package '' @ sub_Package sub @
         '' in the catalog referenced by subscription '' @ name))
      else if n 2 = 0
      then Some (NewInvalidSubscriptionVariable name
        (''no operators found in channel '' @ sub_Channel sub @ '' of package '' @ sub_Package sub @
         '' in the catalog referenced by subscription '' @ name))
      else if n 3 = 0
      then Some (NewInvalidSubscriptionVariable name
        (''no operators found with name '' @ sub_StartingCSV sub @ '' in channel '' @ sub_Channel sub @
         '' of package '' @ sub_Package sub @ '' in the catalog referenced by subscription '' @ name))
      else None)"

text \<open>The default channel first, then by channel name\<close>

definition entry_Less :: "'v Entry \<Rightarrow> 'v Entry \<Rightarrow> bool" where
  "entry_Less i j =
     (let idef = (case e_SourceInfo i of Some si \<Rightarrow> si_DefaultChannel si | None \<Rightarrow> False);
          ichan = (case e_SourceInfo i of Some si \<Rightarrow> si_Channel si | None \<Rightarrow> '''');
          jdef = (case e_SourceInfo j of Some si \<Rightarrow> si_DefaultChannel si | None \<Rightarrow> False);
          jchan = (case e_SourceInfo j of Some si \<Rightarrow> si_Channel si | None \<Rightarrow> '''')
      in if idef = jdef then ichan < jchan else idef)"

text \<open>The loop that sorts each run of entries of the same channel\<close>

fun sort_runs :: "'v Entry list \<Rightarrow> string \<Rightarrow> 'v Entry list \<Rightarrow> resolver_error + 'v Entry list" where
  "sort_runs [] lastChannel run = sortChannel run"
| "sort_runs (e # entries) lastChannel run =
     (if Entry_Channel e = lastChannel then sort_runs entries lastChannel (run @ [e])
      else case sortChannel run of
             Inl err \<Rightarrow> Inl err
           | Inr channel \<Rightarrow> map_sum id (\<lambda>rest. channel @ rest) (sort_runs entries (Entry_Channel e) [e]))"

text \<open>The loop over the bundles that may be installed; the result has the pointers of the candidates.\<close>

definition store_bundles :: "BundleVar list \<Rightarrow> (ident \<times> nat) list \<Rightarrow> rvars \<Rightarrow> rvars" where
  "store_bundles heap vs vars =
     foldl (\<lambda>m (i, a). AList.update (bv_identifier (heap ! a)) (BundleRef a) m) vars vs"

fun collect_candidates ::
    "('v, 'p) Resolver \<Rightarrow> 'v finder \<Rightarrow> iteration \<Rightarrow> Subscription \<Rightarrow> 'v Entry option \<Rightarrow> 'v Entry list \<Rightarrow>
     world \<Rightarrow> nat list \<Rightarrow> rvars \<Rightarrow> (resolver_error + nat list \<times> rvars) \<times> world" where
  "collect_candidates r F it sub current [] w candidates vars = (Inr (candidates, vars), w)"
| "collect_candidates r F it sub current (o' # os) w candidates vars =
     (case f_Catalog (r_libs r) F (subscription_catalog sub) (cachePredicates sub current @ [csvNamePredicate (e_Name o')]) of
        None \<Rightarrow> (Inl Panic, w)
      | Some stack \<Rightarrow>
          (case getBundleVariables r F (sub_Namespace sub) stack w of
             (Inl err, w) \<Rightarrow> (Inl err, w)
           | (Inr (ids, variable), w) \<Rightarrow>
               (if length ids < 1 then (Inl (NoPotentialBundles (sub_Package sub)), w)
                else
                  let vs = it_bundles it variable in
                  collect_candidates r F it sub current os w
                    (candidates @ map snd (filter (\<lambda>(i, a). bv_identifier (w_heap w ! a) \<in> set ids) vs))
                    (store_bundles (w_heap w) vs vars))))"

definition current_ident :: "Subscription \<Rightarrow> 'v Entry \<Rightarrow> ident" where
  "current_ident sub c = bundleID (e_Name c) (Entry_Channel c) (NewVirtualSourceKey (sub_Namespace sub))"

text \<open>Recording in each candidate which operator it replaces\<close>

definition mark_replaces :: "Subscription \<Rightarrow> 'v Entry option \<Rightarrow> nat list \<Rightarrow> BundleVar list \<Rightarrow> BundleVar list" where
  "mark_replaces sub current candidates heap =
     (case current of
        None \<Rightarrow> heap
      | Some c \<Rightarrow>
          foldl (\<lambda>h a. h[a := AddConflict ((h ! a)\<lparr>bv_Replaces := e_Name c\<rparr>) (current_ident sub c)]) heap candidates)"

definition getSubscriptionVariables ::
    "('v, 'p) Resolver \<Rightarrow> 'v finder \<Rightarrow> iteration \<Rightarrow> Subscription \<Rightarrow> 'v Entry option \<Rightarrow> world \<Rightarrow>
     (resolver_error + rvars) \<times> world" where
  "getSubscriptionVariables r F it sub current w =
     (let L = r_libs r in
      case channelPredicates current of
        None \<Rightarrow> (Inl Panic, w)
      | Some cps \<Rightarrow>
      case Catalog_Find L (f_headers F) (f_map F) (subscription_catalog sub) (cachePredicates sub current) (\<lambda>_. 0) of
        None \<Rightarrow> (Inl Panic, w)
      | Some (entries, n) \<Rightarrow>
      case invalid_subscription sub n of
        Some si \<Rightarrow> (Inr [(Identifier si, Generic si)], w)
      | None \<Rightarrow>
      case sort_runs (go_sort entry_Less entries) '''' [] of
        Inl err \<Rightarrow> (Inl err, w)
      | Inr sortedBundles \<Rightarrow>
      case f_Filter L sortedBundles cps of
        None \<Rightarrow> (Inl Panic, w)
      | Some os \<Rightarrow>
      case collect_candidates r F it sub current os w [] [] of
        (Inl err, w) \<Rightarrow> (Inl err, w)
      | (Inr (candidates, vars), w) \<Rightarrow>
          (let heap = mark_replaces sub current candidates (w_heap w);
               depIds = map (\<lambda>a. bv_identifier (heap ! a)) candidates @
                        (case current of None \<Rightarrow> [] | Some c \<Rightarrow> [current_ident sub c]);
               subVariable = NewSubscriptionVariable (sub_Name sub) depIds
           in (Inr (AList.update (Identifier subVariable) (Generic subVariable) vars),
               w\<lparr>w_heap := heap\<rparr>)))"

subsection \<open>addInvariants\<close>

text \<open>The entry a bundle variable stands for, by its identifier; \<open>Inl Panic\<close> when finding panics\<close>

definition entry_of ::
    "('v, 'p) libs \<Rightarrow> 'v finder \<Rightarrow> string \<Rightarrow> string \<Rightarrow> SourceKey \<Rightarrow> resolver_error + 'v Entry" where
  "entry_of L F csvName channel catalog =
     (case f_Catalog L F catalog [csvNamePredicate csvName, channelPredicate channel] of
        None \<Rightarrow> Inl Panic
      | Some es \<Rightarrow> (case ExactlyOne es of None \<Rightarrow> Inl (NotExactlyOne (length es)) | Some op \<Rightarrow> Inr op))"

definition add_provider :: "'k \<Rightarrow> ident \<Rightarrow> ('k \<times> ident list) list \<Rightarrow> ('k \<times> ident list) list" where
  "add_provider k i m = AList.update k ((case map_of m k of Some is \<Rightarrow> is | None \<Rightarrow> []) @ [i]) m"

definition provided_GVKs :: "'v Entry \<Rightarrow> GVKProperty list" where
  "provided_GVKs op =
     List.map_filter (\<lambda>p. if p_Type p = GVKType then unmarshal_GVK (p_Value p) else None) (e_Properties op)"

definition provided_packages :: "'v Entry \<Rightarrow> string list" where
  "provided_packages op =
     List.map_filter (\<lambda>p. if p_Type p = PackageType then map_option pp_PackageName (unmarshal_Package (p_Value p))
                         else None) (e_Properties op)"

text \<open>The entry of a bundle variable; \<open>Inr None\<close> when its identifier is no bundle's or is not found exactly once\<close>

definition variable_entry :: "('v, 'p) libs \<Rightarrow> 'v finder \<Rightarrow> ident \<Rightarrow> resolver_error + 'v Entry option" where
  "variable_entry L F i =
     (case BundleSourceInfo i of
        Inl err \<Rightarrow> Inr None
      | Inr (csvName, channel, catalog) \<Rightarrow>
          (case entry_of L F csvName channel catalog of
             Inl err \<Rightarrow> if err = Panic then Inl Panic else Inr None
           | Inr op \<Rightarrow> Inr (Some op)))"

text \<open>The loop that fills \<^verbatim>\<open>gvkConflictToVariable\<close> and \<^verbatim>\<open>packageConflictToVariable\<close>; \<open>None\<close> is a panic.\<close>

fun conflict_maps ::
    "('v, 'p) libs \<Rightarrow> 'v finder \<Rightarrow> BundleVar list \<Rightarrow> rvars \<Rightarrow>
     (GVKProperty \<times> ident list) list \<Rightarrow> (string \<times> ident list) list \<Rightarrow>
     ((GVKProperty \<times> ident list) list \<times> (string \<times> ident list) list) option" where
  "conflict_maps L F heap [] gvks pkgs = Some (gvks, pkgs)"
| "conflict_maps L F heap ((i, Generic v) # vars) gvks pkgs = conflict_maps L F heap vars gvks pkgs"
| "conflict_maps L F heap ((i, BundleRef a) # vars) gvks pkgs =
     (case variable_entry L F (bv_identifier (heap ! a)) of
        Inl err \<Rightarrow> None
      | Inr None \<Rightarrow> conflict_maps L F heap vars gvks pkgs
      | Inr (Some op) \<Rightarrow>
          conflict_maps L F heap vars
            (foldl (\<lambda>m k. add_provider k (bv_identifier (heap ! a)) m) gvks (provided_GVKs op))
            (foldl (\<lambda>m k. add_provider k (bv_identifier (heap ! a)) m) pkgs (provided_packages op)))"

definition sort_idents :: "ident list \<Rightarrow> ident list" where
  "sort_idents is = go_sort (<) is"

definition store_generic :: "rvars \<Rightarrow> solver_variable \<Rightarrow> rvars" where
  "store_generic vars s = AList.update (Identifier s) (Generic s) vars"

definition addInvariants ::
    "('v, 'p) libs \<Rightarrow> 'v finder \<Rightarrow> iteration \<Rightarrow> BundleVar list \<Rightarrow> rvars \<Rightarrow> rvars option" where
  "addInvariants L F it heap vars =
     map_option (\<lambda>(gvks, pkgs).
        foldl store_generic
          (foldl store_generic vars
             (map (\<lambda>(gvk, is). NewSingleAPIProviderVariable (gvk_Group gvk) (gvk_Version gvk) (gvk_Kind gvk) (sort_idents is))
                (it_gvks it gvks)))
          (map (\<lambda>(pkg, is). NewSinglePackageInstanceVariable pkg (sort_idents is)) (it_packages it pkgs)))
       (conflict_maps L F heap (it_variables it vars) [] [])"

subsection \<open>Resolve\<close>

record resolve_state =
  rs_variables :: rvars
  rs_world :: world
  rs_startingCSVs :: "string list"
  rs_errs :: "resolver_error list"

text \<open>The loop over the subscriptions\<close>

definition current_entry ::
    "('v, 'p) libs \<Rightarrow> 'v finder \<Rightarrow> Subscription \<Rightarrow> resolver_error + 'v Entry option" where
  "current_entry L F sub =
     (case f_Catalog L F (NewVirtualSourceKey (sub_Namespace sub)) [csvNamePredicate (sub_InstalledCSV sub)] of
        None \<Rightarrow> Inl Panic
      | Some matches \<Rightarrow>
          (if length matches > 1
           then Inl (MultipleNameMatches (sub_Namespace sub) (sub_Name sub) (map e_Name matches))
           else if length matches = 1 then Inr (Some (matches ! 0)) else Inr None))"

definition store_variables :: "BundleVar list \<Rightarrow> rvars \<Rightarrow> rvars \<Rightarrow> rvars" where
  "store_variables heap vs vars =
     foldl (\<lambda>m (i, v). AList.update (Identifier (rvar_variable heap v)) v m) vars vs"

fun resolve_subs ::
    "('v, 'p) Resolver \<Rightarrow> 'v finder \<Rightarrow> iteration \<Rightarrow> Subscription list \<Rightarrow> resolve_state \<Rightarrow>
     resolver_error + resolve_state" where
  "resolve_subs r F it [] st = Inr st"
| "resolve_subs r F it (sub # subs) st =
     (case current_entry (r_libs r) F sub of
        Inl err \<Rightarrow> Inl err
      | Inr current \<Rightarrow>
          (let st = (if current = None \<and> sub_StartingCSV sub \<noteq> ''''
                     then st\<lparr>rs_startingCSVs := sub_StartingCSV sub # rs_startingCSVs st\<rparr> else st)
           in case getSubscriptionVariables r F it sub current (rs_world st) of
                (Inl err, w) \<Rightarrow>
                  (if err = Panic then Inl Panic
                   else resolve_subs r F it subs (st\<lparr>rs_world := w, rs_errs := rs_errs st @ [err]\<rparr>))
              | (Inr subVariables, w) \<Rightarrow>
                  resolve_subs r F it subs
                    (st\<lparr>rs_world := w,
                        rs_variables := store_variables (w_heap w) (it_variables it subVariables) (rs_variables st)\<rparr>)))"

text \<open>The input of the solver, with the starting CSVs\<close>

definition resolver_input ::
    "('v, 'p) Resolver \<Rightarrow> 'v finder \<Rightarrow> iteration \<Rightarrow> string list \<Rightarrow> Subscription list \<Rightarrow>
     resolver_error + solver_variable list \<times> string list" where
  "resolver_input r F it namespaces subs =
     (if length namespaces < 1 then Inl NoNamespace
      else
      let preferredNamespace = namespaces ! 0 in
      case f_Catalog (r_libs r) F (NewVirtualSourceKey preferredNamespace) [booleanPredicate True] of
        None \<Rightarrow> Inl Panic
      | Some existing \<Rightarrow>
      case getBundleVariables r F preferredNamespace existing \<lparr>w_heap = [], w_visited = []\<rparr> of
        (Inl err, w) \<Rightarrow> Inl err
      | (Inr (ids, existingVariables), w) \<Rightarrow>
      case resolve_subs r F it subs
             \<lparr>rs_variables = store_bundles (w_heap w) (it_bundles it existingVariables) [], rs_world = w,
              rs_startingCSVs = [], rs_errs = []\<rparr> of
        Inl err \<Rightarrow> Inl err
      | Inr st \<Rightarrow>
      case addInvariants (r_libs r) F it (w_heap (rs_world st)) (rs_variables st) of
        None \<Rightarrow> Inl Panic
      | Some vars \<Rightarrow>
          (if finder_Error (f_headers F) (f_map F) \<noteq> []
           then Inl (CacheErrors (finder_Error (f_headers F) (f_map F)))
           else if length (rs_errs st) > 0 then Inl (Aggregate (rs_errs st))
           else Inr (map (\<lambda>(i, v). rvar_variable (w_heap (rs_world st)) v) (it_variables it vars),
                     rs_startingCSVs st)))"

text \<open>The bundle variables of the answer that are not of existing operators\<close>

fun operatorVariables :: "solver_variable list \<Rightarrow> resolver_error + (ident \<times> string) list" where
  "operatorVariables [] = Inr []"
| "operatorVariables (BundleVariable i cs replaces # vs) =
     (case BundleSourceInfo i of
        Inl err \<Rightarrow> Inl err
      | Inr (csvName, channel, catalog) \<Rightarrow>
          (if Virtual catalog then operatorVariables vs
           else map_sum id (\<lambda>ops. (i, replaces) # ops) (operatorVariables vs)))"
| "operatorVariables (v # vs) = operatorVariables vs"

text \<open>The copy of an entry that is returned, a new object; only the fields the code copies are kept.\<close>

definition resolved_entry :: "string list \<Rightarrow> string \<Rightarrow> string \<Rightarrow> 'v Entry \<Rightarrow> OperatorSourceInfo \<Rightarrow> 'v Entry" where
  "resolved_entry startingCSVs csvName replaces op si =
     op\<lparr>e_Replaces := (if length replaces > 0 then replaces else e_Replaces op),
        e_SourceInfo := Some (si\<lparr>si_Deprecations := None,
          si_StartingCSV := (if csvName \<in> set startingCSVs then csvName else si_StartingCSV si)\<rparr>)\<rparr>"

fun resolved_operators ::
    "('v, 'p) libs \<Rightarrow> 'v finder \<Rightarrow> string list \<Rightarrow> (ident \<times> string) list \<Rightarrow>
     resolver_error + 'v Entry list \<times> resolver_error list" where
  "resolved_operators L F startingCSVs [] = Inr ([], [])"
| "resolved_operators L F startingCSVs ((i, replaces) # ops) =
     (case (case BundleSourceInfo i of
              Inl err \<Rightarrow> Inl err
            | Inr (csvName, channel, catalog) \<Rightarrow>
                (case entry_of L F csvName channel catalog of
                   Inl err \<Rightarrow> Inl err
                 | Inr op \<Rightarrow>
                     (case e_SourceInfo op of
                        None \<Rightarrow> Inl Panic
                      | Some si \<Rightarrow> Inr (resolved_entry startingCSVs csvName replaces op si)))) of
        Inl err \<Rightarrow>
          (if err = Panic then Inl Panic
           else map_sum id (\<lambda>(es, errors). (es, err # errors)) (resolved_operators L F startingCSVs ops))
      | Inr e \<Rightarrow> map_sum id (\<lambda>(es, errors). (e # es, errors)) (resolved_operators L F startingCSVs ops))"

definition Resolve ::
    "('v, 'p) Resolver \<Rightarrow> ('c, 'k, 's) gini \<Rightarrow> 'v finder \<Rightarrow> iteration \<Rightarrow> string list \<Rightarrow> Subscription list \<Rightarrow>
     resolver_error + 'v Entry list" where
  "Resolve r G F it namespaces subs =
     (case resolver_input r F it namespaces subs of
        Inl err \<Rightarrow> Inl err
      | Inr (input, startingCSVs) \<Rightarrow>
      case solve_variables G LoggingTracer input of
        None \<Rightarrow> Inl SolverNoReturn
      | Some (Inl err) \<Rightarrow> Inl (Solver err)
      | Some (Inr solvedVariables) \<Rightarrow>
      case operatorVariables solvedVariables of
        Inl err \<Rightarrow> Inl err
      | Inr ops \<Rightarrow>
      case resolved_operators (r_libs r) F startingCSVs ops of
        Inl err \<Rightarrow> Inl err
      | Inr (operators, errors) \<Rightarrow> if length errors > 0 then Inl (Aggregate errors) else Inr operators)"

end
