(* ===== verification/Fail_Forward.thy ===== *)
theory Fail_Forward
  imports Csv
begin

text \<open>
  Fail-forward upgrades (\<^verbatim>\<open>fail_forward.go\<close>): whether an operator group allows them, and the walk along the chain
  of replacements of an installed operator. The options of the walk are closures with state of their own; the
  state is an argument of the option here. The walk itself need not end for arbitrary options: that it does
  not return is the value \<open>None\<close>.
\<close>

datatype walk_error =
    WrongPhase string string string string
  | AlreadySeen string string
  | NilCSV

definition IsFailForwardEnabled :: "(string + OperatorGroup list) \<Rightarrow> string + bool" where
  "IsFailForwardEnabled listed =
     (case listed of
        Inl err \<Rightarrow> Inl err
      | Inr ogs \<Rightarrow>
          (if length ogs \<noteq> 1
           then Inl (''found '' @ itoa (int (length ogs)) @ '' operatorGroups, expected 1'')
           else Inr (UpgradeStrategy (ogs ! 0) = UpgradeStrategyUnsafeFailForward)))"

datatype walkOption = WithCSVPhase string | WithUniqueCSVs "string list"

abbreviation phase_of :: "'v ClusterServiceVersion \<Rightarrow> string" where
  "phase_of c \<equiv> st_Phase (csv_Status c)"

fun run_option :: "walkOption \<Rightarrow> 'v ClusterServiceVersion \<Rightarrow> walk_error + walkOption" where
  "run_option (WithCSVPhase phase) csv =
     (if phase_of csv \<noteq> phase then Inl (WrongPhase (csv_Namespace csv) (csv_Name csv) (phase_of csv) phase)
      else Inr (WithCSVPhase phase))"
| "run_option (WithUniqueCSVs visited) csv =
     (if csv_Name csv \<in> set visited then Inl (AlreadySeen (csv_Namespace csv) (csv_Name csv))
      else Inr (WithUniqueCSVs (csv_Name csv # visited)))"

fun run_options :: "walkOption list \<Rightarrow> 'v ClusterServiceVersion \<Rightarrow> walk_error + walkOption list" where
  "run_options [] csv = Inr []"
| "run_options (o' # os) csv =
     (case run_option o' csv of
        Inl err \<Rightarrow> Inl err
      | Inr o' \<Rightarrow> map_sum id (\<lambda>os. o' # os) (run_options os csv))"

partial_function (option) walk ::
    "(string \<times> 'v ClusterServiceVersion) list \<Rightarrow> 'v ClusterServiceVersion \<Rightarrow> walkOption list \<Rightarrow>
     (walk_error + 'v ClusterServiceVersion) option" where
  "walk csvToReplacement csv options =
     (case map_of csvToReplacement (csv_Name csv) of
        None \<Rightarrow> Some (Inr csv)
      | Some next' \<Rightarrow>
          (case run_options options csv of
             Inl err \<Rightarrow> Some (Inl err)
           | Inr options \<Rightarrow> walk csvToReplacement next' options))"

declare walk.simps [code]

definition WalkReplacementChain ::
    "'v ClusterServiceVersion option \<Rightarrow> (string \<times> 'v ClusterServiceVersion) list \<Rightarrow> walkOption list \<Rightarrow>
     (walk_error + 'v ClusterServiceVersion) option" where
  "WalkReplacementChain csv csvToReplacement options =
     (case csv of None \<Rightarrow> Some (Inl NilCSV) | Some csv \<Rightarrow> walk csvToReplacement csv options)"

definition isReplacementChainThatEndsInFailure ::
    "'v ClusterServiceVersion \<Rightarrow> (string \<times> 'v ClusterServiceVersion) list \<Rightarrow> (walk_error + bool) option" where
  "isReplacementChainThatEndsInFailure csv csvToReplacement =
     map_option (map_sum id (\<lambda>lastCSV. phase_of lastCSV = CSVPhaseFailed))
       (WalkReplacementChain (Some csv) csvToReplacement [WithCSVPhase CSVPhaseReplacing, WithUniqueCSVs []])"

definition ReplacementMapping ::
    "'v ClusterServiceVersion list \<Rightarrow> (string \<times> 'v ClusterServiceVersion) list" where
  "ReplacementMapping csvs =
     foldl (\<lambda>m csv. if csv_Replaces csv \<noteq> '''' then AList.update (csv_Replaces csv) csv m else m) [] csvs"

subsection \<open>The walk ends\<close>

lemma run_options_unique:
  "run_options os csv = Inr os' \<Longrightarrow> WithUniqueCSVs vs \<in> set os \<Longrightarrow>
     csv_Name csv \<notin> set vs \<and> WithUniqueCSVs (csv_Name csv # vs) \<in> set os'"
proof (induction os arbitrary: os')
  case (Cons o' os)
  obtain o2 os2 where "run_option o' csv = Inr o2" "run_options os csv = Inr os2" "os' = o2 # os2"
    using Cons.prems(1) by (cases "run_option o' csv"; cases "run_options os csv") auto
  then show ?case using Cons by (auto split: if_splits)
qed simp

lemma walk_returns:
  assumes "WithUniqueCSVs vs \<in> set os"
  shows "\<exists>r. walk m csv os = Some r"
  using assms
proof (induction "card (fst ` set m - set vs)" arbitrary: csv os vs rule: less_induct)
  case less
  show ?case
  proof (cases "map_of m (csv_Name csv)")
    case None
    then show ?thesis by (simp add: walk.simps [of m csv os])
  next
    case (Some next')
    then have k: "csv_Name csv \<in> fst ` set m" by (force dest: map_of_SomeD)
    show ?thesis
    proof (cases "run_options os csv")
      case (Inl e)
      then show ?thesis using Some by (simp add: walk.simps [of m csv os])
    next
      case (Inr os')
      note u = run_options_unique [OF Inr less.prems]
      have "card (fst ` set m - set (csv_Name csv # vs)) < card (fst ` set m - set vs)"
        by (rule psubset_card_mono) (use k u in auto)
      from less.hyps [OF this u [THEN conjunct2]] show ?thesis
        using Some Inr by (simp add: walk.simps [of m csv os])
    qed
  qed
qed

subsection \<open>What the walk finds\<close>

text \<open>The chain from a CSV: those with a replacement, and the one at its end\<close>

inductive chain_to ::
    "(string \<times> 'v ClusterServiceVersion) list \<Rightarrow> 'v ClusterServiceVersion \<Rightarrow> 'v ClusterServiceVersion list \<Rightarrow>
     'v ClusterServiceVersion \<Rightarrow> bool" for m where
  chain_end: "map_of m (csv_Name c) = None \<Longrightarrow> chain_to m c [] c"
| chain_next: "map_of m (csv_Name c) = Some n \<Longrightarrow> chain_to m n cs d \<Longrightarrow> chain_to m c (c # cs) d"

inductive_simps chain_to_simps: "chain_to m c [] d" "chain_to m c (e # cs) d"

lemma chain_to_unique: "chain_to m c cs d \<Longrightarrow> chain_to m c cs' d' \<Longrightarrow> cs' = cs \<and> d' = d"
proof (induction arbitrary: cs' d' rule: chain_to.induct)
  case (chain_end c)
  from chain_end.prems chain_end.hyps show ?case by cases simp_all
next
  case (chain_next c n cs d)
  from chain_next.prems chain_next.hyps(1) obtain ds where "cs' = c # ds" "chain_to m n ds d'" by cases simp_all
  then show ?case using chain_next.IH [of ds d'] by simp
qed

lemma chain_to_suffix: "chain_to m c cs d \<Longrightarrow> e \<in> set cs \<Longrightarrow> \<exists>es. chain_to m e es d \<and> length es \<le> length cs"
proof (induction rule: chain_to.induct)
  case (chain_next c n cs d)
  show ?case
  proof (cases "e = c")
    case True
    then show ?thesis using chain_to.chain_next [OF chain_next.hyps] by (intro exI [of _ "c # cs"]) simp
  next
    case False
    then obtain es where "chain_to m e es d" "length es \<le> length cs" using chain_next.IH chain_next.prems by auto
    then show ?thesis by (intro exI [of _ es]) simp
  qed
qed simp

lemma chain_to_names:
  "map_of m (csv_Name c) = map_of m (csv_Name c') \<Longrightarrow> chain_to m c cs d \<Longrightarrow> cs \<noteq> [] \<Longrightarrow> chain_to m c' (c' # tl cs) d"
  by (cases cs) (auto simp: chain_to_simps intro: chain_to.intros)

text \<open>A chain that ends does not come by a name twice.\<close>

lemma chain_to_distinct: "chain_to m c cs d \<Longrightarrow> distinct (map csv_Name cs)"
proof (induction rule: chain_to.induct)
  case (chain_next c n cs d)
  have "csv_Name c \<noteq> csv_Name e" if e: "e \<in> set cs" for e
  proof
    assume eq: "csv_Name c = csv_Name e"
    obtain es where es: "chain_to m e es d" "length es \<le> length cs" using chain_to_suffix chain_next.hyps(2) e by metis
    have c: "chain_to m c (c # cs) d" using chain_next.hyps by (rule chain_to.chain_next)
    have "es \<noteq> []" using es(1) eq chain_next.hyps(1) by (auto simp: chain_to_simps)
    then have "chain_to m c (c # tl es) d" using chain_to_names [OF _ es(1)] eq by simp
    then have "length (c # tl es) = length (c # cs)" using chain_to_unique [OF c] by metis
    then show False using \<open>es \<noteq> []\<close> es(2) by (cases es) auto
  qed
  then show ?case using chain_next.IH by auto
qed simp

lemma walk_chain_to:
  assumes "chain_to m c cs d" and "\<forall>x \<in> set cs. phase_of x = p" and "distinct (map csv_Name cs)"
    and "csv_Name ` set cs \<inter> set vs = {}"
  shows "walk m c [WithCSVPhase p, WithUniqueCSVs vs] = Some (Inr d)"
  using assms
proof (induction arbitrary: vs rule: chain_to.induct)
  case (chain_next c n cs d)
  then show ?case
    using chain_next.IH [of "csv_Name c # vs"] by (simp add: walk.simps [of m c "[WithCSVPhase p, WithUniqueCSVs vs]"])
qed (simp add: walk.simps)

lemma walk_found:
  "walk m c [WithCSVPhase p, WithUniqueCSVs vs] = Some (Inr d) \<Longrightarrow>
     \<exists>cs. chain_to m c cs d \<and> (\<forall>x \<in> set cs. phase_of x = p)"
proof (induction "card (fst ` set m - set vs)" arbitrary: c vs rule: less_induct)
  case less
  show ?case
  proof (cases "map_of m (csv_Name c)")
    case None
    then have "c = d" using less.prems by (simp add: walk.simps [of m c])
    then show ?thesis using chain_end [OF None] by (intro exI [of _ "[]"]) simp
  next
    case (Some n)
    then have k: "csv_Name c \<in> fst ` set m" by (force dest: map_of_SomeD)
    have s: "phase_of c = p" "csv_Name c \<notin> set vs"
        "walk m n [WithCSVPhase p, WithUniqueCSVs (csv_Name c # vs)] = Some (Inr d)"
      using less.prems Some by (auto simp: walk.simps [of m c] split: if_splits)
    have "card (fst ` set m - set (csv_Name c # vs)) < card (fst ` set m - set vs)"
      by (rule psubset_card_mono) (use k s(2) in auto)
    from less.hyps [OF this s(3)] obtain cs where "chain_to m n cs d" "\<forall>x \<in> set cs. phase_of x = p" by blast
    then show ?thesis using chain_next [OF Some] s(1) by (intro exI [of _ "c # cs"]) simp
  qed
qed

lemma ends_in_failure:
  "\<exists>r. isReplacementChainThatEndsInFailure c m = Some r \<and>
     (\<forall>b. r = Inr b \<longleftrightarrow> (\<exists>cs d. chain_to m c cs d \<and> (\<forall>x \<in> set cs. phase_of x = CSVPhaseReplacing) \<and>
        b = (phase_of d = CSVPhaseFailed)))"
proof -
  let ?os = "[WithCSVPhase CSVPhaseReplacing, WithUniqueCSVs []]"
  obtain r where r: "walk m c ?os = Some r" using walk_returns [of "[]" ?os m c] by auto
  have found: "r = Inr d \<longleftrightarrow> (\<exists>cs. chain_to m c cs d \<and> (\<forall>x \<in> set cs. phase_of x = CSVPhaseReplacing))" for d
  proof
    assume "r = Inr d"
    then show "\<exists>cs. chain_to m c cs d \<and> (\<forall>x \<in> set cs. phase_of x = CSVPhaseReplacing)" using r walk_found by blast
  next
    assume "\<exists>cs. chain_to m c cs d \<and> (\<forall>x \<in> set cs. phase_of x = CSVPhaseReplacing)"
    then obtain cs where cs: "chain_to m c cs d" "\<forall>x \<in> set cs. phase_of x = CSVPhaseReplacing" by blast
    then have "walk m c ?os = Some (Inr d)" using walk_chain_to [OF cs chain_to_distinct [OF cs(1)], of "[]"] by simp
    then show "r = Inr d" using r by simp
  qed
  have "map_sum id (\<lambda>l. phase_of l = CSVPhaseFailed) r = Inr b \<longleftrightarrow>
      (\<exists>d. r = Inr d \<and> b = (phase_of d = CSVPhaseFailed))" for b
    by (cases r) auto
  then have "map_sum id (\<lambda>l. phase_of l = CSVPhaseFailed) r = Inr b \<longleftrightarrow>
      (\<exists>cs d. chain_to m c cs d \<and> (\<forall>x \<in> set cs. phase_of x = CSVPhaseReplacing) \<and> b = (phase_of d = CSVPhaseFailed))" for b
    unfolding found by blast
  then show ?thesis using r by (simp add: isReplacementChainThatEndsInFailure_def WalkReplacementChain_def)
qed

text \<open>The map of replacements has, for a name, the last CSV that replaces it.\<close>

lemma ReplacementMapping_lookup:
  "map_of (ReplacementMapping csvs) n =
     (if n = '''' then None else find (\<lambda>c. csv_Replaces c = n) (rev csvs))"
proof -
  have "map_of (foldl (\<lambda>m csv. if csv_Replaces csv \<noteq> '''' then AList.update (csv_Replaces csv) csv m else m) m0 csvs) n =
      (if n = '''' then map_of m0 n else case find (\<lambda>c. csv_Replaces c = n) (rev csvs) of Some c \<Rightarrow> Some c | None \<Rightarrow> map_of m0 n)" for m0
  proof (induction csvs rule: rev_induct)
    case (snoc c csvs)
    then show ?case by (auto simp: alist_simps)
  qed simp
  from this [of "[]"] show ?thesis by (auto simp: ReplacementMapping_def split: option.split)
qed

end
