(* ===== verification/Csv_Source.thy ===== *)
theory Csv_Source
  imports Fail_Forward Api_Properties Predicates
begin

text \<open>
  The source of installed operators (\<^verbatim>\<open>source_csvs.go\<close>): a snapshot of the ClusterServiceVersions of a namespace.
  What the listers and the client return is an argument: the lists of CSVs, subscriptions and operator groups
  from the caches, and the live list of subscriptions, which is requested at most once for a CSV and may
  differ each time. Entries are allocated from an address on.
\<close>

record 'v csvSource =
  src_key :: SourceKey
  src_csvs :: "string + 'v ClusterServiceVersion list"
  src_subs :: "string + Subscription list"
  src_ogs :: "string + OperatorGroup list"
  src_listSubscriptions :: "nat \<Rightarrow> string + Subscription list"

text \<open>Only the first namespace has a source of installed operators.\<close>

definition csv_Sources :: "(string \<Rightarrow> 'v csvSource) \<Rightarrow> string list \<Rightarrow> (SourceKey \<times> 'v csvSource) list" where
  "csv_Sources lister namespaces =
     (case namespaces of
        [] \<Rightarrow> []
      | namespace # _ \<Rightarrow> [(NewVirtualSourceKey namespace, (lister namespace)\<lparr>src_key := NewVirtualSourceKey namespace\<rparr>)])"

subsection \<open>Entries of CSVs\<close>

text \<open>\<^verbatim>\<open>strings.SplitN(name, ".", 2)\<close>: \<open>None\<close> when there is no separator\<close>

fun split_dot :: "string \<Rightarrow> (string \<times> string) option" where
  "split_dot [] = None"
| "split_dot (c # cs) = (if c = CHR ''.'' then Some ([], cs) else map_option (\<lambda>(a, b). (c # a, b)) (split_dot cs))"

fun add_crds :: "CRDDescription list \<Rightarrow> APISet \<Rightarrow> string + APISet" where
  "add_crds [] apis = Inr apis"
| "add_crds (crdDef # defs) apis =
     (case split_dot (crd_Name crdDef) of
        None \<Rightarrow> Inl (''error parsing crd name: '' @ crd_Name crdDef)
      | Some (plural, gr) \<Rightarrow>
          add_crds defs (api_add apis
            \<lparr>api_Group = gr, api_Version = crd_Version crdDef, api_Kind = crd_Kind crdDef, api_Plural = plural\<rparr>))"

definition add_services :: "APIServiceDescription list \<Rightarrow> APISet \<Rightarrow> APISet" where
  "add_services descs apis =
     foldl (\<lambda>apis d. api_add apis
       \<lparr>api_Group = as_Group d, api_Version = as_Version d, api_Kind = as_Kind d, api_Plural = as_Name d\<rparr>) apis descs"

definition empty_source_info :: OperatorSourceInfo where
  "empty_source_info = \<lparr>si_Package = '''', si_Channel = '''', si_StartingCSV = '''',
     si_Catalog = \<lparr>sk_Name = '''', sk_Namespace = ''''\<rparr>, si_DefaultChannel = False, si_Deprecations = None,
     si_Subscription = None\<rparr>"

definition newEntryFromV1Alpha1CSV :: "nat \<Rightarrow> 'v ClusterServiceVersion \<Rightarrow> string + 'v Entry" where
  "newEntryFromV1Alpha1CSV addr csv =
     (case add_crds (csv_OwnedCRDs csv) EmptyAPISet of
        Inl err \<Rightarrow> Inl err
      | Inr provided \<Rightarrow>
      case add_crds (csv_RequiredCRDs csv) EmptyAPISet of
        Inl err \<Rightarrow> Inl err
      | Inr required \<Rightarrow>
          (let providedAPIs = add_services (csv_OwnedAPIServices csv) provided;
               requiredAPIs = add_services (csv_RequiredAPIServices csv) required
           in Inr \<lparr>e_addr = addr, e_Name = csv_Name csv, e_Replaces = '''', e_Skips = [], e_SkipRange = None,
                   e_ProvidedAPIs = providedAPIs, e_RequiredAPIs = requiredAPIs,
                   e_Version = Some (csv_Version csv), e_SourceInfo = Some empty_source_info,
                   e_Properties = providedAPIsToProperties providedAPIs @ requiredAPIsToProperties requiredAPIs,
                   e_BundlePath = '''', e_Bundle = None\<rparr>))"

subsection \<open>Subscriptions of CSVs\<close>

text \<open>The loop that relates CSVs to the subscriptions that installed them, by address\<close>

definition csvSubscriptions :: "'v ClusterServiceVersion list \<Rightarrow> Subscription list \<Rightarrow> (nat \<times> Subscription) list" where
  "csvSubscriptions csvs subs =
     foldl (\<lambda>m sub. case find (\<lambda>csv. \<not> IsCopied csv \<and> csv_Name csv = sub_InstalledCSV sub) csvs of
              Some csv \<Rightarrow> AList.update (csv_addr csv) sub m
            | None \<Rightarrow> m) [] subs"

text \<open>The zero version is rendered as the empty string.\<close>

definition inferProperties ::
    "('v, 'p) libs \<Rightarrow> ('v \<Rightarrow> bool) \<Rightarrow> 'v ClusterServiceVersion \<Rightarrow> Subscription list \<Rightarrow> Property list" where
  "inferProperties L is_zero csv subs =
     (let packages = remdups (map sub_Package
            (filter (\<lambda>sub. sub_InstalledCSV sub = csv_Name csv \<and> sub_Package sub \<noteq> '''') subs))
      in if length packages \<noteq> 1 then []
         else [\<lparr>p_Type = PackageType,
                p_Value = json_Marshal [(''packageName'', packages ! 0),
                  (''version'', if is_zero (csv_Version csv) then '''' else semver_String L (csv_Version csv))]\<rparr>])"

text \<open>The last package property that can be decoded names the package.\<close>

fun source_package :: "Property list \<Rightarrow> string \<Rightarrow> string" where
  "source_package [] pkg = pkg"
| "source_package (p # ps) pkg =
     (if p_Type p \<noteq> PackageType then source_package ps pkg
      else case unmarshal_Package (p_Value p) of
             None \<Rightarrow> source_package ps pkg
           | Some pp \<Rightarrow> source_package ps (pp_PackageName pp))"

subsection \<open>Snapshot\<close>

definition walk_error_String :: "walk_error \<Rightarrow> string" where
  "walk_error_String e =
     (case e of
        WrongPhase ns name phase want \<Rightarrow>
          ''csv '' @ ns @ ''/'' @ name @ '' in phase '' @ phase @ '' instead of '' @ want
      | AlreadySeen ns name \<Rightarrow> ''csv '' @ ns @ ''/'' @ name @ '' has already been seen''
      | NilCSV \<Rightarrow> ''csv cannot be nil'')"

text \<open>The check of a CSV without a cached subscription against the live subscriptions\<close>

definition coherent :: "'v csvSource \<Rightarrow> (nat \<times> Subscription) list \<Rightarrow> 'v ClusterServiceVersion \<Rightarrow> string option" where
  "coherent s links csv =
     (if map_of links (csv_addr csv) \<noteq> None then None
      else case src_listSubscriptions s (csv_addr csv) of
             Inl err \<Rightarrow> Some (''failed to list subscriptions: '' @ err)
           | Inr subs \<Rightarrow>
               (case find (\<lambda>sub. sub_InstalledCSV sub = csv_Name csv) subs of
                  Some sub \<Rightarrow> Some (''lister caches incoherent for CSV '' @ csv_Namespace csv @ ''/'' @ csv_Name csv @
                    '' - found owning Subscription '' @ sub_Namespace sub @ ''/'' @ sub_Name sub)
                | None \<Rightarrow> None))"

text \<open>Whether a CSV is passed over because its replacements ended in failure; \<open>None\<close> when that is not decided\<close>

definition failing_forward ::
    "bool \<Rightarrow> 'v ClusterServiceVersion list \<Rightarrow> 'v ClusterServiceVersion \<Rightarrow> (string + bool) option" where
  "failing_forward enabled csvs csv =
     (if \<not> enabled then Some (Inr False)
      else map_option (map_sum walk_error_String (\<lambda>ends. phase_of csv = CSVPhaseReplacing \<and> ends))
             (isReplacementChainThatEndsInFailure csv (ReplacementMapping csvs)))"

text \<open>The entry of a CSV with its source and properties\<close>

definition csv_entry ::
    "('v, 'p) libs \<Rightarrow> ('v \<Rightarrow> bool) \<Rightarrow> json_len \<Rightarrow> 'v csvSource \<Rightarrow> Subscription list \<Rightarrow> (nat \<times> Subscription) list \<Rightarrow>
     nat \<Rightarrow> 'v ClusterServiceVersion \<Rightarrow> string + 'v Entry" where
  "csv_entry L is_zero len s subs links addr csv =
     (case newEntryFromV1Alpha1CSV addr csv of
        Inl err \<Rightarrow> Inl err
      | Inr entry \<Rightarrow>
      case (case csv_properties csv of
              None \<Rightarrow> Inr (e_Properties entry @ inferProperties L is_zero csv subs)
            | Some anno \<Rightarrow>
                map_sum (\<lambda>err. ''failed to retrieve properties of csv '' @ go_quote (csv_Name csv) @ '': '' @ err) id
                  (PropertyListFromPropertiesAnnotation len anno)) of
        Inl err \<Rightarrow> Inl err
      | Inr props \<Rightarrow>
          Inr (entry\<lparr>e_Properties := props,
                     e_SourceInfo := Some (empty_source_info
                       \<lparr>si_Catalog := src_key s, si_Subscription := map_option sub_addr (map_of links (csv_addr csv)),
                        si_Package := source_package props ''''\<rparr>)\<rparr>))"

fun csv_entries ::
    "('v, 'p) libs \<Rightarrow> ('v \<Rightarrow> bool) \<Rightarrow> json_len \<Rightarrow> 'v csvSource \<Rightarrow> Subscription list \<Rightarrow> bool \<Rightarrow>
     'v ClusterServiceVersion list \<Rightarrow> nat \<Rightarrow> 'v ClusterServiceVersion list \<Rightarrow> (string + 'v Entry list) option" where
  "csv_entries L is_zero len s subs failForwardEnabled csvs addr [] = Some (Inr [])"
| "csv_entries L is_zero len s subs failForwardEnabled csvs addr (csv # rest) =
     (if IsCopied csv then csv_entries L is_zero len s subs failForwardEnabled csvs addr rest
      else case coherent s (csvSubscriptions csvs subs) csv of
             Some err \<Rightarrow> Some (Inl err)
           | None \<Rightarrow>
      case failing_forward failForwardEnabled csvs csv of
        None \<Rightarrow> None
      | Some (Inl err) \<Rightarrow> Some (Inl err)
      | Some (Inr True) \<Rightarrow> csv_entries L is_zero len s subs failForwardEnabled csvs addr rest
      | Some (Inr False) \<Rightarrow>
      case csv_entry L is_zero len s subs (csvSubscriptions csvs subs) addr csv of
        Inl err \<Rightarrow> Some (Inl err)
      | Inr entry \<Rightarrow>
          map_option (map_sum id (\<lambda>es. entry # es))
            (csv_entries L is_zero len s subs failForwardEnabled csvs (Suc addr) rest))"

definition csv_Snapshot ::
    "('v, 'p) libs \<Rightarrow> ('v \<Rightarrow> bool) \<Rightarrow> json_len \<Rightarrow> nat \<Rightarrow> 'v csvSource \<Rightarrow> (string + 'v Entry list) option" where
  "csv_Snapshot L is_zero len addr s =
     (case src_csvs s of
        Inl err \<Rightarrow> Some (Inl err)
      | Inr csvs \<Rightarrow>
      case src_subs s of
        Inl err \<Rightarrow> Some (Inl err)
      | Inr subs \<Rightarrow>
      case IsFailForwardEnabled (src_ogs s) of
        Inl err \<Rightarrow> Some (Inl err)
      | Inr failForwardEnabled \<Rightarrow> csv_entries L is_zero len s subs failForwardEnabled csvs addr csvs)"

subsection \<open>What a snapshot holds\<close>

lemma failing_forward_returns: "\<exists>r. failing_forward enabled csvs csv = Some r"
  using ends_in_failure [of csv "ReplacementMapping csvs"] by (auto simp: failing_forward_def)

lemma csv_entries_returns: "\<exists>r. csv_entries L is_zero len s subs ff csvs addr rest = Some r"
proof (induction rest arbitrary: addr)
  case (Cons csv rest)
  obtain r where "failing_forward ff csvs csv = Some r" using failing_forward_returns by blast
  then show ?case using Cons.IH [of addr] Cons.IH [of "Suc addr"]
    by (auto split: option.splits sum.splits bool.splits)
qed simp

lemma csv_Snapshot_returns: "\<exists>r. csv_Snapshot L is_zero len addr s = Some r"
  using csv_entries_returns by (auto simp: csv_Snapshot_def split: sum.splits)

text \<open>The CSVs that are passed over\<close>

definition passed_over :: "bool \<Rightarrow> 'v ClusterServiceVersion list \<Rightarrow> 'v ClusterServiceVersion \<Rightarrow> bool" where
  "passed_over enabled csvs csv \<longleftrightarrow> enabled \<and> phase_of csv = CSVPhaseReplacing \<and>
     (\<exists>cs d. chain_to (ReplacementMapping csvs) csv cs d \<and> (\<forall>x \<in> set cs. phase_of x = CSVPhaseReplacing) \<and>
        phase_of d = CSVPhaseFailed)"

lemma failing_forward_decides:
  assumes a: "failing_forward enabled csvs csv = Some (Inr b)"
  shows "b = passed_over enabled csvs csv"
proof (cases enabled)
  case True
  obtain r where r: "isReplacementChainThatEndsInFailure csv (ReplacementMapping csvs) = Some r"
    "\<And>b. r = Inr b \<longleftrightarrow> (\<exists>cs d. chain_to (ReplacementMapping csvs) csv cs d \<and>
       (\<forall>x \<in> set cs. phase_of x = CSVPhaseReplacing) \<and> b = (phase_of d = CSVPhaseFailed))"
    using ends_in_failure [of csv "ReplacementMapping csvs"] by blast
  obtain e where e: "r = Inr e" using a r(1) True by (cases r) (auto simp: failing_forward_def)
  then have "e \<longleftrightarrow> (\<exists>cs d. chain_to (ReplacementMapping csvs) csv cs d \<and>
       (\<forall>x \<in> set cs. phase_of x = CSVPhaseReplacing) \<and> phase_of d = CSVPhaseFailed)" using r(2) [of True] by auto
  then show ?thesis using a r(1) e True by (simp add: failing_forward_def passed_over_def)
qed (use a in \<open>simp add: failing_forward_def passed_over_def\<close>)

text \<open>What the entry of a CSV is\<close>

definition entry_of_csv ::
    "'v csvSource \<Rightarrow> (nat \<times> Subscription) list \<Rightarrow> 'v ClusterServiceVersion \<Rightarrow> 'v Entry \<Rightarrow> bool" where
  "entry_of_csv s links csv e \<longleftrightarrow> e_Name e = csv_Name csv \<and> e_Version e = Some (csv_Version csv) \<and>
     (\<exists>si. e_SourceInfo e = Some si \<and> si_Catalog si = src_key s \<and> si_Channel si = '''' \<and>
        si_Package si = source_package (e_Properties e) '''' \<and>
        si_Subscription si = map_option sub_addr (map_of links (csv_addr csv))) \<and>
     (map_of links (csv_addr csv) = None \<longrightarrow>
        (\<exists>live. src_listSubscriptions s (csv_addr csv) = Inr live \<and> csv_Name csv \<notin> sub_InstalledCSV ` set live))"

lemma csv_entry_of:
  assumes "csv_entry L is_zero len s subs links addr csv = Inr e" and "coherent s links csv = None"
  shows "entry_of_csv s links csv e \<and> e_addr e = addr"
proof -
  obtain e0 where e0: "newEntryFromV1Alpha1CSV addr csv = Inr e0" using assms(1) by (auto simp: csv_entry_def split: sum.splits)
  then have f: "e_Name e0 = csv_Name csv" "e_Version e0 = Some (csv_Version csv)" "e_addr e0 = addr"
    by (auto simp: newEntryFromV1Alpha1CSV_def Let_def split: sum.splits)
  obtain props where e: "e = e0\<lparr>e_Properties := props, e_SourceInfo := Some (empty_source_info
         \<lparr>si_Catalog := src_key s, si_Subscription := map_option sub_addr (map_of links (csv_addr csv)),
          si_Package := source_package props ''''\<rparr>)\<rparr>"
    using assms(1) e0 by (auto simp: csv_entry_def split: sum.splits option.splits)
  show ?thesis using assms(2) f
    by (auto simp: e entry_of_csv_def empty_source_info_def coherent_def find_None_iff split: if_splits sum.splits option.splits)
qed

lemma csv_entries_correct:
  assumes "csv_entries L is_zero len s subs ff csvs addr rest = Some (Inr es)"
  shows "map e_addr es = [addr..<addr + length es] \<and>
    list_all2 (entry_of_csv s (csvSubscriptions csvs subs)) (filter (\<lambda>c. \<not> IsCopied c \<and> \<not> passed_over ff csvs c) rest) es"
  using assms
proof (induction rest arbitrary: addr es)
  case (Cons csv rest)
  let ?links = "csvSubscriptions csvs subs"
  show ?case
  proof (cases "IsCopied csv")
    case False
    have c: "coherent s ?links csv = None" using Cons.prems False by (auto split: option.splits)
    obtain b where b: "failing_forward ff csvs csv = Some (Inr b)"
      using Cons.prems False c by (auto split: option.splits sum.splits)
    note p = failing_forward_decides [OF b]
    show ?thesis
    proof (cases b)
      case True
      then show ?thesis using Cons.prems Cons.IH [of addr es] False c b p by simp
    next
      case nb: False
      obtain e where e: "csv_entry L is_zero len s subs ?links addr csv = Inr e"
        using Cons.prems False c b nb by (auto split: sum.splits)
      obtain r where r: "csv_entries L is_zero len s subs ff csvs (Suc addr) rest = Some r" using csv_entries_returns by blast
      obtain es' where es: "r = Inr es'" "es = e # es'" using Cons.prems False c b nb e r by (cases r) auto
      have upt: "[addr..<addr + length es] = addr # [Suc addr..<Suc addr + length es']"
        by (simp add: es(2) upt_conv_Cons del: upt_Suc)
      have "map e_addr es = [addr..<addr + length es]"
        unfolding upt using Cons.IH [OF r [unfolded es(1)]] csv_entry_of [OF e c] by (simp add: es(2) del: upt_Suc)
      then show ?thesis
        using Cons.IH [OF r [unfolded es(1)]] csv_entry_of [OF e c] False p nb
        by (simp add: es(2) del: upt_Suc)
    qed
  qed (use Cons in simp)
qed simp

lemma csv_Snapshot_correct:
  assumes "csv_Snapshot L is_zero len addr s = Some (Inr es)"
  shows "\<exists>csvs subs ff. src_csvs s = Inr csvs \<and> src_subs s = Inr subs \<and> IsFailForwardEnabled (src_ogs s) = Inr ff \<and>
    map e_addr es = [addr..<addr + length es] \<and>
    list_all2 (entry_of_csv s (csvSubscriptions csvs subs)) (filter (\<lambda>c. \<not> IsCopied c \<and> \<not> passed_over ff csvs c) csvs) es"
proof -
  obtain csvs subs ff where "src_csvs s = Inr csvs" "src_subs s = Inr subs" "IsFailForwardEnabled (src_ogs s) = Inr ff"
      "csv_entries L is_zero len s subs ff csvs addr csvs = Some (Inr es)"
    using assms by (auto simp: csv_Snapshot_def split: sum.splits)
  then show ?thesis using csv_entries_correct by blast
qed

text \<open>
  A CSV is related to the last listed subscription that names it as installed; of several CSVs of that name that are
  not copies the first one is related, the others are not.
\<close>

lemma csvSubscriptions_lookup:
  assumes "inj_on csv_addr (set csvs)" and "csv \<in> set csvs"
  shows "map_of (csvSubscriptions csvs subs) (csv_addr csv) =
    (if find (\<lambda>c. \<not> IsCopied c \<and> csv_Name c = csv_Name csv) csvs = Some csv
     then find (\<lambda>sub. sub_InstalledCSV sub = csv_Name csv) (rev subs) else None)"
proof (induction subs rule: rev_induct)
  case Nil
  show ?case by (simp add: csvSubscriptions_def)
next
  case (snoc sub subs)
  let ?first = "\<lambda>n. find (\<lambda>c. \<not> IsCopied c \<and> csv_Name c = n) csvs"
  have step: "csvSubscriptions csvs (subs @ [sub]) =
      (case ?first (sub_InstalledCSV sub) of
         Some c \<Rightarrow> AList.update (csv_addr c) sub (csvSubscriptions csvs subs) | None \<Rightarrow> csvSubscriptions csvs subs)"
    by (simp add: csvSubscriptions_def [of csvs "subs @ [sub]"] csvSubscriptions_def [of csvs subs, symmetric])
  show ?case
  proof (cases "?first (sub_InstalledCSV sub)")
    case None
    then have "sub_InstalledCSV sub \<noteq> csv_Name csv" if "?first (csv_Name csv) = Some csv" using that by auto
    then show ?thesis using snoc.IH None by (simp add: step)
  next
    case (Some c)
    then have c: "c \<in> set csvs" "csv_Name c = sub_InstalledCSV sub" by (auto simp: find_Some_iff)
    show ?thesis
    proof (cases "c = csv")
      case True
      then show ?thesis using Some c by (simp add: step alist_simps)
    next
      case False
      then have "csv_addr c \<noteq> csv_addr csv" using assms c(1) by (simp add: inj_on_eq_iff)
      moreover have "sub_InstalledCSV sub \<noteq> csv_Name csv" if "?first (csv_Name csv) = Some csv"
        using that Some False by auto
      ultimately show ?thesis using snoc.IH Some by (simp add: step alist_simps)
    qed
  qed
qed

end
