(* ===== verification/Step_Resolver.thy ===== *)
theory Step_Resolver
  imports Steps Resolver Csv_Source
begin

text \<open>
  The step resolver (\<^verbatim>\<open>step_resolver.go\<close>): it resolves the subscriptions of a namespace and turns the operators to
  install into steps, bundle lookups and updated subscriptions. The listers' and the client's answers, and the
  resolver it calls, are arguments. Subscriptions are updated in place: the state is the list of them, and the
  updated ones are returned by their addresses.
\<close>

subsection \<open>Sources and priorities\<close>

text \<open>The sources of several providers; a later provider wins a key. Logging the duplicate key uses a logger that is never set.\<close>

fun merged_Sources :: "(string list \<Rightarrow> (SourceKey \<times> 's) list) list \<Rightarrow> string list \<Rightarrow> (SourceKey \<times> 's) list \<Rightarrow> (SourceKey \<times> 's) list outcome" where
  "merged_Sources [] namespaces result = Ok result"
| "merged_Sources (sp # sps) namespaces result =
     (if list_ex (\<lambda>(key, source). map_of result key \<noteq> None) (sp namespaces) then Panics
      else merged_Sources sps namespaces (foldl (\<lambda>m (key, source). AList.update key source m) result (sp namespaces)))"

definition catsrc_Priority :: "(SourceKey \<Rightarrow> int option) \<Rightarrow> SourceKey \<Rightarrow> int" where
  "catsrc_Priority lister key = (case lister key of None \<Rightarrow> 0 | Some priority \<Rightarrow> priority)"

subsection \<open>Lookups\<close>

record BundleLookupCondition =
  blc_Type :: string
  blc_Status :: string
  blc_Reason :: string
  blc_Message :: string

record BundleLookup =
  bl_Path :: string
  bl_Identifier :: string
  bl_Replaces :: string
  bl_CatalogSourceRef :: SourceKey
  bl_Conditions :: "BundleLookupCondition list"
  bl_Properties :: rawJSON

record 'r OperatorStepResolver =
  osr_codecs :: "'r codecs"
  osr_globalCatalogNamespace :: string
  osr_listSubscriptions :: "string \<Rightarrow> string + Subscription list"
  osr_ogs :: "string \<Rightarrow> string + OperatorGroup list"
  osr_csv :: "string \<Rightarrow> string \<Rightarrow> string + bool"
  osr_bundle :: "nat \<Rightarrow> Bundle"
  osr_range :: "(nat \<times> bool) list \<Rightarrow> (nat \<times> bool) list"

text \<open>Getting a CSV from the lister finds it, does not find it, or fails otherwise.\<close>

definition hasExistingCurrentCSV :: "'r OperatorStepResolver \<Rightarrow> Subscription \<Rightarrow> string + bool" where
  "hasExistingCurrentCSV r sub =
     (if sub_CurrentCSV sub = '''' then Inr False else osr_csv r (sub_Namespace sub) (sub_CurrentCSV sub))"

subsection \<open>ResolveSteps\<close>

definition matches_sub :: "OperatorSourceInfo \<Rightarrow> Subscription \<Rightarrow> bool" where
  "matches_sub sourceInfo sub \<longleftrightarrow>
     sub_Package sub = si_Package sourceInfo \<and>
     (sub_Channel sub = '''' \<or> sub_Channel sub = si_Channel sourceInfo) \<and>
     (let subCatalogKey = subscription_catalog sub
      in SourceKey_Empty subCatalogKey \<or> SourceKey_Equal subCatalogKey (si_Catalog sourceInfo))"

text \<open>The loop that finds the subscriptions of an operator, with whether their current CSV exists\<close>

fun existing_subscriptions ::
    "'r OperatorStepResolver \<Rightarrow> OperatorSourceInfo \<Rightarrow> Subscription list \<Rightarrow> string + (nat \<times> bool) list" where
  "existing_subscriptions r sourceInfo [] = Inr []"
| "existing_subscriptions r sourceInfo (sub # subs) =
     (if \<not> matches_sub sourceInfo sub then existing_subscriptions r sourceInfo subs
      else case hasExistingCurrentCSV r sub of
             Inl err \<Rightarrow> Inl (''unable to determine whether subscription '' @ sub_Name sub @ '' has a preexisting CSV'')
           | Inr alreadyExists \<Rightarrow>
               map_sum id (\<lambda>m. (sub_addr sub, alreadyExists) # m) (existing_subscriptions r sourceInfo subs))"

definition sub_at :: "Subscription list \<Rightarrow> nat \<Rightarrow> Subscription option" where
  "sub_at subs a = find (\<lambda>s. sub_addr s = a) subs"

definition current_is :: "Subscription list \<Rightarrow> nat \<Rightarrow> string \<Rightarrow> bool" where
  "current_is subs a name \<longleftrightarrow> (case sub_at subs a of Some s \<Rightarrow> sub_CurrentCSV s = name | None \<Rightarrow> False)"

definition upToDate :: "Subscription list \<Rightarrow> string \<Rightarrow> (nat \<times> bool) list \<Rightarrow> bool" where
  "upToDate subs name existing = list_all (\<lambda>(a, exists). exists \<and> current_is subs a name) existing"

definition set_current :: "string \<Rightarrow> nat \<Rightarrow> Subscription list \<Rightarrow> Subscription list" where
  "set_current name a subs = map (\<lambda>s. if sub_addr s = a then s\<lparr>sub_CurrentCSV := name\<rparr> else s) subs"

definition lookup_of :: "'r OperatorStepResolver \<Rightarrow> 'v Entry \<Rightarrow> OperatorSourceInfo \<Rightarrow> BundleLookup outcome" where
  "lookup_of r op sourceInfo =
     (case PropertiesAnnotationFromPropertyList (codec_len (osr_codecs r)) (e_Properties op) of
        Inl err \<Rightarrow> Fail (''failed to serialize operator properties for '' @ go_quote (e_Name op) @ '': '' @ err)
      | Inr anno \<Rightarrow>
          Ok \<lparr>bl_Path = e_BundlePath op, bl_Identifier = e_Name op, bl_Replaces = e_Replaces op,
              bl_CatalogSourceRef = si_Catalog sourceInfo,
              bl_Conditions =
                [\<lparr>blc_Type = ''BundleLookupNotPersisted'', blc_Status = ''True'', blc_Reason = ''BundleNotUnpacked'',
                  blc_Message = ''bundle contents have not yet been persisted to installplan status''\<rparr>,
                 \<lparr>blc_Type = ''BundleLookupPending'', blc_Status = ''True'', blc_Reason = ''JobNotStarted'',
                  blc_Message = ''unpack job not yet started''\<rparr>],
              bl_Properties = anno\<rparr>)"

record plan =
  pl_steps :: "Step list"
  pl_lookups :: "BundleLookup list"
  pl_updated :: "nat list"
  pl_subs :: "Subscription list"

text \<open>The new content of a bundle: its steps, or a lookup when it is an image\<close>

definition add_content ::
    "'r OperatorStepResolver \<Rightarrow> string \<Rightarrow> 'v Entry \<Rightarrow> OperatorSourceInfo \<Rightarrow> plan \<Rightarrow> plan outcome" where
  "add_content r namespace op sourceInfo p =
     (case e_Bundle op of
        Some b \<Rightarrow>
          bind_outcome (case NewStepsFromBundle (osr_codecs r) (osr_bundle r b) namespace (e_Replaces op)
                               (sk_Name (si_Catalog sourceInfo)) (sk_Namespace (si_Catalog sourceInfo)) of
                          Fail err \<Rightarrow> Fail (''failed to turn bundle into steps: '' @ err)
                        | x \<Rightarrow> x)
            (\<lambda>bundleSteps. Ok (p\<lparr>pl_steps := pl_steps p @ bundleSteps\<rparr>))
      | None \<Rightarrow>
          bind_outcome (lookup_of r op sourceInfo) (\<lambda>lookup. Ok (p\<lparr>pl_lookups := pl_lookups p @ [lookup]\<rparr>)))"

definition add_subscription ::
    "'r OperatorStepResolver \<Rightarrow> string \<Rightarrow> 'v Entry \<Rightarrow> OperatorSourceInfo \<Rightarrow> (nat \<times> bool) list \<Rightarrow> plan \<Rightarrow> plan outcome" where
  "add_subscription r namespace op sourceInfo existing p =
     (if existing \<noteq> [] then Ok p
      else bind_outcome (NewSubscriptionStepResource (osr_codecs r) namespace (sourceInfo\<lparr>si_StartingCSV := e_Name op\<rparr>))
             (\<lambda>subStep. Ok (p\<lparr>pl_steps := pl_steps p @
                [\<lparr>stp_Resolving = e_Name op, stp_Resource = subStep, stp_Status = ''Unknown''\<rparr>]\<rparr>)))"

fun update_subscriptions :: "string \<Rightarrow> (nat \<times> bool) list \<Rightarrow> plan \<Rightarrow> plan" where
  "update_subscriptions name [] p = p"
| "update_subscriptions name ((a, exists) # existing) p =
     (if current_is (pl_subs p) a name then update_subscriptions name existing p
      else update_subscriptions name existing
             (p\<lparr>pl_subs := set_current name a (pl_subs p), pl_updated := pl_updated p @ [a]\<rparr>))"

definition add_operator :: "'r OperatorStepResolver \<Rightarrow> string \<Rightarrow> 'v Entry \<Rightarrow> plan \<Rightarrow> plan outcome" where
  "add_operator r namespace op p =
     (case e_SourceInfo op of
        None \<Rightarrow> Panics
      | Some sourceInfo \<Rightarrow>
      case existing_subscriptions r sourceInfo (pl_subs p) of
        Inl err \<Rightarrow> Fail err
      | Inr existing \<Rightarrow>
          (if existing \<noteq> [] \<and> upToDate (pl_subs p) (e_Name op) existing then Ok p
           else bind_outcome (add_content r namespace op sourceInfo p) (\<lambda>p.
                bind_outcome (add_subscription r namespace op sourceInfo existing p) (\<lambda>p.
                Ok (update_subscriptions (e_Name op) (osr_range r existing) p)))))"

definition exclusionAnnotation :: string where
  "exclusionAnnotation = ''olm.operatorframework.io/exclude-global-namespace-resolution''"

definition resolution_namespaces :: "'r OperatorStepResolver \<Rightarrow> string \<Rightarrow> OperatorGroup \<Rightarrow> string list" where
  "resolution_namespaces r namespace og =
     (if map_of (og_Annotations og) exclusionAnnotation = Some ''true'' then [namespace]
      else [namespace, osr_globalCatalogNamespace r])"

datatype steps_error = ListFailed string | GroupsFailed string | GroupCount nat | ResolveFailed resolver_error | StepsFailed string | StepsPanic

definition ResolveSteps ::
    "'r OperatorStepResolver \<Rightarrow> (string list \<Rightarrow> Subscription list \<Rightarrow> resolver_error + 'v Entry list) \<Rightarrow> string \<Rightarrow>
     steps_error + plan" where
  "ResolveSteps r resolve namespace =
     (case osr_listSubscriptions r namespace of
        Inl err \<Rightarrow> Inl (ListFailed err)
      | Inr subs \<Rightarrow>
      case osr_ogs r namespace of
        Inl err \<Rightarrow> Inl (GroupsFailed err)
      | Inr ogs \<Rightarrow>
          (if length ogs \<noteq> 1 then Inl (GroupCount (length ogs))
           else case resolve (resolution_namespaces r namespace (ogs ! 0)) subs of
                  Inl err \<Rightarrow> Inl (ResolveFailed err)
                | Inr operators \<Rightarrow>
                    (case add_all (add_operator r namespace) operators
                            \<lparr>pl_steps = [], pl_lookups = [], pl_updated = [], pl_subs = subs\<rparr> of
                       Ok p \<Rightarrow> Inr (p\<lparr>pl_steps := OrderSteps (pl_steps p)\<rparr>)
                     | Fail err \<Rightarrow> Inl (StepsFailed err)
                     | Panics \<Rightarrow> Inl StepsPanic)))"

subsection \<open>The loop over the operators\<close>

text \<open>Everything of a subscription but its current CSV; matching depends on that only.\<close>

abbreviation spec_of :: "Subscription \<Rightarrow> Subscription" where
  "spec_of s \<equiv> s\<lparr>sub_CurrentCSV := ''''\<rparr>"

lemma matches_spec: "spec_of s = spec_of s' \<Longrightarrow> matches_sub si s = matches_sub si s'"
proof -
  have "matches_sub si (spec_of x) = matches_sub si x" for x by (simp add: matches_sub_def subscription_catalog_def)
  then show "spec_of s = spec_of s' \<Longrightarrow> matches_sub si s = matches_sub si s'" by metis
qed

lemma existing_subscriptions_eq:
  "existing_subscriptions r si subs = Inr existing \<Longrightarrow>
     list_all2 (\<lambda>s (a, b). a = sub_addr s \<and> hasExistingCurrentCSV r s = Inr b) (filter (matches_sub si) subs) existing"
proof (induction subs arbitrary: existing)
  case (Cons s subs)
  show ?case
  proof (cases "matches_sub si s")
    case True
    then obtain b ex where "hasExistingCurrentCSV r s = Inr b" "existing_subscriptions r si subs = Inr ex" "existing = (sub_addr s, b) # ex"
      using Cons.prems by (cases "hasExistingCurrentCSV r s"; cases "existing_subscriptions r si subs") auto
    then show ?thesis using Cons.IH [of ex] True by simp
  next
    case False
    then show ?thesis using Cons by simp
  qed
qed simp

lemma existing_addrs:
  assumes "existing_subscriptions r si subs = Inr existing"
  shows "fst ` set existing = sub_addr ` {s \<in> set subs. matches_sub si s}"
proof -
  have "map fst existing = map sub_addr (filter (matches_sub si) subs)"
    using existing_subscriptions_eq [OF assms] by (induction rule: list_all2_induct) auto
  then have "set (map fst existing) = set (map sub_addr (filter (matches_sub si) subs))" by simp
  then show ?thesis by simp
qed

text \<open>Setting the current CSV of the subscriptions with some addresses\<close>

definition set_all :: "string \<Rightarrow> nat set \<Rightarrow> Subscription list \<Rightarrow> Subscription list" where
  "set_all name A subs = map (\<lambda>s. if sub_addr s \<in> A then s\<lparr>sub_CurrentCSV := name\<rparr> else s) subs"

lemma set_all_simps [simp]:
  "set_all name {} subs = subs" "set_all name A (set_all name B subs) = set_all name (A \<union> B) subs"
  "map sub_addr (set_all name A subs) = map sub_addr subs" "map spec_of (set_all name A subs) = map spec_of subs"
  "set_all name {a} subs = set_current name a subs"
  by (auto simp: set_all_def set_current_def comp_def)

lemma find_SomeD: "find P xs = Some x \<Longrightarrow> x \<in> set xs \<and> P x"
  by (induction xs) (auto split: if_splits)

lemma addr_unique:
  "distinct (map sub_addr subs) \<Longrightarrow> s \<in> set subs \<Longrightarrow> s' \<in> set subs \<Longrightarrow> sub_addr s' = sub_addr s \<Longrightarrow> s' = s"
  using inj_onD [of sub_addr "set subs" s' s] by (simp add: distinct_map)

lemma list_all2_mem: "list_all2 P xs ys \<Longrightarrow> x \<in> set xs \<Longrightarrow> \<exists>y \<in> set ys. P x y"
  by (induction rule: list_all2_induct) auto

lemma current_is_keeps:
  assumes "distinct (map sub_addr subs)" and "current_is subs a name"
  shows "set_all name {a} subs = subs"
proof -
  obtain s where f: "sub_at subs a = Some s" and c: "sub_CurrentCSV s = name"
    using assms(2) by (cases "sub_at subs a") (simp_all add: current_is_def)
  from find_SomeD [OF f [unfolded sub_at_def]] have s: "s \<in> set subs" "sub_addr s = a" by simp_all
  have "s' = s" if "s' \<in> set subs" "sub_addr s' = a" for s'
    by (rule addr_unique [OF assms(1) s(1) that(1)]) (simp add: that(2) s(2))
  then show ?thesis unfolding set_all_def using c by (intro map_idI) auto
qed

lemma current_is_other:
  assumes "a' \<noteq> a"
  shows "current_is (set_current name a subs) a' name' = current_is subs a' name'"
proof -
  have "sub_at (set_current name a subs) a' = sub_at subs a'"
    unfolding sub_at_def set_current_def using assms by (induction subs) auto
  then show ?thesis by (simp add: current_is_def)
qed

lemma current_is_at:
  assumes "distinct (map sub_addr subs)" and "s \<in> set subs"
  shows "current_is subs (sub_addr s) name \<longleftrightarrow> sub_CurrentCSV s = name"
proof -
  have "sub_at subs (sub_addr s) = Some s" unfolding sub_at_def using assms by (induction subs) auto
  then show ?thesis by (simp add: current_is_def)
qed

lemma update_subscriptions_eq:
  assumes "distinct (map sub_addr (pl_subs p))"
  shows "pl_subs (update_subscriptions name ex p) = set_all name (fst ` set ex) (pl_subs p) \<and>
    pl_steps (update_subscriptions name ex p) = pl_steps p \<and> pl_lookups (update_subscriptions name ex p) = pl_lookups p \<and>
    set (pl_updated p) \<subseteq> set (pl_updated (update_subscriptions name ex p)) \<and>
    (\<forall>a \<in> fst ` set ex. \<not> current_is (pl_subs p) a name \<longrightarrow> a \<in> set (pl_updated (update_subscriptions name ex p)))"
  using assms
proof (induction name ex p rule: update_subscriptions.induct)
  case (2 name a b ex p)
  show ?case
  proof (cases "current_is (pl_subs p) a name")
    case True
    have "set_all name (insert a A) (pl_subs p) = set_all name A (pl_subs p)" for A
      using set_all_simps(2) [of name A "{a}" "pl_subs p"] current_is_keeps [OF "2.prems" True] by simp
    then show ?thesis using "2.IH"(1) [OF True "2.prems"] True by simp
  next
    case False
    let ?p = "p\<lparr>pl_subs := set_current name a (pl_subs p), pl_updated := pl_updated p @ [a]\<rparr>"
    have "map sub_addr (set_current name a (pl_subs p)) = map sub_addr (pl_subs p)"
      using set_all_simps(3) [of name "{a}" "pl_subs p"] by simp
    then have d: "distinct (map sub_addr (pl_subs ?p))" using "2.prems" by simp
    have "set_all name A (set_current name a subs) = set_all name (insert a A) subs" for A subs
      using set_all_simps(2) [of name A "{a}" subs] by (simp add: Un_commute)
    moreover have "a' \<in> set (pl_updated (update_subscriptions name ex ?p))"
      if "a' \<in> fst ` set ex" "\<not> current_is (pl_subs p) a' name" for a'
    proof (cases "a' = a")
      case True
      then show ?thesis using "2.IH"(2) [OF False d] by auto
    next
      case ne: False
      then have "\<not> current_is (pl_subs ?p) a' name" using that(2) current_is_other [OF ne] by simp
      then show ?thesis using "2.IH"(2) [OF False d] that(1) by blast
    qed
    moreover have "update_subscriptions name ((a, b) # ex) p = update_subscriptions name ex ?p" using False by simp
    ultimately show ?thesis using "2.IH"(2) [OF False d] by (simp only:) auto
  qed
qed simp

text \<open>What a plan has for an operator: the steps of its bundle or a lookup, and a subscription when none is there\<close>

definition content_in :: "'r OperatorStepResolver \<Rightarrow> string \<Rightarrow> 'v Entry \<Rightarrow> OperatorSourceInfo \<Rightarrow> plan \<Rightarrow> bool" where
  "content_in r ns op si p \<longleftrightarrow>
     (case e_Bundle op of
        Some b \<Rightarrow> \<exists>bs. NewStepsFromBundle (osr_codecs r) (osr_bundle r b) ns (e_Replaces op)
                    (sk_Name (si_Catalog si)) (sk_Namespace (si_Catalog si)) = Ok bs \<and> set bs \<subseteq> set (pl_steps p)
      | None \<Rightarrow> \<exists>l. lookup_of r op si = Ok l \<and> l \<in> set (pl_lookups p))"

definition subscription_in :: "'r OperatorStepResolver \<Rightarrow> string \<Rightarrow> 'v Entry \<Rightarrow> OperatorSourceInfo \<Rightarrow> plan \<Rightarrow> bool" where
  "subscription_in r ns op si p \<longleftrightarrow>
     (\<exists>res. NewSubscriptionStepResource (osr_codecs r) ns (si\<lparr>si_StartingCSV := e_Name op\<rparr>) = Ok res \<and>
        \<lparr>stp_Resolving = e_Name op, stp_Resource = res, stp_Status = ''Unknown''\<rparr> \<in> set (pl_steps p))"

definition grows :: "plan \<Rightarrow> plan \<Rightarrow> bool" where
  "grows p p' \<longleftrightarrow> set (pl_steps p) \<subseteq> set (pl_steps p') \<and> set (pl_lookups p) \<subseteq> set (pl_lookups p') \<and>
     set (pl_updated p) \<subseteq> set (pl_updated p')"

lemma content_grows: "content_in r ns op si p \<Longrightarrow> grows p p' \<Longrightarrow> content_in r ns op si p'"
  by (fastforce simp: content_in_def grows_def split: option.splits)

lemma subscription_grows: "subscription_in r ns op si p \<Longrightarrow> grows p p' \<Longrightarrow> subscription_in r ns op si p'"
  by (fastforce simp: subscription_in_def grows_def)

lemma add_content_Ok:
  assumes "add_content r ns op si p = Ok p'"
  shows "content_in r ns op si p'" "grows p p'" "pl_subs p' = pl_subs p" "pl_updated p' = pl_updated p"
proof -
  consider b bs where "e_Bundle op = Some b" "NewStepsFromBundle (osr_codecs r) (osr_bundle r b) ns (e_Replaces op)
        (sk_Name (si_Catalog si)) (sk_Namespace (si_Catalog si)) = Ok bs" "p' = p\<lparr>pl_steps := pl_steps p @ bs\<rparr>"
    | l where "e_Bundle op = None" "lookup_of r op si = Ok l" "p' = p\<lparr>pl_lookups := pl_lookups p @ [l]\<rparr>"
    using assms by (auto simp: add_content_def bind_outcome_Ok split: option.splits outcome.splits)
  then show "content_in r ns op si p'" "grows p p'" "pl_subs p' = pl_subs p" "pl_updated p' = pl_updated p"
    by (cases; auto simp: content_in_def grows_def)+
qed

lemma add_subscription_Ok:
  assumes "add_subscription r ns op si ex p = Ok p'"
  shows "ex = [] \<Longrightarrow> subscription_in r ns op si p'" "grows p p'" "pl_subs p' = pl_subs p" "pl_updated p' = pl_updated p"
  using assms by (auto simp: add_subscription_def bind_outcome_Ok subscription_in_def grows_def split: if_splits)

text \<open>One iteration\<close>

lemma add_operator_Ok:
  assumes "add_operator r ns op p = Ok p'" and d: "distinct (map sub_addr (pl_subs p))"
    and range: "\<And>xs. set (osr_range r xs) = set xs"
  shows "\<exists>si. e_SourceInfo op = Some si \<and> grows p p' \<and>
    pl_subs p' = set_all (e_Name op) (sub_addr ` {s \<in> set (pl_subs p). matches_sub si s}) (pl_subs p) \<and>
    (\<forall>s \<in> set (pl_subs p). matches_sub si s \<and> sub_CurrentCSV s \<noteq> e_Name op \<longrightarrow> sub_addr s \<in> set (pl_updated p')) \<and>
    (content_in r ns op si p' \<and> ((\<forall>s \<in> set (pl_subs p). \<not> matches_sub si s) \<longrightarrow> subscription_in r ns op si p') \<or>
     p' = p \<and> (\<exists>s \<in> set (pl_subs p). matches_sub si s) \<and>
       (\<forall>s \<in> set (pl_subs p). matches_sub si s \<longrightarrow> sub_CurrentCSV s = e_Name op \<and> hasExistingCurrentCSV r s = Inr True))"
proof -
  obtain si where si: "e_SourceInfo op = Some si" using assms(1) by (auto simp: add_operator_def split: option.splits)
  obtain ex where ex: "existing_subscriptions r si (pl_subs p) = Inr ex" using assms(1) si by (auto simp: add_operator_def split: sum.splits)
  let ?A = "sub_addr ` {s \<in> set (pl_subs p). matches_sub si s}"
  note A = existing_addrs [OF ex]
  have none: "ex = [] \<longleftrightarrow> (\<forall>s \<in> set (pl_subs p). \<not> matches_sub si s)"
    using list_all2_lengthD [OF existing_subscriptions_eq [OF ex]] by (auto simp: filter_empty_conv)
  show ?thesis
  proof (cases "ex \<noteq> [] \<and> upToDate (pl_subs p) (e_Name op) ex")
    case True
    then have p': "p' = p" using assms(1) si ex by (simp add: add_operator_def)
    have up: "\<forall>s \<in> set (pl_subs p). matches_sub si s \<longrightarrow>
        sub_CurrentCSV s = e_Name op \<and> hasExistingCurrentCSV r s = Inr True"
    proof (intro ballI impI)
      fix s assume s: "s \<in> set (pl_subs p)" "matches_sub si s"
      then have "s \<in> set (filter (matches_sub si) (pl_subs p))" by simp
      from list_all2_mem [OF existing_subscriptions_eq [OF ex] this]
      obtain a b where ab: "(a, b) \<in> set ex" "a = sub_addr s" "hasExistingCurrentCSV r s = Inr b" by auto
      then have c: "b" "current_is (pl_subs p) (sub_addr s) (e_Name op)" using True by (auto simp: upToDate_def list_all_iff)
      have "set_all (e_Name op) {sub_addr s} (pl_subs p) = pl_subs p" by (rule current_is_keeps [OF d c(2)])
      then have "\<forall>x \<in> set (pl_subs p). (if sub_addr x \<in> {sub_addr s} then x\<lparr>sub_CurrentCSV := e_Name op\<rparr> else x) = x"
        using map_eq_conv [of _ "pl_subs p" "\<lambda>s. s"] by (simp add: set_all_def)
      from bspec [OF this s(1)] have "s\<lparr>sub_CurrentCSV := e_Name op\<rparr> = s" by simp
      then have "sub_CurrentCSV (s\<lparr>sub_CurrentCSV := e_Name op\<rparr>) = sub_CurrentCSV s" by (rule arg_cong)
      then show "sub_CurrentCSV s = e_Name op \<and> hasExistingCurrentCSV r s = Inr True" using ab(3) c(1) by simp
    qed
    have "set_all (e_Name op) ?A (pl_subs p) = pl_subs p"
      unfolding set_all_def
    proof (rule map_idI)
      fix s assume s: "s \<in> set (pl_subs p)"
      have "s' = s" if "s' \<in> set (pl_subs p)" "sub_addr s' = sub_addr s" for s' by (rule addr_unique [OF d s that])
      then show "(if sub_addr s \<in> ?A then s\<lparr>sub_CurrentCSV := e_Name op\<rparr> else s) = s" using up s by auto
    qed
    then show ?thesis using si up p' True none by (intro exI [of _ si]) (auto simp: grows_def)
  next
    case False
    then obtain p1 p2 where p: "add_content r ns op si p = Ok p1" "add_subscription r ns op si ex p1 = Ok p2"
        "p' = update_subscriptions (e_Name op) (osr_range r ex) p2"
      using assms(1) si ex by (auto simp: add_operator_def bind_outcome_Ok)
    note c = add_content_Ok [OF p(1)] and s = add_subscription_Ok [OF p(2)]
    have "distinct (map sub_addr (pl_subs p2))" using d c(3) s(3) by simp
    from update_subscriptions_eq [OF this, of "e_Name op" "osr_range r ex"]
    have u: "pl_subs p' = set_all (e_Name op) ?A (pl_subs p)" "pl_steps p' = pl_steps p2" "pl_lookups p' = pl_lookups p2"
        "set (pl_updated p2) \<subseteq> set (pl_updated p')" "\<forall>a \<in> ?A. \<not> current_is (pl_subs p) a (e_Name op) \<longrightarrow> a \<in> set (pl_updated p')"
      using c(3) s(3) by (simp_all add: p(3) range A)
    have g: "grows p2 p'" "grows p1 p'" "grows p p'" using u c(2) s(2) by (auto simp: grows_def)
    have "content_in r ns op si p'" using content_grows [OF c(1) g(2)] .
    moreover have "ex = [] \<Longrightarrow> subscription_in r ns op si p'" using subscription_grows [OF s(1) g(1)] by simp
    moreover have "\<forall>s \<in> set (pl_subs p). matches_sub si s \<and> sub_CurrentCSV s \<noteq> e_Name op \<longrightarrow> sub_addr s \<in> set (pl_updated p')"
      using u(5) current_is_at [OF d] by simp
    ultimately show ?thesis using si g(3) u(1) none by (intro exI [of _ si]) simp
  qed
qed

lemma set_all_other:
  assumes d: "distinct (map sub_addr subs)" and "si_Package si' \<noteq> si_Package si"
  shows "filter (matches_sub si') (set_all name (sub_addr ` {s \<in> set subs. matches_sub si s}) subs) = filter (matches_sub si') subs"
proof -
  let ?A = "sub_addr ` {s \<in> set subs. matches_sub si s}"
  let ?f = "\<lambda>s. if sub_addr s \<in> ?A then s\<lparr>sub_CurrentCSV := name\<rparr> else s"
  have eq: "matches_sub si' \<circ> ?f = matches_sub si'"
  proof
    fix s show "(matches_sub si' \<circ> ?f) s = matches_sub si' s" unfolding comp_def by (rule matches_spec) simp
  qed
  have "?f s = s" if s: "s \<in> set (filter (matches_sub si') subs)" for s
  proof -
    have "\<not> matches_sub si s" using s assms(2) by (auto simp: matches_sub_def)
    then have "sub_addr s \<notin> ?A" using addr_unique [OF d, of s] s by auto
    then show ?thesis by simp
  qed
  then have "map ?f (filter (matches_sub si') subs) = filter (matches_sub si') subs" by (rule map_idI)
  then show ?thesis unfolding set_all_def filter_map eq .
qed

text \<open>
  An operator is carried out: afterwards its subscriptions have it as their current CSV, those that had another one
  are among the updated ones, and the plan has its content, or it was the current CSV of all of them, and there.
\<close>

definition carried_out ::
    "'r OperatorStepResolver \<Rightarrow> string \<Rightarrow> Subscription list \<Rightarrow> plan \<Rightarrow> 'v Entry \<Rightarrow> OperatorSourceInfo \<Rightarrow> bool" where
  "carried_out r ns subs p op si \<longleftrightarrow>
     (\<forall>s \<in> set (filter (matches_sub si) (pl_subs p)). sub_CurrentCSV s = e_Name op) \<and>
     (\<forall>s \<in> set (filter (matches_sub si) subs). sub_CurrentCSV s \<noteq> e_Name op \<longrightarrow> sub_addr s \<in> set (pl_updated p)) \<and>
     (content_in r ns op si p \<and> (filter (matches_sub si) subs = [] \<longrightarrow> subscription_in r ns op si p) \<or>
      filter (matches_sub si) subs \<noteq> [] \<and> (\<forall>s \<in> set (filter (matches_sub si) subs).
        sub_CurrentCSV s = e_Name op \<and> osr_csv r (sub_Namespace s) (e_Name op) = Inr True))"

lemma add_operator_carried_out:
  assumes a: "add_operator r ns op p = Ok p'" and d: "distinct (map sub_addr (pl_subs p))"
    and range: "\<And>xs. set (osr_range r xs) = set xs"
  shows "\<exists>si. e_SourceInfo op = Some si \<and> grows p p' \<and> map spec_of (pl_subs p') = map spec_of (pl_subs p) \<and>
    carried_out r ns (pl_subs p) p' op si \<and>
    (\<forall>si'. si_Package si' \<noteq> si_Package si \<longrightarrow> filter (matches_sub si') (pl_subs p') = filter (matches_sub si') (pl_subs p))"
proof -
  let ?A = "\<lambda>si. sub_addr ` {s \<in> set (pl_subs p). matches_sub si s}"
  obtain si where si: "e_SourceInfo op = Some si" "grows p p'" "pl_subs p' = set_all (e_Name op) (?A si) (pl_subs p)"
    and upd: "\<forall>s \<in> set (pl_subs p). matches_sub si s \<and> sub_CurrentCSV s \<noteq> e_Name op \<longrightarrow> sub_addr s \<in> set (pl_updated p')"
    and cont: "content_in r ns op si p' \<and> ((\<forall>s \<in> set (pl_subs p). \<not> matches_sub si s) \<longrightarrow> subscription_in r ns op si p') \<or>
     p' = p \<and> (\<exists>s \<in> set (pl_subs p). matches_sub si s) \<and>
       (\<forall>s \<in> set (pl_subs p). matches_sub si s \<longrightarrow> sub_CurrentCSV s = e_Name op \<and> hasExistingCurrentCSV r s = Inr True)"
    using add_operator_Ok [OF a d range] by (elim exE conjE) (rule that)
  have "sub_CurrentCSV s = e_Name op" if st: "s \<in> set (pl_subs p')" "matches_sub si s" for s
  proof -
    obtain s0 where s0: "s0 \<in> set (pl_subs p)" "s = (if sub_addr s0 \<in> ?A si then s0\<lparr>sub_CurrentCSV := e_Name op\<rparr> else s0)"
      using st(1) unfolding si(3) set_all_def by auto
    have "matches_sub si s0 = matches_sub si s" by (rule matches_spec) (simp add: s0(2))
    then have "sub_addr s0 \<in> ?A si" using s0(1) st(2) by simp
    then show ?thesis using s0(2) by simp
  qed
  moreover have "osr_csv r (sub_Namespace s) (e_Name op) = Inr True"
    if "sub_CurrentCSV s = e_Name op" "hasExistingCurrentCSV r s = Inr True" for s
    using that by (simp add: hasExistingCurrentCSV_def split: if_splits)
  ultimately have "carried_out r ns (pl_subs p) p' op si"
    using upd cont by (simp add: carried_out_def filter_empty_conv) blast
  then show ?thesis using si set_all_other [OF d] by (intro exI [of _ si]) simp
qed

lemma carried_out_grows:
  assumes "carried_out r ns subs p op si" and "grows p p'"
    and "filter (matches_sub si) (pl_subs p') = filter (matches_sub si) (pl_subs p)"
  shows "carried_out r ns subs p' op si"
  using assms content_grows [of r ns op si p p'] subscription_grows [of r ns op si p p']
  unfolding carried_out_def assms(3) by (auto simp: grows_def simp del: set_filter)

lemma plan_grows_trans: "grows p q \<Longrightarrow> grows q p' \<Longrightarrow> grows p p'"
  by (auto simp: grows_def)

lemma add_all_carried_out:
  assumes "add_all (add_operator r ns) ops p = Ok p'" and "distinct (map sub_addr (pl_subs p))"
    and range: "\<And>xs. set (osr_range r xs) = set xs" and "distinct (map Entry_Package ops)"
  shows "grows p p' \<and> map spec_of (pl_subs p') = map spec_of (pl_subs p) \<and>
    (\<forall>op \<in> set ops. \<exists>si. e_SourceInfo op = Some si \<and> carried_out r ns (pl_subs p) p' op si) \<and>
    (\<forall>si. si_Package si \<notin> Entry_Package ` set ops \<longrightarrow> filter (matches_sub si) (pl_subs p') = filter (matches_sub si) (pl_subs p))"
  using assms(1,2,4)
proof (induction ops arbitrary: p)
  case Nil
  then show ?case by (simp add: grows_def)
next
  case (Cons op ops)
  obtain q where q: "add_operator r ns op p = Ok q" "add_all (add_operator r ns) ops q = Ok p'"
    using Cons.prems(1) by (auto simp: bind_outcome_Ok)
  obtain si where si: "e_SourceInfo op = Some si" "grows p q" "map spec_of (pl_subs q) = map spec_of (pl_subs p)"
      "carried_out r ns (pl_subs p) q op si"
      "\<forall>si'. si_Package si' \<noteq> si_Package si \<longrightarrow> filter (matches_sub si') (pl_subs q) = filter (matches_sub si') (pl_subs p)"
    using add_operator_carried_out [OF q(1) Cons.prems(2) range] by (elim exE conjE) (rule that)
  have pkg: "Entry_Package op = si_Package si" by (simp add: Entry_Package_def si(1))
  have "map sub_addr (pl_subs q) = map sub_addr (pl_subs p)" using arg_cong [OF si(3), of "map sub_addr"] by (simp add: comp_def)
  then have d: "distinct (map sub_addr (pl_subs q))" using Cons.prems(2) by simp
  note IH = Cons.IH [OF q(2) d]
  have dist: "distinct (map Entry_Package ops)" and new: "si_Package si \<notin> Entry_Package ` set ops"
    using Cons.prems(3) pkg by auto
  have "carried_out r ns (pl_subs p) p' op si"
    by (rule carried_out_grows [OF si(4)]) (use IH [OF dist] new in simp_all)
  moreover have "carried_out r ns (pl_subs p) p' op' si'"
    if "op' \<in> set ops" "e_SourceInfo op' = Some si'" "carried_out r ns (pl_subs q) p' op' si'" for op' si'
  proof -
    have "si_Package si' \<noteq> si_Package si" using that(1,2) new by (force simp: Entry_Package_def)
    then show ?thesis using that(3) si(5) by (simp add: carried_out_def)
  qed
  ultimately have all: "\<forall>o' \<in> set (op # ops). \<exists>si. e_SourceInfo o' = Some si \<and> carried_out r ns (pl_subs p) p' o' si"
    using IH [OF dist] si(1) by (metis set_ConsD)
  have "\<forall>si'. si_Package si' \<notin> Entry_Package ` set (op # ops) \<longrightarrow>
      filter (matches_sub si') (pl_subs p') = filter (matches_sub si') (pl_subs p)"
    using IH [OF dist] si(5) pkg by simp
  with all show ?case using IH [OF dist] si(2,3) plan_grows_trans [of p q p'] by simp
qed

lemma carried_out_ordered: "carried_out r ns subs (p\<lparr>pl_steps := OrderSteps (pl_steps p)\<rparr>) op si = carried_out r ns subs p op si"
proof -
  have "set (OrderSteps xs) = set xs" for xs by (simp add: OrderSteps_sort)
  then show ?thesis by (simp add: carried_out_def content_in_def subscription_in_def split: option.split)
qed

text \<open>
  What becomes of the subscriptions. The first resolved operator that a subscription asks for becomes its current CSV;
  a subscription that asks for none is left alone.
\<close>

definition resolved_for :: "'v Entry list \<Rightarrow> Subscription \<Rightarrow> 'v Entry option" where
  "resolved_for ops s = find (\<lambda>op. case e_SourceInfo op of None \<Rightarrow> False | Some si \<Rightarrow> matches_sub si s) ops"

definition resolved_sub :: "'v Entry list \<Rightarrow> Subscription \<Rightarrow> Subscription" where
  "resolved_sub ops s = (case resolved_for ops s of None \<Rightarrow> s | Some op \<Rightarrow> s\<lparr>sub_CurrentCSV := e_Name op\<rparr>)"

lemma update_subscriptions_updated:
  assumes "distinct (map sub_addr (pl_subs p))" and "fst ` set ex \<subseteq> sub_addr ` set (pl_subs p)"
  shows "\<exists>us. pl_updated (update_subscriptions name ex p) = pl_updated p @ us \<and> distinct us \<and>
    set us = {a \<in> fst ` set ex. \<not> current_is (pl_subs p) a name}"
  using assms
proof (induction name ex p rule: update_subscriptions.induct)
  case (2 name a b ex p)
  show ?case
  proof (cases "current_is (pl_subs p) a name")
    case True
    then show ?thesis using "2.IH"(1) [OF True "2.prems"(1)] "2.prems"(2) by auto
  next
    case False
    let ?p = "p\<lparr>pl_subs := set_current name a (pl_subs p), pl_updated := pl_updated p @ [a]\<rparr>"
    have m: "map sub_addr (pl_subs ?p) = map sub_addr (pl_subs p)"
      using set_all_simps(3) [of name "{a}" "pl_subs p"] by simp
    then have d: "distinct (map sub_addr (pl_subs ?p))" using "2.prems"(1) by simp
    have ex: "fst ` set ex \<subseteq> sub_addr ` set (pl_subs ?p)"
      using "2.prems"(2) arg_cong [OF m, of set] unfolding set_map by auto
    obtain us where us: "pl_updated (update_subscriptions name ex ?p) = pl_updated ?p @ us" "distinct us"
        "set us = {a' \<in> fst ` set ex. \<not> current_is (pl_subs ?p) a' name}"
      using "2.IH"(2) [OF False d ex] by blast
    obtain s where s: "s \<in> set (pl_subs p)" "sub_addr s = a" using "2.prems"(2) by auto
    then have "s\<lparr>sub_CurrentCSV := name\<rparr> \<in> set (pl_subs ?p)" by (force simp: set_current_def)
    from current_is_at [OF d this, of name] have cur: "current_is (pl_subs ?p) a name" by (simp add: s(2))
    have iff: "current_is (pl_subs ?p) a' name \<longleftrightarrow> a' = a \<or> current_is (pl_subs p) a' name" for a'
      using cur current_is_other [of a' a name "pl_subs p" name] by (cases "a' = a") simp_all
    have "set (a # us) = {a' \<in> fst ` set ((a, b) # ex). \<not> current_is (pl_subs p) a' name}"
      using False unfolding set_simps us(3) iff by auto
    moreover have "distinct (a # us)" using us(2,3) cur by simp
    moreover have "pl_updated (update_subscriptions name ((a, b) # ex) p) = pl_updated p @ (a # us)"
      using False us(1) by simp
    ultimately show ?thesis by blast
  qed
qed simp

lemma add_operator_updated:
  assumes "add_operator r ns op p = Ok p'" and d: "distinct (map sub_addr (pl_subs p))"
    and range: "\<And>xs. set (osr_range r xs) = set xs" and si: "e_SourceInfo op = Some si"
  shows "\<exists>us. pl_updated p' = pl_updated p @ us \<and> distinct us \<and>
    set us = sub_addr ` {s \<in> set (pl_subs p). matches_sub si s \<and> sub_CurrentCSV s \<noteq> e_Name op}"
proof -
  obtain ex where ex: "existing_subscriptions r si (pl_subs p) = Inr ex"
    using assms(1) si by (auto simp: add_operator_def split: sum.splits)
  let ?new = "sub_addr ` {s \<in> set (pl_subs p). matches_sub si s \<and> sub_CurrentCSV s \<noteq> e_Name op}"
  have new: "{a \<in> fst ` set ex. \<not> current_is (pl_subs p) a (e_Name op)} = ?new"
    unfolding existing_addrs [OF ex] using current_is_at [OF d] by auto
  show ?thesis
  proof (cases "ex \<noteq> [] \<and> upToDate (pl_subs p) (e_Name op) ex")
    case True
    then have "{a \<in> fst ` set ex. \<not> current_is (pl_subs p) a (e_Name op)} = {}" by (auto simp: upToDate_def list_all_iff)
    then show ?thesis using assms(1) si ex True new by (simp add: add_operator_def)
  next
    case False
    then obtain p1 p2 where p: "add_content r ns op si p = Ok p1" "add_subscription r ns op si ex p1 = Ok p2"
        "p' = update_subscriptions (e_Name op) (osr_range r ex) p2"
      using assms(1) si ex by (auto simp: add_operator_def bind_outcome_Ok)
    have same: "pl_subs p2 = pl_subs p" "pl_updated p2 = pl_updated p"
      using add_content_Ok(3,4) [OF p(1)] add_subscription_Ok(3,4) [OF p(2)] by simp_all
    have "fst ` set (osr_range r ex) \<subseteq> sub_addr ` set (pl_subs p2)"
      unfolding range existing_addrs [OF ex] same by blast
    from update_subscriptions_updated [OF _ this, of "e_Name op"] show ?thesis
      using d new unfolding p(3) same range by simp
  qed
qed

lemma resolved_sub_Cons:
  assumes "e_SourceInfo op = Some si"
  shows "resolved_sub (op # ops) s = (if matches_sub si s then s\<lparr>sub_CurrentCSV := e_Name op\<rparr> else resolved_sub ops s)"
  using assms by (simp add: resolved_sub_def resolved_for_def)

lemma resolved_sub_other:
  assumes "sub_Package s \<notin> Entry_Package ` set ops"
  shows "resolved_sub ops s = s"
proof -
  have "resolved_for ops s = None"
    unfolding resolved_for_def find_None_iff using assms
    by (force simp: matches_sub_def Entry_Package_def split: option.splits)
  then show ?thesis by (simp add: resolved_sub_def)
qed

lemma resolved_sub_addr [simp]: "sub_addr (resolved_sub ops s) = sub_addr s"
  by (simp add: resolved_sub_def split: option.split)

definition set_matching :: "OperatorSourceInfo \<Rightarrow> string \<Rightarrow> Subscription \<Rightarrow> Subscription" where
  "set_matching si name s = (if matches_sub si s then s\<lparr>sub_CurrentCSV := name\<rparr> else s)"

lemma set_matching_addr [simp]: "sub_addr (set_matching si name s) = sub_addr s"
  by (simp add: set_matching_def)

lemma set_all_matching:
  assumes "distinct (map sub_addr subs)"
  shows "set_all name (sub_addr ` {s \<in> set subs. matches_sub si s}) subs = map (set_matching si name) subs"
proof -
  have inj: "inj_on sub_addr (set subs)" using assms by (simp add: distinct_map)
  have "sub_addr s \<in> sub_addr ` {s \<in> set subs. matches_sub si s} \<longleftrightarrow> matches_sub si s" if "s \<in> set subs" for s
    using inj_on_image_mem_iff [OF inj that, of "{s \<in> set subs. matches_sub si s}"] that by simp
  then show ?thesis unfolding set_all_def set_matching_def by (intro map_cong refl) simp
qed

text \<open>With one operator for a package the operators that follow do not touch its subscriptions.\<close>

lemma resolved_sub_later:
  assumes "e_SourceInfo op = Some si" and "distinct (map Entry_Package (op # ops))"
  shows "resolved_sub ops (set_matching si (e_Name op) s) =
    (if matches_sub si s then set_matching si (e_Name op) s else resolved_sub ops s)"
proof (cases "matches_sub si s")
  case True
  then have "sub_Package (set_matching si (e_Name op) s) = Entry_Package op"
    by (simp add: set_matching_def matches_sub_def Entry_Package_def assms(1))
  then have "sub_Package (set_matching si (e_Name op) s) \<notin> Entry_Package ` set ops" using assms(2) by simp
  then show ?thesis using True resolved_sub_other by simp
qed (simp add: set_matching_def)

lemma resolved_sub_step:
  assumes "e_SourceInfo op = Some si" and "distinct (map Entry_Package (op # ops))"
  shows "resolved_sub ops (set_matching si (e_Name op) s) = resolved_sub (op # ops) s"
  unfolding resolved_sub_later [OF assms] resolved_sub_Cons [OF assms(1)] by (simp add: set_matching_def)

abbreviation changed_by :: "'v Entry list \<Rightarrow> Subscription list \<Rightarrow> Subscription set" where
  "changed_by ops subs \<equiv> {s \<in> set subs. sub_CurrentCSV (resolved_sub ops s) \<noteq> sub_CurrentCSV s}"

lemma changed_later:
  assumes "e_SourceInfo op = Some si" and "distinct (map Entry_Package (op # ops))"
  shows "sub_addr ` changed_by ops (map (set_matching si (e_Name op)) subs) =
    sub_addr ` {s \<in> changed_by ops subs. \<not> matches_sub si s}"
proof -
  let ?f = "set_matching si (e_Name op)"
  have "changed_by ops (map ?f subs) = ?f ` {s \<in> set subs. sub_CurrentCSV (resolved_sub ops (?f s)) \<noteq> sub_CurrentCSV (?f s)}" by auto
  also have "{s \<in> set subs. sub_CurrentCSV (resolved_sub ops (?f s)) \<noteq> sub_CurrentCSV (?f s)} =
      {s \<in> changed_by ops subs. \<not> matches_sub si s}"
    unfolding resolved_sub_later [OF assms] by (auto simp: set_matching_def)
  finally show ?thesis by (simp add: image_image)
qed

lemma changed_Cons:
  assumes "e_SourceInfo op = Some si"
  shows "changed_by (op # ops) subs = {s \<in> set subs. matches_sub si s \<and> sub_CurrentCSV s \<noteq> e_Name op} \<union>
    {s \<in> changed_by ops subs. \<not> matches_sub si s}"
  unfolding resolved_sub_Cons [OF assms] by auto

lemma add_all_subs:
  assumes "add_all (add_operator r ns) ops p = Ok p'" and "distinct (map sub_addr (pl_subs p))"
    and range: "\<And>xs. set (osr_range r xs) = set xs" and "distinct (map Entry_Package ops)"
  shows "pl_subs p' = map (resolved_sub ops) (pl_subs p) \<and>
    (\<exists>us. pl_updated p' = pl_updated p @ us \<and> distinct us \<and> set us = sub_addr ` changed_by ops (pl_subs p))"
  using assms(1,2,4)
proof (induction ops arbitrary: p)
  case Nil
  then show ?case by (simp add: resolved_sub_def resolved_for_def)
next
  case (Cons op ops)
  obtain q where q: "add_operator r ns op p = Ok q" "add_all (add_operator r ns) ops q = Ok p'"
    using Cons.prems(1) by (auto simp: bind_outcome_Ok)
  obtain si where si: "e_SourceInfo op = Some si"
      "pl_subs q = set_all (e_Name op) (sub_addr ` {s \<in> set (pl_subs p). matches_sub si s}) (pl_subs p)"
    using add_operator_Ok [OF q(1) Cons.prems(2) range] by (elim exE conjE) (rule that)
  note subs = si(2) [unfolded set_all_matching [OF Cons.prems(2)]]
  have d: "distinct (map sub_addr (pl_subs q))" using Cons.prems(2) by (simp add: subs comp_def)
  have IH: "pl_subs p' = map (resolved_sub ops) (pl_subs q)"
      "\<exists>vs. pl_updated p' = pl_updated q @ vs \<and> distinct vs \<and> set vs = sub_addr ` changed_by ops (pl_subs q)"
    using Cons.IH [OF q(2) d] Cons.prems(3) by simp_all
  obtain us where us: "pl_updated q = pl_updated p @ us" "distinct us"
      "set us = sub_addr ` {s \<in> set (pl_subs p). matches_sub si s \<and> sub_CurrentCSV s \<noteq> e_Name op}"
    using add_operator_updated [OF q(1) Cons.prems(2) range si(1)] by (elim exE conjE) (rule that)
  obtain vs where vs: "pl_updated p' = pl_updated q @ vs" "distinct vs"
      "set vs = sub_addr ` {s \<in> changed_by ops (pl_subs p). \<not> matches_sub si s}"
    using IH(2) unfolding subs changed_later [OF si(1) Cons.prems(3)] by (elim exE conjE) (rule that)
  have inj: "inj_on sub_addr (set (pl_subs p))" using Cons.prems(2) by (simp add: distinct_map)
  have "set us \<inter> set vs = sub_addr ` {}"
    unfolding us(3) vs(3) by (subst inj_on_image_Int [OF inj, symmetric]) auto
  then have "distinct (us @ vs)" using us(2) vs(2) by simp
  moreover have "set (us @ vs) = sub_addr ` changed_by (op # ops) (pl_subs p)"
    unfolding changed_Cons [OF si(1)] set_append us(3) vs(3) image_Un ..
  moreover have "pl_updated p' = pl_updated p @ (us @ vs)" by (simp add: vs(1) us(1))
  moreover have "pl_subs p' = map (resolved_sub (op # ops)) (pl_subs p)"
    by (simp add: IH(1) subs resolved_sub_step [OF si(1) Cons.prems(3)])
  ultimately show ?case by blast
qed

text \<open>The operators are all there: nothing to do\<close>

lemma add_operator_current:
  assumes "e_SourceInfo op = Some si" and "\<exists>s \<in> set (pl_subs p). matches_sub si s" and d: "distinct (map sub_addr (pl_subs p))"
    and up: "\<forall>s \<in> set (pl_subs p). matches_sub si s \<longrightarrow> sub_CurrentCSV s = e_Name op \<and> hasExistingCurrentCSV r s = Inr True"
  shows "add_operator r ns op p = Ok p"
proof -
  have "existing_subscriptions r si subs = Inr (map (\<lambda>s. (sub_addr s, True)) (filter (matches_sub si) subs))"
    if "set subs \<subseteq> set (pl_subs p)" for subs
    using that up by (induction subs) auto
  from this [of "pl_subs p"] have ex: "existing_subscriptions r si (pl_subs p) =
      Inr (map (\<lambda>s. (sub_addr s, True)) (filter (matches_sub si) (pl_subs p)))" by simp
  have "upToDate (pl_subs p) (e_Name op) (map (\<lambda>s. (sub_addr s, True)) (filter (matches_sub si) (pl_subs p)))"
    using up current_is_at [OF d] by (auto simp: upToDate_def list_all_iff)
  moreover have "filter (matches_sub si) (pl_subs p) \<noteq> []" using assms(2) by (simp add: filter_empty_conv)
  ultimately show ?thesis using assms(1) ex by (simp add: add_operator_def)
qed

lemma add_all_current:
  "(\<And>op. op \<in> set ops \<Longrightarrow> add_operator r ns op p = Ok p) \<Longrightarrow> add_all (add_operator r ns) ops p = Ok p"
  by (induction ops) auto

end
