(* ===== verification/Bundle_Closure.thy ===== *)
theory Bundle_Closure
  imports Bundle_Variables
begin

text \<open>
  What \<^verbatim>\<open>getBundleVariables\<close> leaves behind: every variable it returns belongs to a visited entry, has the
  identifier of that entry, refers only to identifiers of variables that are known, and has for each
  dependency of the entry a constraint on bundles that satisfy it. It never dereferences a nil pointer
  when the entries of the finder have their source.
\<close>

subsection \<open>Finders over sourced entries\<close>

text \<open>The maps of the finder are coherent, its entries have a source, and addresses are pointers.\<close>

definition good_finder :: "'v finder \<Rightarrow> bool" where
  "good_finder F \<longleftrightarrow> wf_map (f_headers F) (f_map F) \<and> all_sourced (f_headers F) \<and> inj_on e_addr (pool F)"

lemma pool_sourced: "good_finder F \<Longrightarrow> e \<in> pool F \<Longrightarrow> sourced e"
  by (fastforce simp: good_finder_def pool_def all_sourced_def wf_map_def)

lemma pool_header: "(k, a) \<in> set (f_map F) \<Longrightarrow> set (hdr_entries (f_headers F ! a)) \<subseteq> pool F"
  by (auto simp: pool_def)

lemma f_FindPreferred_good:
  assumes "good_finder F"
  shows "\<exists>es. f_FindPreferred L F k ns ps = Some es \<and> set es = {e \<in> pool F. passes L ps e}"
proof -
  have g: "all_sourced (f_headers F)" "wf_map (f_headers F) (f_map F)" using assms by (auto simp: good_finder_def)
  let ?hs = "sorted_snapshots (f_headers F) (f_map F) (preferred_key (Some k)) ns"
  have "set (concat (map hdr_entries ?hs)) = pool F"
    by (auto simp: sorted_snapshots_def pool_def)
  then show ?thesis using FindPreferred_sat [OF g, of L "Some k" ns ps "\<lambda>_. 0"]
    by (auto simp: f_FindPreferred_def)
qed

lemma f_Find_good:
  assumes "good_finder F"
  shows "\<exists>es. f_Find L F ps = Some es \<and> set es = {e \<in> pool F. passes L ps e}"
proof -
  have g: "all_sourced (f_headers F)" "wf_map (f_headers F) (f_map F)" using assms by (auto simp: good_finder_def)
  let ?hs = "sorted_snapshots (f_headers F) (f_map F) (preferred_key None) ''''"
  have "set (concat (map hdr_entries ?hs)) = pool F"
    by (auto simp: sorted_snapshots_def pool_def)
  then show ?thesis using FindPreferred_sat [OF g, of L None "''''" ps "\<lambda>_. 0"]
    by (auto simp: f_Find_def Find_def)
qed

text \<open>The entries of a catalog; every catalog for the empty key\<close>

definition catalog_entries :: "'v finder \<Rightarrow> SourceKey \<Rightarrow> 'v Entry set" where
  "catalog_entries F k =
     (if SourceKey_Empty k then pool F
      else case map_of (f_map F) k of Some a \<Rightarrow> set (hdr_entries (f_headers F ! a)) | None \<Rightarrow> {})"

lemma catalog_entries_pool: "catalog_entries F k \<subseteq> pool F"
  by (auto simp: catalog_entries_def pool_def split: option.splits dest: map_of_SomeD)

lemma Catalog_Find_good:
  assumes "good_finder F"
  shows "\<exists>es n'. Catalog_Find L (f_headers F) (f_map F) k ps n = Some (es, n') \<and>
    set es = {e \<in> catalog_entries F k. passes L ps e}"
proof (cases "SourceKey_Empty k")
  case True
  have g: "all_sourced (f_headers F)" "wf_map (f_headers F) (f_map F)" using assms by (auto simp: good_finder_def)
  let ?hs = "sorted_snapshots (f_headers F) (f_map F) (preferred_key None) ''''"
  have "set (concat (map hdr_entries ?hs)) = pool F"
    by (auto simp: sorted_snapshots_def pool_def)
  then show ?thesis using True FindPreferred_sat [OF g, of L None "''''" ps n]
    by (auto simp: Catalog_Find_def Find_def catalog_entries_def)
next
  case False
  show ?thesis
  proof (cases "map_of (f_map F) k")
    case None
    then show ?thesis using False by (simp add: Catalog_Find_def catalog_entries_def)
  next
    case (Some a)
    have "\<forall>e \<in> set (hdr_entries (f_headers F ! a)). sourced e"
      using pool_header [OF map_of_SomeD [OF Some]] pool_sourced [OF assms] by blast
    from hdr_Find_sat [OF this, of L ps n] show ?thesis
      using False Some by (auto simp: Catalog_Find_def catalog_entries_def)
  qed
qed

lemma f_Catalog_good:
  assumes "good_finder F"
  shows "\<exists>es. f_Catalog L F k ps = Some es \<and> set es = {e \<in> catalog_entries F k. passes L ps e}"
  using Catalog_Find_good [OF assms, of L k ps "\<lambda>_. 0"] by (auto simp: f_Catalog_def)

lemma f_Filter_good:
  "\<forall>e \<in> set es. sourced e \<Longrightarrow> f_Filter L es ps = Some (filter (passes L ps) es)"
  using Filter_sat [of es L ps "\<lambda>_. 0"] by (auto simp: f_Filter_def)

subsection \<open>Nothing panics\<close>

lemma sortChannel_no_panic: "sortChannel bs \<noteq> Inl Panic"
  by (auto simp: sortChannel_def Let_def split: sum.splits)

lemma sort_channels_no_panic: "sort_channels cs \<noteq> Inl Panic"
proof (induction cs)
  case (Cons c cs)
  then show ?case using sortChannel_no_panic by (cases c) (auto simp: map_sum_def split: sum.splits)
qed simp

lemma sort_catalogs_no_panic: "sort_catalogs parts \<noteq> Inl Panic"
proof (induction parts)
  case (Cons p parts)
  then show ?case using sort_channels_no_panic by (cases p) (auto simp: map_sum_def split: sum.splits)
qed simp

lemma partition_bundles_sourced:
  "\<forall>b \<in> set bs. sourced b \<Longrightarrow> \<exists>parts'. partition_bundles bs parts = Inr parts'"
  by (induction bs arbitrary: parts) (auto simp: sourced_def)

lemma sortBundles_no_panic: "\<forall>b \<in> set bs. sourced b \<Longrightarrow> sortBundles bs \<noteq> Inl Panic"
  using partition_bundles_sourced [of bs "[]"] by (auto simp: sortBundles_def sort_catalogs_no_panic)

lemma sourcePredicate_sourced:
  "\<forall>b \<in> set bs. sourced b \<Longrightarrow> \<exists>q. sourcePredicate bs sources p = Some q"
proof (induction bs arbitrary: sources p)
  case (Cons b bs)
  then show ?case by (cases "e_SourceInfo b") (auto simp: sourced_def)
qed simp

lemma dependency_bundles_good:
  fixes r :: "('v, 'p) Resolver"
  assumes "good_finder F" and "sourced bundle"
  shows "case dependency_bundles r F ns bundle d of
      Inl err \<Rightarrow> err \<noteq> Panic
    | Inr bs \<Rightarrow> \<forall>b \<in> set bs. b \<in> pool F \<and> sat (r_libs r) d b"
proof -
  let ?L = "r_libs r"
  obtain si where si: "e_SourceInfo bundle = Some si" using assms(2) by (auto simp: sourced_def)
  obtain es where es: "f_Find ?L F [d] = Some es" "set es = {e \<in> pool F. passes ?L [d] e}"
    using f_Find_good [OF assms(1), of ?L "[d]"] by blast
  then obtain q :: "('v, 'p) Predicate" where q: "sourcePredicate es [] (booleanPredicate False) = Some q"
    using sourcePredicate_sourced pool_sourced [OF assms(1)] by fastforce
  obtain fs where fs: "f_FindPreferred ?L F (si_Catalog si) ns [q] = Some fs" "set fs \<subseteq> pool F"
    using f_FindPreferred_good [OF assms(1), of ?L "si_Catalog si" ns "[q]"] by blast
  then have src: "\<forall>b \<in> set fs. sourced b" using pool_sourced [OF assms(1)] by blast
  show ?thesis
  proof (cases "sortBundles fs")
    case (Inl err)
    then show ?thesis using sortBundles_no_panic [OF src] es(1) q fs(1) si
      by (auto simp: dependency_bundles_def)
  next
    case (Inr bs)
    then have bs: "set bs \<subseteq> set fs" by (rule sortBundles_subset)
    then have "f_Filter ?L bs [d] = Some (filter (passes ?L [d]) bs)" using src by (intro f_Filter_good) blast
    then show ?thesis using bs fs es(1) q si Inr by (auto simp: dependency_bundles_def)
  qed
qed

lemma add_dependencies_no_panic:
  "good_finder F \<Longrightarrow> sourced bundle \<Longrightarrow> \<exists>st'. add_dependencies r F ns bundle a ds st = Inr st'"
proof (induction ds arbitrary: st)
  case (Cons d ds)
  then show ?case using dependency_bundles_good [where r = r and ns = ns and d = d, OF Cons.prems]
    by (auto simp: case_prod_beta' Let_def split: sum.splits)
qed simp

lemma bundle_step_no_panic:
  assumes "good_finder F" and "set (g_stack st) \<subseteq> pool F" and "g_stack st \<noteq> []"
  shows "\<exists>st'. bundle_step r F ns st = Inr st' \<and> set (g_stack st') \<subseteq> pool F"
proof -
  have "sourced (last (g_stack st))" using assms pool_sourced by (metis last_in_set subsetD)
  note nd = add_dependencies_no_panic [OF assms(1) this]
  have bl: "set (butlast (g_stack st)) \<subseteq> pool F" using assms(2) by (meson in_set_butlastD subset_iff)
  obtain st' where st': "bundle_step r F ns st = Inr st'"
  proof (cases "map_of (g_visited st) (e_addr (last (g_stack st)))")
    case (Some b)
    then show ?thesis using that by (simp add: bundle_step_def)
  next
    case None
    note n = None
    show ?thesis
    proof (cases "newBundleVariableFromEntry r (last (g_stack st))")
      case (Inl err)
      then show ?thesis using n that by (simp add: bundle_step_def)
    next
      case (Inr bv)
      note bv = Inr
      show ?thesis
      proof (cases "convertDependencyProperties (r_libs r) (e_Properties (last (g_stack st)))")
        case (Inl err)
        then show ?thesis using n bv that by (simp add: bundle_step_def Let_def)
      next
        case (Inr ds)
        obtain st1 where "add_dependencies r F ns (last (g_stack st)) (length (g_heap st)) ds
            (st\<lparr>g_stack := butlast (g_stack st), g_heap := g_heap st @ [bv],
                g_visited := AList.update (e_addr (last (g_stack st))) (length (g_heap st)) (g_visited st)\<rparr>) = Inr st1"
          using nd by metis
        then show ?thesis using n bv Inr that by (simp add: bundle_step_def Let_def)
      qed
    qed
  qed
  have "set (g_stack st') \<subseteq> set (butlast (g_stack st)) \<union> pool F"
    using st' by (auto simp: bundle_step_def Let_def map_sum_def split: option.splits sum.splits
        dest!: add_dependencies_frame)
  then show ?thesis using st' bl by blast
qed

subsection \<open>Identifiers and references of variables\<close>

definition entry_ident :: "'v Entry \<Rightarrow> ident" where
  "entry_ident e = bundleID (e_Name e) (Entry_Channel e) (si_Catalog (the (e_SourceInfo e)))"

lemma newBundleVariable_ident: "newBundleVariableFromEntry r e = Inr bv \<Longrightarrow> bv_identifier bv = entry_ident e"
  by (auto simp: newBundleVariableFromEntry_def NewBundleVariableFromOperator_def entry_ident_def Let_def
      split: option.splits sum.splits if_splits prod.splits)

definition bv_refs :: "BundleVar \<Rightarrow> ident set" where
  "bv_refs bv = (\<Union>c \<in> set (bv_constraints bv). refs c)"

text \<open>\<open>requires L F d bv\<close>: a constraint of \<open>bv\<close> demands one of some bundles that satisfy \<open>d\<close>.\<close>

definition requires :: "('v, 'p) libs \<Rightarrow> 'v finder \<Rightarrow> ('v, 'p) Predicate \<Rightarrow> BundleVar \<Rightarrow> bool" where
  "requires L F d bv \<longleftrightarrow> (\<exists>deps s. prettyConstraint (dependency deps) s \<in> set (bv_constraints bv) \<and>
     (\<forall>i \<in> set deps. \<exists>b \<in> pool F. sat L d b \<and> entry_ident b = i))"

lemma requires_mono: "requires L F d bv \<Longrightarrow> set (bv_constraints bv) \<subseteq> set (bv_constraints bv') \<Longrightarrow> requires L F d bv'"
  by (auto simp: requires_def)

subsection \<open>The loops over dependencies\<close>

text \<open>The map of variables is keyed by the identifiers of the variables it leads to.\<close>

definition vars_ok :: "BundleVar list \<Rightarrow> (ident \<times> nat) list \<Rightarrow> bool" where
  "vars_ok heap vs \<longleftrightarrow> distinct (map fst vs) \<and> (\<forall>(i, a) \<in> set vs. a < length heap \<and> bv_identifier (heap ! a) = i)"

lemma vars_ok_update:
  "vars_ok heap vs \<Longrightarrow> a < length heap \<Longrightarrow> bv_identifier (heap ! a) = i \<Longrightarrow> vars_ok heap (AList.update i a vs)"
  using update_entries [of i a vs] by (auto simp: vars_ok_def)

lemma vars_ok_extend: "vars_ok heap vs \<Longrightarrow> vars_ok (heap @ H) vs"
  by (auto simp: vars_ok_def nth_append)

lemma vars_ok_set:
  "vars_ok heap vs \<Longrightarrow> a < length heap \<Longrightarrow> bv_identifier bv = bv_identifier (heap ! a) \<Longrightarrow> vars_ok (heap[a := bv]) vs"
  by (auto simp: vars_ok_def nth_list_update)

lemma add_candidates_result:
  assumes "add_candidates r bs st deps = (st', deps')" and "g_errs st' = []"
  shows "g_errs st = [] \<and> g_visited st' = g_visited st \<and> g_stack st' = g_stack st @ bs \<and>
    deps' = deps @ map entry_ident bs \<and> (\<exists>H. g_heap st' = g_heap st @ H) \<and>
    (vars_ok (g_heap st) (g_variables st) \<longrightarrow> vars_ok (g_heap st') (g_variables st')) \<and>
    dom (map_of (g_variables st')) = dom (map_of (g_variables st)) \<union> entry_ident ` set bs \<and>
    (\<forall>i. i \<notin> entry_ident ` set bs \<longrightarrow> map_of (g_variables st') i = map_of (g_variables st) i)"
  using assms
proof (induction bs arbitrary: st deps)
  case (Cons b bs)
  show ?case
  proof (cases "newBundleVariableFromEntry r b")
    case (Inl err)
    then have "add_candidates r bs (st\<lparr>g_errs := g_errs st @ [err]\<rparr>) deps = (st', deps')" using Cons.prems by simp
    from Cons.IH [OF this Cons.prems(2)] show ?thesis by simp
  next
    case (Inr i)
    let ?st = "st\<lparr>g_heap := g_heap st @ [i],
        g_variables := AList.update (bv_identifier i) (length (g_heap st)) (g_variables st), g_stack := g_stack st @ [b]\<rparr>"
    have run: "add_candidates r bs ?st (deps @ [bv_identifier i]) = (st', deps')" using Cons.prems Inr by simp
    have i: "bv_identifier i = entry_ident b" by (rule newBundleVariable_ident [OF Inr])
    have "vars_ok (g_heap st) (g_variables st) \<Longrightarrow> vars_ok (g_heap ?st) (g_variables ?st)"
      using vars_ok_extend [of _ _ "[i]"] by (auto intro!: vars_ok_update)
    then show ?thesis using Cons.IH [OF run Cons.prems(2)] i by (auto simp: alist_simps)
  qed
qed (auto simp: vars_ok_def)

text \<open>What the loop over the dependencies of one bundle does to the state\<close>

definition grows :: "'v finder \<Rightarrow> nat \<Rightarrow> 'v Entry list \<Rightarrow> 'v gb_state \<Rightarrow> 'v gb_state \<Rightarrow> bool" where
  "grows F a S st st' \<longleftrightarrow>
     g_visited st' = g_visited st \<and> g_stack st' = g_stack st @ S \<and> set S \<subseteq> pool F \<and>
     length (g_heap st) \<le> length (g_heap st') \<and> (\<forall>j < length (g_heap st). j \<noteq> a \<longrightarrow> g_heap st' ! j = g_heap st ! j) \<and>
     bv_identifier (g_heap st' ! a) = bv_identifier (g_heap st ! a) \<and>
     set (bv_constraints (g_heap st ! a)) \<subseteq> set (bv_constraints (g_heap st' ! a)) \<and>
     bv_refs (g_heap st' ! a) \<subseteq> bv_refs (g_heap st ! a) \<union> entry_ident ` set S \<and>
     (vars_ok (g_heap st) (g_variables st) \<longrightarrow> vars_ok (g_heap st') (g_variables st')) \<and>
     dom (map_of (g_variables st')) = dom (map_of (g_variables st)) \<union> entry_ident ` set S \<and>
     (\<forall>i. i \<notin> entry_ident ` set S \<longrightarrow> map_of (g_variables st') i = map_of (g_variables st) i)"

lemma grows_refl: "grows F a [] st st"
  by (simp add: grows_def)

lemma growsD:
  assumes "grows F a S st st'"
  shows "g_visited st' = g_visited st" "g_stack st' = g_stack st @ S" "set S \<subseteq> pool F"
    "length (g_heap st) \<le> length (g_heap st')" "j < length (g_heap st) \<Longrightarrow> j \<noteq> a \<Longrightarrow> g_heap st' ! j = g_heap st ! j"
    "bv_identifier (g_heap st' ! a) = bv_identifier (g_heap st ! a)"
    "set (bv_constraints (g_heap st ! a)) \<subseteq> set (bv_constraints (g_heap st' ! a))"
    "bv_refs (g_heap st' ! a) \<subseteq> bv_refs (g_heap st ! a) \<union> entry_ident ` set S"
    "vars_ok (g_heap st) (g_variables st) \<Longrightarrow> vars_ok (g_heap st') (g_variables st')"
    "dom (map_of (g_variables st')) = dom (map_of (g_variables st)) \<union> entry_ident ` set S"
    "i \<notin> entry_ident ` set S \<Longrightarrow> map_of (g_variables st') i = map_of (g_variables st) i"
  using assms by (simp_all add: grows_def)

lemma grows_trans:
  assumes "grows F a S st st1" and "grows F a T st1 st2"
  shows "grows F a (S @ T) st st2"
  unfolding grows_def
proof (intro conjI allI impI)
  note g1 = growsD [OF assms(1)] and g2 = growsD [OF assms(2)]
  show "g_heap st2 ! j = g_heap st ! j" if "j < length (g_heap st)" "j \<noteq> a" for j
    using g1(4) g1(5) [OF that] g2(5) [of j] that by simp
  show "length (g_heap st) \<le> length (g_heap st2)" using g1(4) g2(4) by simp
  show "bv_refs (g_heap st2 ! a) \<subseteq> bv_refs (g_heap st ! a) \<union> entry_ident ` set (S @ T)"
    using g1(8) g2(8) by (simp add: image_Un) blast
  show "dom (map_of (g_variables st2)) = dom (map_of (g_variables st)) \<union> entry_ident ` set (S @ T)"
    using g1(10) g2(10) by (simp add: image_Un Un_assoc)
  show "map_of (g_variables st2) i = map_of (g_variables st) i" if "i \<notin> entry_ident ` set (S @ T)" for i
    using g1(11) [of i] g2(11) [of i] that by (simp add: image_Un)
  show "set (bv_constraints (g_heap st ! a)) \<subseteq> set (bv_constraints (g_heap st2 ! a))" using g1(7) g2(7) by blast
  show "set (S @ T) \<subseteq> pool F" using g1(3) g2(3) by simp
qed (use growsD [OF assms(1)] growsD [OF assms(2)] in simp_all)

lemma grows_candidates:
  assumes "add_candidates r bs st [] = (st1, deps)" and "g_errs st1 = []" and "set bs \<subseteq> pool F"
    and "a < length (g_heap st)"
  shows "grows F a bs st (st1\<lparr>g_heap := (g_heap st1)[a := AddConstraint (g_heap st1 ! a) (prettyConstraint (dependency deps) s)]\<rparr>)"
proof -
  note c = add_candidates_result [OF assms(1,2)]
  obtain H where H: "g_heap st1 = g_heap st @ H" using c by blast
  have a: "a < length (g_heap st1)" "g_heap st1 ! a = g_heap st ! a" using H assms(4) by (auto simp: nth_append)
  have "vars_ok (g_heap st) (g_variables st) \<longrightarrow>
      vars_ok ((g_heap st1)[a := AddConstraint (g_heap st1 ! a) (prettyConstraint (dependency deps) s)]) (g_variables st1)"
    using c a vars_ok_set [OF _ a(1)] by simp
  then show ?thesis using c a H assms(3,4)
    by (auto simp: grows_def bv_refs_def nth_append)
qed

lemma add_candidates_heap: "add_candidates r bs st deps = (st', deps') \<Longrightarrow> \<exists>H. g_heap st' = g_heap st @ H"
  by (induction bs arbitrary: st deps) (fastforce split: sum.splits)+

lemma add_dependencies_grows:
  assumes "good_finder F" and "sourced bundle"
  shows "add_dependencies r F ns bundle a ds st = Inr st' \<Longrightarrow> g_errs st' = [] \<Longrightarrow> a < length (g_heap st) \<Longrightarrow>
    g_errs st = [] \<and> (\<exists>S. grows F a S st st') \<and> (\<forall>d \<in> set ds. requires (r_libs r) F d (g_heap st' ! a))"
proof (induction ds arbitrary: st)
  case Nil
  then show ?case using grows_refl by auto
next
  case (Cons d ds)
  show ?case
  proof (cases "dependency_bundles r F ns bundle d")
    case (Inl err)
    then have "add_dependencies r F ns bundle a ds (st\<lparr>g_errs := g_errs st @ [err]\<rparr>) = Inr st'"
      using Cons.prems(1) by (simp split: if_splits)
    from Cons.IH [OF this Cons.prems(2)] Cons.prems(3) show ?thesis by simp
  next
    case (Inr bs)
    obtain st1 deps where c: "add_candidates r bs st [] = (st1, deps)" by force
    define s where "s = ''bundle '' @ e_Name bundle @ '' requires an operator '' @ Predicate_String (r_libs r) d"
    define st2 where "st2 = st1\<lparr>g_heap := (g_heap st1)[a := AddConstraint (g_heap st1 ! a) (prettyConstraint (dependency deps) s)]\<rparr>"
    have run: "add_dependencies r F ns bundle a ds st2 = Inr st'"
      using Cons.prems(1) Inr c by (simp add: st2_def s_def)
    have bs: "\<forall>b \<in> set bs. b \<in> pool F \<and> sat (r_libs r) d b"
      using dependency_bundles_good [where r = r and ns = ns and d = d, OF assms] Inr by simp
    have heap1: "length (g_heap st) \<le> length (g_heap st1)" using add_candidates_heap [OF c] by auto
    then have a2: "a < length (g_heap st2)" using Cons.prems(3) by (simp add: st2_def)
    note IH = Cons.IH [OF run Cons.prems(2) a2]
    have e1: "g_errs st1 = []" using IH by (simp add: st2_def)
    have g: "grows F a bs st st2"
      unfolding st2_def by (rule grows_candidates [OF c e1 _ Cons.prems(3)]) (use bs in blast)
    have "deps = map entry_ident bs" using add_candidates_result [OF c e1] by simp
    then have "requires (r_libs r) F d (g_heap st2 ! a)"
      using bs heap1 Cons.prems(3) unfolding requires_def
      by (intro exI [of _ deps] exI [of _ s]) (auto simp: st2_def)
    then have req: "requires (r_libs r) F d (g_heap st' ! a)" using IH growsD(7) requires_mono by blast
    obtain S where "grows F a S st2 st'" using IH by blast
    from grows_trans [OF g this] show ?thesis
      using IH req add_candidates_result [OF c e1] by auto
  qed
qed

subsection \<open>The invariant of the loop\<close>

text \<open>System constraints refer to no other variable.\<close>

definition closed_system :: "('v, 'p) Resolver \<Rightarrow> bool" where
  "closed_system r \<longleftrightarrow>
     (\<forall>system e cs. r_system r = Some system \<longrightarrow> system e = Inr cs \<longrightarrow> (\<forall>c \<in> set cs. refs c = {}))"

lemma newBundleVariable_refs:
  "closed_system r \<Longrightarrow> newBundleVariableFromEntry r e = Inr bv \<Longrightarrow> bv_refs bv = {}"
  by (auto simp: newBundleVariableFromEntry_def NewBundleVariableFromOperator_def closed_system_def bv_refs_def Let_def
      split: option.splits sum.splits if_splits prod.splits)

definition bv_ok :: "('v, 'p) Resolver \<Rightarrow> 'v finder \<Rightarrow> ident set \<Rightarrow> 'v Entry \<Rightarrow> BundleVar \<Rightarrow> bool" where
  "bv_ok r F K e bv \<longleftrightarrow> bv_identifier bv = entry_ident e \<and> bv_refs bv \<subseteq> K \<and>
     (\<exists>base. newBundleVariableFromEntry r e = Inr base \<and> set (bv_constraints base) \<subseteq> set (bv_constraints bv)) \<and>
     (\<exists>ds. convertDependencyProperties (r_libs r) (e_Properties e) = Inr ds \<and>
        (\<forall>d \<in> set ds. requires (r_libs r) F d bv))"

lemma bv_ok_mono: "bv_ok r F K e bv \<Longrightarrow> K \<subseteq> K' \<Longrightarrow> bv_ok r F K' e bv"
  by (auto simp: bv_ok_def)

text \<open>Every visited entry leads to a complete variable.\<close>

definition visited_ok ::
    "('v, 'p) Resolver \<Rightarrow> 'v finder \<Rightarrow> ident set \<Rightarrow> BundleVar list \<Rightarrow> (nat \<times> nat) list \<Rightarrow> bool" where
  "visited_ok r F K heap visited \<longleftrightarrow> (\<forall>x a. map_of visited x = Some a \<longrightarrow>
     a < length heap \<and> (\<exists>e \<in> pool F. e_addr e = x \<and> bv_ok r F K e (heap ! a)))"

lemma visited_ok_mono: "visited_ok r F K heap visited \<Longrightarrow> K \<subseteq> K' \<Longrightarrow> visited_ok r F K' heap visited"
  unfolding visited_ok_def using bv_ok_mono by blast

lemma visited_okD:
  assumes "visited_ok r F K heap visited" and "good_finder F" and "map_of visited (e_addr e) = Some a" and "e \<in> pool F"
  shows "a < length heap" "bv_ok r F K e (heap ! a)"
proof -
  obtain e' where e': "e' \<in> pool F" "e_addr e' = e_addr e" "bv_ok r F K e' (heap ! a)" and a: "a < length heap"
    using assms(1,3) unfolding visited_ok_def by blast
  then have "e' = e" using assms(2,4) unfolding good_finder_def by (auto dest: inj_onD)
  then show "a < length heap" "bv_ok r F K e (heap ! a)" using a e'(3) by auto
qed

definition loop_inv_of ::
    "('v, 'p) Resolver \<Rightarrow> 'v finder \<Rightarrow> ident set \<Rightarrow> 'v Entry list \<Rightarrow> BundleVar list \<Rightarrow> (nat \<times> nat) list \<Rightarrow>
     'v Entry list \<Rightarrow> (ident \<times> nat) list \<Rightarrow> bool" where
  "loop_inv_of r F K init heap visited stack vars \<longleftrightarrow> set stack \<subseteq> pool F \<and> vars_ok heap vars \<and>
     visited_ok r F (K \<union> dom (map_of vars)) heap visited \<and>
     (\<forall>i a. map_of vars i = Some a \<longrightarrow> a \<in> ran (map_of visited) \<or> i \<in> entry_ident ` set stack) \<and>
     (\<forall>e \<in> set init. e \<in> set stack \<or>
        e_addr e \<in> dom (map_of visited) \<and> entry_ident e \<in> dom (map_of vars))"

definition loop_inv ::
    "('v, 'p) Resolver \<Rightarrow> 'v finder \<Rightarrow> ident set \<Rightarrow> 'v Entry list \<Rightarrow> 'v gb_state \<Rightarrow> bool" where
  "loop_inv r F K init st = loop_inv_of r F K init (g_heap st) (g_visited st) (g_stack st) (g_variables st)"

lemma loop_invI:
  assumes "set stack \<subseteq> pool F" and "vars_ok heap vars"
    and "visited_ok r F (K \<union> dom (map_of vars)) heap visited"
    and "\<And>i a. map_of vars i = Some a \<Longrightarrow> a \<in> ran (map_of visited) \<or> i \<in> entry_ident ` set stack"
    and "\<And>e. e \<in> set init \<Longrightarrow> e \<in> set stack \<or>
      e_addr e \<in> dom (map_of visited) \<and> entry_ident e \<in> dom (map_of vars)"
  shows "loop_inv_of r F K init heap visited stack vars"
  using assms by (simp add: loop_inv_of_def)

lemma loop_invD:
  assumes "loop_inv r F K init st"
  shows "set (g_stack st) \<subseteq> pool F" "vars_ok (g_heap st) (g_variables st)"
    "visited_ok r F (K \<union> dom (map_of (g_variables st))) (g_heap st) (g_visited st)"
    "map_of (g_variables st) i = Some a \<Longrightarrow>
      a \<in> ran (map_of (g_visited st)) \<or> i \<in> entry_ident ` set (g_stack st)"
    "e \<in> set init \<Longrightarrow> e \<in> set (g_stack st) \<or>
      e_addr e \<in> dom (map_of (g_visited st)) \<and> entry_ident e \<in> dom (map_of (g_variables st))"
  using assms by (simp_all add: loop_inv_def loop_inv_of_def)

text \<open>Taking the top of the stack, when its variable is in the map\<close>

lemma stack_pop:
  assumes "st \<noteq> []" shows "set st = insert (last st) (set (butlast st))"
  by (metis Un_insert_right append_butlast_last_id assms empty_set list.simps(15) set_append sup_bot_right)

lemma step_inv_visited:
  assumes inv: "loop_inv r F K init st" and "good_finder F" and ne: "g_stack st \<noteq> []"
    and b: "map_of (g_visited st) (e_addr (last (g_stack st))) = Some b"
  shows "loop_inv r F K init (st\<lparr>g_stack := butlast (g_stack st),
    g_variables := AList.update (bv_identifier (g_heap st ! b)) b (g_variables st)\<rparr>)"
  unfolding loop_inv_def
proof (simp, rule loop_invI)
  let ?e = "last (g_stack st)"
  note pop = stack_pop [OF ne] and I = loop_invD [OF inv]
  have e: "?e \<in> pool F" using I(1) ne by auto
  note v = visited_okD [OF I(3) assms(2) b e]
  have id: "bv_identifier (g_heap st ! b) = entry_ident ?e" using v(2) by (simp add: bv_ok_def)
  show "set (butlast (g_stack st)) \<subseteq> pool F" using I(1) pop by auto
  show "vars_ok (g_heap st) (AList.update (bv_identifier (g_heap st ! b)) b (g_variables st))"
    using vars_ok_update [OF I(2) v(1)] by simp
  show "visited_ok r F (K \<union> dom (map_of (AList.update (bv_identifier (g_heap st ! b)) b (g_variables st))))
      (g_heap st) (g_visited st)"
    by (rule visited_ok_mono [OF I(3)]) (auto simp: alist_simps)
  show "a \<in> ran (map_of (g_visited st)) \<or> i \<in> entry_ident ` set (butlast (g_stack st))"
    if "map_of (AList.update (bv_identifier (g_heap st ! b)) b (g_variables st)) i = Some a" for i a
  proof (cases "i = entry_ident ?e")
    case True
    then show ?thesis using that b id by (auto simp: alist_simps intro: ranI)
  next
    case False
    then show ?thesis using that I(4) [of i a] id pop by (auto simp: alist_simps)
  qed
  show "e \<in> set (butlast (g_stack st)) \<or> e_addr e \<in> dom (map_of (g_visited st)) \<and>
      entry_ident e \<in> dom (map_of (AList.update (bv_identifier (g_heap st ! b)) b (g_variables st)))"
    if "e \<in> set init" for e
    using I(5) [OF that] pop b id by (auto simp: alist_simps)
qed

lemma step_inv_new:
  assumes inv: "loop_inv r F K init st" and gf: "good_finder F" and cs: "closed_system r"
    and ne: "g_stack st \<noteq> []" and new: "map_of (g_visited st) (e_addr (last (g_stack st))) = None"
    and bv: "newBundleVariableFromEntry r (last (g_stack st)) = Inr bv"
    and ds: "convertDependencyProperties (r_libs r) (e_Properties (last (g_stack st))) = Inr ds"
    and req: "\<forall>d \<in> set ds. requires (r_libs r) F d (g_heap st1 ! length (g_heap st))"
    and g: "grows F (length (g_heap st)) S
      (st\<lparr>g_stack := butlast (g_stack st), g_heap := g_heap st @ [bv],
          g_visited := AList.update (e_addr (last (g_stack st))) (length (g_heap st)) (g_visited st)\<rparr>) st1"
  shows "loop_inv r F K init (st1\<lparr>g_variables :=
    AList.update (bv_identifier (g_heap st1 ! length (g_heap st))) (length (g_heap st)) (g_variables st1)\<rparr>)"
  unfolding loop_inv_def
proof (simp, rule loop_invI)
  let ?e = "last (g_stack st)" and ?a = "length (g_heap st)"
  let ?vars = "AList.update (bv_identifier (g_heap st1 ! ?a)) ?a (g_variables st1)"
  note pop = stack_pop [OF ne] and I = loop_invD [OF inv] and G = growsD [OF g, simplified]
  have e: "?e \<in> pool F" using I(1) ne by auto
  have id: "bv_identifier (g_heap st1 ! ?a) = entry_ident ?e"
    using G(6) newBundleVariable_ident [OF bv] by simp
  have dom: "dom (map_of ?vars) = insert (entry_ident ?e) (dom (map_of (g_variables st)) \<union> entry_ident ` set S)"
    using G(10) id by (simp add: alist_simps)
  have a1: "?a < length (g_heap st1)" using G(4) by simp
  show "set (g_stack st1) \<subseteq> pool F" using G(2,3) I(1) pop by auto
  have "vars_ok (g_heap st @ [bv]) (g_variables st)" by (rule vars_ok_extend [OF I(2)])
  then show "vars_ok (g_heap st1) ?vars" using vars_ok_update [OF G(9) a1] by simp
  show "visited_ok r F (K \<union> dom (map_of ?vars)) (g_heap st1) (g_visited st1)"
    unfolding visited_ok_def
  proof (intro allI impI)
    fix x b assume xb: "map_of (g_visited st1) x = Some b"
    show "b < length (g_heap st1) \<and> (\<exists>e \<in> pool F. e_addr e = x \<and> bv_ok r F (K \<union> dom (map_of ?vars)) e (g_heap st1 ! b))"
    proof (cases "x = e_addr ?e")
      case True
      then have b: "b = ?a" using xb G(1) by (simp add: alist_simps)
      have "bv_refs (g_heap st1 ! ?a) \<subseteq> K \<union> dom (map_of ?vars)"
        using G(8) newBundleVariable_refs [OF cs bv] dom by (auto simp: nth_append)
      then have "bv_ok r F (K \<union> dom (map_of ?vars)) ?e (g_heap st1 ! ?a)"
        using id bv ds req G(7) by (simp add: bv_ok_def)
      then show ?thesis using True b a1 e by blast
    next
      case False
      then have "map_of (g_visited st) x = Some b" using xb G(1) by (simp add: alist_simps)
      then obtain e' where e': "e' \<in> pool F" "e_addr e' = x" "b < ?a"
          "bv_ok r F (K \<union> dom (map_of (g_variables st))) e' (g_heap st ! b)"
        using I(3) unfolding visited_ok_def by blast
      have "g_heap st1 ! b = g_heap st ! b" using G(5) [of b] e'(3) by (simp add: nth_append)
      moreover have "bv_ok r F (K \<union> dom (map_of ?vars)) e' (g_heap st ! b)"
        by (rule bv_ok_mono [OF e'(4)]) (auto simp: dom)
      ultimately show ?thesis using e' a1 by auto
    qed
  qed
  show "b \<in> ran (map_of (g_visited st1)) \<or> i \<in> entry_ident ` set (g_stack st1)" if "map_of ?vars i = Some b" for i b
  proof -
    have rn: "ran (map_of (g_visited st1)) = insert ?a (ran (map_of (g_visited st)))"
      using G(1) new by (simp add: alist_simps)
    consider "i = entry_ident ?e" | "i \<in> entry_ident ` set S" | "i \<noteq> entry_ident ?e" "i \<notin> entry_ident ` set S" by blast
    then show ?thesis
    proof cases
      case 1
      then show ?thesis using that id rn by (simp add: alist_simps)
    next
      case 2
      then show ?thesis using G(2) by auto
    next
      case 3
      then have "map_of (g_variables st) i = Some b" using that G(11) [of i] id by (simp add: alist_simps)
      from I(4) [OF this] show ?thesis using 3 rn G(2) pop by auto
    qed
  qed
  show "e \<in> set (g_stack st1) \<or> e_addr e \<in> dom (map_of (g_visited st1)) \<and> entry_ident e \<in> dom (map_of ?vars)"
    if "e \<in> set init" for e
    unfolding dom using I(5) [OF that] pop G(1,2) by (auto simp: alist_simps)
qed

lemma add_candidates_errs: "add_candidates r bs st deps = (st', deps') \<Longrightarrow> \<exists>es. g_errs st' = g_errs st @ es"
  by (induction bs arbitrary: st deps) (fastforce split: sum.splits)+

lemma add_dependencies_errs:
  "add_dependencies r F ns bundle a ds st = Inr st' \<Longrightarrow> \<exists>es. g_errs st' = g_errs st @ es"
proof (induction ds arbitrary: st)
  case (Cons d ds)
  show ?case
  proof (cases "dependency_bundles r F ns bundle d")
    case (Inl err)
    then show ?thesis using Cons.prems Cons.IH [of "st\<lparr>g_errs := g_errs st @ [err]\<rparr>"] by (auto split: if_splits)
  next
    case (Inr bs)
    obtain st1 deps where c: "add_candidates r bs st [] = (st1, deps)" by force
    then show ?thesis using Cons.prems Inr add_candidates_errs [OF c] by (auto dest!: Cons.IH)
  qed
qed simp

lemma bundle_step_errs: "bundle_step r F ns st = Inr st' \<Longrightarrow> \<exists>es. g_errs st' = g_errs st @ es"
  by (auto simp: bundle_step_def Let_def map_sum_def split: option.splits sum.splits dest!: add_dependencies_errs)

text \<open>What earlier calls stored stays as it was.\<close>

definition extends :: "BundleVar list \<Rightarrow> (nat \<times> nat) list \<Rightarrow> BundleVar list \<Rightarrow> (nat \<times> nat) list \<Rightarrow> bool" where
  "extends heap visited heap' visited' \<longleftrightarrow> length heap \<le> length heap' \<and> (\<forall>j < length heap. heap' ! j = heap ! j) \<and>
     map_of visited \<subseteq>\<^sub>m map_of visited'"

lemma extends_heap_trans: "extends h v h1 v1 \<Longrightarrow> extends h1 v1 h2 v2 \<Longrightarrow> extends h v h2 v2"
  unfolding extends_def by (auto intro: map_le_trans)

lemma bundle_step_inv:
  assumes inv: "loop_inv r F K init st" and gf: "good_finder F" and cs: "closed_system r" and ne: "g_stack st \<noteq> []"
    and step: "bundle_step r F ns st = Inr st'" and ok: "g_errs st' = []"
  shows "loop_inv r F K init st' \<and> extends (g_heap st) (g_visited st) (g_heap st') (g_visited st')"
proof (cases "map_of (g_visited st) (e_addr (last (g_stack st)))")
  case (Some b)
  then show ?thesis using step step_inv_visited [OF inv gf ne Some] by (auto simp: bundle_step_def extends_def)
next
  case None
  note new = None
  let ?e = "last (g_stack st)" and ?a = "length (g_heap st)"
  obtain bv where bv: "newBundleVariableFromEntry r ?e = Inr bv"
    using step ok new by (auto simp: bundle_step_def Let_def split: sum.splits)
  define st0 where "st0 = st\<lparr>g_stack := butlast (g_stack st), g_heap := g_heap st @ [bv],
      g_visited := AList.update (e_addr ?e) ?a (g_visited st)\<rparr>"
  obtain ds st1 where ds: "convertDependencyProperties (r_libs r) (e_Properties ?e) = Inr ds"
      and st1: "add_dependencies r F ns ?e ?a ds st0 = Inr st1"
      and st': "st' = st1\<lparr>g_variables := AList.update (bv_identifier (g_heap st1 ! ?a)) ?a (g_variables st1)\<rparr>"
    using step ok new bv by (auto simp: bundle_step_def Let_def map_sum_def st0_def split: sum.splits)
  have "sourced ?e" using pool_sourced [OF gf] loop_invD(1) [OF inv] last_in_set [OF ne] by blast
  from add_dependencies_grows [OF gf this st1] obtain S where S: "grows F ?a S st0 st1"
      and req: "\<forall>d \<in> set ds. requires (r_libs r) F d (g_heap st1 ! ?a)"
    using ok by (auto simp: st' st0_def)
  have "loop_inv r F K init st'"
    unfolding st' by (rule step_inv_new [OF inv gf cs ne new bv ds req S [unfolded st0_def]])
  moreover have "extends (g_heap st) (g_visited st) (g_heap st') (g_visited st')"
    using growsD(1,4,5) [OF S] new by (auto simp: extends_def st' st0_def nth_append alist_simps map_le_def)
  ultimately show ?thesis by simp
qed

lemma bundle_loop_inv:
  assumes gf: "good_finder F" and cs: "closed_system r"
  shows "loop_inv r F K init st \<Longrightarrow> bundle_loop r F ns st = Inr st' \<Longrightarrow> g_errs st' = [] \<Longrightarrow>
    loop_inv r F K init st' \<and> g_stack st' = [] \<and> extends (g_heap st) (g_visited st) (g_heap st') (g_visited st')"
  using assms
proof (induction r F ns st rule: bundle_loop.induct)
  case (1 r F ns st)
  show ?case
  proof (cases "g_stack st = []")
    case True
    then show ?thesis using "1.prems" by (auto simp: bundle_loop.simps [of r F ns st] extends_def)
  next
    case False
    obtain st1 where st1: "bundle_step r F ns st = Inr st1" "bundle_loop r F ns st1 = Inr st'"
      using "1.prems"(2) False by (auto simp: bundle_loop.simps [of r F ns st] split: sum.splits)
    have "\<exists>es. g_errs st' = g_errs st1 @ es"
      using st1(2)
    proof (induction r F ns st1 rule: bundle_loop.induct)
      case (1 r F ns st)
      then show ?case
        by (fastforce simp: bundle_loop.simps [of r F ns st] split: sum.splits if_splits dest: bundle_step_errs)
    qed
    then have "g_errs st1 = []" using "1.prems"(3) by simp
    from bundle_step_inv [OF "1.prems"(1,4,5) False st1(1) this]
    have i1: "loop_inv r F K init st1" and e1: "extends (g_heap st) (g_visited st) (g_heap st1) (g_visited st1)" by auto
    from "1.IH" [OF _ st1(1) i1 st1(2) "1.prems"(3-5)] False e1 show ?thesis using extends_heap_trans by auto
  qed
qed

lemma bundle_loop_no_panic:
  assumes "good_finder F"
  shows "set (g_stack st) \<subseteq> pool F \<Longrightarrow> \<exists>st'. bundle_loop r F ns st = Inr st'"
  using assms
proof (induction r F ns st rule: bundle_loop.induct)
  case (1 r F ns st)
  show ?case
  proof (cases "g_stack st = []")
    case True
    then show ?thesis by (simp add: bundle_loop.simps [of r F ns st])
  next
    case False
    obtain st1 where "bundle_step r F ns st = Inr st1" "set (g_stack st1) \<subseteq> pool F"
      using bundle_step_no_panic [OF "1.prems"(2,1) False] by blast
    then show ?thesis using "1.IH" [of st1] "1.prems"(2) False by (simp add: bundle_loop.simps [of r F ns st])
  qed
qed

text \<open>Without errors every bundle of the initial stack is visited.\<close>

lemma add_candidates_stack: "add_candidates r bs st deps = (st', deps') \<Longrightarrow> set (g_stack st) \<subseteq> set (g_stack st')"
  by (induction bs arbitrary: st deps) (fastforce split: sum.splits)+

lemma add_dependencies_stack:
  "add_dependencies r F ns bundle a ds st = Inr st' \<Longrightarrow> set (g_stack st) \<subseteq> set (g_stack st')"
proof (induction ds arbitrary: st)
  case (Cons d ds)
  show ?case
  proof (cases "dependency_bundles r F ns bundle d")
    case (Inl err)
    then show ?thesis using Cons.prems Cons.IH [of "st\<lparr>g_errs := g_errs st @ [err]\<rparr>"] by (auto split: if_splits)
  next
    case (Inr bs)
    obtain st1 deps where c: "add_candidates r bs st [] = (st1, deps)" by force
    have "set (g_stack st1) \<subseteq> set (g_stack st')" using Cons.prems Inr c by (auto dest!: Cons.IH)
    with add_candidates_stack [OF c] show ?thesis by (rule subset_trans)
  qed
qed simp

lemma add_dependencies_visits:
  "add_dependencies r F ns bundle a ds st = Inr st' \<Longrightarrow>
     g_visited st' = g_visited st \<and> set (g_stack st) \<subseteq> set (g_stack st')"
  using add_dependencies_frame add_dependencies_stack by blast

lemma bundle_step_visits:
  assumes "bundle_step r F ns st = Inr st'" and "g_errs st' = []"
  shows "insert (e_addr (last (g_stack st))) (fst ` set (g_visited st)) \<subseteq> fst ` set (g_visited st') \<and>
    set (butlast (g_stack st)) \<subseteq> set (g_stack st')"
proof (cases "map_of (g_visited st) (e_addr (last (g_stack st)))")
  case (Some b)
  then show ?thesis using assms(1) imageI [OF map_of_SomeD [OF Some], of fst] by (auto simp: bundle_step_def)
next
  case None
  then show ?thesis using assms
    by (auto simp: bundle_step_def Let_def map_sum_def alist_simps split: sum.splits
        dest!: add_dependencies_visits) (metis fst_conv image_eqI)
qed

lemma bundle_loop_errs: "bundle_loop r F ns st = Inr st' \<Longrightarrow> \<exists>es. g_errs st' = g_errs st @ es"
proof (induction r F ns st rule: bundle_loop.induct)
  case (1 r F ns st)
  then show ?case
    by (fastforce simp: bundle_loop.simps [of r F ns st] split: sum.splits if_splits dest: bundle_step_errs)
qed

lemma bundle_loop_visits:
  "bundle_loop r F ns st = Inr st' \<Longrightarrow> g_errs st' = [] \<Longrightarrow>
     fst ` set (g_visited st) \<union> e_addr ` set (g_stack st) \<subseteq> fst ` set (g_visited st')"
proof (induction r F ns st rule: bundle_loop.induct)
  case (1 r F ns st)
  show ?case
  proof (cases "g_stack st = []")
    case True
    then show ?thesis using "1.prems" by (simp add: bundle_loop.simps [of r F ns st])
  next
    case False
    obtain st1 where st1: "bundle_step r F ns st = Inr st1" "bundle_loop r F ns st1 = Inr st'"
      using "1.prems"(1) False by (auto simp: bundle_loop.simps [of r F ns st] split: sum.splits)
    have "g_errs st1 = []" using bundle_loop_errs [OF st1(2)] "1.prems"(2) by auto
    note v = bundle_step_visits [OF st1(1) this]
    have "fst ` set (g_visited st1) \<union> e_addr ` set (g_stack st1) \<subseteq> fst ` set (g_visited st')"
      using "1.IH" [OF _ st1 "1.prems"(2)] False by simp
    moreover have "e_addr ` set (g_stack st) = insert (e_addr (last (g_stack st))) (e_addr ` set (butlast (g_stack st)))"
      by (subst stack_pop [OF False]) simp
    moreover have "e_addr ` set (butlast (g_stack st)) \<subseteq> e_addr ` set (g_stack st1)" using v by (simp add: image_mono)
    ultimately show ?thesis using v by (simp only: Un_subset_iff insert_subset) (meson subset_trans subsetD)
  qed
qed

subsection \<open>The whole call\<close>

lemma getBundleVariables_no_panic:
  assumes "good_finder F" and "set stack \<subseteq> pool F" and "getBundleVariables r F ns stack w = (Inl err, w')"
  shows "err \<noteq> Panic"
proof -
  let ?st = "\<lparr>g_heap = w_heap w, g_visited = w_visited w, g_stack = stack, g_variables = [], g_errs = []\<rparr>"
  obtain st' where st': "bundle_loop r F ns ?st = Inr st'"
    using bundle_loop_no_panic [OF assms(1), of ?st r ns] assms(2) by auto
  show ?thesis
  proof (cases "g_errs st' = []")
    case True
    have "\<forall>e \<in> set stack. map_of (g_visited st') (e_addr e) \<noteq> None"
      using bundle_loop_visits [OF st' True] by (auto simp: map_of_eq_None_iff)
    then show ?thesis using assms(3) st' True by (simp add: getBundleVariables_def list_all_iff)
  next
    case False
    then show ?thesis using assms(3) st' by (auto simp: getBundleVariables_def)
  qed
qed

lemma getBundleVariables_ok:
  assumes gf: "good_finder F" and cs: "closed_system r" and v: "visited_ok r F K (w_heap w) (w_visited w)"
    and stack: "set stack \<subseteq> pool F" and get: "getBundleVariables r F ns stack w = (Inr (ids, vs), w')"
  shows "visited_ok r F (K \<union> dom (map_of vs)) (w_heap w') (w_visited w') \<and> vars_ok (w_heap w') vs \<and>
    (\<forall>a \<in> ran (map_of vs). a \<in> ran (map_of (w_visited w'))) \<and>
    set ids = entry_ident ` set stack \<and> set ids \<subseteq> dom (map_of vs) \<and>
    extends (w_heap w) (w_visited w) (w_heap w') (w_visited w')"
proof -
  let ?st = "\<lparr>g_heap = w_heap w, g_visited = w_visited w, g_stack = stack, g_variables = [], g_errs = []\<rparr>"
  obtain st' where st': "bundle_loop r F ns ?st = Inr st'" "g_errs st' = []" "vs = g_variables st'"
      "w' = \<lparr>w_heap = g_heap st', w_visited = g_visited st'\<rparr>"
      "ids = remdups (map (\<lambda>o'. bv_identifier (g_heap st' ! the (map_of (g_visited st') (e_addr o')))) stack)"
    using get by (auto simp: getBundleVariables_def split: sum.splits if_splits)
  have "loop_inv r F K stack ?st"
    using stack v by (auto simp: loop_inv_def loop_inv_of_def vars_ok_def)
  note L = bundle_loop_inv [OF gf cs this st'(1,2)]
  note I = loop_invD [OF L [THEN conjunct1]]
  have nil: "g_stack st' = []" using L by simp
  have ids: "bv_identifier (g_heap st' ! the (map_of (g_visited st') (e_addr e))) = entry_ident e" if e: "e \<in> set stack" for e
  proof -
    obtain a where a: "map_of (g_visited st') (e_addr e) = Some a" using I(5) [OF e] nil by auto
    have "bv_ok r F (K \<union> dom (map_of (g_variables st'))) e (g_heap st' ! a)"
      by (rule visited_okD(2) [OF I(3) gf a]) (use e stack in blast)
    then show ?thesis using a by (simp add: bv_ok_def)
  qed
  have "set ids = entry_ident ` set stack" using ids st'(5) by auto
  moreover have "entry_ident ` set stack \<subseteq> dom (map_of (g_variables st'))" using I(5) nil by auto
  moreover have "\<forall>a \<in> ran (map_of (g_variables st')). a \<in> ran (map_of (g_visited st'))"
    using I(4) nil by (auto simp: ran_def)
  ultimately show ?thesis using I(2,3) L st'(3,4) by simp
qed

end
