(* ===== verification/Resolver_Correct.thy ===== *)
theory Resolver_Correct
  imports Resolver Bundle_Closure
begin

text \<open>
  What the resolver gives to the solver and what its answer means: the input is well formed, a
  solution of it satisfies every subscription, contains a provider for each dependency of each bundle it
  contains, and has at most one provider of an API and one operator of a package.
\<close>

subsection \<open>Storing into maps\<close>

lemma foldl_update_map_of:
  assumes "distinct (map fst vs)" and "\<forall>(i, a) \<in> set vs. g i a = i"
  shows "map_of (foldl (\<lambda>m (i, a). AList.update (g i a) (f a) m) m0 vs) =
    map_of m0 ++ (\<lambda>i. map_option f (map_of vs i))"
  using assms
proof (induction vs arbitrary: m0)
  case (Cons v vs)
  obtain i a where v: "v = (i, a)" by force
  have "map_of (foldl (\<lambda>m (i, a). AList.update (g i a) (f a) m) (AList.update i (f a) m0) vs) =
      map_of (AList.update i (f a) m0) ++ (\<lambda>i. map_option f (map_of vs i))"
    using Cons by (auto simp: v)
  moreover have "map_of vs i = None" using Cons.prems(1) by (simp add: v map_of_eq_None_iff)
  ultimately show ?case using Cons.prems(2)
    by (auto simp: v map_add_def alist_simps fun_eq_iff split: option.splits)
qed (simp add: map_add_def)

lemma distinct_foldl_update:
  "distinct (map fst m0) \<Longrightarrow> distinct (map fst (foldl (\<lambda>m (i, a). AList.update (g i a) (f a) m) m0 vs))"
  by (induction vs arbitrary: m0) auto

lemma permuted_map:
  assumes "distinct (map fst m)" and "mset m' = mset m"
  shows "distinct (map fst m')" "map_of m' = map_of m" "set m' = set m"
proof -
  show s: "set m' = set m" using assms(2) by (metis set_mset_mset)
  show d: "distinct (map fst m')" using assms by (metis mset_eq_imp_distinct_iff mset_map)
  show "map_of m' = map_of m" using map_of_inject_set [OF d assms(1)] s by simp
qed

lemma iteratesD:
  assumes "iterates it"
  shows "mset (it_bundles it m) = mset m" "mset (it_variables it m1) = mset m1"
    "mset (it_gvks it m2) = mset m2" "mset (it_packages it m3) = mset m3"
  using assms by (simp_all add: iterates_def)

lemma vars_okD: "vars_ok heap vs \<Longrightarrow> map_of vs i = Some a \<Longrightarrow> a < length heap \<and> bv_identifier (heap ! a) = i"
  by (auto simp: vars_ok_def dest!: map_of_SomeD)

lemma store_bundles_map_of:
  assumes "iterates it" and "vars_ok heap vs"
  shows "map_of (store_bundles heap (it_bundles it vs) vars) =
      map_of vars ++ (\<lambda>i. map_option BundleRef (map_of vs i))"
    "distinct (map fst vars) \<Longrightarrow> distinct (map fst (store_bundles heap (it_bundles it vs) vars))"
proof -
  have d: "distinct (map fst vs)" using assms(2) by (simp add: vars_ok_def)
  note p = permuted_map [OF d iteratesD(1) [OF assms(1)]]
  have "\<forall>(i, a) \<in> set (it_bundles it vs). bv_identifier (heap ! a) = i"
    using assms(2) p(3) by (auto simp: vars_ok_def)
  then show "map_of (store_bundles heap (it_bundles it vs) vars) =
      map_of vars ++ (\<lambda>i. map_option BundleRef (map_of vs i))"
    using foldl_update_map_of [OF p(1), of "\<lambda>i a. bv_identifier (heap ! a)" BundleRef vars] p(2)
    by (simp add: store_bundles_def)
  show "distinct (map fst vars) \<Longrightarrow> distinct (map fst (store_bundles heap (it_bundles it vs) vars))"
    unfolding store_bundles_def by (rule distinct_foldl_update)
qed

text \<open>The keys of a map of variables are their identifiers.\<close>

definition keyed :: "BundleVar list \<Rightarrow> rvars \<Rightarrow> bool" where
  "keyed heap vars \<longleftrightarrow> distinct (map fst vars) \<and>
     (\<forall>i v. map_of vars i = Some v \<longrightarrow> Identifier (rvar_variable heap v) = i)"

lemma store_variables_map_of:
  assumes "iterates it" and "keyed heap vs"
  shows "map_of (store_variables heap (it_variables it vs) vars) = map_of vars ++ map_of vs"
    "distinct (map fst vars) \<Longrightarrow> distinct (map fst (store_variables heap (it_variables it vs) vars))"
proof -
  have d: "distinct (map fst vs)" using assms(2) by (simp add: keyed_def)
  note p = permuted_map [OF d iteratesD(2) [OF assms(1)]]
  have "\<forall>(i, v) \<in> set (it_variables it vs). Identifier (rvar_variable heap v) = i"
    using assms(2) p(3) d by (auto simp: keyed_def)
  then show "map_of (store_variables heap (it_variables it vs) vars) = map_of vars ++ map_of vs"
    using foldl_update_map_of [OF p(1), of "\<lambda>i v. Identifier (rvar_variable heap v)" id vars] p(2)
    by (simp add: store_variables_def option.map_id)
  show "distinct (map fst vars) \<Longrightarrow> distinct (map fst (store_variables heap (it_variables it vs) vars))"
    unfolding store_variables_def using distinct_foldl_update [where f = id] by (simp add: id_def)
qed

subsection \<open>Candidates of a subscription\<close>

text \<open>Every bundle in the map is visited and stored under its identifier.\<close>

definition stored :: "BundleVar list \<Rightarrow> (nat \<times> nat) list \<Rightarrow> rvars \<Rightarrow> bool" where
  "stored heap visited vars \<longleftrightarrow> (\<forall>i a. map_of vars i = Some (BundleRef a) \<longrightarrow>
     a \<in> ran (map_of visited) \<and> bv_identifier (heap ! a) = i)"

lemma extends_ran: "extends h v h' v' \<Longrightarrow> a \<in> ran (map_of v) \<Longrightarrow> a \<in> ran (map_of v')"
  by (auto simp: extends_def ran_def map_le_def dom_def) metis

lemma visited_ran_bound: "visited_ok r F K heap visited \<Longrightarrow> a \<in> ran (map_of visited) \<Longrightarrow> a < length heap"
  by (auto simp: visited_ok_def ran_def)

lemma extends_cell:
  "visited_ok r F K h v \<Longrightarrow> extends h v h' v' \<Longrightarrow> a \<in> ran (map_of v) \<Longrightarrow> h' ! a = h ! a"
  using visited_ran_bound by (fastforce simp: extends_def)

lemma stored_extends:
  "stored h v vars \<Longrightarrow> visited_ok r F K h v \<Longrightarrow> extends h v h' v' \<Longrightarrow> stored h' v' vars"
  unfolding stored_def using extends_ran extends_cell by metis

text \<open>The entries a subscription asks for\<close>

definition wanted :: "('v, 'p) libs \<Rightarrow> 'v finder \<Rightarrow> Subscription \<Rightarrow> 'v Entry option \<Rightarrow> 'v Entry \<Rightarrow> bool" where
  "wanted L F sub current e \<longleftrightarrow> e \<in> catalog_entries F (subscription_catalog sub) \<and>
     passes L (cachePredicates sub current) e"

definition cand_inv ::
    "('v, 'p) Resolver \<Rightarrow> 'v finder \<Rightarrow> ident set \<Rightarrow> Subscription \<Rightarrow> 'v Entry option \<Rightarrow> world \<Rightarrow> nat list \<Rightarrow> rvars \<Rightarrow> bool" where
  "cand_inv r F K sub current w cands vars \<longleftrightarrow>
     visited_ok r F (K \<union> dom (map_of vars)) (w_heap w) (w_visited w) \<and> distinct (map fst vars) \<and>
     ran (map_of vars) \<subseteq> BundleRef ` UNIV \<and> stored (w_heap w) (w_visited w) vars \<and>
     (\<forall>a \<in> set cands. a \<in> ran (map_of (w_visited w)) \<and> bv_identifier (w_heap w ! a) \<in> dom (map_of vars) \<and>
        (\<exists>e \<in> pool F. bv_identifier (w_heap w ! a) = entry_ident e \<and> wanted (r_libs r) F sub current e))"

lemma cand_inv_step:
  assumes inv: "cand_inv r F K sub current w cands vars" and gf: "good_finder F" and cs: "closed_system r"
    and it: "iterates it"
    and stack: "set stack \<subseteq> {e \<in> pool F. wanted (r_libs r) F sub current e}"
    and get: "getBundleVariables r F ns stack w = (Inr (ids, vs), w')"
  shows "cand_inv r F K sub current w'
      (cands @ map snd (filter (\<lambda>(i, a). bv_identifier (w_heap w' ! a) \<in> set ids) (it_bundles it vs)))
      (store_bundles (w_heap w') (it_bundles it vs) vars) \<and>
    extends (w_heap w) (w_visited w) (w_heap w') (w_visited w')"
proof -
  have v: "visited_ok r F (K \<union> dom (map_of vars)) (w_heap w) (w_visited w)"
    and st: "stored (w_heap w) (w_visited w) vars" and d: "distinct (map fst vars)"
    and rn: "ran (map_of vars) \<subseteq> BundleRef ` UNIV" using inv by (simp_all add: cand_inv_def)
  have sp: "set stack \<subseteq> pool F" using stack by blast
  note G = getBundleVariables_ok [OF gf cs v sp get]
  have v': "visited_ok r F (K \<union> dom (map_of vars) \<union> dom (map_of vs)) (w_heap w') (w_visited w')"
    and vo: "vars_ok (w_heap w') vs" and ext: "extends (w_heap w) (w_visited w) (w_heap w') (w_visited w')"
    and ids: "set ids = entry_ident ` set stack" and sub: "set ids \<subseteq> dom (map_of vs)"
    and rv: "\<forall>a \<in> ran (map_of vs). a \<in> ran (map_of (w_visited w'))" using G by auto
  note S = store_bundles_map_of [OF it vo]
  let ?vars = "store_bundles (w_heap w') (it_bundles it vs) vars"
  have dom: "dom (map_of ?vars) = dom (map_of vars) \<union> dom (map_of vs)" by (auto simp: S(1))
  have 1: "visited_ok r F (K \<union> dom (map_of ?vars)) (w_heap w') (w_visited w')"
    using v' by (simp add: dom Un_assoc)
  have 2: "ran (map_of ?vars) \<subseteq> BundleRef ` UNIV"
    using rn by (auto simp: S(1) ran_def map_add_def split: option.splits)
  have 3: "stored (w_heap w') (w_visited w') ?vars"
    unfolding stored_def
  proof (intro allI impI)
    fix i a assume a: "map_of ?vars i = Some (BundleRef a)"
    show "a \<in> ran (map_of (w_visited w')) \<and> bv_identifier (w_heap w' ! a) = i"
    proof (cases "map_of vs i")
      case None
      then show ?thesis using a stored_extends [OF st v ext] by (simp add: S(1) map_add_def stored_def)
    next
      case (Some b)
      then show ?thesis using a rv vars_okD [OF vo Some] by (auto simp: S(1) map_add_def ran_def)
    qed
  qed
  have old: "a \<in> ran (map_of (w_visited w')) \<and> bv_identifier (w_heap w' ! a) \<in> dom (map_of ?vars) \<and>
      (\<exists>e \<in> pool F. bv_identifier (w_heap w' ! a) = entry_ident e \<and> wanted (r_libs r) F sub current e)" if "a \<in> set cands" for a
    using inv that extends_ran [OF ext] extends_cell [OF v ext] unfolding cand_inv_def dom by auto
  have new: "a \<in> ran (map_of (w_visited w')) \<and> bv_identifier (w_heap w' ! a) \<in> dom (map_of ?vars) \<and>
      (\<exists>e \<in> pool F. bv_identifier (w_heap w' ! a) = entry_ident e \<and> wanted (r_libs r) F sub current e)"
    if "(i, a) \<in> set (it_bundles it vs)" and i: "bv_identifier (w_heap w' ! a) \<in> set ids" for i a
  proof -
    have dv: "distinct (map fst vs)" using vo by (simp add: vars_ok_def)
    have "(i, a) \<in> set vs" using that(1) permuted_map(3) [OF dv iteratesD(1) [OF it]] by simp
    then have "a \<in> ran (map_of vs)" using dv by (auto simp: ran_def)
    moreover obtain e where "e \<in> set stack" "bv_identifier (w_heap w' ! a) = entry_ident e" using i ids by auto
    moreover have "bv_identifier (w_heap w' ! a) \<in> dom (map_of ?vars)" using i sub dom by auto
    ultimately show ?thesis using rv stack by auto
  qed
  let ?cands = "cands @ map snd (filter (\<lambda>(i, a). bv_identifier (w_heap w' ! a) \<in> set ids) (it_bundles it vs))"
  have "\<forall>a \<in> set ?cands. a \<in> set cands \<or>
      (\<exists>i. (i, a) \<in> set (it_bundles it vs) \<and> bv_identifier (w_heap w' ! a) \<in> set ids)" by auto
  then have 4: "\<forall>a \<in> set ?cands. a \<in> ran (map_of (w_visited w')) \<and> bv_identifier (w_heap w' ! a) \<in> dom (map_of ?vars) \<and>
      (\<exists>e \<in> pool F. bv_identifier (w_heap w' ! a) = entry_ident e \<and> wanted (r_libs r) F sub current e)"
    using old new by blast
  show ?thesis unfolding cand_inv_def using 1 2 3 4 S(2) [OF d] ext by blast
qed

lemma collect_candidates_inv:
  assumes gf: "good_finder F" and cs: "closed_system r" and it: "iterates it"
  shows "cand_inv r F K sub current w cands vars \<Longrightarrow>
    collect_candidates r F it sub current os w cands vars = (Inr (cands', vars'), w') \<Longrightarrow>
    cand_inv r F K sub current w' cands' vars' \<and> extends (w_heap w) (w_visited w) (w_heap w') (w_visited w')"
proof (induction os arbitrary: w cands vars)
  case Nil
  then show ?case by (auto simp: extends_def)
next
  case (Cons o' os)
  obtain stack where stack: "f_Catalog (r_libs r) F (subscription_catalog sub)
      (cachePredicates sub current @ [csvNamePredicate (e_Name o')]) = Some stack"
      "set stack = {e \<in> catalog_entries F (subscription_catalog sub).
         passes (r_libs r) (cachePredicates sub current @ [csvNamePredicate (e_Name o')]) e}"
    using f_Catalog_good [OF gf] by blast
  have sub': "set stack \<subseteq> {e \<in> pool F. wanted (r_libs r) F sub current e}"
    using catalog_entries_pool [of F "subscription_catalog sub"] stack(2) by (auto simp: wanted_def)
  obtain ids vs w1 where get: "getBundleVariables r F (sub_Namespace sub) stack w = (Inr (ids, vs), w1)"
    using Cons.prems(2) stack(1) by (auto split: prod.splits sum.splits)
  note S = cand_inv_step [OF Cons.prems(1) gf cs it sub' get]
  have "collect_candidates r F it sub current os w1
      (cands @ map snd (filter (\<lambda>(i, a). bv_identifier (w_heap w1 ! a) \<in> set ids) (it_bundles it vs)))
      (store_bundles (w_heap w1) (it_bundles it vs) vars) = (Inr (cands', vars'), w')"
    using Cons.prems(2) stack(1) get by (auto simp: Let_def split: if_splits)
  from Cons.IH [OF S [THEN conjunct1] this] S show ?case using extends_heap_trans by blast
qed

subsection \<open>The variables of a subscription\<close>

lemma mark_replaces_cells:
  assumes "\<forall>a \<in> set cands. a < length heap"
  shows "length (mark_replaces sub current cands heap) = length heap \<and>
    (\<forall>j < length heap. bv_identifier (mark_replaces sub current cands heap ! j) = bv_identifier (heap ! j) \<and>
       set (bv_constraints (heap ! j)) \<subseteq> set (bv_constraints (mark_replaces sub current cands heap ! j)) \<and>
       bv_refs (mark_replaces sub current cands heap ! j) \<subseteq> bv_refs (heap ! j) \<union> current_ident sub ` set_option current)"
proof (cases current)
  case (Some c)
  let ?f = "\<lambda>h a. h[a := AddConflict ((h ! a)\<lparr>bv_Replaces := e_Name c\<rparr>) (current_ident sub c)]"
  have "length (foldl ?f heap cands) = length heap \<and>
    (\<forall>j < length heap. bv_identifier (foldl ?f heap cands ! j) = bv_identifier (heap ! j) \<and>
       set (bv_constraints (heap ! j)) \<subseteq> set (bv_constraints (foldl ?f heap cands ! j)) \<and>
       bv_refs (foldl ?f heap cands ! j) \<subseteq> insert (current_ident sub c) (bv_refs (heap ! j)))"
    using assms
  proof (induction cands arbitrary: heap)
    case (Cons a cands)
    let ?h = "?f heap a"
    have h: "bv_identifier (?h ! j) = bv_identifier (heap ! j) \<and> set (bv_constraints (heap ! j)) \<subseteq> set (bv_constraints (?h ! j)) \<and>
        bv_refs (?h ! j) \<subseteq> insert (current_ident sub c) (bv_refs (heap ! j))" if "j < length heap" for j
      using that by (cases "a = j") (auto simp: bv_refs_def)
    have "\<forall>a \<in> set cands. a < length ?h" using Cons.prems by simp
    note IH = Cons.IH [OF this]
    show ?case using IH h by (simp, blast)
  qed auto
  then show ?thesis by (simp add: mark_replaces_def Some)
qed (simp add: mark_replaces_def)

lemma visited_ok_cells:
  assumes "visited_ok r F K heap visited" and "length heap' = length heap"
    and "\<forall>j < length heap. bv_identifier (heap' ! j) = bv_identifier (heap ! j) \<and>
       set (bv_constraints (heap ! j)) \<subseteq> set (bv_constraints (heap' ! j)) \<and> bv_refs (heap' ! j) \<subseteq> bv_refs (heap ! j) \<union> R"
    and "K \<union> R \<subseteq> K'"
  shows "visited_ok r F K' heap' visited"
  unfolding visited_ok_def
proof (intro allI impI)
  fix x a assume "map_of visited x = Some a"
  then obtain e where e: "a < length heap" "e \<in> pool F" "e_addr e = x" "bv_ok r F K e (heap ! a)"
    using assms(1) unfolding visited_ok_def by blast
  have c: "bv_identifier (heap' ! a) = bv_identifier (heap ! a)" "set (bv_constraints (heap ! a)) \<subseteq> set (bv_constraints (heap' ! a))"
    "bv_refs (heap' ! a) \<subseteq> bv_refs (heap ! a) \<union> R" using assms(3) e(1) by auto
  have "bv_ok r F K' e (heap' ! a)"
    unfolding bv_ok_def
  proof (intro conjI)
    show "bv_identifier (heap' ! a) = entry_ident e" using c(1) e(4) by (simp add: bv_ok_def)
    show "bv_refs (heap' ! a) \<subseteq> K'" using c(3) e(4) assms(4) by (auto simp: bv_ok_def)
    show "\<exists>base. newBundleVariableFromEntry r e = Inr base \<and> set (bv_constraints base) \<subseteq> set (bv_constraints (heap' ! a))"
      using c(2) e(4) unfolding bv_ok_def by blast
    show "\<exists>ds. convertDependencyProperties (r_libs r) (e_Properties e) = Inr ds \<and> (\<forall>d \<in> set ds. requires (r_libs r) F d (heap' ! a))"
      using requires_mono [OF _ c(2)] e(4) unfolding bv_ok_def by blast
  qed
  then show "a < length heap' \<and> (\<exists>e \<in> pool F. e_addr e = x \<and> bv_ok r F K' e (heap' ! a))"
    using e assms(2) by auto
qed

text \<open>Later calls may add constraints to a variable but keep its identifier.\<close>

definition evolves :: "world \<Rightarrow> world \<Rightarrow> bool" where
  "evolves w w' \<longleftrightarrow> length (w_heap w) \<le> length (w_heap w') \<and>
     (\<forall>j < length (w_heap w). bv_identifier (w_heap w' ! j) = bv_identifier (w_heap w ! j)) \<and>
     map_of (w_visited w) \<subseteq>\<^sub>m map_of (w_visited w')"

lemma stored_evolves:
  assumes "stored (w_heap w) (w_visited w) vars" and "visited_ok r F K (w_heap w) (w_visited w)" and "evolves w w'"
  shows "stored (w_heap w') (w_visited w') vars"
  unfolding stored_def
proof (intro allI impI)
  fix i a assume "map_of vars i = Some (BundleRef a)"
  then have a: "a \<in> ran (map_of (w_visited w))" "bv_identifier (w_heap w ! a) = i" using assms(1) by (auto simp: stored_def)
  have "a < length (w_heap w)" by (rule visited_ran_bound [OF assms(2) a(1)])
  moreover have "a \<in> ran (map_of (w_visited w'))"
    using a(1) assms(3) by (auto simp: evolves_def ran_def map_le_def dom_def) metis
  ultimately show "a \<in> ran (map_of (w_visited w')) \<and> bv_identifier (w_heap w' ! a) = i"
    using a(2) assms(3) by (simp add: evolves_def)
qed

definition sub_ident :: "Subscription \<Rightarrow> ident" where
  "sub_ident sub = ''subscription:'' @ sub_Name sub"

definition var_refs :: "solver_variable \<Rightarrow> ident set" where
  "var_refs v = (\<Union>c \<in> set (Constraints v). refs c)"

text \<open>What a solution of a subscription's variable contains: the installed operator or a wanted one\<close>

definition satisfies_sub ::
    "('v, 'p) libs \<Rightarrow> 'v finder \<Rightarrow> Subscription \<Rightarrow> 'v Entry option \<Rightarrow> ident set \<Rightarrow> bool" where
  "satisfies_sub L F sub current S \<longleftrightarrow>
     (\<exists>e \<in> pool F. entry_ident e \<in> S \<and> (wanted L F sub current e \<or> current = Some e))"

lemma subscription_ident [simp]:
  "Identifier (NewSubscriptionVariable (sub_Name sub) ids) = sub_ident sub"
  "Identifier (NewInvalidSubscriptionVariable (sub_Name sub) reason) = sub_ident sub"
  by (simp_all add: NewSubscriptionVariable_def NewInvalidSubscriptionVariable_def sub_ident_def Let_def)

lemma subscription_refs:
  "var_refs (NewSubscriptionVariable name ids) = set ids" "var_refs (NewInvalidSubscriptionVariable name reason) = {}"
  by (auto simp: var_refs_def NewSubscriptionVariable_def NewInvalidSubscriptionVariable_def Let_def)

lemma invalid_subscription_SomeD:
  "invalid_subscription sub n = Some si \<Longrightarrow> \<exists>reason. si = NewInvalidSubscriptionVariable (sub_Name sub) reason"
  by (auto simp: invalid_subscription_def Let_def split: if_splits)

definition generic_at :: "ident \<Rightarrow> solver_variable \<Rightarrow> bool" where
  "generic_at i g \<longleftrightarrow> (\<exists>cs. g = GenericVariable i cs)"

lemma generic_at_ident [simp]: "generic_at i g \<Longrightarrow> Identifier g = i"
  by (auto simp: generic_at_def)

lemma generic_at_variables [simp]:
  "generic_at (sub_ident sub) (NewSubscriptionVariable (sub_Name sub) ids)"
  "generic_at (sub_ident sub) (NewInvalidSubscriptionVariable (sub_Name sub) reason)"
  by (simp_all add: generic_at_def sub_ident_def NewSubscriptionVariable_def NewInvalidSubscriptionVariable_def Let_def)

definition sub_result ::
    "('v, 'p) Resolver \<Rightarrow> 'v finder \<Rightarrow> ident set \<Rightarrow> Subscription \<Rightarrow> 'v Entry option \<Rightarrow> rvars \<Rightarrow> world \<Rightarrow> bool" where
  "sub_result r F K sub current vars w \<longleftrightarrow>
     visited_ok r F (K \<union> dom (map_of vars)) (w_heap w) (w_visited w) \<and> distinct (map fst vars) \<and>
     stored (w_heap w) (w_visited w) vars \<and>
     (\<exists>g. map_of vars (sub_ident sub) = Some (Generic g) \<and>
        (\<forall>S. admits S g \<longrightarrow> satisfies_sub (r_libs r) F sub current S)) \<and>
     (\<forall>i g. map_of vars i = Some (Generic g) \<longrightarrow>
        i = sub_ident sub \<and> generic_at i g \<and> var_refs g \<subseteq> K \<union> dom (map_of vars))"

lemma stored_idents:
  assumes "visited_ok r F K heap visited" and "a \<in> ran (map_of visited)"
  shows "\<exists>e \<in> pool F. bv_identifier (heap ! a) = entry_ident e \<and> bv_ok r F K e (heap ! a)"
  using assms unfolding visited_ok_def ran_def bv_ok_def by blast

lemma subscription_variables_ok:
  assumes inv: "cand_inv r F K sub current w cands vars"
    and cur: "\<forall>c \<in> set_option current. current_ident sub c \<in> K \<and> c \<in> pool F \<and> entry_ident c = current_ident sub c"
    and heap: "heap = mark_replaces sub current cands (w_heap w)"
    and deps: "depIds = map (\<lambda>a. bv_identifier (heap ! a)) cands @ map (current_ident sub) (case current of None \<Rightarrow> [] | Some c \<Rightarrow> [c])"
    and g: "g = NewSubscriptionVariable (sub_Name sub) depIds"
  shows "sub_result r F K sub current (AList.update (sub_ident sub) (Generic g) vars) (w\<lparr>w_heap := heap\<rparr>)"
proof -
  have v: "visited_ok r F (K \<union> dom (map_of vars)) (w_heap w) (w_visited w)" and d: "distinct (map fst vars)"
    and rn: "ran (map_of vars) \<subseteq> BundleRef ` UNIV" and st: "stored (w_heap w) (w_visited w) vars"
    and cands: "\<forall>a \<in> set cands. a \<in> ran (map_of (w_visited w)) \<and> bv_identifier (w_heap w ! a) \<in> dom (map_of vars) \<and>
      (\<exists>e \<in> pool F. bv_identifier (w_heap w ! a) = entry_ident e \<and> wanted (r_libs r) F sub current e)"
    using inv by (simp_all add: cand_inv_def)
  have len: "\<forall>a \<in> set cands. a < length (w_heap w)" using cands visited_ran_bound [OF v] by blast
  have cells: "length heap = length (w_heap w)"
    "\<forall>j < length (w_heap w). bv_identifier (heap ! j) = bv_identifier (w_heap w ! j) \<and>
       set (bv_constraints (w_heap w ! j)) \<subseteq> set (bv_constraints (heap ! j)) \<and>
       bv_refs (heap ! j) \<subseteq> bv_refs (w_heap w ! j) \<union> current_ident sub ` set_option current"
    using mark_replaces_cells [OF len, of sub current] by (auto simp: heap)
  let ?vars = "AList.update (sub_ident sub) (Generic g) vars"
  have dom: "dom (map_of ?vars) = insert (sub_ident sub) (dom (map_of vars))" by (simp add: alist_simps)
  have curK: "current_ident sub ` set_option current \<subseteq> K" using cur by blast
  have 1: "visited_ok r F (K \<union> dom (map_of ?vars)) heap (w_visited w)"
    by (rule visited_ok_cells [OF v cells]) (use curK dom in blast)
  have 2: "stored heap (w_visited w) ?vars"
    using st cells(2) visited_ran_bound [OF v] by (auto simp: stored_def alist_simps split: if_splits)
  have setdeps: "set depIds = (\<lambda>a. bv_identifier (w_heap w ! a)) ` set cands \<union> current_ident sub ` set_option current"
    using cells(2) len by (auto simp: deps image_iff split: option.splits) 
  have 3: "satisfies_sub (r_libs r) F sub current S" if adm: "admits S g" for S
  proof -
    obtain i where i: "i \<in> set depIds" "i \<in> S" using adm by (auto simp: g admits_subscription)
    then consider a where "a \<in> set cands" "i = bv_identifier (w_heap w ! a)"
      | c where "current = Some c" "i = current_ident sub c" using setdeps by auto
    then show ?thesis
    proof cases
      case 1
      then obtain e where "e \<in> pool F" "i = entry_ident e" "wanted (r_libs r) F sub current e" using cands by blast
      then show ?thesis using i(2) unfolding satisfies_sub_def by blast
    next
      case 2
      then have "c \<in> pool F" "entry_ident c = i" using cur by auto
      then show ?thesis using i(2) 2(1) unfolding satisfies_sub_def by blast
    qed
  qed
  have "(\<lambda>a. bv_identifier (w_heap w ! a)) ` set cands \<subseteq> dom (map_of vars)"
    by (rule image_subsetI) (use cands in simp)
  then have "set depIds \<subseteq> K \<union> dom (map_of vars)" unfolding setdeps using curK by blast
  then have 4: "var_refs g \<subseteq> K \<union> dom (map_of ?vars)" using dom by (auto simp: g subscription_refs)
  have 5: "i = sub_ident sub \<and> g' = g" if "map_of ?vars i = Some (Generic g')" for i g'
    using that rn by (auto simp: alist_simps ran_def split: if_splits)
  show ?thesis
    unfolding sub_result_def
  proof (intro conjI)
    show "distinct (map fst ?vars)" using d by simp
    show "\<exists>g. map_of ?vars (sub_ident sub) = Some (Generic g) \<and> (\<forall>S. admits S g \<longrightarrow> satisfies_sub (r_libs r) F sub current S)"
      using 3 by (simp add: alist_simps)
    show "\<forall>i g. map_of ?vars i = Some (Generic g) \<longrightarrow> i = sub_ident sub \<and> generic_at i g \<and> var_refs g \<subseteq> K \<union> dom (map_of ?vars)"
    proof (intro allI impI)
      fix i g' assume "map_of ?vars i = Some (Generic g')"
      then have "i = sub_ident sub" "g' = g" using 5 by blast+
      then show "i = sub_ident sub \<and> generic_at i g' \<and> var_refs g' \<subseteq> K \<union> dom (map_of ?vars)"
        using 4 by (simp add: g)
    qed
  qed (use 1 2 in simp_all)
qed

lemma getSubscriptionVariables_ok:
  fixes r :: "('v, 'p) Resolver"
  assumes gf: "good_finder F" and cs: "closed_system r" and it: "iterates it"
    and v: "visited_ok r F K (w_heap w) (w_visited w)"
    and cur: "\<forall>c \<in> set_option current. current_ident sub c \<in> K \<and> c \<in> pool F \<and> entry_ident c = current_ident sub c"
    and get: "getSubscriptionVariables r F it sub current w = (Inr vars, w')"
  shows "sub_result r F K sub current vars w' \<and> evolves w w'"
proof -
  obtain cps :: "('v, 'p) Predicate list" where cps: "channelPredicates current = Some cps"
    using get by (cases "channelPredicates current :: ('v, 'p) Predicate list option") (auto simp: getSubscriptionVariables_def)
  obtain entries n where find: "Catalog_Find (r_libs r) (f_headers F) (f_map F) (subscription_catalog sub)
      (cachePredicates sub current) (\<lambda>_. 0) = Some (entries, n)"
    using Catalog_Find_good [OF gf] by blast
  show ?thesis
  proof (cases "invalid_subscription sub n")
    case (Some si)
    obtain reason where si: "si = NewInvalidSubscriptionVariable (sub_Name sub) reason"
      using invalid_subscription_SomeD [OF Some] by blast
    have res: "vars = [(sub_ident sub, Generic si)]" "w' = w"
      using get cps find Some by (simp_all add: getSubscriptionVariables_def si)
    have "visited_ok r F (K \<union> {sub_ident sub}) (w_heap w) (w_visited w)" by (rule visited_ok_mono [OF v]) blast
    then show ?thesis unfolding res
      by (auto simp: sub_result_def stored_def evolves_def si subscription_refs admits_invalid)
  next
    case None
    obtain cands vars0 w1 where col: "collect_candidates r F it sub current
          (the (f_Filter (r_libs r) (projr (sort_runs (go_sort entry_Less entries) '''' [])) cps)) w [] [] =
          (Inr (cands, vars0), w1)"
      and w': "w' = w1\<lparr>w_heap := mark_replaces sub current cands (w_heap w1)\<rparr>"
      and vars: "vars = AList.update (sub_ident sub) (Generic (NewSubscriptionVariable (sub_Name sub)
        (map (\<lambda>a. bv_identifier (mark_replaces sub current cands (w_heap w1) ! a)) cands @
         (case current of None \<Rightarrow> [] | Some c \<Rightarrow> [current_ident sub c])))) vars0"
      using get cps find None
      by (auto simp: getSubscriptionVariables_def Let_def split: sum.splits option.splits prod.splits)
    have init: "cand_inv r F K sub current w [] []" using v by (simp add: cand_inv_def stored_def)
    note C = collect_candidates_inv [OF gf cs it init col]
    have "sub_result r F K sub current vars w'"
      unfolding w' vars
      by (rule subscription_variables_ok [OF C [THEN conjunct1] cur refl refl]) (simp split: option.splits)
    moreover have "evolves w w'"
    proof -
      have v1: "visited_ok r F (K \<union> dom (map_of vars0)) (w_heap w1) (w_visited w1)"
        and "\<forall>a \<in> set cands. a \<in> ran (map_of (w_visited w1))" using C by (simp_all add: cand_inv_def)
      then have "\<forall>a \<in> set cands. a < length (w_heap w1)" using visited_ran_bound by blast
      from mark_replaces_cells [OF this, of sub current] C show ?thesis
        by (auto simp: evolves_def extends_def w')
    qed
    ultimately show ?thesis by simp
  qed
qed

end
