(* ===== verification/Resolver_Sound.thy ===== *)
theory Resolver_Sound
  imports Resolver_Correct
begin

text \<open>
  The input that \<^verbatim>\<open>Resolve\<close> builds for the solver: an invariant of the loop over the subscriptions, the
  invariant variables added at the end, and what a solution of the input contains.
\<close>

subsection \<open>The loop over the subscriptions\<close>

text \<open>Every entry is labelled with the catalog it is found in.\<close>

definition labelled :: "'v finder \<Rightarrow> bool" where
  "labelled F \<longleftrightarrow> (\<forall>(k, a) \<in> set (f_map F). \<forall>e \<in> set (hdr_entries (f_headers F ! a)).
     \<forall>si. e_SourceInfo e = Some si \<longrightarrow> si_Catalog si = k)"

definition rs_inv :: "('v, 'p) Resolver \<Rightarrow> 'v finder \<Rightarrow> rvars \<Rightarrow> world \<Rightarrow> bool" where
  "rs_inv r F vars w \<longleftrightarrow> visited_ok r F (dom (map_of vars)) (w_heap w) (w_visited w) \<and> distinct (map fst vars) \<and>
     stored (w_heap w) (w_visited w) vars \<and>
     (\<forall>i g. map_of vars i = Some (Generic g) \<longrightarrow> generic_at i g \<and> var_refs g \<subseteq> dom (map_of vars))"

definition has_sub :: "('v, 'p) libs \<Rightarrow> 'v finder \<Rightarrow> Subscription \<Rightarrow> rvars \<Rightarrow> bool" where
  "has_sub L F sub vars \<longleftrightarrow> (\<exists>g current. map_of vars (sub_ident sub) = Some (Generic g) \<and>
     current_entry L F sub = Inr current \<and> (\<forall>S. admits S g \<longrightarrow> satisfies_sub L F sub current S))"

lemma sub_result_keyed: "sub_result r F K sub current vars w \<Longrightarrow> keyed (w_heap w) vars"
  unfolding keyed_def sub_result_def
proof (intro conjI allI impI)
  fix i v
  assume "visited_ok r F (K \<union> dom (map_of vars)) (w_heap w) (w_visited w) \<and> distinct (map fst vars) \<and>
     stored (w_heap w) (w_visited w) vars \<and>
     (\<exists>g. map_of vars (sub_ident sub) = Some (Generic g) \<and>
        (\<forall>S. admits S g \<longrightarrow> satisfies_sub (r_libs r) F sub current S)) \<and>
     (\<forall>i g. map_of vars i = Some (Generic g) \<longrightarrow>
        i = sub_ident sub \<and> generic_at i g \<and> var_refs g \<subseteq> K \<union> dom (map_of vars))" and "map_of vars i = Some v"
  then show "Identifier (rvar_variable (w_heap w) v) = i" by (cases v) (auto simp: stored_def)
qed simp

lemma rs_inv_merge:
  assumes inv: "rs_inv r F vars0 w0" and res: "sub_result r F (dom (map_of vars0)) sub current vars w"
    and evo: "evolves w0 w" and it: "iterates it"
  shows "rs_inv r F (store_variables (w_heap w) (it_variables it vars) vars0) w"
    "map_of (store_variables (w_heap w) (it_variables it vars) vars0) = map_of vars0 ++ map_of vars"
proof -
  note S = store_variables_map_of [OF it sub_result_keyed [OF res], of vars0]
  show "map_of (store_variables (w_heap w) (it_variables it vars) vars0) = map_of vars0 ++ map_of vars" by (rule S(1))
  have dom: "dom (map_of vars0 ++ map_of vars) = dom (map_of vars0) \<union> dom (map_of vars)" by auto
  have i0: "visited_ok r F (dom (map_of vars0)) (w_heap w0) (w_visited w0)" "distinct (map fst vars0)"
      "stored (w_heap w0) (w_visited w0) vars0"
      "\<And>i g. map_of vars0 i = Some (Generic g) \<Longrightarrow> generic_at i g \<and> var_refs g \<subseteq> dom (map_of vars0)"
    using inv by (simp_all add: rs_inv_def)
  have i1: "visited_ok r F (dom (map_of vars0) \<union> dom (map_of vars)) (w_heap w) (w_visited w)"
      "stored (w_heap w) (w_visited w) vars"
      "\<And>i g. map_of vars i = Some (Generic g) \<Longrightarrow> generic_at i g \<and> var_refs g \<subseteq> dom (map_of vars0) \<union> dom (map_of vars)"
    using res by (simp_all add: sub_result_def)
  have s0: "stored (w_heap w) (w_visited w) vars0" by (rule stored_evolves [OF i0(3,1) evo])
  show "rs_inv r F (store_variables (w_heap w) (it_variables it vars) vars0) w"
    unfolding rs_inv_def S(1) dom stored_def
  proof (intro conjI allI impI)
    fix i a assume "(map_of vars0 ++ map_of vars) i = Some (BundleRef a)"
    then show "a \<in> ran (map_of (w_visited w))" "bv_identifier (w_heap w ! a) = i"
      using s0 i1(2) by (auto simp: stored_def)
  next
    fix i g assume g: "(map_of vars0 ++ map_of vars) i = Some (Generic g)"
    show "generic_at i g" using g i0(4) i1(3) by (auto simp: map_add_Some_iff)
    show "var_refs g \<subseteq> dom (map_of vars0) \<union> dom (map_of vars)"
      using g unfolding map_add_Some_iff by (metis i0(4) i1(3) le_supI1)
  qed (use i1(1) S(2) [OF i0(2)] in simp_all)
qed

lemma current_entryD:
  assumes "good_finder F" and "labelled F" and "current_entry L F sub = Inr (Some c)"
  shows "c \<in> catalog_entries F (NewVirtualSourceKey (sub_Namespace sub))" "c \<in> pool F"
    "e_Name c = sub_InstalledCSV sub" "entry_ident c = current_ident sub c"
proof -
  let ?k = "NewVirtualSourceKey (sub_Namespace sub)"
  obtain es where es: "f_Catalog L F ?k [csvNamePredicate (sub_InstalledCSV sub)] = Some es"
      "set es = {e \<in> catalog_entries F ?k. passes L [csvNamePredicate (sub_InstalledCSV sub)] e}"
    using f_Catalog_good [OF assms(1)] by blast
  have c: "c \<in> set es" using assms(3) es(1) by (auto simp: current_entry_def split: if_splits)
  show 1: "c \<in> catalog_entries F ?k" "e_Name c = sub_InstalledCSV sub" using c es(2) by auto
  show p: "c \<in> pool F" using 1 catalog_entries_pool by blast
  obtain si where si: "e_SourceInfo c = Some si" using pool_sourced [OF assms(1) p] by (auto simp: sourced_def)
  have "\<not> SourceKey_Empty ?k" by (simp add: SourceKey_Empty_def NewVirtualSourceKey_def existingOperatorKey_def)
  then obtain a where "map_of (f_map F) ?k = Some a" "c \<in> set (hdr_entries (f_headers F ! a))"
    using 1 by (auto simp: catalog_entries_def split: option.splits)
  then have "si_Catalog si = ?k" using assms(2) si map_of_SomeD unfolding labelled_def by fastforce
  then show "entry_ident c = current_ident sub c" by (simp add: entry_ident_def current_ident_def si)
qed

lemma resolve_subs_Cons:
  assumes "current_entry (r_libs r) F sub = Inr current"
    and "getSubscriptionVariables r F it sub current (rs_world st) = (res, w)"
  obtains st1 where "rs_variables st1 = rs_variables st" "rs_world st1 = rs_world st" "rs_errs st1 = rs_errs st"
    "resolve_subs r F it (sub # subs) st = (case res of
      Inl err \<Rightarrow> if err = Panic then Inl Panic
        else resolve_subs r F it subs (st1\<lparr>rs_world := w, rs_errs := rs_errs st1 @ [err]\<rparr>)
    | Inr subVariables \<Rightarrow> resolve_subs r F it subs (st1\<lparr>rs_world := w,
        rs_variables := store_variables (w_heap w) (it_variables it subVariables) (rs_variables st1)\<rparr>))"
proof -
  define st1 where "st1 = (if current = None \<and> sub_StartingCSV sub \<noteq> []
      then st\<lparr>rs_startingCSVs := sub_StartingCSV sub # rs_startingCSVs st\<rparr> else st)"
  have st1: "rs_variables st1 = rs_variables st" "rs_world st1 = rs_world st" "rs_errs st1 = rs_errs st"
    by (simp_all add: st1_def)
  show ?thesis
    by (rule that [OF st1]) (use assms st1 in \<open>simp add: st1_def [symmetric] Let_def split: sum.split\<close>)
qed

lemma resolve_subs_errs: "resolve_subs r F it subs st = Inr st' \<Longrightarrow> \<exists>es. rs_errs st' = rs_errs st @ es"
proof (induction subs arbitrary: st)
  case (Cons sub subs)
  then show ?case by (fastforce simp: Let_def split: sum.splits prod.splits if_splits)
qed simp

text \<open>One subscription after another: the invariant holds, nothing stored is lost, and each subscription's
  variable stays, when no two variables share an identifier.\<close>

lemma resolve_subs_inv:
  fixes r :: "('v, 'p) Resolver"
  assumes gf: "good_finder F" and lb: "labelled F" and cs: "closed_system r" and it: "iterates it"
  shows "rs_inv r F (rs_variables st) (rs_world st) \<Longrightarrow>
    \<forall>sub \<in> set subs. entry_ident ` catalog_entries F (NewVirtualSourceKey (sub_Namespace sub)) \<subseteq> dom (map_of (rs_variables st)) \<Longrightarrow>
    resolve_subs r F it subs st = Inr st' \<Longrightarrow> rs_errs st' = [] \<Longrightarrow>
    rs_inv r F (rs_variables st') (rs_world st') \<and>
    dom (map_of (rs_variables st)) \<subseteq> dom (map_of (rs_variables st')) \<and>
    (\<forall>i. i \<notin> entry_ident ` pool F \<union> sub_ident ` set subs \<longrightarrow> map_of (rs_variables st') i = map_of (rs_variables st) i) \<and>
    (\<forall>i g. map_of (rs_variables st') i = Some (Generic g) \<longrightarrow>
       i \<in> sub_ident ` set subs \<or> map_of (rs_variables st) i = Some (Generic g)) \<and>
    (distinct (map sub_ident subs) \<and> sub_ident ` set subs \<inter> entry_ident ` pool F = {} \<longrightarrow>
       (\<forall>sub \<in> set subs. has_sub (r_libs r) F sub (rs_variables st')))"
proof (induction subs arbitrary: st)
  case Nil
  then show ?case by simp
next
  case (Cons sub subs)
  let ?L = "r_libs r"
  obtain current where cur: "current_entry ?L F sub = Inr current" using Cons.prems(3) by (auto split: sum.splits)
  obtain res w where get: "getSubscriptionVariables r F it sub current (rs_world st) = (res, w)" by force
  obtain st1 where st1: "rs_variables st1 = rs_variables st" "rs_world st1 = rs_world st"
    and run: "resolve_subs r F it (sub # subs) st = (case res of
      Inl err \<Rightarrow> if err = Panic then Inl Panic
        else resolve_subs r F it subs (st1\<lparr>rs_world := w, rs_errs := rs_errs st1 @ [err]\<rparr>)
    | Inr subVariables \<Rightarrow> resolve_subs r F it subs (st1\<lparr>rs_world := w,
        rs_variables := store_variables (w_heap w) (it_variables it subVariables) (rs_variables st1)\<rparr>))"
    by (rule resolve_subs_Cons [OF cur get, of subs])
  obtain vars where res: "res = Inr vars"
  proof (cases res)
    case (Inl err)
    then have "resolve_subs r F it subs (st1\<lparr>rs_world := w, rs_errs := rs_errs st1 @ [err]\<rparr>) = Inr st'"
      using Cons.prems(3) run by (simp split: if_splits)
    then show ?thesis using resolve_subs_errs Cons.prems(4) by fastforce
  qed (use that in blast)
  let ?K = "dom (map_of (rs_variables st))"
  have inv: "visited_ok r F ?K (w_heap (rs_world st)) (w_visited (rs_world st))" using Cons.prems(1) by (simp add: rs_inv_def)
  have "\<forall>c \<in> set_option current. current_ident sub c \<in> ?K \<and> c \<in> pool F \<and> entry_ident c = current_ident sub c"
  proof
    fix c assume "c \<in> set_option current"
    then have "current_entry ?L F sub = Inr (Some c)" using cur by (cases current) auto
    note c = current_entryD [OF gf lb this]
    have "entry_ident c \<in> ?K" using c(1) Cons.prems(2) by auto
    then show "current_ident sub c \<in> ?K \<and> c \<in> pool F \<and> entry_ident c = current_ident sub c" using c by simp
  qed
  note G = getSubscriptionVariables_ok [OF gf cs it inv this get [unfolded res]]
  define vars' where "vars' = store_variables (w_heap w) (it_variables it vars) (rs_variables st)"
  note M = rs_inv_merge [OF Cons.prems(1) G [THEN conjunct1] G [THEN conjunct2] it, folded vars'_def]
  let ?st2 = "st1\<lparr>rs_world := w, rs_variables := vars'\<rparr>"
  have run2: "resolve_subs r F it subs ?st2 = Inr st'" using Cons.prems(3) run res st1 by (simp add: vars'_def)
  have dom: "dom (map_of vars') = ?K \<union> dom (map_of vars)" by (auto simp: M(2))
  have IH: "rs_inv r F (rs_variables st') (rs_world st')"
      "dom (map_of vars') \<subseteq> dom (map_of (rs_variables st'))"
      "\<forall>i. i \<notin> entry_ident ` pool F \<union> sub_ident ` set subs \<longrightarrow> map_of (rs_variables st') i = map_of vars' i"
      "distinct (map sub_ident subs) \<and> sub_ident ` set subs \<inter> entry_ident ` pool F = {} \<longrightarrow>
       (\<forall>sub \<in> set subs. has_sub ?L F sub (rs_variables st'))"
      "\<forall>i g. map_of (rs_variables st') i = Some (Generic g) \<longrightarrow>
         i \<in> sub_ident ` set subs \<or> map_of vars' i = Some (Generic g)"
    using Cons.IH [of ?st2] M(1) run2 Cons.prems(2,4) dom by (simp_all add: subset_iff)
  have keys: "i \<in> entry_ident ` pool F \<union> {sub_ident sub}" if iv: "i \<in> dom (map_of vars)" for i
  proof -
    obtain v where v: "map_of vars i = Some v" using iv by auto
    show ?thesis
    proof (cases v)
      case (BundleRef a)
      then have "a \<in> ran (map_of (w_visited w))" "bv_identifier (w_heap w ! a) = i"
        using G v by (auto simp: sub_result_def stored_def)
      moreover have "visited_ok r F (?K \<union> dom (map_of vars)) (w_heap w) (w_visited w)" using G by (simp add: sub_result_def)
      ultimately show ?thesis using stored_idents by blast
    next
      case (Generic g)
      then show ?thesis using G v by (simp add: sub_result_def)
    qed
  qed
  have frame: "map_of (rs_variables st') i = map_of (rs_variables st) i"
    if "i \<notin> entry_ident ` pool F \<union> sub_ident ` set (sub # subs)" for i
  proof -
    have "i \<notin> dom (map_of vars)" using keys that by auto
    then show ?thesis using IH(3) that by (auto simp: M(2) map_add_def split: option.splits)
  qed
  have gens: "\<forall>i g. map_of (rs_variables st') i = Some (Generic g) \<longrightarrow>
      i \<in> sub_ident ` set (sub # subs) \<or> map_of (rs_variables st) i = Some (Generic g)"
  proof (intro allI impI)
    fix i g assume "map_of (rs_variables st') i = Some (Generic g)"
    then consider "i \<in> sub_ident ` set subs" | "map_of vars i = Some (Generic g)" | "map_of (rs_variables st) i = Some (Generic g)"
      using IH(5) by (auto simp: M(2))
    then show "i \<in> sub_ident ` set (sub # subs) \<or> map_of (rs_variables st) i = Some (Generic g)"
      using G by cases (auto simp: sub_result_def)
  qed
  have here: "has_sub ?L F sub (rs_variables st')"
    if "distinct (map sub_ident (sub # subs))" "sub_ident ` set (sub # subs) \<inter> entry_ident ` pool F = {}"
  proof -
    have "map_of (rs_variables st') (sub_ident sub) = map_of vars' (sub_ident sub)" using IH(3) that by auto
    moreover obtain g where "map_of vars (sub_ident sub) = Some (Generic g)"
        "\<forall>S. admits S g \<longrightarrow> satisfies_sub ?L F sub current S"
      using G unfolding sub_result_def by blast
    ultimately show ?thesis using cur by (auto simp: has_sub_def M(2))
  qed
  show ?case
    using IH(1,2,4) frame here dom gens by simp
qed

subsection \<open>The invariants added at the end\<close>

lemma store_generics:
  shows "dom (map_of (foldl store_generic vars ss)) = dom (map_of vars) \<union> Identifier ` set ss"
    and "distinct (map fst vars) \<Longrightarrow> distinct (map fst (foldl store_generic vars ss))"
    and "i \<notin> Identifier ` set ss \<Longrightarrow> map_of (foldl store_generic vars ss) i = map_of vars i"
proof (induction ss arbitrary: vars)
  case (Cons s ss)
  { case 1 then show ?case using Cons.IH(1) [of "store_generic vars s"]
      by (simp add: store_generic_def [of vars s] dom_map_of_update)
  next case 2 then show ?case using Cons.IH(2) [of "store_generic vars s"]
      by (simp add: store_generic_def [of vars s])
  next case 3 then show ?case using Cons.IH(3) [of "store_generic vars s"]
      by (simp add: store_generic_def [of vars s] alist_simps) }
qed simp_all

lemma store_generics_Some:
  "map_of (foldl store_generic vars ss) i = Some v \<Longrightarrow>
     map_of vars i = Some v \<or> (\<exists>s \<in> set ss. v = Generic s \<and> Identifier s = i)"
proof (induction ss arbitrary: vars)
  case (Cons s ss)
  then show ?case using Cons.IH [of "store_generic vars s"]
    by (auto simp: store_generic_def [of vars s] alist_simps split: if_splits)
qed simp

lemma store_generics_at:
  "distinct (map Identifier ss) \<Longrightarrow> s \<in> set ss \<Longrightarrow> map_of (foldl store_generic vars ss) (Identifier s) = Some (Generic s)"
proof (induction ss arbitrary: vars)
  case (Cons t ss)
  show ?case
  proof (cases "s \<in> set ss")
    case False
    then have "s = t" "Identifier s \<notin> Identifier ` set ss" using Cons.prems by auto
    then show ?thesis using store_generics(3) [of "Identifier s" ss "store_generic vars s"]
      by (simp add: store_generic_def [of vars t] alist_simps)
  qed (use Cons in auto)
qed simp

text \<open>The providers that are collected for a key\<close>

abbreviation providers :: "('k \<times> ident list) list \<Rightarrow> 'k \<Rightarrow> ident list" where
  "providers m k \<equiv> (case map_of m k of Some is \<Rightarrow> is | None \<Rightarrow> [])"

lemma add_provider_map: "map_of (add_provider k i m) k' = (if k' = k then Some (providers m k @ [i]) else map_of m k')"
  by (simp add: add_provider_def alist_simps)

lemma add_providers:
  "set (providers (foldl (\<lambda>m k. add_provider k i m) m ks) k) = set (providers m k) \<union> (if k \<in> set ks then {i} else {})"
  "dom (map_of (foldl (\<lambda>m k. add_provider k i m) m ks)) = dom (map_of m) \<union> set ks"
  "distinct (map fst m) \<Longrightarrow> distinct (map fst (foldl (\<lambda>m k. add_provider k i m) m ks))"
proof (induction ks arbitrary: m)
  case (Cons k' ks)
  { case 1 then show ?case using Cons.IH(1) [of "add_provider k' i m"] by (auto simp: add_provider_map)
  next case 2 then show ?case using Cons.IH(2) [of "add_provider k' i m"] by (auto simp: add_provider_map dom_def)
  next case 3 then show ?case using Cons.IH(3) [of "add_provider k' i m"] by (simp add: add_provider_def) }
qed auto

text \<open>The identifiers of the bundles in \<open>vs\<close> whose entry provides \<open>k\<close>\<close>

definition provided_by ::
    "('v, 'p) libs \<Rightarrow> 'v finder \<Rightarrow> BundleVar list \<Rightarrow> ('v Entry \<Rightarrow> 'k list) \<Rightarrow> rvars \<Rightarrow> 'k \<Rightarrow> ident set" where
  "provided_by L F heap P vs k =
     {bv_identifier (heap ! a) | i a op. (i, BundleRef a) \<in> set vs \<and>
        variable_entry L F (bv_identifier (heap ! a)) = Inr (Some op) \<and> k \<in> set (P op)}"

lemma provided_by_simps:
  "provided_by L F heap P [] k = {}"
  "provided_by L F heap P ((i, Generic g) # vs) k = provided_by L F heap P vs k"
  "provided_by L F heap P ((i, BundleRef a) # vs) k = provided_by L F heap P vs k \<union>
     (case variable_entry L F (bv_identifier (heap ! a)) of
        Inr (Some op) \<Rightarrow> if k \<in> set (P op) then {bv_identifier (heap ! a)} else {} | _ \<Rightarrow> {})"
  by (auto simp: provided_by_def split: sum.splits option.splits)

lemma conflict_maps_result:
  "conflict_maps L F heap vs gvks pkgs = Some (gvks', pkgs') \<Longrightarrow>
     (\<forall>k. set (providers gvks' k) = set (providers gvks k) \<union> provided_by L F heap provided_GVKs vs k) \<and>
     (\<forall>k. set (providers pkgs' k) = set (providers pkgs k) \<union> provided_by L F heap provided_packages vs k) \<and>
     (distinct (map fst gvks) \<longrightarrow> distinct (map fst gvks')) \<and> (distinct (map fst pkgs) \<longrightarrow> distinct (map fst pkgs')) \<and>
     (\<forall>k \<in> dom (map_of gvks'). k \<in> dom (map_of gvks) \<or> provided_by L F heap provided_GVKs vs k \<noteq> {}) \<and>
     (\<forall>k \<in> dom (map_of pkgs'). k \<in> dom (map_of pkgs) \<or> provided_by L F heap provided_packages vs k \<noteq> {})"
proof (induction L F heap vs gvks pkgs rule: conflict_maps.induct)
  case (3 L F heap i a vs gvks pkgs)
  let ?i = "bv_identifier (heap ! a)"
  show ?case
  proof (cases "variable_entry L F ?i")
    case (Inl err)
    then show ?thesis using "3.prems" by simp
  next
    case (Inr e)
    note e = Inr
    show ?thesis
    proof (cases e)
      case None
      then show ?thesis using "3.IH"(1) [OF Inr] "3.prems" e by (simp add: provided_by_simps)
    next
      case (Some op)
      note IH = "3.IH"(2) [OF Inr Some]
      show ?thesis using IH "3.prems" e Some by (auto simp: provided_by_simps add_providers)
    qed
  qed
qed (simp_all add: provided_by_simps)

definition gvk_ident :: "GVKProperty \<Rightarrow> ident" where
  "gvk_ident k = gvk_Kind k @ '' ('' @ gvk_Group k @ ''/'' @ gvk_Version k @ '')''"

definition gvk_variable :: "GVKProperty \<times> ident list \<Rightarrow> solver_variable" where
  "gvk_variable = (\<lambda>(k, is). NewSingleAPIProviderVariable (gvk_Group k) (gvk_Version k) (gvk_Kind k) (sort_idents is))"

definition pkg_variable :: "string \<times> ident list \<Rightarrow> solver_variable" where
  "pkg_variable = (\<lambda>(pkg, is). NewSinglePackageInstanceVariable pkg (sort_idents is))"

lemma single_ident [simp]: "Identifier (gvk_variable (k, is)) = gvk_ident k" "Identifier (pkg_variable (pkg, is)) = pkg"
  by (simp_all add: gvk_variable_def pkg_variable_def gvk_ident_def NewSingleAPIProviderVariable_def
      NewSinglePackageInstanceVariable_def Let_def)

lemma single_generic [simp]: "generic_at (gvk_ident k) (gvk_variable (k, is))" "generic_at pkg (pkg_variable (pkg, is))"
  by (simp_all add: generic_at_def gvk_variable_def pkg_variable_def gvk_ident_def NewSingleAPIProviderVariable_def
      NewSinglePackageInstanceVariable_def Let_def)

lemma single_refs: "var_refs (gvk_variable (k, is)) \<subseteq> set is" "var_refs (pkg_variable (pkg, is)) \<subseteq> set is"
  by (auto simp: var_refs_def gvk_variable_def pkg_variable_def sort_idents_def NewSingleAPIProviderVariable_def
      NewSinglePackageInstanceVariable_def Let_def)

lemma two_selected:
  assumes "int (length (filter P xs)) \<le> 1" and "x \<in> set xs" "y \<in> set xs" "P x" "P y"
  shows "x = y"
proof (rule ccontr)
  assume ne: "x \<noteq> y"
  have "{x, y} \<subseteq> set (filter P xs)" using assms by auto
  then have "card {x, y} \<le> card (set (filter P xs))" by (intro card_mono) auto
  also have "\<dots> \<le> length (filter P xs)" by (rule card_length)
  finally show False using ne assms(1) by simp
qed

lemma single_admits:
  assumes "admits S v" and "v = gvk_variable (k, is) \<or> v = pkg_variable (pkg, is)" and "i \<in> set is" "j \<in> set is" "i \<in> S" "j \<in> S"
  shows "i = j"
proof (cases "length is \<le> 1")
  case True
  then show ?thesis using assms(3,4) by (cases "is") auto
next
  case False
  then have "int (length (filter (\<lambda>i. i \<in> S) (sort_idents is))) \<le> 1"
    using assms(1,2) by (auto simp: admits_def gvk_variable_def pkg_variable_def sort_idents_def
        NewSingleAPIProviderVariable_def NewSinglePackageInstanceVariable_def Let_def)
  then show ?thesis using two_selected [of "\<lambda>i. i \<in> S" "sort_idents is" i j] assms(3-6) by (simp add: sort_idents_def)
qed

lemma addInvariants_result:
  assumes "addInvariants L F it heap vars = Some vars'" and it: "iterates it" and "distinct (map fst vars)"
  shows "\<exists>gvks pkgs. vars' = foldl store_generic (foldl store_generic vars (map gvk_variable gvks)) (map pkg_variable pkgs) \<and>
    distinct (map fst gvks) \<and> distinct (map fst pkgs) \<and>
    (\<forall>k. set (providers gvks k) = provided_by L F heap provided_GVKs vars k) \<and>
    (\<forall>k. set (providers pkgs k) = provided_by L F heap provided_packages vars k) \<and>
    (\<forall>k \<in> fst ` set gvks. provided_by L F heap provided_GVKs vars k \<noteq> {}) \<and>
    (\<forall>k \<in> fst ` set pkgs. provided_by L F heap provided_packages vars k \<noteq> {})"
proof -
  obtain gvks pkgs where c: "conflict_maps L F heap (it_variables it vars) [] [] = Some (gvks, pkgs)"
    and v: "vars' = foldl store_generic (foldl store_generic vars (map gvk_variable (it_gvks it gvks)))
      (map pkg_variable (it_packages it pkgs))"
    using assms(1) by (auto simp: addInvariants_def gvk_variable_def pkg_variable_def)
  have same: "provided_by L F heap P (it_variables it vars) k = provided_by L F heap P vars k" for P :: "'a Entry \<Rightarrow> 'k list" and k
    using permuted_map(3) [OF assms(3) iteratesD(2) [OF it]] by (simp add: provided_by_def)
  note C = conflict_maps_result [OF c]
  have d: "distinct (map fst gvks)" "distinct (map fst pkgs)" using C by simp_all
  note pg = permuted_map [OF d(1) iteratesD(3) [OF it]] and pp = permuted_map [OF d(2) iteratesD(4) [OF it]]
  have C': "\<forall>k. set (providers gvks k) = provided_by L F heap provided_GVKs vars k"
    "\<forall>k. set (providers pkgs k) = provided_by L F heap provided_packages vars k"
    using conflict_maps_result [OF c] unfolding same by (simp_all only: map_of.simps option.case list.set Un_empty_left simp_thms)
  have D': "\<forall>k \<in> dom (map_of gvks). provided_by L F heap provided_GVKs vars k \<noteq> {}"
    "\<forall>k \<in> dom (map_of pkgs). provided_by L F heap provided_packages vars k \<noteq> {}"
    using conflict_maps_result [OF c] unfolding same by simp_all
  show ?thesis
  proof (intro exI conjI)
    show "vars' = foldl store_generic (foldl store_generic vars (map gvk_variable (it_gvks it gvks)))
      (map pkg_variable (it_packages it pkgs))" by (rule v)
    show "\<forall>k. set (providers (it_gvks it gvks) k) = provided_by L F heap provided_GVKs vars k"
      "\<forall>k. set (providers (it_packages it pkgs) k) = provided_by L F heap provided_packages vars k"
      unfolding pg(2) pp(2) by (rule C')+
  qed (use pg pp D' in \<open>simp_all add: dom_map_of_conv_image_fst\<close>)
qed

lemma provided_by_idents:
  assumes "rs_inv r F vars w" shows "provided_by L F (w_heap w) P vars k \<subseteq> dom (map_of vars)"
proof
  fix j assume "j \<in> provided_by L F (w_heap w) P vars k"
  then obtain i a where "(i, BundleRef a) \<in> set vars" "j = bv_identifier (w_heap w ! a)" by (auto simp: provided_by_def)
  then have "map_of vars i = Some (BundleRef a)" "j = i" using assms by (auto simp: rs_inv_def stored_def)
  then show "j \<in> dom (map_of vars)" by auto
qed

lemma rs_inv_store_generics:
  assumes inv: "rs_inv r F vars w" and refs: "\<forall>s \<in> set ss. generic_at (Identifier s) s \<and> var_refs s \<subseteq> dom (map_of vars)"
  shows "rs_inv r F (foldl store_generic vars ss) w"
  unfolding rs_inv_def stored_def
proof (intro conjI allI impI)
  let ?vars = "foldl store_generic vars ss"
  have sub: "dom (map_of vars) \<subseteq> dom (map_of ?vars)" by (auto simp: store_generics(1))
  have i0: "visited_ok r F (dom (map_of vars)) (w_heap w) (w_visited w)" "distinct (map fst vars)" using inv by (simp_all add: rs_inv_def)
  show "visited_ok r F (dom (map_of ?vars)) (w_heap w) (w_visited w)" by (rule visited_ok_mono [OF i0(1) sub])
  show "distinct (map fst ?vars)" by (rule store_generics(2) [OF i0(2)])
  show "a \<in> ran (map_of (w_visited w))" "bv_identifier (w_heap w ! a) = i" if "map_of ?vars i = Some (BundleRef a)" for i a
    using store_generics_Some [OF that] inv by (auto simp: rs_inv_def stored_def)
  fix i g assume "map_of ?vars i = Some (Generic g)"
  then consider "map_of vars i = Some (Generic g)" | "g \<in> set ss" "Identifier g = i"
    using store_generics_Some by blast
  then have *: "generic_at i g \<and> var_refs g \<subseteq> dom (map_of ?vars)"
  proof cases
    case 1
    then have "generic_at i g" "var_refs g \<subseteq> dom (map_of vars)" using inv by (simp_all add: rs_inv_def)
    from subset_trans [OF this(2) sub] this(1) show ?thesis by simp
  next
    case 2
    then have "generic_at i g" "var_refs g \<subseteq> dom (map_of vars)" using refs by auto
    from subset_trans [OF this(2) sub] this(1) show ?thesis by simp
  qed
  show "generic_at i g" by (rule * [THEN conjunct1])
  show "var_refs g \<subseteq> dom (map_of ?vars)" by (rule * [THEN conjunct2])
qed

lemma rs_inv_addInvariants:
  assumes inv: "rs_inv r F vars w" and add: "addInvariants L F it (w_heap w) vars = Some vars'" and it: "iterates it"
  shows "rs_inv r F vars' w"
proof -
  have d: "distinct (map fst vars)" using inv by (simp add: rs_inv_def)
  obtain gvks pkgs where v: "vars' = foldl store_generic (foldl store_generic vars (map gvk_variable gvks)) (map pkg_variable pkgs)"
    and dg: "distinct (map fst gvks)" and dp: "distinct (map fst pkgs)"
    and g: "\<forall>k. set (providers gvks k) = provided_by L F (w_heap w) provided_GVKs vars k"
    and p: "\<forall>k. set (providers pkgs k) = provided_by L F (w_heap w) provided_packages vars k"
    using addInvariants_result [OF add it d] by (elim exE conjE) (rule that; assumption)
  have "\<forall>s \<in> set (map gvk_variable gvks). generic_at (Identifier s) s \<and> var_refs s \<subseteq> dom (map_of vars)"
  proof
    fix s assume "s \<in> set (map gvk_variable gvks)"
    then obtain k "is" where s: "(k, is) \<in> set gvks" "s = gvk_variable (k, is)" by auto
    then have "set is = provided_by L F (w_heap w) provided_GVKs vars k" using g [rule_format, of k] dg by simp
    then have "set is \<subseteq> dom (map_of vars)" by (simp only: provided_by_idents [OF inv])
    then have "var_refs s \<subseteq> dom (map_of vars)" unfolding s(2) by (rule subset_trans [OF single_refs(1)])
    then show "generic_at (Identifier s) s \<and> var_refs s \<subseteq> dom (map_of vars)" by (simp add: s(2))
  qed
  from rs_inv_store_generics [OF inv this] have inv1: "rs_inv r F (foldl store_generic vars (map gvk_variable gvks)) w" .
  have "\<forall>s \<in> set (map pkg_variable pkgs). generic_at (Identifier s) s \<and> var_refs s \<subseteq> dom (map_of (foldl store_generic vars (map gvk_variable gvks)))"
  proof
    fix s assume "s \<in> set (map pkg_variable pkgs)"
    then obtain k "is" where s: "(k, is) \<in> set pkgs" "s = pkg_variable (k, is)" by auto
    then have "set is = provided_by L F (w_heap w) provided_packages vars k" using p [rule_format, of k] dp by simp
    then have "set is \<subseteq> dom (map_of vars)" by (simp only: provided_by_idents [OF inv])
    then have "var_refs s \<subseteq> dom (map_of vars)" unfolding s(2) by (rule subset_trans [OF single_refs(2)])
    then show "generic_at (Identifier s) s \<and> var_refs s \<subseteq> dom (map_of (foldl store_generic vars (map gvk_variable gvks)))"
      by (auto simp: store_generics(1) s(2))
  qed
  from rs_inv_store_generics [OF inv1 this] show ?thesis by (simp add: v)
qed

subsection \<open>The input is well formed\<close>

lemma rs_inv_input:
  assumes inv: "rs_inv r F vars w" and it: "iterates it"
  shows "well_formed (map (\<lambda>(i, v). rvar_variable (w_heap w) v) (it_variables it vars))"
    "set (map (\<lambda>(i, v). rvar_variable (w_heap w) v) (it_variables it vars)) = rvar_variable (w_heap w) ` ran (map_of vars)"
proof -
  let ?in = "map (\<lambda>(i, v). rvar_variable (w_heap w) v) (it_variables it vars)"
  have d: "distinct (map fst vars)" using inv by (simp add: rs_inv_def)
  note p = permuted_map [OF d iteratesD(2) [OF it]]
  have key: "Identifier (rvar_variable (w_heap w) v) = i" if "map_of vars i = Some v" for i v
    using inv that by (cases v) (auto simp: rs_inv_def stored_def)
  have ids: "map Identifier ?in = map fst (it_variables it vars)"
    using key p(3) d by (auto simp: map_of_eq_Some_iff)
  show s: "set ?in = rvar_variable (w_heap w) ` ran (map_of vars)"
    using p(3) d by (force simp: ran_distinct)
  have idset: "Identifier ` set ?in = dom (map_of vars)"
    using ids p(3) by (metis dom_map_of_conv_image_fst list.set_map)
  have "var_refs (rvar_variable (w_heap w) v) \<subseteq> dom (map_of vars)" if vr: "v \<in> ran (map_of vars)" for v
  proof (cases v)
    case (BundleRef a)
    then have "a \<in> ran (map_of (w_visited w))" using vr inv by (auto simp: rs_inv_def stored_def ran_def)
    then obtain e where "bv_ok r F (dom (map_of vars)) e (w_heap w ! a)"
      using stored_idents inv unfolding rs_inv_def by blast
    then show ?thesis using BundleRef by (auto simp: bv_ok_def var_refs_def bv_refs_def)
  next
    case (Generic g)
    then obtain i where "map_of vars i = Some (Generic g)" using vr by (auto simp: ran_def)
    then have "var_refs g \<subseteq> dom (map_of vars)" using inv by (simp add: rs_inv_def)
    then show ?thesis using Generic by simp
  qed
  then have "references ?in \<subseteq> dom (map_of vars)"
    unfolding references_def s by (auto simp: var_refs_def)
  then show "well_formed ?in" unfolding well_formed_def ids idset using p(1) by blast
qed

text \<open>What the input was built from\<close>

definition built ::
    "('v, 'p) Resolver \<Rightarrow> 'v finder \<Rightarrow> iteration \<Rightarrow> string \<Rightarrow> Subscription list \<Rightarrow> rvars \<Rightarrow> rvars \<Rightarrow> world \<Rightarrow> solver_variable list \<Rightarrow> bool" where
  "built r F it ns subs vars0 vars w input \<longleftrightarrow> rs_inv r F vars0 w \<and>
     entry_ident ` catalog_entries F (NewVirtualSourceKey ns) \<subseteq> dom (map_of vars0) \<and>
     addInvariants (r_libs r) F it (w_heap w) vars0 = Some vars \<and>
     input = map (\<lambda>(i, v). rvar_variable (w_heap w) v) (it_variables it vars) \<and>
     (\<forall>i g. map_of vars0 i = Some (Generic g) \<longrightarrow> i \<in> sub_ident ` set subs) \<and>
     (distinct (map sub_ident subs) \<and> sub_ident ` set subs \<inter> entry_ident ` pool F = {} \<longrightarrow>
        (\<forall>sub \<in> set subs. has_sub (r_libs r) F sub vars0))"

lemma resolver_input_built:
  fixes r :: "('v, 'p) Resolver"
  assumes gf: "good_finder F" and lb: "labelled F" and cs: "closed_system r" and it: "iterates it"
    and ns: "\<forall>sub \<in> set subs. sub_Namespace sub = namespaces ! 0"
    and inp: "resolver_input r F it namespaces subs = Inr (input, starting)"
  shows "\<exists>vars0 vars w. built r F it (namespaces ! 0) subs vars0 vars w input"
proof -
  let ?L = "r_libs r" and ?k = "NewVirtualSourceKey (namespaces ! 0)"
  obtain existing where ex: "f_Catalog ?L F ?k [booleanPredicate True] = Some existing" "set existing = catalog_entries F ?k"
    using f_Catalog_good [OF gf, of ?L ?k "[booleanPredicate True]"] by auto
  obtain res w where get: "getBundleVariables r F (namespaces ! 0) existing \<lparr>w_heap = [], w_visited = []\<rparr> = (res, w)" by force
  obtain ids vs where res: "res = Inr (ids, vs)"
    using inp ex(1) get by (cases res) (auto simp: resolver_input_def Let_def split: if_splits)
  define st0 where "st0 = \<lparr>rs_variables = store_bundles (w_heap w) (it_bundles it vs) [], rs_world = w,
      rs_startingCSVs = [], rs_errs = []\<rparr>"
  obtain st where st: "resolve_subs r F it subs st0 = Inr st"
    using inp ex(1) get res by (auto simp: resolver_input_def Let_def st0_def split: if_splits sum.splits)
  obtain vars where vars: "addInvariants ?L F it (w_heap (rs_world st)) (rs_variables st) = Some vars"
    using inp ex(1) get res st by (auto simp: resolver_input_def Let_def st0_def split: if_splits option.splits)
  have fin: "rs_errs st = []"
      "input = map (\<lambda>(i, v). rvar_variable (w_heap (rs_world st)) v) (it_variables it vars)"
    using inp ex(1) get res st vars by (auto simp: resolver_input_def Let_def st0_def split: if_splits)
  have v0: "visited_ok r F {} (w_heap \<lparr>w_heap = [], w_visited = []\<rparr>) (w_visited \<lparr>w_heap = [], w_visited = []\<rparr>)"
    by (simp add: visited_ok_def)
  have "set existing \<subseteq> pool F" using ex(2) catalog_entries_pool by simp
  note G = getBundleVariables_ok [OF gf cs v0 this get [unfolded res]]
  have vo: "vars_ok (w_heap w) vs" using G by simp
  note S = store_bundles_map_of [OF it vo, of "[]", simplified]
  have dom: "dom (map_of (rs_variables st0)) = dom (map_of vs)" by (auto simp: st0_def S(1))
  have stv: "stored (w_heap w) (w_visited w) (rs_variables st0)"
    unfolding stored_def
  proof (intro allI impI)
    fix i a assume "map_of (rs_variables st0) i = Some (BundleRef a)"
    then have a: "map_of vs i = Some a" by (auto simp: st0_def S(1))
    then show "a \<in> ran (map_of (w_visited w)) \<and> bv_identifier (w_heap w ! a) = i"
      using G vars_okD [OF vo a] ranI [of "map_of vs", OF a] by blast
  qed
  have nogen: "map_of (rs_variables st0) i \<noteq> Some (Generic g)" for i g by (auto simp: st0_def S(1))
  have inv0: "rs_inv r F (rs_variables st0) (rs_world st0)"
    unfolding rs_inv_def dom using G stv nogen S(2) by (simp add: st0_def)
  have ks: "\<forall>sub \<in> set subs. entry_ident ` catalog_entries F (NewVirtualSourceKey (sub_Namespace sub)) \<subseteq> dom (map_of (rs_variables st0))"
  proof
    fix sub assume "sub \<in> set subs"
    then have k: "NewVirtualSourceKey (sub_Namespace sub) = ?k" using ns by simp
    have "entry_ident ` set existing \<subseteq> dom (map_of vs)" using G by auto
    then show "entry_ident ` catalog_entries F (NewVirtualSourceKey (sub_Namespace sub)) \<subseteq> dom (map_of (rs_variables st0))"
      unfolding k dom ex(2) .
  qed
  note R = resolve_subs_inv [OF gf lb cs it inv0 ks st fin(1)]
  have "entry_ident ` set existing \<subseteq> dom (map_of (rs_variables st0))" unfolding dom using G by auto
  then have "entry_ident ` catalog_entries F ?k \<subseteq> dom (map_of (rs_variables st0))" unfolding ex(2) .
  then have "entry_ident ` catalog_entries F ?k \<subseteq> dom (map_of (rs_variables st))"
    using R [THEN conjunct2, THEN conjunct1] by (rule subset_trans)
  then have "built r F it (namespaces ! 0) subs (rs_variables st) vars (rs_world st) input"
    unfolding built_def using R vars fin(2) nogen by blast
  then show ?thesis by blast
qed

lemma built_well_formed:
  assumes "built r F it ns subs vars0 vars w input" and "iterates it"
  shows "well_formed input" "rs_inv r F vars w" "set input = rvar_variable (w_heap w) ` ran (map_of vars)"
proof -
  have b: "rs_inv r F vars0 w" "addInvariants (r_libs r) F it (w_heap w) vars0 = Some vars" using assms(1) by (simp_all add: built_def)
  show inv: "rs_inv r F vars w" by (rule rs_inv_addInvariants [OF b assms(2)])
  show "well_formed input" "set input = rvar_variable (w_heap w) ` ran (map_of vars)"
    using rs_inv_input [OF inv assms(2)] assms(1) by (simp_all add: built_def)
qed

subsection \<open>Unambiguous catalogs\<close>

text \<open>
  Names have no slash, as Kubernetes demands, and the entries of a catalog differ in name or channel:
  an identifier then leads to one entry. And the identifiers of bundles, subscriptions, APIs and packages
  differ, which share one name space in the solver's input.
\<close>

definition unambiguous :: "'v finder \<Rightarrow> bool" where
  "unambiguous F \<longleftrightarrow> (\<forall>e \<in> pool F. \<forall>si. e_SourceInfo e = Some si \<longrightarrow>
       plain_name (e_Name e) \<and> plain_name (si_Channel si) \<and> plain_name (sk_Name (si_Catalog si)) \<and>
       plain_name (sk_Namespace (si_Catalog si)) \<and> \<not> SourceKey_Empty (si_Catalog si) \<and>
       (\<forall>e' \<in> catalog_entries F (si_Catalog si).
          e_Name e' = e_Name e \<and> channel_Test (si_Channel si) e' \<longrightarrow> e' = e)) \<and>
     (\<forall>(k, a) \<in> set (f_map F). distinct (hdr_entries (f_headers F ! a)))"

definition gvks_of :: "'v finder \<Rightarrow> GVKProperty set" where
  "gvks_of F = (\<Union>e \<in> pool F. set (provided_GVKs e))"

definition packages_of :: "'v finder \<Rightarrow> string set" where
  "packages_of F = (\<Union>e \<in> pool F. set (provided_packages e))"

definition no_clash :: "'v finder \<Rightarrow> Subscription list \<Rightarrow> bool" where
  "no_clash F subs \<longleftrightarrow> distinct (map sub_ident subs) \<and> inj_on gvk_ident (gvks_of F) \<and>
     (gvk_ident ` gvks_of F \<union> packages_of F) \<inter> (entry_ident ` pool F \<union> sub_ident ` set subs) = {} \<and>
     sub_ident ` set subs \<inter> entry_ident ` pool F = {} \<and> gvk_ident ` gvks_of F \<inter> packages_of F = {}"

lemma pool_catalog:
  assumes "good_finder F" and "labelled F" and "e \<in> pool F" and "e_SourceInfo e = Some si"
  shows "\<exists>a. map_of (f_map F) (si_Catalog si) = Some a \<and> e \<in> set (hdr_entries (f_headers F ! a))"
proof -
  obtain k a where ka: "(k, a) \<in> set (f_map F)" "e \<in> set (hdr_entries (f_headers F ! a))" using assms(3) by (auto simp: pool_def)
  then have "si_Catalog si = k" using assms(2,4) unfolding labelled_def by fastforce
  then show ?thesis using ka assms(1) by (auto simp: good_finder_def wf_map_def)
qed

lemma f_Catalog_named:
  assumes "good_finder F" and "\<not> SourceKey_Empty k" and "map_of (f_map F) k = Some a"
  shows "f_Catalog L F k ps = Some (filter (passes L ps) (hdr_entries (f_headers F ! a)))"
proof -
  have "\<forall>e \<in> set (hdr_entries (f_headers F ! a)). sourced e"
    using pool_header [OF map_of_SomeD [OF assms(3)]] pool_sourced [OF assms(1)] by blast
  from hdr_Find_sat [OF this, of L ps "\<lambda>_. 0"] show ?thesis
    using assms(2,3) by (auto simp: f_Catalog_def Catalog_Find_def)
qed

lemma distinct_filter_single:
  assumes "distinct xs" and "x \<in> set xs" and "P x" and "\<forall>y \<in> set xs. P y \<longrightarrow> y = x"
  shows "filter P xs = [x]"
proof -
  have "set (filter P xs) = {x}" using assms(2-4) unfolding set_filter by blast
  moreover have "distinct (filter P xs)" using assms(1) by simp
  ultimately have "length (filter P xs) = 1" using distinct_card [of "filter P xs"] by simp
  then obtain y where "filter P xs = [y]" by (auto simp: length_Suc_conv)
  then show ?thesis using \<open>set (filter P xs) = {x}\<close> by simp
qed

lemma variable_entry_ident:
  assumes gf: "good_finder F" and lb: "labelled F" and un: "unambiguous F" and e: "e \<in> pool F"
  shows "variable_entry L F (entry_ident e) = Inr (Some e)"
proof -
  obtain si where si: "e_SourceInfo e = Some si" using pool_sourced [OF gf e] by (auto simp: sourced_def)
  obtain a where a: "map_of (f_map F) (si_Catalog si) = Some a" "e \<in> set (hdr_entries (f_headers F ! a))"
    using pool_catalog [OF gf lb e si] by blast
  have u: "plain_name (e_Name e)" "plain_name (si_Channel si)" "plain_name (sk_Name (si_Catalog si))"
      "plain_name (sk_Namespace (si_Catalog si))" "\<not> SourceKey_Empty (si_Catalog si)"
      "\<forall>e' \<in> catalog_entries F (si_Catalog si). e_Name e' = e_Name e \<and> channel_Test (si_Channel si) e' \<longrightarrow> e' = e"
    using un e si unfolding unambiguous_def by blast+
  have dist: "distinct (hdr_entries (f_headers F ! a))" using un map_of_SomeD [OF a(1)] unfolding unambiguous_def by blast
  have chan: "Entry_Channel e = si_Channel si" by (simp add: Entry_Channel_def si)
  have src: "BundleSourceInfo (entry_ident e) = Inr (e_Name e, si_Channel si, si_Catalog si)"
    using BundleSourceInfo_bundleID [OF u(1,2,3,4)] by (simp add: entry_ident_def si chan)
  let ?ps = "[csvNamePredicate (e_Name e), channelPredicate (si_Channel si)]"
  have "channel_Test (si_Channel si) e" by (simp add: channel_Test_def si)
  then have "filter (passes L ?ps) (hdr_entries (f_headers F ! a)) = [e]"
    using u(5,6) a dist distinct_filter_single [of "hdr_entries (f_headers F ! a)" e "passes L ?ps"]
    by (auto simp: catalog_entries_def)
  then show ?thesis using f_Catalog_named [OF gf u(5) a(1), of L ?ps] src
    by (simp add: variable_entry_def entry_of_def ExactlyOne_def)
qed

lemma entry_ident_inj:
  assumes "good_finder F" and "labelled F" and "unambiguous F" and "e \<in> pool F" "e' \<in> pool F" "entry_ident e = entry_ident e'"
  shows "e = e'"
  using variable_entry_ident [OF assms(1-3,4)] variable_entry_ident [OF assms(1-3,5)] assms(6) by (metis Inr_inject option.inject)

subsection \<open>What a solution contains\<close>

lemma variable_entry_pool:
  assumes "good_finder F" and "variable_entry L F i = Inr (Some op)" shows "op \<in> pool F"
proof -
  obtain csvName channel catalog where e: "entry_of L F csvName channel catalog = Inr op"
    using assms(2) by (auto simp: variable_entry_def split: sum.splits if_splits)
  obtain es where es: "f_Catalog L F catalog [csvNamePredicate csvName, channelPredicate channel] = Some es"
      "set es \<subseteq> catalog_entries F catalog"
    using f_Catalog_good [OF assms(1), of L catalog "[csvNamePredicate csvName, channelPredicate channel]"] by blast
  have "op \<in> set es" using e es(1) by (auto simp: entry_of_def ExactlyOne_def split: if_splits)
  then show ?thesis using es(2) catalog_entries_pool by blast
qed

lemma provided_by_entry:
  assumes "rs_inv r F vars w" and "map_of vars (entry_ident e) = Some (BundleRef a)"
    and "variable_entry L F (entry_ident e) = Inr (Some e)" and "k \<in> set (P e)"
  shows "entry_ident e \<in> provided_by L F (w_heap w) P vars k"
proof -
  have "bv_identifier (w_heap w ! a) = entry_ident e" using assms(1,2) by (simp add: rs_inv_def stored_def)
  then show ?thesis using map_of_SomeD [OF assms(2)] assms(3,4) unfolding provided_by_def mem_Collect_eq
    by (intro exI [of _ "entry_ident e"] exI [of _ a] exI [of _ e]) simp
qed

lemma built_lookup:
  assumes b: "built r F it ns subs vars0 vars w input" and it: "iterates it" and gf: "good_finder F" and nc: "no_clash F subs"
  shows "i \<in> entry_ident ` pool F \<union> sub_ident ` set subs \<Longrightarrow> map_of vars i = map_of vars0 i"
    and "e1 \<in> pool F \<Longrightarrow> map_of vars (entry_ident e1) = Some (BundleRef a1) \<Longrightarrow> variable_entry (r_libs r) F (entry_ident e1) = Inr (Some e1) \<Longrightarrow>
      e2 \<in> pool F \<Longrightarrow> map_of vars (entry_ident e2) = Some (BundleRef a2) \<Longrightarrow> variable_entry (r_libs r) F (entry_ident e2) = Inr (Some e2) \<Longrightarrow>
      set (provided_GVKs e1) \<inter> set (provided_GVKs e2) \<noteq> {} \<or> set (provided_packages e1) \<inter> set (provided_packages e2) \<noteq> {} \<Longrightarrow>
      \<exists>v is k pkg. Generic v \<in> ran (map_of vars) \<and> (v = gvk_variable (k, is) \<or> v = pkg_variable (pkg, is)) \<and>
        entry_ident e1 \<in> set is \<and> entry_ident e2 \<in> set is"
proof -
  have inv: "rs_inv r F vars0 w" and add: "addInvariants (r_libs r) F it (w_heap w) vars0 = Some vars"
    using b by (simp_all add: built_def)
  have d: "distinct (map fst vars0)" using inv by (simp add: rs_inv_def)
  obtain gvks pkgs where v: "vars = foldl store_generic (foldl store_generic vars0 (map gvk_variable gvks)) (map pkg_variable pkgs)"
    and dg: "distinct (map fst gvks)" and dp: "distinct (map fst pkgs)"
    and g: "\<forall>k. set (providers gvks k) = provided_by (r_libs r) F (w_heap w) provided_GVKs vars0 k"
    and p: "\<forall>k. set (providers pkgs k) = provided_by (r_libs r) F (w_heap w) provided_packages vars0 k"
    and gne: "\<forall>k \<in> fst ` set gvks. provided_by (r_libs r) F (w_heap w) provided_GVKs vars0 k \<noteq> {}"
    and pne: "\<forall>k \<in> fst ` set pkgs. provided_by (r_libs r) F (w_heap w) provided_packages vars0 k \<noteq> {}"
    using addInvariants_result [OF add it d] by (elim exE conjE) (rule that; assumption)
  have gk: "fst ` set gvks \<subseteq> gvks_of F"
    using gne variable_entry_pool [OF gf] unfolding provided_by_def gvks_of_def by blast
  have pk: "fst ` set pkgs \<subseteq> packages_of F"
    using pne variable_entry_pool [OF gf] unfolding provided_by_def packages_of_def by blast
  have gid: "Identifier ` set (map gvk_variable gvks) = gvk_ident ` fst ` set gvks" by (force simp: image_iff)
  have pid: "Identifier ` set (map pkg_variable pkgs) = fst ` set pkgs" by (force simp: image_iff)
  show frame: "map_of vars i = map_of vars0 i" if "i \<in> entry_ident ` pool F \<union> sub_ident ` set subs" for i
  proof -
    have "i \<notin> gvk_ident ` gvks_of F" "i \<notin> packages_of F" using that nc unfolding no_clash_def by blast+
    then have "i \<notin> Identifier ` set (map gvk_variable gvks)" "i \<notin> Identifier ` set (map pkg_variable pkgs)"
      unfolding gid pid using gk pk by blast+
    then show ?thesis unfolding v using store_generics(3) by metis
  qed
  assume e1: "e1 \<in> pool F" "map_of vars (entry_ident e1) = Some (BundleRef a1)" "variable_entry (r_libs r) F (entry_ident e1) = Inr (Some e1)"
    and e2: "e2 \<in> pool F" "map_of vars (entry_ident e2) = Some (BundleRef a2)" "variable_entry (r_libs r) F (entry_ident e2) = Inr (Some e2)"
    and sh: "set (provided_GVKs e1) \<inter> set (provided_GVKs e2) \<noteq> {} \<or> set (provided_packages e1) \<inter> set (provided_packages e2) \<noteq> {}"
  have m1: "map_of vars0 (entry_ident e1) = Some (BundleRef a1)" and m2: "map_of vars0 (entry_ident e2) = Some (BundleRef a2)"
    using frame e1(1,2) e2(1,2) by auto
  note bound1 = provided_by_entry [OF inv m1 e1(3)] and bound2 = provided_by_entry [OF inv m2 e2(3)]
  show "\<exists>v is k pkg. Generic v \<in> ran (map_of vars) \<and> (v = gvk_variable (k, is) \<or> v = pkg_variable (pkg, is)) \<and>
      entry_ident e1 \<in> set is \<and> entry_ident e2 \<in> set is"
  proof (cases "set (provided_GVKs e1) \<inter> set (provided_GVKs e2) = {}")
    case False
    then obtain k where k: "k \<in> set (provided_GVKs e1)" "k \<in> set (provided_GVKs e2)" by blast
    have in1: "entry_ident e1 \<in> set (providers gvks k)" "entry_ident e2 \<in> set (providers gvks k)"
      using bound1 [of k provided_GVKs] bound2 [of k provided_GVKs] k g by simp_all
    then obtain "is" where is': "map_of gvks k = Some is" "entry_ident e1 \<in> set is" "entry_ident e2 \<in> set is"
      by (cases "map_of gvks k") auto
    have mem: "(k, is) \<in> set gvks" by (rule map_of_SomeD [OF is'(1)])
    have "inj_on gvk_ident (fst ` set gvks)" using nc gk unfolding no_clash_def by (meson inj_on_subset)
    then have "distinct (map Identifier (map gvk_variable gvks))"
    proof -
      have eq: "map Identifier (map gvk_variable gvks) = map gvk_ident (map fst gvks)" by auto
      show ?thesis unfolding eq by (subst distinct_map) (use dg \<open>inj_on gvk_ident (fst ` set gvks)\<close> in simp)
    qed
    then have "map_of (foldl store_generic vars0 (map gvk_variable gvks)) (gvk_ident k) = Some (Generic (gvk_variable (k, is)))"
      using store_generics_at [of "map gvk_variable gvks" "gvk_variable (k, is)" vars0] mem by auto
    moreover have "gvk_ident k \<notin> Identifier ` set (map pkg_variable pkgs)"
      unfolding pid using pk gk mem nc unfolding no_clash_def by fastforce
    ultimately have "map_of vars (gvk_ident k) = Some (Generic (gvk_variable (k, is)))"
      unfolding v using store_generics(3) by metis
    then show ?thesis using is'(2,3) by (blast intro: ranI)
  next
    case True
    then obtain k where k: "k \<in> set (provided_packages e1)" "k \<in> set (provided_packages e2)" using sh by blast
    have in1: "entry_ident e1 \<in> set (providers pkgs k)" "entry_ident e2 \<in> set (providers pkgs k)"
      using bound1 [of k provided_packages] bound2 [of k provided_packages] k p by simp_all
    then obtain "is" where is': "map_of pkgs k = Some is" "entry_ident e1 \<in> set is" "entry_ident e2 \<in> set is"
      by (cases "map_of pkgs k") auto
    have mem: "(k, is) \<in> set pkgs" by (rule map_of_SomeD [OF is'(1)])
    have "map Identifier (map pkg_variable pkgs) = map fst pkgs" by auto
    then have "map_of vars k = Some (Generic (pkg_variable (k, is)))"
      unfolding v using store_generics_at [of "map pkg_variable pkgs" "pkg_variable (k, is)"] mem dp by (auto simp del: map_map)
    then show ?thesis using is'(2,3) by (blast intro: ranI)
  qed
qed

text \<open>The requirements on the set \<open>S\<close> of identifiers of operators that will be there\<close>

definition valid_install :: "('v, 'p) libs \<Rightarrow> 'v finder \<Rightarrow> string \<Rightarrow> Subscription list \<Rightarrow> ident set \<Rightarrow> bool" where
  "valid_install L F ns subs S \<longleftrightarrow>
     (\<forall>sub \<in> set subs. \<exists>current. current_entry L F sub = Inr current \<and> satisfies_sub L F sub current S) \<and>
     (\<forall>e \<in> pool F. entry_ident e \<in> S \<longrightarrow>
        (\<exists>ds. convertDependencyProperties L (e_Properties e) = Inr ds \<and>
           (\<forall>d \<in> set ds. \<exists>b \<in> pool F. entry_ident b \<in> S \<and> sat L d b))) \<and>
     (\<forall>e \<in> pool F. \<forall>e' \<in> pool F. entry_ident e \<in> S \<and> entry_ident e' \<in> S \<and>
        (set (provided_GVKs e) \<inter> set (provided_GVKs e') \<noteq> {} \<or> set (provided_packages e) \<inter> set (provided_packages e') \<noteq> {}) \<longrightarrow>
        e = e') \<and>
     (\<forall>e \<in> pool F. entry_ident e \<in> S \<longrightarrow> \<not> list_ex (\<lambda>p. p_Type p = DeprecatedType) (e_Properties e)) \<and>
     (\<forall>e \<in> catalog_entries F (NewVirtualSourceKey ns). \<forall>si.
        e_SourceInfo e = Some si \<and> si_Subscription si = None \<longrightarrow> entry_ident e \<in> S)"

lemma base_constraints:
  assumes "newBundleVariableFromEntry r e = Inr base"
  shows "list_ex (\<lambda>p. p_Type p = DeprecatedType) (e_Properties e) \<Longrightarrow> \<exists>s. prettyConstraint prohibited s \<in> set (bv_constraints base)"
    "e_SourceInfo e = Some si \<Longrightarrow> Virtual (si_Catalog si) \<Longrightarrow> si_Subscription si = None \<Longrightarrow>
      \<exists>s. prettyConstraint mandatory s \<in> set (bv_constraints base)"
  using assms by (auto simp: newBundleVariableFromEntry_def NewBundleVariableFromOperator_def Let_def
      split: option.splits sum.splits if_splits prod.splits)

lemma built_bundle:
  assumes b: "built r F it ns subs vars0 vars w input" and it: "iterates it" and gf: "good_finder F" and lb: "labelled F"
    and un: "unambiguous F" and nc: "no_clash F subs" and e: "e \<in> pool F" and k: "entry_ident e \<in> dom (map_of vars)"
  shows "\<exists>a. map_of vars (entry_ident e) = Some (BundleRef a) \<and> bv_variable (w_heap w ! a) \<in> set input \<and>
    bv_ok r F (dom (map_of vars)) e (w_heap w ! a)"
proof -
  note wf = built_well_formed [OF b it]
  have same: "map_of vars (entry_ident e) = map_of vars0 (entry_ident e)" by (rule built_lookup(1) [OF b it gf nc]) (use e in blast)
  have "entry_ident e \<notin> sub_ident ` set subs" using nc e unfolding no_clash_def by blast
  then have "map_of vars0 (entry_ident e) \<noteq> Some (Generic g)" for g using b unfolding built_def by blast
  then obtain a where a: "map_of vars (entry_ident e) = Some (BundleRef a)" using same k by (metis domD rvar.exhaust)
  then have ra: "a \<in> ran (map_of (w_visited w))" "bv_identifier (w_heap w ! a) = entry_ident e"
    using wf(2) by (simp_all add: rs_inv_def stored_def)
  have v: "visited_ok r F (dom (map_of vars)) (w_heap w) (w_visited w)" using wf(2) by (simp add: rs_inv_def)
  obtain e' where e': "e' \<in> pool F" "bv_ok r F (dom (map_of vars)) e' (w_heap w ! a)" "entry_ident e' = entry_ident e"
    using stored_idents [OF v ra(1)] ra(2) by auto
  have "e' = e" by (rule entry_ident_inj [OF gf lb un e'(1) e e'(3)])
  moreover have "bv_variable (w_heap w ! a) \<in> set input" using wf(3) a by (force intro: ranI)
  ultimately show ?thesis using a e'(2) by blast
qed

text \<open>A solution of the input, over its own identifiers\<close>

definition solved ::
    "('v, 'p) Resolver \<Rightarrow> 'v finder \<Rightarrow> iteration \<Rightarrow> string \<Rightarrow> Subscription list \<Rightarrow> rvars \<Rightarrow> rvars \<Rightarrow> world \<Rightarrow> solver_variable list \<Rightarrow>
     ident set \<Rightarrow> bool" where
  "solved r F it ns subs vars0 vars w input S \<longleftrightarrow> built r F it ns subs vars0 vars w input \<and> iterates it \<and>
     good_finder F \<and> labelled F \<and> unambiguous F \<and> no_clash F subs \<and> is_solution input S \<and> S \<subseteq> dom (map_of vars)"

lemma solvedD:
  assumes "solved r F it ns subs vars0 vars w input S"
  shows "built r F it ns subs vars0 vars w input" "iterates it" "good_finder F" "labelled F" "unambiguous F"
    "no_clash F subs" "is_solution input S" "S \<subseteq> dom (map_of vars)"
  using assms by (simp_all add: solved_def)

lemma solved_admits:
  assumes "solved r F it ns subs vars0 vars w input S" and "map_of vars i = Some v"
  shows "admits S (rvar_variable (w_heap w) v)"
proof -
  note s = solvedD [OF assms(1)]
  have "v \<in> ran (map_of vars)" using assms(2) by (rule ranI)
  then show ?thesis using built_well_formed(3) [OF s(1,2)] s(7) by (auto simp: is_solution_admits)
qed

lemma solved_cell:
  assumes so: "solved r F it ns subs vars0 vars w input S" and "e \<in> pool F" and "entry_ident e \<in> dom (map_of vars)"
  shows "\<exists>a. map_of vars (entry_ident e) = Some (BundleRef a) \<and> admits S (bv_variable (w_heap w ! a)) \<and>
    bv_ok r F (dom (map_of vars)) e (w_heap w ! a)"
  using built_bundle [OF solvedD(1-6) [OF so] assms(2,3)] solved_admits [OF so] by fastforce

lemma solved_sub:
  assumes so: "solved r F it ns subs vars0 vars w input S" and sub: "sub \<in> set subs"
  shows "\<exists>current. current_entry (r_libs r) F sub = Inr current \<and> satisfies_sub (r_libs r) F sub current S"
proof -
  note s = solvedD [OF so]
  have "has_sub (r_libs r) F sub vars0" using s(1,6) sub unfolding built_def no_clash_def by blast
  then obtain g current where g: "map_of vars0 (sub_ident sub) = Some (Generic g)" "current_entry (r_libs r) F sub = Inr current"
      "\<forall>S. admits S g \<longrightarrow> satisfies_sub (r_libs r) F sub current S" unfolding has_sub_def by blast
  have "map_of vars (sub_ident sub) = Some (Generic g)"
    using built_lookup(1) [OF s(1,2,3,6), of "sub_ident sub"] g(1) sub by simp
  from solved_admits [OF so this] g show ?thesis by auto
qed

lemma solved_dependencies:
  assumes so: "solved r F it ns subs vars0 vars w input S" and e: "e \<in> pool F" "entry_ident e \<in> S"
  shows "\<exists>ds. convertDependencyProperties (r_libs r) (e_Properties e) = Inr ds \<and>
    (\<forall>d \<in> set ds. \<exists>b \<in> pool F. entry_ident b \<in> S \<and> sat (r_libs r) d b)"
proof -
  have k: "entry_ident e \<in> dom (map_of vars)" using e(2) solvedD(8) [OF so] by blast
  obtain a where a: "admits S (bv_variable (w_heap w ! a))" "bv_ok r F (dom (map_of vars)) e (w_heap w ! a)"
    using solved_cell [OF so e(1) k] by blast
  obtain ds where ds: "convertDependencyProperties (r_libs r) (e_Properties e) = Inr ds"
      "\<forall>d \<in> set ds. requires (r_libs r) F d (w_heap w ! a)" using a(2) unfolding bv_ok_def by blast
  have id: "bv_identifier (w_heap w ! a) = entry_ident e" using a(2) by (simp add: bv_ok_def)
  have "\<exists>b \<in> pool F. entry_ident b \<in> S \<and> sat (r_libs r) d b" if d: "d \<in> set ds" for d
  proof -
    obtain deps m where deps: "prettyConstraint (dependency deps) m \<in> set (bv_constraints (w_heap w ! a))"
        "\<forall>i \<in> set deps. \<exists>b \<in> pool F. sat (r_libs r) d b \<and> entry_ident b = i"
      using ds(2) d unfolding requires_def by blast
    have "holds S (entry_ident e) (prettyConstraint (dependency deps) m)"
      using a(1) deps(1) unfolding admits_def Identifier_bv id by blast
    then obtain i where i: "i \<in> set deps" "i \<in> S" using e(2) by auto
    then obtain b where "b \<in> pool F" "sat (r_libs r) d b" "entry_ident b = i" using deps(2) by blast
    then show ?thesis using i(2) by blast
  qed
  then show ?thesis using ds(1) by blast
qed

lemma solved_unique:
  assumes so: "solved r F it ns subs vars0 vars w input S" and e: "e \<in> pool F" "entry_ident e \<in> S"
    and e': "e' \<in> pool F" "entry_ident e' \<in> S"
    and sh: "set (provided_GVKs e) \<inter> set (provided_GVKs e') \<noteq> {} \<or> set (provided_packages e) \<inter> set (provided_packages e') \<noteq> {}"
  shows "e = e'"
proof -
  note s = solvedD [OF so]
  obtain a where a: "map_of vars (entry_ident e) = Some (BundleRef a)" using solved_cell [OF so e(1)] e(2) s(8) by blast
  obtain a' where a': "map_of vars (entry_ident e') = Some (BundleRef a')" using solved_cell [OF so e'(1)] e'(2) s(8) by blast
  note v = variable_entry_ident [OF s(3,4,5) e(1)] and v' = variable_entry_ident [OF s(3,4,5) e'(1)]
  obtain g "is" k pkg where g: "Generic g \<in> ran (map_of vars)" "g = gvk_variable (k, is) \<or> g = pkg_variable (pkg, is)"
      "entry_ident e \<in> set is" "entry_ident e' \<in> set is"
    using built_lookup(2) [OF s(1,2,3,6) e(1) a v e'(1) a' v' sh] by blast
  obtain i where "map_of vars i = Some (Generic g)" using g(1) by (auto simp: ran_def)
  then have "admits S g" using solved_admits [OF so] by fastforce
  from single_admits [OF this g(2-4) e(2) e'(2)] have "entry_ident e = entry_ident e'" .
  then show ?thesis by (rule entry_ident_inj [OF s(3,4,5) e(1) e'(1)])
qed

lemma solved_base:
  assumes so: "solved r F it ns subs vars0 vars w input S" and e: "e \<in> pool F" "entry_ident e \<in> dom (map_of vars)"
  shows "\<exists>base. newBundleVariableFromEntry r e = Inr base \<and> (\<forall>c \<in> set (bv_constraints base). holds S (entry_ident e) c)"
proof -
  obtain a where a: "admits S (bv_variable (w_heap w ! a))" "bv_ok r F (dom (map_of vars)) e (w_heap w ! a)"
    using solved_cell [OF so e] by blast
  then obtain base where "newBundleVariableFromEntry r e = Inr base" "set (bv_constraints base) \<subseteq> set (bv_constraints (w_heap w ! a))"
      "bv_identifier (w_heap w ! a) = entry_ident e" unfolding bv_ok_def by blast
  then show ?thesis using a(1) by (auto simp: admits_def)
qed

lemma solved_deprecated:
  assumes so: "solved r F it ns subs vars0 vars w input S" and e: "e \<in> pool F" "entry_ident e \<in> S"
  shows "\<not> list_ex (\<lambda>p. p_Type p = DeprecatedType) (e_Properties e)"
proof
  assume dep: "list_ex (\<lambda>p. p_Type p = DeprecatedType) (e_Properties e)"
  obtain base where base: "newBundleVariableFromEntry r e = Inr base" "\<forall>c \<in> set (bv_constraints base). holds S (entry_ident e) c"
    using solved_base [OF so e(1)] e(2) solvedD(8) [OF so] by blast
  obtain m where "prettyConstraint prohibited m \<in> set (bv_constraints base)" using base_constraints(1) [OF base(1) dep] by blast
  then show False using base(2) e(2) by fastforce
qed

lemma solved_existing:
  assumes so: "solved r F it ns subs vars0 vars w input S" and ns: "ns \<noteq> ''''"
    and e: "e \<in> catalog_entries F (NewVirtualSourceKey ns)" and si: "e_SourceInfo e = Some si" "si_Subscription si = None"
  shows "entry_ident e \<in> S"
proof -
  note s = solvedD [OF so]
  have p: "e \<in> pool F" using e catalog_entries_pool by blast
  have "entry_ident e \<in> dom (map_of vars0)" using s(1) e unfolding built_def by blast
  then have k: "entry_ident e \<in> dom (map_of vars)" using built_lookup(1) [OF s(1,2,3,6), of "entry_ident e"] p by (simp add: domIff)
  obtain base where base: "newBundleVariableFromEntry r e = Inr base" "\<forall>c \<in> set (bv_constraints base). holds S (entry_ident e) c"
    using solved_base [OF so p k] by blast
  have "\<not> SourceKey_Empty (NewVirtualSourceKey ns)" by (simp add: SourceKey_Empty_def NewVirtualSourceKey_def existingOperatorKey_def)
  then obtain a where "map_of (f_map F) (NewVirtualSourceKey ns) = Some a" "e \<in> set (hdr_entries (f_headers F ! a))"
    using e by (auto simp: catalog_entries_def split: option.splits)
  then have "si_Catalog si = NewVirtualSourceKey ns" using s(4) si(1) map_of_SomeD unfolding labelled_def by fastforce
  then obtain m where "prettyConstraint mandatory m \<in> set (bv_constraints base)"
    using base_constraints(2) [OF base(1) si(1) _ si(2)] ns by auto
  then show ?thesis using base(2) by fastforce
qed

lemma solution_valid:
  assumes "solved r F it ns subs vars0 vars w input S" and "ns \<noteq> ''''"
  shows "valid_install (r_libs r) F ns subs S"
  unfolding valid_install_def
proof (intro conjI)
  show "\<forall>sub \<in> set subs. \<exists>current. current_entry (r_libs r) F sub = Inr current \<and> satisfies_sub (r_libs r) F sub current S"
    using solved_sub [OF assms(1)] by blast
qed (use solved_dependencies [OF assms(1)] solved_unique [OF assms(1)] solved_deprecated [OF assms(1)]
    solved_existing [OF assms] in blast)+

subsection \<open>The operators that are returned\<close>

definition bundle_ids :: "solver_variable list \<Rightarrow> ident set" where
  "bundle_ids vs = {i. \<exists>cs rep. BundleVariable i cs rep \<in> set vs}"

lemma bundle_ids_simps [simp]:
  "bundle_ids [] = {}" "bundle_ids (BundleVariable i cs rep # vs) = insert i (bundle_ids vs)"
  "bundle_ids (GenericVariable i cs # vs) = bundle_ids vs" "bundle_ids (zeroVariable # vs) = bundle_ids vs"
  by (auto simp: bundle_ids_def)

text \<open>A returned entry is a copy of \<open>e\<close>, at least in what identifies it.\<close>

definition copy_of :: "'v Entry \<Rightarrow> 'v Entry \<Rightarrow> bool" where
  "copy_of e x \<longleftrightarrow> e_Name x = e_Name e \<and> e_Version x = e_Version e \<and> e_Properties x = e_Properties e \<and>
     e_BundlePath x = e_BundlePath e \<and> e_Bundle x = e_Bundle e \<and> Entry_Package x = Entry_Package e \<and>
     Entry_Channel x = Entry_Channel e"

definition from_catalog :: "'v Entry \<Rightarrow> bool" where
  "from_catalog e \<longleftrightarrow> (\<exists>si. e_SourceInfo e = Some si \<and> \<not> Virtual (si_Catalog si))"

lemma entry_ident_source:
  assumes gf: "good_finder F" and lb: "labelled F" and un: "unambiguous F" and e: "e \<in> pool F"
  shows "\<exists>si. e_SourceInfo e = Some si \<and> BundleSourceInfo (entry_ident e) = Inr (e_Name e, si_Channel si, si_Catalog si) \<and>
    entry_of L F (e_Name e) (si_Channel si) (si_Catalog si) = Inr e"
proof -
  obtain si where si: "e_SourceInfo e = Some si" using pool_sourced [OF gf e] by (auto simp: sourced_def)
  have "plain_name (e_Name e)" "plain_name (si_Channel si)" "plain_name (sk_Name (si_Catalog si))" "plain_name (sk_Namespace (si_Catalog si))"
    using un e si unfolding unambiguous_def by blast+
  then have src: "BundleSourceInfo (entry_ident e) = Inr (e_Name e, si_Channel si, si_Catalog si)"
    using BundleSourceInfo_bundleID by (simp add: entry_ident_def si Entry_Channel_def)
  then show ?thesis using variable_entry_ident [OF gf lb un e, of L] si
    by (auto simp: variable_entry_def split: sum.splits if_splits)
qed

lemma resolved_operators_of:
  assumes gf: "good_finder F" and lb: "labelled F" and un: "unambiguous F"
  shows "bundle_ids vs \<subseteq> entry_ident ` pool F \<Longrightarrow>
    \<exists>ops es. operatorVariables vs = Inr ops \<and> resolved_operators L F starting ops = Inr (es, []) \<and>
      (\<forall>x \<in> set es. \<exists>e \<in> pool F. from_catalog e \<and> entry_ident e \<in> bundle_ids vs \<and> copy_of e x) \<and>
      (\<forall>e \<in> pool F. from_catalog e \<and> entry_ident e \<in> bundle_ids vs \<longrightarrow> (\<exists>x \<in> set es. copy_of e x))"
proof (induction vs rule: operatorVariables.induct)
  case (2 i cs rep vs)
  have i: "i \<in> entry_ident ` pool F" and sub: "bundle_ids vs \<subseteq> entry_ident ` pool F" using "2.prems" by simp_all
  then obtain e where e: "e \<in> pool F" "i = entry_ident e" by blast
  obtain si where si: "e_SourceInfo e = Some si" "BundleSourceInfo i = Inr (e_Name e, si_Channel si, si_Catalog si)"
      "entry_of L F (e_Name e) (si_Channel si) (si_Catalog si) = Inr e"
    using entry_ident_source [OF gf lb un e(1), of L] e(2) by blast
  have only: "e' = e" if "e' \<in> pool F" "entry_ident e' = i" for e'
    using entry_ident_inj [OF gf lb un that(1) e(1)] that(2) e(2) by simp
  show ?case
  proof (cases "Virtual (si_Catalog si)")
    case True
    then have nf: "\<not> from_catalog e" using si(1) by (simp add: from_catalog_def)
    note IH = "2.IH"(1) [OF si(2) refl refl True sub]
    then obtain ops es where IH: "operatorVariables vs = Inr ops" "resolved_operators L F starting ops = Inr (es, [])"
        "\<forall>x \<in> set es. \<exists>e \<in> pool F. from_catalog e \<and> entry_ident e \<in> bundle_ids vs \<and> copy_of e x"
        "\<forall>e \<in> pool F. from_catalog e \<and> entry_ident e \<in> bundle_ids vs \<longrightarrow> (\<exists>x \<in> set es. copy_of e x)" by blast
    show ?thesis
    proof (intro exI conjI)
      show "operatorVariables (BundleVariable i cs rep # vs) = Inr ops" using si(2) True IH(1) by simp
      show "resolved_operators L F starting ops = Inr (es, [])" by (rule IH(2))
      show "\<forall>x \<in> set es. \<exists>e \<in> pool F. from_catalog e \<and> entry_ident e \<in> bundle_ids (BundleVariable i cs rep # vs) \<and> copy_of e x"
        using IH(3) by (simp only: bundle_ids_simps insert_iff) blast
      show "\<forall>e \<in> pool F. from_catalog e \<and> entry_ident e \<in> bundle_ids (BundleVariable i cs rep # vs) \<longrightarrow> (\<exists>x \<in> set es. copy_of e x)"
        using IH(4) only nf by (simp only: bundle_ids_simps insert_iff) blast
    qed
  next
    case False
    obtain ops es where IH: "operatorVariables vs = Inr ops" "resolved_operators L F starting ops = Inr (es, [])"
        "\<forall>x \<in> set es. \<exists>e \<in> pool F. from_catalog e \<and> entry_ident e \<in> bundle_ids vs \<and> copy_of e x"
        "\<forall>e \<in> pool F. from_catalog e \<and> entry_ident e \<in> bundle_ids vs \<longrightarrow> (\<exists>x \<in> set es. copy_of e x)"
      using "2.IH"(2) [OF si(2) refl refl False sub] by blast
    let ?x = "resolved_entry starting (e_Name e) rep e si"
    have cp: "copy_of e ?x" using si(1) by (simp add: copy_of_def resolved_entry_def Entry_Package_def Entry_Channel_def)
    have fc: "from_catalog e" using si(1) False by (simp add: from_catalog_def)
    show ?thesis
    proof (intro exI conjI)
      show "operatorVariables (BundleVariable i cs rep # vs) = Inr ((i, rep) # ops)" using si(2) False IH(1) by simp
      show "resolved_operators L F starting ((i, rep) # ops) = Inr (?x # es, [])" using si IH(2) by simp
      show "\<forall>x \<in> set (?x # es). \<exists>e \<in> pool F. from_catalog e \<and> entry_ident e \<in> bundle_ids (BundleVariable i cs rep # vs) \<and> copy_of e x"
        using IH(3) cp fc e by (simp only: bundle_ids_simps insert_iff list.set ball_simps) blast
      show "\<forall>e \<in> pool F. from_catalog e \<and> entry_ident e \<in> bundle_ids (BundleVariable i cs rep # vs) \<longrightarrow> (\<exists>x \<in> set (?x # es). copy_of e x)"
        using IH(4) only cp by (simp only: bundle_ids_simps insert_iff list.set bex_simps) blast
    qed
  qed
qed auto

end
