(* ===== verification/Resolver_Total.thy ===== *)
theory Resolver_Total
  imports Resolver_Sound
begin

text \<open>
  The resolver never dereferences a nil pointer, whatever errors it collects on the way: every panic of
  the code is a branch of the model, and none of them is reached over a good finder.
\<close>

lemma sort_runs_subset: "sort_runs es ch run = Inr bs \<Longrightarrow> set bs \<subseteq> set es \<union> set run"
proof (induction es ch run arbitrary: bs rule: sort_runs.induct)
  case (1 ch run)
  then show ?case using sortChannel_subset by simp
next
  case (2 e es ch run)
  show ?case
  proof (cases "Entry_Channel e = ch")
    case True
    then show ?thesis using "2.IH"(1) [OF True, of bs] "2.prems" by auto
  next
    case False
    then obtain c cs where c: "sortChannel run = Inr c" "sort_runs es (Entry_Channel e) [e] = Inr cs" "bs = c @ cs"
      using "2.prems" by (auto simp: map_sum_def split: sum.splits)
    then show ?thesis using "2.IH"(2) [OF False c(1,2)] sortChannel_subset [OF c(1)] by auto
  qed
qed

lemma sort_runs_no_panic: "sort_runs es ch run \<noteq> Inl Panic"
proof (induction es ch run rule: sort_runs.induct)
  case (2 e es ch run)
  then show ?case using sortChannel_no_panic by (auto simp: map_sum_def split: sum.splits)
qed (simp add: sortChannel_no_panic)

lemma collect_candidates_no_panic:
  assumes "good_finder F"
  shows "collect_candidates r F it sub current os w cands vars = (Inl err, w') \<Longrightarrow> err \<noteq> Panic"
proof (induction os arbitrary: w cands vars)
  case (Cons o' os)
  obtain stack where stack: "f_Catalog (r_libs r) F (subscription_catalog sub)
      (cachePredicates sub current @ [csvNamePredicate (e_Name o')]) = Some stack" "set stack \<subseteq> catalog_entries F (subscription_catalog sub)"
    using f_Catalog_good [OF assms, of "r_libs r" "subscription_catalog sub" "cachePredicates sub current @ [csvNamePredicate (e_Name o')]"]
    by blast
  have sp: "set stack \<subseteq> pool F" using stack(2) catalog_entries_pool by blast
  obtain res w1 where get: "getBundleVariables r F (sub_Namespace sub) stack w = (res, w1)" by force
  show ?case
  proof (cases res)
    case (Inl e)
    then show ?thesis using Cons.prems stack(1) get getBundleVariables_no_panic [OF assms sp get [unfolded Inl]] by auto
  next
    case (Inr x)
    obtain ids vs where x: "x = (ids, vs)" by force
    show ?thesis
    proof (cases "length ids < 1")
      case True
      then show ?thesis using Cons.prems stack(1) get Inr x by auto
    next
      case False
      then have "collect_candidates r F it sub current os w1
          (cands @ map snd (filter (\<lambda>(i, a). bv_identifier (w_heap w1 ! a) \<in> set ids) (it_bundles it vs)))
          (store_bundles (w_heap w1) (it_bundles it vs) vars) = (Inl err, w')"
        using Cons.prems stack(1) get Inr x by (simp add: Let_def)
      then show ?thesis by (rule Cons.IH)
    qed
  qed
qed simp

lemma getSubscriptionVariables_no_panic:
  fixes r :: "('v, 'p) Resolver"
  assumes gf: "good_finder F" and v: "\<forall>c \<in> set_option current. e_Version c \<noteq> None"
    and get: "getSubscriptionVariables r F it sub current w = (Inl err, w')"
  shows "err \<noteq> Panic"
proof -
  let ?L = "r_libs r"
  obtain cps :: "('v, 'p) Predicate list" where cps: "channelPredicates current = Some cps"
    using v by (cases current) (auto simp: channelPredicates_def)
  obtain entries n where es: "Catalog_Find ?L (f_headers F) (f_map F) (subscription_catalog sub) (cachePredicates sub current) (\<lambda>_. 0) = Some (entries, n)"
      "set entries \<subseteq> catalog_entries F (subscription_catalog sub)"
    using Catalog_Find_good [OF gf, of ?L "subscription_catalog sub" "cachePredicates sub current" "\<lambda>_. 0"] by blast
  have inv: "invalid_subscription sub n = None"
    using get cps es(1) by (auto simp: getSubscriptionVariables_def split: option.splits)
  show ?thesis
  proof (cases "sort_runs (go_sort entry_Less entries) '''' []")
    case (Inl e)
    then show ?thesis using get cps es(1) inv sort_runs_no_panic [of "go_sort entry_Less entries"] by (auto simp: getSubscriptionVariables_def)
  next
    case (Inr bs)
    have "set bs \<subseteq> pool F" using sort_runs_subset [OF Inr] es(2) catalog_entries_pool by fastforce
    then have "\<forall>b \<in> set bs. sourced b" using pool_sourced [OF gf] by blast
    then have "f_Filter ?L bs cps = Some (filter (passes ?L cps) bs)" by (rule f_Filter_good)
    then obtain e w1 where "collect_candidates r F it sub current (filter (passes ?L cps) bs) w [] [] = (Inl e, w1)" "err = e"
      using get cps es(1) inv Inr by (auto simp: getSubscriptionVariables_def Let_def split: sum.splits prod.splits)
    then show ?thesis using collect_candidates_no_panic [OF gf] by blast
  qed
qed

text \<open>The installed operators have a version.\<close>

definition versioned :: "'v finder \<Rightarrow> Subscription list \<Rightarrow> bool" where
  "versioned F subs \<longleftrightarrow> (\<forall>sub \<in> set subs. \<forall>e \<in> catalog_entries F (NewVirtualSourceKey (sub_Namespace sub)). e_Version e \<noteq> None)"

lemma current_entry_cases:
  assumes "good_finder F"
  shows "current_entry L F sub \<noteq> Inl Panic"
    "current_entry L F sub = Inr (Some c) \<Longrightarrow> c \<in> catalog_entries F (NewVirtualSourceKey (sub_Namespace sub))"
proof -
  let ?k = "NewVirtualSourceKey (sub_Namespace sub)"
  obtain es where "f_Catalog L F ?k [csvNamePredicate (sub_InstalledCSV sub)] = Some es" "set es \<subseteq> catalog_entries F ?k"
    using f_Catalog_good [OF assms, of L ?k "[csvNamePredicate (sub_InstalledCSV sub)]"] by blast
  then show "current_entry L F sub \<noteq> Inl Panic" "current_entry L F sub = Inr (Some c) \<Longrightarrow> c \<in> catalog_entries F ?k"
    by (auto simp: current_entry_def split: if_splits)
qed

lemma resolve_subs_no_panic:
  assumes "good_finder F"
  shows "versioned F subs \<Longrightarrow> resolve_subs r F it subs st \<noteq> Inl Panic"
proof (induction subs arbitrary: st)
  case (Cons sub subs)
  have vs: "versioned F subs" using Cons.prems by (simp add: versioned_def)
  show ?case
  proof (cases "current_entry (r_libs r) F sub")
    case (Inl e)
    then show ?thesis using current_entry_cases(1) [OF assms, of "r_libs r" sub] by auto
  next
    case (Inr current)
    have "\<forall>c \<in> set_option current. e_Version c \<noteq> None"
    proof
      fix c assume "c \<in> set_option current"
      then have "current_entry (r_libs r) F sub = Inr (Some c)" using Inr by (cases current) auto
      from current_entry_cases(2) [OF assms this] show "e_Version c \<noteq> None" using Cons.prems by (simp add: versioned_def)
    qed
    note np = getSubscriptionVariables_no_panic [OF assms this]
    obtain res w where get: "getSubscriptionVariables r F it sub current (rs_world st) = (res, w)" by force
    obtain st1 where run: "resolve_subs r F it (sub # subs) st = (case res of
        Inl err \<Rightarrow> if err = Panic then Inl Panic
          else resolve_subs r F it subs (st1\<lparr>rs_world := w, rs_errs := rs_errs st1 @ [err]\<rparr>)
      | Inr subVariables \<Rightarrow> resolve_subs r F it subs (st1\<lparr>rs_world := w,
          rs_variables := store_variables (w_heap w) (it_variables it subVariables) (rs_variables st1)\<rparr>))"
      by (rule resolve_subs_Cons [OF Inr get, of subs])
    show ?thesis
    proof (cases res)
      case (Inl err)
      then have "err \<noteq> Panic" using np get by simp
      then show ?thesis unfolding run using Inl Cons.IH [OF vs] by simp
    next
      case (Inr x)
      then show ?thesis unfolding run using Cons.IH [OF vs] by simp
    qed
  qed
qed simp

lemma entry_of_no_panic: "good_finder F \<Longrightarrow> entry_of L F csv ch cat \<noteq> Inl Panic"
  using f_Catalog_good [of F L cat "[csvNamePredicate csv, channelPredicate ch]"]
  by (auto simp: entry_of_def split: option.splits)

lemma variable_entry_no_panic: "good_finder F \<Longrightarrow> variable_entry L F i \<noteq> Inl e"
  using entry_of_no_panic by (fastforce simp: variable_entry_def split: sum.splits if_splits)

lemma conflict_maps_no_panic: "good_finder F \<Longrightarrow> conflict_maps L F heap vs gvks pkgs \<noteq> None"
proof (induction L F heap vs gvks pkgs rule: conflict_maps.induct)
  case (3 L F heap i a vs gvks pkgs)
  then show ?case by (auto simp: variable_entry_no_panic split: sum.splits option.splits)
qed simp_all

lemma BundleSourceInfo_no_panic: "BundleSourceInfo i \<noteq> Inl Panic"
  by (simp add: BundleSourceInfo_def Let_def)

lemma operatorVariables_no_panic: "operatorVariables vs \<noteq> Inl Panic"
proof (induction vs rule: operatorVariables.induct)
  case (2 i cs rep vs)
  show ?case
  proof (cases "BundleSourceInfo i")
    case (Inl e)
    then show ?thesis using BundleSourceInfo_no_panic [of i] by simp
  next
    case (Inr x)
    obtain n c k where x: "x = (n, c, k)" by (metis prod_cases3)
    have "operatorVariables vs \<noteq> Inl Panic" using "2.IH" Inr x by (cases "Virtual k") auto
    then show ?thesis using Inr x by (cases "operatorVariables vs") auto
  qed
qed simp_all

lemma entry_of_pool: "good_finder F \<Longrightarrow> entry_of L F csv ch cat = Inr op \<Longrightarrow> op \<in> pool F"
  using f_Catalog_good [of F L cat "[csvNamePredicate csv, channelPredicate ch]"] catalog_entries_pool [of F cat]
  by (fastforce simp: entry_of_def ExactlyOne_def split: option.splits if_splits)

lemma resolved_operators_no_panic: "good_finder F \<Longrightarrow> resolved_operators L F starting ops \<noteq> Inl Panic"
proof (induction L F starting ops rule: resolved_operators.induct)
  case (2 L F starting i rep ops)
  define x where "x = (case BundleSourceInfo i of
      Inl err \<Rightarrow> Inl err
    | Inr (csvName, channel, catalog) \<Rightarrow>
        (case entry_of L F csvName channel catalog of
           Inl err \<Rightarrow> Inl err
         | Inr op \<Rightarrow> (case e_SourceInfo op of None \<Rightarrow> Inl Panic
                     | Some si \<Rightarrow> Inr (resolved_entry starting csvName rep op si))))"
  have src: "e_SourceInfo op \<noteq> None" if "entry_of L F csv ch cat = Inr op" for csv ch cat op
    using entry_of_pool [OF "2.prems" that] pool_sourced [OF "2.prems"] by (simp add: sourced_def)
  have nx: "x \<noteq> Inl Panic"
  proof (cases "BundleSourceInfo i")
    case (Inl e)
    then show ?thesis using BundleSourceInfo_no_panic [of i] by (simp add: x_def)
  next
    case (Inr y)
    obtain n c k where y: "y = (n, c, k)" by (metis prod_cases3)
    show ?thesis using Inr y src [of n c k] entry_of_no_panic [OF "2.prems", of L n c k]
      by (cases "entry_of L F n c k") (auto simp: x_def split: option.splits)
  qed
  have eq: "resolved_operators L F starting ((i, rep) # ops) =
     (case x of Inl err \<Rightarrow>
          (if err = Panic then Inl Panic
           else map_sum id (\<lambda>(es, errs). (es, err # errs)) (resolved_operators L F starting ops))
      | Inr e \<Rightarrow> map_sum id (\<lambda>(es, errs). (e # es, errs)) (resolved_operators L F starting ops))"
    by (simp add: x_def)
  have "resolved_operators L F starting ops \<noteq> Inl Panic"
    using "2.IH" "2.prems" nx by (cases x) (auto simp: x_def)
  then show ?case unfolding eq using nx by (cases x; cases "resolved_operators L F starting ops") auto
qed simp

end
