(* ===== verification/Cache_Runs.thy ===== *)
theory Cache_Runs
  imports Snapshots
begin

text \<open>
  Interleavings of the calls of \<^verbatim>\<open>Namespaced\<close> on one cache. A call that misses releases the read lock
  before it takes the write lock, so calls in between may change the cache, and a snapshot may expire
  at any moment. The steps below are the critical sections; the invariant is proved by induction on
  them. It gives that every finder that was handed out has a snapshot of the right catalog for each of
  its sources, and that a source never has two valid snapshots.
\<close>

subsection \<open>Steps\<close>

record 'v cache_sys =
  cs_cache :: "'v Cache"
  cs_waiting :: "((SourceKey \<times> 'v source) list \<times> snapshot_map \<times> SourceKey list) list"
  cs_finders :: "((SourceKey \<times> 'v source) list \<times> snapshot_map) list"

inductive cache_run :: "(SourceKey \<Rightarrow> int) \<Rightarrow> 'v cache_sys \<Rightarrow> bool" for P where
  start: "cache_run P \<lparr>cs_cache = newCache, cs_waiting = [], cs_finders = []\<rparr>"
| hit: "cache_run P s \<Longrightarrow> distinct (map fst sources) \<Longrightarrow> Namespaced_lookup (cs_cache s) sources = (m, []) \<Longrightarrow>
     cache_run P (s\<lparr>cs_finders := (sources, m) # cs_finders s\<rparr>)"
| miss: "cache_run P s \<Longrightarrow> distinct (map fst sources) \<Longrightarrow> Namespaced_lookup (cs_cache s) sources = (m, misses) \<Longrightarrow>
     misses \<noteq> [] \<Longrightarrow>
     cache_run P (s\<lparr>cs_waiting := (sources, m, misses) # cs_waiting s\<rparr>)"
| finish: "cache_run P s \<Longrightarrow> cs_waiting s = ws @ (sources, m, misses) # ws' \<Longrightarrow>
     Namespaced_update P (\<lambda>k. the (map_of sources k)) (cs_cache s) m misses = (c', m') \<Longrightarrow>
     cache_run P (s\<lparr>cs_cache := c', cs_waiting := ws @ ws', cs_finders := (sources, m') # cs_finders s\<rparr>)"
| expire: "cache_run P s \<Longrightarrow>
     cache_run P (s\<lparr>cs_cache := (cs_cache s)\<lparr>ch_closed := insert a (ch_closed (cs_cache s))\<rparr>\<rparr>)"

subsection \<open>The invariant\<close>

text \<open>A source has at most one valid snapshot, the one the cache holds.\<close>

definition single_valid :: "'v Cache \<Rightarrow> bool" where
  "single_valid c \<longleftrightarrow> (\<forall>a. Valid c a \<longrightarrow> map_of (ch_snapshots c) (hdr_key (ch_headers c ! a)) = Some a)"

definition waiting_ok :: "'v snapshotHeader list \<Rightarrow> (SourceKey \<times> 'v source) list \<times> snapshot_map \<times> SourceKey list \<Rightarrow> bool" where
  "waiting_ok H = (\<lambda>(sources, m, misses). wf_map H m \<and> distinct misses \<and>
     dom (map_of m) \<union> set misses = fst ` set sources)"

definition finder_ok :: "'v snapshotHeader list \<Rightarrow> (SourceKey \<times> 'v source) list \<times> snapshot_map \<Rightarrow> bool" where
  "finder_ok H = (\<lambda>(sources, m). wf_map H m \<and> dom (map_of m) = fst ` set sources)"

definition sys_ok :: "'v cache_sys \<Rightarrow> bool" where
  "sys_ok s \<longleftrightarrow> wf_map (ch_headers (cs_cache s)) (ch_snapshots (cs_cache s)) \<and> single_valid (cs_cache s) \<and>
     (\<forall>w \<in> set (cs_waiting s). waiting_ok (ch_headers (cs_cache s)) w) \<and>
     (\<forall>f \<in> set (cs_finders s). finder_ok (ch_headers (cs_cache s)) f)"

lemma finder_ok_append: "finder_ok H f \<Longrightarrow> finder_ok (H @ H') f"
  by (auto simp: finder_ok_def intro: wf_map_append)

lemma waiting_ok_append: "waiting_ok H w \<Longrightarrow> waiting_ok (H @ H') w"
  by (auto simp: waiting_ok_def intro: wf_map_append)

lemma Valid_append:
  assumes "ch_headers c' = ch_headers c @ H" and "ch_closed c' = ch_closed c" and "a < length (ch_headers c)"
  shows "Valid c' a = Valid c a"
  using assms by (simp add: Valid_def nth_append)

lemma populate_closed: "populate P src ms c m = (c', m') \<Longrightarrow> ch_closed c' = ch_closed c"
  by (induction P src ms c m rule: populate.induct) (auto simp: Let_def)

lemma Namespaced_update_closed:
  "Namespaced_update P src c m misses = (c', m') \<Longrightarrow> ch_closed c' = ch_closed c"
  by (auto simp: Namespaced_update_def clear_expired_def Let_def split: prod.splits dest: populate_closed)

lemma populate_shape:
  "populate P src ms c m = (c', m') \<Longrightarrow>
     ch_headers c' = ch_headers c @ map (\<lambda>k. new_header P k (src k)) ms \<and>
     (\<forall>k. k \<notin> set ms \<longrightarrow> map_of (ch_snapshots c') k = map_of (ch_snapshots c) k)"
  by (induction ms arbitrary: c m) (fastforce simp: Let_def alist_simps)+

lemma populate_headers:
  assumes "populate P src ms c m = (c', m')" and "distinct ms"
    and "length (ch_headers c) \<le> a" and "a < length (ch_headers c')"
  shows "map_of (ch_snapshots c') (hdr_key (ch_headers c' ! a)) = Some a"
  using assms
proof (induction ms arbitrary: c m)
  case (Cons k ms)
  let ?c = "c\<lparr>ch_headers := ch_headers c @ [new_header P k (src k)],
              ch_snapshots := AList.update k (length (ch_headers c)) (ch_snapshots c)\<rparr>"
  have pop: "populate P src ms ?c (AList.update k (length (ch_headers c)) m) = (c', m')"
    using Cons.prems(1) by (simp add: Let_def)
  show ?case
  proof (cases "a = length (ch_headers c)")
    case True
    then show ?thesis using populate_shape [OF pop] Cons.prems(2) by (simp add: nth_append alist_simps)
  next
    case False
    then show ?thesis using Cons.IH [OF pop] Cons.prems(2-4) by simp
  qed
qed auto

lemma Namespaced_update_headers:
  assumes "Namespaced_update P src c m misses = (c', m')" and "distinct misses"
    and "wf_map (ch_headers c) (ch_snapshots c)"
    and "length (ch_headers c) \<le> a" and "a < length (ch_headers c')"
  shows "map_of (ch_snapshots c') (hdr_key (ch_headers c' ! a)) = Some a"
proof -
  let ?c = "clear_expired c"
  obtain ms f r where rc: "recheck ?c [0..<length misses] misses 0 m = (ms, f, r)" by (metis prod_cases3)
  have pop: "populate P src (drop f ms) ?c r = (c', m')"
    using assms(1) rc by (simp add: Namespaced_update_def Let_def)
  have "mset ms = mset misses" using recheck_inv [OF rc] by simp
  then have "distinct (drop f ms)" using assms(2) by (metis distinct_drop mset_eq_imp_distinct_iff)
  then show ?thesis using populate_headers [OF pop] assms(4,5) by (simp add: clear_expired_def)
qed

lemma single_valid_update:
  assumes upd: "Namespaced_update P src c m misses = (c', m')" and "distinct misses"
    and wf: "wf_map (ch_headers c) (ch_snapshots c)" "wf_map (ch_headers c) m" and sv: "single_valid c"
  shows "single_valid c'"
  unfolding single_valid_def
proof (intro allI impI)
  fix a assume v: "Valid c' a"
  note U = Namespaced_update_correct [OF upd assms(2) wf]
  obtain H where H: "ch_headers c' = ch_headers c @ H" using U by blast
  let ?k = "hdr_key (ch_headers c' ! a)"
  show "map_of (ch_snapshots c') ?k = Some a"
  proof (cases "a < length (ch_headers c)")
    case True
    then have "Valid c a" using v Valid_append [OF H Namespaced_update_closed [OF upd]] by simp
    then have "live c ?k = Some a" using sv True H by (simp add: single_valid_def live_def nth_append)
    then show ?thesis using U by (cases "?k \<in> set misses") fastforce+
  next
    case False
    then show ?thesis
      using Namespaced_update_headers [OF upd assms(2) wf(1)] v by (simp add: Valid_def)
  qed
qed

lemma lookup_ok:
  assumes "wf_map (ch_headers c) (ch_snapshots c)" and "distinct (map fst sources)"
    and "Namespaced_lookup c sources = (m, misses)"
  shows "waiting_ok (ch_headers c) (sources, m, misses)"
proof -
  note L = Namespaced_lookup_correct [OF assms(3,2,1)]
  then have "dom (map_of m) = {k \<in> fst ` set sources. live c k \<noteq> None}"
    by (auto simp: dom_def split: if_splits)
  then show ?thesis using L by (auto simp: waiting_ok_def)
qed

lemma finish_ok:
  assumes "Namespaced_update P src c m misses = (c', m')"
    and "wf_map (ch_headers c) (ch_snapshots c)" and "waiting_ok (ch_headers c) (sources, m, misses)"
  shows "finder_ok (ch_headers c') (sources, m')"
proof -
  have w: "wf_map (ch_headers c) m" "distinct misses" "dom (map_of m) \<union> set misses = fst ` set sources"
    using assms(3) by (auto simp: waiting_ok_def)
  note U = Namespaced_update_correct [OF assms(1) w(2) assms(2) w(1)]
  have "dom (map_of m') = dom (map_of m) \<union> set misses"
  proof (rule set_eqI)
    fix k show "k \<in> dom (map_of m') \<longleftrightarrow> k \<in> dom (map_of m) \<union> set misses"
      using U by (cases "k \<in> set misses") auto
  qed
  then show ?thesis using U w(3) by (simp add: finder_ok_def)
qed

lemma cache_run_ok: "cache_run P s \<Longrightarrow> sys_ok s"
proof (induction rule: cache_run.induct)
  case start
  then show ?case by (simp add: sys_ok_def newCache_def wf_map_def single_valid_def Valid_def)
next
  case (hit s sources m)
  then have "finder_ok (ch_headers (cs_cache s)) (sources, m)"
    using lookup_ok [OF _ hit(2,3)] by (simp add: sys_ok_def waiting_ok_def finder_ok_def)
  then show ?case using hit.IH by (simp add: sys_ok_def)
next
  case (miss s sources m misses)
  then show ?case using lookup_ok [OF _ miss(2,3)] by (simp add: sys_ok_def)
next
  case (finish s ws sources m misses ws' c' m')
  let ?c = "cs_cache s"
  have w: "waiting_ok (ch_headers ?c) (sources, m, misses)" and wf: "wf_map (ch_headers ?c) (ch_snapshots ?c)"
    and sv: "single_valid ?c" using finish.IH finish.hyps(2) by (simp_all add: sys_ok_def)
  have dm: "distinct misses" "wf_map (ch_headers ?c) m" using w by (simp_all add: waiting_ok_def)
  note U = Namespaced_update_correct [OF finish.hyps(3) dm(1) wf dm(2)]
  obtain H where "ch_headers c' = ch_headers ?c @ H" using U by blast
  then show ?case
    using finish.IH finish.hyps(2) U single_valid_update [OF finish.hyps(3) dm(1) wf dm(2) sv]
      finish_ok [OF finish.hyps(3) wf w] waiting_ok_append finder_ok_append
    by (simp add: sys_ok_def) blast
next
  case (expire s a)
  then show ?case by (simp add: sys_ok_def single_valid_def Valid_def)
qed

end
