(* ===== verification/Cache_Properties.thy ===== *)
theory Cache_Properties
  imports Cache_Runs Olm_Constraints
begin

text \<open>
  The properties of the snapshot cache, of finding and filtering entries, and of dependency constraints,
  each with a concrete instance.
\<close>

subsection \<open>The cache under concurrent calls\<close>

text \<open>A run for the instances: one catalog, requested once, then expired and requested again\<close>

abbreviation catalog_a :: SourceKey where
  "catalog_a \<equiv> \<lparr>sk_Name = ''a'', sk_Namespace = ''ns''\<rparr>"

definition first_call :: "nat cache_sys" where
  "first_call =
     \<lparr>cs_cache = \<lparr>ch_snapshots = [(catalog_a, 0)], ch_headers = [new_header (\<lambda>_. 0) catalog_a (Inr (Some []))],
                  ch_closed = {}\<rparr>,
      cs_waiting = [], cs_finders = [([(catalog_a, Inr (Some []))], [(catalog_a, 0)])]\<rparr>"

lemma first_call_run: "cache_run (\<lambda>_. 0) first_call"
proof -
  let ?src = "[(catalog_a, Inr (Some []))] :: (SourceKey \<times> nat source) list"
  let ?s = "\<lparr>cs_cache = newCache, cs_waiting = [], cs_finders = []\<rparr> :: nat cache_sys"
  have "cache_run (\<lambda>_. 0) (?s\<lparr>cs_waiting := (?src, [], [catalog_a]) # cs_waiting ?s\<rparr>)"
    by (rule cache_run.miss [OF cache_run.start]) (simp_all add: newCache_def)
  from cache_run.finish [OF this, of "[]" ?src "[]" "[catalog_a]" "[]"] show ?thesis
    by (simp add: first_call_def newCache_def Namespaced_update_def clear_expired_def)
qed

definition second_call :: "nat cache_sys" where
  "second_call = first_call
     \<lparr>cs_cache := (cs_cache first_call)\<lparr>ch_closed := {0}, ch_snapshots := [(catalog_a, 1)],
        ch_headers := [new_header (\<lambda>_. 0) catalog_a (Inr (Some [])), new_header (\<lambda>_. 0) catalog_a (Inr (Some []))]\<rparr>,
      cs_finders := ([(catalog_a, Inr (Some []))], [(catalog_a, 1)]) # cs_finders first_call\<rparr>"

lemma second_call_run: "cache_run (\<lambda>_. 0) second_call"
proof -
  let ?src = "[(catalog_a, Inr (Some []))] :: (SourceKey \<times> nat source) list"
  have 1: "cache_run (\<lambda>_. 0) (first_call\<lparr>cs_cache := (cs_cache first_call)\<lparr>ch_closed := insert 0 (ch_closed (cs_cache first_call))\<rparr>\<rparr>)"
    (is "cache_run _ ?s") by (rule cache_run.expire [OF first_call_run])
  have "cache_run (\<lambda>_. 0) (?s\<lparr>cs_waiting := (?src, [], [catalog_a]) # cs_waiting ?s\<rparr>)"
    by (rule cache_run.miss [OF 1]) (simp_all add: first_call_def Valid_def)
  from cache_run.finish [OF this, of "[]" ?src "[]" "[catalog_a]" "[]"] show ?thesis
    by (simp add: first_call_def second_call_def Namespaced_update_def clear_expired_def Valid_def)
qed

text \<open>
  C8. In every interleaving of calls of \<^verbatim>\<open>Namespaced\<close> and expirations, each finder that was handed out
  has a snapshot for every source that was asked for and for no other, and each of its snapshots is of
  the catalog it is filed under.
\<close>

theorem finders_complete:
  assumes "cache_run P s" and "(sources, m) \<in> set (cs_finders s)"
  shows "dom (map_of m) = fst ` set sources \<and>
    (\<forall>(k, a) \<in> set m. a < length (ch_headers (cs_cache s)) \<and> hdr_key (ch_headers (cs_cache s) ! a) = k)"
proof -
  have "finder_ok (ch_headers (cs_cache s)) (sources, m)"
    using cache_run_ok [OF assms(1)] assms(2) unfolding sys_ok_def by blast
  then show ?thesis by (simp add: finder_ok_def wf_map_def)
qed

theorem finders_complete_witness:
  "dom (map_of [(catalog_a, 1 :: nat)]) = {catalog_a}"
  using finders_complete [OF second_call_run, of "[(catalog_a, Inr (Some []))]" "[(catalog_a, 1)]"]
  by (simp add: second_call_def)

text \<open>
  C9. However calls interleave, a source never has two snapshots that are valid at the same time: a call
  that waited for the write lock uses what another one has stored meanwhile.
\<close>

theorem one_valid_snapshot:
  assumes "cache_run P s" and "Valid (cs_cache s) a" and "Valid (cs_cache s) b"
    and "hdr_key (ch_headers (cs_cache s) ! a) = hdr_key (ch_headers (cs_cache s) ! b)"
  shows "a = b"
proof -
  have "single_valid (cs_cache s)" using cache_run_ok [OF assms(1)] by (simp add: sys_ok_def)
  then show ?thesis using assms(2-4) by (metis option.inject single_valid_def)
qed

theorem one_valid_snapshot_witness: "\<not> Valid (cs_cache second_call) 0"
proof
  assume "Valid (cs_cache second_call) 0"
  moreover have "Valid (cs_cache second_call) 1" by (simp add: second_call_def first_call_def Valid_def new_header_def)
  ultimately show False
    using one_valid_snapshot [OF second_call_run, of 0 1] by (simp add: second_call_def first_call_def)
qed

end
