(* ===== verification/Resolver_Properties.thy ===== *)
theory Resolver_Properties
  imports Resolver_Total Cache_Properties
begin

text \<open>
  The properties of the resolver as its callers see it, with instances on a small cluster: one catalog
  with an operator that requires an API and one that provides it, and a subscription for the first.
\<close>

lemma resolver_input_no_panic:
  assumes gf: "good_finder F" and v: "versioned F subs"
  shows "resolver_input r F it namespaces subs \<noteq> Inl Panic"
proof (cases "namespaces = []")
  case False
  let ?L = "r_libs r" and ?k = "NewVirtualSourceKey (namespaces ! 0)"
  obtain existing where ex: "f_Catalog ?L F ?k [booleanPredicate True] = Some existing" "set existing \<subseteq> catalog_entries F ?k"
    using f_Catalog_good [OF gf, of ?L ?k "[booleanPredicate True]"] by auto
  then have sp: "set existing \<subseteq> pool F" using catalog_entries_pool by blast
  obtain res w where get: "getBundleVariables r F (namespaces ! 0) existing \<lparr>w_heap = [], w_visited = []\<rparr> = (res, w)" by force
  show ?thesis
  proof (cases res)
    case (Inl e)
    then show ?thesis using getBundleVariables_no_panic [OF gf sp get [unfolded Inl]] False ex(1) get
      by (simp add: resolver_input_def Let_def)
  next
    case (Inr x)
    obtain ids vs where x: "x = (ids, vs)" by force
    define res2 where "res2 = resolve_subs r F it subs
        \<lparr>rs_variables = store_bundles (w_heap w) (it_bundles it vs) [], rs_world = w, rs_startingCSVs = [], rs_errs = []\<rparr>"
    have n2: "res2 \<noteq> Inl Panic" unfolding res2_def by (rule resolve_subs_no_panic [OF gf v])
    have "addInvariants ?L F it h vars \<noteq> None" for h vars
      using conflict_maps_no_panic [OF gf, of ?L h] by (auto simp: addInvariants_def)
    then show ?thesis using n2 False ex(1) get Inr x
      by (cases res2) (auto simp: resolver_input_def Let_def res2_def [symmetric] split: option.splits)
  qed
qed (simp add: resolver_input_def)

lemma Resolve_no_panic:
  assumes gf: "good_finder F" and v: "versioned F subs"
  shows "Resolve r G F it namespaces subs \<noteq> Inl Panic"
proof (cases "resolver_input r F it namespaces subs")
  case (Inl e)
  then show ?thesis using resolver_input_no_panic [OF assms, of r it namespaces] by (simp add: Resolve_def)
next
  case (Inr x)
  obtain input starting where x: "x = (input, starting)" by force
  obtain res where res: "solve_variables G LoggingTracer input = Some res" using solve_variables_returns by blast
  show ?thesis
  proof (cases res)
    case (Inr sel)
    show ?thesis
    proof (cases "operatorVariables sel")
      case (Inl e)
      then show ?thesis using \<open>resolver_input r F it namespaces subs = Inr x\<close> x res Inr operatorVariables_no_panic [of sel]
        by (simp add: Resolve_def)
    next
      case (Inr ops)
      then show ?thesis
        using \<open>resolver_input r F it namespaces subs = Inr x\<close> x res \<open>res = Inr sel\<close>
          resolved_operators_no_panic [OF gf, of "r_libs r" starting ops]
        by (cases "resolved_operators (r_libs r) F starting ops") (auto simp: Resolve_def split: if_splits)
    qed
  qed (use Inr x res in \<open>simp add: Resolve_def\<close>)
qed

text \<open>What the solver's answer gives\<close>

lemma resolver_answer:
  assumes gf: "good_finder F" and lb: "labelled F" and un: "unambiguous F" and nc: "no_clash F subs" and cs: "closed_system r"
    and it: "iterates it" and ns: "namespaces ! 0 \<noteq> []" "\<forall>sub \<in> set subs. sub_Namespace sub = namespaces ! 0"
    and sat: "inter_S G wires gates clauses scopes pending conflicted marked"
    and inp: "resolver_input r F it namespaces subs = Inr (input, starting)"
    and sel: "solve_variables G LoggingTracer input = Some (Inr sel)"
  shows "\<exists>ops. Resolve r G F it namespaces subs = Inr ops \<and>
    valid_install (r_libs r) F (namespaces ! 0) subs (Identifier ` set sel) \<and>
    (\<forall>x \<in> set ops. \<exists>e \<in> pool F. from_catalog e \<and> entry_ident e \<in> Identifier ` set sel \<and> copy_of e x) \<and>
    (\<forall>e \<in> pool F. from_catalog e \<and> entry_ident e \<in> Identifier ` set sel \<longrightarrow> (\<exists>x \<in> set ops. copy_of e x))"
proof -
  let ?S = "Identifier ` set sel"
  obtain vars0 vars w where b: "built r F it (namespaces ! 0) subs vars0 vars w input"
    using resolver_input_built [OF gf lb cs it ns(2) inp] by blast
  note wf = built_well_formed [OF b it]
  have sol: "is_solution input ?S" "set sel \<subseteq> set input"
    using solve_selects [OF sat sel] by (metis filter_is_subset)+
  have key: "Identifier (rvar_variable (w_heap w) v) = i" if "map_of vars i = Some v" for i v
    using wf(2) that by (cases v) (auto simp: rs_inv_def stored_def)
  have S: "?S \<subseteq> dom (map_of vars)"
  proof
    fix i assume "i \<in> ?S"
    then obtain x where x: "x \<in> set input" "i = Identifier x" using sol(2) by blast
    then obtain k v where "map_of vars k = Some v" "x = rvar_variable (w_heap w) v" unfolding wf(3) ran_def by blast
    then show "i \<in> dom (map_of vars)" using key x(2) by auto
  qed
  then have so: "solved r F it (namespaces ! 0) subs vars0 vars w input ?S"
    using b it gf lb un nc sol(1) by (simp add: solved_def)
  have ids: "bundle_ids sel \<subseteq> entry_ident ` pool F \<inter> ?S"
  proof
    fix i assume "i \<in> bundle_ids sel"
    then obtain cs rep where x: "BundleVariable i cs rep \<in> set sel" by (auto simp: bundle_ids_def)
    then have "BundleVariable i cs rep \<in> set input" using sol(2) by blast
    then obtain k v where v: "map_of vars k = Some v" "BundleVariable i cs rep = rvar_variable (w_heap w) v"
      unfolding wf(3) ran_def by blast
    have "generic_at k g" if "v = Generic g" for g using wf(2) v(1) that by (simp add: rs_inv_def)
    then obtain a where a: "v = BundleRef a" using v(2) by (cases v) (auto simp: generic_at_def)
    then have "a \<in> ran (map_of (w_visited w))" "bv_identifier (w_heap w ! a) = k"
      using wf(2) v(1) by (simp_all add: rs_inv_def stored_def)
    moreover have "visited_ok r F (dom (map_of vars)) (w_heap w) (w_visited w)" using wf(2) by (simp add: rs_inv_def)
    moreover have "i = k" using key [OF v(1)] v(2) by (metis Identifier.simps(1))
    ultimately have "i \<in> entry_ident ` pool F" using stored_idents by blast
    moreover have "i \<in> ?S" using x by force
    ultimately show "i \<in> entry_ident ` pool F \<inter> ?S" by blast
  qed
  have conv: "entry_ident e \<in> bundle_ids sel" if e: "e \<in> pool F" "entry_ident e \<in> ?S" for e
  proof -
    obtain x where x: "x \<in> set sel" "entry_ident e = Identifier x" using e(2) by blast
    then obtain k v where v: "map_of vars k = Some v" "x = rvar_variable (w_heap w) v"
      using sol(2) unfolding wf(3) ran_def by blast
    then have "k = entry_ident e" using key x(2) by auto
    then obtain a where "v = BundleRef a" using solved_cell [OF so e(1)] v(1) by auto
    then show ?thesis using x v(2) by (auto simp: bundle_ids_def bv_variable_def)
  qed
  obtain ops es where ops: "operatorVariables sel = Inr ops" "resolved_operators (r_libs r) F starting ops = Inr (es, [])"
      "\<forall>x \<in> set es. \<exists>e \<in> pool F. from_catalog e \<and> entry_ident e \<in> bundle_ids sel \<and> copy_of e x"
      "\<forall>e \<in> pool F. from_catalog e \<and> entry_ident e \<in> bundle_ids sel \<longrightarrow> (\<exists>x \<in> set es. copy_of e x)"
    using resolved_operators_of [OF gf lb un, of sel "r_libs r" starting] ids by blast
  have "Resolve r G F it namespaces subs = Inr es" using inp sel ops(1,2) by (simp add: Resolve_def)
  moreover have "valid_install (r_libs r) F (namespaces ! 0) subs ?S" by (rule solution_valid [OF so]) (use ns(1) in simp)
  ultimately show ?thesis using ops(3,4) ids conv by blast
qed

subsection \<open>A cluster for the instances\<close>

text \<open>
  The catalog has \<open>a2\<close>, which requires an API, and \<open>b1\<close>, which provides it; nothing is installed, and a
  subscription asks for the package of \<open>a2\<close>. Versions are truth values, the ranges that parse are \<open>>=1\<close> and
  \<open>>=2\<close>, and no CEL expression is accepted.
\<close>

abbreviation some_catalog :: SourceKey where
  "some_catalog \<equiv> \<lparr>sk_Name = ''c'', sk_Namespace = ''o''\<rparr>"

abbreviation text_fields :: "(string \<times> string) list \<Rightarrow> rawJSON" where
  "text_fields fs \<equiv> \<lparr>raw_doc = Some (JObj (map (\<lambda>(k, v). (k, JStr v)) fs)), raw_len = 64, raw_more = False\<rparr>"

definition package_property :: "string \<Rightarrow> string \<Rightarrow> Property" where
  "package_property name version = \<lparr>p_Type = PackageType, p_Value = text_fields [(''packageName'', name), (''version'', version)]\<rparr>"

definition gvk_property :: "string \<Rightarrow> Property" where
  "gvk_property type = \<lparr>p_Type = type, p_Value = text_fields [(''group'', ''g''), (''kind'', ''K''), (''version'', ''v1'')]\<rparr>"

definition an_entry ::
    "nat \<Rightarrow> string \<Rightarrow> string \<Rightarrow> SourceKey \<Rightarrow> bool \<Rightarrow> nat option \<Rightarrow> Property list \<Rightarrow> string \<Rightarrow> bool Entry" where
  "an_entry addr name pkg catalog v sub ps replaces =
     \<lparr>e_addr = addr, e_Name = name, e_Replaces = replaces, e_Skips = [], e_SkipRange = None, e_ProvidedAPIs = [],
      e_RequiredAPIs = [], e_Version = Some v,
      e_SourceInfo = Some \<lparr>si_Package = pkg, si_Channel = ''s'', si_StartingCSV = '''', si_Catalog = catalog,
        si_DefaultChannel = True, si_Deprecations = None, si_Subscription = sub\<rparr>,
      e_Properties = ps, e_BundlePath = '''', e_Bundle = Some addr\<rparr>"

abbreviation a2 :: "bool Entry" where
  "a2 \<equiv> an_entry 2 ''a2'' ''a'' some_catalog True None
     [package_property ''a'' ''2'', gvk_property ''olm.gvk.required''] ''''"

abbreviation b1 :: "bool Entry" where
  "b1 \<equiv> an_entry 3 ''b1'' ''b'' some_catalog False None [gvk_property GVKType] ''''"

definition some_finder :: "bool finder" where
  "some_finder =
     \<lparr>f_headers = [\<lparr>hdr_key = NewVirtualSourceKey ''n'', hdr_snapshot = Some [], hdr_err = None, hdr_priority = 0\<rparr>,
                   \<lparr>hdr_key = some_catalog, hdr_snapshot = Some [a2, b1], hdr_err = None, hdr_priority = 0\<rparr>],
      f_map = [(NewVirtualSourceKey ''n'', 0), (some_catalog, 1)]\<rparr>"

definition some_resolver :: "(bool, unit) Resolver" where
  "some_resolver =
     \<lparr>r_libs = \<lparr>semver_Parse = (\<lambda>s. if s = ''1'' then Some False else if s = ''2'' then Some True else None),
                semver_ParseRange = (\<lambda>s. if s = ''>=1'' then Some (\<lambda>_. True) else if s = ''>=2'' then Some id else None),
                semver_String = (\<lambda>v. if v then ''2'' else ''1''), cel_Validate = (\<lambda>_. None), cel_Evaluate = (\<lambda>_ _. None)\<rparr>,
      r_system = None\<rparr>"

definition in_order :: iteration where
  "in_order = \<lparr>it_bundles = id, it_variables = id, it_gvks = id, it_packages = id\<rparr>"

definition some_subscription :: Subscription where
  "some_subscription = \<lparr>sub_addr = 0, sub_Name = ''x'', sub_Namespace = ''n'', sub_CatalogSource = ''c'',
     sub_CatalogSourceNamespace = ''o'', sub_Package = ''a'', sub_Channel = ''s'', sub_StartingCSV = '''', sub_CurrentCSV = '''',
     sub_InstalledCSV = ''''\<rparr>"

lemma some_pool: "pool some_finder = {a2, b1}"
  by (auto simp: pool_def some_finder_def hdr_entries_def)

lemma some_catalog_entries:
  "catalog_entries some_finder some_catalog = {a2, b1}" "catalog_entries some_finder (NewVirtualSourceKey ''n'') = {}"
  by (auto simp: catalog_entries_def some_finder_def hdr_entries_def NewVirtualSourceKey_def existingOperatorKey_def
      SourceKey_Empty_def)

lemma some_provided:
  "provided_GVKs a2 = []" "provided_GVKs b1 = [\<lparr>gvk_Group = ''g'', gvk_Kind = ''K'', gvk_Version = ''v1''\<rparr>]"
  "provided_packages a2 = [''a'']" "provided_packages b1 = []" "entry_ident a2 = ''c/o/s/a2''" "entry_ident b1 = ''c/o/s/b1''"
  "gvk_ident \<lparr>gvk_Group = ''g'', gvk_Kind = ''K'', gvk_Version = ''v1''\<rparr> = ''K (g/v1)''"
  "sub_ident some_subscription = ''subscription:x''"
  by code_simp+

lemmas some_defs = some_finder_def an_entry_def some_subscription_def NewVirtualSourceKey_def existingOperatorKey_def

lemma some_cluster:
  "good_finder some_finder" "labelled some_finder" "unambiguous some_finder" "no_clash some_finder [some_subscription]"
  "closed_system some_resolver" "iterates in_order" "versioned some_finder [some_subscription]"
proof -
  show "good_finder some_finder"
    unfolding good_finder_def some_pool
    by (auto simp: some_defs wf_map_def all_sourced_def sourced_def inj_on_def hdr_entries_def)
  show "labelled some_finder" by (auto simp: labelled_def some_defs hdr_entries_def)
  show "unambiguous some_finder"
    unfolding unambiguous_def some_pool
    by (auto simp: an_entry_def plain_name_def SourceKey_Empty_def some_catalog_entries [unfolded an_entry_def])
       (auto simp: some_defs hdr_entries_def)
  show "no_clash some_finder [some_subscription]"
    unfolding no_clash_def gvks_of_def packages_of_def some_pool by (simp add: some_provided)
  show "closed_system some_resolver" by (simp add: closed_system_def some_resolver_def)
  show "iterates in_order" by (simp add: iterates_def in_order_def)
  show "versioned some_finder [some_subscription]"
    by (simp add: versioned_def some_subscription_def some_catalog_entries)
qed

lemma some_resolution:
  "map_sum id (map e_Name) (Resolve some_resolver (ref_gini True) some_finder in_order [''n''] [some_subscription]) =
     Inr [''b1'', ''a2'']"
  by code_simp

subsection \<open>Properties\<close>

text \<open>
  C10. Whatever the cache holds, the input built by \<^verbatim>\<open>Resolve\<close> is one the solver accepts: no identifier occurs
  twice and no constraint refers to a variable that is not there.
\<close>

theorem resolver_input_well_formed:
  assumes "good_finder F" and "labelled F" and "closed_system r" and "iterates it"
    and "\<forall>sub \<in> set subs. sub_Namespace sub = namespaces ! 0"
    and "resolver_input r F it namespaces subs = Inr (input, starting)"
  shows "well_formed input"
  using resolver_input_built [OF assms] built_well_formed(1) [OF _ assms(4)] by blast

theorem resolver_input_well_formed_witness:
  "\<exists>input starting. resolver_input some_resolver some_finder in_order [''n''] [some_subscription] = Inr (input, starting) \<and>
     well_formed input"
proof -
  obtain input starting where inp:
      "resolver_input some_resolver some_finder in_order [''n''] [some_subscription] = Inr (input, starting)"
    using some_resolution by (auto simp: Resolve_def split: sum.splits)
  moreover have "\<forall>sub \<in> set [some_subscription]. sub_Namespace sub = [''n''] ! 0" by (simp add: some_subscription_def)
  ultimately show ?thesis
    using resolver_input_well_formed [OF some_cluster(1,2,5,6), of "[some_subscription]" "[''n'']" input starting] by blast
qed

text \<open>
  C11. \<^verbatim>\<open>Resolve\<close> never panics: with a finder whose entries come from the sources, and versions for the installed
  operators, no missing snapshot or source information is dereferenced and no empty container is popped.
\<close>

theorem resolve_never_panics:
  assumes "good_finder F" and "versioned F subs"
  shows "Resolve r G F it namespaces subs \<noteq> Inl Panic"
  by (rule Resolve_no_panic [OF assms])

text \<open>The same catalog when \<open>a1\<close> is installed by the subscription and \<open>a2\<close> replaces it\<close>

abbreviation installed_a1 :: "bool Entry" where
  "installed_a1 \<equiv> an_entry 1 ''a1'' ''a'' (NewVirtualSourceKey ''n'') False (Some 0) [package_property ''a'' ''1''] ''''"

abbreviation upgrade_a2 :: "bool Entry" where
  "upgrade_a2 \<equiv> an_entry 2 ''a2'' ''a'' some_catalog True None
     [package_property ''a'' ''2'', gvk_property ''olm.gvk.required''] ''a1''"

definition upgrade_finder :: "bool finder" where
  "upgrade_finder =
     \<lparr>f_headers = [\<lparr>hdr_key = NewVirtualSourceKey ''n'', hdr_snapshot = Some [installed_a1], hdr_err = None, hdr_priority = 0\<rparr>,
                   \<lparr>hdr_key = some_catalog, hdr_snapshot = Some [upgrade_a2, b1], hdr_err = None, hdr_priority = 0\<rparr>],
      f_map = [(NewVirtualSourceKey ''n'', 0), (some_catalog, 1)]\<rparr>"

lemma upgrade_cluster:
  "good_finder upgrade_finder" "versioned upgrade_finder [some_subscription]"
  "catalog_entries upgrade_finder (NewVirtualSourceKey ''n'') = {installed_a1}"
proof -
  have "pool upgrade_finder = {installed_a1, upgrade_a2, b1}"
    by (auto simp: pool_def upgrade_finder_def hdr_entries_def)
  then show "good_finder upgrade_finder"
    unfolding good_finder_def
    by (auto simp: upgrade_finder_def some_defs wf_map_def all_sourced_def sourced_def inj_on_def hdr_entries_def)
  show entries: "catalog_entries upgrade_finder (NewVirtualSourceKey ''n'') = {installed_a1}"
    by (simp add: catalog_entries_def upgrade_finder_def hdr_entries_def NewVirtualSourceKey_def existingOperatorKey_def
        SourceKey_Empty_def)
  show "versioned upgrade_finder [some_subscription]"
    unfolding versioned_def by (simp add: some_subscription_def entries an_entry_def)
qed

theorem resolve_never_panics_witness:
  "Resolve some_resolver (ref_gini True) upgrade_finder in_order [''n''] [some_subscription] \<noteq> Inl Panic \<and>
   map_sum id (map e_Name) (Resolve some_resolver (ref_gini True) upgrade_finder in_order [''n''] [some_subscription]) = Inr [''b1'', ''a2''] \<and>
   catalog_entries upgrade_finder (NewVirtualSourceKey ''n'') = {installed_a1}"
proof (intro conjI)
  show "Resolve some_resolver (ref_gini True) upgrade_finder in_order [''n''] [some_subscription] \<noteq> Inl Panic"
    by (rule resolve_never_panics [OF upgrade_cluster(1,2)])
  show "map_sum id (map e_Name) (Resolve some_resolver (ref_gini True) upgrade_finder in_order [''n''] [some_subscription]) =
      Inr [''b1'', ''a2'']"
    by code_simp
qed (rule upgrade_cluster(3))

text \<open>
  C12. What \<^verbatim>\<open>Resolve\<close> returns is the new part of a valid installation: there is a set of operators in which every
  subscription is satisfied by a bundle of its package and channel or by the installed one, the dependencies of
  every member are met by members, no API or package has two providers, no member is deprecated and operators
  without a subscription stay; and the result has a copy of exactly those members that come from a catalog.
\<close>

theorem resolve_sound:
  assumes "good_finder F" and "labelled F" and "unambiguous F" and "no_clash F subs" and "closed_system r"
    and "iterates it" and "namespaces ! 0 \<noteq> []" and "\<forall>sub \<in> set subs. sub_Namespace sub = namespaces ! 0"
    and "inter_S G wires gates clauses scopes pending conflicted marked"
    and "Resolve r G F it namespaces subs = Inr ops"
  shows "\<exists>S. valid_install (r_libs r) F (namespaces ! 0) subs S \<and>
    (\<forall>x \<in> set ops. \<exists>e \<in> pool F. from_catalog e \<and> entry_ident e \<in> S \<and> copy_of e x) \<and>
    (\<forall>e \<in> pool F. from_catalog e \<and> entry_ident e \<in> S \<longrightarrow> (\<exists>x \<in> set ops. copy_of e x))"
proof -
  obtain input starting where inp: "resolver_input r F it namespaces subs = Inr (input, starting)"
    using assms(10) by (auto simp: Resolve_def split: sum.splits)
  then obtain sel where "solve_variables G LoggingTracer input = Some (Inr sel)"
    using assms(10) by (auto simp: Resolve_def split: sum.splits option.splits)
  from resolver_answer [OF assms(1-9) inp this] assms(10) show ?thesis by auto
qed

theorem resolve_sound_witness:
  "\<exists>S. valid_install (r_libs some_resolver) some_finder ''n'' [some_subscription] S \<and>
     (\<exists>e \<in> pool some_finder. from_catalog e \<and> entry_ident e \<in> S \<and> e_Name e = ''a2'')"
proof -
  obtain ops where ops: "Resolve some_resolver (ref_gini True) some_finder in_order [''n''] [some_subscription] = Inr ops"
      "map e_Name ops = [''b1'', ''a2'']"
    using some_resolution
    by (cases "Resolve some_resolver (ref_gini True) some_finder in_order [''n''] [some_subscription]") auto
  then have "''a2'' \<in> e_Name ` set ops" by (metis list.set_intros list.set_map)
  then obtain x where x: "x \<in> set ops" "e_Name x = ''a2''" by auto
  have n: "[''n''] ! 0 \<noteq> []" "\<forall>sub \<in> set [some_subscription]. sub_Namespace sub = [''n''] ! 0"
    by (simp_all add: some_subscription_def)
  obtain S where "valid_install (r_libs some_resolver) some_finder ([''n''] ! 0) [some_subscription] S"
      "\<forall>x \<in> set ops. \<exists>e \<in> pool some_finder. from_catalog e \<and> entry_ident e \<in> S \<and> copy_of e x"
    using resolve_sound [OF some_cluster(1-6) n ref.inter_S_axioms ops(1)] by blast
  moreover from this(2) x obtain e where "e \<in> pool some_finder" "from_catalog e" "entry_ident e \<in> S" "e_Name e = ''a2''"
    by (auto simp: copy_of_def)
  ultimately show ?thesis by auto
qed

text \<open>
  C13. When \<^verbatim>\<open>Resolve\<close> fails, either the input could not be built, or the solver reports that the input has no
  solution, which is then the case, or the solver ends in its internal error on an input that has one.
\<close>

theorem resolve_failures:
  assumes "good_finder F" and "labelled F" and "unambiguous F" and "no_clash F subs" and "closed_system r"
    and "iterates it" and "namespaces ! 0 \<noteq> []" and "\<forall>sub \<in> set subs. sub_Namespace sub = namespaces ! 0"
    and "inter_S G wires gates clauses scopes pending conflicted marked"
    and "Resolve r G F it namespaces subs = Inl err"
  shows "resolver_input r F it namespaces subs = Inl err \<or>
    (\<exists>input starting. resolver_input r F it namespaces subs = Inr (input, starting) \<and>
       (if \<exists>S. is_solution input S then err = Solver UnexpectedInternalError
        else \<exists>as. err = Solver (NotSatisfiable as)))"
proof (cases "resolver_input r F it namespaces subs")
  case (Inl e)
  then show ?thesis using assms(10) by (simp add: Resolve_def)
next
  case (Inr p)
  obtain input starting where p: "p = (input, starting)" by force
  note inp = Inr [unfolded p]
  have wf: "well_formed input"
    using resolver_input_built [OF assms(1,2,5,6,8) inp] built_well_formed(1) [OF _ assms(6)] by blast
  have no: "solve_variables G LoggingTracer input \<noteq> Some (Inr sel)" for sel
    using resolver_answer [OF assms(1-9) inp] assms(10) by auto
  show ?thesis
    using solve_decided [OF assms(9) wf, of LoggingTracer] no assms(10) inp
    by (auto simp: Resolve_def split: if_splits)
qed

text \<open>A subscription for a package that is not there\<close>

definition lost_subscription :: Subscription where
  "lost_subscription = some_subscription\<lparr>sub_Package := ''z''\<rparr>"

lemma lost_resolution:
  "isl (Resolve some_resolver (ref_gini True) some_finder in_order [''n''] [lost_subscription])"
  "\<not> isl (resolver_input some_resolver some_finder in_order [''n''] [lost_subscription])"
  by code_simp+

lemma lost_unambiguous: "no_clash some_finder [lost_subscription]"
  using some_cluster(4) by (simp add: no_clash_def lost_subscription_def sub_ident_def)

theorem resolve_failures_witness:
  "\<exists>e. Resolve some_resolver (ref_gini True) some_finder in_order [''n''] [lost_subscription] = Inl (Solver e)"
proof -
  obtain err where err: "Resolve some_resolver (ref_gini True) some_finder in_order [''n''] [lost_subscription] = Inl err"
    using lost_resolution(1) by (auto simp: isl_def)
  have n: "[''n''] ! 0 \<noteq> []" "\<forall>sub \<in> set [lost_subscription]. sub_Namespace sub = [''n''] ! 0"
    by (simp_all add: lost_subscription_def some_subscription_def)
  show ?thesis
    using resolve_failures [OF some_cluster(1-3) lost_unambiguous some_cluster(5,6) n ref.inter_S_axioms err] err lost_resolution(2)
    by (auto split: if_splits)
qed

end
