(* ===== verification/Source_Properties.thy ===== *)
theory Source_Properties
  imports Csv_Source Registry_Source
begin

text \<open>
  The properties of the API types, of the two kinds of sources and of the properties they read and write,
  each with a concrete instance where it has hypotheses.
\<close>

subsection \<open>Objects for the instances\<close>

text \<open>Versions are numbers; only the range \<open>>=1\<close> parses.\<close>

definition nat_libs :: "(nat, unit) libs" where
  "nat_libs = \<lparr>semver_Parse = (\<lambda>s. None), semver_ParseRange = (\<lambda>s. if s = ''>=1'' then Some (\<lambda>v. 1 \<le> v) else None),
     semver_String = (\<lambda>v. ''v''), cel_Validate = (\<lambda>_. None), cel_Evaluate = (\<lambda>_ _. None)\<rparr>"

definition new_status :: csv_status where
  "new_status = \<lparr>st_Phase = '''', st_Message = '''', st_Reason = '''', st_LastUpdateTime = None, st_LastTransitionTime = None,
     st_Conditions = [], st_RequirementStatus = [], st_CertsLastUpdated = None, st_CertsRotateAt = None\<rparr>"

definition a_csv :: "nat \<Rightarrow> string \<Rightarrow> string \<Rightarrow> string \<Rightarrow> (string \<times> string) list \<Rightarrow> nat ClusterServiceVersion" where
  "a_csv addr name replaces phase labels =
     \<lparr>csv_addr = addr, csv_Name = name, csv_Namespace = ''n'', csv_Annotations = [], csv_properties = None, csv_Labels = labels,
      csv_Version = 1, csv_Replaces = replaces, csv_OwnedCRDs = [\<lparr>crd_Name = ''ks.g'', crd_Version = ''v1'', crd_Kind = ''K''\<rparr>],
      csv_RequiredCRDs = [], csv_OwnedAPIServices = [], csv_RequiredAPIServices = [], csv_NativeAPIs = [], csv_Webhooks = [],
      csv_MinKubeVersion = '''', csv_InstallModes = [],
      csv_Status = new_status\<lparr>st_Phase := phase\<rparr>\<rparr>"

definition some_group :: OperatorGroup where
  "some_group = \<lparr>og_Name = ''og'', og_Namespace = ''n'', og_UID = ''u'', og_Annotations = [], og_TargetNamespaces = [], og_Selector = None,
     og_UpgradeStrategy = UpgradeStrategyUnsafeFailForward, og_ServiceAccountName = '''', og_StaticProvidedAPIs = False,
     og_Namespaces = [], og_ServiceAccountRef = None\<rparr>"

text \<open>The operator \<open>a1\<close> is being replaced by \<open>a2\<close>, which failed; \<open>c1\<close> is a copy.\<close>

definition some_source :: "nat csvSource" where
  "some_source = \<lparr>src_key = NewVirtualSourceKey ''n'',
     src_csvs = Inr [a_csv 11 ''a1'' '''' CSVPhaseReplacing [], a_csv 12 ''a2'' ''a1'' CSVPhaseFailed [],
       a_csv 13 ''c1'' '''' CSVPhaseSucceeded [(''olm.copiedFrom'', ''o'')]],
     src_subs = Inr [], src_ogs = Inr [some_group], src_listSubscriptions = (\<lambda>_. Inr [])\<rparr>"

lemma some_snapshot:
  "\<exists>es. csv_Snapshot nat_libs (\<lambda>v. v = 0) (\<lambda>_. 1) 7 some_source = Some (Inr es) \<and> map e_Name es = [''a2'']"
proof -
  have "map_option (map_sum id (map e_Name)) (csv_Snapshot nat_libs (\<lambda>v. v = 0) (\<lambda>_. 1) 7 some_source) = Some (Inr [''a2''])"
    by code_simp
  then show ?thesis
    by (cases "csv_Snapshot nat_libs (\<lambda>v. v = 0) (\<lambda>_. 1) 7 some_source"; cases "the (csv_Snapshot nat_libs (\<lambda>v. v = 0) (\<lambda>_. 1) 7 some_source)") auto
qed

subsection \<open>Installed operators\<close>

text \<open>
  C14. A snapshot of a namespace has an entry for exactly the ClusterServiceVersions that are neither copies nor
  passed over by a fail-forward upgrade, in their order: with the name and version of the CSV, the package of its
  package property, and the subscription that installed it. That is the last listed subscription that names the CSV
  as installed, and the first CSV of that name that is no copy; a CSV that no subscription names is only accepted after
  the live subscriptions have been seen not to name it.
\<close>

theorem installed_snapshot:
  assumes "csv_Snapshot L is_zero len addr s = Some (Inr es)"
    and "src_csvs s = Inr csvs" and "src_subs s = Inr subs" and "inj_on csv_addr (set csvs)"
  shows "\<exists>ff. IsFailForwardEnabled (src_ogs s) = Inr ff \<and> map e_addr es = [addr..<addr + length es] \<and>
    list_all2 (entry_of_csv s (csvSubscriptions csvs subs)) (filter (\<lambda>c. \<not> IsCopied c \<and> \<not> passed_over ff csvs c) csvs) es \<and>
    (\<forall>csv \<in> set csvs. map_of (csvSubscriptions csvs subs) (csv_addr csv) =
       (if find (\<lambda>c. \<not> IsCopied c \<and> csv_Name c = csv_Name csv) csvs = Some csv
        then find (\<lambda>sub. sub_InstalledCSV sub = csv_Name csv) (rev subs) else None))"
proof -
  obtain csvs' subs' ff where "src_csvs s = Inr csvs'" "src_subs s = Inr subs'" "IsFailForwardEnabled (src_ogs s) = Inr ff"
      "map e_addr es = [addr..<addr + length es]"
      "list_all2 (entry_of_csv s (csvSubscriptions csvs' subs')) (filter (\<lambda>c. \<not> IsCopied c \<and> \<not> passed_over ff csvs' c) csvs') es"
    using csv_Snapshot_correct [OF assms(1)] by (elim exE conjE) (rule that)
  moreover note csvSubscriptions_lookup [OF assms(4)]
  ultimately show ?thesis using assms(2,3) by (intro exI [of _ ff]) simp
qed

text \<open>The same operators with three subscriptions: one names \<open>a1\<close>, which is passed over, two name \<open>a2\<close>.\<close>

definition installed_by :: "nat \<Rightarrow> string \<Rightarrow> Subscription" where
  "installed_by addr csv = \<lparr>sub_addr = addr, sub_Name = ''s'', sub_Namespace = ''n'', sub_CatalogSource = ''c'',
     sub_CatalogSourceNamespace = ''o'', sub_Package = ''p'', sub_Channel = '''', sub_StartingCSV = '''', sub_CurrentCSV = csv,
     sub_InstalledCSV = csv\<rparr>"

definition subscribed_source :: "nat csvSource" where
  "subscribed_source = some_source\<lparr>src_subs := Inr [installed_by 4 ''a1'', installed_by 5 ''a2'', installed_by 6 ''a2'']\<rparr>"

lemma subscribed_snapshot:
  "map_option (map_sum id (map e_Name)) (csv_Snapshot nat_libs (\<lambda>v. v = 0) (\<lambda>_. 1) 7 subscribed_source) = Some (Inr [''a2''])"
  by code_simp

theorem installed_snapshot_witness:
  "\<exists>e si. csv_Snapshot nat_libs (\<lambda>v. v = 0) (\<lambda>_. 1) 7 subscribed_source = Some (Inr [e]) \<and> e_Name e = ''a2'' \<and>
     e_SourceInfo e = Some si \<and> si_Subscription si = Some 6"
proof -
  let ?csvs = "[a_csv 11 ''a1'' '''' CSVPhaseReplacing [], a_csv 12 ''a2'' ''a1'' CSVPhaseFailed [],
     a_csv 13 ''c1'' '''' CSVPhaseSucceeded [(''olm.copiedFrom'', ''o'')]]"
  let ?subs = "[installed_by 4 ''a1'', installed_by 5 ''a2'', installed_by 6 ''a2'']"
  let ?a2 = "a_csv 12 ''a2'' ''a1'' CSVPhaseFailed []"
  obtain es where es: "csv_Snapshot nat_libs (\<lambda>v. v = 0) (\<lambda>_. 1) 7 subscribed_source = Some (Inr es)" "map e_Name es = [''a2'']"
    using subscribed_snapshot
    by (cases "csv_Snapshot nat_libs (\<lambda>v. v = 0) (\<lambda>_. 1) 7 subscribed_source"; cases "the (csv_Snapshot nat_libs (\<lambda>v. v = 0) (\<lambda>_. 1) 7 subscribed_source)") auto
  then obtain e where e: "es = [e]" "e_Name e = ''a2''" by (cases es) auto
  have "src_csvs subscribed_source = Inr ?csvs" "src_subs subscribed_source = Inr ?subs" "inj_on csv_addr (set ?csvs)"
    by (simp_all add: subscribed_source_def some_source_def a_csv_def)
  from installed_snapshot [OF es(1) this] obtain ff where
      ff: "list_all2 (entry_of_csv subscribed_source (csvSubscriptions ?csvs ?subs))
         (filter (\<lambda>c. \<not> IsCopied c \<and> \<not> passed_over ff ?csvs c) ?csvs) es"
      "\<forall>csv \<in> set ?csvs. map_of (csvSubscriptions ?csvs ?subs) (csv_addr csv) =
       (if find (\<lambda>c. \<not> IsCopied c \<and> csv_Name c = csv_Name csv) ?csvs = Some csv
        then find (\<lambda>sub. sub_InstalledCSV sub = csv_Name csv) (rev ?subs) else None)" by blast
  from ff(1) obtain csv zs where z: "filter (\<lambda>c. \<not> IsCopied c \<and> \<not> passed_over ff ?csvs c) ?csvs = csv # zs"
    and of_csv: "entry_of_csv subscribed_source (csvSubscriptions ?csvs ?subs) csv e"
    unfolding e(1) list_all2_Cons2 by blast
  have "csv \<in> set (filter (\<lambda>c. \<not> IsCopied c \<and> \<not> passed_over ff ?csvs c) ?csvs)" unfolding z by (rule list.set_intros(1))
  then have csv: "csv \<in> set ?csvs" by (rule subsetD [OF filter_is_subset])
  have "csv_Name csv = ''a2''" using of_csv e(2) by (simp add: entry_of_csv_def)
  then have "csv = ?a2" using csv by (auto simp: a_csv_def)
  moreover have "map_of (csvSubscriptions ?csvs ?subs) (csv_addr ?a2) = Some (installed_by 6 ''a2'')"
    using bspec [OF ff(2), of ?a2] by (simp add: installed_by_def a_csv_def IsCopied_def meta_IsCopied_def new_status_def)
  ultimately show ?thesis using of_csv es(1) e by (auto simp: entry_of_csv_def installed_by_def)
qed

text \<open>
  C15. A snapshot of installed operators always returns, whatever the listers give: the walk along a chain of
  replacements ends even when CSVs replace each other in a circle.
\<close>

theorem installed_snapshot_returns: "\<exists>r. csv_Snapshot L is_zero len addr s = Some r"
  by (rule csv_Snapshot_returns)

text \<open>
  C16. Whether the replacements of a CSV end in failure: the walk reports the phase of the last CSV of the chain
  when all before it are being replaced, and an error exactly when there is no such chain. The CSV that replaces
  another one is the last listed that names it.
\<close>

theorem fail_forward_chain:
  "\<exists>r. isReplacementChainThatEndsInFailure c (ReplacementMapping csvs) = Some r \<and>
     (\<forall>b. r = Inr b \<longleftrightarrow> (\<exists>cs d. chain_to (ReplacementMapping csvs) c cs d \<and> (\<forall>x \<in> set cs. phase_of x = CSVPhaseReplacing) \<and>
        b = (phase_of d = CSVPhaseFailed))) \<and>
     (\<forall>n. map_of (ReplacementMapping csvs) n = (if n = '''' then None else find (\<lambda>c. csv_Replaces c = n) (rev csvs)))"
proof -
  obtain r where "isReplacementChainThatEndsInFailure c (ReplacementMapping csvs) = Some r"
      "\<forall>b. r = Inr b \<longleftrightarrow> (\<exists>cs d. chain_to (ReplacementMapping csvs) c cs d \<and> (\<forall>x \<in> set cs. phase_of x = CSVPhaseReplacing) \<and>
        b = (phase_of d = CSVPhaseFailed))"
    using ends_in_failure [of c "ReplacementMapping csvs"] by (elim exE conjE) (rule that)
  then show ?thesis using ReplacementMapping_lookup [of csvs] by (intro exI [of _ r] conjI allI; simp only:)
qed

theorem fail_forward_chain_witness:
  "\<exists>r. isReplacementChainThatEndsInFailure (a_csv 11 ''a1'' '''' CSVPhaseReplacing [])
     (ReplacementMapping [a_csv 11 ''a1'' '''' CSVPhaseReplacing [], a_csv 12 ''a2'' ''a1'' CSVPhaseFailed []]) = Some r \<and> r = Inr True"
proof -
  let ?a1 = "a_csv 11 ''a1'' '''' CSVPhaseReplacing []" and ?a2 = "a_csv 12 ''a2'' ''a1'' CSVPhaseFailed []"
  let ?m = "ReplacementMapping [?a1, ?a2]"
  obtain r where r: "isReplacementChainThatEndsInFailure ?a1 ?m = Some r"
      "\<forall>b. r = Inr b \<longleftrightarrow> (\<exists>cs d. chain_to ?m ?a1 cs d \<and> (\<forall>x \<in> set cs. phase_of x = CSVPhaseReplacing) \<and> b = (phase_of d = CSVPhaseFailed))"
      "\<forall>n. map_of ?m n = (if n = '''' then None else find (\<lambda>c. csv_Replaces c = n) (rev [?a1, ?a2]))"
    using fail_forward_chain [of ?a1 "[?a1, ?a2]"] by (elim exE conjE) (rule that)
  have f: "csv_Name ?a1 = ''a1''" "csv_Name ?a2 = ''a2''" "csv_Replaces ?a1 = ''''" "csv_Replaces ?a2 = ''a1''"
      "phase_of ?a1 = CSVPhaseReplacing" "phase_of ?a2 = CSVPhaseFailed" by (simp_all add: a_csv_def)
  have "chain_to ?m ?a1 [?a1] ?a2" by (rule chain_next [OF _ chain_end]) (simp_all add: r(3) f)
  then have "\<exists>cs d. chain_to ?m ?a1 cs d \<and> (\<forall>x \<in> set cs. phase_of x = CSVPhaseReplacing) \<and> True = (phase_of d = CSVPhaseFailed)"
    by (intro exI [of _ "[?a1]"] exI [of _ ?a2]) (simp add: f)
  then have "r = Inr True" by (rule r(2) [rule_format, THEN iffD2])
  then show ?thesis using r(1) by (intro exI [of _ r]) simp
qed

subsection \<open>Catalogs\<close>

definition a_bundle :: "string \<Rightarrow> string \<Rightarrow> string \<Rightarrow> Bundle" where
  "a_bundle name pkg path =
     \<lparr>b_addr = 1, b_CsvName = name, b_PackageName = pkg, b_ChannelName = ''s'', b_CsvJson = '''', b_Object = [], b_BundlePath = path,
      b_ProvidedApis = [\<lparr>api_Group = ''g'', api_Version = ''v1'', api_Kind = ''K'', api_Plural = ''ks''\<rparr>], b_RequiredApis = [],
      b_Version = ''1'', b_SkipRange = '''', b_Dependencies = [], b_Properties = [], b_Replaces = '''', b_Skips = [], b_Deprecation = None\<rparr>"

text \<open>A registry that knows only the package \<open>p\<close>\<close>

definition some_client :: registry_client where
  "some_client =
     \<lparr>cl_ListBundles = Inr ([a_bundle ''x1'' ''p'' ''img'', a_bundle ''y1'' ''q'' '''', a_bundle ''x2'' ''p'' ''''], None),
      cl_GetPackage = (\<lambda>n. if n = ''p'' then Inr \<lparr>pkg_Name = ''p'', pkg_Channels = [], pkg_DefaultChannelName = ''s'', pkg_Deprecation = None\<rparr>
                           else Inl ''no such package'')\<rparr>"

text \<open>
  C17. The snapshot of a catalog is the partial map of the bundles that its registry lists: the packages it keeps
  while it runs make no difference, a bundle is left out when its package cannot be fetched or its dependencies
  cannot be translated, and every entry has a package property, the key of the catalog, APIs without plurals, and
  either its content or the path of its image.
\<close>

theorem catalog_snapshot:
  assumes "registry_Snapshot L ParseTolerant addr key client i = (Inr (es, c), i')"
  shows "\<exists>bs. cl_ListBundles client = Inr (bs, None) \<and>
    map (\<lambda>e. e\<lparr>e_addr := 0\<rparr>) es =
      map (\<lambda>e. e\<lparr>e_addr := 0\<rparr>) (List.map_filter (entry_of_bundle L ParseTolerant key (cl_GetPackage client)) bs) \<and>
    list_all (registry_entry key) es"
proof -
  obtain bs where bs: "cl_ListBundles client = Inr (bs, None)"
      "es = bundle_entries L ParseTolerant key (cl_GetPackage client) [] addr bs"
    using assms by (auto simp: registry_Snapshot_def Let_def split: sum.splits option.splits prod.splits)
  then show ?thesis
    using bundle_entries_eq [of "[]" "cl_GetPackage client" L ParseTolerant key addr bs] bundle_entries_registry
    by (fastforce simp: list_all_iff)
qed

theorem catalog_snapshot_witness:
  "\<exists>es c i'. registry_Snapshot nat_libs (\<lambda>_. None) 5 \<lparr>sk_Name = ''c'', sk_Namespace = ''o''\<rparr> some_client new_invalidator =
     (Inr (es, c), i') \<and> list_all (registry_entry \<lparr>sk_Name = ''c'', sk_Namespace = ''o''\<rparr>) es \<and> map e_Name es = [''x1'', ''x2'']"
proof -
  let ?k = "\<lparr>sk_Name = ''c'', sk_Namespace = ''o''\<rparr>"
  have "map_sum id (\<lambda>(es, c). map e_Name es) (fst (registry_Snapshot nat_libs (\<lambda>_. None) 5 ?k some_client new_invalidator)) =
      Inr [''x1'', ''x2'']" by code_simp
  then obtain es c i' where es: "registry_Snapshot nat_libs (\<lambda>_. None) 5 ?k some_client new_invalidator = (Inr (es, c), i')"
      "map e_Name es = [''x1'', ''x2'']"
    by (cases "registry_Snapshot nat_libs (\<lambda>_. None) 5 ?k some_client new_invalidator"; cases "fst (registry_Snapshot nat_libs (\<lambda>_. None) 5 ?k some_client new_invalidator)") auto
  from catalog_snapshot [OF es(1)] es show ?thesis by auto
qed

text \<open>
  C18. However the calls of the invalidator and the ends of its timers are ordered, no channel is closed twice,
  which would panic, and the channel of a source is open for as long as the invalidator hands it out.
\<close>

theorem invalidator_safe:
  assumes "inv_run i" and "GetValidChannel key i = (c, i')"
  shows "\<not> inv_panicked i \<and> c \<notin> set (inv_closed i') \<and> \<not> inv_panicked (Invalidate key i') \<and>
    \<not> inv_panicked (timer_ends key c (Invalidate key i'))"
proof -
  have i': "inv_run i'" using inv_get [OF assms(1), of key] assms(2) by simp
  note o = channel_open [OF assms]
  have inv: "inv_run (Invalidate key i')" by (rule inv_invalidate [OF i'])
  have "inv_timers (Invalidate key i') = inv_timers i'" using o(2) by (simp add: Invalidate_def close_chan_def)
  then have "(key, c) \<in> set (inv_timers (Invalidate key i'))" using o(3) by simp
  from inv_timer [OF inv this] have "inv_ok (timer_ends key c (Invalidate key i'))" by (rule inv_run_ok)
  then show ?thesis using inv_run_ok [OF assms(1)] inv_run_ok [OF inv] o(1) by (simp add: inv_ok_def)
qed

theorem invalidator_safe_witness:
  "\<not> inv_panicked (timer_ends \<lparr>sk_Name = ''c'', sk_Namespace = ''o''\<rparr> 0
     (Invalidate \<lparr>sk_Name = ''c'', sk_Namespace = ''o''\<rparr> (snd (GetValidChannel \<lparr>sk_Name = ''c'', sk_Namespace = ''o''\<rparr> new_invalidator))))"
  using invalidator_safe [OF inv_start, of "\<lparr>sk_Name = ''c'', sk_Namespace = ''o''\<rparr>" 0] by (simp add: GetValidChannel_def new_invalidator_def)

text \<open>
  C19. A snapshot does not stay valid for ever: every channel that was handed out is closed, or a timer is pending
  for it that closes it when it ends; and invalidating its source closes it at once.
\<close>

theorem channel_gets_closed:
  assumes "inv_run i" and "c < inv_next i" and "c \<notin> set (inv_closed i)"
  shows "\<exists>key. (key, c) \<in> set (inv_timers i) \<and> c \<in> set (inv_closed (timer_ends key c i)) \<and> c \<in> set (inv_closed (Invalidate key i))"
proof -
  have ok: "inv_ok i" by (rule inv_run_ok [OF assms(1)])
  then have "\<forall>c < inv_next i. c \<in> set (inv_closed i) \<or> c \<in> snd ` set (inv_validChans i)" by (simp add: inv_ok_def)
  then have "c \<in> snd ` set (inv_validChans i)" using assms(2,3) by blast
  then obtain key where k: "(key, c) \<in> set (inv_validChans i)" by auto
  then have m: "map_of (inv_validChans i) key = Some c" using ok by (simp add: inv_ok_def)
  show ?thesis using inv_okD(3) [OF ok m] invalidated(1,2) [OF assms(1) m] by (intro exI [of _ key]) simp
qed

theorem channel_gets_closed_witness:
  "\<exists>key. 0 \<in> set (inv_closed (timer_ends key 0 (snd (GetValidChannel \<lparr>sk_Name = ''c'', sk_Namespace = ''o''\<rparr> new_invalidator))))"
  using channel_gets_closed [OF inv_get [OF inv_start, of "\<lparr>sk_Name = ''c'', sk_Namespace = ''o''\<rparr>"], of 0]
  by (auto simp: GetValidChannel_def new_invalidator_def)

subsection \<open>Properties and annotations\<close>

text \<open>
  C20. Properties survive the annotation they are projected onto: writing succeeds exactly when every value is one
  JSON document, and reading what was written gives properties of the same types with the same documents, in the
  same order.
\<close>

theorem properties_roundtrip:
  "case PropertiesAnnotationFromPropertyList len ps of
     Inl err \<Rightarrow> list_ex (\<lambda>p. json_Unmarshal (p_Value p) = None) ps
   | Inr raw \<Rightarrow> list_all (\<lambda>p. json_Unmarshal (p_Value p) \<noteq> None) ps \<and>
       (\<exists>qs. PropertyListFromPropertiesAnnotation len raw = Inr qs \<and> map p_Type qs = map p_Type ps \<and>
          map (\<lambda>q. json_Unmarshal (p_Value q)) qs = map (\<lambda>p. json_Unmarshal (p_Value p)) ps)"
proof (cases "PropertiesAnnotationFromPropertyList len ps")
  case (Inl err)
  then show ?thesis using annotation_total [of len ps] by (auto simp: list_ex_iff)
next
  case (Inr raw)
  then have "\<forall>p \<in> set ps. json_Unmarshal (p_Value p) \<noteq> None" using annotation_total [of len ps] by auto
  then show ?thesis using annotation_roundtrip [OF Inr] Inr
    by (simp add: list_all_iff raw_of_def json_Unmarshal_def comp_def)
qed

text \<open>
  C21. The properties made of an API set do not depend on the order a Go map happens to be iterated in, and a
  reader gets back exactly the APIs that were put in.
\<close>

theorem api_properties_deterministic:
  assumes "mset apis = mset apis'"
  shows "providedAPIsToProperties apis = providedAPIsToProperties apis' \<and>
    requiredAPIsToProperties apis = requiredAPIsToProperties apis' \<and>
    {unmarshal_GVK (p_Value p) |p. p \<in> set (providedAPIsToProperties apis)} = {Some (api_GVK a) |a. a \<in> set apis} \<and>
    {unmarshal_GVK (p_Value p) |p. p \<in> set (requiredAPIsToProperties apis)} = {Some (api_GVK a) |a. a \<in> set apis}"
proof -
  have "{unmarshal_GVK (p_Value p) |p. p \<in> set (providedAPIsToProperties apis)} = {Some (api_GVK a) |a. a \<in> set apis}"
    unfolding provided_properties by (auto, metis Property.select_convs(2) unmarshal_GVK_Marshal(1))
  moreover have "{unmarshal_GVK (p_Value p) |p. p \<in> set (requiredAPIsToProperties apis)} = {Some (api_GVK a) |a. a \<in> set apis}"
    unfolding required_properties by (auto, metis Property.select_convs(2) unmarshal_GVK_Marshal(2))
  ultimately show ?thesis using APIsToProperties_perm [OF assms] by simp
qed

abbreviation an_api :: "string \<Rightarrow> APIKey" where
  "an_api k \<equiv> \<lparr>api_Group = ''g'', api_Version = ''v1'', api_Kind = k, api_Plural = ''''\<rparr>"

theorem api_properties_deterministic_witness:
  "providedAPIsToProperties [an_api ''B'', an_api ''A''] = providedAPIsToProperties [an_api ''A'', an_api ''B'']"
  using api_properties_deterministic [of "[an_api ''B'', an_api ''A'']" "[an_api ''A'', an_api ''B'']"] by (simp add: add_mset_commute)

text \<open>
  C22. A list of dependencies in the old format means what it meant. When the value of a required API or package
  cannot be read, the conversion fails with the type of the first such dependency. Otherwise the predicates of the
  resulting properties are, in order, those of the dependencies of a known type, and the others are ignored: a required API
  accepts the providers of that API, a required package the package in the range of versions, a label the bundles with that
  label, and a constraint what the constraint accepts.
\<close>

theorem legacy_dependencies:
  "map_sum id (map (predicateForProperty L)) (legacyDependenciesToProperties ds) =
     (case find malformed ds of
        Some d \<Rightarrow> Inl (''failed to unmarshal legacy '' @ [CHR 0x27] @ d_Type d @ [CHR 0x27] @ '' dependency'')
      | None \<Rightarrow> Inr (map (\<lambda>d. map_sum id Some (dependency_meaning L d)) (filter known_dependency ds)))"
  by (rule legacy_all)

theorem legacy_dependencies_witness:
  "map_sum id (map (predicateForProperty nat_libs)) (legacyDependenciesToProperties
     [\<lparr>d_Type = ''olm.package'', d_Value = json_Marshal [(''packageName'', ''p''), (''version'', ''>=1'')]\<rparr>,
      \<lparr>d_Type = ''olm.maintainers'', d_Value = json_Marshal []\<rparr>,
      \<lparr>d_Type = ''olm.gvk'', d_Value = json_Marshal [(''group'', ''g''), (''kind'', ''K''), (''version'', ''v1'')]\<rparr>]) =
   Inr [map_sum id Some (newPackageRequiredPredicate nat_libs ''p'' ''>=1''), Inr (Some (gvkPredicate (an_api ''K'')))]"
    (is "map_sum id (map _) (legacyDependenciesToProperties [?p, ?m, ?g]) = _")
proof -
  have "dependency_fields [''packageName'', ''version''] ?p = Some [(''packageName'', ''p''), (''version'', ''>=1'')]"
      "dependency_fields [''group'', ''version'', ''kind''] ?g = Some [(''group'', ''g''), (''version'', ''v1''), (''kind'', ''K'')]"
    by code_simp+
  then show ?thesis unfolding legacy_dependencies
    by (simp add: malformed_def known_dependency_def dependency_meaning_def field_def)
qed

subsection \<open>Phases and install modes\<close>




lemma modes_lookup:
  assumes "distinct (map im_Type modes)"
  shows "map_of (foldl (\<lambda>s m. AList.update (im_Type m) (im_Supported m) s) s0 modes) t = Some b \<longleftrightarrow>
    (\<exists>m \<in> set modes. im_Type m = t \<and> im_Supported m = b) \<or> t \<notin> im_Type ` set modes \<and> map_of s0 t = Some b"
  using assms
proof (induction modes arbitrary: s0)
  case (Cons m modes)
  then have "im_Type m \<notin> im_Type ` set modes" "distinct (map im_Type modes)" by auto
  then show ?case using Cons.IH [of "AList.update (im_Type m) (im_Supported m) s0"] by (auto simp: alist_simps image_iff)
qed simp

text \<open>
  C24. An operator's install modes support the namespaces of an operator group exactly when the mode for their
  number is declared and supported: own, all or single namespaces for one, multiple for more, which must not
  name all namespaces and need own-namespace support to include the operator's. Duplicate modes are refused.
\<close>

theorem install_modes_support:
  assumes "NewInstallModeSet modes = Inr ms"
  shows "distinct (map im_Type modes) \<and>
    (Supports ms ns namespaces = None) =
      (let supported = (\<lambda>t. \<exists>m. m \<in> set modes \<and> im_Type m = t \<and> im_Supported m) in
       case namespaces of
         [] \<Rightarrow> False
       | [n] \<Rightarrow> supported (if n = ns then ''OwnNamespace'' else if n = '''' then ''AllNamespaces'' else ''SingleNamespace'')
       | _ \<Rightarrow> supported ''MultiNamespace'' \<and> '''' \<notin> set namespaces \<and> (if ns \<in> set namespaces then supported ''OwnNamespace'' else True))"
proof -
  have d: "distinct (map im_Type modes)" "ms = foldl (\<lambda>s m. AList.update (im_Type m) (im_Supported m) s) [] modes"
    using assms by (auto simp: NewInstallModeSet_def add_modes_Some split: option.splits)
  have on: "mode_on ms t \<longleftrightarrow> (\<exists>m. m \<in> set modes \<and> im_Type m = t \<and> im_Supported m)" for t
    using modes_lookup [OF d(1), of "[]" t True] by (auto simp: mode_on_def d(2))
  show ?thesis using d(1)
    by (cases namespaces rule: remdups_adj.cases) (simp_all add: Supports_def Let_def check_namespaces_None on [symmetric] del: check_namespaces.simps, auto)
qed

theorem install_modes_support_witness:
  "Supports [(''OwnNamespace'', True), (''MultiNamespace'', True)] ''n'' [''n'', ''x''] = None"
proof -
  let ?modes = "[\<lparr>im_Type = ''OwnNamespace'', im_Supported = True\<rparr>, \<lparr>im_Type = ''MultiNamespace'', im_Supported = True\<rparr>]"
  have "NewInstallModeSet ?modes = Inr [(''OwnNamespace'', True), (''MultiNamespace'', True)]" by (simp add: NewInstallModeSet_def)
  from install_modes_support [OF this, of "''n''" "[''n'', ''x'']"] show ?thesis by (simp add: Let_def) (metis InstallMode.select_convs)
qed

end
