(* ===== verification/Cluster.thy ===== *)
theory Cluster
  imports Step_Resolver Resolver_Properties Source_Properties
begin

text \<open>
  The parts put together as \<^verbatim>\<open>NewOperatorCacheProvider\<close> does: the cache asks the catalogs of the namespaces and the
  installed operators of the first one for their snapshots, and the resolver works with what the cache holds. The
  sources meet the assumptions about finders on which the results about the resolver rest.
\<close>

subsection \<open>The sources of the cache\<close>

datatype 'v any_source = Registry registry_source | Installed "'v csvSource"

definition cluster_Sources ::
    "(string \<Rightarrow> string + SourceKey list) \<Rightarrow> (string list \<Rightarrow> (SourceKey \<times> registry_client) list) \<Rightarrow> (string \<Rightarrow> 'v csvSource) \<Rightarrow>
     string list \<Rightarrow> (SourceKey \<times> 'v any_source) list outcome" where
  "cluster_Sources lister clients installed namespaces =
     merged_Sources
       [\<lambda>ns. map (\<lambda>(k, s). (k, Registry s)) (registry_Sources lister clients ns),
        \<lambda>ns. map (\<lambda>(k, s). (k, Installed s)) (csv_Sources installed ns)] namespaces []"

text \<open>What the cache may get from a source\<close>

inductive snapshot_of ::
    "('v, 'p) libs \<Rightarrow> (string \<Rightarrow> 'v option) \<Rightarrow> ('v \<Rightarrow> bool) \<Rightarrow> json_len \<Rightarrow> 'v any_source \<Rightarrow> 'v source \<Rightarrow> bool"
    for L PT is_zero len where
  of_registry: "source_Snapshot L PT addr s i = (res, i') \<Longrightarrow>
     snapshot_of L PT is_zero len (Registry s) (map_sum id (\<lambda>(es, c). Some es) res)"
| of_installed: "csv_Snapshot L is_zero len addr s = Some res \<Longrightarrow>
     snapshot_of L PT is_zero len (Installed s) (map_sum id Some res)"

inductive_cases snapshot_of_cases: "snapshot_of L PT is_zero len s src"

text \<open>The sources of a request; catalogs do not have the name of the virtual catalog, which no Kubernetes object may have.\<close>

definition cluster_request ::
    "('v, 'p) libs \<Rightarrow> (string \<Rightarrow> 'v option) \<Rightarrow> ('v \<Rightarrow> bool) \<Rightarrow> json_len \<Rightarrow> (SourceKey \<times> 'v source) list \<Rightarrow> bool" where
  "cluster_request L PT is_zero len sources \<longleftrightarrow>
     (\<exists>lister clients installed namespaces m.
        (\<forall>ns keys. lister ns = Inr keys \<longrightarrow> existingOperatorKey \<notin> sk_Name ` set keys) \<and>
        cluster_Sources lister clients installed namespaces = Ok m \<and>
        list_all2 (\<lambda>(k, s) (k', src). k' = k \<and> snapshot_of L PT is_zero len s src) m sources)"

subsection \<open>What the entries of a snapshot have\<close>

definition entry_at :: "SourceKey \<Rightarrow> 'v Entry \<Rightarrow> bool" where
  "entry_at k e \<longleftrightarrow> (\<exists>si. e_SourceInfo e = Some si \<and> si_Catalog si = k) \<and>
     (sk_Name k = existingOperatorKey \<longrightarrow> e_Version e \<noteq> None)"

definition source_at :: "SourceKey \<Rightarrow> 'v source \<Rightarrow> bool" where
  "source_at k src \<longleftrightarrow> (\<forall>es. src = Inr (Some es) \<longrightarrow> list_all (entry_at k) es)"

lemma foldl_update_mem:
  "(k, v) \<in> set (foldl (\<lambda>m (key, source). AList.update key source m) m0 xs) \<Longrightarrow> (k, v) \<in> set m0 \<or> (k, v) \<in> set xs"
  using update_entries by (induction xs arbitrary: m0) fastforce+

lemma merged_Sources_mem:
  "merged_Sources sps namespaces m0 = Ok m \<Longrightarrow> (k, s) \<in> set m \<Longrightarrow>
     (k, s) \<in> set m0 \<or> (\<exists>sp \<in> set sps. (k, s) \<in> set (sp namespaces))"
  using foldl_update_mem by (induction sps arbitrary: m0) (fastforce split: if_splits)+

lemma list_catalogs_mem:
  "list_catalogs lister namespaces = Inr cats \<Longrightarrow> k \<in> set cats \<Longrightarrow> \<exists>ns keys. lister ns = Inr keys \<and> k \<in> set keys"
  by (induction namespaces arbitrary: cats) (fastforce split: sum.splits simp: map_sum_def)+

lemma registry_Sources_mem:
  assumes "(k, s) \<in> set (registry_Sources lister clients namespaces)"
  shows "(\<exists>err. s = errorSource err) \<or>
    (\<exists>client ns keys. s = registrySource k client \<and> lister ns = Inr keys \<and> k \<in> set keys)"
proof (cases "list_catalogs lister namespaces")
  case (Inr cats)
  let ?v = "\<lambda>key. case map_of (clients namespaces) key of
      Some client \<Rightarrow> registrySource key client
    | None \<Rightarrow> errorSource (''no registry client established for catalogsource '' @ sk_Namespace key @ ''/'' @ sk_Name key)"
  have "(k, s) \<in> set (foldl (\<lambda>result key. AList.update key (?v key) result) m0 cs) \<Longrightarrow>
      (k, s) \<in> set m0 \<or> k \<in> set cs \<and> s = ?v k" for m0 cs
    using update_entries by (induction cs arbitrary: m0) fastforce+
  from this [of "[]" cats] assms Inr have "k \<in> set cats" "s = ?v k" by (simp_all add: registry_Sources_def Let_def)
  then show ?thesis using list_catalogs_mem [OF Inr] by (auto split: option.splits)
qed (use assms in \<open>auto simp: registry_Sources_def\<close>)

lemma cluster_source_at:
  assumes req: "cluster_request L PT is_zero len sources" and mem: "(k, src) \<in> set sources"
  shows "source_at k src"
proof -
  obtain lister clients installed namespaces m where
      lister: "\<forall>ns keys. lister ns = Inr keys \<longrightarrow> existingOperatorKey \<notin> sk_Name ` set keys"
    and m: "cluster_Sources lister clients installed namespaces = Ok m"
      "list_all2 (\<lambda>(k, s) (k', src). k' = k \<and> snapshot_of L PT is_zero len s src) m sources"
    using req unfolding cluster_request_def by (elim exE conjE) (rule that)
  obtain s where s: "(k, s) \<in> set m" "snapshot_of L PT is_zero len s src"
    using m(2) mem by (induction rule: list_all2_induct) auto
  then consider s' where "s = Registry s'" "(k, s') \<in> set (registry_Sources lister clients namespaces)"
    | s' where "s = Installed s'" "(k, s') \<in> set (csv_Sources installed namespaces)"
    using merged_Sources_mem [OF m(1) [unfolded cluster_Sources_def] s(1)] by auto
  then show ?thesis
  proof cases
    case (1 s')
    obtain addr i res i' where r: "source_Snapshot L PT addr s' i = (res, i')" "src = map_sum id (\<lambda>(es, c). Some es) res"
      using s(2) 1(1) by (auto elim: snapshot_of_cases)
    show ?thesis
      unfolding source_at_def
    proof (intro allI impI)
      fix es assume "src = Inr (Some es)"
      then obtain c where res: "res = Inr (es, c)" using r(2) by (cases res) auto
      then obtain client ns keys where k: "s' = registrySource k client" "lister ns = Inr keys" "k \<in> set keys"
        using registry_Sources_mem [OF 1(2)] r(1) by (auto simp: source_Snapshot_def)
      then have "registry_Snapshot L PT addr k client i = (Inr (es, c), i')" using r(1) res by (simp add: source_Snapshot_def)
      then obtain bs where "es = bundle_entries L PT k (cl_GetPackage client) [] addr bs"
        by (auto simp: registry_Snapshot_def Let_def split: sum.splits option.splits prod.splits)
      then have "registry_entry k e" if "e \<in> set es" for e using bundle_entries_registry that by blast
      moreover have "existingOperatorKey \<notin> sk_Name ` set keys" using lister k(2) by simp
      then have "sk_Name k \<noteq> existingOperatorKey" using imageI [OF k(3), of sk_Name] by metis
      ultimately show "list_all (entry_at k) es" by (auto simp: list_all_iff entry_at_def registry_entry_def)
    qed
  next
    case (2 s')
    have key: "src_key s' = k" using 2(2) by (auto simp: csv_Sources_def split: list.splits)
    obtain addr res where r: "csv_Snapshot L is_zero len addr s' = Some res" "src = map_sum id Some res"
      using s(2) 2(1) by (auto elim: snapshot_of_cases)
    show ?thesis
      unfolding source_at_def
    proof (intro allI impI)
      fix es assume "src = Inr (Some es)"
      then have res: "res = Inr es" using r(2) by (cases res) auto
      from csv_Snapshot_correct [OF r(1) [unfolded res]] obtain csvs links where "list_all2 (entry_of_csv s' links) csvs es"
        by (elim exE conjE) (rule that)
      then show "list_all (entry_at k) es"
        by (induction rule: list_all2_induct) (auto simp: entry_of_csv_def entry_at_def key)
    qed
  qed
qed

subsection \<open>Headers come from requests\<close>

lemma headers_requested:
  "cache_run P s \<Longrightarrow> hdr \<in> set (ch_headers (cs_cache s)) \<Longrightarrow>
     \<exists>sources m k. (sources, m) \<in> set (cs_finders s) \<and> k \<in> fst ` set sources \<and> hdr = new_header P k (the (map_of sources k))"
proof (induction rule: cache_run.induct)
  case start
  then show ?case by (simp add: newCache_def)
next
  case (hit s sources m)
  then show ?case by auto
next
  case (miss s sources m misses)
  then show ?case by auto
next
  case (finish s ws sources m misses ws' c' m')
  let ?c = "clear_expired (cs_cache s)"
  have "sys_ok s" by (rule cache_run_ok [OF finish.hyps(1)])
  then have sub: "set misses \<subseteq> fst ` set sources" using finish.hyps(2) by (auto simp: sys_ok_def waiting_ok_def)
  obtain ms f r where rc: "recheck ?c [0..<length misses] misses 0 m = (ms, f, r)" by (metis prod_cases3)
  then have pop: "populate P (\<lambda>k. the (map_of sources k)) (drop f ms) ?c r = (c', m')"
    using finish.hyps(3) by (simp add: Namespaced_update_def Let_def)
  have "mset ms = mset misses" using recheck_inv [OF rc] by simp
  then have ms: "set (drop f ms) \<subseteq> fst ` set sources" using sub set_drop_subset [of f ms] by (metis mset_eq_setD subset_trans)
  have "hdr \<in> set (ch_headers (cs_cache s)) \<or> hdr \<in> (\<lambda>k. new_header P k (the (map_of sources k))) ` set (drop f ms)"
    using finish.prems populate_shape [OF pop] by (auto simp: clear_expired_def)
  then show ?case
  proof
    assume "hdr \<in> set (ch_headers (cs_cache s))"
    then show ?thesis using finish.IH by auto
  next
    assume "hdr \<in> (\<lambda>k. new_header P k (the (map_of sources k))) ` set (drop f ms)"
    then obtain k where "k \<in> fst ` set sources" "hdr = new_header P k (the (map_of sources k))" using ms by blast
    then show ?thesis by (intro exI [of _ sources] exI [of _ m'] exI [of _ k]) simp
  qed
next
  case (expire s a)
  then show ?case by auto
qed

lemma header_entries_at:
  assumes "cache_run P s" and req: "\<And>sources m. (sources, m) \<in> set (cs_finders s) \<Longrightarrow> cluster_request L PT is_zero len sources"
    and hdr: "hdr \<in> set (ch_headers (cs_cache s))" and e: "e \<in> set (hdr_entries hdr)"
  shows "entry_at (hdr_key hdr) e"
proof -
  obtain sources m k where h: "(sources, m) \<in> set (cs_finders s)" "k \<in> fst ` set sources" "hdr = new_header P k (the (map_of sources k))"
    using headers_requested [OF assms(1) hdr] by (elim exE conjE) (rule that)
  then have mem: "(k, the (map_of sources k)) \<in> set sources" by (metis map_of_SomeD map_of_eq_None_iff not_Some_eq option.sel)
  obtain es where "the (map_of sources k) = Inr (Some es)" "e \<in> set es"
    using e by (auto simp: h(3) new_header_def hdr_entries_def split: sum.splits option.splits)
  then show ?thesis using cluster_source_at [OF req [OF h(1)] mem] by (auto simp: source_at_def h(3) list_all_iff)
qed

lemma cluster_finder:
  assumes run: "cache_run P s" and req: "\<And>sources m. (sources, m) \<in> set (cs_finders s) \<Longrightarrow> cluster_request L PT is_zero len sources"
    and mem: "(sources, m) \<in> set (cs_finders s)"
    and F: "F = \<lparr>f_headers = ch_headers (cs_cache s), f_map = m\<rparr>" and inj: "inj_on e_addr (pool F)"
  shows "good_finder F \<and> labelled F \<and> versioned F subs"
proof -
  have "finder_ok (ch_headers (cs_cache s)) (sources, m)" using cache_run_ok [OF run] mem unfolding sys_ok_def by blast
  then have wf: "wf_map (f_headers F) (f_map F)" by (simp add: F finder_ok_def)
  have at: "entry_at (hdr_key hdr) e" if "hdr \<in> set (f_headers F)" "e \<in> set (hdr_entries hdr)" for hdr e
    by (rule header_entries_at [OF run req]) (use that in \<open>simp_all add: F\<close>)
  have "all_sourced (f_headers F)"
    using at by (fastforce simp: all_sourced_def sourced_def entry_at_def)
  moreover have lab: "entry_at k e" if "(k, a) \<in> set (f_map F)" "e \<in> set (hdr_entries (f_headers F ! a))" for k a e
  proof -
    have "a < length (f_headers F)" "hdr_key (f_headers F ! a) = k" using wf that(1) by (auto simp: wf_map_def)
    then show ?thesis using at [of "f_headers F ! a" e] that(2) by simp
  qed
  moreover have "labelled F" using lab by (fastforce simp: labelled_def entry_at_def)
  moreover have "versioned F subs"
    unfolding versioned_def
  proof (intro ballI)
    fix sub e assume e: "e \<in> catalog_entries F (NewVirtualSourceKey (sub_Namespace sub))"
    let ?k = "NewVirtualSourceKey (sub_Namespace sub)"
    have k: "sk_Name ?k = existingOperatorKey" "\<not> SourceKey_Empty ?k"
      by (simp_all add: NewVirtualSourceKey_def SourceKey_Empty_def existingOperatorKey_def)
    then obtain a where "map_of (f_map F) ?k = Some a" "e \<in> set (hdr_entries (f_headers F ! a))"
      using e by (auto simp: catalog_entries_def split: option.splits)
    then show "e_Version e \<noteq> None" using lab [of ?k a e] k(1) by (auto simp: entry_at_def dest: map_of_SomeD)
  qed
  ultimately show ?thesis using wf inj by (simp add: good_finder_def)
qed

subsection \<open>A run of the cache on a cluster\<close>

text \<open>A namespace without catalogs, with the installed operators of the instances of the source properties\<close>

definition cluster_key :: SourceKey where
  "cluster_key = NewVirtualSourceKey ''n''"

definition cluster_state :: "nat Entry list \<Rightarrow> nat cache_sys" where
  "cluster_state es =
     \<lparr>cs_cache = \<lparr>ch_snapshots = [(cluster_key, 0)], ch_headers = [new_header (\<lambda>_. 0) cluster_key (Inr (Some es))], ch_closed = {}\<rparr>,
      cs_waiting = [], cs_finders = [([(cluster_key, Inr (Some es))], [(cluster_key, 0)])]\<rparr>"

lemma cluster_state_run: "cache_run (\<lambda>_. 0) (cluster_state es)"
proof -
  let ?src = "[(cluster_key, Inr (Some es))] :: (SourceKey \<times> nat source) list"
  let ?s = "\<lparr>cs_cache = newCache, cs_waiting = [], cs_finders = []\<rparr> :: nat cache_sys"
  have "cache_run (\<lambda>_. 0) (?s\<lparr>cs_waiting := (?src, [], [cluster_key]) # cs_waiting ?s\<rparr>)"
    by (rule cache_run.miss [OF cache_run.start]) (simp_all add: newCache_def)
  from cache_run.finish [OF this, of "[]" ?src "[]" "[cluster_key]" "[]"] show ?thesis
    by (simp add: cluster_state_def newCache_def Namespaced_update_def clear_expired_def)
qed

lemma cluster_state_request:
  assumes "csv_Snapshot nat_libs (\<lambda>v. v = 0) (\<lambda>_. 1) 7 some_source = Some (Inr es)"
  shows "cluster_request nat_libs (\<lambda>_. None) (\<lambda>v. v = 0) (\<lambda>_. 1) [(cluster_key, Inr (Some es))]"
proof -
  let ?m = "[(cluster_key, Installed some_source)]"
  have "some_source\<lparr>src_key := NewVirtualSourceKey ''n''\<rparr> = some_source" by (simp add: some_source_def)
  then have 1: "cluster_Sources (\<lambda>_. Inr []) (\<lambda>_. []) (\<lambda>_. some_source) [''n''] = Ok ?m"
    by (simp add: cluster_Sources_def registry_Sources_def csv_Sources_def cluster_key_def)
  have "snapshot_of nat_libs (\<lambda>_. None) (\<lambda>v. v = 0) (\<lambda>_. 1) (Installed some_source) (map_sum id Some (Inr es))"
    by (rule of_installed [OF assms])
  then have 2: "list_all2 (\<lambda>(k, s) (k', src). k' = k \<and> snapshot_of nat_libs (\<lambda>_. None) (\<lambda>v. v = 0) (\<lambda>_. 1) s src) ?m [(cluster_key, Inr (Some es))]"
    by simp
  show ?thesis unfolding cluster_request_def
    by (rule exI [of _ "\<lambda>_. Inr []"], rule exI [of _ "\<lambda>_. []"], rule exI [of _ "\<lambda>_. some_source"], rule exI [of _ "[''n'']"], rule exI [of _ ?m])
      (use 1 2 in simp)
qed

end
