(* ===== verification/Plan_Properties.thy ===== *)
theory Plan_Properties
  imports Step_Resolver
begin

text \<open>
  The properties of the plan that is made of a resolution: what the step resolver puts into it, the order of the
  steps, the roles and bindings, their names, and the ownership of objects. Instances follow the properties that
  have hypotheses.
\<close>

subsection \<open>The plan of a resolution\<close>

text \<open>For the instances: an operator whose content is an image, and a subscription that it upgrades\<close>

definition some_codecs :: "unit codecs" where
  "some_codecs = \<lparr>serialize = (\<lambda>_. Inr ''m''), decode_csv = (\<lambda>_. Inl ''e''), decode_object = (\<lambda>_. Inl ''e''),
     codec_encoders = \<lparr>Sum224 = (\<lambda>_. 0), encode_permission = (\<lambda>_ _. Inr ''p''), encode_cluster_permission = (\<lambda>_ _ _. Inr ''p''),
       marshal_rules = (\<lambda>_. Inr ''r''), marshal_binding = (\<lambda>_ _. Inr ''b'')\<rparr>,
     codec_len = (\<lambda>_. 1)\<rparr>"

definition plan_group :: OperatorGroup where
  "plan_group = \<lparr>og_Name = ''og'', og_Namespace = ''n'', og_UID = ''u'', og_Annotations = [], og_TargetNamespaces = [], og_Selector = None,
     og_UpgradeStrategy = '''', og_ServiceAccountName = '''', og_StaticProvidedAPIs = False, og_Namespaces = [], og_ServiceAccountRef = None\<rparr>"

definition plan_subscription :: "string \<Rightarrow> Subscription" where
  "plan_subscription current = \<lparr>sub_addr = 7, sub_Name = ''x'', sub_Namespace = ''n'', sub_CatalogSource = ''c'',
     sub_CatalogSourceNamespace = ''o'', sub_Package = ''a'', sub_Channel = '''', sub_StartingCSV = '''', sub_CurrentCSV = current,
     sub_InstalledCSV = current\<rparr>"

definition plan_resolver :: "string \<Rightarrow> unit OperatorStepResolver" where
  "plan_resolver current = \<lparr>osr_codecs = some_codecs, osr_globalCatalogNamespace = ''o'',
     osr_listSubscriptions = (\<lambda>_. Inr [plan_subscription current]), osr_ogs = (\<lambda>_. Inr [plan_group]),
     osr_csv = (\<lambda>_ _. Inr True), osr_bundle = (\<lambda>_. undefined), osr_range = id\<rparr>"

definition plan_info :: OperatorSourceInfo where
  "plan_info = \<lparr>si_Package = ''a'', si_Channel = ''s'', si_StartingCSV = '''', si_Catalog = \<lparr>sk_Name = ''c'', sk_Namespace = ''o''\<rparr>,
     si_DefaultChannel = True, si_Deprecations = None, si_Subscription = None\<rparr>"

definition plan_operator :: "nat Entry" where
  "plan_operator = \<lparr>e_addr = 1, e_Name = ''a2'', e_Replaces = ''a1'', e_Skips = [], e_SkipRange = None, e_ProvidedAPIs = [],
     e_RequiredAPIs = [], e_Version = None, e_SourceInfo = Some plan_info, e_Properties = [], e_BundlePath = ''img'', e_Bundle = None\<rparr>"

text \<open>
  C25. A plan carries out the resolution it is made of. The catalogs of the global namespace are resolved with
  unless the operator group excludes them. For every operator that was resolved, either all subscriptions that ask
  for it already had it as their current CSV, and it exists, or the plan has its content, as steps or as a lookup of
  its image, and a new subscription when none asks for it. Afterwards the operator is the current CSV of all
  subscriptions that ask for it; a subscription that asks for no resolved operator keeps its current CSV, and nothing
  else of any subscription changes. The subscriptions reported as updated are exactly those whose current CSV is another
  one than before, each once. The steps are in order.
\<close>

theorem plan_carries_out:
  assumes "ResolveSteps r resolve ns = Inr p" and "osr_listSubscriptions r ns = Inr subs" and "distinct (map sub_addr subs)"
    and "\<And>xs. set (osr_range r xs) = set xs"
    and "\<And>namespaces ops. resolve namespaces subs = Inr ops \<Longrightarrow> distinct (map Entry_Package ops)"
  shows "\<exists>og ops. osr_ogs r ns = Inr [og] \<and>
    resolve (if map_of (og_Annotations og) exclusionAnnotation = Some ''true'' then [ns] else [ns, osr_globalCatalogNamespace r]) subs = Inr ops \<and>
    sorted (map step_rank (pl_steps p)) \<and>
    map spec_of (pl_subs p) = map spec_of subs \<and>
    pl_subs p = map (resolved_sub ops) subs \<and>
    distinct (pl_updated p) \<and>
    set (pl_updated p) = sub_addr ` {s \<in> set subs. sub_CurrentCSV (resolved_sub ops s) \<noteq> sub_CurrentCSV s} \<and>
    (\<forall>op \<in> set ops. \<exists>si. e_SourceInfo op = Some si \<and> carried_out r ns subs p op si)"
proof -
  obtain ogs where ogs: "osr_ogs r ns = Inr ogs" "length ogs = 1"
    using assms(1,2) by (auto simp: ResolveSteps_def split: sum.splits if_splits)
  then obtain og where og: "ogs = [og]" by (auto simp: length_Suc_conv)
  obtain ops where ops: "resolve (resolution_namespaces r ns og) subs = Inr ops"
    using assms(1,2) ogs og by (auto simp: ResolveSteps_def split: sum.splits)
  let ?p0 = "\<lparr>pl_steps = [], pl_lookups = [], pl_updated = [], pl_subs = subs\<rparr>"
  obtain q where q: "add_all (add_operator r ns) ops ?p0 = Ok q" "p = q\<lparr>pl_steps := OrderSteps (pl_steps q)\<rparr>"
    using assms(1,2) ogs og ops by (auto simp: ResolveSteps_def split: outcome.splits)
  have "distinct (map sub_addr (pl_subs ?p0))" using assms(3) by simp
  note all = add_all_carried_out [OF q(1) this assms(4) assms(5) [OF ops]]
    and upd = add_all_subs [OF q(1) this assms(4) assms(5) [OF ops]]
  have "sorted (map step_rank (pl_steps p))" by (simp add: q(2) OrderSteps_sort)
  moreover have "\<forall>op \<in> set ops. \<exists>si. e_SourceInfo op = Some si \<and> carried_out r ns subs p op si"
    using all unfolding q(2) carried_out_ordered by simp
  moreover have "pl_subs p = map (resolved_sub ops) subs" "distinct (pl_updated p)"
      "set (pl_updated p) = sub_addr ` {s \<in> set subs. sub_CurrentCSV (resolved_sub ops s) \<noteq> sub_CurrentCSV s}"
    using upd unfolding q(2) by simp_all
  ultimately show ?thesis using ogs og ops all by (intro exI [of _ og] exI [of _ ops]) (simp add: q(2) resolution_namespaces_def)
qed

text \<open>One subscription is upgraded, one has the operator already and one asks for another package.\<close>

definition mixed_subscriptions :: "Subscription list" where
  "mixed_subscriptions = [plan_subscription ''a1'', (plan_subscription ''a2'')\<lparr>sub_addr := 8, sub_Name := ''y''\<rparr>,
     (plan_subscription ''b1'')\<lparr>sub_addr := 9, sub_Name := ''z'', sub_Package := ''b''\<rparr>]"

definition mixed_resolver :: "unit OperatorStepResolver" where
  "mixed_resolver = (plan_resolver ''a1'')\<lparr>osr_listSubscriptions := (\<lambda>_. Inr mixed_subscriptions)\<rparr>"

lemma mixed_resolution: "\<exists>p. ResolveSteps mixed_resolver (\<lambda>_ _. Inr [plan_operator]) ''n'' = Inr p"
  by (simp add: ResolveSteps_def mixed_resolver_def mixed_subscriptions_def plan_resolver_def plan_group_def plan_subscription_def
      plan_operator_def plan_info_def resolution_namespaces_def add_operator_def matches_sub_def subscription_catalog_def
      SourceKey_Empty_def hasExistingCurrentCSV_def upToDate_def current_is_def sub_at_def add_content_def lookup_of_def
      add_subscription_def PropertiesAnnotationFromPropertyList_def raw_of_def set_current_def)

lemma only_element: "distinct xs \<Longrightarrow> set xs = {x} \<Longrightarrow> xs = [x]"
  by (cases xs) (auto simp: subset_singleton_iff)

theorem plan_carries_out_witness:
  "\<exists>p. ResolveSteps mixed_resolver (\<lambda>_ _. Inr [plan_operator]) ''n'' = Inr p \<and> pl_updated p = [7] \<and>
     map sub_CurrentCSV (pl_subs p) = [''a2'', ''a2'', ''b1''] \<and>
     carried_out mixed_resolver ''n'' mixed_subscriptions p plan_operator plan_info"
proof -
  obtain p where p: "ResolveSteps mixed_resolver (\<lambda>_ _. Inr [plan_operator]) ''n'' = Inr p" using mixed_resolution by blast
  have hyps: "osr_listSubscriptions mixed_resolver ''n'' = Inr mixed_subscriptions" "distinct (map sub_addr mixed_subscriptions)"
      "\<And>xs. set (osr_range mixed_resolver xs) = set xs"
    by (simp_all add: mixed_resolver_def mixed_subscriptions_def plan_resolver_def plan_subscription_def)
  have subs: "map (resolved_sub [plan_operator]) mixed_subscriptions =
      [plan_subscription ''a1''\<lparr>sub_CurrentCSV := ''a2''\<rparr>, (plan_subscription ''a2'')\<lparr>sub_addr := 8, sub_Name := ''y''\<rparr>,
       (plan_subscription ''b1'')\<lparr>sub_addr := 9, sub_Name := ''z'', sub_Package := ''b''\<rparr>]"
      "{s \<in> set mixed_subscriptions. sub_CurrentCSV (resolved_sub [plan_operator] s) \<noteq> sub_CurrentCSV s} = {plan_subscription ''a1''}"
    by (auto simp: mixed_subscriptions_def resolved_sub_def resolved_for_def plan_operator_def plan_info_def plan_subscription_def
        matches_sub_def subscription_catalog_def SourceKey_Empty_def)
  have "distinct (map Entry_Package [plan_operator])" by simp
  then have "pl_subs p = map (resolved_sub [plan_operator]) mixed_subscriptions \<and> distinct (pl_updated p) \<and>
      set (pl_updated p) = sub_addr ` {s \<in> set mixed_subscriptions. sub_CurrentCSV (resolved_sub [plan_operator] s) \<noteq> sub_CurrentCSV s} \<and>
      carried_out mixed_resolver ''n'' mixed_subscriptions p plan_operator plan_info"
    using plan_carries_out [OF p hyps] by (simp add: plan_operator_def)
  then show ?thesis using p unfolding subs
    by (intro exI [of _ p]) (simp add: plan_subscription_def only_element)
qed

text \<open>
  C26. Resolving again what is already there plans nothing: when every resolved operator is the current CSV of all
  subscriptions that ask for it, and exists, there are no steps, no lookups and no updated subscriptions.
\<close>

theorem plan_idle:
  assumes "osr_listSubscriptions r ns = Inr subs" and "distinct (map sub_addr subs)" and "osr_ogs r ns = Inr [og]"
    and "resolve (resolution_namespaces r ns og) subs = Inr ops"
    and "\<And>op. op \<in> set ops \<Longrightarrow> \<exists>si. e_SourceInfo op = Some si \<and> (\<exists>s \<in> set subs. matches_sub si s) \<and>
      (\<forall>s \<in> set subs. matches_sub si s \<longrightarrow> sub_CurrentCSV s = e_Name op \<and> hasExistingCurrentCSV r s = Inr True)"
  shows "ResolveSteps r resolve ns = Inr \<lparr>pl_steps = [], pl_lookups = [], pl_updated = [], pl_subs = subs\<rparr>"
proof -
  let ?p = "\<lparr>pl_steps = [], pl_lookups = [], pl_updated = [], pl_subs = subs\<rparr>"
  have "add_operator r ns op ?p = Ok ?p" if op: "op \<in> set ops" for op
  proof -
    obtain si where si: "e_SourceInfo op = Some si" "\<exists>s \<in> set subs. matches_sub si s"
        "\<forall>s \<in> set subs. matches_sub si s \<longrightarrow> sub_CurrentCSV s = e_Name op \<and> hasExistingCurrentCSV r s = Inr True"
      using assms(5) [OF op] by blast
    show ?thesis by (rule add_operator_current [OF si(1)]) (use si assms(2) in simp_all)
  qed
  then have "add_all (add_operator r ns) ops ?p = Ok ?p" by (rule add_all_current)
  then show ?thesis using assms(1-4) by (simp add: ResolveSteps_def OrderSteps_sort)
qed

theorem plan_idle_witness:
  "ResolveSteps (plan_resolver ''a2'') (\<lambda>_ _. Inr [plan_operator]) ''n'' =
     Inr \<lparr>pl_steps = [], pl_lookups = [], pl_updated = [], pl_subs = [plan_subscription ''a2'']\<rparr>"
proof (rule plan_idle [where og = plan_group and ops = "[plan_operator]"])
  fix op assume "op \<in> set [plan_operator]"
  then show "\<exists>si. e_SourceInfo op = Some si \<and> (\<exists>s \<in> set [plan_subscription ''a2'']. matches_sub si s) \<and>
      (\<forall>s \<in> set [plan_subscription ''a2'']. matches_sub si s \<longrightarrow>
         sub_CurrentCSV s = e_Name op \<and> hasExistingCurrentCSV (plan_resolver ''a2'') s = Inr True)"
    by (simp add: plan_operator_def plan_subscription_def plan_info_def matches_sub_def subscription_catalog_def
        hasExistingCurrentCSV_def plan_resolver_def)
qed (simp_all add: plan_resolver_def)

text \<open>
  C27. Steps are ordered by a stable sort: ClusterServiceVersions first, then CustomResourceDefinitions, then the
  rest, each in the order in which they were made.
\<close>

theorem steps_ordered: "OrderSteps steps = sort_key step_rank steps"
  by (rule OrderSteps_sort)

subsection \<open>Roles and bindings\<close>

definition plan_install :: "unit csv_install" where
  "plan_install = \<lparr>ci_object = (new_object TClusterServiceVersion ''a2'' ''n''), ci_StrategyName = ''deployment'',
     ci_Permissions = [\<lparr>sp_ServiceAccountName = ''sa'', sp_Rules = [()]\<rparr>], ci_ClusterPermissions = [\<lparr>sp_ServiceAccountName = ''sa'', sp_Rules = []\<rparr>]\<rparr>"

text \<open>
  C28. Every service account is granted what the install strategy asks for, no more and no less: its roles and
  cluster roles have the rules of its permissions and cluster permissions, in their order; each role is bound by
  exactly one binding, to that account in the operator's namespace and to nobody else.
\<close>

theorem rbac_grants:
  assumes "RBACForClusterServiceVersion E csv = Ok m"
  shows "roles_of m n = map sp_Rules (filter (\<lambda>p. sp_ServiceAccountName p = n) (ci_Permissions csv)) \<and>
    cluster_roles_of m n = map sp_Rules (filter (\<lambda>p. sp_ServiceAccountName p = n) (ci_ClusterPermissions csv)) \<and>
    all_bound (ob_Namespace (ci_object csv)) m"
  by (rule rbac_grants_rules [OF assms])

theorem rbac_grants_witness:
  "\<exists>m. RBACForClusterServiceVersion (codec_encoders some_codecs) plan_install = Ok m \<and> roles_of m ''sa'' = [[()]] \<and> all_bound ''n'' m"
proof -
  have "base62_nat 0 = ''0''" by code_simp
  then obtain m where m: "RBACForClusterServiceVersion (codec_encoders some_codecs) plan_install = Ok m"
    by (simp add: RBACForClusterServiceVersion_def plan_install_def add_permission_def add_cluster_permission_def Let_def some_codecs_def
        generateName_def DeepHashObject_def toBase62_def maxNameLength_def new_object_def PolicyRuleHashLabelValue_def
        RoleReferenceAndSubjectHashLabelValue_def outcome_of_def)
  from rbac_grants [OF m, of "''sa''"] m show ?thesis by (simp add: plan_install_def new_object_def)
qed

text \<open>
  C29. The name of a role always exists and has at most 64 characters. It is longer than the 63 characters that
  \<^verbatim>\<open>generateName\<close> is meant to keep within exactly when base and hash have 63 together, where the dash is forgotten.
\<close>

theorem role_name_length:
  "\<exists>name. generateName base (DeepHashObject (Sum224 E) (Inr raw)) = Ok name \<and> length name \<le> Suc maxNameLength \<and>
     (length name = Suc maxNameLength \<longleftrightarrow> length base + length (toBase62 (Sum224 E raw)) = maxNameLength)"
proof -
  have "length (toBase62 (Sum224 E raw)) \<le> 38" by (rule length_toBase62)
  then show ?thesis by (auto simp: DeepHashObject_def generateName_def maxNameLength_def)
qed

subsection \<open>Ownership\<close>

text \<open>
  After \<^verbatim>\<open>EnsureOwner\<close> an object has the owner and all it had before; the result says whether it had it already,
  and doing it again changes nothing.
\<close>

theorem ensure_owner:
  "fst (EnsureOwner object owner) = IsOwnedBy object owner \<and> IsOwnedBy (snd (EnsureOwner object owner)) owner \<and>
   set (ob_OwnerReferences object) \<subseteq> set (ob_OwnerReferences (snd (EnsureOwner object owner))) \<and>
   EnsureOwner (snd (EnsureOwner object owner)) owner = (True, snd (EnsureOwner object owner))"
proof -
  have "IsOwnedBy (AddNonBlockingOwner object owner) owner"
    using add_reference_mem [of object "NonBlockingOwner owner"]
    by (auto simp: IsOwnedBy_def AddNonBlockingOwner_def NonBlockingOwner_def list_ex_iff)
  then show ?thesis using add_reference_keeps [of object "NonBlockingOwner owner"]
    by (simp add: EnsureOwner_def AddNonBlockingOwner_def [of object])
qed

text \<open>
  C31. Owner labels can be read back: after \<^verbatim>\<open>AddOwnerLabels\<close> the object is owned by that owner, which is the one
  found for its kind and one that may adopt the object; other labels are kept.
\<close>

theorem owner_labels_roundtrip:
  assumes "AddOwnerLabels object owner = Some object'"
  shows "\<exists>owner'. InferGroupVersionKind owner = Some owner' \<and> IsOwnedByLabel object' owner' \<and>
    GetOwnerByKindLabel object' (g_Kind (ob_GVK owner')) = (ob_Name owner, ob_Namespace owner, True) \<and>
    AdoptableLabels (ob_Labels object') True [owner] \<and>
    (\<forall>k. k \<notin> {OwnerKey, OwnerNamespaceKey, OwnerKind} \<longrightarrow> map_of (ob_Labels object') k = map_of (ob_Labels object) k)"
proof -
  obtain owner' where o: "InferGroupVersionKind owner = Some owner'"
      "object' = AddOwnerLabelsForKind object owner' (g_Kind (ob_GVK owner'))"
    using assms by (auto simp: AddOwnerLabels_def)
  then have "infer_or_keep owner = owner'" by (simp add: infer_or_keep_def)
  then have f: "ob_Name owner' = ob_Name owner" "ob_Namespace owner' = ob_Namespace owner" "ob_GVK (infer_or_keep owner) = ob_GVK owner'"
    using infer_keeps [of owner] by auto
  have ne: "ob_Labels object' \<noteq> []" unfolding o(2) by (rule AddOwnerLabels_nonempty)
  have l: "map_of (ob_Labels object') = (map_of (ob_Labels object))(OwnerKey \<mapsto> ob_Name owner, OwnerNamespaceKey \<mapsto> ob_Namespace owner,
      OwnerKind \<mapsto> g_Kind (ob_GVK owner'))" unfolding o(2) OwnerLabel_lookup f ..
  have "label_of (ob_Labels object') OwnerKind = g_Kind (ob_GVK owner')" "label_of (ob_Labels object') OwnerKey = ob_Name owner"
      "label_of (ob_Labels object') OwnerNamespaceKey = ob_Namespace owner"
    by (simp_all add: label_of_def l) (simp_all add: owner_keys)
  moreover have "map_of (ob_Labels object') OwnerKey \<noteq> None" "map_of (ob_Labels object') OwnerNamespaceKey = Some (ob_Namespace owner)"
    by (simp_all add: l) (simp_all add: owner_keys)
  ultimately show ?thesis using o(1) ne f l
    by (intro exI [of _ owner']) (auto simp: IsOwnedByLabel_def GetOwnerByKindLabel_def IsOwnedByKindLabel_def AdoptableLabels_def)
qed

abbreviation a_csv_object :: "string \<Rightarrow> string \<Rightarrow> k8s_object" where
  "a_csv_object name uid \<equiv> (new_object TClusterServiceVersion name ''n'')\<lparr>ob_UID := uid\<rparr>"

theorem owner_labels_roundtrip_witness:
  "\<exists>object'. AddOwnerLabels (new_object TRole ''r'' ''n'') (a_csv_object ''a2'' ''u'') = Some object' \<and>
     GetOwnerByKindLabel object' ''ClusterServiceVersion'' = (''a2'', ''n'', True)"
proof -
  have i: "InferGroupVersionKind (a_csv_object ''a2'' ''u'') =
      Some ((a_csv_object ''a2'' ''u'')\<lparr>ob_GVK := gvk_of ''operators.coreos.com'' ''v1alpha1'' ''ClusterServiceVersion''\<rparr>)"
    by (simp add: InferGroupVersionKind_def new_object_def GVK_Empty_def)
  then obtain object' where o: "AddOwnerLabels (new_object TRole ''r'' ''n'') (a_csv_object ''a2'' ''u'') = Some object'"
    by (simp add: AddOwnerLabels_def)
  from owner_labels_roundtrip [OF o] o i show ?thesis by (auto simp: new_object_def)
qed

text \<open>
  The references that are made for owners carry group and version, while \<^verbatim>\<open>HasOwnerConflict\<close> compares with the bare version
  of the target: among references to owners of the target's own type, made from objects whose type is inferred and has a
  group, it sees no conflict, even when the target is not among them.
\<close>

lemma owner_conflict_missed:
  assumes "type_GVK (ob_type target) = Some gvk" and "GVK_Empty (ob_GVK target)" and "g_Group gvk \<noteq> ''''"
    and "\<And>ref. ref \<in> set owners \<Longrightarrow> \<exists>owner b c. ref = owner_reference owner b c \<and> type_GVK (ob_type owner) = Some gvk \<and> GVK_Empty (ob_GVK owner)"
  shows "\<not> HasOwnerConflict target owners"
proof -
  have inf: "ob_GVK (infer_or_keep x) = gvk" if "type_GVK (ob_type x) = Some gvk" "GVK_Empty (ob_GVK x)" for x
    using that by (simp add: infer_or_keep_def InferGroupVersionKind_def)
  have "or_APIVersion ref \<noteq> g_Version gvk" if ref: "ref \<in> set owners" for ref
  proof -
    obtain owner b c where o: "ref = owner_reference owner b c" "type_GVK (ob_type owner) = Some gvk" "GVK_Empty (ob_GVK owner)"
      using assms(4) [OF ref] by blast
    have "or_APIVersion ref = fst (ToAPIVersionAndKind gvk)"
      unfolding o(1) owner_reference_def inf [OF o(2,3)] by (simp add: Let_def case_prod_beta)
    then show ?thesis using grouped_APIVersion [OF assms(3)] type_GVK_full [OF assms(1)] by simp
  qed
  then have "owner_conflicts (infer_or_keep target) owners False = False"
    by (intro owner_conflicts_None) (simp add: inf [OF assms(1,2)])
  then show ?thesis by (simp add: HasOwnerConflict_def)
qed

end
