(* ===== verification/Choice_Properties.thy ===== *)
theory Choice_Properties
  imports Bundle_Variables
begin

text \<open>
  The properties of what the resolver chooses from: the order of catalogs and of the bundles of a channel, the meaning
  of dependency constraints, the identifiers of bundles, and API sets. Instances follow the properties that have
  hypotheses.
\<close>

subsection \<open>Catalogs\<close>









subsection \<open>Constraints\<close>

text \<open>
  C34. A dependency constraint is converted exactly when everything in it that counts is valid, and then its predicate
  holds of the entries that meet it: of several parts the first counts, in the order API, package, all, any, not, CEL
  rule; \<^verbatim>\<open>not\<close> means that none of its constraints is met, and a range that does not parse or a rule that is rejected
  is an error.
\<close>

theorem constraint_meaning:
  "case convertConstraint L c of
     Inl err \<Rightarrow> \<not> convertible L c
   | Inr p \<Rightarrow> convertible L c \<and> (\<forall>e. sat L p e = meets L c e)"
  using convert_correct(1) [of L c] by (auto simp: converts_def split: sum.splits)

subsection \<open>Channels\<close>

definition an_upgrade :: "nat \<Rightarrow> string \<Rightarrow> string \<Rightarrow> string list \<Rightarrow> nat Entry" where
  "an_upgrade addr name replaces skips =
     \<lparr>e_addr = addr, e_Name = name, e_Replaces = replaces, e_Skips = skips, e_SkipRange = None, e_ProvidedAPIs = [],
      e_RequiredAPIs = [], e_Version = None, e_SourceInfo = None, e_Properties = [], e_BundlePath = '''', e_Bundle = None\<rparr>"

text \<open>
  C35. The order of a channel: when \<^verbatim>\<open>sortChannel\<close> succeeds, exactly one bundle is neither replaced nor skipped by
  another one, and the result is the chain of replacements from there, which is free of cycles, without the
  skipped bundles.
\<close>

theorem channel_order:
  assumes "distinct (map e_addr bundles)" and "bundles \<noteq> []" and "sortChannel bundles = Inr chain"
  shows "\<exists>head w. {b \<in> set bundles. b \<notin> superseded (bundle_lookup bundles) bundles} = {head} \<and>
    replacements (replaced (bundle_lookup bundles)) (head # w) \<and> distinct (head # w) \<and> set (head # w) \<subseteq> set bundles \<and>
    chain = filter (\<lambda>b. e_Name b \<notin> skips_in (bundle_lookup bundles) bundles) (head # w)"
  using sortChannel_correct [OF assms] by (simp only: is_channel_order_def Let_def)

theorem channel_order_witness:
  "\<exists>head w. replacements (replaced (bundle_lookup [an_upgrade 1 ''a'' '''' [], an_upgrade 2 ''b'' ''a'' [], an_upgrade 3 ''c'' ''b'' [''b'']]))
     (head # w) \<and> sortChannel [an_upgrade 1 ''a'' '''' [], an_upgrade 2 ''b'' ''a'' [], an_upgrade 3 ''c'' ''b'' [''b'']] =
       Inr [an_upgrade 3 ''c'' ''b'' [''b''], an_upgrade 1 ''a'' '''' []]"
proof -
  let ?bs = "[an_upgrade 1 ''a'' '''' [], an_upgrade 2 ''b'' ''a'' [], an_upgrade 3 ''c'' ''b'' [''b'']]"
  have "map_sum id (map e_addr) (sortChannel ?bs) = Inr [3, 1]" by code_simp
  then obtain chain where c: "sortChannel ?bs = Inr chain" "map e_addr chain = [3, 1]" by (cases "sortChannel ?bs") auto
  have "distinct (map e_addr ?bs)" by (simp add: an_upgrade_def)
  have "?bs \<noteq> []" by simp
  from channel_order [OF \<open>distinct (map e_addr ?bs)\<close> this c(1)] obtain head w where h: "replacements (replaced (bundle_lookup ?bs)) (head # w)"
      "set (head # w) \<subseteq> set ?bs" "chain = filter (\<lambda>b. e_Name b \<notin> skips_in (bundle_lookup ?bs) ?bs) (head # w)"
    by (elim exE conjE) (rule that)
  have "set chain \<subseteq> set ?bs" using h(2,3) by auto
  moreover obtain x y where xy: "chain = [x, y]" "e_addr x = 3" "e_addr y = 1" using c(2) by (auto simp: map_eq_Cons_conv)
  ultimately have "x = an_upgrade 3 ''c'' ''b'' [''b'']" "y = an_upgrade 1 ''a'' '''' []" by (auto simp: an_upgrade_def)
  then show ?thesis using h(1) c(1) xy(1) by (intro exI [of _ head] exI [of _ w]) simp
qed

subsection \<open>Identifiers and APIs\<close>

text \<open>
  C36. The identifier of a bundle variable can be taken apart: as long as no part has a slash, \<^verbatim>\<open>BundleSourceInfo\<close>
  gives back the name, channel and catalog the identifier was made of, so different bundles have different
  identifiers.
\<close>

theorem bundle_identifier:
  assumes "plain_name name" "plain_name channel" "plain_name (sk_Name catalog)" "plain_name (sk_Namespace catalog)"
    and "plain_name name'" "plain_name channel'" "plain_name (sk_Name catalog')" "plain_name (sk_Namespace catalog')"
  shows "BundleSourceInfo (bundleID name channel catalog) = Inr (name, channel, catalog) \<and>
    (bundleID name channel catalog = bundleID name' channel' catalog' \<longleftrightarrow> name = name' \<and> channel = channel' \<and> catalog = catalog')"
proof -
  note rt = BundleSourceInfo_bundleID [OF assms(1-4)] BundleSourceInfo_bundleID [OF assms(5-8)]
  have "name = name' \<and> channel = channel' \<and> catalog = catalog'" if "bundleID name channel catalog = bundleID name' channel' catalog'"
    using rt(2) unfolding that [symmetric] rt(1) by simp
  then show ?thesis using rt(1) by blast
qed

theorem bundle_identifier_witness:
  "bundleID ''a'' ''s'' \<lparr>sk_Name = ''c'', sk_Namespace = ''o''\<rparr> \<noteq> bundleID ''b'' ''s'' \<lparr>sk_Name = ''c'', sk_Namespace = ''o''\<rparr>"
  using bundle_identifier [of "''a''" "''s''" "\<lparr>sk_Name = ''c'', sk_Namespace = ''o''\<rparr>" "''b''" "''s''" "\<lparr>sk_Name = ''c'', sk_Namespace = ''o''\<rparr>"]
  by (simp add: plain_name_def)

text \<open>
  The operations on API sets are those on sets, except for \<^verbatim>\<open>Intersection\<close> with several sets, which is the
  intersection with their union.
\<close>

theorem api_set_algebra:
  "set (APISet_Union s sets) = set s \<union> \<Union> (set ` set sets) \<and>
   set (APISet_Intersection s sets) = set s \<inter> \<Union> (set ` set sets) \<and>
   set (APISet_Difference s t) = set s - set t \<and> (APISet_IsSubset s t = (set s \<subseteq> set t)) \<and>
   (case PopAPIKey s of (None, r) \<Rightarrow> s = [] | (Some a, r) \<Rightarrow> a \<in> set s \<and> set r = set s - {a})"
  by (auto simp: APISet_Union_set APISet_Intersection_set APISet_Difference_set APISet_IsSubset_def list_all_iff PopAPIKey_def
      split: list.splits)

text \<open>The hash of an API has between one and sixteen characters, so it fits into a label.\<close>

theorem api_hash_length: "APIKeyToGVKHash key \<noteq> '''' \<and> length (APIKeyToGVKHash key) \<le> 16"
proof -
  have len: "n < 16 ^ Suc k \<Longrightarrow> length (hex_nat n) \<le> Suc k" for n k
  proof (induction k arbitrary: n)
    case 0
    then show ?case by (simp add: hex_nat.simps)
  next
    case (Suc k)
    then have "n div 16 < 16 ^ Suc k" by (simp add: div_less_iff_less_mult mult.commute)
    then show ?case using Suc.IH by (subst hex_nat.simps) simp
  qed
  have "unat (fnv64a (APIKeyToGVKString key)) < 2 ^ 64" using unsigned_less [of "fnv64a (APIKeyToGVKString key)", where ?'a = nat] by simp
  then have "length (APIKeyToGVKHash key) \<le> Suc 15" unfolding APIKeyToGVKHash_def by (intro len) simp
  moreover have "hex_nat n \<noteq> ''''" for n by (subst hex_nat.simps) simp
  ultimately show ?thesis by (simp add: APIKeyToGVKHash_def)
qed

end
