(* ===== verification/Json_Text.thy ===== *)
theory Json_Text
  imports Json
begin

text \<open>
  JSON texts, as \<^verbatim>\<open>encoding/json\<close> reads and compacts them: a lexer and a parser from bytes to the documents of
  \<open>Json\<close>, and \<^verbatim>\<open>json.Compact\<close>, which removes the white space between tokens. Texts are taken to be valid UTF-8. The
  parser is given twice the length of the text as fuel, which \<open>parse_fuel\<close> proves to be enough.
\<close>

subsection \<open>Characters and strings\<close>

definition is_space :: "char \<Rightarrow> bool" where
  "is_space c \<longleftrightarrow> (let n = of_char c :: nat in n = 32 \<or> n = 9 \<or> n = 10 \<or> n = 13)"

definition quote_char :: char where
  "quote_char = CHR 0x22"

definition backslash :: char where
  "backslash = CHR 0x5C"

fun skip_space :: "string \<Rightarrow> string" where
  "skip_space [] = []"
| "skip_space (c # cs) = (if is_space c then skip_space cs else c # cs)"

definition hex_value :: "char \<Rightarrow> nat option" where
  "hex_value c = (let n = of_char c :: nat in
     if 48 \<le> n \<and> n \<le> 57 then Some (n - 48)
     else if 97 \<le> n \<and> n \<le> 102 then Some (n - 87)
     else if 65 \<le> n \<and> n \<le> 70 then Some (n - 55) else None)"

definition hex4 :: "string \<Rightarrow> nat option" where
  "hex4 s =
     (case map hex_value (take 4 s) of
        [Some w, Some x, Some y, Some z] \<Rightarrow> Some (((w * 16 + x) * 16 + y) * 16 + z)
      | _ \<Rightarrow> None)"

text \<open>The UTF-8 encoding of a code point\<close>

definition utf8 :: "nat \<Rightarrow> string" where
  "utf8 n =
     (if n < 0x80 then [char_of n]
      else if n < 0x800 then [char_of (0xC0 + n div 64), char_of (0x80 + n mod 64)]
      else if n < 0x10000
      then [char_of (0xE0 + n div 4096), char_of (0x80 + n div 64 mod 64), char_of (0x80 + n mod 64)]
      else [char_of (0xF0 + n div 262144), char_of (0x80 + n div 4096 mod 64), char_of (0x80 + n div 64 mod 64),
            char_of (0x80 + n mod 64)])"

definition replacement :: string where
  "replacement = utf8 0xFFFD"

definition simple_escape :: "char \<Rightarrow> char option" where
  "simple_escape c =
     map_of [(quote_char, quote_char), (backslash, backslash), (CHR ''/'', CHR ''/''), (CHR ''b'', char_of (8 :: nat)),
             (CHR ''f'', char_of (12 :: nat)), (CHR ''n'', char_of (10 :: nat)), (CHR ''r'', char_of (13 :: nat)),
             (CHR ''t'', char_of (9 :: nat))] c"

definition prepend :: "string \<Rightarrow> (string \<times> string) option \<Rightarrow> (string \<times> string) option" where
  "prepend s r = map_option (\<lambda>(t, rest). (s @ t, rest)) r"

text \<open>
  The rest of a string literal after its opening quote, with escapes replaced: a pair of surrogates is one code point,
  a surrogate alone becomes the replacement character.
\<close>

definition low_surrogate :: "string \<Rightarrow> nat option" where
  "low_surrogate s =
     (if take 2 s = [backslash, CHR ''u''] then
        (case hex4 (drop 2 s) of
           Some l \<Rightarrow> (if 0xDC00 \<le> l \<and> l < 0xE000 then Some l else None)
         | None \<Rightarrow> None)
      else None)"

fun lex_string :: "string \<Rightarrow> (string \<times> string) option" where
  "lex_string [] = None"
| "lex_string (c # cs) =
     (if c = quote_char then Some ([], cs)
      else if of_char c < (32 :: nat) then None
      else if c \<noteq> backslash then prepend [c] (lex_string cs)
      else case cs of
        [] \<Rightarrow> None
      | e # rest \<Rightarrow>
          (if e = CHR ''u''
           then (case hex4 rest of
                   None \<Rightarrow> None
                 | Some n \<Rightarrow>
                     (if 0xD800 \<le> n \<and> n < 0xDC00
                      then (case low_surrogate (drop 4 rest) of
                              Some l \<Rightarrow>
                                prepend (utf8 (0x10000 + (n - 0xD800) * 1024 + (l - 0xDC00))) (lex_string (drop 10 rest))
                            | None \<Rightarrow> prepend replacement (lex_string (drop 4 rest)))
                      else if 0xDC00 \<le> n \<and> n < 0xE000 then prepend replacement (lex_string (drop 4 rest))
                      else prepend (utf8 n) (lex_string (drop 4 rest))))
           else case simple_escape e of None \<Rightarrow> None | Some x \<Rightarrow> prepend [x] (lex_string rest)))"

subsection \<open>Numbers\<close>

definition is_digit :: "char \<Rightarrow> bool" where
  "is_digit c \<longleftrightarrow> (let n = of_char c :: nat in 48 \<le> n \<and> n \<le> 57)"

definition int_part :: "string \<Rightarrow> bool" where
  "int_part s \<longleftrightarrow> s \<noteq> [] \<and> list_all is_digit s \<and> (hd s = CHR ''0'' \<longrightarrow> tl s = [])"

text \<open>
  A number is a sign, digits without a leading zero, a fraction, and an exponent; the lexer takes the longest run of
  bytes that can occur in a number and then checks its form.
\<close>

definition number_char :: "char \<Rightarrow> bool" where
  "number_char c \<longleftrightarrow> is_digit c \<or> c \<in> set ''+-.eE''"

definition exponent_ok :: "string \<Rightarrow> bool" where
  "exponent_ok s \<longleftrightarrow>
     (case s of [] \<Rightarrow> True
      | e # rest \<Rightarrow>
          (let ds = (case rest of c # cs \<Rightarrow> (if c = CHR ''+'' \<or> c = CHR ''-'' then cs else rest) | [] \<Rightarrow> [])
           in (e = CHR ''e'' \<or> e = CHR ''E'') \<and> ds \<noteq> [] \<and> list_all is_digit ds))"

definition fraction_ok :: "string \<Rightarrow> bool" where
  "fraction_ok s \<longleftrightarrow>
     (case s of
        c # cs \<Rightarrow>
          (if c = CHR ''.'' then takeWhile is_digit cs \<noteq> [] \<and> exponent_ok (dropWhile is_digit cs) else exponent_ok s)
      | [] \<Rightarrow> True)"

definition number_ok :: "string \<Rightarrow> bool" where
  "number_ok s \<longleftrightarrow>
     (let t = (case s of c # cs \<Rightarrow> (if c = CHR ''-'' then cs else s) | [] \<Rightarrow> [])
      in int_part (takeWhile is_digit t) \<and> fraction_ok (dropWhile is_digit t))"

subsection \<open>Values\<close>

definition literals :: "(string \<times> json) list" where
  "literals = [(''null'', JNull), (''true'', JBool True), (''false'', JBool False)]"

definition lex_literal :: "string \<Rightarrow> (json \<times> string) option" where
  "lex_literal s =
     (case find (\<lambda>(t, j). take (length t) s = t) literals of
        Some (t, j) \<Rightarrow> Some (j, drop (length t) s)
      | None \<Rightarrow>
          (let n = takeWhile number_char s
           in if number_ok n then Some (JNum n, drop (length n) s) else None))"

text \<open>The text after the next token, when that is the given character\<close>

definition after :: "char \<Rightarrow> string \<Rightarrow> string option" where
  "after c s = (case skip_space s of [] \<Rightarrow> None | d # rest \<Rightarrow> (if d = c then Some rest else None))"

fun parse_value :: "nat \<Rightarrow> string \<Rightarrow> (json \<times> string) option"
and parse_members :: "nat \<Rightarrow> string \<Rightarrow> ((string \<times> json) list \<times> string) option"
and parse_elements :: "nat \<Rightarrow> string \<Rightarrow> (json list \<times> string) option" where
  "parse_value 0 s = None"
| "parse_value (Suc n) s =
     (case skip_space s of
        [] \<Rightarrow> None
      | c # cs \<Rightarrow>
          (if c = quote_char then map_option (\<lambda>(t, rest). (JStr t, rest)) (lex_string cs)
           else if c = CHR ''{'' then
             (case after (CHR ''}'') cs of
                Some rest \<Rightarrow> Some (JObj [], rest)
              | None \<Rightarrow> map_option (\<lambda>(ms, rest). (JObj ms, rest)) (parse_members n cs))
           else if c = CHR ''['' then
             (case after (CHR '']'') cs of
                Some rest \<Rightarrow> Some (JArr [], rest)
              | None \<Rightarrow> map_option (\<lambda>(vs, rest). (JArr vs, rest)) (parse_elements n cs))
           else lex_literal (c # cs)))"
| "parse_members 0 s = None"
| "parse_members (Suc n) s =
     (case after quote_char s of
        None \<Rightarrow> None
      | Some cs \<Rightarrow>
      case lex_string cs of
        None \<Rightarrow> None
      | Some (key, rest) \<Rightarrow>
      case after (CHR '':'') rest of
        None \<Rightarrow> None
      | Some rest \<Rightarrow>
      case parse_value n rest of
        None \<Rightarrow> None
      | Some (v, rest) \<Rightarrow>
          (case (after (CHR '','') rest, after (CHR ''}'') rest) of
             (Some rest, _) \<Rightarrow> map_option (\<lambda>(ms, rest). ((key, v) # ms, rest)) (parse_members n rest)
           | (None, Some rest) \<Rightarrow> Some ([(key, v)], rest)
           | (None, None) \<Rightarrow> None))"
| "parse_elements 0 s = None"
| "parse_elements (Suc n) s =
     (case parse_value n s of
        None \<Rightarrow> None
      | Some (v, rest) \<Rightarrow>
          (case (after (CHR '','') rest, after (CHR '']'') rest) of
             (Some rest, _) \<Rightarrow> map_option (\<lambda>(vs, rest). (v # vs, rest)) (parse_elements n rest)
           | (None, Some rest) \<Rightarrow> Some ([v], rest)
           | (None, None) \<Rightarrow> None))"

text \<open>A text with the document it holds; \<^verbatim>\<open>json.Unmarshal\<close> rejects what follows the first value.\<close>

definition raw_of_text :: "string \<Rightarrow> rawJSON" where
  "raw_of_text s =
     (case parse_value (Suc (2 * length s)) s of
        None \<Rightarrow> \<lparr>raw_doc = None, raw_len = length s, raw_more = False\<rparr>
      | Some (j, rest) \<Rightarrow> \<lparr>raw_doc = Some j, raw_len = length s, raw_more = (skip_space rest \<noteq> [])\<rparr>)"

definition json_valid :: "string \<Rightarrow> bool" where
  "json_valid s \<longleftrightarrow> json_Unmarshal (raw_of_text s) \<noteq> None"

text \<open>Each call consumes something, so that more fuel than twice the length of the text changes nothing.\<close>

lemma skip_space_length: "length (skip_space s) \<le> length s"
  by (induction s) auto

lemma prepend_Some: "prepend s r = Some (t, rest) \<longleftrightarrow> (\<exists>u. r = Some (u, rest) \<and> t = s @ u)"
  by (cases r) (auto simp: prepend_def)

lemma lex_string_length: "lex_string s = Some (t, rest) \<Longrightarrow> length rest < length s"
proof (induction s arbitrary: t rule: length_induct)
  case (1 s)
  have IH: "length rest < length u" if "lex_string u = Some (v, rest)" "length u < length s" for u v
    using 1 that by blast
  then have IH': "length rest < length s" if "lex_string u = Some (v, rest)" "length u < length s" for u v
    using that less_trans by blast
  show ?case
  proof (cases s)
    case (Cons c cs)
    show ?thesis
    proof (cases cs)
      case Nil
      then show ?thesis using 1(2) Cons by (auto simp: prepend_Some split: if_splits)
    next
      case (Cons e r)
      have s: "s = c # e # r" using \<open>s = c # cs\<close> Cons by simp
      have "rest = cs \<or> (\<exists>u \<in> {cs, r, drop 4 r, drop 10 r}. \<exists>v. lex_string u = Some (v, rest))"
        using 1(2) by (auto simp: s Cons prepend_Some simp del: lex_string.simps split: if_splits option.splits
            dest!: lex_string.simps(2) [THEN sym, THEN trans, of c "e # r"])
      then show ?thesis using IH' by (auto simp: s Cons simp del: lex_string.simps)
    qed
  qed (use 1 in simp)
qed

lemma lex_literal_length:
  assumes "lex_literal s = Some (j, rest)" "s \<noteq> []"
  shows "length rest < length s"
proof -
  have "takeWhile number_char s \<noteq> []" if "number_ok (takeWhile number_char s)"
    using that by (auto simp: number_ok_def int_part_def)
  then show ?thesis using assms by (auto simp: lex_literal_def literals_def Let_def split: if_splits option.splits)
qed

lemma after_length: "after c s = Some rest \<Longrightarrow> length rest < length s"
  using skip_space_length [of s] by (auto simp: after_def split: list.splits if_splits)

lemma parse_length:
  "parse_value n s = Some (j, rest) \<Longrightarrow> length rest < length s"
  "parse_members n s = Some (ms, rest) \<Longrightarrow> length rest < length s"
  "parse_elements n s = Some (vs, rest) \<Longrightarrow> length rest < length s"
proof (induction n s and n s and n s arbitrary: j rest and ms rest and vs rest
    rule: parse_value_parse_members_parse_elements.induct)
  case (2 n s)
  then show ?case using skip_space_length [of s]
    by (fastforce split: list.splits if_splits option.splits dest: after_length lex_string_length lex_literal_length)
next
  case (4 n s)
  then show ?case 
    by (fastforce split: if_splits option.splits dest: after_length lex_string_length)
next
  case (6 n s)
  then show ?case by (fastforce split: if_splits option.splits dest: after_length)
qed simp_all

lemma parse_fuel_step:
  "(2 * length s < n \<longrightarrow> parse_value (Suc n) s = parse_value n s) \<and>
   (2 * length s < n \<longrightarrow> parse_members (Suc n) s = parse_members n s) \<and>
   (2 * length s + 1 < n \<longrightarrow> parse_elements (Suc n) s = parse_elements n s)"
proof (induction n arbitrary: s)
  case (Suc n)
  have val: "parse_value (Suc n) t = parse_value n t" if "2 * length t < n" for t using Suc that by blast
  have members: "parse_members (Suc n) t = parse_members n t" if "2 * length t < n" for t using Suc that by blast
  have elements: "parse_elements (Suc n) t = parse_elements n t" if "2 * length t + 1 < n" for t using Suc that by blast
  have 1: "parse_value (Suc (Suc n)) s = parse_value (Suc n) s" if n: "2 * length s < Suc n"
  proof (cases "skip_space s")
    case (Cons c cs)
    then have "length cs < length s" using skip_space_length [of s] by simp
    then have "parse_members (Suc n) cs = parse_members n cs" "parse_elements (Suc n) cs = parse_elements n cs"
      using members elements n by auto
    then show ?thesis using Cons unfolding parse_value.simps(2) [of "Suc n"] parse_value.simps(2) [of n]
      by (simp del: parse_value.simps parse_members.simps parse_elements.simps split: option.split)
  qed simp
  have 2: "parse_members (Suc (Suc n)) s = parse_members (Suc n) s" if n: "2 * length s < Suc n"
  proof -
    have "parse_value (Suc n) r = parse_value n r \<and> (\<forall>v r' r''. parse_value n r = Some (v, r') \<longrightarrow>
        after (CHR '','') r' = Some r'' \<longrightarrow> parse_members (Suc n) r'' = parse_members n r'')"
      if "after quote_char s = Some cs" "lex_string cs = Some (key, t)" "after (CHR '':'') t = Some r" for cs key t r
    proof -
      have "length r < length s"
        using lex_string_length [OF that(2)] after_length [OF that(1)] after_length [OF that(3)] by simp
      then show ?thesis using val [of r] n members parse_length(1) [of n r] after_length [of "CHR '',''"] by fastforce
    qed
    then show ?thesis unfolding parse_members.simps(2) [of "Suc n"] parse_members.simps(2) [of n]
      by (auto simp del: parse_value.simps parse_members.simps parse_elements.simps split: option.splits)
  qed
  have 3: "parse_elements (Suc (Suc n)) s = parse_elements (Suc n) s" if n: "2 * length s + 1 < Suc n"
  proof -
    have "parse_elements (Suc n) r' = parse_elements n r'" if "parse_value n s = Some (v, r)" "after (CHR '','') r = Some r'" for v r r'
      using parse_length(1) [OF that(1)] after_length [OF that(2)] elements [of r'] n by simp
    then show ?thesis using val [of s] n unfolding parse_elements.simps(2) [of "Suc n"] parse_elements.simps(2) [of n]
      by (auto simp del: parse_value.simps parse_members.simps parse_elements.simps split: option.splits)
  qed
  show ?case using 1 2 3 by blast
qed simp

lemma parse_fuel: "2 * length s < n \<Longrightarrow> parse_value n s = parse_value (Suc (2 * length s)) s"
proof (induction n)
  case (Suc n)
  then show ?case using parse_fuel_step [of s n] by (cases "2 * length s = n") auto
qed simp

subsection \<open>Compacting\<close>

text \<open>White space is dropped outside string literals; the flag says whether the text is inside one.\<close>

fun strip_space :: "bool \<Rightarrow> string \<Rightarrow> string" where
  "strip_space quoted [] = []"
| "strip_space True [c] = [c]"
| "strip_space True (c # d # cs) =
     (if c = backslash then c # d # strip_space True cs
      else c # strip_space (c \<noteq> quote_char) (d # cs))"
| "strip_space False (c # cs) =
     (if is_space c then strip_space False cs else c # strip_space (c = quote_char) cs)"

definition json_Compact :: "string \<Rightarrow> string option" where
  "json_Compact s = (if json_valid s then Some (strip_space False s) else None)"

lemma strip_space_idem: "strip_space quoted (strip_space quoted s) = strip_space quoted s"
proof (induction quoted s rule: strip_space.induct)
  case (3 c d cs)
  show ?case
  proof (cases "c = backslash")
    case False
    then show ?thesis using 3 by (cases "strip_space (c \<noteq> quote_char) (d # cs)") (auto simp: backslash_def quote_char_def)
  qed (use 3 in auto)
qed auto

end
