(* ===== verification/Catalog_Property.thy ===== *)
theory Catalog_Property
  imports Json_Text Cache_Entry
begin

text \<open>
  The properties of file-based catalogs (\<^verbatim>\<open>operator-registry/alpha/property/property.go\<close>): their validation, the parser
  that sorts them by type, duplicates, and the normal form of their values. A value is its text, because texts are
  compared. The decoders of bundle objects and of CSV metadata, whose content nothing here looks at, are
  parameters; \<open>unmarshal_Package\<close> and \<open>unmarshal_GVK\<close> of \<open>Cache_Entry\<close> decode the structs of the same fields.
\<close>

record property =
  pr_Type :: string
  pr_Value :: string

datatype property_error = TypeUnset | ValueUnset | ValueNotJSON

definition property_Validate :: "property \<Rightarrow> property_error option" where
  "property_Validate p =
     (if length (pr_Type p) = 0 then Some TypeUnset
      else if length (pr_Value p) = 0 then Some ValueUnset
      else if json_Unmarshal (raw_of_text (pr_Value p)) = None then Some ValueNotJSON else None)"

record PackageRequired =
  pq_PackageName :: string
  pq_VersionRange :: string

record ChannelPriority =
  cp_ChannelName :: string
  cp_Priority :: int

record ('o, 'm) Properties =
  ps_Packages :: "PackageProperty list"
  ps_PackagesRequired :: "PackageRequired list"
  ps_GVKs :: "GVKProperty list"
  ps_GVKsRequired :: "GVKProperty list"
  ps_BundleObjects :: "'o list"
  ps_Channels :: "ChannelPriority list"
  ps_CSVMetadatas :: "'m list"
  ps_Others :: "property list"

definition TypePackage :: string where "TypePackage = ''olm.package''"
definition TypePackageRequired :: string where "TypePackageRequired = ''olm.package.required''"
definition TypeGVK :: string where "TypeGVK = ''olm.gvk''"
definition TypeGVKRequired :: string where "TypeGVKRequired = ''olm.gvk.required''"
definition TypeBundleObject :: string where "TypeBundleObject = ''olm.bundle.object''"
definition TypeCSVMetadata :: string where "TypeCSVMetadata = ''olm.csv.metadata''"
definition TypeChannel :: string where "TypeChannel = ''olm.channel''"

subsection \<open>Decoding\<close>

definition unmarshal_PackageRequired :: "rawJSON \<Rightarrow> PackageRequired option" where
  "unmarshal_PackageRequired r =
     Option.bind (json_Unmarshal r) (\<lambda>j.
       map_option (\<lambda>fs. \<lparr>pq_PackageName = field fs ''packageName'', pq_VersionRange = field fs ''versionRange''\<rparr>)
         (decode_strings False [''packageName'', ''versionRange''] j))"

text \<open>An integer of Go's 64 bits, written without fraction and exponent\<close>

definition digits_value :: "string \<Rightarrow> int" where
  "digits_value ds = foldl (\<lambda>n d. 10 * n + (of_char d - 48)) 0 ds"

definition int_of_text :: "string \<Rightarrow> int option" where
  "int_of_text s =
     (let negative = (s \<noteq> [] \<and> hd s = CHR ''-''); ds = (if negative then tl s else s);
          n = (if negative then - digits_value ds else digits_value ds)
      in if ds \<noteq> [] \<and> list_all is_digit ds \<and> - (2 ^ 63) \<le> n \<and> n < 2 ^ 63 then Some n else None)"

fun decode_int :: "int \<Rightarrow> json \<Rightarrow> int option" where
  "decode_int cur (JNum s) = int_of_text s"
| "decode_int cur JNull = Some cur"
| "decode_int cur _ = None"

fun set_priority :: "(string \<times> json) list \<Rightarrow> ChannelPriority \<Rightarrow> ChannelPriority option" where
  "set_priority [] c = Some c"
| "set_priority ((key, j) # ms) c =
     (if EqualFold key ''channelName''
      then Option.bind (decode_string (cp_ChannelName c) j) (\<lambda>s. set_priority ms (c\<lparr>cp_ChannelName := s\<rparr>))
      else if EqualFold key ''priority''
      then Option.bind (decode_int (cp_Priority c) j) (\<lambda>n. set_priority ms (c\<lparr>cp_Priority := n\<rparr>))
      else set_priority ms c)"

definition unmarshal_Channel :: "rawJSON \<Rightarrow> ChannelPriority option" where
  "unmarshal_Channel r =
     Option.bind (json_Unmarshal r) (\<lambda>j.
       case j of JObj ms \<Rightarrow> set_priority ms \<lparr>cp_ChannelName = '''', cp_Priority = 0\<rparr>
               | JNull \<Rightarrow> Some \<lparr>cp_ChannelName = '''', cp_Priority = 0\<rparr> | _ \<Rightarrow> None)"

record ('o, 'm) decoders =
  dec_BundleObject :: "string \<Rightarrow> 'o option"
  dec_CSVMetadata :: "string \<Rightarrow> 'm option"

text \<open>The position and the type of the property that cannot be decoded\<close>

datatype ParseError = ParseError nat string

definition parse_one ::
    "('o, 'm) decoders \<Rightarrow> property \<Rightarrow> ('o, 'm) Properties \<Rightarrow> ('o, 'm) Properties option" where
  "parse_one D p out =
     (let t = pr_Type p; v = pr_Value p in
      if t = TypePackage
      then map_option (\<lambda>x. out\<lparr>ps_Packages := ps_Packages out @ [x]\<rparr>) (unmarshal_Package (raw_of_text v))
      else if t = TypePackageRequired
      then map_option (\<lambda>x. out\<lparr>ps_PackagesRequired := ps_PackagesRequired out @ [x]\<rparr>) (unmarshal_PackageRequired (raw_of_text v))
      else if t = TypeGVK
      then map_option (\<lambda>x. out\<lparr>ps_GVKs := ps_GVKs out @ [x]\<rparr>) (unmarshal_GVK (raw_of_text v))
      else if t = TypeGVKRequired
      then map_option (\<lambda>x. out\<lparr>ps_GVKsRequired := ps_GVKsRequired out @ [x]\<rparr>) (unmarshal_GVK (raw_of_text v))
      else if t = TypeBundleObject
      then map_option (\<lambda>x. out\<lparr>ps_BundleObjects := ps_BundleObjects out @ [x]\<rparr>) (dec_BundleObject D v)
      else if t = TypeCSVMetadata
      then map_option (\<lambda>x. out\<lparr>ps_CSVMetadatas := ps_CSVMetadatas out @ [x]\<rparr>) (dec_CSVMetadata D v)
      else if t = TypeChannel
      then map_option (\<lambda>x. out\<lparr>ps_Channels := ps_Channels out @ [x]\<rparr>) (unmarshal_Channel (raw_of_text v))
      else map_option (\<lambda>_. out\<lparr>ps_Others := ps_Others out @ [p]\<rparr>) (json_Unmarshal (raw_of_text v)))"

fun parse_from ::
    "('o, 'm) decoders \<Rightarrow> nat \<Rightarrow> property list \<Rightarrow> ('o, 'm) Properties \<Rightarrow> ParseError + ('o, 'm) Properties" where
  "parse_from D i [] out = Inr out"
| "parse_from D i (p # ps) out =
     (case parse_one D p out of
        None \<Rightarrow> Inl (ParseError i (pr_Type p))
      | Some out \<Rightarrow> parse_from D (Suc i) ps out)"

definition no_properties :: "('o, 'm) Properties" where
  "no_properties = \<lparr>ps_Packages = [], ps_PackagesRequired = [], ps_GVKs = [], ps_GVKsRequired = [], ps_BundleObjects = [],
     ps_Channels = [], ps_CSVMetadatas = [], ps_Others = []\<rparr>"

definition property_Parse :: "('o, 'm) decoders \<Rightarrow> property list \<Rightarrow> ParseError + ('o, 'm) Properties" where
  "property_Parse D ps = parse_from D 0 ps no_properties"

subsection \<open>Duplicates and normal forms\<close>

text \<open>The map \<^verbatim>\<open>props\<close> is the list of its keys.\<close>

fun dedup_from :: "(string \<times> string) list \<Rightarrow> property list \<Rightarrow> property list" where
  "dedup_from props [] = []"
| "dedup_from props (p # ps) =
     (if (pr_Type p, pr_Value p) \<in> set props then dedup_from props ps
      else p # dedup_from ((pr_Type p, pr_Value p) # props) ps)"

definition Deduplicate :: "property list \<Rightarrow> property list" where
  "Deduplicate ps = dedup_from [] ps"

text \<open>\<^verbatim>\<open>Build\<close> of a property: its raw value is encoded, which checks and compacts it. A value without bytes is not nil.\<close>

definition Build_property :: "property \<Rightarrow> property option" where
  "Build_property p = map_option (\<lambda>v. \<lparr>pr_Type = pr_Type p, pr_Value = v\<rparr>) (json_Compact (pr_Value p))"

subsection \<open>Facts\<close>

lemma parse_from_packages:
  "parse_from D i ps out = Inr out' \<Longrightarrow>
   length (ps_Packages out') = length (ps_Packages out) + length (filter (\<lambda>p. pr_Type p = TypePackage) ps)"
proof (induction ps arbitrary: i out)
  case (Cons p ps)
  obtain out1 where 1: "parse_one D p out = Some out1" "parse_from D (Suc i) ps out1 = Inr out'"
    using Cons.prems by (auto split: option.splits)
  moreover have "length (ps_Packages out1) = length (ps_Packages out) + (if pr_Type p = TypePackage then 1 else 0)"
    using 1(1) by (auto simp: parse_one_def Let_def split: if_splits)
  ultimately show ?case using Cons.IH [OF 1(2)] by simp
qed simp

lemma property_Parse_packages: "property_Parse D ps = Inr out \<Longrightarrow> length (ps_Packages out) = length (filter (\<lambda>p. pr_Type p = TypePackage) ps)"
  using parse_from_packages [of D 0 ps no_properties out] by (simp add: property_Parse_def no_properties_def)

lemma dedup_from_set: "set (dedup_from seen ps) = {p \<in> set ps. (pr_Type p, pr_Value p) \<notin> set seen}"
  by (induction ps arbitrary: seen) (auto intro: property.equality)

lemma dedup_from_distinct: "distinct (dedup_from seen ps)"
  by (induction ps arbitrary: seen) (auto simp: dedup_from_set)

lemma Deduplicate_set [simp]: "set (Deduplicate ps) = set ps" "distinct (Deduplicate ps)"
  by (auto simp: Deduplicate_def dedup_from_set dedup_from_distinct)

end
