(* ===== verification/Catalog_Model.thy ===== *)
theory Catalog_Model
  imports Catalog_Property
begin

text \<open>
  The model of a catalog (\<^verbatim>\<open>operator-registry/alpha/model/model.go\<close>): packages, their channels and the bundles of the
  channels point to each other, so they live in a store and are known by their addresses. The store's lists are the
  objects in the order of their allocation. Validation collects errors in a tree; the order in which maps are ranged over is
  the parameter \<open>rng\<close>, any permutation. The semantic versions of the library are values of a type variable.
\<close>

type_synonym addr = nat
type_synonym ptrs = "(string \<times> addr) list"
type_synonym ranging = "ptrs \<Rightarrow> ptrs"

record model_Icon =
  ic_Data :: string
  ic_MediaType :: string

text \<open>A pointer to a deprecation is the message it points to.\<close>

type_synonym model_Deprecation = "string option"

record model_Package =
  mp_Name :: string
  mp_Description :: string
  mp_Icon :: "model_Icon option"
  mp_DefaultChannel :: "addr option"
  mp_Channels :: ptrs
  mp_Deprecation :: model_Deprecation

record model_Channel =
  mc_Package :: "addr option"
  mc_Name :: string
  mc_Bundles :: ptrs
  mc_Deprecation :: model_Deprecation
  mc_Properties :: "property list"

record model_RelatedImage =
  ri_Name :: string
  ri_Image :: string

record ('v, 'o, 'm) model_Bundle =
  mb_Package :: "addr option"
  mb_Channel :: "addr option"
  mb_Name :: string
  mb_Image :: string
  mb_Replaces :: string
  mb_Skips :: "string list"
  mb_SkipRange :: string
  mb_Properties :: "property list"
  mb_RelatedImages :: "model_RelatedImage list"
  mb_Deprecation :: model_Deprecation
  mb_Objects :: "string list"
  mb_CsvJSON :: string
  mb_PropertiesP :: "('o, 'm) Properties option"
  mb_Version :: 'v

record ('v, 'o, 'm) store =
  packages :: "model_Package list"
  channels :: "model_Channel list"
  bundles :: "('v, 'o, 'm) model_Bundle list"

record 'v semver =
  sv_Parse :: "string \<Rightarrow> 'v option"
  sv_String :: "'v \<Rightarrow> string"
  sv_Sort :: "'v list \<Rightarrow> 'v list"
  sv_zero :: 'v

subsection \<open>Errors\<close>

datatype model_error =
    InvalidIndex "model_error list"
  | InvalidPackage string "model_error list"
  | InvalidChannel string "model_error list"
  | InvalidBundle string "model_error list"
  | InvalidIcon "model_error list"
  | InvalidRelatedImage "model_error list"
  | PackageKeyMismatch string string
  | EmptyPackageName
  | DefaultChannelUnset
  | NoChannels
  | ChannelKeyMismatch string string
  | ChannelNotLinked string
  | DuplicateVersions "(string \<times> string list) list"
  | DefaultChannelNotFound string
  | InvalidDeprecation
  | EmptyChannelName
  | ChannelPackageUnset
  | NoBundles
  | NoChannelHead
  | MultipleHeads "string list"
  | ReplacesCycle "string list"
  | StrandedBundles "string list"
  | BundleKeyMismatch string string
  | BundleNotLinked string
  | EmptyBundleName
  | BundleChannelUnset
  | BundlePackageUnset
  | PackageNotOfChannel
  | BadProperties ParseError
  | EmptySkip nat
  | NotOnePackageProperty
  | BundleImageUnset
  | RelatedImageUnset

definition orNil :: "(model_error list \<Rightarrow> model_error) \<Rightarrow> model_error list \<Rightarrow> model_error option" where
  "orNil error subErrors = (if length subErrors = 0 then None else Some (error subErrors))"

abbreviation err_if :: "bool \<Rightarrow> model_error \<Rightarrow> model_error list" where
  "err_if b e \<equiv> (if b then [e] else [])"

definition opt_err :: "model_error option \<Rightarrow> model_error list" where
  "opt_err e = (case e of None \<Rightarrow> [] | Some e \<Rightarrow> [e])"

definition Deprecation_invalid :: "model_Deprecation \<Rightarrow> bool" where
  "Deprecation_invalid d = (case d of None \<Rightarrow> False | Some message \<Rightarrow> message = '''')"

definition Icon_Validate :: "model_Icon option \<Rightarrow> model_error option" where
  "Icon_Validate i = (case i of None \<Rightarrow> None | Some _ \<Rightarrow> orNil InvalidIcon [])"

definition RelatedImage_Validate :: "model_RelatedImage \<Rightarrow> model_error option" where
  "RelatedImage_Validate i = orNil InvalidRelatedImage (err_if (ri_Image i = '''') RelatedImageUnset)"

subsection \<open>Bundles\<close>

definition skip_errors :: "string list \<Rightarrow> model_error list" where
  "skip_errors skips = concat (map (\<lambda>(i, skip). err_if (skip = '''') (EmptySkip i)) (zip [0..<length skips] skips))"

definition Bundle_Validate ::
    "('o, 'm) decoders \<Rightarrow> ('v, 'o, 'm) store \<Rightarrow> addr \<Rightarrow> model_error option" where
  "Bundle_Validate D S a =
     (let b = bundles S ! a in
      orNil (InvalidBundle (mb_Name b))
       (err_if (mb_Name b = '''') EmptyBundleName @
        err_if (mb_Channel b = None) BundleChannelUnset @
        err_if (mb_Package b = None) BundlePackageUnset @
        err_if (mb_Channel b \<noteq> None \<and> mb_Package b \<noteq> None \<and>
                mb_Package b \<noteq> mc_Package (channels S ! the (mb_Channel b))) PackageNotOfChannel @
        (case property_Parse D (mb_Properties b) of Inl err \<Rightarrow> [BadProperties err] | Inr props \<Rightarrow> []) @
        skip_errors (mb_Skips b) @
        (case property_Parse D (mb_Properties b) of
           Inl err \<Rightarrow> []
         | Inr props \<Rightarrow> err_if (length (ps_Packages props) \<noteq> 1) NotOnePackageProperty) @
        err_if (mb_Image b = '''' \<and> length (mb_Objects b) = 0) BundleImageUnset @
        err_if (Deprecation_invalid (mb_Deprecation b)) InvalidDeprecation))"

subsection \<open>Channels\<close>

definition bump :: "string \<Rightarrow> (string \<times> nat) list \<Rightarrow> (string \<times> nat) list" where
  "bump k m = AList.update k (Suc (case map_of m k of Some n \<Rightarrow> n | None \<Rightarrow> 0)) m"

definition incoming_edges :: "ranging \<Rightarrow> ('v, 'o, 'm) store \<Rightarrow> model_Channel \<Rightarrow> (string \<times> nat) list" where
  "incoming_edges rng S c =
     foldl (\<lambda>incoming (k, a).
        let b = bundles S ! a;
            incoming = (if mb_Replaces b \<noteq> '''' then bump (mb_Replaces b) incoming else incoming)
        in foldl (\<lambda>incoming skip. bump skip incoming) incoming (mb_Skips b)) [] (rng (mc_Bundles c))"

definition Head :: "ranging \<Rightarrow> ('v, 'o, 'm) store \<Rightarrow> model_Channel \<Rightarrow> model_error + addr" where
  "Head rng S c =
     (let incoming = incoming_edges rng S c;
          heads = filter (\<lambda>a. map_of incoming (mb_Name (bundles S ! a)) = None) (map snd (rng (mc_Bundles c)))
      in if length heads = 0 then Inl NoChannelHead
         else if length heads > 1 then Inl (MultipleHeads (go_sort (<) (map (\<lambda>a. mb_Name (bundles S ! a)) heads)))
         else Inr (heads ! 0))"

text \<open>
  The loop of \<^verbatim>\<open>validateReplacesChain\<close>: the names seen so far and, for each of them, the chain that starts there. It
  ends because the next bundle is found under a key that was not seen before.
\<close>

function replaces_chain ::
    "('v, 'o, 'm) store \<Rightarrow> ptrs \<Rightarrow> addr \<Rightarrow> string list \<Rightarrow> (string \<times> string list) list \<Rightarrow> model_error + string list" where
  "replaces_chain S bs cur replacesChainFromHead chainFrom =
     (let b = bundles S ! cur;
          chainFrom = (if map_of chainFrom (mb_Name b) = None then AList.update (mb_Name b) [mb_Name b] chainFrom else chainFrom);
          chainFrom = map (\<lambda>(k, names). (k, names @ [mb_Replaces b])) chainFrom
      in if mb_Replaces b \<in> set replacesChainFromHead
         then Inl (ReplacesCycle (case map_of chainFrom (mb_Replaces b) of Some names \<Rightarrow> names | None \<Rightarrow> []))
         else case map_of bs (mb_Replaces b) of
                None \<Rightarrow> Inr (mb_Replaces b # replacesChainFromHead)
              | Some next \<Rightarrow> replaces_chain S bs next (mb_Replaces b # replacesChainFromHead) chainFrom)"
  by pat_completeness auto
termination
proof (relation "measure (\<lambda>(S, bs, cur, seen, _). card (fst ` set bs - set seen))", goal_cases)
  case (2 S bs cur seen chainFrom b chainFrom' chainFrom'' a)
  have "mb_Replaces b \<in> fst ` set bs" using 2(5) by (metis domI dom_map_of_conv_image_fst)
  then have "fst ` set bs - set (mb_Replaces b # seen) \<subset> fst ` set bs - set seen" using 2(4) by auto
  then show ?case by (simp add: psubset_card_mono)
qed simp

declare replaces_chain.simps [simp del]

definition validateReplacesChain :: "ranging \<Rightarrow> ('v, 'o, 'm) store \<Rightarrow> model_Channel \<Rightarrow> model_error option" where
  "validateReplacesChain rng S c =
     (case Head rng S c of
        Inl err \<Rightarrow> Some err
      | Inr head \<Rightarrow>
          (let allBundles = map (\<lambda>(k, a). mb_Name (bundles S ! a)) (mc_Bundles c);
               skippedBundles = concat (map (\<lambda>(k, a). mb_Skips (bundles S ! a)) (mc_Bundles c))
           in case replaces_chain S (mc_Bundles c) head [mb_Name (bundles S ! head)] [] of
                Inl err \<Rightarrow> Some err
              | Inr replacesChainFromHead \<Rightarrow>
                  (let stranded = go_sort (<) (remdups (filter (\<lambda>n. n \<notin> set replacesChainFromHead \<and>
                          n \<notin> set skippedBundles) allBundles))
                   in if length stranded > 0 then Some (StrandedBundles stranded) else None)))"

definition Channel_Validate ::
    "('o, 'm) decoders \<Rightarrow> ranging \<Rightarrow> ('v, 'o, 'm) store \<Rightarrow> addr \<Rightarrow> model_error option" where
  "Channel_Validate D rng S a =
     (let c = channels S ! a in
      orNil (InvalidChannel (mc_Name c))
       (err_if (mc_Name c = '''') EmptyChannelName @
        err_if (mc_Package c = None) ChannelPackageUnset @
        err_if (length (mc_Bundles c) = 0) NoBundles @
        (if length (mc_Bundles c) > 0 then opt_err (validateReplacesChain rng S c) else []) @
        concat (map (\<lambda>(name, x).
            err_if (name \<noteq> mb_Name (bundles S ! x)) (BundleKeyMismatch name (mb_Name (bundles S ! x))) @
            opt_err (Bundle_Validate D S x) @
            err_if (mb_Channel (bundles S ! x) \<noteq> Some a) (BundleNotLinked (mb_Name (bundles S ! x))))
          (rng (mc_Bundles c))) @
        err_if (Deprecation_invalid (mc_Deprecation c)) InvalidDeprecation))"

subsection \<open>Packages and the model\<close>

definition package_bundles :: "ranging \<Rightarrow> ('v, 'o, 'm) store \<Rightarrow> model_Package \<Rightarrow> addr list" where
  "package_bundles rng S p = concat (map (\<lambda>(k, c). map snd (rng (mc_Bundles (channels S ! c)))) (rng (mp_Channels p)))"

definition add_version ::
    "'v semver \<Rightarrow> (string \<times> 'v) list \<times> (string \<times> string list) list \<Rightarrow> ('v, 'o, 'm) model_Bundle \<Rightarrow>
     (string \<times> 'v) list \<times> (string \<times> string list) list" where
  "add_version V maps b =
     (case maps of (versionsMap, bundlesWithVersion) \<Rightarrow>
        (let v = sv_String V (mb_Version b);
             names = (case map_of bundlesWithVersion v of None \<Rightarrow> [] | Some names \<Rightarrow> names)
         in (AList.update v (mb_Version b) versionsMap, AList.update v (List.insert (mb_Name b) names) bundlesWithVersion)))"

definition validateUniqueBundleVersions ::
    "'v semver \<Rightarrow> ranging \<Rightarrow> ('v, 'o, 'm) store \<Rightarrow> model_Package \<Rightarrow> model_error option" where
  "validateUniqueBundleVersions V rng S p =
     (let (versionsMap, bundlesWithVersion) =
            foldl (add_version V) ([], []) (map (\<lambda>a. bundles S ! a) (package_bundles rng S p));
          errs = List.map_filter (\<lambda>v.
             let names = go_sort (<) (case map_of bundlesWithVersion (sv_String V v) of None \<Rightarrow> [] | Some names \<Rightarrow> names)
             in if length names > 1 then Some (sv_String V v, names) else None) (sv_Sort V (map snd versionsMap))
      in if length errs > 0 then Some (DuplicateVersions errs) else None)"

definition Package_Validate ::
    "('o, 'm) decoders \<Rightarrow> 'v semver \<Rightarrow> ranging \<Rightarrow> ('v, 'o, 'm) store \<Rightarrow> addr \<Rightarrow> model_error option" where
  "Package_Validate D V rng S a =
     (let p = packages S ! a in
      orNil (InvalidPackage (mp_Name p))
       (err_if (mp_Name p = '''') EmptyPackageName @
        opt_err (Icon_Validate (mp_Icon p)) @
        err_if (mp_DefaultChannel p = None) DefaultChannelUnset @
        err_if (length (mp_Channels p) = 0) NoChannels @
        concat (map (\<lambda>(name, ch).
            err_if (name \<noteq> mc_Name (channels S ! ch)) (ChannelKeyMismatch name (mc_Name (channels S ! ch))) @
            opt_err (Channel_Validate D rng S ch) @
            err_if (mc_Package (channels S ! ch) \<noteq> Some a) (ChannelNotLinked (mc_Name (channels S ! ch))))
          (rng (mp_Channels p))) @
        opt_err (validateUniqueBundleVersions V rng S p) @
        (case mp_DefaultChannel p of
           None \<Rightarrow> []
         | Some d \<Rightarrow> err_if (d \<notin> snd ` set (mp_Channels p)) (DefaultChannelNotFound (mc_Name (channels S ! d)))) @
        err_if (Deprecation_invalid (mp_Deprecation p)) InvalidDeprecation))"

type_synonym Model = ptrs

definition Model_Validate ::
    "('o, 'm) decoders \<Rightarrow> 'v semver \<Rightarrow> ranging \<Rightarrow> ('v, 'o, 'm) store \<Rightarrow> Model \<Rightarrow> model_error option" where
  "Model_Validate D V rng S m =
     orNil InvalidIndex
       (concat (map (\<lambda>(name, p).
          err_if (name \<noteq> mp_Name (packages S ! p)) (PackageKeyMismatch name (mp_Name (packages S ! p))) @
          opt_err (Package_Validate D V rng S p)) (rng m)))"

text \<open>
  \<^verbatim>\<open>Normalize\<close> replaces the values of the properties by their compact form where that exists. Bundles may share the slice
  of their properties, so that a value may be compacted more than once; \<open>normal_idem\<close> shows that this makes no difference.
\<close>

definition normal_property :: "property \<Rightarrow> property" where
  "normal_property p = (case Build_property p of Some normalized \<Rightarrow> normalized | None \<Rightarrow> p)"

lemma normal_idem: "normal_property (normal_property p) = normal_property p"
  by (auto simp: normal_property_def Build_property_def json_Compact_def strip_space_idem)

definition normalize_bundle :: "('v, 'o, 'm) store \<Rightarrow> addr \<Rightarrow> ('v, 'o, 'm) store" where
  "normalize_bundle S a = S\<lparr>bundles := (bundles S)[a := (bundles S ! a)
     \<lparr>mb_Properties := map normal_property (mb_Properties (bundles S ! a))\<rparr>]\<rparr>"

definition Normalize :: "ranging \<Rightarrow> Model \<Rightarrow> ('v, 'o, 'm) store \<Rightarrow> ('v, 'o, 'm) store" where
  "Normalize rng m S =
     foldl normalize_bundle S (concat (map (\<lambda>(k, p). package_bundles rng S (packages S ! p)) (rng m)))"

text \<open>\<^verbatim>\<open>AddBundle\<close>, \<open>None\<close> when the bundle has no package or no channel\<close>

definition AddBundle ::
    "('v, 'o, 'm) model_Bundle \<Rightarrow> Model \<Rightarrow> ('v, 'o, 'm) store \<Rightarrow> (Model \<times> ('v, 'o, 'm) store) option" where
  "AddBundle b m S =
     (case mb_Package b of
        None \<Rightarrow> None
      | Some bp \<Rightarrow>
          (let pname = mp_Name (packages S ! bp);
               m = (if map_of m pname = None then AList.update pname bp m else m)
           in case map_of m pname of
                None \<Rightarrow> None
              | Some p \<Rightarrow>
          (case mb_Channel b of
             None \<Rightarrow> None
           | Some bc \<Rightarrow>
               (let cname = mc_Name (channels S ! bc); a = length (bundles S);
                    (c, S) = (case map_of (mp_Channels (packages S ! p)) cname of
                       Some ch \<Rightarrow> (ch, S)
                     | None \<Rightarrow>
                         (length (channels S), S\<lparr>channels := channels S @
                            [\<lparr>mc_Package = Some p, mc_Name = cname, mc_Bundles = [], mc_Deprecation = None, mc_Properties = []\<rparr>],
                          packages := (packages S)[p := (packages S ! p)
                            \<lparr>mp_Channels := AList.update cname (length (channels S)) (mp_Channels (packages S ! p))\<rparr>]\<rparr>));
                    S = S\<lparr>bundles := bundles S @ [b\<lparr>mb_Package := Some p, mb_Channel := Some c\<rparr>],
                          channels := (channels S)[c := (channels S ! c)
                            \<lparr>mc_Bundles := AList.update (mb_Name b) a (mc_Bundles (channels S ! c))\<rparr>]\<rparr>;
                    S = (if mp_DefaultChannel (packages S ! p) = None
                         then S\<lparr>packages := (packages S)[p := (packages S ! p)\<lparr>mp_DefaultChannel := Some c\<rparr>]\<rparr> else S)
                in Some (m, S)))))"

end
