(* ===== verification/Catalog_Config.thy ===== *)
theory Catalog_Config
  imports Catalog_Model
begin

text \<open>
  File-based catalogs (\<^verbatim>\<open>operator-registry/alpha/declcfg\<close>): the configuration as it is written down, its conversion to
  the model (\<^verbatim>\<open>declcfg_to_model.go\<close>) and back (\<^verbatim>\<open>model_to_declcfg.go\<close>). The conversion runs over packages, channels,
  bundles and deprecations in turn and stops at the first error; each loop is a function of its own. The check of
  DNS labels is that of the Kubernetes library, a parameter.
\<close>

subsection \<open>Configurations\<close>

definition SchemaPackage :: string where "SchemaPackage = ''olm.package''"
definition SchemaChannel :: string where "SchemaChannel = ''olm.channel''"
definition SchemaBundle :: string where "SchemaBundle = ''olm.bundle''"

record cfg_Package =
  dp_Schema :: string
  dp_Name :: string
  dp_DefaultChannel :: string
  dp_Icon :: "model_Icon option"
  dp_Description :: string
  dp_Properties :: "property list"

record ChannelEntry =
  de_Name :: string
  de_Replaces :: string
  de_Skips :: "string list"
  de_SkipRange :: string

record cfg_Channel =
  dc_Schema :: string
  dc_Name :: string
  dc_Package :: string
  dc_Entries :: "ChannelEntry list"
  dc_Properties :: "property list"

record cfg_RelatedImage =
  dr_Name :: string
  dr_Image :: string

record cfg_Bundle =
  db_Schema :: string
  db_Name :: string
  db_Package :: string
  db_Image :: string
  db_Properties :: "property list"
  db_RelatedImages :: "cfg_RelatedImage list"
  db_CsvJSON :: string
  db_Objects :: "string list"

record PackageScopedReference =
  rf_Schema :: string
  rf_Name :: string

record DeprecationEntry =
  dd_Reference :: PackageScopedReference
  dd_Message :: string

record cfg_Deprecation =
  dx_Schema :: string
  dx_Package :: string
  dx_Entries :: "DeprecationEntry list"

record cfg_Meta =
  meta_Schema :: string
  meta_Package :: string
  meta_Name :: string
  meta_Blob :: string

record DeclarativeConfig =
  cfg_Packages :: "cfg_Package list"
  cfg_Channels :: "cfg_Channel list"
  cfg_Bundles :: "cfg_Bundle list"
  cfg_Deprecations :: "cfg_Deprecation list"
  cfg_Others :: "cfg_Meta list"

definition cfg_Merge :: "DeclarativeConfig \<Rightarrow> DeclarativeConfig \<Rightarrow> DeclarativeConfig" where
  "cfg_Merge destination src =
     \<lparr>cfg_Packages = cfg_Packages destination @ cfg_Packages src, cfg_Channels = cfg_Channels destination @ cfg_Channels src,
      cfg_Bundles = cfg_Bundles destination @ cfg_Bundles src,
      cfg_Deprecations = cfg_Deprecations destination @ cfg_Deprecations src,
      cfg_Others = cfg_Others destination @ cfg_Others src\<rparr>"

datatype config_error =
    PackageWithoutName
  | DuplicatePackage string
  | InvalidPackageName string "string list"
  | UnknownPackageOfChannel string string
  | ChannelWithoutName string
  | DuplicateChannel string string
  | DuplicateEntry string string string
  | BundleWithoutPackage string
  | UnknownPackageOfBundle string string
  | DuplicateBundle string string
  | UnparsedProperties string ParseError
  | PackageProperties string string nat
  | PackagePropertyMismatch string string
  | UnparsedVersion string string
  | BundleNotInChannels string string
  | EntriesWithoutBundles string "string list"
  | DeprecationWithoutPackage nat
  | DeprecationOfUnknownPackage string
  | DuplicateDeprecation string
  | ReferenceWithoutSchema string nat
  | DuplicateReference PackageScopedReference string
  | DeprecatedBundleNotFound string string
  | DeprecatedChannelNotFound string string
  | DeprecatedPackageNamed string string
  | UnknownReferenceSchema PackageScopedReference nat string
  | InvalidModel model_error

subsection \<open>Conversion to the model\<close>

text \<open>The variables of \<^verbatim>\<open>ConvertToModel\<close>; a set of names is a list without duplicates.\<close>

record ('v, 'o, 'm) conversion =
  cv_store :: "('v, 'o, 'm) store"
  cv_mpkgs :: Model
  cv_defaultChannels :: "(string \<times> string) list"
  cv_channelDefinedEntries :: "(string \<times> string list) list"
  cv_packageBundles :: "(string \<times> string list) list"

definition names_at :: "(string \<times> string list) list \<Rightarrow> string \<Rightarrow> string list" where
  "names_at m k = (case map_of m k of None \<Rightarrow> [] | Some names \<Rightarrow> names)"

definition new_package :: "cfg_Package \<Rightarrow> model_Package" where
  "new_package p = \<lparr>mp_Name = dp_Name p, mp_Description = dp_Description p, mp_Icon = dp_Icon p, mp_DefaultChannel = None,
     mp_Channels = [], mp_Deprecation = None\<rparr>"

definition convert_package ::
    "(string \<Rightarrow> string list) \<Rightarrow> cfg_Package \<Rightarrow> ('v, 'o, 'm) conversion \<Rightarrow> config_error + ('v, 'o, 'm) conversion" where
  "convert_package IsDNS1123Label p cv =
     (if dp_Name p = '''' then Inl PackageWithoutName
      else if map_of (cv_mpkgs cv) (dp_Name p) \<noteq> None then Inl (DuplicatePackage (dp_Name p))
      else if length (IsDNS1123Label (dp_Name p)) > 0 then Inl (InvalidPackageName (dp_Name p) (IsDNS1123Label (dp_Name p)))
      else Inr (cv\<lparr>cv_store := (cv_store cv)\<lparr>packages := packages (cv_store cv) @ [new_package p]\<rparr>,
                   cv_defaultChannels := AList.update (dp_Name p) (dp_DefaultChannel p) (cv_defaultChannels cv),
                   cv_mpkgs := AList.update (dp_Name p) (length (packages (cv_store cv))) (cv_mpkgs cv)\<rparr>))"

text \<open>A loop that stops at the first error\<close>

fun each :: "('a \<Rightarrow> 's \<Rightarrow> 'e + 's) \<Rightarrow> 'a list \<Rightarrow> 's \<Rightarrow> 'e + 's" where
  "each f [] s = Inr s"
| "each f (x # xs) s = (case f x s of Inl e \<Rightarrow> Inl e | Inr s \<Rightarrow> each f xs s)"

definition new_bundle :: "'v semver \<Rightarrow> addr \<Rightarrow> addr \<Rightarrow> ChannelEntry \<Rightarrow> ('v, 'o, 'm) model_Bundle" where
  "new_bundle V pkg ch entry =
     \<lparr>mb_Package = Some pkg, mb_Channel = Some ch, mb_Name = de_Name entry, mb_Image = '''',
      mb_Replaces = de_Replaces entry, mb_Skips = de_Skips entry, mb_SkipRange = de_SkipRange entry, mb_Properties = [],
      mb_RelatedImages = [], mb_Deprecation = None, mb_Objects = [], mb_CsvJSON = '''', mb_PropertiesP = None,
      mb_Version = sv_zero V\<rparr>"

text \<open>The loop over the entries of a channel: the bundles allocated so far, the channel's map and the set \<^verbatim>\<open>cde\<close>\<close>

fun convert_entries ::
    "'v semver \<Rightarrow> cfg_Channel \<Rightarrow> addr \<Rightarrow> addr \<Rightarrow> ChannelEntry list \<Rightarrow>
     ('v, 'o, 'm) model_Bundle list \<times> ptrs \<times> string list \<Rightarrow>
     config_error + ('v, 'o, 'm) model_Bundle list \<times> ptrs \<times> string list" where
  "convert_entries V c pkg ch [] s = Inr s"
| "convert_entries V c pkg ch (entry # entries) (bs, map', cde) =
     (if map_of map' (de_Name entry) \<noteq> None
      then Inl (DuplicateEntry (dc_Package c) (dc_Name c) (de_Name entry))
      else convert_entries V c pkg ch entries
             (bs @ [new_bundle V pkg ch entry], AList.update (de_Name entry) (length bs) map', List.insert (de_Name entry) cde))"

definition convert_channel ::
    "'v semver \<Rightarrow> cfg_Channel \<Rightarrow> ('v, 'o, 'm) conversion \<Rightarrow> config_error + ('v, 'o, 'm) conversion" where
  "convert_channel V c cv =
     (let S = cv_store cv; ch = length (channels S) in
      case map_of (cv_mpkgs cv) (dc_Package c) of
        None \<Rightarrow> Inl (UnknownPackageOfChannel (dc_Package c) (dc_Name c))
      | Some mpkg \<Rightarrow>
          (if dc_Name c = '''' then Inl (ChannelWithoutName (dc_Package c))
           else if map_of (mp_Channels (packages S ! mpkg)) (dc_Name c) \<noteq> None
           then Inl (DuplicateChannel (dc_Package c) (dc_Name c))
           else case convert_entries V c mpkg ch (dc_Entries c) (bundles S, [], []) of
             Inl err \<Rightarrow> Inl err
           | Inr (bs, entries, cde) \<Rightarrow>
               (let p = packages S ! mpkg;
                    p = p\<lparr>mp_Channels := AList.update (dc_Name c) ch (mp_Channels p)\<rparr>;
                    p = (if map_of (cv_defaultChannels cv) (dc_Package c) = Some (dc_Name c)
                         then p\<lparr>mp_DefaultChannel := Some ch\<rparr> else p)
                in Inr (cv\<lparr>cv_store := \<lparr>packages = (packages S)[mpkg := p],
                             channels = channels S @ [\<lparr>mc_Package = Some mpkg, mc_Name = dc_Name c, mc_Bundles = entries,
                                          mc_Deprecation = None, mc_Properties = dc_Properties c\<rparr>],
                             bundles = bs\<rparr>,
                           cv_channelDefinedEntries := AList.update (dc_Package c) cde (cv_channelDefinedEntries cv)\<rparr>))))"

definition relatedImagesToModelRelatedImages :: "cfg_RelatedImage list \<Rightarrow> model_RelatedImage list" where
  "relatedImagesToModelRelatedImages xs = map (\<lambda>p. \<lparr>ri_Name = dr_Name p, ri_Image = dr_Image p\<rparr>) xs"

definition fill_bundle ::
    "cfg_Bundle \<Rightarrow> ('o, 'm) Properties \<Rightarrow> 'v \<Rightarrow> ('v, 'o, 'm) model_Bundle \<Rightarrow> ('v, 'o, 'm) model_Bundle" where
  "fill_bundle b props ver mb =
     mb\<lparr>mb_Image := db_Image b, mb_Properties := db_Properties b,
        mb_RelatedImages := relatedImagesToModelRelatedImages (db_RelatedImages b), mb_CsvJSON := db_CsvJSON b,
        mb_Objects := db_Objects b, mb_PropertiesP := Some props, mb_Version := ver\<rparr>"

text \<open>The addresses of the bundles of a name in the channels of a package\<close>

definition bundles_named :: "ranging \<Rightarrow> ('v, 'o, 'm) store \<Rightarrow> addr \<Rightarrow> string \<Rightarrow> addr list" where
  "bundles_named rng S mpkg name =
     List.map_filter (\<lambda>(k, ch). map_of (mc_Bundles (channels S ! ch)) name) (rng (mp_Channels (packages S ! mpkg)))"

definition update_bundles ::
    "(('v, 'o, 'm) model_Bundle \<Rightarrow> ('v, 'o, 'm) model_Bundle) \<Rightarrow> addr list \<Rightarrow> ('v, 'o, 'm) store \<Rightarrow> ('v, 'o, 'm) store" where
  "update_bundles f as S = S\<lparr>bundles := foldl (\<lambda>bs a. bs[a := f (bs ! a)]) (bundles S) as\<rparr>"

definition convert_bundle ::
    "('o, 'm) decoders \<Rightarrow> 'v semver \<Rightarrow> ranging \<Rightarrow> cfg_Bundle \<Rightarrow> ('v, 'o, 'm) conversion \<Rightarrow>
     config_error + ('v, 'o, 'm) conversion" where
  "convert_bundle D V rng b cv =
     (if db_Package b = '''' then Inl (BundleWithoutPackage (db_Name b)) else
      case map_of (cv_mpkgs cv) (db_Package b) of
        None \<Rightarrow> Inl (UnknownPackageOfBundle (db_Package b) (db_Name b))
      | Some mpkg \<Rightarrow>
          (let known = names_at (cv_packageBundles cv) (db_Package b) in
           if db_Name b \<in> set known then Inl (DuplicateBundle (db_Package b) (db_Name b)) else
           case property_Parse D (db_Properties b) of
             Inl err \<Rightarrow> Inl (UnparsedProperties (db_Name b) err)
           | Inr props \<Rightarrow>
               (case ps_Packages props of
                  [pkg] \<Rightarrow>
                    (if db_Package b \<noteq> pp_PackageName pkg then Inl (PackagePropertyMismatch (db_Package b) (pp_PackageName pkg)) else
                     case sv_Parse V (pp_Version pkg) of
                       None \<Rightarrow> Inl (UnparsedVersion (db_Name b) (pp_Version pkg))
                     | Some ver \<Rightarrow>
                         (let found = bundles_named rng (cv_store cv) mpkg (db_Name b) in
                          if found = [] then Inl (BundleNotInChannels (db_Package b) (db_Name b))
                          else Inr (cv\<lparr>cv_store := update_bundles (fill_bundle b props ver) found (cv_store cv),
                            cv_packageBundles := AList.update (db_Package b) (db_Name b # known) (cv_packageBundles cv),
                            cv_channelDefinedEntries := AList.update (db_Package b)
                              (remove1 (db_Name b) (names_at (cv_channelDefinedEntries cv) (db_Package b)))
                              (cv_channelDefinedEntries cv)\<rparr>)))
                | pkgs \<Rightarrow> Inl (PackageProperties (db_Package b) (db_Name b) (length pkgs)))))"

text \<open>Entries no bundle was found for\<close>

definition missing_bundles :: "(string \<times> string list) list \<Rightarrow> config_error option" where
  "missing_bundles defined =
     map_option (\<lambda>(pkg, entries). EntriesWithoutBundles pkg (go_sort (<) entries)) (find (\<lambda>(pkg, entries). length entries > 0) defined)"

text \<open>A default channel that is named but not defined becomes an empty channel, which validation rejects.\<close>

definition default_channel ::
    "(string \<times> string) list \<Rightarrow> ('v, 'o, 'm) store \<Rightarrow> addr \<Rightarrow> ('v, 'o, 'm) store" where
  "default_channel defaults S mpkg =
     (let p = packages S ! mpkg; name = (case map_of defaults (mp_Name p) of Some n \<Rightarrow> n | None \<Rightarrow> '''');
          dch = length (channels S)
      in if name \<noteq> '''' \<and> mp_DefaultChannel p = None
         then S\<lparr>channels := channels S @ [\<lparr>mc_Package = Some mpkg, mc_Name = name, mc_Bundles = [], mc_Deprecation = None,
                                            mc_Properties = []\<rparr>],
                packages := (packages S)[mpkg := p\<lparr>mp_DefaultChannel := Some dch,
                                                   mp_Channels := AList.update name dch (mp_Channels p)\<rparr>]\<rparr>
         else S)"

subsection \<open>Deprecations\<close>

definition deprecate_entry ::
    "ranging \<Rightarrow> (string \<times> string list) list \<Rightarrow> string \<Rightarrow> addr \<Rightarrow> nat \<times> DeprecationEntry \<Rightarrow>
     PackageScopedReference list \<times> ('v, 'o, 'm) store \<Rightarrow> config_error + PackageScopedReference list \<times> ('v, 'o, 'm) store" where
  "deprecate_entry rng packageBundles pkg mpkg entry s =
     (case (entry, s) of ((j, entry), (references, S)) \<Rightarrow>
       (let r = dd_Reference entry; message = Some (dd_Message entry) in
        if rf_Schema r = '''' then Inl (ReferenceWithoutSchema pkg j)
        else if r \<in> set references then Inl (DuplicateReference r pkg)
        else if rf_Schema r = SchemaBundle
        then (if rf_Name r \<notin> set (names_at packageBundles pkg) then Inl (DeprecatedBundleNotFound (rf_Name r) pkg)
              else Inr (r # references, update_bundles (\<lambda>b. b\<lparr>mb_Deprecation := message\<rparr>) (bundles_named rng S mpkg (rf_Name r)) S))
        else if rf_Schema r = SchemaChannel
        then (case map_of (mp_Channels (packages S ! mpkg)) (rf_Name r) of
                None \<Rightarrow> Inl (DeprecatedChannelNotFound (rf_Name r) pkg)
              | Some ch \<Rightarrow> Inr (r # references,
                  S\<lparr>channels := (channels S)[ch := (channels S ! ch)\<lparr>mc_Deprecation := message\<rparr>]\<rparr>))
        else if rf_Schema r = SchemaPackage
        then (if rf_Name r \<noteq> '''' then Inl (DeprecatedPackageNamed pkg (rf_Name r))
              else Inr (r # references,
                S\<lparr>packages := (packages S)[mpkg := (packages S ! mpkg)\<lparr>mp_Deprecation := message\<rparr>]\<rparr>))
        else Inl (UnknownReferenceSchema r j pkg)))"

definition deprecate ::
    "ranging \<Rightarrow> Model \<Rightarrow> (string \<times> string list) list \<Rightarrow> nat \<times> cfg_Deprecation \<Rightarrow> string list \<times> ('v, 'o, 'm) store \<Rightarrow>
     config_error + string list \<times> ('v, 'o, 'm) store" where
  "deprecate rng mpkgs packageBundles deprecation s =
     (case (deprecation, s) of ((i, d), (deprecationsByPackage, S)) \<Rightarrow>
        (if dx_Package d = '''' then Inl (DeprecationWithoutPackage i) else
         case map_of mpkgs (dx_Package d) of
           None \<Rightarrow> Inl (DeprecationOfUnknownPackage (dx_Package d))
         | Some mpkg \<Rightarrow>
             (if dx_Package d \<in> set deprecationsByPackage then Inl (DuplicateDeprecation (dx_Package d))
              else map_sum id (\<lambda>(references, S). (dx_Package d # deprecationsByPackage, S))
                     (each (deprecate_entry rng packageBundles (dx_Package d) mpkg)
                       (zip [0..<length (dx_Entries d)] (dx_Entries d)) ([], S)))))"

definition empty_store :: "('v, 'o, 'm) store" where
  "empty_store = \<lparr>packages = [], channels = [], bundles = []\<rparr>"

definition start_conversion :: "('v, 'o, 'm) conversion" where
  "start_conversion = \<lparr>cv_store = empty_store, cv_mpkgs = [], cv_defaultChannels = [], cv_channelDefinedEntries = [],
     cv_packageBundles = []\<rparr>"

text \<open>The three loops over packages, channels and bundles\<close>

definition convert_blobs ::
    "(string \<Rightarrow> string list) \<Rightarrow> ('o, 'm) decoders \<Rightarrow> 'v semver \<Rightarrow> ranging \<Rightarrow> DeclarativeConfig \<Rightarrow>
     config_error + ('v, 'o, 'm) conversion" where
  "convert_blobs IsDNS1123Label D V rng cfg =
     (case each (convert_package IsDNS1123Label) (cfg_Packages cfg) start_conversion of
        Inl err \<Rightarrow> Inl err
      | Inr cv \<Rightarrow>
      case each (convert_channel V) (cfg_Channels cfg) cv of
        Inl err \<Rightarrow> Inl err
      | Inr cv \<Rightarrow> each (convert_bundle D V rng) (cfg_Bundles cfg) cv)"

definition ConvertToModel ::
    "(string \<Rightarrow> string list) \<Rightarrow> ('o, 'm) decoders \<Rightarrow> 'v semver \<Rightarrow> ranging \<Rightarrow> DeclarativeConfig \<Rightarrow>
     config_error + Model \<times> ('v, 'o, 'm) store" where
  "ConvertToModel IsDNS1123Label D V rng cfg =
     (case convert_blobs IsDNS1123Label D V rng cfg of
        Inl err \<Rightarrow> Inl err
      | Inr cv \<Rightarrow>
      case missing_bundles (cv_channelDefinedEntries cv) of
        Some err \<Rightarrow> Inl err
      | None \<Rightarrow>
      case each (deprecate rng (cv_mpkgs cv) (cv_packageBundles cv))
             (zip [0..<length (cfg_Deprecations cfg)] (cfg_Deprecations cfg))
             ([], foldl (default_channel (cv_defaultChannels cv)) (cv_store cv) (map snd (rng (cv_mpkgs cv)))) of
        Inl err \<Rightarrow> Inl err
      | Inr (_, S) \<Rightarrow>
      case Model_Validate D V rng S (cv_mpkgs cv) of
        Some err \<Rightarrow> Inl (InvalidModel err)
      | None \<Rightarrow> Inr (cv_mpkgs cv, Normalize rng (cv_mpkgs cv) S))"

subsection \<open>Conversion from the model\<close>

definition ModelRelatedImagesToRelatedImages :: "model_RelatedImage list \<Rightarrow> cfg_RelatedImage list" where
  "ModelRelatedImagesToRelatedImages xs = map (\<lambda>ri. \<lparr>dr_Name = ri_Name ri, dr_Image = ri_Image ri\<rparr>) xs"

definition entry_of_model :: "('v, 'o, 'm) model_Bundle \<Rightarrow> ChannelEntry" where
  "entry_of_model b = \<lparr>de_Name = mb_Name b, de_Replaces = mb_Replaces b, de_Skips = mb_Skips b, de_SkipRange = mb_SkipRange b\<rparr>"

text \<open>Names behind a nil pointer: the code panics.\<close>

datatype panic = NilPointer

definition package_name :: "('v, 'o, 'm) store \<Rightarrow> addr option \<Rightarrow> panic + string" where
  "package_name S p = (case p of None \<Rightarrow> Inl NilPointer | Some a \<Rightarrow> Inr (mp_Name (packages S ! a)))"

definition add_channel_of ::
    "ranging \<Rightarrow> ('v, 'o, 'm) store \<Rightarrow> string \<times> addr \<Rightarrow> cfg_Channel list \<Rightarrow> panic + cfg_Channel list" where
  "add_channel_of rng S kc cs =
     (let ch = channels S ! snd kc in
      map_sum id (\<lambda>pkg. cs @
        [\<lparr>dc_Schema = SchemaChannel, dc_Name = mc_Name ch, dc_Package = pkg,
          dc_Entries = go_sort (\<lambda>x y. de_Name x < de_Name y) (map (\<lambda>(k, a). entry_of_model (bundles S ! a)) (rng (mc_Bundles ch))),
          dc_Properties = mc_Properties ch\<rparr>])
       (package_name S (mc_Package ch)))"

definition add_bundle_of ::
    "('v, 'o, 'm) store \<Rightarrow> addr \<Rightarrow> (string \<times> cfg_Bundle) list \<Rightarrow> panic + (string \<times> cfg_Bundle) list" where
  "add_bundle_of S a bundleMap =
     (let chb = bundles S ! a in
      map_sum id (\<lambda>b. AList.update (mb_Name chb) (b\<lparr>db_Properties := db_Properties b @ mb_Properties chb\<rparr>) bundleMap)
       (case map_of bundleMap (mb_Name chb) of
          Some b \<Rightarrow> Inr b
        | None \<Rightarrow>
            map_sum id (\<lambda>pkg. \<lparr>db_Schema = SchemaBundle, db_Name = mb_Name chb, db_Package = pkg, db_Image = mb_Image chb,
               db_Properties = [], db_RelatedImages = ModelRelatedImagesToRelatedImages (mb_RelatedImages chb),
               db_CsvJSON = mb_CsvJSON chb, db_Objects = mb_Objects chb\<rparr>) (package_name S (mb_Package chb))))"

definition property_Less :: "property \<Rightarrow> property \<Rightarrow> bool" where
  "property_Less p q =
     (if pr_Type p \<noteq> pr_Type q then pr_Type p < pr_Type q else pr_Value p < pr_Value q)"

definition finish_bundle :: "cfg_Bundle \<Rightarrow> cfg_Bundle" where
  "finish_bundle b = b\<lparr>db_Properties := go_sort property_Less (Deduplicate (db_Properties b))\<rparr>"

text \<open>The loops over channels and over their bundles are independent, so they stand one after the other.\<close>

definition traverseModelChannels ::
    "ranging \<Rightarrow> ('v, 'o, 'm) store \<Rightarrow> model_Package \<Rightarrow> panic + cfg_Channel list \<times> cfg_Bundle list" where
  "traverseModelChannels rng S p =
     (case each (add_channel_of rng S) (rng (mp_Channels p)) [] of
        Inl e \<Rightarrow> Inl e
      | Inr cs \<Rightarrow>
          map_sum id (\<lambda>bundleMap. (cs, map (\<lambda>(k, b). finish_bundle b) bundleMap))
            (each (add_bundle_of S) (package_bundles rng S p) []))"

definition package_of :: "('v, 'o, 'm) store \<Rightarrow> model_Package \<Rightarrow> cfg_Package" where
  "package_of S p =
     \<lparr>dp_Schema = SchemaPackage, dp_Name = mp_Name p,
      dp_DefaultChannel = (case mp_DefaultChannel p of None \<Rightarrow> '''' | Some d \<Rightarrow> mc_Name (channels S ! d)),
      dp_Icon = mp_Icon p, dp_Description = mp_Description p, dp_Properties = []\<rparr>"

definition add_package_of ::
    "ranging \<Rightarrow> ('v, 'o, 'm) store \<Rightarrow> string \<times> addr \<Rightarrow> DeclarativeConfig \<Rightarrow> panic + DeclarativeConfig" where
  "add_package_of rng S kp cfg =
     map_sum id (\<lambda>(cs, bs). cfg\<lparr>cfg_Packages := cfg_Packages cfg @ [package_of S (packages S ! snd kp)],
                                cfg_Channels := cfg_Channels cfg @ cs, cfg_Bundles := cfg_Bundles cfg @ bs\<rparr>)
       (traverseModelChannels rng S (packages S ! snd kp))"

definition cfg_channel_Less :: "cfg_Channel \<Rightarrow> cfg_Channel \<Rightarrow> bool" where
  "cfg_channel_Less x y = (if dc_Package x \<noteq> dc_Package y then dc_Package x < dc_Package y else dc_Name x < dc_Name y)"

definition cfg_bundle_Less :: "cfg_Bundle \<Rightarrow> cfg_Bundle \<Rightarrow> bool" where
  "cfg_bundle_Less x y = (if db_Package x \<noteq> db_Package y then db_Package x < db_Package y else db_Name x < db_Name y)"

definition empty_config :: DeclarativeConfig where
  "empty_config = \<lparr>cfg_Packages = [], cfg_Channels = [], cfg_Bundles = [], cfg_Deprecations = [], cfg_Others = []\<rparr>"

definition ConvertFromModel :: "ranging \<Rightarrow> Model \<Rightarrow> ('v, 'o, 'm) store \<Rightarrow> panic + DeclarativeConfig" where
  "ConvertFromModel rng m S =
     map_sum id (\<lambda>cfg. cfg\<lparr>cfg_Packages := go_sort (\<lambda>x y. dp_Name x < dp_Name y) (cfg_Packages cfg),
                           cfg_Channels := go_sort cfg_channel_Less (cfg_Channels cfg),
                           cfg_Bundles := go_sort cfg_bundle_Less (cfg_Bundles cfg)\<rparr>)
       (each (add_package_of rng S) (rng m) empty_config)"

end
