(* ===== verification/Catalog_Valid.thy ===== *)
theory Catalog_Valid
  imports Catalog_Model
begin

text \<open>
  What validation of a catalog model accepts. The comment of \<^verbatim>\<open>validateReplacesChain\<close> is the specification
  \<open>upgrade_graph\<close>: one head, and a chain of replacements from the head that reaches every bundle no other one skips,
  without a cycle; only the last of the chain may replace a bundle the channel does not have.
\<close>

subsection \<open>Upgrade graphs\<close>

definition channel_bundles :: "('v, 'o, 'm) store \<Rightarrow> model_Channel \<Rightarrow> ('v, 'o, 'm) model_Bundle list" where
  "channel_bundles S c = map (\<lambda>(k, a). bundles S ! a) (mc_Bundles c)"

definition overtaken :: "('v, 'o, 'm) model_Bundle list \<Rightarrow> ('v, 'o, 'm) model_Bundle \<Rightarrow> bool" where
  "overtaken bs b \<longleftrightarrow>
     (\<exists>b' \<in> set bs. mb_Replaces b' \<noteq> '''' \<and> mb_Name b = mb_Replaces b' \<or> mb_Name b \<in> set (mb_Skips b'))"

definition named :: "('v, 'o, 'm) model_Bundle list \<Rightarrow> string \<Rightarrow> ('v, 'o, 'm) model_Bundle option" where
  "named bs n = find (\<lambda>b. mb_Name b = n) bs"

fun replaces_path :: "('v, 'o, 'm) model_Bundle list \<Rightarrow> ('v, 'o, 'm) model_Bundle list \<Rightarrow> bool" where
  "replaces_path bs [] = False"
| "replaces_path bs [b] \<longleftrightarrow> named bs (mb_Replaces b) = None"
| "replaces_path bs (b # c # path) \<longleftrightarrow> named bs (mb_Replaces b) = Some c \<and> replaces_path bs (c # path)"

definition upgrade_graph :: "('v, 'o, 'm) model_Bundle list \<Rightarrow> bool" where
  "upgrade_graph bs \<longleftrightarrow>
     (\<exists>head path. filter (\<lambda>b. \<not> overtaken bs b) bs = [head] \<and> replaces_path bs (head # path) \<and>
        distinct (map mb_Name (head # path)) \<and>
        (\<forall>b \<in> set bs. mb_Name b \<in> mb_Name ` set (head # path) \<or> (\<exists>b' \<in> set bs. mb_Name b \<in> set (mb_Skips b'))))"

definition keys_match :: "('v, 'o, 'm) store \<Rightarrow> ptrs \<Rightarrow> bool" where
  "keys_match S bs \<longleftrightarrow> (\<forall>(k, a) \<in> set bs. k = mb_Name (bundles S ! a))"

text \<open>Ranging over a map visits each of its entries once.\<close>

definition permutes :: "ranging \<Rightarrow> bool" where
  "permutes rng \<longleftrightarrow> (\<forall>xs. mset (rng xs) = mset xs)"

lemma permutes_set: "permutes rng \<Longrightarrow> set (rng xs) = set xs"
  unfolding permutes_def by (metis set_mset_mset)

lemma permutes_length: "permutes rng \<Longrightarrow> length (rng xs) = length xs"
  unfolding permutes_def by (metis size_mset)

lemma named_Some: "named bs n = Some b \<Longrightarrow> b \<in> set bs \<and> mb_Name b = n"
  by (auto simp: named_def find_Some_iff)

lemma named_None: "named bs n = None \<longleftrightarrow> n \<notin> mb_Name ` set bs"
  by (auto simp: named_def find_None_iff)

lemma named_channel: "keys_match S (mc_Bundles c) \<Longrightarrow> named (channel_bundles S c) n = map_option (\<lambda>a. bundles S ! a) (map_of (mc_Bundles c) n)"
proof -
  have "find (\<lambda>b. mb_Name b = n) (map (\<lambda>(k, a). bundles S ! a) bs) = map_option (\<lambda>a. bundles S ! a) (map_of bs n)"
    if "keys_match S bs" for bs
    using that by (induction bs) (auto simp: keys_match_def)
  then show "keys_match S (mc_Bundles c) \<Longrightarrow> ?thesis" by (simp add: named_def channel_bundles_def)
qed

lemma replaces_path_names:
  "replaces_path bs (b # path) \<Longrightarrow>
   map mb_Replaces (b # path) = map mb_Name path @ [mb_Replaces (last (b # path))] \<and> set path \<subseteq> set bs \<and>
   mb_Replaces (last (b # path)) \<notin> mb_Name ` set bs"
proof (induction path arbitrary: b)
  case Nil
  then show ?case by (simp add: named_None)
next
  case (Cons c path)
  then show ?case using Cons.IH [of c] named_Some [of bs "mb_Replaces b" c] by auto
qed

subsection \<open>Heads\<close>

lemma bump_dom [simp]: "dom (map_of (bump k m)) = insert k (dom (map_of m))"
  by (simp add: bump_def alist_simps)

lemma bumps_dom: "dom (map_of (foldl (\<lambda>m k. bump k m) m ks)) = dom (map_of m) \<union> set ks"
  by (induction ks arbitrary: m) auto

lemma incoming_edges_dom:
  "dom (map_of (incoming_edges rng S c)) =
   {n. \<exists>(k, a) \<in> set (rng (mc_Bundles c)). mb_Replaces (bundles S ! a) \<noteq> '''' \<and> n = mb_Replaces (bundles S ! a) \<or>
      n \<in> set (mb_Skips (bundles S ! a))}"
proof -
  let ?f = "\<lambda>incoming (k, a). let b = bundles S ! a;
            incoming = (if mb_Replaces b \<noteq> '''' then bump (mb_Replaces b) incoming else incoming)
        in foldl (\<lambda>incoming skip. bump skip incoming) incoming (mb_Skips b)"
  have "dom (map_of (foldl ?f m bs)) = dom (map_of m) \<union>
     {n. \<exists>(k, a) \<in> set bs. mb_Replaces (bundles S ! a) \<noteq> '''' \<and> n = mb_Replaces (bundles S ! a) \<or> n \<in> set (mb_Skips (bundles S ! a))}"
    for m :: "(string \<times> nat) list" and bs :: ptrs
  proof (induction bs arbitrary: m)
    case (Cons x bs)
    obtain k a where x: "x = (k, a)" by force
    show ?case unfolding foldl_Cons Cons.IH x by (auto simp: bumps_dom Let_def)
  qed simp
  from this [of "[]" "rng (mc_Bundles c)"] show ?thesis by (simp add: incoming_edges_def)
qed

lemma incoming_superseded:
  assumes "permutes rng"
  shows "map_of (incoming_edges rng S c) (mb_Name b) = None \<longleftrightarrow> \<not> overtaken (channel_bundles S c) b"
proof -
  have "map_of (incoming_edges rng S c) (mb_Name b) = None \<longleftrightarrow> mb_Name b \<notin> dom (map_of (incoming_edges rng S c))"
    by (simp add: domIff)
  also have "\<dots> \<longleftrightarrow> \<not> overtaken (channel_bundles S c) b"
    unfolding incoming_edges_dom permutes_set [OF assms] by (auto simp: overtaken_def channel_bundles_def)
  finally show ?thesis .
qed

lemma Head_unique:
  assumes "permutes rng"
  shows "(\<exists>a. Head rng S c = Inr a \<and> bundles S ! a = h) \<longleftrightarrow>
    filter (\<lambda>b. \<not> overtaken (channel_bundles S c) b) (channel_bundles S c) = [h]"
  and "Head rng S c = Inr a \<Longrightarrow> a \<in> snd ` set (mc_Bundles c)"
proof -
  let ?P = "\<lambda>a. map_of (incoming_edges rng S c) (mb_Name (bundles S ! a)) = None"
  let ?hs = "filter ?P (map snd (rng (mc_Bundles c)))" and ?hs' = "filter ?P (map snd (mc_Bundles c))"
  have m: "mset ?hs = mset ?hs'" using assms by (simp add: permutes_def mset_filter mset_map)
  have "filter (\<lambda>b. \<not> overtaken (channel_bundles S c) b) (channel_bundles S c) = map (\<lambda>a. bundles S ! a) ?hs'"
    by (simp add: incoming_superseded [OF assms]) (simp add: channel_bundles_def filter_map o_def case_prod_beta)
  moreover have hs: "Head rng S c = Inr a \<longleftrightarrow> ?hs = [a]" for a
    by (cases ?hs) (auto simp: Head_def Let_def)
  moreover have "?hs = [a] \<longleftrightarrow> ?hs' = [a]" for a
    using m by (metis mset_eq_length mset_single_iff_right union_code(1) mset_eq_setD)
  ultimately show "(\<exists>a. Head rng S c = Inr a \<and> bundles S ! a = h) \<longleftrightarrow>
      filter (\<lambda>b. \<not> overtaken (channel_bundles S c) b) (channel_bundles S c) = [h]"
    by (auto simp: map_eq_Cons_conv)
  show "a \<in> snd ` set (mc_Bundles c)" if "Head rng S c = Inr a"
  proof -
    have "a \<in> set ?hs" using that by (simp only: hs) simp
    then show ?thesis using permutes_set [OF assms, of "mc_Bundles c"] by auto
  qed
qed

subsection \<open>The chain of replacements\<close>

lemma chain_complete:
  assumes "keys_match S (mc_Bundles c)"
  shows "replaces_path (channel_bundles S c) (bundles S ! cur # path) \<Longrightarrow>
    distinct (map mb_Replaces (bundles S ! cur # path)) \<Longrightarrow> set (map mb_Replaces (bundles S ! cur # path)) \<inter> set seen = {} \<Longrightarrow>
    replaces_chain S (mc_Bundles c) cur seen cf = Inr (rev (map mb_Replaces (bundles S ! cur # path)) @ seen)"
proof (induction path arbitrary: cur seen cf)
  case Nil
  then show ?case using named_channel [OF assms] by (subst replaces_chain.simps) (simp add: Let_def)
next
  case (Cons b path)
  obtain next' where n: "map_of (mc_Bundles c) (mb_Replaces (bundles S ! cur)) = Some next'" "b = bundles S ! next'"
    using Cons.prems(1) named_channel [OF assms, of "mb_Replaces (bundles S ! cur)"] by auto
  show ?case using Cons.prems n Cons.IH [of next' "mb_Replaces (bundles S ! cur) # seen"]
    by (subst replaces_chain.simps) (simp add: Let_def)
qed

lemma chain_sound:
  assumes "replaces_chain S (mc_Bundles c) cur seen cf = Inr seen'" "keys_match S (mc_Bundles c)"
  shows "\<exists>path. replaces_path (channel_bundles S c) (bundles S ! cur # path) \<and>
      distinct (map mb_Replaces (bundles S ! cur # path)) \<and> set (map mb_Replaces (bundles S ! cur # path)) \<inter> set seen = {} \<and>
      seen' = rev (map mb_Replaces (bundles S ! cur # path)) @ seen"
  using assms
proof (induction S "mc_Bundles c" cur seen cf rule: replaces_chain.induct)
  case (1 S cur seen cf)
  let ?b = "bundles S ! cur"
  show ?case
  proof (cases "map_of (mc_Bundles c) (mb_Replaces ?b)")
    case None
    then have "mb_Replaces ?b \<notin> set seen \<and> seen' = mb_Replaces ?b # seen"
      using 1(2) by (subst (asm) replaces_chain.simps) (auto simp: Let_def split: if_splits)
    then show ?thesis using None named_channel [OF 1(3), of "mb_Replaces ?b"] by (intro exI [of _ "[]"]) simp
  next
    case (Some next')
    let ?cf = "map (\<lambda>(k, names). (k, names @ [mb_Replaces ?b]))
      (if map_of cf (mb_Name ?b) = None then AList.update (mb_Name ?b) [mb_Name ?b] cf else cf)"
    have seen: "mb_Replaces ?b \<notin> set seen"
      and r: "replaces_chain S (mc_Bundles c) next' (mb_Replaces ?b # seen) ?cf = Inr seen'"
      using 1(2) Some by (subst (asm) replaces_chain.simps, auto simp: Let_def split: if_splits)+
    obtain path where "replaces_path (channel_bundles S c) (bundles S ! next' # path)"
        "distinct (map mb_Replaces (bundles S ! next' # path))"
        "set (map mb_Replaces (bundles S ! next' # path)) \<inter> set (mb_Replaces ?b # seen) = {}"
        "seen' = rev (map mb_Replaces (bundles S ! next' # path)) @ mb_Replaces ?b # seen"
      using 1(1) [OF refl refl refl seen Some r 1(3)] by blast
    then show ?thesis using named_channel [OF 1(3), of "mb_Replaces ?b"] Some seen
      by (intro exI [of _ "bundles S ! next' # path"]) auto
  qed
qed

lemma go_sort_Nil [simp]: "go_sort lt xs = [] \<longleftrightarrow> xs = []"
  by (metis length_0_conv length_go_sort)

lemma replaces_chain_valid:
  assumes "permutes rng" "keys_match S (mc_Bundles c)"
  shows "validateReplacesChain rng S c = None \<longleftrightarrow> upgrade_graph (channel_bundles S c)"
proof
  let ?bs = "channel_bundles S c"
  have names: "(\<lambda>(k, a). mb_Name (bundles S ! a)) ` set (mc_Bundles c) = mb_Name ` set ?bs"
    by (auto simp: channel_bundles_def image_iff)
  have skips: "set (concat (map (\<lambda>(k, a). mb_Skips (bundles S ! a)) (mc_Bundles c))) = (\<Union>b \<in> set ?bs. set (mb_Skips b))"
    by (auto simp: channel_bundles_def)
  {
    assume "validateReplacesChain rng S c = None"
    then obtain head seen where head: "Head rng S c = Inr head"
      and seen: "replaces_chain S (mc_Bundles c) head [mb_Name (bundles S ! head)] [] = Inr seen"
      and stranded: "\<forall>n \<in> mb_Name ` set ?bs. n \<in> set seen \<or> n \<in> (\<Union>b \<in> set ?bs. set (mb_Skips b))"
      unfolding names [symmetric] skips [symmetric]
      by (auto simp: validateReplacesChain_def Let_def filter_empty_conv split: sum.splits if_splits)
    let ?h = "bundles S ! head"
    obtain path where path: "replaces_path ?bs (?h # path)" "distinct (map mb_Replaces (?h # path))"
        "set (map mb_Replaces (?h # path)) \<inter> set [mb_Name ?h] = {}" "seen = rev (map mb_Replaces (?h # path)) @ [mb_Name ?h]"
      using chain_sound [OF seen assms(2)] by blast
    note r = replaces_path_names [OF path(1)]
    have h: "filter (\<lambda>b. \<not> overtaken ?bs b) ?bs = [?h]" using Head_unique(1) [OF assms(1), of S c ?h] head by blast
    have "distinct (map mb_Name (?h # path))"
      using path(2,3) unfolding r [THEN conjunct1] by auto
    moreover have "mb_Name b \<in> mb_Name ` set (?h # path) \<or> (\<exists>b' \<in> set ?bs. mb_Name b \<in> set (mb_Skips b'))" if b: "b \<in> set ?bs" for b
    proof -
      have "set seen = insert (mb_Name ?h) (set (map mb_Name path @ [mb_Replaces (last (?h # path))]))"
        unfolding path(4) r [THEN conjunct1] by auto
      moreover have "mb_Name b \<in> mb_Name ` set ?bs" using b by simp
      moreover from this have "mb_Name b \<noteq> mb_Replaces (last (?h # path))" using r by metis
      ultimately show ?thesis using bspec [OF stranded, of "mb_Name b"] by auto
    qed
    ultimately show "upgrade_graph ?bs" unfolding upgrade_graph_def using h path(1) by blast
  }
  {
    assume "upgrade_graph ?bs"
    then obtain h path where h: "filter (\<lambda>b. \<not> overtaken ?bs b) ?bs = [h]" and path: "replaces_path ?bs (h # path)"
      and d: "distinct (map mb_Name (h # path))"
      and all: "\<forall>b \<in> set ?bs. mb_Name b \<in> mb_Name ` set (h # path) \<or> (\<exists>b' \<in> set ?bs. mb_Name b \<in> set (mb_Skips b'))"
      unfolding upgrade_graph_def by blast
    obtain head where head: "Head rng S c = Inr head" "bundles S ! head = h"
      using Head_unique(1) [OF assms(1), of S c h] h by blast
    note r = replaces_path_names [OF path]
    have "h \<in> set ?bs" using arg_cong [OF h, of set] by auto
    then have "mb_Name h \<in> mb_Name ` set ?bs" by simp
    then have "mb_Name h \<noteq> mb_Replaces (last (h # path))" using r by metis
    then have "distinct (map mb_Replaces (h # path))" "set (map mb_Replaces (h # path)) \<inter> set [mb_Name h] = {}"
      using d r unfolding r [THEN conjunct1] by auto
    then have seen: "replaces_chain S (mc_Bundles c) head [mb_Name (bundles S ! head)] [] =
        Inr (rev (map mb_Replaces (h # path)) @ [mb_Name h])"
      using chain_complete [OF assms(2), of head path "[mb_Name h]" "[]"] path head(2) by auto
    have "n \<in> set (rev (map mb_Replaces (h # path)) @ [mb_Name h]) \<or> n \<in> (\<Union>b \<in> set ?bs. set (mb_Skips b))"
      if "n \<in> mb_Name ` set ?bs" for n
      using that all unfolding r [THEN conjunct1] by auto
    then show "validateReplacesChain rng S c = None"
      unfolding names [symmetric] skips [symmetric]
      by (auto simp: validateReplacesChain_def Let_def filter_empty_conv head(1) seen)
  }
qed

subsection \<open>Versions\<close>

lemma add_versions:
  assumes "foldl (add_version V) ([], []) bs = (vs, ns)"
  shows "dom (map_of vs) = (\<lambda>b. sv_String V (mb_Version b)) ` set bs"
    and "map_of vs v = Some x \<Longrightarrow> sv_String V x = v"
    and "map_of ns v = Some names \<Longrightarrow> distinct names \<and> set names = {mb_Name b |b. b \<in> set bs \<and> sv_String V (mb_Version b) = v}"
    and "map_of ns v = None \<longleftrightarrow> map_of vs v = None" and "distinct (map fst vs)"
proof -
  have "dom (map_of vs) = (\<lambda>b. sv_String V (mb_Version b)) ` set bs \<and> (\<forall>v x. map_of vs v = Some x \<longrightarrow> sv_String V x = v) \<and>
    (\<forall>v names. map_of ns v = Some names \<longrightarrow> distinct names \<and> set names = {mb_Name b |b. b \<in> set bs \<and> sv_String V (mb_Version b) = v}) \<and>
    (\<forall>v. map_of ns v = None \<longleftrightarrow> map_of vs v = None) \<and> distinct (map fst vs)"
    using assms
  proof (induction bs arbitrary: vs ns rule: rev_induct)
    case (snoc b bs)
    obtain vs' ns' where f: "foldl (add_version V) ([], []) bs = (vs', ns')" by force
    note IH = snoc.IH [OF f]
    have IH1: "dom (map_of vs') = (\<lambda>b. sv_String V (mb_Version b)) ` set bs"
      and IH2: "\<forall>v x. map_of vs' v = Some x \<longrightarrow> sv_String V x = v"
      and IH4: "\<forall>v. map_of ns' v = None \<longleftrightarrow> map_of vs' v = None" and IH5: "distinct (map fst vs')" using IH by blast+
    have IH3: "distinct names \<and> set names = {mb_Name x |x. x \<in> set bs \<and> sv_String V (mb_Version x) = v}"
      if "map_of ns' v = Some names" for v names using IH that by blast
    let ?v = "sv_String V (mb_Version b)"
    have step: "add_version V (vs', ns') b = (vs, ns)" using snoc.prems f by simp
    have eq: "vs = AList.update ?v (mb_Version b) vs'"
      "ns = AList.update ?v (List.insert (mb_Name b) (case map_of ns' ?v of None \<Rightarrow> [] | Some names \<Rightarrow> names)) ns'"
      using step by (simp_all add: add_version_def Let_def)
    have "distinct names \<and> set names = {mb_Name x |x. x \<in> set (bs @ [b]) \<and> sv_String V (mb_Version x) = v}"
      if names: "map_of ns v = Some names" for v names
    proof (cases "v = ?v")
      case False
      then have "map_of ns' v = Some names" using names by (simp add: eq alist_simps)
      then have "distinct names \<and> set names = {mb_Name x |x. x \<in> set bs \<and> sv_String V (mb_Version x) = v}" by (rule IH3)
      then show ?thesis using False by auto
    next
      case True
      let ?old = "case map_of ns' ?v of None \<Rightarrow> [] | Some names \<Rightarrow> names"
      have "distinct ?old \<and> set ?old = {mb_Name x |x. x \<in> set bs \<and> sv_String V (mb_Version x) = ?v}"
      proof (cases "map_of ns' ?v")
        case None
        then have "?v \<notin> dom (map_of vs')" using IH4 by (simp add: domIff)
        then have "?v \<notin> (\<lambda>b. sv_String V (mb_Version b)) ` set bs" by (simp only: IH1) simp
        then have "\<forall>x \<in> set bs. sv_String V (mb_Version x) \<noteq> ?v" by (metis imageI)
        then have "{mb_Name x |x. x \<in> set bs \<and> sv_String V (mb_Version x) = ?v} = {}" by simp
        then show ?thesis using None by simp
      next
        case (Some old)
        then show ?thesis using IH3 [OF Some] by simp
      qed
      moreover have "names = List.insert (mb_Name b) ?old" using names True by (simp add: eq alist_simps)
      moreover have "{mb_Name x |x. x \<in> set (bs @ [b]) \<and> sv_String V (mb_Version x) = ?v} =
          insert (mb_Name b) {mb_Name x |x. x \<in> set bs \<and> sv_String V (mb_Version x) = ?v}" by auto
      ultimately show ?thesis using True by simp
    qed
    moreover have "dom (map_of vs) = (\<lambda>b. sv_String V (mb_Version b)) ` set (bs @ [b])"
      by (simp add: eq alist_simps IH1)
    moreover have "\<forall>v x. map_of vs v = Some x \<longrightarrow> sv_String V x = v" using IH2 by (simp add: eq alist_simps)
    moreover have "\<forall>v. map_of ns v = None \<longleftrightarrow> map_of vs v = None" using IH4 by (simp add: eq alist_simps)
    moreover have "distinct (map fst vs)" using IH5 by (simp add: eq)
    ultimately show ?case by blast
  qed simp
  then show "dom (map_of vs) = (\<lambda>b. sv_String V (mb_Version b)) ` set bs"
    and "map_of vs v = Some x \<Longrightarrow> sv_String V x = v"
    and "map_of ns v = Some names \<Longrightarrow> distinct names \<and> set names = {mb_Name b |b. b \<in> set bs \<and> sv_String V (mb_Version b) = v}"
    and "map_of ns v = None \<longleftrightarrow> map_of vs v = None" and "distinct (map fst vs)" by blast+
qed

text \<open>Sorting versions keeps them.\<close>

definition sorts :: "'v semver \<Rightarrow> bool" where
  "sorts V \<longleftrightarrow> (\<forall>vs. set (sv_Sort V vs) = set vs)"

definition unique_versions :: "'v semver \<Rightarrow> ('v, 'o, 'm) model_Bundle list \<Rightarrow> bool" where
  "unique_versions V bs \<longleftrightarrow>
     (\<forall>b \<in> set bs. \<forall>b' \<in> set bs. sv_String V (mb_Version b) = sv_String V (mb_Version b') \<longrightarrow> mb_Name b = mb_Name b')"

definition bundles_of :: "('v, 'o, 'm) store \<Rightarrow> model_Package \<Rightarrow> ('v, 'o, 'm) model_Bundle list" where
  "bundles_of S p = concat (map (\<lambda>(k, c). channel_bundles S (channels S ! c)) (mp_Channels p))"

lemma package_bundles_set:
  "permutes rng \<Longrightarrow> (\<lambda>a. bundles S ! a) ` set (package_bundles rng S p) = set (bundles_of S p)"
  by (simp add: package_bundles_def bundles_of_def channel_bundles_def permutes_set image_UN image_image case_prod_beta)

lemma distinct_length_le_1: "distinct xs \<Longrightarrow> length xs > 1 \<longleftrightarrow> (\<exists>x \<in> set xs. \<exists>y \<in> set xs. x \<noteq> y)"
  by (cases xs rule: remdups_adj.cases) auto

lemma same_class:
  "(\<forall>x \<in> A. \<forall>b \<in> A. \<forall>b' \<in> A. f b = f x \<and> f b' = f x \<longrightarrow> g b = g b') \<longleftrightarrow> (\<forall>b \<in> A. \<forall>b' \<in> A. f b = f b' \<longrightarrow> g b = g b')"
  by metis

lemma unique_versions_valid:
  assumes "permutes rng" "sorts V"
  shows "validateUniqueBundleVersions V rng S p = None \<longleftrightarrow> unique_versions V (bundles_of S p)"
proof -
  let ?bs = "map (\<lambda>a. bundles S ! a) (package_bundles rng S p)"
  obtain vs ns where f: "foldl (add_version V) ([], []) ?bs = (vs, ns)" by force
  note av = add_versions [OF f]
  let ?names = "\<lambda>v. case map_of ns v of None \<Rightarrow> [] | Some names \<Rightarrow> names"
  have names: "distinct (?names v) \<and> set (?names v) = {mb_Name b |b. b \<in> set ?bs \<and> sv_String V (mb_Version b) = v}" for v
  proof (cases "map_of ns v")
    case None
    then have "v \<notin> (\<lambda>b. sv_String V (mb_Version b)) ` set ?bs" using av(1,4) by (metis domIff)
    then have "\<forall>b \<in> set ?bs. sv_String V (mb_Version b) \<noteq> v" by (metis imageI)
    then have "{mb_Name b |b. b \<in> set ?bs \<and> sv_String V (mb_Version b) = v} = {}" by blast
    then show ?thesis using None by simp
  next
    case (Some names)
    then show ?thesis using av(3) [OF Some] by simp
  qed
  have "validateUniqueBundleVersions V rng S p = None \<longleftrightarrow> (\<forall>x \<in> snd ` set vs. \<not> length (?names (sv_String V x)) > 1)"
    using assms(2) by (auto simp: validateUniqueBundleVersions_def f Let_def sorts_def List.map_filter_def filter_empty_conv)
  also have "\<dots> \<longleftrightarrow> (\<forall>v \<in> dom (map_of vs). \<not> length (?names v) > 1)"
  proof -
    have "(sv_String V ` snd ` set vs) = dom (map_of vs)"
    proof safe
      fix k x assume "(k, x) \<in> set vs"
      then have "map_of vs k = Some x" using av(5) by (simp add: map_of_eq_Some_iff)
      then show "\<exists>y. map_of vs (sv_String V (snd (k, x))) = Some y" using av(2) by auto
    next
      fix v x assume v: "map_of vs v = Some x"
      then have "v = sv_String V x" "(v, x) \<in> set vs" using av(2) map_of_SomeD by force+
      then show "v \<in> sv_String V ` snd ` set vs" by force
    qed
    then show ?thesis by (metis (no_types, lifting) image_iff)
  qed
  also have "\<dots> \<longleftrightarrow> unique_versions V ?bs"
  proof -
    have one: "\<not> length (?names v) > 1 \<longleftrightarrow>
        (\<forall>b \<in> set ?bs. \<forall>b' \<in> set ?bs. sv_String V (mb_Version b) = v \<and> sv_String V (mb_Version b') = v \<longrightarrow> mb_Name b = mb_Name b')" for v
    proof -
      have d: "distinct (?names v)" and s: "set (?names v) = {mb_Name b |b. b \<in> set ?bs \<and> sv_String V (mb_Version b) = v}"
        using names [of v] by blast+
      show ?thesis unfolding distinct_length_le_1 [OF d] s by blast
    qed
    show ?thesis unfolding av(1) one unique_versions_def ball_simps(9) by (rule same_class)
  qed
  also have "\<dots> \<longleftrightarrow> unique_versions V (bundles_of S p)"
    using package_bundles_set [OF assms(1), of S p] by (simp add: unique_versions_def)
  finally show ?thesis .
qed

subsection \<open>Valid models\<close>

definition valid_bundle :: "('o, 'm) decoders \<Rightarrow> ('v, 'o, 'm) store \<Rightarrow> addr \<Rightarrow> ('v, 'o, 'm) model_Bundle \<Rightarrow> bool" where
  "valid_bundle D S c b \<longleftrightarrow>
     mb_Name b \<noteq> '''' \<and> mb_Channel b = Some c \<and> mb_Package b \<noteq> None \<and> mb_Package b = mc_Package (channels S ! c) \<and>
     (\<exists>props. property_Parse D (mb_Properties b) = Inr props) \<and>
     length (filter (\<lambda>p. pr_Type p = TypePackage) (mb_Properties b)) = 1 \<and>
     '''' \<notin> set (mb_Skips b) \<and> (mb_Image b \<noteq> '''' \<or> mb_Objects b \<noteq> []) \<and> mb_Deprecation b \<noteq> Some ''''"

definition valid_channel :: "('o, 'm) decoders \<Rightarrow> ('v, 'o, 'm) store \<Rightarrow> addr \<Rightarrow> bool" where
  "valid_channel D S c \<longleftrightarrow>
     (let ch = channels S ! c in
      mc_Name ch \<noteq> '''' \<and> mc_Package ch \<noteq> None \<and> mc_Bundles ch \<noteq> [] \<and> keys_match S (mc_Bundles ch) \<and>
      upgrade_graph (channel_bundles S ch) \<and> (\<forall>b \<in> set (channel_bundles S ch). valid_bundle D S c b) \<and>
      mc_Deprecation ch \<noteq> Some '''')"

definition valid_package :: "('o, 'm) decoders \<Rightarrow> 'v semver \<Rightarrow> ('v, 'o, 'm) store \<Rightarrow> addr \<Rightarrow> bool" where
  "valid_package D V S p \<longleftrightarrow>
     (let pkg = packages S ! p in
      mp_Name pkg \<noteq> '''' \<and> (\<exists>d \<in> snd ` set (mp_Channels pkg). mp_DefaultChannel pkg = Some d) \<and>
      (\<forall>(k, c) \<in> set (mp_Channels pkg). mc_Name (channels S ! c) = k \<and> mc_Package (channels S ! c) = Some p \<and> valid_channel D S c) \<and>
      unique_versions V (bundles_of S pkg) \<and> mp_Deprecation pkg \<noteq> Some '''')"

definition valid_model :: "('o, 'm) decoders \<Rightarrow> 'v semver \<Rightarrow> ('v, 'o, 'm) store \<Rightarrow> Model \<Rightarrow> bool" where
  "valid_model D V S m \<longleftrightarrow> (\<forall>(k, p) \<in> set m. mp_Name (packages S ! p) = k \<and> valid_package D V S p)"

lemma orNil_None [simp]: "orNil e errs = None \<longleftrightarrow> errs = []"
  by (simp add: orNil_def)

lemma opt_err_Nil [simp]: "opt_err e = [] \<longleftrightarrow> e = None"
  by (cases e) (simp_all add: opt_err_def)

lemma Deprecation_invalid_iff [simp]: "Deprecation_invalid d \<longleftrightarrow> d = Some ''''"
  by (cases d) (auto simp: Deprecation_invalid_def)

lemma Icon_Validate_None [simp]: "Icon_Validate i = None"
  by (cases i) (simp_all add: Icon_Validate_def)

lemma skip_errors_Nil [simp]: "skip_errors skips = [] \<longleftrightarrow> '''' \<notin> set skips"
proof -
  have "skip_errors skips = [] \<longleftrightarrow> (\<forall>(i, skip) \<in> set (zip [0..<length skips] skips). skip \<noteq> '''')"
    by (auto simp: skip_errors_def)
  also have "\<dots> \<longleftrightarrow> '''' \<notin> set skips" by (force simp: set_zip in_set_conv_nth)
  finally show ?thesis .
qed

lemma Bundle_valid:
  "Bundle_Validate D S a = None \<and> mb_Channel (bundles S ! a) = Some c \<longleftrightarrow> valid_bundle D S c (bundles S ! a)"
  using property_Parse_packages [of D "mb_Properties (bundles S ! a)"]
  by (cases "property_Parse D (mb_Properties (bundles S ! a))")
    (auto simp: Bundle_Validate_def valid_bundle_def Let_def)

lemma Channel_valid:
  assumes "permutes rng"
  shows "Channel_Validate D rng S c = None \<longleftrightarrow> valid_channel D S c"
proof -
  let ?ch = "channels S ! c"
  have "Channel_Validate D rng S c = None \<longleftrightarrow>
     mc_Name ?ch \<noteq> '''' \<and> mc_Package ?ch \<noteq> None \<and> mc_Bundles ?ch \<noteq> [] \<and> validateReplacesChain rng S ?ch = None \<and>
     (\<forall>(k, a) \<in> set (mc_Bundles ?ch). k = mb_Name (bundles S ! a) \<and> valid_bundle D S c (bundles S ! a)) \<and> mc_Deprecation ?ch \<noteq> Some ''''"
    by (auto simp: Channel_Validate_def Let_def permutes_set [OF assms] Bundle_valid [symmetric] case_prod_beta)
  also have "\<dots> \<longleftrightarrow> valid_channel D S c"
  proof -
    have "(\<forall>(k, a) \<in> set (mc_Bundles ?ch). k = mb_Name (bundles S ! a) \<and> valid_bundle D S c (bundles S ! a)) \<longleftrightarrow>
      keys_match S (mc_Bundles ?ch) \<and> (\<forall>b \<in> set (channel_bundles S ?ch). valid_bundle D S c b)"
      by (auto simp: keys_match_def channel_bundles_def)
    then show ?thesis using replaces_chain_valid [OF assms, of S ?ch] unfolding valid_channel_def Let_def by blast
  qed
  finally show ?thesis .
qed

lemma Package_valid:
  assumes "permutes rng" "sorts V"
  shows "Package_Validate D V rng S p = None \<longleftrightarrow> valid_package D V S p"
proof -
  let ?p = "packages S ! p"
  let ?linked = "\<forall>(k, c) \<in> set (mp_Channels ?p). mc_Name (channels S ! c) = k \<and> mc_Package (channels S ! c) = Some p \<and> valid_channel D S c"
  have chs: "concat (map (\<lambda>(name, ch).
            err_if (name \<noteq> mc_Name (channels S ! ch)) (ChannelKeyMismatch name (mc_Name (channels S ! ch))) @
            opt_err (Channel_Validate D rng S ch) @
            err_if (mc_Package (channels S ! ch) \<noteq> Some p) (ChannelNotLinked (mc_Name (channels S ! ch))))
          (rng (mp_Channels ?p))) = [] \<longleftrightarrow> ?linked"
    by (auto simp: permutes_set [OF assms(1)] Channel_valid [OF assms(1)] case_prod_beta)
  have "Package_Validate D V rng S p = None \<longleftrightarrow>
     mp_Name ?p \<noteq> '''' \<and> mp_DefaultChannel ?p \<noteq> None \<and> mp_Channels ?p \<noteq> [] \<and> ?linked \<and> unique_versions V (bundles_of S ?p) \<and>
     (\<forall>d. mp_DefaultChannel ?p = Some d \<longrightarrow> d \<in> snd ` set (mp_Channels ?p)) \<and> mp_Deprecation ?p \<noteq> Some ''''"
    unfolding Package_Validate_def Let_def orNil_None append_is_Nil_conv chs opt_err_Nil unique_versions_valid [OF assms]
    by (cases "mp_DefaultChannel ?p") simp_all
  also have "\<dots> \<longleftrightarrow> valid_package D V S p"
    unfolding valid_package_def Let_def by (cases "mp_DefaultChannel ?p"; cases "mp_Channels ?p = []") (simp_all, blast)
  finally show ?thesis .
qed

lemma Model_valid:
  assumes "permutes rng" "sorts V"
  shows "Model_Validate D V rng S m = None \<longleftrightarrow> valid_model D V S m"
  by (auto simp: Model_Validate_def valid_model_def permutes_set [OF assms(1)] Package_valid [OF assms] case_prod_beta)

subsection \<open>Reported cycles\<close>

definition linked_names :: "('v, 'o, 'm) model_Bundle list \<Rightarrow> string list \<Rightarrow> bool" where
  "linked_names bs ns \<longleftrightarrow> (\<forall>i. Suc i < length ns \<longrightarrow> (\<exists>b \<in> set bs. mb_Name b = ns ! i \<and> mb_Replaces b = ns ! Suc i))"

definition replaces_cycle :: "('v, 'o, 'm) model_Bundle list \<Rightarrow> string list \<Rightarrow> bool" where
  "replaces_cycle bs ns \<longleftrightarrow> length ns \<ge> 2 \<and> hd ns = last ns \<and> linked_names bs ns"

lemma linked_names_snoc:
  assumes "linked_names bs ns" "ns \<noteq> []" "b \<in> set bs" "mb_Name b = last ns"
  shows "linked_names bs (ns @ [mb_Replaces b])"
proof -
  have "\<exists>b' \<in> set bs. mb_Name b' = (ns @ [mb_Replaces b]) ! i \<and> mb_Replaces b' = (ns @ [mb_Replaces b]) ! Suc i"
    if i: "Suc i < length (ns @ [mb_Replaces b])" for i
  proof (cases "Suc i < length ns")
    case True
    then show ?thesis using assms(1) by (simp add: linked_names_def nth_append)
  next
    case False
    then have "i = length ns - 1" "Suc i = length ns" using i assms(2) by auto
    then show ?thesis using assms(2-4) by (intro bexI [of _ b]) (auto simp: nth_append last_conv_nth)
  qed
  then show ?thesis by (simp add: linked_names_def)
qed

lemma mem_map_values: "(k, y) \<in> set (map (\<lambda>(k, x). (k, f x)) xs) \<Longrightarrow> \<exists>x. (k, x) \<in> set xs \<and> y = f x"
  by auto

lemma chain_cycle:
  assumes "replaces_chain S (mc_Bundles c) cur seen cf = Inl e" "keys_match S (mc_Bundles c)" "bundles S ! cur \<in> set (channel_bundles S c)"
    and "\<forall>(k, ns) \<in> set cf. ns \<noteq> [] \<and> hd ns = k \<and> last ns = mb_Name (bundles S ! cur) \<and> linked_names (channel_bundles S c) ns"
    and "set seen \<subseteq> insert (mb_Name (bundles S ! cur)) (fst ` set cf)"
  shows "\<exists>ns. e = ReplacesCycle ns \<and> replaces_cycle (channel_bundles S c) ns"
  using assms
proof (induction S "mc_Bundles c" cur seen cf rule: replaces_chain.induct)
  case (1 S cur seen cf)
  let ?b = "bundles S ! cur" and ?bs = "channel_bundles S c"
  let ?cf = "if map_of cf (mb_Name ?b) = None then AList.update (mb_Name ?b) [mb_Name ?b] cf else cf"
  let ?cf' = "map (\<lambda>(k, names). (k, names @ [mb_Replaces ?b])) ?cf"
  have cf: "ns \<noteq> [] \<and> hd ns = k \<and> last ns = mb_Name ?b \<and> linked_names ?bs ns" if "(k, ns) \<in> set ?cf" for k ns
  proof -
    have "(k, ns) \<in> set cf \<or> (k, ns) = (mb_Name ?b, [mb_Name ?b])"
      using that update_entries [of "mb_Name ?b" "[mb_Name ?b]" cf] by (auto split: if_splits)
    moreover have "linked_names ?bs [mb_Name ?b]" by (simp add: linked_names_def)
    ultimately show ?thesis using 1(5) by auto
  qed
  have cf': "ns \<noteq> [] \<and> hd ns = k \<and> last ns = mb_Replaces ?b \<and> length ns \<ge> 2 \<and> linked_names ?bs ns" if ns: "(k, ns) \<in> set ?cf'" for k ns
  proof -
    obtain ms where ms: "(k, ms) \<in> set ?cf" "ns = ms @ [mb_Replaces ?b]" using mem_map_values [OF ns] by blast
    note m = cf [OF ms(1)]
    have "linked_names ?bs ns" unfolding ms(2) using m by (intro linked_names_snoc 1(4)) simp_all
    then show ?thesis using m ms(2) by (cases ms) auto
  qed
  have keys: "fst ` set ?cf' = insert (mb_Name ?b) (fst ` set cf)"
  proof -
    have "fst ` set ?cf' = fst ` set ?cf" by (force simp: image_image case_prod_beta)
    also have "\<dots> = insert (mb_Name ?b) (fst ` set cf)"
      by (auto simp: keys_update map_of_eq_None_iff)
    finally show ?thesis .
  qed
  show ?case
  proof (cases "mb_Replaces ?b \<in> set seen")
    case True
    then have "mb_Replaces ?b \<in> fst ` set ?cf'" using 1(6) keys by blast
    then obtain ns where ns: "map_of ?cf' (mb_Replaces ?b) = Some ns"
      by (metis (no_types, lifting) map_of_eq_None_iff option.exhaust)
    have "e = ReplacesCycle ns" using 1(2) True ns by (subst (asm) replaces_chain.simps) (simp add: Let_def)
    moreover have "replaces_cycle ?bs ns" using cf' [OF map_of_SomeD [OF ns]] by (simp add: replaces_cycle_def)
    ultimately show ?thesis by blast
  next
    case False
    then obtain next' where n: "map_of (mc_Bundles c) (mb_Replaces ?b) = Some next'"
      and r: "replaces_chain S (mc_Bundles c) next' (mb_Replaces ?b # seen) ?cf' = Inl e"
      using 1(2) by (subst (asm) replaces_chain.simps) (auto simp: Let_def split: option.splits)
    have nx: "bundles S ! next' \<in> set ?bs" "mb_Name (bundles S ! next') = mb_Replaces ?b"
      using map_of_SomeD [OF n] 1(3) by (force simp: channel_bundles_def keys_match_def)+
    show ?thesis
    proof (rule 1(1) [OF refl refl refl False n r 1(3) nx(1)])
      show "\<forall>(k, ns) \<in> set ?cf'. ns \<noteq> [] \<and> hd ns = k \<and> last ns = mb_Name (bundles S ! next') \<and> linked_names ?bs ns"
      proof
        fix x assume "x \<in> set ?cf'"
        then have "(fst x, snd x) \<in> set ?cf'" by (simp only: prod.collapse)
        from cf' [OF this] show "case x of (k, ns) \<Rightarrow> ns \<noteq> [] \<and> hd ns = k \<and> last ns = mb_Name (bundles S ! next') \<and> linked_names ?bs ns"
          unfolding nx(2) case_prod_beta by blast
      qed
      show "set (mb_Replaces ?b # seen) \<subseteq> insert (mb_Name (bundles S ! next')) (fst ` set ?cf')"
        using 1(6) keys nx(2) by auto
    qed
  qed
qed

lemma reported_cycle:
  assumes "permutes rng" "keys_match S (mc_Bundles c)" "validateReplacesChain rng S c = Some (ReplacesCycle ns)"
  shows "replaces_cycle (channel_bundles S c) ns"
proof -
  obtain head where head: "Head rng S c = Inr head" "replaces_chain S (mc_Bundles c) head [mb_Name (bundles S ! head)] [] = Inl (ReplacesCycle ns)"
    using assms(3) by (auto simp: validateReplacesChain_def Head_def Let_def split: sum.splits if_splits)
  have "bundles S ! head \<in> set (channel_bundles S c)"
    using Head_unique(2) [OF assms(1) head(1)] by (force simp: channel_bundles_def)
  then show ?thesis using chain_cycle [OF head(2) assms(2)] by auto
qed

end
