(* ===== verification/Catalog_Roundtrip.thy ===== *)
theory Catalog_Roundtrip
  imports Catalog_Config Catalog_Valid "HOL-Library.Product_Lexorder"
begin

text \<open>
  What \<^verbatim>\<open>ConvertToModel\<close> builds, loop by loop, and what \<^verbatim>\<open>ConvertFromModel\<close> reads off it. The predicate \<open>config_built\<close>
  describes packages, channels and entries in the order of the configuration, \<open>filled\<close> the content of the bundles
  that have been processed. Later loops change neither the links nor the entries, which is \<open>same_shape\<close>.
\<close>

subsection \<open>Sorting by a key\<close>

lemma go_sort_by_key: "go_sort (\<lambda>x y. f x < f y) xs = sort_key (f :: 'a \<Rightarrow> 'b :: linorder) xs"
proof -
  have "go_insert (\<lambda>x y. f x < f y) x ys = insort_key f x ys" for x ys
    by (induction ys) auto
  then show ?thesis by (induction xs) (simp_all add: sort_key_def)
qed

lemma sort_key_unique:
  fixes f :: "'a \<Rightarrow> 'b :: linorder"
  assumes "mset xs = mset ys" "inj_on f (set xs)"
  shows "sort_key f xs = sort_key f ys"
proof -
  have s: "map f (sort_key f zs) = sort (map f zs)" for zs :: "'a list"
    by (rule properties_for_sort [symmetric]) simp_all
  have "map f (sort_key f xs) = map f (sort_key f ys)"
    unfolding s using assms(1) by (intro properties_for_sort) simp_all
  moreover have "set (sort_key f xs) \<union> set (sort_key f ys) = set xs" using mset_eq_setD [OF assms(1)] by simp
  ultimately show ?thesis using assms(2) by (metis map_inj_on)
qed

lemma property_Less_key: "property_Less = (\<lambda>p q. (pr_Type p, pr_Value p) < (pr_Type q, pr_Value q))"
  by (auto simp: property_Less_def fun_eq_iff less_prod_def)

lemma cfg_channel_Less_key: "cfg_channel_Less = (\<lambda>x y. (dc_Package x, dc_Name x) < (dc_Package y, dc_Name y))"
  by (auto simp: cfg_channel_Less_def fun_eq_iff less_prod_def)

lemma cfg_bundle_Less_key: "cfg_bundle_Less = (\<lambda>x y. (db_Package x, db_Name x) < (db_Package y, db_Name y))"
  by (auto simp: cfg_bundle_Less_def fun_eq_iff less_prod_def)

subsection \<open>Loops\<close>

lemma each_append: "each f (xs @ ys) s = (case each f xs s of Inl e \<Rightarrow> Inl e | Inr s \<Rightarrow> each f ys s)"
  by (induction xs arbitrary: s) (auto split: sum.splits)

lemma each_snoc: "each f (xs @ [x]) s = (case each f xs s of Inl e \<Rightarrow> Inl e | Inr s \<Rightarrow> f x s)"
  by (auto simp: each_append split: sum.splits)

lemma each_invariant:
  assumes "each f xs s = Inr s'" "P s" and "\<And>x s s'. x \<in> set xs \<Longrightarrow> P s \<Longrightarrow> f x s = Inr s' \<Longrightarrow> P s'"
  shows "P s'"
  using assms
proof (induction xs arbitrary: s)
  case (Cons x xs)
  then obtain t where t: "f x s = Inr t" "each f xs t = Inr s'" by (auto split: sum.splits)
  show ?case
  proof (rule Cons.IH [OF t(2)])
    show "P t" using Cons.prems(3) [OF _ Cons.prems(2) t(1)] by simp
    show "P u'" if "y \<in> set xs" "P u" "f y u = Inr u'" for y u u' using Cons.prems(3) [of y u u'] that by simp
  qed
qed simp

text \<open>An invariant that depends on the elements processed so far\<close>

lemma each_prefix:
  assumes "each f xs s = Inr s'" "P [] s"
    and "\<And>ys y s s'. P ys s \<Longrightarrow> f y s = Inr s' \<Longrightarrow> y \<in> set xs \<Longrightarrow> P (ys @ [y]) s'"
  shows "P xs s'"
proof -
  have "\<exists>t. each f ys s = Inr t \<and> P ys t" if "\<exists>zs. xs = ys @ zs" for ys
    using that
  proof (induction ys rule: rev_induct)
    case (snoc y ys)
    obtain zs where zs: "xs = ys @ y # zs" using snoc.prems by auto
    then obtain t where t: "each f ys s = Inr t" "P ys t" using snoc.IH by auto
    obtain t' where t': "f y t = Inr t'" using assms(1) t(1) by (auto simp: zs each_append split: sum.splits)
    then have "P (ys @ [y]) t'" using assms(3) [OF t(2) t'] by (simp add: zs)
    then show ?case using t(1) t' by (auto simp: each_snoc)
  qed (use assms(2) in auto)
  from this [of xs] show ?thesis using assms(1) by auto
qed

lemma map_sum_Inr: "map_sum f g x = Inr y \<longleftrightarrow> (\<exists>z. x = Inr z \<and> y = g z)"
  by (cases x) auto

subsection \<open>Packages\<close>

definition packages_built :: "cfg_Package list \<Rightarrow> ('v, 'o, 'm) conversion \<Rightarrow> bool" where
  "packages_built ps cv \<longleftrightarrow>
     cv_store cv = \<lparr>packages = map new_package ps, channels = [], bundles = []\<rparr> \<and>
     cv_mpkgs cv = zip (map dp_Name ps) [0..<length ps] \<and> distinct (map dp_Name ps) \<and>
     cv_defaultChannels cv = map (\<lambda>p. (dp_Name p, dp_DefaultChannel p)) ps \<and>
     cv_channelDefinedEntries cv = [] \<and> cv_packageBundles cv = []"

lemma update_new: "k \<notin> fst ` set al \<Longrightarrow> AList.update k v al = al @ [(k, v)]"
  by (induction al) auto

lemma keys_zip: "length ks = length vs \<Longrightarrow> fst ` set (zip ks vs) = set ks"
  by (metis map_fst_zip set_map)

lemma convert_packages:
  assumes "each (convert_package dns) ps start_conversion = Inr cv"
  shows "packages_built ps cv"
  using assms
proof (rule each_prefix)
  show "packages_built [] start_conversion"
    by (simp add: packages_built_def start_conversion_def empty_store_def)
  fix qs q and s s' :: "('a, 'b, 'c) conversion"
  assume "packages_built qs s" and step: "convert_package dns q s = Inr s'"
  moreover have "dp_Name q \<notin> dp_Name ` set qs"
    using calculation by (auto simp: convert_package_def packages_built_def map_of_zip_is_None split: if_splits)
  ultimately show "packages_built (qs @ [q]) s'"
    by (auto simp: convert_package_def packages_built_def update_new image_image keys_zip split: if_splits)
qed

subsection \<open>Channels and their entries\<close>

lemma convert_entries:
  "convert_entries V c pkg ch es (bs0, ptrs0, cde0) = Inr (bs, ptrs, cde) \<Longrightarrow>
   bs = bs0 @ map (new_bundle V pkg ch) es \<and> ptrs = ptrs0 @ zip (map de_Name es) [length bs0..<length bs0 + length es] \<and>
   distinct (map de_Name es) \<and> fst ` set ptrs0 \<inter> de_Name ` set es = {}"
proof (induction es arbitrary: bs0 ptrs0 cde0)
  case (Cons e es)
  have new: "de_Name e \<notin> fst ` set ptrs0"
    using Cons.prems by (auto split: if_splits simp: map_of_eq_None_iff)
  have "convert_entries V c pkg ch es (bs0 @ [new_bundle V pkg ch e], ptrs0 @ [(de_Name e, length bs0)],
      List.insert (de_Name e) cde0) = Inr (bs, ptrs, cde)"
    using Cons.prems new by (simp add: update_new split: if_splits)
  from Cons.IH [OF this] new have IH: "bs = bs0 @ map (new_bundle V pkg ch) (e # es)"
      "ptrs = ptrs0 @ (de_Name e, length bs0) # zip (map de_Name es) [Suc (length bs0)..<Suc (length bs0 + length es)]"
      "distinct (map de_Name (e # es))" "fst ` set ptrs0 \<inter> de_Name ` set (e # es) = {}"
    by (auto simp del: upt_Suc)
  have "[length bs0..<length bs0 + length (e # es)] = length bs0 # [Suc (length bs0)..<Suc (length bs0 + length es)]"
    by (simp add: upt_conv_Cons del: upt_Suc)
  then show ?case using IH by (simp del: upt_Suc)
qed simp

definition channel_built ::
    "cfg_Package list \<Rightarrow> cfg_Channel list \<Rightarrow> ('v, 'o, 'm) store \<Rightarrow> addr \<Rightarrow> bool" where
  "channel_built ps cs S j \<longleftrightarrow>
     (\<exists>i < length ps. dp_Name (ps ! i) = dc_Package (cs ! j) \<and> mc_Package (channels S ! j) = Some i \<and>
        mc_Name (channels S ! j) = dc_Name (cs ! j) \<and> mc_Properties (channels S ! j) = dc_Properties (cs ! j) \<and>
        map (\<lambda>(k, a). entry_of_model (bundles S ! a)) (mc_Bundles (channels S ! j)) = dc_Entries (cs ! j) \<and>
        distinct (map fst (mc_Bundles (channels S ! j))) \<and>
        (\<forall>(k, a) \<in> set (mc_Bundles (channels S ! j)). a < length (bundles S) \<and> mb_Name (bundles S ! a) = k \<and>
           mb_Package (bundles S ! a) = Some i \<and> mb_Channel (bundles S ! a) = Some j))"

definition package_built :: "cfg_Channel list \<Rightarrow> cfg_Package \<Rightarrow> model_Package \<Rightarrow> bool" where
  "package_built cs q p \<longleftrightarrow>
     mp_Name p = dp_Name q \<and> mp_Description p = dp_Description q \<and> mp_Icon p = dp_Icon q \<and>
     mp_Channels p = map (\<lambda>j. (dc_Name (cs ! j), j)) (filter (\<lambda>j. dc_Package (cs ! j) = dp_Name q) [0..<length cs]) \<and>
     distinct (map fst (mp_Channels p)) \<and>
     mp_DefaultChannel p =
       find (\<lambda>j. dc_Package (cs ! j) = dp_Name q \<and> dc_Name (cs ! j) = dp_DefaultChannel q) [0..<length cs]"

definition config_built :: "cfg_Package list \<Rightarrow> cfg_Channel list \<Rightarrow> ('v, 'o, 'm) store \<Rightarrow> bool" where
  "config_built ps cs S \<longleftrightarrow>
     length (packages S) = length ps \<and> length (channels S) = length cs \<and> distinct (map dp_Name ps) \<and>
     (\<forall>i < length ps. package_built cs (ps ! i) (packages S ! i)) \<and> (\<forall>j < length cs. channel_built ps cs S j)"

definition channels_built :: "cfg_Package list \<Rightarrow> cfg_Channel list \<Rightarrow> ('v, 'o, 'm) conversion \<Rightarrow> bool" where
  "channels_built ps cs cv \<longleftrightarrow>
     config_built ps cs (cv_store cv) \<and> cv_mpkgs cv = zip (map dp_Name ps) [0..<length ps] \<and>
     cv_defaultChannels cv = map (\<lambda>p. (dp_Name p, dp_DefaultChannel p)) ps \<and> cv_packageBundles cv = [] \<and>
     (\<forall>b \<in> set (bundles (cv_store cv)). mb_Properties b = [])"

lemma find_append: "find P (xs @ ys) = (case find P xs of None \<Rightarrow> find P ys | Some x \<Rightarrow> Some x)"
  by (induction xs) auto

lemma mpkgs_at:
  assumes "distinct (map dp_Name ps)"
  shows "map_of (zip (map dp_Name ps) [0..<length ps]) n = Some i \<longleftrightarrow> i < length ps \<and> dp_Name (ps ! i) = n"
proof
  show "i < length ps \<and> dp_Name (ps ! i) = n" if "map_of (zip (map dp_Name ps) [0..<length ps]) n = Some i"
    using map_of_SomeD [OF that] by (auto simp: in_set_zip)
  show "map_of (zip (map dp_Name ps) [0..<length ps]) n = Some i" if "i < length ps \<and> dp_Name (ps ! i) = n"
    using map_of_zip_nth [of "map dp_Name ps" "[0..<length ps]" i] assms that by auto
qed

lemma channel_built_step:
  assumes "channel_built ps cs S j" "j < length cs" "length (channels S) = length cs"
  shows "channel_built ps (cs @ [c]) \<lparr>packages = P, channels = channels S @ [ch], bundles = bundles S @ bs\<rparr> j"
proof -
  have e: "map (\<lambda>(k, a). entry_of_model ((bundles S @ bs) ! a)) ptrs = map (\<lambda>(k, a). entry_of_model (bundles S ! a)) ptrs"
    if "\<forall>(k, a) \<in> set ptrs. a < length (bundles S)" for ptrs :: ptrs
    using that by (auto simp: nth_append)
  obtain i where i: "i < length ps" "dp_Name (ps ! i) = dc_Package (cs ! j)" "mc_Package (channels S ! j) = Some i"
      "mc_Name (channels S ! j) = dc_Name (cs ! j)" "mc_Properties (channels S ! j) = dc_Properties (cs ! j)"
      "map (\<lambda>(k, a). entry_of_model (bundles S ! a)) (mc_Bundles (channels S ! j)) = dc_Entries (cs ! j)"
      "distinct (map fst (mc_Bundles (channels S ! j)))"
      "\<forall>(k, a) \<in> set (mc_Bundles (channels S ! j)). a < length (bundles S) \<and> mb_Name (bundles S ! a) = k \<and>
         mb_Package (bundles S ! a) = Some i \<and> mb_Channel (bundles S ! a) = Some j"
    using assms(1) unfolding channel_built_def by (elim exE conjE) (rule that)
  have "\<forall>(k, a) \<in> set (mc_Bundles (channels S ! j)). a < length (bundles S)" using i(8) by blast
  then have "map (\<lambda>(k, a). entry_of_model ((bundles S @ bs) ! a)) (mc_Bundles (channels S ! j)) = dc_Entries (cs ! j)"
    by (rule trans [OF e i(6)])
  then show ?thesis using assms(2,3) i unfolding channel_built_def
    by (intro exI [of _ i]) (auto simp: nth_append)
qed

lemma new_channel_built:
  assumes "i < length ps" "dp_Name (ps ! i) = dc_Package c" "length (channels S) = length cs" "distinct (map de_Name (dc_Entries c))"
  shows "channel_built ps (cs @ [c])
    \<lparr>packages = P, channels = channels S @ [\<lparr>mc_Package = Some i, mc_Name = dc_Name c,
       mc_Bundles = zip (map de_Name (dc_Entries c)) [length (bundles S)..<length (bundles S) + length (dc_Entries c)],
       mc_Deprecation = None, mc_Properties = dc_Properties c\<rparr>],
     bundles = bundles S @ map (new_bundle V i (length cs)) (dc_Entries c)\<rparr> (length cs)"
proof -
  have "map (\<lambda>(k, a). entry_of_model ((bundles S @ map (new_bundle V i (length cs)) (dc_Entries c)) ! a))
      (zip (map de_Name (dc_Entries c)) [length (bundles S)..<length (bundles S) + length (dc_Entries c)]) = dc_Entries c"
    by (rule nth_equalityI) (auto simp: nth_append entry_of_model_def new_bundle_def)
  then show ?thesis using assms unfolding channel_built_def
    by (intro exI [of _ i]) (auto simp: nth_append in_set_zip new_bundle_def)
qed

lemma filter_snoc_channels:
  "filter (\<lambda>j. P ((cs @ [c]) ! j)) [0..<length (cs @ [c])] = filter (\<lambda>j. P (cs ! j)) [0..<length cs] @ (if P c then [length cs] else [])"
  by (auto simp: nth_append intro!: filter_cong)

lemma find_snoc_channels:
  "find (\<lambda>j. P ((cs @ [c]) ! j)) [0..<length (cs @ [c])] =
   (case find (\<lambda>j. P (cs ! j)) [0..<length cs] of Some j \<Rightarrow> Some j | None \<Rightarrow> if P c then Some (length cs) else None)"
proof -
  have "find (\<lambda>j. P ((cs @ [c]) ! j)) [0..<length cs] = find (\<lambda>j. P (cs ! j)) [0..<length cs]"
    by (rule find_cong) (simp_all add: nth_append)
  then show ?thesis by (auto simp: find_append split: option.split)
qed

lemma package_built_step:
  assumes "package_built cs q p"
  shows "dc_Package c \<noteq> dp_Name q \<Longrightarrow> package_built (cs @ [c]) q p"
    and "dc_Package c = dp_Name q \<Longrightarrow> map_of (mp_Channels p) (dc_Name c) = None \<Longrightarrow>
      p' = p\<lparr>mp_Channels := AList.update (dc_Name c) (length cs) (mp_Channels p)\<rparr> \<Longrightarrow>
      package_built (cs @ [c]) q (if dc_Name c = dp_DefaultChannel q then p'\<lparr>mp_DefaultChannel := Some (length cs)\<rparr> else p')"
proof -
  let ?js = "filter (\<lambda>j. dc_Package (cs ! j) = dp_Name q) [0..<length cs]"
  have "map (\<lambda>j. (dc_Name ((cs @ [c]) ! j), j)) ?js = map (\<lambda>j. (dc_Name (cs ! j), j)) ?js"
    by (auto simp: nth_append)
  note simps = this filter_snoc_channels [where P = "\<lambda>x. dc_Package x = dp_Name q"]
    find_snoc_channels [where P = "\<lambda>x. dc_Package x = dp_Name q \<and> dc_Name x = dp_DefaultChannel q"]
  show "package_built (cs @ [c]) q p" if "dc_Package c \<noteq> dp_Name q"
    using assms that unfolding package_built_def simps by (auto simp: nth_append split: option.split)
  show "package_built (cs @ [c]) q (if dc_Name c = dp_DefaultChannel q then p'\<lparr>mp_DefaultChannel := Some (length cs)\<rparr> else p')"
    if c: "dc_Package c = dp_Name q" "map_of (mp_Channels p) (dc_Name c) = None"
      and p': "p' = p\<lparr>mp_Channels := AList.update (dc_Name c) (length cs) (mp_Channels p)\<rparr>"
  proof -
    have new: "dc_Name c \<notin> fst ` set (mp_Channels p)" using c(2) by (simp add: map_of_eq_None_iff)
    then have nn: "dc_Name (cs ! x) \<noteq> dc_Name c" if "x < length cs" "dc_Package (cs ! x) = dp_Name q" for x
      using assms that by (force simp: package_built_def)
    have "find (\<lambda>j. dc_Package (cs ! j) = dp_Name q \<and> dc_Name (cs ! j) = dp_DefaultChannel q) [0..<length cs] = None"
      if "dc_Name c = dp_DefaultChannel q"
      using nn that by (auto simp: find_None_iff)
    then show ?thesis using assms c(1) new unfolding package_built_def simps p'
      by (auto simp: update_new nth_append split: option.split dest: nn)
  qed
qed

lemma convert_channel_built:
  assumes "channels_built ps cs cv" "convert_channel V c cv = Inr cv'"
  shows "channels_built ps (cs @ [c]) cv'"
proof -
  let ?S = "cv_store cv"
  have b: "config_built ps cs ?S" and m: "cv_mpkgs cv = zip (map dp_Name ps) [0..<length ps]"
    and d: "cv_defaultChannels cv = map (\<lambda>p. (dp_Name p, dp_DefaultChannel p)) ps" and pb: "cv_packageBundles cv = []"
    and none: "\<forall>b \<in> set (bundles ?S). mb_Properties b = []" using assms(1) by (auto simp: channels_built_def)
  have len: "length (packages ?S) = length ps" "length (channels ?S) = length cs" and names: "distinct (map dp_Name ps)"
    and pkgs: "\<And>i. i < length ps \<Longrightarrow> package_built cs (ps ! i) (packages ?S ! i)"
    and chs: "\<And>j. j < length cs \<Longrightarrow> channel_built ps cs ?S j" using b by (auto simp: config_built_def)
  obtain i bs entries cde where i: "map_of (cv_mpkgs cv) (dc_Package c) = Some i"
    and new: "map_of (mp_Channels (packages ?S ! i)) (dc_Name c) = None"
    and es: "convert_entries V c i (length cs) (dc_Entries c) (bundles ?S, [], []) = Inr (bs, entries, cde)"
    and cv': "cv' = cv\<lparr>cv_store := \<lparr>packages = (packages ?S)[i :=
          (let p' = (packages ?S ! i)\<lparr>mp_Channels := AList.update (dc_Name c) (length cs) (mp_Channels (packages ?S ! i))\<rparr>
           in if map_of (cv_defaultChannels cv) (dc_Package c) = Some (dc_Name c)
              then p'\<lparr>mp_DefaultChannel := Some (length cs)\<rparr> else p')],
        channels = channels ?S @ [\<lparr>mc_Package = Some i, mc_Name = dc_Name c, mc_Bundles = entries, mc_Deprecation = None,
           mc_Properties = dc_Properties c\<rparr>], bundles = bs\<rparr>,
        cv_channelDefinedEntries := AList.update (dc_Package c) cde (cv_channelDefinedEntries cv)\<rparr>"
    using assms(2) len by (auto simp: convert_channel_def Let_def split: option.splits if_splits sum.splits)
  have ilt: "i < length ps" and iname: "dp_Name (ps ! i) = dc_Package c" using i unfolding m mpkgs_at [OF names] by auto
  note e = convert_entries [OF es]
  have "map_of (cv_defaultChannels cv) (dc_Package c) = Some (dp_DefaultChannel (ps ! i))"
    unfolding d iname [symmetric] by (rule map_of_is_SomeI) (use names ilt in \<open>auto simp: comp_def\<close>)
  then have def: "map_of (cv_defaultChannels cv) (dc_Package c) = Some (dc_Name c) \<longleftrightarrow> dc_Name c = dp_DefaultChannel (ps ! i)" by auto
  have "package_built (cs @ [c]) (ps ! i') (packages (cv_store cv') ! i')" if i': "i' < length ps" for i'
  proof (cases "i' = i")
    case True
    show ?thesis
      using package_built_step(2) [OF pkgs [OF ilt] iname [symmetric] new refl] ilt len
      by (simp add: True cv' def Let_def)
  next
    case False
    then have "dc_Package c \<noteq> dp_Name (ps ! i')"
      using names i' ilt iname by (metis distinct_conv_nth length_map nth_map)
    then show ?thesis using package_built_step(1) [OF pkgs [OF i']] False by (simp add: cv')
  qed
  moreover have "channel_built ps (cs @ [c]) (cv_store cv') j" if "j < length (cs @ [c])" for j
  proof (cases "j < length cs")
    case True
    then show ?thesis using channel_built_step [OF chs [OF True] True len(2)] e by (simp add: cv')
  next
    case False
    then have "j = length cs" using that by simp
    then show ?thesis using new_channel_built [OF ilt iname len(2)] e by (simp add: cv')
  qed
  moreover have "\<forall>b \<in> set (bundles (cv_store cv')). mb_Properties b = []" using none e by (auto simp: cv' new_bundle_def)
  ultimately show ?thesis using len names m d pb by (simp add: channels_built_def config_built_def cv')
qed

lemma convert_channels:
  assumes "packages_built ps cv" "each (convert_channel V) cs cv = Inr cv'"
  shows "channels_built ps cs cv'"
  using assms(2)
proof (rule each_prefix)
  show "channels_built ps [] cv"
    using assms(1) by (auto simp: packages_built_def channels_built_def config_built_def package_built_def new_package_def)
qed (rule convert_channel_built)

subsection \<open>Shapes\<close>

definition same_shape :: "('v, 'o, 'm) store \<Rightarrow> ('v, 'o, 'm) store \<Rightarrow> bool" where
  "same_shape S S' \<longleftrightarrow>
     map (\<lambda>p. p\<lparr>mp_Deprecation := None\<rparr>) (packages S) = map (\<lambda>p. p\<lparr>mp_Deprecation := None\<rparr>) (packages S') \<and>
     map (\<lambda>c. c\<lparr>mc_Deprecation := None\<rparr>) (channels S) = map (\<lambda>c. c\<lparr>mc_Deprecation := None\<rparr>) (channels S') \<and>
     map (\<lambda>b. (mb_Package b, mb_Channel b, entry_of_model b)) (bundles S) =
       map (\<lambda>b. (mb_Package b, mb_Channel b, entry_of_model b)) (bundles S')"

lemma same_shape_refl [simp]: "same_shape S S"
  by (simp add: same_shape_def)

lemma same_shape_trans: "same_shape S S' \<Longrightarrow> same_shape S' S'' \<Longrightarrow> same_shape S S''"
  by (simp add: same_shape_def)

lemma map_eq_nth: "map f xs = map f ys \<Longrightarrow> length xs = length ys \<and> (\<forall>i < length xs. f (xs ! i) = f (ys ! i))"
  by (metis length_map nth_map)

lemma same_shapeD:
  assumes "same_shape S S'"
  shows "length (packages S') = length (packages S)" "length (channels S') = length (channels S)"
    "length (bundles S') = length (bundles S)"
    "i < length (packages S) \<Longrightarrow> mp_Name (packages S' ! i) = mp_Name (packages S ! i) \<and>
       mp_Description (packages S' ! i) = mp_Description (packages S ! i) \<and> mp_Icon (packages S' ! i) = mp_Icon (packages S ! i) \<and>
       mp_Channels (packages S' ! i) = mp_Channels (packages S ! i) \<and>
       mp_DefaultChannel (packages S' ! i) = mp_DefaultChannel (packages S ! i)"
    "j < length (channels S) \<Longrightarrow> mc_Package (channels S' ! j) = mc_Package (channels S ! j) \<and>
       mc_Name (channels S' ! j) = mc_Name (channels S ! j) \<and> mc_Bundles (channels S' ! j) = mc_Bundles (channels S ! j) \<and>
       mc_Properties (channels S' ! j) = mc_Properties (channels S ! j)"
    "a < length (bundles S) \<Longrightarrow> mb_Package (bundles S' ! a) = mb_Package (bundles S ! a) \<and>
       mb_Channel (bundles S' ! a) = mb_Channel (bundles S ! a) \<and> entry_of_model (bundles S' ! a) = entry_of_model (bundles S ! a) \<and>
       mb_Name (bundles S' ! a) = mb_Name (bundles S ! a)"
proof -
  note p = map_eq_nth [OF assms [unfolded same_shape_def, THEN conjunct1]]
    and c = map_eq_nth [OF assms [unfolded same_shape_def, THEN conjunct2, THEN conjunct1]]
    and b = map_eq_nth [OF assms [unfolded same_shape_def, THEN conjunct2, THEN conjunct2]]
  show "length (packages S') = length (packages S)" "length (channels S') = length (channels S)"
    "length (bundles S') = length (bundles S)" using p c b by simp_all
  have "(packages S ! i)\<lparr>mp_Deprecation := None\<rparr> = (packages S' ! i)\<lparr>mp_Deprecation := None\<rparr>" if "i < length (packages S)"
    using p that by blast
  then show "i < length (packages S) \<Longrightarrow> mp_Name (packages S' ! i) = mp_Name (packages S ! i) \<and>
       mp_Description (packages S' ! i) = mp_Description (packages S ! i) \<and> mp_Icon (packages S' ! i) = mp_Icon (packages S ! i) \<and>
       mp_Channels (packages S' ! i) = mp_Channels (packages S ! i) \<and>
       mp_DefaultChannel (packages S' ! i) = mp_DefaultChannel (packages S ! i)"
    by (cases "packages S ! i"; cases "packages S' ! i") simp
  have "(channels S ! j)\<lparr>mc_Deprecation := None\<rparr> = (channels S' ! j)\<lparr>mc_Deprecation := None\<rparr>" if "j < length (channels S)"
    using c that by blast
  then show "j < length (channels S) \<Longrightarrow> mc_Package (channels S' ! j) = mc_Package (channels S ! j) \<and>
       mc_Name (channels S' ! j) = mc_Name (channels S ! j) \<and> mc_Bundles (channels S' ! j) = mc_Bundles (channels S ! j) \<and>
       mc_Properties (channels S' ! j) = mc_Properties (channels S ! j)"
    by (cases "channels S ! j"; cases "channels S' ! j") simp
  have "entry_of_model (bundles S ! a) = entry_of_model (bundles S' ! a) \<and> mb_Package (bundles S ! a) = mb_Package (bundles S' ! a) \<and>
      mb_Channel (bundles S ! a) = mb_Channel (bundles S' ! a)" if "a < length (bundles S)" using b that by blast
  then show "a < length (bundles S) \<Longrightarrow> mb_Package (bundles S' ! a) = mb_Package (bundles S ! a) \<and>
       mb_Channel (bundles S' ! a) = mb_Channel (bundles S ! a) \<and> entry_of_model (bundles S' ! a) = entry_of_model (bundles S ! a) \<and>
       mb_Name (bundles S' ! a) = mb_Name (bundles S ! a)"
    by (auto simp: entry_of_model_def)
qed

lemma built_shape:
  assumes "same_shape S S'" "config_built ps cs S"
  shows "config_built ps cs S'"
proof -
  note s = same_shapeD [OF assms(1)]
  have "package_built cs (ps ! i) (packages S' ! i)" if "i < length ps" for i
  proof -
    have i: "package_built cs (ps ! i) (packages S ! i)" "i < length (packages S)" using assms(2) that by (auto simp: config_built_def)
    have "package_built cs (ps ! i) (packages S' ! i) \<longleftrightarrow> package_built cs (ps ! i) (packages S ! i)"
      unfolding package_built_def by (simp only: s(4) [OF i(2)])
    then show ?thesis using i(1) by simp
  qed
  moreover have "channel_built ps cs S' j" if j: "j < length cs" for j
  proof -
    have c: "channel_built ps cs S j" "j < length (channels S)" using assms(2) j by (auto simp: config_built_def)
    then have lt: "a < length (bundles S)" if "(k, a) \<in> set (mc_Bundles (channels S ! j))" for k a
      using that unfolding channel_built_def by blast
    then have e: "map (\<lambda>(k, a). entry_of_model (bundles S' ! a)) (mc_Bundles (channels S ! j)) =
        map (\<lambda>(k, a). entry_of_model (bundles S ! a)) (mc_Bundles (channels S ! j))" using s(6) by auto
    have "(\<forall>(k, a) \<in> set (mc_Bundles (channels S ! j)). a < length (bundles S') \<and> mb_Name (bundles S' ! a) = k \<and>
           mb_Package (bundles S' ! a) = Some i \<and> mb_Channel (bundles S' ! a) = Some j) \<longleftrightarrow>
        (\<forall>(k, a) \<in> set (mc_Bundles (channels S ! j)). a < length (bundles S) \<and> mb_Name (bundles S ! a) = k \<and>
           mb_Package (bundles S ! a) = Some i \<and> mb_Channel (bundles S ! a) = Some j)" for i
      using lt s(3,6) by auto
    then have "channel_built ps cs S' j \<longleftrightarrow> channel_built ps cs S j"
      unfolding channel_built_def by (simp only: s(5) [OF c(2)] e)
    then show ?thesis using c(1) by simp
  qed
  ultimately show ?thesis using assms(2) s(1,2) by (simp add: config_built_def)
qed

lemma nth_update_at: "x < length bs \<Longrightarrow> bs[a := v] ! x = (if x = a then v else bs ! x)"
  by auto

lemma update_bundles_nth:
  assumes "\<And>b. f (f b) = f b" "x < length (bundles S)"
  shows "bundles (update_bundles f as S) ! x = (if x \<in> set as then f (bundles S ! x) else bundles S ! x)"
proof -
  have "foldl (\<lambda>bs a. bs[a := f (bs ! a)]) bs as ! x = (if x \<in> set as then f (bs ! x) else bs ! x)" if "x < length bs" for bs
    using that by (induction as arbitrary: bs) (auto simp: nth_update_at assms(1))
  then show ?thesis using assms(2) by (simp add: update_bundles_def)
qed

lemma update_bundles_shape:
  assumes "\<And>b. mb_Package (f b) = mb_Package b \<and> mb_Channel (f b) = mb_Channel b \<and> entry_of_model (f b) = entry_of_model b"
  shows "same_shape S (update_bundles f as S)" "channels (update_bundles f as S) = channels S"
    "packages (update_bundles f as S) = packages S" "length (bundles (update_bundles f as S)) = length (bundles S)"
proof -
  let ?g = "\<lambda>b. (mb_Package b, mb_Channel b, entry_of_model b)"
  have "map ?g (foldl (\<lambda>bs a. bs[a := f (bs ! a)]) bs as) = map ?g bs" for bs
  proof (induction as arbitrary: bs)
    case (Cons a as)
    have "map ?g (bs[a := f (bs ! a)]) = map ?g bs"
      by (rule nth_equalityI) (simp_all add: nth_update_at assms)
    then show ?case using Cons.IH [of "bs[a := f (bs ! a)]"] by simp
  qed simp
  then show "same_shape S (update_bundles f as S)" by (simp add: same_shape_def update_bundles_def)
  have "length (foldl (\<lambda>bs a. bs[a := f (bs ! a)]) bs as) = length bs" for bs
    by (induction as arbitrary: bs) simp_all
  then show "length (bundles (update_bundles f as S)) = length (bundles S)" by (simp add: update_bundles_def)
qed (simp_all add: update_bundles_def)

subsection \<open>Bundles\<close>

definition content :: "cfg_Bundle \<Rightarrow> ('v, 'o, 'm) model_Bundle \<Rightarrow> bool" where
  "content b mb \<longleftrightarrow> mb_Image mb = db_Image b \<and> mb_Properties mb = db_Properties b \<and>
     mb_RelatedImages mb = relatedImagesToModelRelatedImages (db_RelatedImages b) \<and> mb_CsvJSON mb = db_CsvJSON b \<and>
     mb_Objects mb = db_Objects b"

definition filled :: "cfg_Channel list \<Rightarrow> cfg_Bundle list \<Rightarrow> ('v, 'o, 'm) store \<Rightarrow> bool" where
  "filled cs bs S \<longleftrightarrow>
     (\<forall>j < length cs. \<forall>(k, a) \<in> set (mc_Bundles (channels S ! j)).
        case find (\<lambda>b. db_Package b = dc_Package (cs ! j) \<and> db_Name b = k) bs of
          None \<Rightarrow> mb_Properties (bundles S ! a) = []
        | Some b \<Rightarrow> content b (bundles S ! a))"

definition bundles_built ::
    "cfg_Package list \<Rightarrow> cfg_Channel list \<Rightarrow> cfg_Bundle list \<Rightarrow> ('v, 'o, 'm) conversion \<Rightarrow> bool" where
  "bundles_built ps cs bs cv \<longleftrightarrow>
     config_built ps cs (cv_store cv) \<and> filled cs bs (cv_store cv) \<and> cv_mpkgs cv = zip (map dp_Name ps) [0..<length ps] \<and>
     cv_defaultChannels cv = map (\<lambda>p. (dp_Name p, dp_DefaultChannel p)) ps \<and>
     (\<forall>n. set (names_at (cv_packageBundles cv) n) = {db_Name b |b. b \<in> set bs \<and> db_Package b = n}) \<and>
     distinct (map (\<lambda>b. (db_Package b, db_Name b)) bs) \<and>
     (\<forall>b \<in> set bs. \<exists>c \<in> set cs. dc_Package c = db_Package b \<and> db_Name b \<in> de_Name ` set (dc_Entries c))"

lemma built_keys:
  assumes "config_built ps cs S" "j < length cs"
  shows "map fst (mc_Bundles (channels S ! j)) = map de_Name (dc_Entries (cs ! j))"
proof -
  have c: "channel_built ps cs S j" using assms by (simp add: config_built_def)
  then have e: "map (\<lambda>(k, a). entry_of_model (bundles S ! a)) (mc_Bundles (channels S ! j)) = dc_Entries (cs ! j)"
    and n: "\<forall>(k, a) \<in> set (mc_Bundles (channels S ! j)). mb_Name (bundles S ! a) = k"
    unfolding channel_built_def by blast+
  show ?thesis unfolding e [symmetric] using n by (auto simp: entry_of_model_def)
qed

lemma found_iff:
  assumes "permutes rng" "config_built ps cs S" "j < length cs" "i < length ps" "(k, a) \<in> set (mc_Bundles (channels S ! j))"
  shows "a \<in> set (bundles_named rng S i n) \<longleftrightarrow> dc_Package (cs ! j) = dp_Name (ps ! i) \<and> k = n"
proof -
  have p: "package_built cs (ps ! i) (packages S ! i)" and c: "\<And>j. j < length cs \<Longrightarrow> channel_built ps cs S j"
    using assms(2,4) by (auto simp: config_built_def)
  have chs: "mp_Channels (packages S ! i) = map (\<lambda>j. (dc_Name (cs ! j), j)) (filter (\<lambda>j. dc_Package (cs ! j) = dp_Name (ps ! i)) [0..<length cs])"
    using p unfolding package_built_def by blast
  have a: "mb_Name (bundles S ! a) = k" "mb_Channel (bundles S ! a) = Some j" "distinct (map fst (mc_Bundles (channels S ! j)))"
    using c [OF assms(3)] assms(5) unfolding channel_built_def by blast+
  have "a \<in> set (bundles_named rng S i n) \<longleftrightarrow>
      (\<exists>j' < length cs. dc_Package (cs ! j') = dp_Name (ps ! i) \<and> map_of (mc_Bundles (channels S ! j')) n = Some a)"
    unfolding bundles_named_def List.map_filter_def by (force simp: permutes_set [OF assms(1)] chs)
  also have "\<dots> \<longleftrightarrow> dc_Package (cs ! j) = dp_Name (ps ! i) \<and> k = n"
  proof
    assume "\<exists>j' < length cs. dc_Package (cs ! j') = dp_Name (ps ! i) \<and> map_of (mc_Bundles (channels S ! j')) n = Some a"
    then obtain j' where j': "j' < length cs" "dc_Package (cs ! j') = dp_Name (ps ! i)" "(n, a) \<in> set (mc_Bundles (channels S ! j'))"
      by (auto dest: map_of_SomeD)
    then have "mb_Name (bundles S ! a) = n" "mb_Channel (bundles S ! a) = Some j'"
      using c [OF j'(1)] unfolding channel_built_def by blast+
    then show "dc_Package (cs ! j) = dp_Name (ps ! i) \<and> k = n" using a j'(2) by simp
  next
    assume "dc_Package (cs ! j) = dp_Name (ps ! i) \<and> k = n"
    then show "\<exists>j' < length cs. dc_Package (cs ! j') = dp_Name (ps ! i) \<and> map_of (mc_Bundles (channels S ! j')) n = Some a"
      using assms(3,5) a(3) by (intro exI [of _ j]) (simp add: map_of_eq_Some_iff)
  qed
  finally show ?thesis .
qed

lemma fill_bundle_keeps:
  "fill_bundle b props ver (fill_bundle b props ver x) = fill_bundle b props ver x"
  "mb_Package (fill_bundle b props ver x) = mb_Package x \<and> mb_Channel (fill_bundle b props ver x) = mb_Channel x \<and>
   entry_of_model (fill_bundle b props ver x) = entry_of_model x"
  "content b (fill_bundle b props ver x)"
  by (simp_all add: fill_bundle_def entry_of_model_def content_def)

lemma convert_bundle_built:
  assumes rng: "permutes rng" and "bundles_built ps cs bs cv" "convert_bundle D V rng b cv = Inr cv'"
  shows "bundles_built ps cs (bs @ [b]) cv'"
proof -
  let ?S = "cv_store cv" and ?key = "\<lambda>b. (db_Package b, db_Name b)"
  have b: "config_built ps cs ?S" and f: "filled cs bs ?S" and m: "cv_mpkgs cv = zip (map dp_Name ps) [0..<length ps]"
    and d: "cv_defaultChannels cv = map (\<lambda>p. (dp_Name p, dp_DefaultChannel p)) ps"
    and pb: "\<And>n. set (names_at (cv_packageBundles cv) n) = {db_Name b |b. b \<in> set bs \<and> db_Package b = n}"
    and dist: "distinct (map ?key bs)"
    and ent: "\<forall>b \<in> set bs. \<exists>c \<in> set cs. dc_Package c = db_Package b \<and> db_Name b \<in> de_Name ` set (dc_Entries c)"
    using assms(2) unfolding bundles_built_def by blast+
  have names: "distinct (map dp_Name ps)" and len: "length (channels ?S) = length cs" using b by (auto simp: config_built_def)
  obtain i props ver where i: "map_of (cv_mpkgs cv) (db_Package b) = Some i"
    and new: "db_Name b \<notin> set (names_at (cv_packageBundles cv) (db_Package b))"
    and found: "bundles_named rng ?S i (db_Name b) \<noteq> []"
    and S': "cv_store cv' = update_bundles (fill_bundle b props ver) (bundles_named rng ?S i (db_Name b)) ?S"
    and cv': "cv_mpkgs cv' = cv_mpkgs cv" "cv_defaultChannels cv' = cv_defaultChannels cv"
      "cv_packageBundles cv' = AList.update (db_Package b) (db_Name b # names_at (cv_packageBundles cv) (db_Package b)) (cv_packageBundles cv)"
    using assms(3) by (auto simp: convert_bundle_def Let_def split: if_splits option.splits sum.splits list.splits)
  have ilt: "i < length ps" and iname: "dp_Name (ps ! i) = db_Package b" using i unfolding m mpkgs_at [OF names] by auto
  note shape = update_bundles_shape [where f = "fill_bundle b props ver" and as = "bundles_named rng ?S i (db_Name b)" and S = ?S,
      OF fill_bundle_keeps(2), folded S']
  have config_built': "config_built ps cs (cv_store cv')" by (rule built_shape [OF shape(1) b])
  have key: "?key b \<notin> ?key ` set bs" using new unfolding pb by auto
  have "case find (\<lambda>b'. db_Package b' = dc_Package (cs ! j) \<and> db_Name b' = k) (bs @ [b]) of
          None \<Rightarrow> mb_Properties (bundles (cv_store cv') ! a) = [] | Some b \<Rightarrow> content b (bundles (cv_store cv') ! a)"
    if j: "j < length cs" and ka: "(k, a) \<in> set (mc_Bundles (channels ?S ! j))" for j k a
  proof -
    let ?P = "\<lambda>b'. db_Package b' = dc_Package (cs ! j) \<and> db_Name b' = k"
    have "channel_built ps cs ?S j" using b j by (simp add: config_built_def)
    then have a: "a < length (bundles ?S)" using ka unfolding channel_built_def by blast
    have old: "case find ?P bs of None \<Rightarrow> mb_Properties (bundles ?S ! a) = [] | Some b \<Rightarrow> content b (bundles ?S ! a)"
      using f j ka unfolding filled_def by blast
    note nth = update_bundles_nth [where f = "fill_bundle b props ver" and as = "bundles_named rng ?S i (db_Name b)" and S = ?S,
        OF fill_bundle_keeps(1) a, folded S']
    note iff = found_iff [OF rng b j ilt ka, of "db_Name b", unfolded iname]
    show ?thesis
    proof (cases "?P b")
      case True
      have "find ?P bs = None" using key True by (fastforce simp: find_None_iff image_iff)
      then show ?thesis using nth iff True fill_bundle_keeps(3) by (simp add: find_append)
    next
      case False
      have e: "find ?P (bs @ [b]) = find ?P bs" using False by (auto simp: find_append split: option.split)
      have e': "bundles (cv_store cv') ! a = bundles ?S ! a" using nth iff False by auto
      show ?thesis unfolding e e' by (rule old)
    qed
  qed
  then have filled': "filled cs (bs @ [b]) (cv_store cv')" using shape(2) unfolding filled_def by auto
  have "set (names_at (cv_packageBundles cv') n) = {db_Name x |x. x \<in> set (bs @ [b]) \<and> db_Package x = n}" for n
  proof -
    have "set (names_at (cv_packageBundles cv') n) =
        (if n = db_Package b then {db_Name b} else {}) \<union> set (names_at (cv_packageBundles cv) n)"
      by (auto simp: cv' names_at_def alist_simps)
    then show ?thesis unfolding pb by auto
  qed
  moreover have "\<exists>c \<in> set cs. dc_Package c = db_Package b \<and> db_Name b \<in> de_Name ` set (dc_Entries c)"
  proof -
    obtain a where "a \<in> set (bundles_named rng ?S i (db_Name b))" using found by (cases "bundles_named rng ?S i (db_Name b)") auto
    then obtain n j where nj: "(n, j) \<in> set (mp_Channels (packages ?S ! i))" "map_of (mc_Bundles (channels ?S ! j)) (db_Name b) = Some a"
      unfolding bundles_named_def List.map_filter_def by (auto simp: permutes_set [OF rng])
    have "package_built cs (ps ! i) (packages ?S ! i)" using b ilt by (simp add: config_built_def)
    then have j: "j < length cs" "dc_Package (cs ! j) = db_Package b" using nj(1) iname by (auto simp: package_built_def)
    have "db_Name b \<in> set (map fst (mc_Bundles (channels ?S ! j)))" using nj(2) by (force dest: map_of_SomeD)
    then show ?thesis using j built_keys [OF b j(1)] by (intro bexI [of _ "cs ! j"]) auto
  qed
  ultimately show ?thesis using config_built' filled' m d dist key ent cv' by (simp add: bundles_built_def)
qed

lemma convert_bundles:
  assumes "permutes rng" "channels_built ps cs cv" "each (convert_bundle D V rng) bs cv = Inr cv'"
  shows "bundles_built ps cs bs cv'"
  using assms(3)
proof (rule each_prefix)
  have b: "config_built ps cs (cv_store cv)" and none: "\<forall>b \<in> set (bundles (cv_store cv)). mb_Properties b = []"
    using assms(2) by (auto simp: channels_built_def)
  have "mb_Properties (bundles (cv_store cv) ! a) = []" if "j < length cs" "(k, a) \<in> set (mc_Bundles (channels (cv_store cv) ! j))" for j k a
  proof -
    have "channel_built ps cs (cv_store cv) j" using b that(1) by (simp add: config_built_def)
    then have "a < length (bundles (cv_store cv))" using that(2) unfolding channel_built_def by blast
    then show ?thesis using none by simp
  qed
  then have "filled cs [] (cv_store cv)" by (auto simp: filled_def)
  then show "bundles_built ps cs [] cv" using assms(2) by (simp add: bundles_built_def channels_built_def names_at_def)
qed (rule convert_bundle_built [OF assms(1)])

subsection \<open>Default channels and deprecations\<close>

text \<open>A package with a channel that has no bundles, as a default channel that is not defined\<close>

definition hollow :: "addr set \<Rightarrow> ('v, 'o, 'm) store \<Rightarrow> bool" where
  "hollow A S \<longleftrightarrow> (\<exists>p \<in> A. p < length (packages S) \<and>
     (\<exists>(k, c) \<in> set (mp_Channels (packages S ! p)). c < length (channels S) \<and> mc_Bundles (channels S ! c) = []))"

lemma update_mem: "(k, v) \<in> set (AList.update k v al)" "(k', v') \<in> set al \<Longrightarrow> k' \<noteq> k \<Longrightarrow> (k', v') \<in> set (AList.update k v al)"
  by (induction al) auto

lemma default_channel_hollow:
  assumes "hollow A S \<or> default_channel defaults S p \<noteq> S" "p \<in> A" "A \<subseteq> {..<length (packages S)}"
  shows "hollow A (default_channel defaults S p)"
proof (cases "default_channel defaults S p = S")
  case False
  then obtain name where S': "default_channel defaults S p = S\<lparr>channels := channels S @ [\<lparr>mc_Package = Some p, mc_Name = name, mc_Bundles = [],
        mc_Deprecation = None, mc_Properties = []\<rparr>],
      packages := (packages S)[p := (packages S ! p)\<lparr>mp_DefaultChannel := Some (length (channels S)),
        mp_Channels := AList.update name (length (channels S)) (mp_Channels (packages S ! p))\<rparr>]\<rparr>"
    by (auto simp: default_channel_def Let_def split: if_splits)
  have "p < length (packages S)" using assms(2,3) by auto
  then show ?thesis unfolding hollow_def S' using assms(2) update_mem(1) [of name "length (channels S)" "mp_Channels (packages S ! p)"]
    by (intro bexI [of _ p]) (auto intro!: bexI [of _ "(name, length (channels S))"])
qed (use assms in auto)

lemma default_channels:
  assumes "A \<subseteq> {..<length (packages S)}" "set as \<subseteq> A"
  shows "foldl (default_channel defaults) S as = S \<or> hollow A (foldl (default_channel defaults) S as)"
proof -
  have "hollow A (foldl (default_channel defaults) S as)" if "hollow A S \<or> foldl (default_channel defaults) S as \<noteq> S"
    using that assms
  proof (induction as arbitrary: S)
    case (Cons a as)
    have "length (packages (default_channel defaults S a)) = length (packages S)" by (simp add: default_channel_def Let_def)
    moreover have "hollow A (default_channel defaults S a) \<or> foldl (default_channel defaults) (default_channel defaults S a) as \<noteq> default_channel defaults S a"
      using Cons.prems default_channel_hollow [of A S defaults a] by auto
    ultimately show ?case using Cons.IH [of "default_channel defaults S a"] Cons.prems by simp
  qed simp
  then show ?thesis by blast
qed

lemma valid_not_hollow: "valid_model D V S m \<Longrightarrow> \<not> hollow (snd ` set m) S"
  unfolding hollow_def valid_model_def valid_package_def valid_channel_def Let_def by fastforce

lemma hollow_shape:
  assumes "same_shape S S'" "hollow A S"
  shows "hollow A S'"
  using assms(2) same_shapeD(1,2,4,5) [OF assms(1)] unfolding hollow_def by fastforce

text \<open>Deprecations change nothing else.\<close>

definition only_deprecated :: "('v, 'o, 'm) store \<Rightarrow> ('v, 'o, 'm) store \<Rightarrow> bool" where
  "only_deprecated S S' \<longleftrightarrow> same_shape S S' \<and>
     map (\<lambda>b. b\<lparr>mb_Deprecation := None\<rparr>) (bundles S) = map (\<lambda>b. b\<lparr>mb_Deprecation := None\<rparr>) (bundles S')"

lemma map_update_same: "(\<And>x. f (g x) = f x) \<Longrightarrow> map f (xs[a := g (xs ! a)]) = map f xs"
  by (rule nth_equalityI) (simp_all add: nth_update_at)

lemma only_deprecated_trans: "only_deprecated S S' \<Longrightarrow> only_deprecated S' S'' \<Longrightarrow> only_deprecated S S''"
  using same_shape_trans by (auto simp: only_deprecated_def)

lemma deprecated_bundles: "only_deprecated T (update_bundles (\<lambda>b. b\<lparr>mb_Deprecation := d\<rparr>) as T)"
proof -
  have "map (\<lambda>b. b\<lparr>mb_Deprecation := None\<rparr>) (foldl (\<lambda>bs a. bs[a := (bs ! a)\<lparr>mb_Deprecation := d\<rparr>]) bs as) =
      map (\<lambda>b. b\<lparr>mb_Deprecation := None\<rparr>) bs" for bs :: "('a, 'b, 'c) model_Bundle list"
    by (induction as arbitrary: bs) (simp_all add: map_update_same [where g = "\<lambda>b. b\<lparr>mb_Deprecation := d\<rparr>"])
  moreover have "same_shape T (update_bundles (\<lambda>b. b\<lparr>mb_Deprecation := d\<rparr>) as T)"
    by (rule update_bundles_shape) (simp add: entry_of_model_def)
  ultimately show ?thesis by (simp add: only_deprecated_def update_bundles_def)
qed

lemma deprecated_package: "only_deprecated T (T\<lparr>packages := (packages T)[i := (packages T ! i)\<lparr>mp_Deprecation := d\<rparr>]\<rparr>)"
  by (simp add: only_deprecated_def same_shape_def map_update_same [where g = "\<lambda>p. p\<lparr>mp_Deprecation := d\<rparr>"])

lemma deprecated_channel: "only_deprecated T (T\<lparr>channels := (channels T)[i := (channels T ! i)\<lparr>mc_Deprecation := d\<rparr>]\<rparr>)"
  by (simp add: only_deprecated_def same_shape_def map_update_same [where g = "\<lambda>c. c\<lparr>mc_Deprecation := d\<rparr>"])

lemma deprecate_entry_only:
  assumes "deprecate_entry rng pb pkg mpkg e (refs, S) = Inr (refs', S')"
  shows "only_deprecated S S'"
  using assms deprecated_bundles deprecated_package deprecated_channel
  by (auto simp: deprecate_entry_def Let_def split: prod.splits if_splits option.splits)

lemma deprecate_only:
  assumes "deprecate rng m pb d s = Inr s'"
  shows "only_deprecated (snd s) (snd s')"
proof -
  obtain mpkg refs where e: "each (deprecate_entry rng pb (dx_Package (snd d)) mpkg)
      (zip [0..<length (dx_Entries (snd d))] (dx_Entries (snd d))) ([], snd s) = Inr (refs, snd s')"
    using assms by (cases d; cases s) (auto simp: deprecate_def map_sum_Inr split: if_splits option.splits)
  have "only_deprecated (snd s) (snd (refs, snd s'))"
    using e
  proof (rule each_invariant [where P = "\<lambda>t. only_deprecated (snd s) (snd t)"])
    show "only_deprecated (snd s) (snd ([], snd s))" by (simp add: only_deprecated_def)
    show "only_deprecated (snd s) (snd t')" if "only_deprecated (snd s) (snd t)" "deprecate_entry rng pb (dx_Package (snd d)) mpkg x t = Inr t'" for x t t'
      using that deprecate_entry_only [of rng pb "dx_Package (snd d)" mpkg x "fst t" "snd t" "fst t'" "snd t'"] only_deprecated_trans by auto
  qed
  then show ?thesis by simp
qed

lemma deprecations_only:
  assumes "each (deprecate rng m pb) ds ([], S) = Inr (seen, S')"
  shows "only_deprecated S S'"
proof -
  have "only_deprecated S (snd (seen, S'))"
    using assms by (rule each_invariant [where P = "\<lambda>t. only_deprecated S (snd t)"])
      (auto simp: only_deprecated_def [of S S] dest: deprecate_only intro: only_deprecated_trans)
  then show ?thesis by simp
qed

subsection \<open>The model\<close>

definition normal_bundle :: "('v, 'o, 'm) model_Bundle \<Rightarrow> ('v, 'o, 'm) model_Bundle" where
  "normal_bundle b = b\<lparr>mb_Properties := map normal_property (mb_Properties b)\<rparr>"

lemma normal_bundle_keeps:
  "normal_bundle (normal_bundle b) = normal_bundle b"
  "mb_Package (normal_bundle b) = mb_Package b \<and> mb_Channel (normal_bundle b) = mb_Channel b \<and>
   entry_of_model (normal_bundle b) = entry_of_model b"
  by (simp_all add: normal_bundle_def entry_of_model_def normal_idem)

lemma foldl_normalize: "foldl normalize_bundle S as = update_bundles normal_bundle as S"
proof (induction as arbitrary: S)
  case (Cons a as)
  then show ?case by (simp add: normalize_bundle_def update_bundles_def normal_bundle_def)
qed (simp add: update_bundles_def)

definition model_of :: "cfg_Package list \<Rightarrow> Model" where
  "model_of ps = zip (map dp_Name ps) [0..<length ps]"

text \<open>Each entry has the normalized content of the bundle of its name, and each bundle has an entry.\<close>

definition complete :: "cfg_Channel list \<Rightarrow> cfg_Bundle list \<Rightarrow> ('v, 'o, 'm) store \<Rightarrow> bool" where
  "complete cs bs S \<longleftrightarrow>
     (\<forall>j < length cs. \<forall>(k, a) \<in> set (mc_Bundles (channels S ! j)).
        \<exists>b \<in> set bs. db_Package b = dc_Package (cs ! j) \<and> db_Name b = k \<and>
          content (b\<lparr>db_Properties := map normal_property (db_Properties b)\<rparr>) (bundles S ! a)) \<and>
     (\<forall>b \<in> set bs. \<exists>c \<in> set cs. dc_Package c = db_Package b \<and> db_Name b \<in> de_Name ` set (dc_Entries c)) \<and>
     distinct (map (\<lambda>b. (db_Package b, db_Name b)) bs)"

lemma filled_deprecated:
  assumes "only_deprecated S S'" "config_built ps cs S" "filled cs bs S"
  shows "filled cs bs S'"
proof -
  have s: "same_shape S S'" using assms(1) by (simp add: only_deprecated_def)
  have b: "(bundles S ! a)\<lparr>mb_Deprecation := None\<rparr> = (bundles S' ! a)\<lparr>mb_Deprecation := None\<rparr>" if "a < length (bundles S)" for a
    using assms(1) that map_eq_nth unfolding only_deprecated_def by blast
  have "mb_Properties (bundles S' ! a) = mb_Properties (bundles S ! a) \<and> content x (bundles S' ! a) = content x (bundles S ! a)"
    if "a < length (bundles S)" for a x
    using b [OF that] by (cases "bundles S ! a"; cases "bundles S' ! a") (simp add: content_def)
  moreover have "a < length (bundles S)" if "j < length cs" "(k, a) \<in> set (mc_Bundles (channels S ! j))" for j k a
  proof -
    have "channel_built ps cs S j" using assms(2) that(1) by (simp add: config_built_def)
    then show ?thesis using that(2) unfolding channel_built_def by blast
  qed
  moreover have "mc_Bundles (channels S' ! j) = mc_Bundles (channels S ! j)" if "j < length cs" for j
    using same_shapeD(5) [OF s] that assms(2) by (simp add: config_built_def)
  ultimately show ?thesis using assms(3) unfolding filled_def by (fastforce split: option.splits)
qed

lemma convert_result:
  assumes "permutes rng" "sorts V" "ConvertToModel dns D V rng cfg = Inr (m, S')"
  shows "\<exists>S. S' = Normalize rng m S \<and> valid_model D V S m \<and> m = model_of (cfg_Packages cfg) \<and>
    config_built (cfg_Packages cfg) (cfg_Channels cfg) S \<and> filled (cfg_Channels cfg) (cfg_Bundles cfg) S \<and>
    (\<forall>b \<in> set (cfg_Bundles cfg). \<exists>c \<in> set (cfg_Channels cfg). dc_Package c = db_Package b \<and> db_Name b \<in> de_Name ` set (dc_Entries c)) \<and>
    distinct (map (\<lambda>b. (db_Package b, db_Name b)) (cfg_Bundles cfg))"
proof -
  let ?ps = "cfg_Packages cfg" and ?cs = "cfg_Channels cfg" and ?bs = "cfg_Bundles cfg"
  obtain cv1 cv2 cv seen S where
      1: "each (convert_package dns) ?ps start_conversion = Inr cv1" and 2: "each (convert_channel V) ?cs cv1 = Inr cv2"
      and 3: "each (convert_bundle D V rng) ?bs cv2 = Inr cv"
      and 4: "each (deprecate rng (cv_mpkgs cv) (cv_packageBundles cv)) (zip [0..<length (cfg_Deprecations cfg)] (cfg_Deprecations cfg))
        ([], foldl (default_channel (cv_defaultChannels cv)) (cv_store cv) (map snd (rng (cv_mpkgs cv)))) = Inr (seen, S)"
      and 5: "Model_Validate D V rng S (cv_mpkgs cv) = None" and m: "m = cv_mpkgs cv" "S' = Normalize rng m S"
    using assms(3) by (auto simp: ConvertToModel_def convert_blobs_def split: sum.splits option.splits)
  have b: "bundles_built ?ps ?cs ?bs cv"
    by (rule convert_bundles [OF assms(1) convert_channels [OF convert_packages [OF 1] 2] 3])
  let ?A = "snd ` set m" and ?S1 = "foldl (default_channel (cv_defaultChannels cv)) (cv_store cv) (map snd (rng (cv_mpkgs cv)))"
  have mm: "m = model_of ?ps" using b by (simp add: m bundles_built_def model_of_def)
  have valid: "valid_model D V S m" using 5 Model_valid [OF assms(1,2), of D S "cv_mpkgs cv"] by (simp add: m)
  have only: "only_deprecated ?S1 S" by (rule deprecations_only [OF 4])
  have "length (packages (cv_store cv)) = length ?ps" using b by (simp add: bundles_built_def config_built_def)
  then have "?A \<subseteq> {..<length (packages (cv_store cv))}" by (auto simp: mm model_of_def in_set_zip)
  moreover have "set (map snd (rng (cv_mpkgs cv))) \<subseteq> ?A" by (simp add: permutes_set [OF assms(1)] m)
  ultimately have "?S1 = cv_store cv \<or> hollow ?A ?S1" by (rule default_channels)
  moreover have "\<not> hollow ?A ?S1"
    using hollow_shape [of ?S1 S ?A] only valid_not_hollow [OF valid] by (auto simp: only_deprecated_def)
  ultimately have eq: "?S1 = cv_store cv" by blast
  have "config_built ?ps ?cs (cv_store cv)" "filled ?cs ?bs (cv_store cv)" using b by (auto simp: bundles_built_def)
  then have "config_built ?ps ?cs S" "filled ?cs ?bs S"
    using only built_shape filled_deprecated unfolding eq only_deprecated_def by blast+
  then show ?thesis using valid m(2) mm b unfolding bundles_built_def by blast
qed

lemma built_address:
  assumes "config_built ps cs S" "j < length cs" "(k, a) \<in> set (mc_Bundles (channels S ! j))"
  shows "a < length (bundles S)" "mb_Name (bundles S ! a) = k"
    "\<exists>i < length ps. dp_Name (ps ! i) = dc_Package (cs ! j) \<and> mb_Package (bundles S ! a) = Some i"
proof -
  have "channel_built ps cs S j" using assms(1,2) by (simp add: config_built_def)
  then show "a < length (bundles S)" "mb_Name (bundles S ! a) = k"
    "\<exists>i < length ps. dp_Name (ps ! i) = dc_Package (cs ! j) \<and> mb_Package (bundles S ! a) = Some i"
    using assms(3) unfolding channel_built_def by blast+
qed

lemma built_channel:
  assumes "config_built ps cs S" "j < length cs"
  shows "\<exists>i < length ps. dp_Name (ps ! i) = dc_Package (cs ! j) \<and> mc_Package (channels S ! j) = Some i \<and>
    (dc_Name (cs ! j), j) \<in> set (mp_Channels (packages S ! i))"
proof -
  have "channel_built ps cs S j" using assms by (simp add: config_built_def)
  then obtain i where i: "i < length ps" "dp_Name (ps ! i) = dc_Package (cs ! j)" "mc_Package (channels S ! j) = Some i"
    unfolding channel_built_def by blast
  moreover have "package_built cs (ps ! i) (packages S ! i)" using assms(1) i(1) by (simp add: config_built_def)
  then have "(dc_Name (cs ! j), j) \<in> set (mp_Channels (packages S ! i))" using assms(2) i(2) by (auto simp: package_built_def)
  ultimately show ?thesis by blast
qed

lemma Normalize_result:
  assumes "permutes rng" "m = model_of ps" "config_built ps cs S"
  shows "same_shape S (Normalize rng m S)"
    and "j < length cs \<Longrightarrow> (k, a) \<in> set (mc_Bundles (channels S ! j)) \<Longrightarrow> bundles (Normalize rng m S) ! a = normal_bundle (bundles S ! a)"
proof -
  let ?as = "concat (map (\<lambda>(k, p). package_bundles rng S (packages S ! p)) (rng m))"
  have N: "Normalize rng m S = update_bundles normal_bundle ?as S" by (simp add: Normalize_def foldl_normalize)
  show "same_shape S (Normalize rng m S)" unfolding N by (rule update_bundles_shape) (rule normal_bundle_keeps)
  assume j: "j < length cs" and ka: "(k, a) \<in> set (mc_Bundles (channels S ! j))"
  obtain i where i: "i < length ps" "(dc_Name (cs ! j), j) \<in> set (mp_Channels (packages S ! i))" using built_channel [OF assms(3) j] by blast
  have "a \<in> set (package_bundles rng S (packages S ! i))"
    using i(2) ka by (force simp: package_bundles_def permutes_set [OF assms(1)])
  moreover have "(dp_Name (ps ! i), i) \<in> set m" using i(1) by (force simp: assms(2) model_of_def in_set_zip)
  ultimately have "a \<in> set ?as" by (force simp: permutes_set [OF assms(1)])
  then show "bundles (Normalize rng m S) ! a = normal_bundle (bundles S ! a)"
    unfolding N using update_bundles_nth [where f = normal_bundle and S = S and as = ?as, OF normal_bundle_keeps(1) built_address(1) [OF assms(3) j ka]] by simp
qed

lemma convert_complete:
  assumes "permutes rng" "sorts V" "ConvertToModel dns D V rng cfg = Inr (m, S')"
  shows "m = model_of (cfg_Packages cfg)" "config_built (cfg_Packages cfg) (cfg_Channels cfg) S'"
    "complete (cfg_Channels cfg) (cfg_Bundles cfg) S'" "\<forall>i < length (cfg_Packages cfg). mp_DefaultChannel (packages S' ! i) \<noteq> None"
proof -
  let ?ps = "cfg_Packages cfg" and ?cs = "cfg_Channels cfg" and ?bs = "cfg_Bundles cfg"
  obtain S where S: "S' = Normalize rng m S" "valid_model D V S m" "m = model_of ?ps" "config_built ?ps ?cs S" "filled ?cs ?bs S"
      "\<forall>b \<in> set ?bs. \<exists>c \<in> set ?cs. dc_Package c = db_Package b \<and> db_Name b \<in> de_Name ` set (dc_Entries c)"
      "distinct (map (\<lambda>b. (db_Package b, db_Name b)) ?bs)"
    using convert_result [OF assms] by (elim exE conjE) (rule that)
  note n = Normalize_result [OF assms(1) S(3,4), folded S(1)]
  show "m = model_of ?ps" by (rule S(3))
  show "config_built ?ps ?cs S'" by (rule built_shape [OF n(1) S(4)])
  have pkg: "valid_package D V S i" if "i < length ?ps" for i
    using S(2) that unfolding valid_model_def S(3) model_of_def by (force simp: in_set_zip)
  show "\<forall>i < length ?ps. mp_DefaultChannel (packages S' ! i) \<noteq> None"
  proof (intro allI impI)
    fix i assume i: "i < length ?ps"
    then have "mp_DefaultChannel (packages S ! i) \<noteq> None" using pkg unfolding valid_package_def Let_def by auto
    then show "mp_DefaultChannel (packages S' ! i) \<noteq> None" using same_shapeD(4) [OF n(1), of i] i S(4) by (simp add: config_built_def)
  qed
  have "\<exists>b \<in> set ?bs. db_Package b = dc_Package (?cs ! j) \<and> db_Name b = k \<and>
          content (b\<lparr>db_Properties := map normal_property (db_Properties b)\<rparr>) (bundles S' ! a)"
    if j: "j < length ?cs" and ka: "(k, a) \<in> set (mc_Bundles (channels S ! j))" for j k a
  proof -
    let ?P = "\<lambda>b. db_Package b = dc_Package (?cs ! j) \<and> db_Name b = k"
    obtain i where i: "i < length ?ps" "(dc_Name (?cs ! j), j) \<in> set (mp_Channels (packages S ! i))" using built_channel [OF S(4) j] by blast
    have "valid_channel D S j" using pkg [OF i(1)] i(2) unfolding valid_package_def Let_def by blast
    then have "valid_bundle D S j (bundles S ! a)" using ka unfolding valid_channel_def channel_bundles_def Let_def by force
    then have "mb_Properties (bundles S ! a) \<noteq> []" by (auto simp: valid_bundle_def)
    moreover have "case find ?P ?bs of None \<Rightarrow> mb_Properties (bundles S ! a) = [] | Some b \<Rightarrow> content b (bundles S ! a)"
      using S(5) j ka unfolding filled_def by blast
    ultimately obtain b where b: "find ?P ?bs = Some b" "content b (bundles S ! a)" by (auto split: option.splits)
    then have "b \<in> set ?bs \<and> ?P b" by (metis (mono_tags, lifting) find_Some_iff nth_mem)
    then show ?thesis using b(2) n(2) [OF j ka] by (intro bexI [of _ b]) (auto simp: content_def normal_bundle_def)
  qed
  moreover have "mc_Bundles (channels S' ! j) = mc_Bundles (channels S ! j)" if "j < length ?cs" for j
    using same_shapeD(5) [OF n(1), of j] that S(4) by (simp add: config_built_def)
  ultimately show "complete ?cs ?bs S'" using S(6,7) unfolding complete_def by auto
qed

end
