(* ===== verification/Catalog_Back.thy ===== *)
theory Catalog_Back
  imports Catalog_Roundtrip
begin

text \<open>
  What \<^verbatim>\<open>ConvertFromModel\<close> writes for a model that \<^verbatim>\<open>ConvertToModel\<close> has built: the configuration in its canonical
  form \<open>clean_config\<close>, sorted, with the schemas filled in, the entries of channels sorted by name, and the properties of bundles
  compacted, without duplicates and sorted. Deprecations, package properties and other blobs are not written.
\<close>

subsection \<open>Canonical configurations\<close>

definition clean_package :: "cfg_Package \<Rightarrow> cfg_Package" where
  "clean_package p = p\<lparr>dp_Schema := SchemaPackage, dp_Properties := []\<rparr>"

definition clean_channel :: "cfg_Channel \<Rightarrow> cfg_Channel" where
  "clean_channel c = c\<lparr>dc_Schema := SchemaChannel, dc_Entries := go_sort (\<lambda>x y. de_Name x < de_Name y) (dc_Entries c)\<rparr>"

definition clean_bundle :: "cfg_Bundle \<Rightarrow> cfg_Bundle" where
  "clean_bundle b = b\<lparr>db_Schema := SchemaBundle,
     db_Properties := go_sort property_Less (Deduplicate (map normal_property (db_Properties b)))\<rparr>"

definition clean_config :: "DeclarativeConfig \<Rightarrow> DeclarativeConfig" where
  "clean_config cfg =
     \<lparr>cfg_Packages = go_sort (\<lambda>x y. dp_Name x < dp_Name y) (map clean_package (cfg_Packages cfg)),
      cfg_Channels = go_sort cfg_channel_Less (map clean_channel (cfg_Channels cfg)),
      cfg_Bundles = go_sort cfg_bundle_Less (map clean_bundle (cfg_Bundles cfg)),
      cfg_Deprecations = [], cfg_Others = []\<rparr>"

subsection \<open>Channels\<close>

lemma each_collect:
  assumes "\<And>x acc. x \<in> set xs \<Longrightarrow> f x acc = Inr (acc @ [g x])"
  shows "each f xs acc = Inr (acc @ map g xs)"
  using assms by (induction xs arbitrary: acc) auto

lemma clean_channel_of:
  assumes "permutes rng" "config_built ps cs S" "j < length cs"
  shows "add_channel_of rng S (k, j) acc = Inr (acc @ [clean_channel (cs ! j)])"
proof -
  obtain i where i: "i < length ps" "dp_Name (ps ! i) = dc_Package (cs ! j)" "mc_Package (channels S ! j) = Some i"
    and c: "mc_Name (channels S ! j) = dc_Name (cs ! j)" "mc_Properties (channels S ! j) = dc_Properties (cs ! j)"
      "map (\<lambda>(k, a). entry_of_model (bundles S ! a)) (mc_Bundles (channels S ! j)) = dc_Entries (cs ! j)"
      "distinct (map fst (mc_Bundles (channels S ! j)))"
    using assms(2,3) unfolding config_built_def channel_built_def by blast
  have "package_built cs (ps ! i) (packages S ! i)" using assms(2) i(1) by (simp add: config_built_def)
  then have pkg: "mp_Name (packages S ! i) = dc_Package (cs ! j)" using i(2) by (simp add: package_built_def)
  let ?es = "map (\<lambda>(k, a). entry_of_model (bundles S ! a)) (rng (mc_Bundles (channels S ! j)))"
  have "mset ?es = mset (dc_Entries (cs ! j))"
    using assms(1) unfolding c(3) [symmetric] permutes_def by simp
  moreover have "distinct (map de_Name (dc_Entries (cs ! j)))"
    using c(4) unfolding built_keys [OF assms(2,3)] .
  ultimately have "sort_key de_Name ?es = sort_key de_Name (dc_Entries (cs ! j))"
    by (metis distinct_map mset_eq_setD sort_key_unique)
  then show ?thesis using i c pkg
    by (simp add: add_channel_of_def package_name_def clean_channel_def go_sort_by_key)
qed

subsection \<open>Bundles\<close>

definition bundle_map_ok ::
    "cfg_Bundle list \<Rightarrow> string \<Rightarrow> string set \<Rightarrow> (string \<times> cfg_Bundle) list \<Rightarrow> bool" where
  "bundle_map_ok bs q names bm \<longleftrightarrow>
     distinct (map fst bm) \<and> fst ` set bm = names \<and>
     (\<forall>(n, v) \<in> set bm. \<exists>b \<in> set bs. db_Package b = q \<and> db_Name b = n \<and>
        v\<lparr>db_Properties := []\<rparr> = b\<lparr>db_Schema := SchemaBundle, db_Properties := []\<rparr> \<and>
        set (db_Properties v) = set (map normal_property (db_Properties b)))"

lemma related_images_roundtrip [simp]: "ModelRelatedImagesToRelatedImages (relatedImagesToModelRelatedImages xs) = xs"
  by (induction xs) (simp_all add: ModelRelatedImagesToRelatedImages_def relatedImagesToModelRelatedImages_def)

lemma add_bundle_step:
  assumes dist: "distinct (map (\<lambda>b. (db_Package b, db_Name b)) bs)" and ok: "bundle_map_ok bs q names bm"
    and b: "b \<in> set bs" "db_Package b = q" "db_Name b = mb_Name (bundles S ! a)"
    and content: "content (b\<lparr>db_Properties := map normal_property (db_Properties b)\<rparr>) (bundles S ! a)"
    and pkg: "mb_Package (bundles S ! a) = Some i" "mp_Name (packages S ! i) = q"
  shows "\<exists>bm'. add_bundle_of S a bm = Inr bm' \<and> bundle_map_ok bs q (insert (mb_Name (bundles S ! a)) names) bm'"
proof -
  let ?n = "mb_Name (bundles S ! a)" and ?props = "mb_Properties (bundles S ! a)"
  have unique: "x = b" if "x \<in> set bs" "db_Package x = q" "db_Name x = ?n" for x
    using dist that b by (metis (mono_tags, lifting) distinct_map inj_onD)
  have props: "?props = map normal_property (db_Properties b)" using content by (simp add: content_def)
  define v where "v = (case map_of bm ?n of Some v \<Rightarrow> v | None \<Rightarrow> b\<lparr>db_Schema := SchemaBundle, db_Properties := []\<rparr>)"
  have v: "v\<lparr>db_Properties := []\<rparr> = b\<lparr>db_Schema := SchemaBundle, db_Properties := []\<rparr> \<and>
      set (db_Properties v) \<subseteq> set (map normal_property (db_Properties b))"
  proof (cases "map_of bm ?n")
    case (Some w)
    then have "(?n, w) \<in> set bm" by (rule map_of_SomeD)
    then obtain x where "x \<in> set bs" "db_Package x = q" "db_Name x = ?n"
        "w\<lparr>db_Properties := []\<rparr> = x\<lparr>db_Schema := SchemaBundle, db_Properties := []\<rparr>"
        "set (db_Properties w) = set (map normal_property (db_Properties x))"
      using ok unfolding bundle_map_ok_def by blast
    then show ?thesis using unique Some by (simp add: v_def)
  qed (simp add: v_def)
  let ?v = "v\<lparr>db_Properties := db_Properties v @ ?props\<rparr>"
  have "\<lparr>db_Schema = SchemaBundle, db_Name = ?n, db_Package = q, db_Image = mb_Image (bundles S ! a), db_Properties = [],
      db_RelatedImages = ModelRelatedImagesToRelatedImages (mb_RelatedImages (bundles S ! a)),
      db_CsvJSON = mb_CsvJSON (bundles S ! a), db_Objects = mb_Objects (bundles S ! a)\<rparr> = b\<lparr>db_Schema := SchemaBundle, db_Properties := []\<rparr>"
    using content b(2,3) by (cases b) (simp add: content_def)
  then have "add_bundle_of S a bm = Inr (AList.update ?n ?v bm)"
    using pkg by (cases "map_of bm ?n") (simp_all add: add_bundle_of_def package_name_def v_def Let_def)
  moreover have "bundle_map_ok bs q (insert ?n names) (AList.update ?n ?v bm)"
  proof -
    have "\<exists>b \<in> set bs. db_Package b = q \<and> db_Name b = n \<and>
        x\<lparr>db_Properties := []\<rparr> = b\<lparr>db_Schema := SchemaBundle, db_Properties := []\<rparr> \<and>
        set (db_Properties x) = set (map normal_property (db_Properties b))" if nx: "(n, x) \<in> set (AList.update ?n ?v bm)" for n x
    proof (cases "(n, x) = (?n, ?v)")
      case True
      then show ?thesis using b v props by (intro bexI [of _ b]) auto
    next
      case False
      then have "(n, x) \<in> set bm" using nx update_entries [of ?n ?v bm] by auto
      then show ?thesis using ok unfolding bundle_map_ok_def by blast
    qed
    then show ?thesis using ok unfolding bundle_map_ok_def by (auto simp: keys_update)
  qed
  ultimately show ?thesis by blast
qed

lemma finish_clean:
  assumes "v\<lparr>db_Properties := []\<rparr> = b\<lparr>db_Schema := SchemaBundle, db_Properties := []\<rparr>"
    and "set (db_Properties v) = set (map normal_property (db_Properties b))"
  shows "finish_bundle v = clean_bundle b"
proof -
  let ?xs = "Deduplicate (db_Properties v)" and ?ys = "Deduplicate (map normal_property (db_Properties b))"
  have "mset ?xs = mset ?ys" using assms(2) by (simp add: set_eq_iff_mset_eq_distinct [symmetric])
  moreover have "inj_on (\<lambda>p. (pr_Type p, pr_Value p)) A" for A :: "property set"
    by (auto intro!: inj_onI property.equality)
  ultimately have "sort_key (\<lambda>p. (pr_Type p, pr_Value p)) ?xs = sort_key (\<lambda>p. (pr_Type p, pr_Value p)) ?ys"
    by (rule sort_key_unique)
  then have "go_sort property_Less ?xs = go_sort property_Less ?ys"
    unfolding property_Less_key by (simp only: go_sort_by_key [where f = "\<lambda>p. (pr_Type p, pr_Value p)"])
  then show ?thesis using assms(1) by (cases v; cases b) (simp add: finish_bundle_def clean_bundle_def)
qed

lemma bundle_map_mem:
  assumes "bundle_map_ok bs q names bm" "x \<in> set bm"
  shows "\<exists>b \<in> set bs. db_Package b = q \<and> db_Name b = fst x \<and>
    (snd x)\<lparr>db_Properties := []\<rparr> = b\<lparr>db_Schema := SchemaBundle, db_Properties := []\<rparr> \<and>
    set (db_Properties (snd x)) = set (map normal_property (db_Properties b))"
  using assms unfolding bundle_map_ok_def case_prod_beta by blast

lemma bundle_map_clean:
  assumes dist: "distinct (map (\<lambda>b. (db_Package b, db_Name b)) bs)"
    and ok: "bundle_map_ok bs q {db_Name b |b. b \<in> set bs \<and> db_Package b = q} bm"
  shows "mset (map (\<lambda>(k, b). finish_bundle b) bm) = mset (map clean_bundle (filter (\<lambda>b. db_Package b = q) bs))"
proof -
  have "\<forall>x \<in> set bm. \<exists>b. b \<in> set bs \<and> db_Package b = q \<and> db_Name b = fst x \<and> finish_bundle (snd x) = clean_bundle b"
  proof
    fix x assume "x \<in> set bm"
    then obtain b where "b \<in> set bs" "db_Package b = q" "db_Name b = fst x"
        "(snd x)\<lparr>db_Properties := []\<rparr> = b\<lparr>db_Schema := SchemaBundle, db_Properties := []\<rparr>"
        "set (db_Properties (snd x)) = set (map normal_property (db_Properties b))"
      using bundle_map_mem [OF ok] by blast
    then show "\<exists>b. b \<in> set bs \<and> db_Package b = q \<and> db_Name b = fst x \<and> finish_bundle (snd x) = clean_bundle b"
      using finish_clean by blast
  qed
  then obtain B where B: "\<And>x. x \<in> set bm \<Longrightarrow> B x \<in> set bs \<and> db_Package (B x) = q \<and> db_Name (B x) = fst x \<and> finish_bundle (snd x) = clean_bundle (B x)"
    by (auto dest!: bchoice)
  have fst: "map db_Name (map B bm) = map fst bm" using B by simp
  have "distinct (map B bm)" using ok unfolding bundle_map_ok_def fst [symmetric] by (metis distinct_map)
  moreover have "distinct (filter (\<lambda>b. db_Package b = q) bs)" using dist by (simp add: distinct_map)
  moreover have "set (map B bm) = set (filter (\<lambda>b. db_Package b = q) bs)"
  proof
    show "set (map B bm) \<subseteq> set (filter (\<lambda>b. db_Package b = q) bs)" using B by auto
    show "set (filter (\<lambda>b. db_Package b = q) bs) \<subseteq> set (map B bm)"
    proof
      fix b assume "b \<in> set (filter (\<lambda>b. db_Package b = q) bs)"
      then have b: "b \<in> set bs" "db_Package b = q" by auto
      then have "db_Name b \<in> fst ` set bm" using ok unfolding bundle_map_ok_def by blast
      then obtain x where x: "x \<in> set bm" "fst x = db_Name b" by auto
      then have "B x = b" using B [OF x(1)] b dist by (metis (mono_tags, lifting) distinct_map inj_onD)
      then show "b \<in> set (map B bm)" using x(1) by auto
    qed
  qed
  ultimately have "mset (map B bm) = mset (filter (\<lambda>b. db_Package b = q) bs)"
    using set_eq_iff_mset_eq_distinct [of "map B bm" "filter (\<lambda>b. db_Package b = q) bs"] by blast
  moreover have "map (\<lambda>(k, b). finish_bundle b) bm = map clean_bundle (map B bm)" using B by (auto simp: case_prod_beta)
  ultimately show ?thesis by (metis mset_map)
qed

lemma add_bundles:
  assumes "distinct (map (\<lambda>b. (db_Package b, db_Name b)) bs)" "bundle_map_ok bs q names bm"
    and "\<And>a. a \<in> set as \<Longrightarrow> \<exists>b \<in> set bs. db_Package b = q \<and> db_Name b = mb_Name (bundles S ! a) \<and>
      content (b\<lparr>db_Properties := map normal_property (db_Properties b)\<rparr>) (bundles S ! a)"
    and "\<And>a. a \<in> set as \<Longrightarrow> \<exists>i. mb_Package (bundles S ! a) = Some i \<and> mp_Name (packages S ! i) = q"
  shows "\<exists>bm'. each (add_bundle_of S) as bm = Inr bm' \<and> bundle_map_ok bs q (names \<union> (\<lambda>a. mb_Name (bundles S ! a)) ` set as) bm'"
  using assms(2-)
proof (induction as arbitrary: names bm)
  case (Cons a as)
  obtain b i where "b \<in> set bs" "db_Package b = q" "db_Name b = mb_Name (bundles S ! a)"
      "content (b\<lparr>db_Properties := map normal_property (db_Properties b)\<rparr>) (bundles S ! a)"
      "mb_Package (bundles S ! a) = Some i" "mp_Name (packages S ! i) = q"
    using Cons.prems(2,3) [of a] by auto
  then obtain bm1 where "add_bundle_of S a bm = Inr bm1" "bundle_map_ok bs q (insert (mb_Name (bundles S ! a)) names) bm1"
    using add_bundle_step [OF assms(1) Cons.prems(1)] by blast
  then show ?case using Cons.IH [of "insert (mb_Name (bundles S ! a)) names" bm1] Cons.prems(2,3) by simp
qed simp

lemma package_content:
  assumes "permutes rng" "config_built ps cs S" "complete cs bs S" "i < length ps"
  shows "\<exists>bl. traverseModelChannels rng S (packages S ! i) =
      Inr (map (\<lambda>(k, j). clean_channel (cs ! j)) (rng (mp_Channels (packages S ! i))), bl) \<and>
    mset bl = mset (map clean_bundle (filter (\<lambda>b. db_Package b = dp_Name (ps ! i)) bs))"
proof -
  let ?p = "packages S ! i" and ?q = "dp_Name (ps ! i)"
  have p: "package_built cs (ps ! i) ?p" using assms(2,4) by (simp add: config_built_def)
  have js: "set (mp_Channels ?p) = {(dc_Name (cs ! j), j) |j. j < length cs \<and> dc_Package (cs ! j) = ?q}"
    using p by (auto simp: package_built_def)
  have "each (add_channel_of rng S) (rng (mp_Channels ?p)) [] = Inr ([] @ map (\<lambda>(k, j). clean_channel (cs ! j)) (rng (mp_Channels ?p)))"
    by (rule each_collect) (auto simp: permutes_set [OF assms(1)] js clean_channel_of [OF assms(1,2)])
  moreover have as: "\<exists>j < length cs. dc_Package (cs ! j) = ?q \<and> (\<exists>k. (k, a) \<in> set (mc_Bundles (channels S ! j)))"
    if "a \<in> set (package_bundles rng S ?p)" for a
    using that by (auto simp: package_bundles_def permutes_set [OF assms(1)] js) blast
  have dist: "distinct (map (\<lambda>b. (db_Package b, db_Name b)) bs)" using assms(3) by (simp add: complete_def)
  have "\<exists>bm. each (add_bundle_of S) (package_bundles rng S ?p) [] = Inr bm \<and>
      bundle_map_ok bs ?q ({} \<union> (\<lambda>a. mb_Name (bundles S ! a)) ` set (package_bundles rng S ?p)) bm"
  proof (rule add_bundles [OF dist])
    show "bundle_map_ok bs ?q {} []" by (simp add: bundle_map_ok_def)
  next
    fix a assume "a \<in> set (package_bundles rng S ?p)"
    then obtain j k where j: "j < length cs" "dc_Package (cs ! j) = ?q" "(k, a) \<in> set (mc_Bundles (channels S ! j))" using as by blast
    note ad = built_address [OF assms(2) j(1,3)]
    show "\<exists>b \<in> set bs. db_Package b = ?q \<and> db_Name b = mb_Name (bundles S ! a) \<and>
      content (b\<lparr>db_Properties := map normal_property (db_Properties b)\<rparr>) (bundles S ! a)"
      using assms(3) j ad(2) unfolding complete_def by fastforce
    obtain i' where "i' < length ps" "dp_Name (ps ! i') = ?q" "mb_Package (bundles S ! a) = Some i'" using ad(3) j(2) by auto
    then show "\<exists>i. mb_Package (bundles S ! a) = Some i \<and> mp_Name (packages S ! i) = ?q"
      using assms(2) by (auto simp: config_built_def package_built_def)
  qed
  then obtain bm where bm: "each (add_bundle_of S) (package_bundles rng S ?p) [] = Inr bm"
      "bundle_map_ok bs ?q ((\<lambda>a. mb_Name (bundles S ! a)) ` set (package_bundles rng S ?p)) bm" by auto
  have "(\<lambda>a. mb_Name (bundles S ! a)) ` set (package_bundles rng S ?p) = {db_Name b |b. b \<in> set bs \<and> db_Package b = ?q}"
  proof
    show "(\<lambda>a. mb_Name (bundles S ! a)) ` set (package_bundles rng S ?p) \<subseteq> {db_Name b |b. b \<in> set bs \<and> db_Package b = ?q}"
    proof
      fix n assume "n \<in> (\<lambda>a. mb_Name (bundles S ! a)) ` set (package_bundles rng S ?p)"
      then obtain a where a: "a \<in> set (package_bundles rng S ?p)" "n = mb_Name (bundles S ! a)" by blast
      then obtain j k where j: "j < length cs" "dc_Package (cs ! j) = ?q" "(k, a) \<in> set (mc_Bundles (channels S ! j))" using as by blast
      then obtain b where "b \<in> set bs" "db_Package b = ?q" "db_Name b = k" using assms(3) unfolding complete_def by fastforce
      then show "n \<in> {db_Name b |b. b \<in> set bs \<and> db_Package b = ?q}" using a(2) built_address(2) [OF assms(2) j(1,3)] by auto
    qed
    show "{db_Name b |b. b \<in> set bs \<and> db_Package b = ?q} \<subseteq> (\<lambda>a. mb_Name (bundles S ! a)) ` set (package_bundles rng S ?p)"
    proof
      fix n assume "n \<in> {db_Name b |b. b \<in> set bs \<and> db_Package b = ?q}"
      then obtain b where b: "b \<in> set bs" "db_Package b = ?q" "n = db_Name b" by blast
      then obtain c where "c \<in> set cs" "dc_Package c = ?q" "n \<in> de_Name ` set (dc_Entries c)" using assms(3) unfolding complete_def by metis
      then obtain j where j: "j < length cs" "dc_Package (cs ! j) = ?q" "n \<in> set (map de_Name (dc_Entries (cs ! j)))"
        by (metis in_set_conv_nth set_map)
      then obtain a where a: "(n, a) \<in> set (mc_Bundles (channels S ! j))" unfolding built_keys [OF assms(2) j(1), symmetric] by auto
      have "a \<in> set (package_bundles rng S ?p)" using a j(1,2) by (force simp: package_bundles_def permutes_set [OF assms(1)] js)
      then show "n \<in> (\<lambda>a. mb_Name (bundles S ! a)) ` set (package_bundles rng S ?p)" using built_address(2) [OF assms(2) j(1) a] by force
    qed
  qed
  then have "mset (map (\<lambda>(k, b). finish_bundle b) bm) = mset (map clean_bundle (filter (\<lambda>b. db_Package b = ?q) bs))"
    using bundle_map_clean [OF dist] bm(2) by simp
  ultimately show ?thesis using bm(1) by (simp add: traverseModelChannels_def)
qed

subsection \<open>The whole configuration\<close>

lemma mset_groups:
  assumes "distinct qs"
  shows "mset (concat (map (\<lambda>q. filter (\<lambda>x. g x = q) xs) qs)) = mset (filter (\<lambda>x. g x \<in> set qs) xs)"
  using assms
proof (induction qs)
  case (Cons q qs)
  have "mset (filter (\<lambda>x. g x = q) xs) + mset (filter (\<lambda>x. g x \<in> set qs) xs) = mset (filter (\<lambda>x. g x \<in> set (q # qs)) xs)"
    using Cons.prems by (induction xs) auto
  then show ?case using Cons by simp
qed simp

lemma mset_concat_perm:
  assumes "mset xs = mset ys" and "\<And>y. y \<in> set ys \<Longrightarrow> mset (f y) = mset (g y)"
  shows "mset (concat (map f xs)) = mset (concat (map g ys))"
proof -
  have "mset (concat (map h zs)) = sum_mset (image_mset (\<lambda>z. mset (h z)) (mset zs))" for h :: "'a \<Rightarrow> 'b list" and zs
    by (induction zs) auto
  moreover have "image_mset (\<lambda>z. mset (f z)) (mset ys) = image_mset (\<lambda>z. mset (g z)) (mset ys)"
    by (rule image_mset_cong) (simp add: assms(2))
  ultimately show ?thesis using assms(1) by simp
qed

lemma collect_packages:
  assumes "\<And>k i. (k, i) \<in> set kps \<Longrightarrow> traverseModelChannels rng S (packages S ! i) = Inr (C i, B i)"
  shows "each (add_package_of rng S) kps cfg =
    Inr (cfg\<lparr>cfg_Packages := cfg_Packages cfg @ map (\<lambda>(k, i). package_of S (packages S ! i)) kps,
             cfg_Channels := cfg_Channels cfg @ concat (map (\<lambda>(k, i). C i) kps),
             cfg_Bundles := cfg_Bundles cfg @ concat (map (\<lambda>(k, i). B i) kps)\<rparr>)"
  using assms
proof (induction kps arbitrary: cfg)
  case (Cons x kps)
  obtain k i where x: "x = (k, i)" by force
  let ?cfg = "cfg\<lparr>cfg_Packages := cfg_Packages cfg @ [package_of S (packages S ! i)], cfg_Channels := cfg_Channels cfg @ C i,
      cfg_Bundles := cfg_Bundles cfg @ B i\<rparr>"
  have "add_package_of rng S x cfg = Inr ?cfg" using Cons.prems [of k i] by (simp add: x add_package_of_def)
  moreover have "traverseModelChannels rng S (packages S ! i') = Inr (C i', B i')" if "(k', i') \<in> set kps" for k' i'
    using Cons.prems [of k' i'] that by simp
  ultimately show ?case using Cons.IH [of ?cfg] by (simp add: x)
qed simp

lemma model_groups:
  assumes "mset kps = mset (model_of ps)" "distinct (map dp_Name ps)" "g ` set xs \<subseteq> dp_Name ` set ps"
    and "\<And>i. i < length ps \<Longrightarrow> mset (C i) = mset (map h (filter (\<lambda>x. g x = dp_Name (ps ! i)) xs))"
  shows "mset (concat (map (\<lambda>(k, i). C i) kps)) = mset (map h xs)"
proof -
  have "mset (concat (map (\<lambda>(k, i). C i) kps)) = mset (concat (map (\<lambda>(k, i). map h (filter (\<lambda>x. g x = k) xs)) (model_of ps)))"
    by (rule mset_concat_perm [OF assms(1)]) (auto simp: model_of_def in_set_zip assms(4))
  also have "concat (map (\<lambda>(k, i). map h (filter (\<lambda>x. g x = k) xs)) (model_of ps)) =
      map h (concat (map (\<lambda>q. filter (\<lambda>x. g x = q) xs) (map fst (model_of ps))))"
    by (simp add: map_concat o_def case_prod_unfold)
  also have "map fst (model_of ps) = map dp_Name ps" by (simp add: model_of_def)
  also have "mset (map h (concat (map (\<lambda>q. filter (\<lambda>x. g x = q) xs) (map dp_Name ps)))) =
      mset (map h (filter (\<lambda>x. g x \<in> dp_Name ` set ps) xs))"
    using mset_groups [OF assms(2), of g xs] by (metis mset_map set_map)
  also have "filter (\<lambda>x. g x \<in> dp_Name ` set ps) xs = xs" using assms(3) by (simp add: filter_id_conv image_subset_iff)
  finally show ?thesis .
qed

lemma go_sort_perm:
  fixes f :: "'a \<Rightarrow> 'b :: linorder"
  assumes "mset xs = mset ys" "inj_on f (set ys)"
  shows "go_sort (\<lambda>x y. f x < f y) xs = go_sort (\<lambda>x y. f x < f y) ys"
  unfolding go_sort_by_key using assms by (metis mset_eq_setD sort_key_unique)

lemma channel_keys:
  assumes "config_built ps cs S"
  shows "inj_on (\<lambda>c. (dc_Package c, dc_Name c)) (clean_channel ` set cs)"
proof (rule inj_onI)
  fix x y assume xy: "x \<in> clean_channel ` set cs" "y \<in> clean_channel ` set cs" "(dc_Package x, dc_Name x) = (dc_Package y, dc_Name y)"
  then obtain j j' where j: "j < length cs" "x = clean_channel (cs ! j)" and j': "j' < length cs" "y = clean_channel (cs ! j')"
    by (auto simp: in_set_conv_nth)
  obtain i where i: "i < length ps" "dp_Name (ps ! i) = dc_Package (cs ! j)" using built_channel [OF assms j(1)] by blast
  have "package_built cs (ps ! i) (packages S ! i)" using assms i(1) by (simp add: config_built_def)
  then have d: "distinct (map fst (mp_Channels (packages S ! i)))" and e: "mp_Channels (packages S ! i) =
      map (\<lambda>j. (dc_Name (cs ! j), j)) (filter (\<lambda>j. dc_Package (cs ! j) = dp_Name (ps ! i)) [0..<length cs])"
    unfolding package_built_def by blast+
  have "distinct (map (\<lambda>j. dc_Name (cs ! j)) (filter (\<lambda>j. dc_Package (cs ! j) = dp_Name (ps ! i)) [0..<length cs]))"
    using d unfolding e by (simp add: comp_def)
  then have "j = j'" using j j' xy(3) i(2) by (auto simp: distinct_map clean_channel_def dest!: inj_onD)
  then show "x = y" using j j' by simp
qed

lemma package_clean:
  assumes "config_built ps cs S" "i < length ps" "mp_DefaultChannel (packages S ! i) \<noteq> None"
  shows "package_of S (packages S ! i) = clean_package (ps ! i)"
proof -
  have p: "package_built cs (ps ! i) (packages S ! i)" using assms(1,2) by (simp add: config_built_def)
  then obtain d where d: "mp_DefaultChannel (packages S ! i) = Some d"
      "find (\<lambda>j. dc_Package (cs ! j) = dp_Name (ps ! i) \<and> dc_Name (cs ! j) = dp_DefaultChannel (ps ! i)) [0..<length cs] = Some d"
    using assms(3) by (auto simp: package_built_def)
  then have "d < length cs" "dc_Name (cs ! d) = dp_DefaultChannel (ps ! i)" by (auto simp: find_Some_iff)
  moreover from this have "mc_Name (channels S ! d) = dc_Name (cs ! d)" using assms(1) by (auto simp: config_built_def channel_built_def)
  moreover have "mp_Name (packages S ! i) = dp_Name (ps ! i)" "mp_Description (packages S ! i) = dp_Description (ps ! i)"
      "mp_Icon (packages S ! i) = dp_Icon (ps ! i)" using p by (simp_all add: package_built_def)
  ultimately show ?thesis using d(1) by (cases "ps ! i") (simp add: package_of_def clean_package_def)
qed

theorem convert_back:
  assumes "permutes rng" "config_built ps cs S" "complete cs bs S" "\<forall>i < length ps. mp_DefaultChannel (packages S ! i) \<noteq> None"
  shows "ConvertFromModel rng (model_of ps) S =
    Inr (clean_config \<lparr>cfg_Packages = ps, cfg_Channels = cs, cfg_Bundles = bs, cfg_Deprecations = ds, cfg_Others = os\<rparr>)"
proof -
  let ?m = "rng (model_of ps)"
  have m: "mset ?m = mset (model_of ps)" using assms(1) by (simp add: permutes_def)
  have lt: "i < length ps" if "(k, i) \<in> set ?m" for k i using that by (auto simp: permutes_set [OF assms(1)] model_of_def in_set_zip)
  have names: "distinct (map dp_Name ps)" using assms(2) by (simp add: config_built_def)
  define C where "C i = map (\<lambda>(k, j). clean_channel (cs ! j)) (rng (mp_Channels (packages S ! i)))" for i
  have "\<forall>i. i < length ps \<longrightarrow> (\<exists>bl. traverseModelChannels rng S (packages S ! i) = Inr (C i, bl) \<and>
      mset bl = mset (map clean_bundle (filter (\<lambda>b. db_Package b = dp_Name (ps ! i)) bs)))"
    using package_content [OF assms(1-3)] by (simp add: C_def)
  then obtain B where B: "\<And>i. i < length ps \<Longrightarrow> traverseModelChannels rng S (packages S ! i) = Inr (C i, B i) \<and>
      mset (B i) = mset (map clean_bundle (filter (\<lambda>b. db_Package b = dp_Name (ps ! i)) bs))" by metis
  have chs: "dc_Package ` set cs \<subseteq> dp_Name ` set ps"
    using built_channel [OF assms(2)] by (force simp: in_set_conv_nth)
  have bns: "db_Package ` set bs \<subseteq> dp_Name ` set ps"
  proof
    fix n assume "n \<in> db_Package ` set bs"
    then obtain b where b: "b \<in> set bs" "n = db_Package b" by blast
    then obtain c where "c \<in> set cs" "dc_Package c = n" using assms(3) unfolding complete_def by metis
    then show "n \<in> dp_Name ` set ps" using chs by blast
  qed
  have "mset (C i) = mset (map clean_channel (filter (\<lambda>c. dc_Package c = dp_Name (ps ! i)) cs))" if "i < length ps" for i
  proof -
    have "mp_Channels (packages S ! i) = map (\<lambda>j. (dc_Name (cs ! j), j)) (filter (\<lambda>j. dc_Package (cs ! j) = dp_Name (ps ! i)) [0..<length cs])"
      using assms(2) that by (simp add: config_built_def package_built_def)
    then have e: "map (\<lambda>(k, j). clean_channel (cs ! j)) (mp_Channels (packages S ! i)) =
        map clean_channel (map (\<lambda>j. cs ! j) (filter (\<lambda>j. dc_Package (cs ! j) = dp_Name (ps ! i)) [0..<length cs]))" by simp
    have "map (\<lambda>j. cs ! j) (filter (\<lambda>j. dc_Package (cs ! j) = dp_Name (ps ! i)) [0..<length cs]) =
        filter (\<lambda>c. dc_Package c = dp_Name (ps ! i)) cs"
      using filter_map [of "\<lambda>c. dc_Package c = dp_Name (ps ! i)" "\<lambda>j. cs ! j" "[0..<length cs]"] by (simp add: map_nth comp_def)
    moreover have "mset (C i) = mset (map (\<lambda>(k, j). clean_channel (cs ! j)) (mp_Channels (packages S ! i)))"
      using assms(1) unfolding C_def permutes_def by (metis mset_map)
    ultimately show ?thesis unfolding e by (simp only:)
  qed
  then have cms: "mset (concat (map (\<lambda>(k, i). C i) ?m)) = mset (map clean_channel cs)" by (rule model_groups [OF m names chs])
  have bms: "mset (concat (map (\<lambda>(k, i). B i) ?m)) = mset (map clean_bundle bs)" using B by (intro model_groups [OF m names bns]) blast
  have pms: "mset (map (\<lambda>(k, i). package_of S (packages S ! i)) ?m) = mset (map clean_package ps)"
  proof -
    have "map (\<lambda>(k, i). package_of S (packages S ! i)) ?m = map (\<lambda>(k, i). clean_package (ps ! i)) ?m"
      using lt package_clean [OF assms(2)] assms(4) by auto
    moreover have "mset (map (\<lambda>(k, i). clean_package (ps ! i)) ?m) = mset (map (\<lambda>(k, i). clean_package (ps ! i)) (model_of ps))"
      using m by (metis mset_map)
    moreover have "map (\<lambda>(k, i). clean_package (ps ! i)) (model_of ps) = map clean_package ps"
      by (rule nth_equalityI) (simp_all add: model_of_def)
    ultimately show ?thesis by metis
  qed
  have "inj_on dp_Name (set (map clean_package ps))"
    using names by (auto simp: distinct_map clean_package_def inj_on_def)
  then have p: "go_sort (\<lambda>x y. dp_Name x < dp_Name y) (map (\<lambda>(k, i). package_of S (packages S ! i)) ?m) =
      go_sort (\<lambda>x y. dp_Name x < dp_Name y) (map clean_package ps)" by (rule go_sort_perm [OF pms])
  have "inj_on (\<lambda>c. (dc_Package c, dc_Name c)) (set (map clean_channel cs))" using channel_keys [OF assms(2)] by simp
  then have c: "go_sort cfg_channel_Less (concat (map (\<lambda>(k, i). C i) ?m)) = go_sort cfg_channel_Less (map clean_channel cs)"
    unfolding cfg_channel_Less_key by (rule go_sort_perm [OF cms])
  have "inj_on (\<lambda>b. (db_Package b, db_Name b)) (set (map clean_bundle bs))"
  proof -
    have "inj_on (\<lambda>b. (db_Package b, db_Name b)) (set bs)" using assms(3) by (simp add: complete_def distinct_map)
    then show ?thesis unfolding inj_on_def by (auto simp: clean_bundle_def)
  qed
  then have b: "go_sort cfg_bundle_Less (concat (map (\<lambda>(k, i). B i) ?m)) = go_sort cfg_bundle_Less (map clean_bundle bs)"
    unfolding cfg_bundle_Less_key by (rule go_sort_perm [OF bms])
  have "each (add_package_of rng S) ?m empty_config = Inr (empty_config\<lparr>cfg_Packages := cfg_Packages empty_config @ map (\<lambda>(k, i). package_of S (packages S ! i)) ?m,
             cfg_Channels := cfg_Channels empty_config @ concat (map (\<lambda>(k, i). C i) ?m),
             cfg_Bundles := cfg_Bundles empty_config @ concat (map (\<lambda>(k, i). B i) ?m)\<rparr>)"
    using B lt by (intro collect_packages) blast
  then show ?thesis by (simp add: ConvertFromModel_def empty_config_def clean_config_def p c b)
qed

end
