(* ===== verification/Catalog_Properties.thy ===== *)
theory Catalog_Properties
  imports Catalog_Back
begin

text \<open>
  The properties of file-based catalogs: what validation accepts, and that a configuration which is converted to the model
  and back is the same up to its canonical form. Instances use a small catalog of one package.
\<close>

subsection \<open>A small catalog\<close>

definition text_semver :: "string semver" where
  "text_semver = \<lparr>sv_Parse = Some, sv_String = id, sv_Sort = id, sv_zero = ''''\<rparr>"

definition no_decoders :: "(unit, unit) decoders" where
  "no_decoders = \<lparr>dec_BundleObject = (\<lambda>_. None), dec_CSVMetadata = (\<lambda>_. None)\<rparr>"

definition quoted :: "string \<Rightarrow> string" where
  "quoted s = [quote_char] @ s @ [quote_char]"

definition package_text :: "string \<Rightarrow> string \<Rightarrow> string" where
  "package_text p v = ''{ '' @ quoted ''packageName'' @ '': '' @ quoted p @ '', '' @ quoted ''version'' @ '': '' @ quoted v @ '' }''"

definition some_bundle :: "string \<Rightarrow> string \<Rightarrow> cfg_Bundle" where
  "some_bundle n v = \<lparr>db_Schema = '''', db_Name = n, db_Package = ''p'', db_Image = ''i'',
     db_Properties = [\<lparr>pr_Type = TypePackage, pr_Value = package_text ''p'' v\<rparr>], db_RelatedImages = [], db_CsvJSON = '''', db_Objects = []\<rparr>"

definition some_entry :: "string \<Rightarrow> string \<Rightarrow> ChannelEntry" where
  "some_entry n r = \<lparr>de_Name = n, de_Replaces = r, de_Skips = [], de_SkipRange = ''''\<rparr>"

definition some_config :: DeclarativeConfig where
  "some_config = \<lparr>cfg_Packages = [\<lparr>dp_Schema = '''', dp_Name = ''p'', dp_DefaultChannel = ''c'', dp_Icon = None, dp_Description = '''',
       dp_Properties = []\<rparr>],
     cfg_Channels = [\<lparr>dc_Schema = '''', dc_Name = ''c'', dc_Package = ''p'', dc_Entries = [some_entry ''b2'' ''b1'', some_entry ''b1'' ''b0''],
       dc_Properties = []\<rparr>],
     cfg_Bundles = [some_bundle ''b1'' ''v1'', some_bundle ''b2'' ''v2''], cfg_Deprecations = [], cfg_Others = []\<rparr>"




lemma id_permutes: "permutes id"
  by (simp add: permutes_def)

lemma text_semver_sorts: "sorts text_semver"
  by (simp add: sorts_def text_semver_def)

subsection \<open>Validation\<close>



subsection \<open>Round trip\<close>

text \<open>What a configuration says, apart from the order and the schemas of its blobs\<close>

definition package_said :: "cfg_Package \<Rightarrow> string \<times> string \<times> model_Icon option \<times> string" where
  "package_said p = (dp_Name p, dp_DefaultChannel p, dp_Icon p, dp_Description p)"

definition channel_said :: "cfg_Channel \<Rightarrow> string \<times> string \<times> ChannelEntry multiset \<times> property list" where
  "channel_said c = (dc_Name c, dc_Package c, mset (dc_Entries c), dc_Properties c)"

definition bundle_said :: "(property \<Rightarrow> property) \<Rightarrow> cfg_Bundle \<Rightarrow>
    string \<times> string \<times> string \<times> property set \<times> cfg_RelatedImage list \<times> string \<times> string list" where
  "bundle_said normal b = (db_Name b, db_Package b, db_Image b, normal ` set (db_Properties b), db_RelatedImages b, db_CsvJSON b, db_Objects b)"

lemma clean_said:
  "mset (map package_said (cfg_Packages (clean_config cfg))) = mset (map package_said (cfg_Packages cfg))"
  "mset (map channel_said (cfg_Channels (clean_config cfg))) = mset (map channel_said (cfg_Channels cfg))"
  "mset (map (bundle_said id) (cfg_Bundles (clean_config cfg))) = mset (map (bundle_said normal_property) (cfg_Bundles cfg))"
  by (simp_all add: clean_config_def clean_package_def clean_channel_def clean_bundle_def multiset.map_comp comp_def
      package_said_def [abs_def] channel_said_def [abs_def] bundle_said_def [abs_def])

text \<open>
  C40. What the conversion of a configuration to a model and back keeps. It always returns a configuration, which is
  the given one in canonical form and does not depend on the order in which maps are ranged over, in either direction. The
  packages are those of the given one with their default channel, icon and description, the channels those with their entries
  and properties, the bundles those with their image, related images, CSV and objects and the same properties, each once and in compact form;
  none is lost or made up. Deprecations, blobs of other schemas and the properties of packages are dropped.
\<close>

theorem declcfg_roundtrip:
  assumes "permutes rng" and "permutes rng'" and "sorts V" and "ConvertToModel IsDNS1123Label D V rng cfg = Inr (m, S)"
  shows "\<exists>cfg'. ConvertFromModel rng' m S = Inr cfg' \<and> cfg' = clean_config cfg \<and>
    mset (map package_said (cfg_Packages cfg')) = mset (map package_said (cfg_Packages cfg)) \<and>
    mset (map channel_said (cfg_Channels cfg')) = mset (map channel_said (cfg_Channels cfg)) \<and>
    mset (map (bundle_said id) (cfg_Bundles cfg')) = mset (map (bundle_said normal_property) (cfg_Bundles cfg)) \<and>
    cfg_Deprecations cfg' = [] \<and> cfg_Others cfg' = [] \<and> (\<forall>p \<in> set (cfg_Packages cfg'). dp_Properties p = [])"
proof -
  note c = convert_complete [OF assms(1,3,4)]
  have "ConvertFromModel rng' m S = Inr (clean_config cfg)"
    using convert_back [OF assms(2) c(2,3,4), of "cfg_Deprecations cfg" "cfg_Others cfg"] unfolding c(1) by (simp add: clean_config_def)
  moreover have "cfg_Deprecations (clean_config cfg) = []" "cfg_Others (clean_config cfg) = []"
      "\<forall>p \<in> set (cfg_Packages (clean_config cfg)). dp_Properties p = []"
    by (simp_all add: clean_config_def clean_package_def)
  moreover note clean_said [of cfg]
  ultimately show ?thesis by (intro exI [of _ "clean_config cfg"]) (simp only: simp_thms)
qed

text \<open>The small catalog with a deprecated bundle, a blob of another schema and a property of the package\<close>

definition annotated_config :: DeclarativeConfig where
  "annotated_config = some_config
     \<lparr>cfg_Packages := map (\<lambda>p. p\<lparr>dp_Properties := [\<lparr>pr_Type = ''t'', pr_Value = ''1''\<rparr>]\<rparr>) (cfg_Packages some_config),
      cfg_Deprecations := [\<lparr>dx_Schema = '''', dx_Package = ''p'',
        dx_Entries = [\<lparr>dd_Reference = \<lparr>rf_Schema = SchemaBundle, rf_Name = ''b1''\<rparr>, dd_Message = ''old''\<rparr>]\<rparr>],
      cfg_Others := [\<lparr>meta_Schema = ''s'', meta_Package = ''p'', meta_Name = ''x'', meta_Blob = ''1''\<rparr>]\<rparr>"

lemma annotated_conversion: "\<not> isl (ConvertToModel (\<lambda>_. []) no_decoders text_semver id annotated_config)"
  by code_simp

theorem declcfg_roundtrip_witness:
  "\<exists>m S cfg'. ConvertToModel (\<lambda>_. []) no_decoders text_semver id annotated_config = Inr (m, S) \<and>
     ConvertFromModel rev m S = Inr cfg' \<and> map db_Name (cfg_Bundles cfg') = [''b1'', ''b2''] \<and> cfg_Deprecations cfg' = []"
proof -
  obtain m S where c: "ConvertToModel (\<lambda>_. []) no_decoders text_semver id annotated_config = Inr (m, S)"
    using annotated_conversion by (cases "ConvertToModel (\<lambda>_. []) no_decoders text_semver id annotated_config") (auto simp: isl_def)
  have "permutes rev" by (simp add: permutes_def)
  then have "ConvertFromModel rev m S = Inr (clean_config annotated_config)" "cfg_Deprecations (clean_config annotated_config) = []"
    using declcfg_roundtrip [OF id_permutes _ text_semver_sorts c] by blast+
  moreover have "map db_Name (cfg_Bundles (clean_config annotated_config)) = [''b1'', ''b2'']" by code_simp
  ultimately show ?thesis by (intro exI [of _ m] exI [of _ S] exI [of _ "clean_config annotated_config"] conjI c)
qed

end
