(* ===== verification/Csv_Chain.thy ===== *)
theory Csv_Chain
  imports Fail_Forward
begin

text \<open>
  The ClusterServiceVersions of a namespace and how they replace each other: the map of them by name
  (\<^verbatim>\<open>pkg/lib/csv/csvset.go\<close>), the searches along the upgrade path (\<^verbatim>\<open>pkg/lib/csv/replace_finder.go\<close>), and the replacement chain
  the OLM operator excludes from ownership conflicts (\<^verbatim>\<open>getReplacementChain\<close> and \<^verbatim>\<open>crdOwnerConflicts\<close> of
  \<^verbatim>\<open>pkg/controller/operators/olm/operator.go\<close>).

  A loop over a map visits it in an order that is given by a rank of the keys; the rank may be another one for every
  name that is searched for, so that no two loops need to agree.
\<close>

type_synonym 'v csv_map = "(string \<times> 'v ClusterServiceVersion) list"

definition map_range :: "(string \<Rightarrow> nat) \<Rightarrow> (string \<times> 'a) list \<Rightarrow> (string \<times> 'a) list" where
  "map_range rank m = sort_key (rank \<circ> fst) m"

lemma set_map_range [simp]: "set (map_range rank m) = set m"
  by (simp add: map_range_def)

subsection \<open>The set of CSVs\<close>

abbreviation (input) CSVPhaseAny :: string where "CSVPhaseAny \<equiv> ''''"

definition csvSet_with :: "('e + 'v ClusterServiceVersion list) \<Rightarrow> string \<Rightarrow> 'v csv_map" where
  "csvSet_with listed phase =
     (case listed of
        Inl err \<Rightarrow> []
      | Inr csvsInNamespace \<Rightarrow>
          foldl (\<lambda>csvs csv. if phase \<noteq> CSVPhaseAny \<and> phase_of csv \<noteq> phase then csvs
                             else AList.update (csv_Name csv) csv csvs) [] csvsInNamespace)"

subsection \<open>The replace finder\<close>

definition IsBeingReplaced ::
    "(string \<Rightarrow> string \<Rightarrow> nat) \<Rightarrow> 'v ClusterServiceVersion \<Rightarrow> 'v csv_map \<Rightarrow> 'v ClusterServiceVersion option" where
  "IsBeingReplaced order in' csvsInNamespace =
     map_option snd (find (\<lambda>kv. \<not> IsCopied (snd kv) \<and> csv_Replaces (snd kv) = csv_Name in')
       (map_range (order (csv_Name in')) csvsInNamespace))"

definition IsReplacing ::
    "(string \<Rightarrow> string \<Rightarrow> 'e + 'v ClusterServiceVersion) \<Rightarrow> 'v ClusterServiceVersion \<Rightarrow> 'v ClusterServiceVersion option" where
  "IsReplacing get in' =
     (if csv_Replaces in' = '''' then None
      else case get (csv_Namespace in') (csv_Replaces in') of Inl err \<Rightarrow> None | Inr previous \<Rightarrow> Some previous)"

text \<open>The loop of \<^verbatim>\<open>GetFinalCSVInReplacing\<close> has no guard against cycles: \<open>None\<close> when it does not end.\<close>

partial_function (option) final_loop ::
    "(string \<Rightarrow> string \<Rightarrow> nat) \<Rightarrow> 'v csv_map \<Rightarrow> 'v ClusterServiceVersion \<Rightarrow> 'v ClusterServiceVersion option \<Rightarrow>
     'v ClusterServiceVersion option option" where
  "final_loop order csvs current replacedBy =
     (case IsBeingReplaced order current csvs of
        None \<Rightarrow> Some replacedBy
      | Some next' \<Rightarrow> final_loop order csvs next' (Some next'))"

declare final_loop.simps [code]

definition GetFinalCSVInReplacing ::
    "(string \<Rightarrow> string \<Rightarrow> nat) \<Rightarrow> 'v ClusterServiceVersion \<Rightarrow> 'v csv_map \<Rightarrow> 'v ClusterServiceVersion option option" where
  "GetFinalCSVInReplacing order in' csvsInNamespace = final_loop order csvsInNamespace in' None"

subsection \<open>The replacement chain\<close>

definition chain_replacement :: "(string \<Rightarrow> string \<Rightarrow> nat) \<Rightarrow> 'v csv_map \<Rightarrow> string \<Rightarrow> string option" where
  "chain_replacement order csvs csvName =
     map_option (\<lambda>kv. csv_Name (snd kv)) (find (\<lambda>kv. csv_Replaces (snd kv) = csvName) (map_range (order csvName) csvs))"

definition chain_replaces :: "(string \<Rightarrow> string \<Rightarrow> nat) \<Rightarrow> 'v csv_map \<Rightarrow> string \<Rightarrow> string option" where
  "chain_replaces order csvs replaces =
     map_option (\<lambda>kv. csv_Replaces (snd kv)) (find (\<lambda>kv. csv_Name (snd kv) = replaces) (map_range (order replaces) csvs))"

lemma chain_replacement_Some:
  "chain_replacement order csvs a = Some b \<Longrightarrow> \<exists>c \<in> snd ` set csvs. csv_Name c = b \<and> csv_Replaces c = a"
  by (auto simp: chain_replacement_def find_Some_iff) (metis imageI nth_mem set_map_range snd_conv)

lemma chain_replaces_Some:
  "chain_replaces order csvs a = Some b \<Longrightarrow> \<exists>c \<in> snd ` set csvs. csv_Name c = a \<and> csv_Replaces c = b"
  by (auto simp: chain_replaces_def find_Some_iff) (metis imageI nth_mem set_map_range snd_conv)

function forward_chain :: "(string \<Rightarrow> string \<Rightarrow> nat) \<Rightarrow> 'v csv_map \<Rightarrow> string option \<Rightarrow> string list \<Rightarrow> string list" where
  "forward_chain order csvs None csvsInChain = csvsInChain"
| "forward_chain order csvs (Some next') csvsInChain =
     (if next' \<in> set csvsInChain then csvsInChain
      else forward_chain order csvs (chain_replacement order csvs next') (csvsInChain @ [next']))"
  by pat_completeness auto

text \<open>After its first round a loop is at a name or a replaced name of the map, and it has not been there.\<close>

definition chain_measure :: "string set \<Rightarrow> string option \<Rightarrow> string list \<Rightarrow> nat" where
  "chain_measure A next' chain =
     2 * card (A - set chain) + (case next' of None \<Rightarrow> 0 | Some n \<Rightarrow> if n \<in> A then 0 else 1)"

lemma chain_measure_less:
  assumes "finite A" and "n \<notin> set chain" and "\<And>m. next' = Some m \<Longrightarrow> m \<in> A"
  shows "chain_measure A next' (chain @ [n]) < chain_measure A (Some n) chain"
proof -
  have n': "(case next' of None \<Rightarrow> 0 | Some n \<Rightarrow> if n \<in> A then 0 else (1::nat)) = 0" using assms(3) by (auto split: option.split)
  show ?thesis
  proof (cases "n \<in> A")
    case True
    have "card (A - set (chain @ [n])) < card (A - set chain)"
      by (rule psubset_card_mono) (use True assms in auto)
    then show ?thesis using True n' by (simp add: chain_measure_def)
  next
    case False
    then have "A - set (chain @ [n]) = A - set chain" by auto
    then show ?thesis using False n' by (simp add: chain_measure_def)
  qed
qed

termination forward_chain
  by (relation "measure (\<lambda>(order, csvs, next', chain). chain_measure (csv_Name ` snd ` set csvs) next' chain)")
    (auto intro!: chain_measure_less dest!: chain_replacement_Some)

function back_chain :: "(string \<Rightarrow> string \<Rightarrow> nat) \<Rightarrow> 'v csv_map \<Rightarrow> string option \<Rightarrow> string list \<Rightarrow> string list" where
  "back_chain order csvs None csvsInChain = csvsInChain"
| "back_chain order csvs (Some prev) csvsInChain =
     (if prev = '''' then csvsInChain
      else if prev \<in> set csvsInChain then csvsInChain
      else back_chain order csvs (chain_replaces order csvs prev) (csvsInChain @ [prev]))"
  by pat_completeness auto

termination back_chain
  by (relation "measure (\<lambda>(order, csvs, prev, chain). chain_measure (csv_Replaces ` snd ` set csvs) prev chain)")
    (auto intro!: chain_measure_less dest!: chain_replaces_Some)

definition getReplacementChain ::
    "(string \<Rightarrow> string \<Rightarrow> nat) \<Rightarrow> 'v ClusterServiceVersion \<Rightarrow> 'v csv_map \<Rightarrow> string list" where
  "getReplacementChain order in' csvsInNamespace =
     (let current = csv_Name in';
          csvsInChain = forward_chain order csvsInNamespace (chain_replacement order csvsInNamespace current) [current];
          current = csv_Replaces in';
          prev = chain_replaces order csvsInNamespace current;
          csvsInChain = (if prev \<noteq> None then (if current \<in> set csvsInChain then csvsInChain else csvsInChain @ [current]) else csvsInChain)
      in back_chain order csvsInNamespace prev csvsInChain)"

definition OwnsCRD :: "'v ClusterServiceVersion \<Rightarrow> string \<Rightarrow> bool" where
  "OwnsCRD csv name = list_ex (\<lambda>desc. crd_Name desc = name) (csv_OwnedCRDs csv)"

text \<open>Whether \<^verbatim>\<open>ErrCRDOwnerConflict\<close> is returned\<close>

definition crdOwnerConflicts ::
    "(string \<Rightarrow> string \<Rightarrow> nat) \<Rightarrow> 'v ClusterServiceVersion \<Rightarrow> 'v csv_map \<Rightarrow> bool" where
  "crdOwnerConflicts order in' csvsInNamespace =
     (let csvsInChain = getReplacementChain order in' csvsInNamespace
      in list_ex (\<lambda>(name, csv). \<not> name \<in> set csvsInChain \<and>
           list_ex (\<lambda>crd. name \<noteq> csv_Name in' \<and> OwnsCRD csv (crd_Name crd)) (csv_OwnedCRDs in')) csvsInNamespace)"

subsection \<open>Lemmas\<close>

lemma csvSet_names: "(k, c) \<in> set (csvSet_with listed phase) \<Longrightarrow> csv_Name c = k"
proof -
  have "\<forall>kv \<in> set (foldl (\<lambda>csvs csv. if phase \<noteq> CSVPhaseAny \<and> phase_of csv \<noteq> phase then csvs else AList.update (csv_Name csv) csv csvs) m cs).
      csv_Name (snd kv) = fst kv" if "\<forall>kv \<in> set m. csv_Name (snd kv) = fst kv" for m and cs :: "'a ClusterServiceVersion list"
    using that
  proof (induction cs arbitrary: m)
    case (Cons c cs)
    have "\<forall>kv \<in> set (AList.update (csv_Name c) c m). csv_Name (snd kv) = fst kv"
      using Cons.prems update_entries [of "csv_Name c" c m] by auto
    then show ?case using Cons by simp
  qed simp
  from this [of "[]"] show "(k, c) \<in> set (csvSet_with listed phase) \<Longrightarrow> csv_Name c = k"
    by (cases listed) (fastforce simp: csvSet_with_def)+
qed

lemma csvSet_listed: "(k, c) \<in> set (csvSet_with (Inr cs) phase) \<Longrightarrow> c \<in> set cs"
proof -
  have "snd ` set (foldl (\<lambda>csvs csv. if phase \<noteq> CSVPhaseAny \<and> phase_of csv \<noteq> phase then csvs else AList.update (csv_Name csv) csv csvs) m cs)
      \<subseteq> snd ` set m \<union> set cs" for m and cs :: "'a ClusterServiceVersion list"
  proof (induction cs arbitrary: m)
    case (Cons c cs)
    have "set (c # cs) = insert c (set cs)" by simp
    then show ?case
      using Cons.IH [of m] subset_trans [OF Cons.IH [of "AList.update (csv_Name c) c m"] Un_mono [OF values_update [of "csv_Name c" c m] subset_refl]]
      by (cases "phase \<noteq> CSVPhaseAny \<and> phase_of c \<noteq> phase") (simp_all only: foldl_Cons if_True if_False simp_thms Un_insert_left Un_insert_right subset_insertI2)
  qed simp
  from this [of "[]" cs] show "(k, c) \<in> set (csvSet_with (Inr cs) phase) \<Longrightarrow> c \<in> set cs"
    by (force simp: csvSet_with_def)
qed

lemma IsBeingReplaced_Some:
  assumes "IsBeingReplaced order c csvs = Some n"
  shows "n \<in> snd ` set csvs" "\<not> IsCopied n" "csv_Replaces n = csv_Name c"
proof -
  obtain kv where kv: "find (\<lambda>kv. \<not> IsCopied (snd kv) \<and> csv_Replaces (snd kv) = csv_Name c) (map_range (order (csv_Name c)) csvs) = Some kv"
      "n = snd kv" using assms by (auto simp: IsBeingReplaced_def)
  then have "kv \<in> set csvs \<and> \<not> IsCopied (snd kv) \<and> csv_Replaces (snd kv) = csv_Name c"
    by (auto simp: find_Some_iff) (metis nth_mem set_map_range)
  then show "n \<in> snd ` set csvs" "\<not> IsCopied n" "csv_Replaces n = csv_Name c" using kv(2) by auto
qed

text \<open>CSVs that replace each other in a circle keep the loop going for ever.\<close>

lemma final_loop_cycle:
  assumes "\<And>c. c \<in> S \<Longrightarrow> \<exists>n \<in> S. IsBeingReplaced order c csvs = Some n" and "c \<in> S"
  shows "GetFinalCSVInReplacing order c csvs = None"
proof -
  have "c \<notin> S" if "final_loop order csvs c r = Some y" for c r y
    using that
  proof (rule final_loop.raw_induct [of "\<lambda>order' csvs' c r y. order' = order \<longrightarrow> csvs' = csvs \<longrightarrow> c \<notin> S", THEN mp, THEN mp, rotated, OF _ refl refl])
    fix f order' csvs' c r y
    assume IH: "\<And>order' csvs' c r y. f order' csvs' c r = Some y \<Longrightarrow> order' = order \<longrightarrow> csvs' = csvs \<longrightarrow> c \<notin> S"
      and run: "(case IsBeingReplaced order' c csvs' of None \<Rightarrow> Some r | Some n \<Rightarrow> f order' csvs' n (Some n)) = Some y"
    show "order' = order \<longrightarrow> csvs' = csvs \<longrightarrow> c \<notin> S" using IH run assms(1) [of c] by (auto split: option.splits)
  qed
  then show ?thesis using assms(2) unfolding GetFinalCSVInReplacing_def by (metis option.exhaust)
qed

text \<open>The members of a chain are linked by replacements: \<open>b\<close> replaces \<open>a\<close>.\<close>

definition replacement_rel :: "'v csv_map \<Rightarrow> (string \<times> string) set" where
  "replacement_rel csvs = {(csv_Replaces c, csv_Name c) | c. c \<in> snd ` set csvs}"

lemma replacement_relI:
  "\<exists>c \<in> snd ` set csvs. csv_Name c = b \<and> csv_Replaces c = a \<Longrightarrow> (a, b) \<in> replacement_rel csvs"
  unfolding replacement_rel_def by blast

lemma forward_chain_related:
  assumes "n \<in> set (forward_chain order csvs next' chain)"
    and "\<forall>m \<in> set chain. (a, m) \<in> (replacement_rel csvs)\<^sup>*" and "\<And>m. next' = Some m \<Longrightarrow> (a, m) \<in> (replacement_rel csvs)\<^sup>*"
  shows "(a, n) \<in> (replacement_rel csvs)\<^sup>*"
  using assms
proof (induction order csvs next' chain rule: forward_chain.induct)
  case (2 order csvs next' chain)
  show ?case
  proof (cases "next' \<in> set chain")
    case False
    have r: "(a, next') \<in> (replacement_rel csvs)\<^sup>*" using 2(4) by simp
    have "(a, m) \<in> (replacement_rel csvs)\<^sup>*" if "chain_replacement order csvs next' = Some m" for m
      using r replacement_relI [OF chain_replacement_Some [OF that]] by (rule rtrancl.rtrancl_into_rtrancl)
    then show ?thesis using 2(1) [OF False] 2(2,3) False r by auto
  qed (use 2 in auto)
qed simp

lemma back_chain_related:
  assumes "n \<in> set (back_chain order csvs prev chain)"
    and "\<And>m. prev = Some m \<Longrightarrow> (m, b) \<in> R\<^sup>*" and "replacement_rel csvs \<subseteq> R"
  shows "n \<in> set chain \<or> (n, b) \<in> R\<^sup>*"
  using assms
proof (induction order csvs prev chain rule: back_chain.induct)
  case (2 order csvs prev chain)
  show ?case
  proof (cases "prev = '''' \<or> prev \<in> set chain")
    case False
    have r: "(prev, b) \<in> R\<^sup>*" using 2(3) by simp
    have "(m, b) \<in> R\<^sup>*" if "chain_replaces order csvs prev = Some m" for m
      using replacement_relI [of csvs prev m] chain_replaces_Some [OF that] r 2(4) by (blast intro: converse_rtrancl_into_rtrancl)
    then show ?thesis using 2(1) False 2(2,4) r by auto
  qed (use 2 in \<open>auto split: if_splits\<close>)
qed simp

lemma chain_related:
  assumes "n \<in> set (getReplacementChain order c csvs)"
  shows "(csv_Name c, n) \<in> (replacement_rel csvs)\<^sup>* \<or> (n, csv_Name c) \<in> (insert (csv_Replaces c, csv_Name c) (replacement_rel csvs))\<^sup>*"
    (is "_ \<or> (n, _) \<in> ?R\<^sup>*")
proof -
  let ?fwd = "forward_chain order csvs (chain_replacement order csvs (csv_Name c)) [csv_Name c]"
  have fwd: "(csv_Name c, m) \<in> (replacement_rel csvs)\<^sup>*" if "m \<in> set ?fwd" for m
    by (rule forward_chain_related [OF that])
      (auto intro: r_into_rtrancl [OF replacement_relI [OF chain_replacement_Some]])
  let ?prev = "chain_replaces order csvs (csv_Replaces c)"
  have prev: "(m, csv_Name c) \<in> ?R\<^sup>*" if "?prev = Some m" for m
  proof -
    have "(m, csv_Replaces c) \<in> ?R" using replacement_relI [of csvs "csv_Replaces c" m] chain_replaces_Some [OF that] by blast
    then show ?thesis by (meson converse_rtrancl_into_rtrancl insertI1 r_into_rtrancl)
  qed
  define chain where "chain = (if ?prev \<noteq> None then (if csv_Replaces c \<in> set ?fwd then ?fwd else ?fwd @ [csv_Replaces c]) else ?fwd)"
  have "getReplacementChain order c csvs = back_chain order csvs ?prev chain"
    unfolding getReplacementChain_def Let_def chain_def ..
  then have "n \<in> set chain \<or> (n, csv_Name c) \<in> ?R\<^sup>*"
    using assms back_chain_related [of n order csvs ?prev chain "csv_Name c" ?R, OF _ prev subset_insertI] by simp
  moreover have "set chain \<subseteq> insert (csv_Replaces c) (set ?fwd)" by (auto simp: chain_def)
  moreover have "(csv_Replaces c, csv_Name c) \<in> ?R\<^sup>*" by blast
  ultimately show ?thesis using fwd by blast
qed

text \<open>Without a conflict, a CSV that owns one of the CRDs is linked with this one by replacements.\<close>

lemma no_crd_conflict:
  assumes "\<not> crdOwnerConflicts order c csvs" and "(name, d) \<in> set csvs" and "crd \<in> set (csv_OwnedCRDs c)"
    and "OwnsCRD d (crd_Name crd)" and "name \<noteq> csv_Name c"
  shows "(csv_Name c, name) \<in> (replacement_rel csvs)\<^sup>* \<or>
    (name, csv_Name c) \<in> (insert (csv_Replaces c, csv_Name c) (replacement_rel csvs))\<^sup>*"
proof (rule chain_related [of name order c csvs])
  show "name \<in> set (getReplacementChain order c csvs)"
    using assms by (fastforce simp: crdOwnerConflicts_def Let_def list_ex_iff)
qed

end
