(* ===== verification/Group_Surface.thy ===== *)
theory Group_Surface
  imports Csv_Source
begin

text \<open>
  Operator groups as the OLM operator compares them (\<^verbatim>\<open>pkg/controller/operators/olm/groups.go\<close>): the namespaces a group
  targets, the APIs its annotation provides, and the decision whether a ClusterServiceVersion may add its APIs to its
  group. With it the API surface and the API labels of a ClusterServiceVersion (\<^verbatim>\<open>labeler.go\<close>) and the reader of the
  annotation (\<^verbatim>\<open>GVKStringToProvidedAPISet\<close> of \<^verbatim>\<open>cache/operators.go\<close>).
\<close>

subsection \<open>Sets of namespaces\<close>

text \<open>\<^verbatim>\<open>map[string]struct{}\<close>, by the list of its keys\<close>

type_synonym NamespaceSet = "string list"

definition ns_add :: "NamespaceSet \<Rightarrow> string \<Rightarrow> NamespaceSet" where
  "ns_add s n = (if n \<in> set s then s else s @ [n])"

definition NewNamespaceSet :: "string list \<Rightarrow> NamespaceSet" where
  "NewNamespaceSet namespaces = foldl ns_add [] namespaces"

definition NewNamespaceSetFromString :: "string \<Rightarrow> NamespaceSet" where
  "NewNamespaceSetFromString namespaces = NewNamespaceSet (strings_Split namespaces CHR '','')"

definition Peek :: "NamespaceSet \<Rightarrow> string" where
  "Peek n = (case n of [] \<Rightarrow> '''' | namespace # _ \<Rightarrow> namespace)"

definition IsAllNamespaces :: "NamespaceSet \<Rightarrow> bool" where
  "IsAllNamespaces n = (if length n = 1 \<and> Peek n = '''' then True else False)"

definition NamespaceSet_Intersection :: "NamespaceSet \<Rightarrow> NamespaceSet \<Rightarrow> NamespaceSet" where
  "NamespaceSet_Intersection n s =
     (if IsAllNamespaces n then foldl ns_add [] s
      else if IsAllNamespaces s then foldl ns_add [] n
      else foldl (\<lambda>acc namespace. if namespace \<in> set s then ns_add acc namespace else acc) [] n)"

definition NamespaceSet_Union :: "NamespaceSet \<Rightarrow> NamespaceSet \<Rightarrow> NamespaceSet" where
  "NamespaceSet_Union n s =
     (if IsAllNamespaces n then n
      else if IsAllNamespaces s then s
      else foldl ns_add (foldl ns_add [] n) s)"

definition NamespaceSet_Contains :: "NamespaceSet \<Rightarrow> string \<Rightarrow> bool" where
  "NamespaceSet_Contains n namespace = (if IsAllNamespaces n then True else namespace \<in> set n)"

subsection \<open>The provided APIs of a group\<close>

text \<open>\<^verbatim>\<open>schema.ParseKindArg\<close>: \<open>Kind.version.group\<close>, or nothing when there are fewer than two dots\<close>

definition ParseKindArg :: "string \<Rightarrow> (string \<times> string \<times> string) option" where
  "ParseKindArg arg =
     (case split_dot arg of
        None \<Rightarrow> None
      | Some (kind, rest) \<Rightarrow> map_option (\<lambda>(version, gr). (gr, version, kind)) (split_dot rest))"

definition gvk_key :: "string \<times> string \<times> string \<Rightarrow> APIKey" where
  "gvk_key = (\<lambda>(gr, version, kind). \<lparr>api_Group = gr, api_Version = version, api_Kind = kind, api_Plural = ''''\<rparr>)"

definition GVKStringToProvidedAPISet :: "string \<Rightarrow> APISet" where
  "GVKStringToProvidedAPISet gvksStr =
     foldl (\<lambda>s gvkStr. case ParseKindArg gvkStr of None \<Rightarrow> s | Some gvk \<Rightarrow> api_add s (gvk_key gvk)) []
       (strings_Split (filter (\<lambda>c. c \<noteq> CHR '' '') gvksStr) CHR '','')"

definition OperatorGroupProvidedAPIsAnnotationKey :: string where
  "OperatorGroupProvidedAPIsAnnotationKey = ''olm.providedAPIs''"

subsection \<open>Surfaces\<close>

record group_surface =
  gs_namespace :: string
  gs_name :: string
  gs_targets :: NamespaceSet
  gs_providedAPIs :: APISet

text \<open>Reading a missing key of a map of strings\<close>

definition annotation :: "(string \<times> string) list \<Rightarrow> string \<Rightarrow> string" where
  "annotation as k = (case map_of as k of Some v \<Rightarrow> v | None \<Rightarrow> '''')"

definition NewOperatorGroup :: "OperatorGroup \<Rightarrow> group_surface" where
  "NewOperatorGroup g =
     (let namespaces = og_Namespaces g;
          namespaces = (if length namespaces \<ge> 1 \<and> namespaces ! 0 \<noteq> '''' then namespaces @ [og_Namespace g] else namespaces);
          gvksStr = annotation (og_Annotations g) OperatorGroupProvidedAPIsAnnotationKey
      in \<lparr>gs_namespace = og_Namespace g, gs_name = og_Name g, gs_targets = NewNamespaceSet namespaces,
          gs_providedAPIs = GVKStringToProvidedAPISet gvksStr\<rparr>)"

definition NewOperatorGroupSurfaces :: "OperatorGroup list \<Rightarrow> group_surface list" where
  "NewOperatorGroupSurfaces groups = map NewOperatorGroup groups"

definition group_Identifier :: "group_surface \<Rightarrow> string" where
  "group_Identifier g = gs_name g @ ''/'' @ gs_namespace g"

definition GroupIntersection :: "group_surface \<Rightarrow> group_surface list \<Rightarrow> group_surface list" where
  "GroupIntersection g groups =
     filter (\<lambda>h. \<not> group_Identifier h = group_Identifier g \<and>
       length (NamespaceSet_Intersection (gs_targets g) (gs_targets h)) > 0) groups"

datatype APIReconciliationResult = RemoveAPIs | AddAPIs | APIConflict | NoAPIConflict

definition ReconcileAPIIntersection :: "APISet \<Rightarrow> group_surface \<Rightarrow> group_surface list \<Rightarrow> APIReconciliationResult" where
  "ReconcileAPIIntersection add g otherGroups =
     (let groupIntersection = GroupIntersection g otherGroups;
          providedAPIIntersection = foldl (\<lambda>acc h. APISet_Union acc [gs_providedAPIs h]) [] groupIntersection;
          intersecting = length (APISet_Intersection add [providedAPIIntersection]) > 0;
          subset = APISet_IsSubset add (gs_providedAPIs g)
      in if subset \<and> intersecting then RemoveAPIs
         else if \<not> subset \<and> intersecting then APIConflict
         else if \<not> subset then AddAPIs
         else NoAPIConflict)"

subsection \<open>The API surface of a ClusterServiceVersion\<close>

record operatorSurface =
  os_ProvidedAPIs :: APISet
  os_RequiredAPIs :: APISet

text \<open>
  The required APIs are collected and checked, but into a variable of their own: the field of the surface stays empty.
\<close>

definition apiSurfaceOfCSV :: "'v ClusterServiceVersion \<Rightarrow> string + operatorSurface" where
  "apiSurfaceOfCSV csv =
     (case add_crds (csv_OwnedCRDs csv) EmptyAPISet of
        Inl err \<Rightarrow> Inl err
      | Inr provided \<Rightarrow>
      case add_crds (csv_RequiredCRDs csv) EmptyAPISet of
        Inl err \<Rightarrow> Inl err
      | Inr required \<Rightarrow>
          let requiredAPIs = add_services (csv_RequiredAPIServices csv) required
          in Inr \<lparr>os_ProvidedAPIs = add_services (csv_OwnedAPIServices csv) provided, os_RequiredAPIs = EmptyAPISet\<rparr>)"

text \<open>
  What \<^verbatim>\<open>LabelSetsFor\<close> is called with: its type switch distinguishes a surface from a pointer to one, and custom resource
  definitions of both versions, given by group, kind and the names of the versions.
\<close>

datatype labelled_object =
    Surface operatorSurface
  | PointerToSurface operatorSurface
  | CRDv1beta1 "(string \<times> string \<times> string list) option"
  | CRDv1 "(string \<times> string \<times> string list) option"
  | OtherObject

definition APILabelKeyPrefix :: string where
  "APILabelKeyPrefix = ''olm.api.''"

definition labelSetsForOperatorSurface :: "operatorSurface \<Rightarrow> (string \<times> string) list list" where
  "labelSetsForOperatorSurface surface =
     (let labelSet = foldl (\<lambda>ls key. AList.update (APILabelKeyPrefix @ APIKeyToGVKHash key) ''provided'' ls) []
            (StripPlural (os_ProvidedAPIs surface))
      in [foldl (\<lambda>ls key. AList.update (APILabelKeyPrefix @ APIKeyToGVKHash key) ''required'' ls) labelSet
            (StripPlural (os_RequiredAPIs surface))])"

definition labelSetsForCRD :: "(string \<times> string \<times> string list) option \<Rightarrow> (string \<times> string) list list" where
  "labelSetsForCRD crd =
     (case crd of
        None \<Rightarrow> []
      | Some (gr, kind, versions) \<Rightarrow>
          concat (map (\<lambda>version.
            let key = APILabelKeyPrefix @ APIKeyToGVKHash (gvk_key (gr, version, kind))
            in [[(key, ''provided'')], [(key, ''required'')]]) versions))"

fun LabelSetsFor :: "labelled_object \<Rightarrow> (string \<times> string) list list" where
  "LabelSetsFor (Surface v) = labelSetsForOperatorSurface v"
| "LabelSetsFor (CRDv1beta1 v) = labelSetsForCRD v"
| "LabelSetsFor (CRDv1 v) = labelSetsForCRD v"
| "LabelSetsFor (PointerToSurface v) = []"
| "LabelSetsFor OtherObject = []"

subsection \<open>Namespaces of a set\<close>

text \<open>The namespaces a set stands for\<close>

definition scope :: "NamespaceSet \<Rightarrow> string set" where
  "scope n = (if IsAllNamespaces n then UNIV else set n)"

lemma ns_add_set [simp]: "set (ns_add s n) = insert n (set s)" "distinct (ns_add s n) = distinct s"
  by (auto simp: ns_add_def)

lemma foldl_ns_add [simp]: "set (foldl ns_add s ns) = set s \<union> set ns" "distinct (foldl ns_add s ns) = distinct s"
  by (induction ns arbitrary: s) auto

lemma NewNamespaceSet_set [simp]: "set (NewNamespaceSet ns) = set ns" "distinct (NewNamespaceSet ns)"
  by (simp_all add: NewNamespaceSet_def)

lemma foldl_ns_filter:
  "set (foldl (\<lambda>acc n. if n \<in> A then ns_add acc n else acc) s ns) = set s \<union> (set ns \<inter> A)"
  by (induction ns arbitrary: s) auto

lemma Intersection_set:
  "set (NamespaceSet_Intersection n s) =
     (if IsAllNamespaces n then set s else if IsAllNamespaces s then set n else set n \<inter> set s)"
  by (simp add: NamespaceSet_Intersection_def foldl_ns_filter)

lemma All_not_empty: "IsAllNamespaces n \<Longrightarrow> set n \<noteq> {}"
  by (auto simp: IsAllNamespaces_def split: if_splits)

lemma Intersection_meets: "length (NamespaceSet_Intersection n s) > 0 \<longleftrightarrow> scope n \<inter> scope s \<noteq> {}"
proof -
  have ne: "length xs > 0 \<longleftrightarrow> set xs \<noteq> {}" for xs :: "string list" by simp
  show ?thesis unfolding ne Intersection_set scope_def using All_not_empty [of n] All_not_empty [of s] by simp
qed

lemma Contains_scope: "NamespaceSet_Contains n ns \<longleftrightarrow> ns \<in> scope n"
  by (simp add: NamespaceSet_Contains_def scope_def)

lemma GroupIntersection_iff:
  "h \<in> set (GroupIntersection g groups) \<longleftrightarrow>
     h \<in> set groups \<and> group_Identifier h \<noteq> group_Identifier g \<and> scope (gs_targets g) \<inter> scope (gs_targets h) \<noteq> {}"
  unfolding GroupIntersection_def set_filter mem_Collect_eq Intersection_meets by blast

lemma Reconcile_cases:
  defines "taken \<equiv> \<lambda>add g others. \<exists>h \<in> set others. group_Identifier h \<noteq> group_Identifier g \<and>
      scope (gs_targets g) \<inter> scope (gs_targets h) \<noteq> {} \<and> set add \<inter> set (gs_providedAPIs h) \<noteq> {}"
  shows "ReconcileAPIIntersection add g others =
     (if set add \<subseteq> set (gs_providedAPIs g) then (if taken add g others then RemoveAPIs else NoAPIConflict)
      else if taken add g others then APIConflict else AddAPIs)"
proof -
  have u: "set (foldl (\<lambda>acc h. APISet_Union acc [gs_providedAPIs h]) acc gs) = set acc \<union> (\<Union>h \<in> set gs. set (gs_providedAPIs h))" for acc gs
    by (induction gs arbitrary: acc) (auto simp: APISet_Union_set)
  have ne: "length xs > 0 \<longleftrightarrow> set xs \<noteq> {}" for xs :: "APIKey list" by simp
  have "length (APISet_Intersection add [foldl (\<lambda>acc h. APISet_Union acc [gs_providedAPIs h]) [] (GroupIntersection g others)]) > 0
      \<longleftrightarrow> set add \<inter> (\<Union>h \<in> set (GroupIntersection g others). set (gs_providedAPIs h)) \<noteq> {}"
    unfolding ne APISet_Intersection_set by (simp add: u)
  also have "\<dots> \<longleftrightarrow> taken add g others"
    unfolding taken_def UN_iff Int_UN_distrib using GroupIntersection_iff [of _ g others] by blast
  finally show ?thesis
    unfolding ReconcileAPIIntersection_def Let_def by (simp add: APISet_IsSubset_def list_all_iff subset_iff)
qed

subsection \<open>The annotation of provided APIs\<close>

text \<open>Keys whose text can be read back: no dots in kind and version, and nowhere a space or a comma\<close>

definition plain_key :: "APIKey \<Rightarrow> bool" where
  "plain_key k \<longleftrightarrow> api_Plural k = '''' \<and> CHR ''.'' \<notin> set (api_Kind k) \<union> set (api_Version k) \<and>
     {CHR '' '', CHR '',''} \<inter> (set (api_Kind k) \<union> set (api_Version k) \<union> set (api_Group k)) = {}"

lemma split_dot_append: "CHR ''.'' \<notin> set a \<Longrightarrow> split_dot (a @ CHR ''.'' # b) = Some (a, b)"
  by (induction a) auto

lemma split_dot_SomeD: "split_dot s = Some (a, b) \<Longrightarrow> s = a @ CHR ''.'' # b \<and> CHR ''.'' \<notin> set a"
proof (induction s arbitrary: a)
  case (Cons c s)
  then show ?case by (cases "c = CHR ''.''"; cases "split_dot s") auto
qed simp

lemma ParseKindArg_join:
  "CHR ''.'' \<notin> set k \<Longrightarrow> CHR ''.'' \<notin> set v \<Longrightarrow> ParseKindArg (k @ ''.'' @ v @ ''.'' @ g) = Some (g, v, k)"
  by (simp add: ParseKindArg_def split_dot_append)

lemma ParseKindArg_SomeD:
  "ParseKindArg s = Some (g, v, k) \<Longrightarrow> s = k @ ''.'' @ v @ ''.'' @ g \<and> CHR ''.'' \<notin> set k \<and> CHR ''.'' \<notin> set v"
  by (auto simp: ParseKindArg_def split: option.splits dest!: split_dot_SomeD)

lemma ParseKindArg_GVKString:
  assumes "plain_key k"
  shows "map_option gvk_key (ParseKindArg (APIKeyToGVKString k)) = Some k"
proof -
  have "ParseKindArg (APIKeyToGVKString k) = Some (api_Group k, api_Version k, api_Kind k)"
    using ParseKindArg_join assms by (simp add: APIKeyToGVKString_def plain_key_def)
  then show ?thesis using assms by (simp add: gvk_key_def plain_key_def)
qed

lemma Split_elems: "s \<in> set (strings_Split xs sep) \<Longrightarrow> sep \<notin> set s \<and> set s \<subseteq> set xs"
proof (induction xs arbitrary: s)
  case (Cons x xs)
  obtain t ts where ts: "strings_Split xs sep = t # ts" by (cases "strings_Split xs sep") simp_all
  show ?case using Cons by (fastforce simp: ts split: if_splits)
qed simp

lemma Split_Join:
  "\<forall>s \<in> set ss. sep \<notin> set s \<Longrightarrow> ss \<noteq> [] \<Longrightarrow> strings_Split (strings_Join ss [sep]) sep = ss"
  by (induction ss "[sep]" rule: strings_Join.induct) (auto simp: strings_Split_append strings_Split_no_sep)

lemma set_GVKString:
  "set (GVKStringToProvidedAPISet s) =
     {k. \<exists>t \<in> set (strings_Split (filter (\<lambda>c. c \<noteq> CHR '' '') s) CHR '',''). map_option gvk_key (ParseKindArg t) = Some k}"
proof -
  have "set (foldl (\<lambda>s t. case ParseKindArg t of None \<Rightarrow> s | Some gvk \<Rightarrow> api_add s (gvk_key gvk)) acc ts) =
      set acc \<union> {k. \<exists>t \<in> set ts. map_option gvk_key (ParseKindArg t) = Some k}" for acc ts
    by (induction ts arbitrary: acc) (auto split: option.splits)
  then show ?thesis by (simp add: GVKStringToProvidedAPISet_def)
qed

lemma parsed_plain:
  assumes "k \<in> set (GVKStringToProvidedAPISet s)"
  shows "plain_key k"
proof -
  obtain t g v ki where t: "t \<in> set (strings_Split (filter (\<lambda>c. c \<noteq> CHR '' '') s) CHR '','')"
      and p: "ParseKindArg t = Some (g, v, ki)" "k = gvk_key (g, v, ki)"
    using assms unfolding set_GVKString by auto
  have "CHR '','' \<notin> set t" "CHR '' '' \<notin> set t" using Split_elems [OF t] by auto
  then show ?thesis using p(2) ParseKindArg_SomeD [OF p(1)] by (auto simp: gvk_key_def plain_key_def)
qed

lemma strings_Join_set: "set (strings_Join ss sep) \<subseteq> \<Union> (set ` set ss) \<union> set sep"
  by (induction ss sep rule: strings_Join.induct) auto

text \<open>What is written to the annotation is what is read from it.\<close>

lemma GVKString_roundtrip:
  assumes "\<forall>k \<in> set s. plain_key k"
  shows "set (GVKStringToProvidedAPISet (APISet_String s)) = set s"
proof (cases "s = []")
  case True
  then show ?thesis by (simp add: APISet_String_def GVKStringToProvidedAPISet_def ParseKindArg_def)
next
  case False
  let ?ts = "sort (map APIKeyToGVKString s)"
  have ts: "set ?ts = APIKeyToGVKString ` set s" "?ts \<noteq> []"
    using False by (simp, metis length_0_conv length_map length_sort)
  have pl: "CHR '' '' \<notin> set t \<and> CHR '','' \<notin> set t" if "t \<in> set ?ts" for t
  proof -
    obtain k where "k \<in> set s" "t = APIKeyToGVKString k" using \<open>t \<in> set ?ts\<close> ts(1) by auto
    moreover from this have "plain_key k" using assms by blast
    ultimately show ?thesis by (auto simp: plain_key_def APIKeyToGVKString_def)
  qed
  have sp: "CHR '' '' \<notin> \<Union> (set ` set ?ts)" using pl by (simp only: UN_iff) blast
  have "CHR '' '' \<notin> set (strings_Join ?ts '','')" using strings_Join_set [of ?ts "'',''"] sp by auto
  then have "filter (\<lambda>c. c \<noteq> CHR '' '') (APISet_String s) = APISet_String s"
    unfolding filter_id_conv APISet_String_def by metis
  moreover have "strings_Split (APISet_String s) CHR '','' = ?ts"
    unfolding APISet_String_def using Split_Join [of ?ts "CHR '',''"] pl ts(2) by blast
  ultimately have "set (GVKStringToProvidedAPISet (APISet_String s)) =
      {k. \<exists>k' \<in> set s. map_option gvk_key (ParseKindArg (APIKeyToGVKString k')) = Some k}"
    unfolding set_GVKString by (simp add: ts(1))
  also have "\<dots> = {k. \<exists>k' \<in> set s. Some k' = Some k}" using assms
    by (intro Collect_cong bex_cong refl) (simp only: ParseKindArg_GVKString)
  finally show ?thesis by simp
qed

end
