(* ===== verification/Csv_Env.thy ===== *)
theory Csv_Env
  imports Csv_Chain Group_Surface Owners
begin

text \<open>
  What the OLM operator works with when it syncs a ClusterServiceVersion: its errors
  (\<^verbatim>\<open>pkg/controller/install/errors.go\<close>), the answers it gets from the cluster, what it asks the cluster to do, and the
  functions of \<^verbatim>\<open>operator.go\<close>, \<^verbatim>\<open>operatorgroup.go\<close>, \<^verbatim>\<open>operatorconditions.go\<close>, \<^verbatim>\<open>apiservices.go\<close>,
  \<^verbatim>\<open>install/apiservice.go\<close> and \<^verbatim>\<open>install/webhook.go\<close> that the state machine of the next theory calls.

  The cluster is a record of answers. Requests that are made more than once within a sync have a number, as have the
  readings of the clock, because the answers may differ. What the operator changes is kept in a log of actions.
\<close>

subsection \<open>Errors\<close>

datatype go_error =
    StatusError string string
  | StrategyError string string
  | UnadoptableError string string
  | ErrRequirementsNotMet
  | ErrCRDOwnerConflict
  | ErrAPIServiceOwnerConflict
  | Errorf string

fun Error :: "go_error \<Rightarrow> string" where
  "Error (StatusError reason message) = message"
| "Error (StrategyError reason message) = message"
| "Error (UnadoptableError resourceNamespace resourceName) =
     (if resourceNamespace = '''' then resourceName @ '' is unadoptable''
      else resourceNamespace @ ''/'' @ resourceName @ '' is unadoptable'')"
| "Error ErrRequirementsNotMet = ''requirements were not met''"
| "Error ErrCRDOwnerConflict = ''conflicting CRD owner in namespace''"
| "Error ErrAPIServiceOwnerConflict = ''unable to adopt APIService''"
| "Error (Errorf message) = message"

text \<open>\<^verbatim>\<open>apierrors.IsNotFound\<close>, \<^verbatim>\<open>IsGone\<close> and \<^verbatim>\<open>IsServiceUnavailable\<close>\<close>

fun IsStatus :: "string \<Rightarrow> go_error \<Rightarrow> bool" where
  "IsStatus reason (StatusError r message) = (r = reason)"
| "IsStatus reason err = False"

abbreviation IsNotFound :: "go_error \<Rightarrow> bool" where "IsNotFound \<equiv> IsStatus ''NotFound''"
abbreviation IsGone :: "go_error \<Rightarrow> bool" where "IsGone \<equiv> IsStatus ''Gone''"
abbreviation IsServiceUnavailable :: "go_error \<Rightarrow> bool" where "IsServiceUnavailable \<equiv> IsStatus ''ServiceUnavailable''"

definition unrecoverableErrors :: "string list" where
  "unrecoverableErrors = [''InvalidStrategy'', ''Timeout'', ''PatchUnsuccessful'', ''InsufficentPermissions'']"

fun ReasonForError :: "go_error \<Rightarrow> string" where
  "ReasonForError (StrategyError reason message) = reason"
| "ReasonForError err = ''Unknown''"

fun IsErrorUnrecoverable :: "go_error option \<Rightarrow> bool" where
  "IsErrorUnrecoverable None = False"
| "IsErrorUnrecoverable (Some err) = (ReasonForError err \<in> set unrecoverableErrors)"

definition findFirstError :: "(go_error \<Rightarrow> bool) \<Rightarrow> go_error option list \<Rightarrow> go_error option" where
  "findFirstError f errs = Option.bind (find (\<lambda>err. case err of None \<Rightarrow> False | Some e \<Rightarrow> f e) errs) id"

text \<open>The text of an aggregate: its messages without repetitions\<close>

fun distinct_messages :: "string list \<Rightarrow> string list \<Rightarrow> string list" where
  "distinct_messages [] seen = []"
| "distinct_messages (m # ms) seen = (if m \<in> set seen then distinct_messages ms seen else m # distinct_messages ms (m # seen))"

definition aggregate_Error :: "go_error list \<Rightarrow> string" where
  "aggregate_Error agg =
     (let msgs = distinct_messages (map Error agg) [] in
      if length msgs \<le> 1 then strings_Join msgs '', '' else ''['' @ strings_Join msgs '', '' @ '']'')"

definition apiServiceResourceErrorActionable :: "go_error list \<Rightarrow> bool" where
  "apiServiceResourceErrorActionable errs =
     (let filtered = filter (\<lambda>e. case e of UnadoptableError ns name \<Rightarrow> True | _ \<Rightarrow> False) errs in filtered = [])"

fun mode_message :: "mode_error \<Rightarrow> string" where
  "mode_message ZeroNamespaces = ''operatorgroup has invalid selected namespaces, cannot configure to watch zero namespaces''"
| "mode_message NoOwnNamespace = ''OwnNamespace InstallModeType not supported, cannot configure to watch own namespace''"
| "mode_message NoAllNamespaces = ''AllNamespaces InstallModeType not supported, cannot configure to watch all namespaces''"
| "mode_message NoSingleNamespace = ''SingleNamespace InstallModeType not supported, cannot configure to watch one namespace''"
| "mode_message (NoMultiNamespace n) =
     ''MultiNamespace InstallModeType not supported, cannot configure to watch '' @ itoa (int n) @ '' namespaces''"
| "mode_message AllNamespacesAmongOthers =
     ''operatorgroup has invalid selected namespaces, NamespaceAll found when |selected namespaces| > 1''"

subsection \<open>The cluster\<close>

text \<open>
  \<^verbatim>\<open>install.StrategyInstaller\<close> for a strategy of type \<open>'s\<close>
\<close>

record 's StrategyInstaller =
  si_Install :: "'s \<Rightarrow> go_error option"
  si_CheckInstalled :: "'s \<Rightarrow> bool \<times> go_error option"
  si_ShouldRotateCerts :: "'s \<Rightarrow> go_error + bool"
  si_CertsRotated :: bool
  si_CertsRotateAt :: nat

record condition =
  cd_Type :: string
  cd_Status :: string
  cd_Message :: string
  cd_ObservedGeneration :: int

record OperatorCondition =
  oc_Generation :: int
  oc_Overrides :: "condition list"
  oc_Conditions :: "condition list"

text \<open>
  A selector of namespaces as it is used: whether it is nil, empty or selects nothing, and the namespaces it lists
\<close>

record namespace_selector =
  ns_trivial :: bool
  ns_List :: "go_error + string list"

record ('v, 's) olm_env =
  env_order :: "string \<Rightarrow> string \<Rightarrow> nat"
  env_now :: "nat \<Rightarrow> nat"
  env_updateCSV :: "'v ClusterServiceVersion \<Rightarrow> go_error + 'v ClusterServiceVersion"
  env_deleteCSV :: "'v ClusterServiceVersion \<Rightarrow> go_error option"
  env_getCSV :: "nat \<Rightarrow> string \<Rightarrow> string \<Rightarrow> go_error + 'v ClusterServiceVersion"
  env_lookupCSV :: "string \<Rightarrow> string \<Rightarrow> go_error + 'v ClusterServiceVersion"
  env_listCSVs :: "nat \<Rightarrow> string \<Rightarrow> go_error + 'v ClusterServiceVersion list"
  env_groups :: "string \<Rightarrow> go_error + OperatorGroup list"
  env_allGroups :: "go_error + OperatorGroup list"
  env_updateGroup :: "OperatorGroup \<Rightarrow> go_error option"
  env_requeueGroup :: "string \<Rightarrow> string \<Rightarrow> go_error option"
  env_selector :: "LabelSelector option \<Rightarrow> go_error + namespace_selector"
  env_condition :: "string \<Rightarrow> string \<Rightarrow> go_error + OperatorCondition"
  env_APIService :: "string \<Rightarrow> go_error + (string \<times> string) list"
  env_requirements :: "'v ClusterServiceVersion \<Rightarrow> bool \<times> RequirementStatus list \<times> go_error option"
  env_strategy :: "'v ClusterServiceVersion \<Rightarrow> go_error + 's"
  env_deployments :: "'s \<Rightarrow> string list option"
  env_client :: "string \<Rightarrow> go_error option"
  env_installer :: "'v ClusterServiceVersion \<Rightarrow> 's \<Rightarrow> 's option \<Rightarrow> 's StrategyInstaller"
  env_deploymentSpecs :: "'v ClusterServiceVersion \<Rightarrow> 's \<Rightarrow> go_error + 's"
  env_apiServices :: "'v ClusterServiceVersion \<Rightarrow> bool \<times> go_error option"
  env_webhooks :: "'v ClusterServiceVersion \<Rightarrow> bool \<times> go_error option"
  env_apiResources :: "'v ClusterServiceVersion \<Rightarrow> go_error list"
  env_clusterRoles :: "'v ClusterServiceVersion \<Rightarrow> go_error option"

datatype 'v action =
    Event event
  | UpdateCSV "'v ClusterServiceVersion"
  | DeleteCSV string string
  | UpdateOperatorGroup OperatorGroup
  | RequeueCSV string string
  | RequeueOperatorGroup string string
  | DeleteDeployment string string
  | Install
  | CountUpgrade

text \<open>The ClusterServiceVersion \<^verbatim>\<open>out\<close> and what was done\<close>

record 'v sync =
  sy_csv :: "'v ClusterServiceVersion"
  sy_log :: "'v action list"

definition act :: "'v action list \<Rightarrow> 'v sync \<Rightarrow> 'v sync" where
  "act as sy = sy\<lparr>sy_log := sy_log sy @ as\<rparr>"

definition with_status :: "event list \<times> csv_status \<Rightarrow> 'v sync \<Rightarrow> 'v sync" where
  "with_status es sy = act (map Event (fst es)) (sy\<lparr>sy_csv := (sy_csv sy)\<lparr>csv_Status := snd es\<rparr>\<rparr>)"

abbreviation status_of :: "'v sync \<Rightarrow> csv_status" where
  "status_of sy \<equiv> csv_Status (sy_csv sy)"

definition set_phase :: "string \<Rightarrow> string \<Rightarrow> string \<Rightarrow> nat \<Rightarrow> 'v sync \<Rightarrow> 'v sync" where
  "set_phase phase reason message now sy = with_status (SetPhaseWithEvent phase reason message (Some now) (status_of sy)) sy"

definition set_phase_if_changed :: "string \<Rightarrow> string \<Rightarrow> string \<Rightarrow> nat \<Rightarrow> 'v sync \<Rightarrow> 'v sync" where
  "set_phase_if_changed phase reason message now sy =
     with_status (SetPhaseWithEventIfChanged phase reason message (Some now) (status_of sy)) sy"

definition set_requirements :: "RequirementStatus list \<Rightarrow> 'v sync \<Rightarrow> 'v sync" where
  "set_requirements statuses sy = with_status ([], SetRequirementStatus statuses (status_of sy)) sy"

definition requeue :: "'v ClusterServiceVersion \<Rightarrow> 'v sync \<Rightarrow> 'v sync" where
  "requeue csv = act [RequeueCSV (csv_Namespace csv) (csv_Name csv)]"

subsection \<open>The operator group of a ClusterServiceVersion\<close>

definition OperatorGroupNamespaceAnnotationKey :: string where
  "OperatorGroupNamespaceAnnotationKey = ''olm.operatorNamespace''"

definition OperatorGroupAnnotationKey :: string where
  "OperatorGroupAnnotationKey = ''olm.operatorGroup''"

definition OperatorGroupTargetsAnnotationKey :: string where
  "OperatorGroupTargetsAnnotationKey = ''olm.targetNamespaces''"

definition setOperatorGroupAnnotations :: "(string \<times> string) list \<Rightarrow> OperatorGroup \<Rightarrow> bool \<Rightarrow> (string \<times> string) list" where
  "setOperatorGroupAnnotations annotations op addTargets =
     (let annotations = AList.update OperatorGroupNamespaceAnnotationKey (og_Namespace op) annotations;
          annotations = AList.update OperatorGroupAnnotationKey (og_Name op) annotations
      in if addTargets \<and> og_Namespaces op \<noteq> []
         then AList.update OperatorGroupTargetsAnnotationKey (BuildTargetNamespaces op) annotations else annotations)"

definition operatorGroupAnnotationsDiffer :: "(string \<times> string) list \<Rightarrow> OperatorGroup \<Rightarrow> bool" where
  "operatorGroupAnnotationsDiffer annotations op =
     (if map_of annotations OperatorGroupNamespaceAnnotationKey \<noteq> Some (og_Namespace op) then True
      else if map_of annotations OperatorGroupAnnotationKey \<noteq> Some (og_Name op) then True
      else if map_of annotations OperatorGroupTargetsAnnotationKey \<noteq> Some (BuildTargetNamespaces op) then True
      else False)"

definition getOperatorGroupTargets :: "('v, 's) olm_env \<Rightarrow> OperatorGroup \<Rightarrow> go_error + NamespaceSet" where
  "getOperatorGroupTargets env op =
     (case env_selector env (og_Selector op) of
        Inl err \<Rightarrow> Inl err
      | Inr selector \<Rightarrow>
          if og_TargetNamespaces op \<noteq> []
          then (if '''' \<in> set (og_TargetNamespaces op)
                then Inl (Errorf (''TargetNamespaces cannot contain NamespaceAll: ['' @ strings_Join (og_TargetNamespaces op) '' '' @ '']''))
                else Inr (NewNamespaceSet (og_TargetNamespaces op)))
          else if ns_trivial selector then Inr ['''']
          else map_sum id NewNamespaceSet (ns_List selector))"

definition operatorGroupForCSV ::
    "('v, 's) olm_env \<Rightarrow> 'v sync \<Rightarrow> OperatorGroup option \<times> go_error option \<times> 'v sync" where
  "operatorGroupForCSV env sy =
     (let now = env_now env 1 in
      case env_groups env (csv_Namespace (sy_csv sy)) of
        Inl err \<Rightarrow> (None, Some err, sy)
      | Inr operatorGroups \<Rightarrow>
          if length operatorGroups = 0
          then let err = Errorf ''csv in namespace with no operatorgroups''
               in (None, Some err, set_phase CSVPhaseFailed ''NoOperatorGroup'' (Error err) now sy)
          else if length operatorGroups = 1
          then let operatorGroup = operatorGroups ! 0
               in if operatorGroupAnnotationsDiffer (csv_Annotations (sy_csv sy)) operatorGroup
                  then let csv = (sy_csv sy)\<lparr>csv_Annotations := setOperatorGroupAnnotations (csv_Annotations (sy_csv sy)) operatorGroup True\<rparr>;
                           sy = act [UpdateCSV csv] (sy\<lparr>sy_csv := csv\<rparr>)
                       in case env_updateCSV env csv of
                            Inl err \<Rightarrow> (None, Some err, sy)
                          | Inr updated \<Rightarrow>
                              let sy = (if getOperatorGroupTargets env operatorGroup = Inr []
                                        then set_phase_if_changed CSVPhaseFailed ''NoTargetNamespaces''
                                               ''no targetNamespaces are matched operatorgroups namespace selection'' now sy
                                        else sy);
                                  sy = act [RequeueOperatorGroup (og_Namespace operatorGroup) (og_Name operatorGroup)] sy
                              in case env_requeueGroup env (og_Namespace operatorGroup) (og_Name operatorGroup) of
                                   Some err \<Rightarrow> (None, Some err, sy)
                                 | None \<Rightarrow> (None, None, sy)
                  else (Some operatorGroup, None, sy)
          else let err = Errorf ''csv created in namespace with multiple operatorgroups, can't pick one automatically'';
                   sy = (if st_Reason (status_of sy) \<noteq> ''TooManyOperatorGroups''
                         then set_phase CSVPhaseFailed ''TooManyOperatorGroups'' (Error err) now sy else sy)
               in (None, Some err, sy))"

subsection \<open>Labels\<close>

definition labels_Equals :: "(string \<times> string) list \<Rightarrow> (string \<times> string) list \<Rightarrow> bool" where
  "labels_Equals ls ls' = list_all (\<lambda>(k, v). map_of ls k = map_of ls' k) (ls @ ls')"

definition labels_Merge :: "(string \<times> string) list \<Rightarrow> (string \<times> string) list \<Rightarrow> (string \<times> string) list" where
  "labels_Merge ls ls' = foldl (\<lambda>m (k, v). AList.update k v m) ls ls'"

definition ensureLabels ::
    "('v, 's) olm_env \<Rightarrow> (string \<times> string) list list \<Rightarrow> 'v sync \<Rightarrow> go_error option \<times> 'v sync" where
  "ensureLabels env labelSets sy =
     (let csvLabelSet = csv_Labels (sy_csv sy);
          merged = foldl labels_Merge csvLabelSet labelSets
      in if labels_Equals csvLabelSet merged then (None, sy)
         else let out = (sy_csv sy)\<lparr>csv_Labels := merged\<rparr>; sy = act [UpdateCSV out] sy
              in case env_updateCSV env out of
                   Inl err \<Rightarrow> (Some err, sy)
                 | Inr updated \<Rightarrow> (None, sy\<lparr>sy_csv := updated\<rparr>))"

subsection \<open>Conditions of the operator, webhooks, API services\<close>

definition FindStatusCondition :: "condition list \<Rightarrow> string \<Rightarrow> condition option" where
  "FindStatusCondition conditions conditionType = find (\<lambda>c. cd_Type c = conditionType) conditions"

definition isOperatorUpgradeable :: "('v, 's) olm_env \<Rightarrow> 'v ClusterServiceVersion \<Rightarrow> bool \<times> go_error option" where
  "isOperatorUpgradeable env csv =
     (case env_condition env (csv_Namespace csv) (csv_Name csv) of
        Inl err \<Rightarrow> if IsNotFound err then (True, None) else (False, Some err)
      | Inr cond \<Rightarrow>
          case FindStatusCondition (oc_Overrides cond) ''Upgradeable'' of
            Some o' \<Rightarrow>
              if cd_Status o' = ''True'' then (True, None)
              else (False, Some (Errorf (''the operator is not upgradeable: '' @ cd_Message o')))
          | None \<Rightarrow>
              case FindStatusCondition (oc_Conditions cond) ''Upgradeable'' of
                Some c \<Rightarrow>
                  if cd_ObservedGeneration c \<noteq> oc_Generation cond
                  then (False, Some (Errorf (''the operatorcondition status \"'' @ cd_Type c @ ''\"=\"'' @ cd_Status c @ ''\" is outdated'')))
                  else if cd_Status c = ''False''
                  then (False, Some (Errorf (''the operator is not upgradeable: '' @ cd_Message c)))
                  else (True, None)
              | None \<Rightarrow> (True, None))"

fun ValidWebhookRules :: "RuleWithOperations list \<Rightarrow> string option" where
  "ValidWebhookRules [] = None"
| "ValidWebhookRules (rule # rules) =
     (if ''*'' \<in> set (rwo_APIGroups rule) then Some ''webhook rules cannot include all groups''
      else if ''operators.coreos.com'' \<in> set (rwo_APIGroups rule) then Some ''webhook rules cannot include the OLM group''
      else if ''admissionregistration.k8s.io'' \<in> set (rwo_APIGroups rule) \<and>
        (''*'' \<in> set (rwo_Resources rule) \<or> ''MutatingWebhookConfiguration'' \<in> set (rwo_Resources rule) \<or>
         ''ValidatingWebhookConfiguration'' \<in> set (rwo_Resources rule))
      then Some ''webhook rules cannot include MutatingWebhookConfiguration or ValidatingWebhookConfiguration resources''
      else ValidWebhookRules rules)"

text \<open>The loop over the webhooks of a CSV: the message of the first problem\<close>

fun check_webhooks :: "WebhookDescription list \<Rightarrow> string list \<Rightarrow> string option" where
  "check_webhooks [] webhookNames = None"
| "check_webhooks (desc # descs) webhookNames =
     (if wh_GenerateName desc \<in> set webhookNames then Some ''CSV contains repeated WebhookDescription name''
      else case ValidWebhookRules (wh_Rules desc) of
             Some err \<Rightarrow> Some err
           | None \<Rightarrow> check_webhooks descs (wh_GenerateName desc # webhookNames))"

definition APIService_GetName :: "APIServiceDescription \<Rightarrow> string" where
  "APIService_GetName d = as_Version d @ ''.'' @ as_Group d"

text \<open>A map of descriptions by name, read in alphabetical order\<close>

definition by_name :: "(string \<times> 'a) list \<Rightarrow> 'a list" where
  "by_name m = map (\<lambda>k. the (map_of m k)) (sort (map fst m))"

definition GetOwnedAPIServiceDescriptions :: "'v ClusterServiceVersion \<Rightarrow> APIServiceDescription list" where
  "GetOwnedAPIServiceDescriptions csv =
     by_name (foldl (\<lambda>m owned. AList.update (APIService_GetName owned) owned m) [] (csv_OwnedAPIServices csv))"

definition csv_object :: "'v ClusterServiceVersion \<Rightarrow> k8s_object" where
  "csv_object csv =
     \<lparr>ob_type = TClusterServiceVersion, ob_GVK = gvk_of '''' '''' '''', ob_Name = csv_Name csv, ob_GenerateName = '''',
      ob_Namespace = csv_Namespace csv, ob_UID = '''', ob_Labels = csv_Labels csv, ob_OwnerReferences = []\<rparr>"

definition adopt_by ::
    "('v, 's) olm_env \<Rightarrow> string \<Rightarrow> string \<Rightarrow> (string \<times> string) list \<Rightarrow> 'v ClusterServiceVersion list \<Rightarrow> bool \<times> go_error option" where
  "adopt_by env ownerNamespace ownerName labels owners =
     (case env_lookupCSV env ownerNamespace ownerName of
        Inl err \<Rightarrow>
          if \<not> IsNotFound err \<and> \<not> IsGone err then (False, Some err)
          else (AdoptableLabels labels True (map csv_object owners), None)
      | Inr currentOwnerCSV \<Rightarrow>
          let owners = (if phase_of currentOwnerCSV = CSVPhaseReplacing \<or> phase_of currentOwnerCSV = CSVPhaseDeleting
                        then owners @ [currentOwnerCSV] else owners)
          in (AdoptableLabels labels True (map csv_object owners), None))"

definition IsAPIServiceAdoptable ::
    "('v, 's) olm_env \<Rightarrow> 'v ClusterServiceVersion \<Rightarrow> (string \<times> string) list \<Rightarrow> bool \<times> go_error option" where
  "IsAPIServiceAdoptable env target apiServiceLabels =
     (let ownerKind = label_of apiServiceLabels OwnerKind;
          ownerName = label_of apiServiceLabels OwnerKey;
          ownerNamespace = label_of apiServiceLabels OwnerNamespaceKey
      in if ownerKind = '''' \<or> ownerNamespace = '''' \<or> ownerName = '''' then (False, None)
         else if ownerKind \<noteq> g_Kind (ob_GVK (infer_or_keep (csv_object target))) then (False, None)
         else case env_lookupCSV env (csv_Namespace target) (csv_Replaces target) of
                Inl err \<Rightarrow>
                  if \<not> IsNotFound err \<and> \<not> IsGone err then (False, Some err)
                  else adopt_by env ownerNamespace ownerName apiServiceLabels [target]
              | Inr replacing \<Rightarrow> adopt_by env ownerNamespace ownerName apiServiceLabels [target, replacing])"

end
