(* ===== verification/Csv_Sync.thy ===== *)
theory Csv_Sync
  imports Csv_Env
begin

text \<open>
  The state machine of a ClusterServiceVersion: \<^verbatim>\<open>transitionCSVState\<close> of \<^verbatim>\<open>pkg/controller/operators/olm/operator.go\<close> and the
  functions it is made of, one definition for the checks before the switch on the phase and one for every phase. A
  branch that returns gives the error of the sync and the state that \<^verbatim>\<open>out\<close> points to.
\<close>

type_synonym 'v returned = "go_error option \<times> 'v sync"

subsection \<open>Helpers\<close>

fun apiServices_conflict :: "('v, 's) olm_env \<Rightarrow> 'v ClusterServiceVersion \<Rightarrow> APIServiceDescription list \<Rightarrow> go_error option" where
  "apiServices_conflict env csv [] = None"
| "apiServices_conflict env csv (desc # descs) =
     (case env_APIService env (APIService_GetName desc) of
        Inl err \<Rightarrow> if \<not> IsNotFound err \<and> \<not> IsGone err then Some err else apiServices_conflict env csv descs
      | Inr labels \<Rightarrow>
          (let (adoptable, err) = IsAPIServiceAdoptable env csv labels
           in if \<not> adoptable then Some ErrAPIServiceOwnerConflict else apiServices_conflict env csv descs))"

definition apiServiceOwnerConflicts :: "('v, 's) olm_env \<Rightarrow> 'v ClusterServiceVersion \<Rightarrow> go_error option" where
  "apiServiceOwnerConflicts env csv = apiServices_conflict env csv (GetOwnedAPIServiceDescriptions csv)"

abbreviation being_replaced :: "('v, 's) olm_env \<Rightarrow> 'v ClusterServiceVersion \<Rightarrow> 'v ClusterServiceVersion option" where
  "being_replaced env csv \<equiv>
     IsBeingReplaced (env_order env) csv (csvSet_with (env_listCSVs env 0 (csv_Namespace csv)) CSVPhaseAny)"

definition checkReplacementsAndUpdateStatus :: "('v, 's) olm_env \<Rightarrow> 'v sync \<Rightarrow> go_error option \<times> 'v sync" where
  "checkReplacementsAndUpdateStatus env sy =
     (if st_Phase (status_of sy) = CSVPhaseReplacing \<or> st_Phase (status_of sy) = CSVPhaseDeleting then (None, sy)
      else case being_replaced env (sy_csv sy) of
             Some replacement \<Rightarrow>
               (Some (Errorf ''replacing''),
                act [CountUpgrade] (set_phase CSVPhaseReplacing ''BeingReplaced''
                  (''being replaced by csv: '' @ csv_Name replacement) (env_now env 2) sy))
           | None \<Rightarrow> (None, sy))"

definition parseStrategiesAndUpdateStatus ::
    "('v, 's) olm_env \<Rightarrow> 'v sync \<Rightarrow> ('s StrategyInstaller \<times> 's) option \<times> 'v sync" where
  "parseStrategiesAndUpdateStatus env sy =
     (case env_strategy env (sy_csv sy) of
        Inl err \<Rightarrow>
          (None, set_phase CSVPhaseFailed ''InvalidInstallStrategy'' (''install strategy invalid: '' @ Error err) (env_now env 3) sy)
      | Inr strategy \<Rightarrow>
          let previousCSV = IsReplacing (env_getCSV env 3) (sy_csv sy);
              sy = (case previousCSV of Some p \<Rightarrow> requeue p sy | None \<Rightarrow> sy);
              previousStrategy = (case previousCSV of
                Some p \<Rightarrow> (case env_strategy env p of Inl err \<Rightarrow> None | Inr s \<Rightarrow> Some s) | None \<Rightarrow> None)
          in case env_client env (csv_Namespace (sy_csv sy)) of
               Some err \<Rightarrow> (None, sy)
             | None \<Rightarrow> (Some (env_installer env (sy_csv sy) strategy previousStrategy, strategy), sy))"

definition updateInstallStatus ::
    "('v, 's) olm_env \<Rightarrow> 's StrategyInstaller \<Rightarrow> 's \<Rightarrow> string \<Rightarrow> string \<Rightarrow> 'v sync \<Rightarrow> go_error option \<times> 'v sync" where
  "updateInstallStatus env installer strategy requeuePhase requeueConditionReason sy =
     (let (strategyInstalled, strategyErr) = si_CheckInstalled installer strategy;
          now = env_now env 4;
          (apiServicesInstalled, apiServiceErr) = env_apiServices env (sy_csv sy);
          (webhooksInstalled, webhookErr) = env_webhooks env (sy_csv sy)
      in if strategyInstalled \<and> apiServicesInstalled \<and> webhooksInstalled
         then (None, set_phase_if_changed CSVPhaseSucceeded ''InstallSucceeded'' ''install strategy completed with no errors'' now sy)
         else case findFirstError IsServiceUnavailable [strategyErr, apiServiceErr, webhookErr] of
                Some err \<Rightarrow> (Some err, sy)
              | None \<Rightarrow>
         if IsErrorUnrecoverable strategyErr
         then (strategyErr, set_phase_if_changed CSVPhaseFailed ''InstallCheckFailed''
                 (''install failed: '' @ Error (the strategyErr)) now sy)
         else case apiServiceErr of
                Some err \<Rightarrow>
                  (Some err, set_phase_if_changed CSVPhaseFailed ''APIServiceInstallFailed''
                     (''APIService install failed: '' @ Error err) now sy)
              | None \<Rightarrow>
         if \<not> apiServicesInstalled
         then (Some (Errorf ''apiServices not installed''),
               requeue (sy_csv sy) (set_phase_if_changed requeuePhase requeueConditionReason ''apiServices not installed'' now sy))
         else case webhookErr of
                Some err \<Rightarrow>
                  (Some err, set_phase_if_changed CSVPhaseInstallReady requeueConditionReason
                     (''Webhook install failed: '' @ Error err) now sy)
              | None \<Rightarrow>
         if \<not> webhooksInstalled
         then (Some (Errorf ''webhooks not installed''),
               requeue (sy_csv sy) (set_phase_if_changed requeuePhase requeueConditionReason ''webhooks not installed'' now sy))
         else case strategyErr of
                Some err \<Rightarrow>
                  (Some err, requeue (sy_csv sy)
                     (set_phase_if_changed
                        (if ReasonForError err = ''DeploymentUpdated'' \<or> ReasonForError err = ''AnnotationsMissing''
                         then CSVPhaseInstallReady else requeuePhase)
                        requeueConditionReason (''installing: '' @ Error err) now sy))
              | None \<Rightarrow> (None, sy))"

definition cleanupCSVDeployments :: "('v, 's) olm_env \<Rightarrow> 'v sync \<Rightarrow> 'v sync" where
  "cleanupCSVDeployments env sy =
     (case env_strategy env (sy_csv sy) of
        Inl err \<Rightarrow> sy
      | Inr strategy \<Rightarrow>
          (case env_deployments env strategy of
             None \<Rightarrow> sy
           | Some specs \<Rightarrow> act (map (DeleteDeployment (csv_Namespace (sy_csv sy))) specs) sy))"

subsection \<open>The checks before the switch\<close>

text \<open>The result of the checks: to return, or to go on with the operator group\<close>

datatype 'v checked = Return "'v returned" | Continue OperatorGroup "'v sync"

definition set_provided :: "APISet \<Rightarrow> OperatorGroup \<Rightarrow> OperatorGroup" where
  "set_provided apis g =
     g\<lparr>og_Annotations := AList.update OperatorGroupProvidedAPIsAnnotationKey (APISet_String apis) (og_Annotations g)\<rparr>"

definition update_group :: "('v, 's) olm_env \<Rightarrow> OperatorGroup \<Rightarrow> 'v sync \<Rightarrow> 'v returned" where
  "update_group env g sy =
     ((case env_updateGroup env g of
         Some err \<Rightarrow> if \<not> IsNotFound err
                     then Some (Errorf (''could not update operatorgroups olm.providedAPIs annotation: '' @ Error err)) else None
       | None \<Rightarrow> None),
      act [UpdateOperatorGroup g] sy)"

definition check_provided ::
    "('v, 's) olm_env \<Rightarrow> operatorSurface \<Rightarrow> OperatorGroup \<Rightarrow> OperatorGroup list \<Rightarrow> 'v sync \<Rightarrow> 'v checked" where
  "check_provided env surface operatorGroup allGroups sy =
     (let now = env_now env 0;
          otherGroups = filter (\<lambda>g. og_Name g \<noteq> og_Name operatorGroup \<or> og_Namespace g \<noteq> og_Namespace operatorGroup) allGroups;
          groupSurface = NewOperatorGroup operatorGroup;
          providedAPIs = StripPlural (os_ProvidedAPIs surface);
          result = ReconcileAPIIntersection providedAPIs groupSurface (NewOperatorGroupSurfaces otherGroups)
      in if og_StaticProvidedAPIs operatorGroup \<and> (result = AddAPIs \<or> result = RemoveAPIs)
         then Return (None,
           if st_Reason (status_of sy) \<noteq> ''InterOperatorGroupOwnerConflict''
           then cleanupCSVDeployments env (set_phase CSVPhaseFailed ''CannotModifyStaticOperatorGroupProvidedAPIs''
                  ''static provided api operatorgroup cannot be modified by these apis'' now sy)
           else sy)
         else if result = APIConflict
         then Return (None,
           if st_Reason (status_of sy) \<noteq> ''InterOperatorGroupOwnerConflict''
           then cleanupCSVDeployments env (set_phase CSVPhaseFailed ''InterOperatorGroupOwnerConflict''
                  ''intersecting operatorgroups provide the same apis'' now sy)
           else sy)
         else if result = AddAPIs
         then let union = APISet_Union (gs_providedAPIs groupSurface) [providedAPIs]
              in if annotation (og_Annotations operatorGroup) OperatorGroupProvidedAPIsAnnotationKey = APISet_String union
                 then Continue operatorGroup sy
                 else let (err, sy) = update_group env (set_provided union operatorGroup) sy
                      in Return (err, requeue (sy_csv sy) sy)
         else if result = RemoveAPIs
         then let difference = APISet_Difference (gs_providedAPIs groupSurface) providedAPIs;
                  (err, sy) = (if og_Annotations operatorGroup \<noteq> []
                               then update_group env (set_provided difference operatorGroup) sy else (None, sy))
              in Return (err, requeue (sy_csv sy) sy)
         else Continue operatorGroup sy)"

definition check_group :: "('v, 's) olm_env \<Rightarrow> operatorSurface \<Rightarrow> OperatorGroup \<Rightarrow> 'v sync \<Rightarrow> 'v checked" where
  "check_group env surface operatorGroup sy =
     (let now = env_now env 0; out = sy_csv sy in
      case NewInstallModeSet (csv_InstallModes out) of
        Inl err \<Rightarrow> Return (None, set_phase_if_changed CSVPhaseFailed ''InvalidInstallModes'' err now sy)
      | Inr modeSet \<Rightarrow>
      case map_of (csv_Annotations out) OperatorGroupTargetsAnnotationKey of
        None \<Rightarrow> Return (None, set_phase_if_changed CSVPhaseFailed ''NoTargetNamespaces''
                  ''csv missing olm.targetNamespaces annotation'' now sy)
      | Some targets \<Rightarrow>
      case Supports modeSet (csv_Namespace out) (strings_Split targets CHR '','') of
        Some err \<Rightarrow> Return (None, set_phase_if_changed CSVPhaseFailed ''UnsupportedOperatorGroup'' (mode_message err) now sy)
      | None \<Rightarrow>
      case env_allGroups env of
        Inl err \<Rightarrow> Return (None, sy)
      | Inr allGroups \<Rightarrow> check_provided env surface operatorGroup allGroups sy)"

text \<open>
  \<^verbatim>\<open>LabelSetsFor\<close> gets the pointer that \<^verbatim>\<open>apiSurfaceOfCSV\<close> returns.
\<close>

definition sync_checks :: "('v, 's) olm_env \<Rightarrow> 'v ClusterServiceVersion \<Rightarrow> 'v checked" where
  "sync_checks env in' =
     (let sy = \<lparr>sy_csv = in', sy_log = []\<rparr> in
      case apiSurfaceOfCSV in' of
        Inl err \<Rightarrow> Return (None, sy)
      | Inr surface \<Rightarrow>
          let labelSets = LabelSetsFor (PointerToSurface surface);
              (err, sy) = (if length labelSets > 0 then ensureLabels env labelSets sy else (None, sy))
          in case err of
               Some err \<Rightarrow> Return (Some err, sy)
             | None \<Rightarrow>
                 let (operatorGroup, err, sy) = operatorGroupForCSV env sy
                 in case operatorGroup of
                      None \<Rightarrow> Return (err, sy)
                    | Some operatorGroup \<Rightarrow> check_group env surface operatorGroup sy)"

subsection \<open>The phases\<close>

definition sync_none :: "('v, 's) olm_env \<Rightarrow> 'v sync \<Rightarrow> 'v returned" where
  "sync_none env sy =
     (None, set_phase CSVPhasePending ''RequirementsUnknown'' ''requirements not yet checked'' (env_now env 0) sy)"

text \<open>The rest of the pending phase, once requirements are met\<close>

definition pending_install :: "('v, 's) olm_env \<Rightarrow> 'v sync \<Rightarrow> 'v returned" where
  "pending_install env sy =
     (let now = env_now env 0; out = sy_csv sy in
      case check_webhooks (csv_Webhooks out) [] of
        Some err \<Rightarrow> (None, set_phase_if_changed CSVPhaseFailed ''InvalidWebhookDescription'' err now sy)
      | None \<Rightarrow>
      if crdOwnerConflicts (env_order env) out (csvSet_with (env_listCSVs env 0 (csv_Namespace out)) CSVPhaseAny)
      then (Some ErrCRDOwnerConflict, set_phase CSVPhaseFailed ''OwnerConflict'' (Error ErrCRDOwnerConflict) now sy)
      else case apiServiceOwnerConflicts env out of
        Some err \<Rightarrow>
          (Some err, if err = ErrAPIServiceOwnerConflict then set_phase CSVPhaseFailed ''OwnerConflict'' (Error err) now sy else sy)
      | None \<Rightarrow>
      case IsReplacing (env_getCSV env 2) out of
        Some prev \<Rightarrow>
          if phase_of prev \<noteq> CSVPhaseReplacing then (None, sy)
          else (None, set_phase CSVPhaseInstallReady ''AllRequirementsMet'' ''all requirements found, attempting install'' now sy)
      | None \<Rightarrow> (None, set_phase CSVPhaseInstallReady ''AllRequirementsMet'' ''all requirements found, attempting install'' now sy))"

definition pending_requirements :: "('v, 's) olm_env \<Rightarrow> 'v sync \<Rightarrow> 'v returned" where
  "pending_requirements env sy =
     (let now = env_now env 0;
          (met, statuses, err) = env_requirements env (sy_csv sy)
      in case err of
           Some err \<Rightarrow>
             (None, set_phase CSVPhaseFailed ''InvalidInstallStrategy'' (''install strategy invalid: '' @ Error err) now sy)
         | None \<Rightarrow>
             let sy = set_requirements statuses sy;
                 sy = (case IsReplacing (env_getCSV env 1) (sy_csv sy) of
                         Some prev \<Rightarrow> if phase_of prev = CSVPhaseSucceeded then requeue prev sy else sy
                       | None \<Rightarrow> sy)
             in if \<not> met
                then (Some ErrRequirementsNotMet, set_phase_if_changed CSVPhasePending ''RequirementsNotMet''
                        ''one or more requirements couldn't be found'' now sy)
                else pending_install env sy)"

definition sync_pending :: "('v, 's) olm_env \<Rightarrow> 'v sync \<Rightarrow> 'v returned" where
  "sync_pending env sy =
     (case IsReplacing (env_getCSV env 0) (sy_csv sy) of
        None \<Rightarrow> pending_requirements env sy
      | Some replacedCSV \<Rightarrow>
          let (operatorUpgradeable, condErr) = isOperatorUpgradeable env replacedCSV
          in if \<not> operatorUpgradeable
             then (None, set_phase_if_changed CSVPhasePending ''OperatorConditionNotUpgradeable''
                     (''operator is not upgradeable: '' @ (case condErr of Some err \<Rightarrow> Error err | None \<Rightarrow> ''%!s(<nil>)''))
                     (env_now env 0) sy)
             else pending_requirements env sy)"

definition set_certs :: "nat \<Rightarrow> nat \<Rightarrow> 'v sync \<Rightarrow> 'v sync" where
  "set_certs now rotateTime sy =
     with_status ([], (status_of sy)\<lparr>st_CertsLastUpdated := Some now, st_CertsRotateAt := Some rotateTime\<rparr>) sy"

definition install_strategy :: "('v, 's) olm_env \<Rightarrow> 's StrategyInstaller \<Rightarrow> 's \<Rightarrow> 'v sync \<Rightarrow> 'v returned" where
  "install_strategy env installer strategy sy =
     (let now = env_now env 0; sy = act [Install] sy in
      case si_Install installer strategy of
        Some err \<Rightarrow>
          (Some err, set_phase CSVPhaseFailed
             (if IsErrorUnrecoverable (Some err) then ''InstallComponentFailedNoRetry'' else ''InstallComponentFailed'')
             (''install strategy failed: '' @ Error err) now sy)
      | None \<Rightarrow>
          let sy = (if si_CertsRotated installer then set_certs (env_now env 5) (si_CertsRotateAt installer) sy else sy);
              sy = set_phase CSVPhaseInstalling ''InstallSucceeded'' ''waiting for install components to report healthy'' now sy
          in (None, requeue (sy_csv sy) sy))"

definition sync_install_ready :: "('v, 's) olm_env \<Rightarrow> 'v sync \<Rightarrow> 'v returned" where
  "sync_install_ready env sy =
     (let (parsed, sy) = parseStrategiesAndUpdateStatus env sy
      in case parsed of
           None \<Rightarrow> (None, sy)
         | Some (installer, strategy) \<Rightarrow> install_strategy env installer strategy sy)"

text \<open>Times count seconds.\<close>

definition install_timeout :: nat where
  "install_timeout = 5 * 60"

definition installing_status :: "('v, 's) olm_env \<Rightarrow> 's StrategyInstaller \<Rightarrow> 's \<Rightarrow> 'v sync \<Rightarrow> 'v returned" where
  "installing_status env installer strategy sy =
     (let now = env_now env 0 in
      case env_deploymentSpecs env (sy_csv sy) strategy of
        Inl err \<Rightarrow> (None, set_phase CSVPhasePending ''NeedsReinstall'' ''calculated deployment install is bad'' now sy)
      | Inr strategy \<Rightarrow>
      case updateInstallStatus env installer strategy CSVPhaseInstalling ''InstallWaiting'' sy of
        (None, sy) \<Rightarrow> (None, sy)
      | (Some installErr, sy) \<Rightarrow>
          if IsServiceUnavailable installErr then (Some installErr, sy)
          else case st_LastTransitionTime (status_of sy) of
                 Some t \<Rightarrow>
                   if env_now env 6 \<ge> t + install_timeout
                   then (None, set_phase CSVPhaseFailed ''InstallCheckFailed'' ''install timeout'' now sy)
                   else (None, sy)
               | None \<Rightarrow> (None, sy))"

definition sync_installing :: "('v, 's) olm_env \<Rightarrow> 'v sync \<Rightarrow> 'v returned" where
  "sync_installing env sy =
     (let (parsed, sy) = parseStrategiesAndUpdateStatus env sy
      in case parsed of
           None \<Rightarrow> (None, sy)
         | Some (installer, strategy) \<Rightarrow> installing_status env installer strategy sy)"

text \<open>The check of the components of an operator that has succeeded\<close>

definition succeeded_status :: "('v, 's) olm_env \<Rightarrow> 's StrategyInstaller \<Rightarrow> 's \<Rightarrow> 'v sync \<Rightarrow> 'v returned" where
  "succeeded_status env installer strategy sy =
     (let now = env_now env 0 in
      case env_deploymentSpecs env (sy_csv sy) strategy of
        Inl err \<Rightarrow> (None, set_phase CSVPhasePending ''NeedsReinstall'' ''calculated deployment install is bad'' now sy)
      | Inr strategy \<Rightarrow>
      case updateInstallStatus env installer strategy CSVPhaseFailed ''ComponentUnhealthy'' sy of
        (Some installErr, sy) \<Rightarrow> if IsServiceUnavailable installErr then (Some installErr, sy) else (None, sy)
      | (None, sy) \<Rightarrow>
      case env_clusterRoles env (sy_csv sy) of
        Some err \<Rightarrow> (Some err, sy)
      | None \<Rightarrow> (None, sy))"

definition succeeded_checks :: "('v, 's) olm_env \<Rightarrow> 's StrategyInstaller \<Rightarrow> 's \<Rightarrow> 'v sync \<Rightarrow> 'v returned" where
  "succeeded_checks env installer strategy sy =
     (let now = env_now env 0; errs = env_apiResources env (sy_csv sy) in
      if errs \<noteq> [] then (None, set_phase CSVPhaseFailed ''APIServiceResourceIssue'' (aggregate_Error errs) now sy)
      else case si_ShouldRotateCerts installer strategy of
        Inl err \<Rightarrow> (None, sy)
      | Inr shouldRotate \<Rightarrow>
      if shouldRotate
      then (None, set_phase CSVPhasePending ''NeedsCertRotation'' ''CSV owns resources that require a cert refresh'' now sy)
      else let (met, statuses, err) = env_requirements env (sy_csv sy)
           in case err of
                Some err \<Rightarrow>
                  (None, set_phase CSVPhaseFailed ''InvalidInstallStrategy'' (''install strategy invalid: '' @ Error err) now sy)
              | None \<Rightarrow>
                  if \<not> met
                  then (None, set_phase CSVPhaseFailed ''RequirementsNotMet'' ''requirements no longer met'' now (set_requirements statuses sy))
                  else succeeded_status env installer strategy sy)"

definition sync_succeeded :: "('v, 's) olm_env \<Rightarrow> 'v sync \<Rightarrow> 'v returned" where
  "sync_succeeded env sy =
     (case checkReplacementsAndUpdateStatus env sy of
        (Some err, sy) \<Rightarrow> (None, sy)
      | (None, sy) \<Rightarrow>
          let (parsed, sy) = parseStrategiesAndUpdateStatus env sy
          in case parsed of
               None \<Rightarrow> (None, sy)
             | Some (installer, strategy) \<Rightarrow> succeeded_checks env installer strategy sy)"

text \<open>The reasons a failed CSV gets out of when the checks before the switch pass, each with the message of the transition\<close>

definition retry_message :: "string \<Rightarrow> string option" where
  "retry_message reason =
     (if reason \<in> set [''NoTargetNamespaces'', ''NoOperatorGroup'', ''TooManyOperatorGroups'', ''UnsupportedOperatorGroup'']
      then Some ''InstallModes now support target namespaces''
      else if reason = ''InterOperatorGroupOwnerConflict''
      then Some ''OperatorGroup no longer intersecting with conflicting owner''
      else if reason = ''CannotModifyStaticOperatorGroupProvidedAPIs''
      then Some ''static OperatorGroup and intersecting groups now support providedAPIs''
      else None)"

definition failed_status :: "('v, 's) olm_env \<Rightarrow> 's StrategyInstaller \<Rightarrow> 's \<Rightarrow> 'v sync \<Rightarrow> 'v returned" where
  "failed_status env installer strategy sy =
     (let now = env_now env 0; errs = env_apiResources env (sy_csv sy) in
      if errs \<noteq> []
      then (None, if apiServiceResourceErrorActionable errs
                  then set_phase CSVPhasePending ''APIServiceResourcesNeedReinstall'' (aggregate_Error errs) now sy else sy)
      else case si_ShouldRotateCerts installer strategy of
        Inl err \<Rightarrow> (None, sy)
      | Inr shouldRotate \<Rightarrow>
      if shouldRotate
      then (None, set_phase CSVPhasePending ''NeedsCertRotation'' ''owned APIServices need cert refresh'' now sy)
      else case env_deploymentSpecs env (sy_csv sy) strategy of
        Inl err \<Rightarrow> (None, set_phase CSVPhasePending ''NeedsReinstall'' ''calculated deployment install is bad'' now sy)
      | Inr strategy \<Rightarrow>
      case updateInstallStatus env installer strategy CSVPhasePending ''NeedsReinstall'' sy of
        (Some installErr, sy) \<Rightarrow> if IsServiceUnavailable installErr then (Some installErr, sy) else (None, sy)
      | (None, sy) \<Rightarrow> (None, sy))"

definition failed_checks :: "('v, 's) olm_env \<Rightarrow> 's StrategyInstaller \<Rightarrow> 's \<Rightarrow> 'v sync \<Rightarrow> 'v returned" where
  "failed_checks env installer strategy sy =
     (let now = env_now env 0 in
      case retry_message (st_Reason (status_of sy)) of
        Some msg \<Rightarrow> (None, set_phase CSVPhasePending ''RequirementsUnknown'' msg now sy)
      | None \<Rightarrow>
          let (met, statuses, err) = env_requirements env (sy_csv sy)
          in if err \<noteq> None \<and> st_Reason (status_of sy) \<noteq> ''InvalidInstallStrategy''
             then (None, set_phase CSVPhaseFailed ''InvalidInstallStrategy'' (''install strategy invalid: '' @ Error (the err)) now sy)
             else if \<not> met
             then (None, set_phase CSVPhasePending ''RequirementsNotMet'' ''requirements not met'' now (set_requirements statuses sy))
             else failed_status env installer strategy sy)"

definition sync_failed :: "('v, 's) olm_env \<Rightarrow> OperatorGroup \<Rightarrow> 'v sync \<Rightarrow> 'v returned" where
  "sync_failed env operatorGroup sy =
     (case (if UpgradeStrategy operatorGroup = UpgradeStrategyUnsafeFailForward then being_replaced env (sy_csv sy) else None) of
        Some replacement \<Rightarrow>
          (None, act [CountUpgrade] (set_phase CSVPhaseReplacing ''BeingReplaced''
             (''Fail Forward is enabled, allowing '' @ st_Phase (status_of sy) @ '' csv to be replaced by csv: '' @ csv_Name replacement)
             (env_now env 2) sy))
      | None \<Rightarrow>
          let (parsed, sy) = parseStrategiesAndUpdateStatus env sy
          in case parsed of
               None \<Rightarrow> (None, sy)
             | Some (installer, strategy) \<Rightarrow> failed_checks env installer strategy sy)"

text \<open>
  The outcome of a sync: it panics or does not return, it is skipped, or it returns
\<close>

datatype 'v transition = Panics | Diverges | Skipped | Moved "go_error option" "'v sync"

definition replaced_by :: "('v, 's) olm_env \<Rightarrow> 'v ClusterServiceVersion option \<Rightarrow> 'v sync \<Rightarrow> 'v returned" where
  "replaced_by env next' sy =
     (case next' of
        None \<Rightarrow> (Some (Errorf ''marked as replacement, but no replacement CSV found in cluster''), sy)
      | Some next' \<Rightarrow>
          if phase_of next' = CSVPhaseSucceeded
          then (None, set_phase CSVPhaseDeleting ''Replaced''
                  ''has been replaced by a newer ClusterServiceVersion that has successfully installed.'' (env_now env 0) sy)
          else (None, requeue (sy_csv sy) (requeue next' sy)))"

text \<open>The namespace of the next CSV is read before it is known that there is one.\<close>

definition sync_replacing :: "('v, 's) olm_env \<Rightarrow> OperatorGroup \<Rightarrow> 'v sync \<Rightarrow> 'v transition" where
  "sync_replacing env operatorGroup sy =
     (case IsReplacing (env_getCSV env 0) (sy_csv sy) of
        Some prev \<Rightarrow> Moved None sy
      | None \<Rightarrow>
          let next' = being_replaced env (sy_csv sy)
          in if UpgradeStrategy operatorGroup = UpgradeStrategyUnsafeFailForward
             then (case next' of
                     None \<Rightarrow> Panics
                   | Some nxt \<Rightarrow>
                       (case env_listCSVs env 1 (csv_Namespace nxt) of
                          Inl err \<Rightarrow> Moved (Some err) sy
                        | Inr csvs \<Rightarrow>
                            (case WalkReplacementChain next' (ReplacementMapping csvs) [WithUniqueCSVs []] of
                               None \<Rightarrow> Diverges
                             | Some (Inl err) \<Rightarrow> Moved (Some (Errorf (walk_error_String err))) sy
                             | Some (Inr lastCSVInChain) \<Rightarrow> case_prod Moved (replaced_by env (Some lastCSVInChain) sy))))
             else case_prod Moved (replaced_by env next' sy))"

definition sync_deleting :: "('v, 's) olm_env \<Rightarrow> 'v sync \<Rightarrow> 'v returned" where
  "sync_deleting env sy =
     (env_deleteCSV env (sy_csv sy), act [DeleteCSV (csv_Namespace (sy_csv sy)) (csv_Name (sy_csv sy))] sy)"

subsection \<open>The transition\<close>

definition switch_phase :: "('v, 's) olm_env \<Rightarrow> OperatorGroup \<Rightarrow> 'v sync \<Rightarrow> 'v transition" where
  "switch_phase env operatorGroup sy =
     (let phase = st_Phase (status_of sy) in
      if phase = CSVPhaseNone then case_prod Moved (sync_none env sy)
      else if phase = CSVPhasePending then case_prod Moved (sync_pending env sy)
      else if phase = CSVPhaseInstallReady then case_prod Moved (sync_install_ready env sy)
      else if phase = CSVPhaseInstalling then case_prod Moved (sync_installing env sy)
      else if phase = CSVPhaseSucceeded then case_prod Moved (sync_succeeded env sy)
      else if phase = CSVPhaseFailed then case_prod Moved (sync_failed env operatorGroup sy)
      else if phase = CSVPhaseReplacing then sync_replacing env operatorGroup sy
      else if phase = CSVPhaseDeleting then case_prod Moved (sync_deleting env sy)
      else Moved None sy)"

definition transitionCSVState :: "('v, 's) olm_env \<Rightarrow> 'v ClusterServiceVersion \<Rightarrow> 'v transition" where
  "transitionCSVState env in' =
     (if st_Reason (csv_Status in') = ''InstallComponentFailedNoRetry'' then Skipped
      else case sync_checks env in' of
             Return (err, sy) \<Rightarrow> Moved err sy
           | Continue operatorGroup sy \<Rightarrow> switch_phase env operatorGroup sy)"

end
