(* ===== verification/Csv_Lifecycle.thy ===== *)
theory Csv_Lifecycle
  imports Csv_Sync
begin

text \<open>
  What the state machine of a ClusterServiceVersion guarantees. A sync is a sequence of moves, each of which is recorded
  in the history or changes nothing of it; the phases go along the edges of the lifecycle, and the phases that
  matter are entered only when their conditions hold.
\<close>

named_theorems sync_simps \<open>what the small operations on a sync change\<close>

subsection \<open>The lifecycle\<close>

definition phase_edges :: "(string \<times> string list) list" where
  "phase_edges =
     [(CSVPhaseNone, [CSVPhasePending]),
      (CSVPhasePending, [CSVPhaseInstallReady]),
      (CSVPhaseInstallReady, [CSVPhaseInstalling]),
      (CSVPhaseInstalling, [CSVPhaseSucceeded, CSVPhasePending, CSVPhaseInstallReady]),
      (CSVPhaseSucceeded, [CSVPhaseReplacing, CSVPhasePending, CSVPhaseInstallReady]),
      (CSVPhaseFailed, [CSVPhaseSucceeded, CSVPhaseReplacing, CSVPhasePending, CSVPhaseInstallReady]),
      (CSVPhaseReplacing, [CSVPhaseDeleting])]"

text \<open>A phase may be set again, and every phase may fail.\<close>

definition lifecycle :: "string \<Rightarrow> string \<Rightarrow> bool" where
  "lifecycle p q \<longleftrightarrow> q = p \<or> q = CSVPhaseFailed \<or> (case map_of phase_edges p of Some qs \<Rightarrow> q \<in> set qs | None \<Rightarrow> False)"

lemma lifecycle_refl [simp]: "lifecycle p p" and lifecycle_Failed [simp]: "lifecycle p CSVPhaseFailed"
  by (simp_all add: lifecycle_def)

text \<open>A history that is kept well (\<open>status_ok\<close>) and follows the lifecycle\<close>

definition history_ok :: "csv_status \<Rightarrow> bool" where
  "history_ok s \<longleftrightarrow> status_ok s \<and> successively (\<lambda>c d. lifecycle (cc_Phase c) (cc_Phase d)) (st_Conditions s)"

lemma SetPhase_conditions:
  "\<exists>n. st_Conditions (SetPhase phase reason message now s) = drop n (st_Conditions s) \<or>
     (\<exists>c. cc_Phase c = phase \<and> st_Conditions (SetPhase phase reason message now s) = drop n (st_Conditions s @ [c]))"
proof -
  define s' where "s' = (let s = s\<lparr>st_LastUpdateTime := now\<rparr>;
           s = (if st_Phase s \<noteq> phase then s\<lparr>st_Phase := phase, st_LastTransitionTime := now\<rparr> else s);
           s = s\<lparr>st_Message := message, st_Reason := reason\<rparr>
       in if st_Conditions s = [] then s\<lparr>st_Conditions := [newCondition s reason message]\<rparr>
          else let previousCondition = last (st_Conditions s)
               in if cc_Phase previousCondition \<noteq> st_Phase s \<or> cc_Reason previousCondition \<noteq> st_Reason s
                  then s\<lparr>st_Conditions := st_Conditions s @ [newCondition s reason message]\<rparr> else s)"
  have "st_Conditions s' = st_Conditions s \<or> (\<exists>c. cc_Phase c = phase \<and> st_Conditions s' = st_Conditions s @ [c])"
    by (auto simp: s'_def Let_def newCondition_def)
  moreover obtain n where "st_Conditions (TrimConditionsIfLimitExceeded s') = drop n (st_Conditions s')" using Trim_suffix by blast
  ultimately have "\<exists>n. st_Conditions (TrimConditionsIfLimitExceeded s') = drop n (st_Conditions s) \<or>
      (\<exists>c. cc_Phase c = phase \<and> st_Conditions (TrimConditionsIfLimitExceeded s') = drop n (st_Conditions s @ [c]))" by metis
  then show ?thesis unfolding SetPhase_def s'_def [symmetric] .
qed

lemma SetPhase_history:
  assumes "history_ok s" and "lifecycle (st_Phase s) phase"
  shows "history_ok (SetPhase phase reason message now s)"
proof -
  let ?R = "\<lambda>c d. lifecycle (cc_Phase c) (cc_Phase d)"
  have cs: "successively ?R (st_Conditions s)" "st_Conditions s \<noteq> [] \<Longrightarrow> cc_Phase (last (st_Conditions s)) = st_Phase s"
    using assms(1) by (auto simp: history_ok_def status_ok_def)
  have "successively ?R (st_Conditions s @ [c])" if "cc_Phase c = phase" for c
    using cs assms(2) that by (cases "st_Conditions s = []") (simp_all add: successively_append_iff)
  then have "successively ?R (st_Conditions (SetPhase phase reason message now s))"
    using SetPhase_conditions [of phase reason message now s] cs(1) successively_drop by metis
  then show ?thesis using SetPhase_ok assms(1) by (auto simp: history_ok_def)
qed

subsection \<open>Moves\<close>

lemma act_simps [sync_simps, simp]: "sy_csv (act as sy) = sy_csv sy" "sy_log (act as sy) = sy_log sy @ as"
  by (simp_all add: act_def)

lemma with_status_simps [sync_simps, simp]:
  "sy_csv (with_status es sy) = (sy_csv sy)\<lparr>csv_Status := snd es\<rparr>"
  "sy_log (with_status es sy) = sy_log sy @ map Event (fst es)"
  by (simp_all add: with_status_def)

lemma set_phase_simps [sync_simps, simp]:
  "st_Phase (status_of (set_phase p r m now sy)) = p"
  "st_Reason (status_of (set_phase p r m now sy)) = r"
  "csv_Namespace (sy_csv (set_phase p r m now sy)) = csv_Namespace (sy_csv sy)"
  "csv_Name (sy_csv (set_phase p r m now sy)) = csv_Name (sy_csv sy)"
  by (simp_all add: set_phase_def SetPhaseWithEvent_def)

lemma set_phase_if_changed_simps [sync_simps, simp]:
  "st_Phase (status_of (set_phase_if_changed p r m now sy)) = p"
  "csv_Namespace (sy_csv (set_phase_if_changed p r m now sy)) = csv_Namespace (sy_csv sy)"
  "csv_Name (sy_csv (set_phase_if_changed p r m now sy)) = csv_Name (sy_csv sy)"
  by (simp_all add: set_phase_if_changed_def SetPhaseWithEventIfChanged_def SetPhaseWithEvent_def)

lemma requeue_simps [sync_simps, simp]:
  "sy_csv (requeue c sy) = sy_csv sy" "sy_log (requeue c sy) = sy_log sy @ [RequeueCSV (csv_Namespace c) (csv_Name c)]"
  by (simp_all add: requeue_def)

lemma set_requirements_simps [sync_simps, simp]:
  "status_of (set_requirements rs sy) = (status_of sy)\<lparr>st_RequirementStatus := rs\<rparr>"
  "sy_log (set_requirements rs sy) = sy_log sy"
  by (simp_all add: set_requirements_def SetRequirementStatus_def)

text \<open>
  A move keeps everything of the CSV but its annotations and its status, and changes the status only by setting phases
  along the lifecycle and by setting fields that the history does not mention.
\<close>

inductive moves :: "'v sync \<Rightarrow> 'v sync \<Rightarrow> bool" for sy where
  move_none: "moves sy sy"
| move_act: "moves sy sy' \<Longrightarrow> moves sy (act as sy')"
| move_phase: "moves sy sy' \<Longrightarrow> lifecycle (st_Phase (status_of sy')) p \<Longrightarrow> moves sy (set_phase p r m now sy')"
| move_phase_if: "moves sy sy' \<Longrightarrow> lifecycle (st_Phase (status_of sy')) p \<Longrightarrow> moves sy (set_phase_if_changed p r m now sy')"
| move_requirements: "moves sy sy' \<Longrightarrow> moves sy (set_requirements rs sy')"
| move_certs: "moves sy sy' \<Longrightarrow> moves sy (set_certs now t sy')"
| move_annotations: "moves sy sy' \<Longrightarrow> moves sy (sy'\<lparr>sy_csv := (sy_csv sy')\<lparr>csv_Annotations := as\<rparr>\<rparr>)"

lemmas move_intros [intro] = moves.intros

lemma move_requeue [intro]: "moves sy sy' \<Longrightarrow> moves sy (requeue c sy')"
  by (simp add: requeue_def move_act)

lemma moves_trans: "moves a b \<Longrightarrow> moves b c \<Longrightarrow> moves a c"
  by (rotate_tac 1, induction rule: moves.induct) (auto intro: moves.intros)

definition same_object :: "'v ClusterServiceVersion \<Rightarrow> 'v ClusterServiceVersion \<Rightarrow> bool" where
  "same_object c d \<longleftrightarrow> d = c\<lparr>csv_Annotations := csv_Annotations d, csv_Status := csv_Status d\<rparr>"

lemma same_object_refl [simp]: "same_object c c"
  by (simp add: same_object_def)

lemma same_object_update:
  "same_object c d \<Longrightarrow> same_object c (d\<lparr>csv_Status := s\<rparr>)" "same_object c d \<Longrightarrow> same_object c (d\<lparr>csv_Annotations := as\<rparr>)"
  by (cases c; cases d; simp add: same_object_def)+

lemma moves_frame: "moves sy sy' \<Longrightarrow> same_object (sy_csv sy) (sy_csv sy')"
  by (induction rule: moves.induct)
    (simp_all add: set_phase_def set_phase_if_changed_def set_requirements_def set_certs_def same_object_update)

lemma moves_history: "moves sy sy' \<Longrightarrow> history_ok (status_of sy) \<Longrightarrow> history_ok (status_of sy')"
proof (induction rule: moves.induct)
  case (move_phase sy' p r m now)
  then show ?case by (simp add: set_phase_def SetPhaseWithEvent_def SetPhase_history)
next
  case (move_phase_if sy' p r m now)
  then show ?case by (simp add: set_phase_if_changed_def SetPhaseWithEventIfChanged_def SetPhaseWithEvent_def SetPhase_history)
next
  case (move_requirements sy' rs)
  then show ?case by (simp add: history_ok_def status_ok_def)
next
  case (move_certs sy' now t)
  then show ?case by (simp add: set_certs_def history_ok_def status_ok_def)
qed auto

subsection \<open>The helpers move along the lifecycle\<close>

text \<open>A return moves from one phase to the next one of the lifecycle.\<close>

definition proceeds :: "'v sync \<Rightarrow> 'v sync \<Rightarrow> bool" where
  "proceeds sy sy' \<longleftrightarrow> moves sy sy' \<and> lifecycle (st_Phase (status_of sy)) (st_Phase (status_of sy'))"

lemma lifecycle_edges [simp]:
  "lifecycle CSVPhaseNone CSVPhasePending" "lifecycle CSVPhasePending CSVPhaseInstallReady"
  "lifecycle CSVPhaseInstallReady CSVPhaseInstalling"
  "lifecycle CSVPhaseInstalling CSVPhaseSucceeded" "lifecycle CSVPhaseInstalling CSVPhasePending"
  "lifecycle CSVPhaseInstalling CSVPhaseInstallReady"
  "lifecycle CSVPhaseSucceeded CSVPhaseReplacing" "lifecycle CSVPhaseSucceeded CSVPhasePending"
  "lifecycle CSVPhaseSucceeded CSVPhaseInstallReady"
  "lifecycle CSVPhaseFailed CSVPhaseSucceeded" "lifecycle CSVPhaseFailed CSVPhaseReplacing"
  "lifecycle CSVPhaseFailed CSVPhasePending" "lifecycle CSVPhaseFailed CSVPhaseInstallReady"
  "lifecycle CSVPhaseReplacing CSVPhaseDeleting"
  by (simp_all add: lifecycle_def phase_edges_def)

lemma proceeds_none [simp]: "proceeds sy sy"
  by (auto simp: proceeds_def)

lemma proceeds_phase [simp]:
  "proceeds sy (set_phase p r m now sy) \<longleftrightarrow> lifecycle (st_Phase (status_of sy)) p"
  "proceeds sy (set_phase_if_changed p r m now sy) \<longleftrightarrow> lifecycle (st_Phase (status_of sy)) p"
  by (auto simp: proceeds_def)

lemma proceeds_act [simp]: "proceeds sy sy' \<Longrightarrow> proceeds sy (act as sy')" "proceeds sy sy' \<Longrightarrow> proceeds sy (requeue c sy')"
  by (auto simp: proceeds_def)

lemma proceeds_after:
  assumes "moves sy sy'" and "status_of sy' = (status_of sy)\<lparr>st_RequirementStatus := rs, st_CertsLastUpdated := t, st_CertsRotateAt := t'\<rparr>"
    and "proceeds sy' sy''"
  shows "proceeds sy sy''"
  using assms moves_trans by (auto simp: proceeds_def)

lemma updateInstallStatus_proceeds:
  assumes "updateInstallStatus env installer strategy p r sy = (err, sy')"
    and "lifecycle (st_Phase (status_of sy)) p" "lifecycle (st_Phase (status_of sy)) CSVPhaseSucceeded"
      "lifecycle (st_Phase (status_of sy)) CSVPhaseInstallReady"
  shows "proceeds sy sy'" and "st_Phase (status_of sy') \<in> {p, st_Phase (status_of sy), CSVPhaseSucceeded, CSVPhaseInstallReady, CSVPhaseFailed}"
proof -
  obtain si se ai ae wi we where e: "si_CheckInstalled installer strategy = (si, se)" "env_apiServices env (sy_csv sy) = (ai, ae)"
      "env_webhooks env (sy_csv sy) = (wi, we)" by (metis surj_pair)
  note d = assms(1) [unfolded updateInstallStatus_def Let_def e prod.case]
  show "proceeds sy sy'" using d assms(2-4) by (auto split: if_splits option.splits)
  show "st_Phase (status_of sy') \<in> {p, st_Phase (status_of sy), CSVPhaseSucceeded, CSVPhaseInstallReady, CSVPhaseFailed}"
    using d by (auto split: if_splits option.splits)
qed

lemma updateInstallStatus_Succeeded:
  assumes "updateInstallStatus env installer strategy p r sy = (err, sy')" and "st_Phase (status_of sy') = CSVPhaseSucceeded"
    and "p \<noteq> CSVPhaseSucceeded" and "st_Phase (status_of sy) \<noteq> CSVPhaseSucceeded"
  shows "fst (si_CheckInstalled installer strategy) \<and> fst (env_apiServices env (sy_csv sy)) \<and> fst (env_webhooks env (sy_csv sy)) \<and> err = None"
proof -
  obtain si se ai ae wi we where e: "si_CheckInstalled installer strategy = (si, se)" "env_apiServices env (sy_csv sy) = (ai, ae)"
      "env_webhooks env (sy_csv sy) = (wi, we)" by (metis surj_pair)
  note d = assms(1) [unfolded updateInstallStatus_def Let_def e prod.case]
  show ?thesis unfolding e fst_conv using d assms(2-4) by (auto split: if_splits option.splits)
qed

lemma parse_proceeds:
  assumes "parseStrategiesAndUpdateStatus env sy = (parsed, sy')"
  shows "proceeds sy sy'"
    and "parsed = Some (installer, strategy) \<Longrightarrow> moves sy sy' \<and> sy_csv sy' = sy_csv sy \<and> env_strategy env (sy_csv sy) = Inr strategy \<and>
      (\<exists>prev. installer = env_installer env (sy_csv sy) strategy prev)"
  using assms by (auto simp: parseStrategiesAndUpdateStatus_def Let_def split: sum.splits option.splits)

subsection \<open>The phases move along the lifecycle\<close>

lemmas sync_splits = sum.splits option.splits if_splits prod.splits

lemma pending_install_proceeds:
  "pending_install env sy = (err, sy') \<Longrightarrow> st_Phase (status_of sy) = CSVPhasePending \<Longrightarrow> proceeds sy sy'"
  by (auto simp: pending_install_def Let_def split: sync_splits)

lemma set_requirements_after: "proceeds (set_requirements rs sy) sy' \<Longrightarrow> proceeds sy sy'"
  by (rule proceeds_after [of sy "set_requirements rs sy", where rs = rs and t = "st_CertsLastUpdated (status_of sy)" and t' = "st_CertsRotateAt (status_of sy)"]) auto

lemma act_after:
  "proceeds (act as sy) sy' \<Longrightarrow> proceeds sy sy'" "proceeds (requeue c sy) sy' \<Longrightarrow> proceeds sy sy'"
  using moves_trans [of sy "act as sy" sy'] moves_trans [of sy "requeue c sy" sy'] by (auto simp: proceeds_def)

lemma pending_requirements_proceeds:
  assumes "pending_requirements env sy = (err, sy')" and "st_Phase (status_of sy) = CSVPhasePending"
  shows "proceeds sy sy'"
proof -
  obtain met rs e where r: "env_requirements env (sy_csv sy) = (met, rs, e)" by (metis surj_pair)
  define sy1 where "sy1 = (case IsReplacing (env_getCSV env 1) (sy_csv (set_requirements rs sy)) of
      Some prev \<Rightarrow> if phase_of prev = CSVPhaseSucceeded then requeue prev (set_requirements rs sy) else set_requirements rs sy
    | None \<Rightarrow> set_requirements rs sy)"
  have after: "proceeds sy sy''" if "proceeds sy1 sy''" for sy''
    using that by (auto simp: sy1_def intro: set_requirements_after dest: act_after split: option.splits if_splits)
  have sy1: "st_Phase (status_of sy1) = CSVPhasePending" using assms(2) by (auto simp: sy1_def split: option.split)
  show ?thesis
  proof (cases e)
    case (Some e')
    then show ?thesis using assms by (auto simp: pending_requirements_def r)
  next
    case None
    then have d: "(if \<not> met then (Some ErrRequirementsNotMet, set_phase_if_changed CSVPhasePending ''RequirementsNotMet''
        ''one or more requirements couldn't be found'' (env_now env 0) sy1) else pending_install env sy1) = (err, sy')"
      using assms(1) unfolding pending_requirements_def Let_def r prod.case None option.case sy1_def by simp
    show ?thesis
    proof (rule after, cases met)
      case True
      then show "proceeds sy1 sy'" using d pending_install_proceeds sy1 by auto
    next
      case False
      then show "proceeds sy1 sy'" using d sy1 by auto
    qed
  qed
qed

lemma sync_pending_proceeds:
  "sync_pending env sy = (err, sy') \<Longrightarrow> st_Phase (status_of sy) = CSVPhasePending \<Longrightarrow> proceeds sy sy'"
  using pending_requirements_proceeds by (auto simp: sync_pending_def Let_def split: option.splits prod.splits if_splits)

lemma set_certs_simps [sync_simps, simp]:
  "status_of (set_certs now t sy) = (status_of sy)\<lparr>st_CertsLastUpdated := Some now, st_CertsRotateAt := Some t\<rparr>"
  by (simp add: set_certs_def)

lemma set_certs_after: "proceeds (set_certs now t sy) sy' \<Longrightarrow> proceeds sy sy'"
  by (rule proceeds_after [of sy "set_certs now t sy", where rs = "st_RequirementStatus (status_of sy)" and t = "Some now" and t' = "Some t"]) auto

lemma parsed_after:
  assumes "parseStrategiesAndUpdateStatus env sy = (Some (installer, strategy), sy1)" and "proceeds sy1 sy'"
  shows "proceeds sy sy'"
  using assms parse_proceeds [OF assms(1)] moves_trans by (auto simp: proceeds_def)

lemma after_parse_proceeds:
  assumes "(case parseStrategiesAndUpdateStatus env sy of
      (parsed, sy1) \<Rightarrow> case parsed of None \<Rightarrow> (None, sy1) | Some (installer, strategy) \<Rightarrow> h installer strategy sy1) = (err, sy')"
    and "\<And>installer strategy sy1. status_of sy1 = status_of sy \<Longrightarrow> h installer strategy sy1 = (err, sy') \<Longrightarrow> proceeds sy1 sy'"
  shows "proceeds sy sy'"
proof -
  obtain parsed sy1 where p: "parseStrategiesAndUpdateStatus env sy = (parsed, sy1)" by (metis surj_pair)
  show ?thesis
  proof (cases parsed)
    case None
    then show ?thesis using assms(1) p parse_proceeds(1) [OF p] by simp
  next
    case (Some ins)
    obtain installer strategy where ins: "ins = (installer, strategy)" by (cases ins)
    note p' = p [unfolded Some ins]
    have "status_of sy1 = status_of sy" using parse_proceeds(2) [OF p' refl] by simp
    moreover have "h installer strategy sy1 = (err, sy')" using assms(1) p' by simp
    ultimately show ?thesis using parsed_after [OF p'] assms(2) by blast
  qed
qed

lemma install_strategy_proceeds:
  assumes "install_strategy env installer strategy sy = (err, sy')" and ph: "st_Phase (status_of sy) = CSVPhaseInstallReady"
  shows "proceeds sy sy'"
proof -
  define sy2 where "sy2 = (if si_CertsRotated installer then set_certs (env_now env 5) (si_CertsRotateAt installer) (act [Install] sy)
    else act [Install] sy)"
  have ph2: "st_Phase (status_of sy2) = CSVPhaseInstallReady" by (simp add: sy2_def ph)
  have after: "proceeds sy sy''" if "proceeds sy2 sy''" for sy''
    using that by (auto simp: sy2_def intro: act_after(1) set_certs_after split: if_splits)
  show ?thesis
  proof (cases "si_Install installer strategy")
    case None
    then show ?thesis using assms(1) ph2 by (auto simp: install_strategy_def Let_def sy2_def [symmetric] intro!: after)
  next
    case (Some e)
    then have "proceeds (act [Install] sy) sy'" using assms(1) by (auto simp: install_strategy_def)
    then show ?thesis by (rule act_after(1))
  qed
qed

lemma installing_status_proceeds:
  assumes "installing_status env installer strategy sy = (err, sy')" and ph: "st_Phase (status_of sy) = CSVPhaseInstalling"
  shows "proceeds sy sy'"
proof -
  have pr: "proceeds sy sy2" if "updateInstallStatus env installer strategy' CSVPhaseInstalling ''InstallWaiting'' sy = (e, sy2)"
    for strategy' e sy2 using updateInstallStatus_proceeds(1) [OF that] ph by simp
  then have fl: "proceeds sy (set_phase CSVPhaseFailed r m now sy2)"
    if "updateInstallStatus env installer strategy' CSVPhaseInstalling ''InstallWaiting'' sy = (e, sy2)" for strategy' e sy2 r m now
    using that by (auto simp: proceeds_def)
  show ?thesis using assms pr fl by (auto simp: installing_status_def Let_def split: sync_splits)
qed

lemma succeeded_status_proceeds:
  assumes "succeeded_status env installer strategy sy = (err, sy')" and ph: "st_Phase (status_of sy) = CSVPhaseSucceeded"
  shows "proceeds sy sy'"
proof -
  have "proceeds sy sy2" if "updateInstallStatus env installer strategy' CSVPhaseFailed ''ComponentUnhealthy'' sy = (e, sy2)"
    for strategy' e sy2 using updateInstallStatus_proceeds(1) [OF that] ph by simp
  then show ?thesis using assms by (auto simp: succeeded_status_def Let_def split: sync_splits)
qed

lemma succeeded_checks_proceeds:
  assumes "succeeded_checks env installer strategy sy = (err, sy')" and ph: "st_Phase (status_of sy) = CSVPhaseSucceeded"
  shows "proceeds sy sy'"
proof -
  have "proceeds sy (set_phase CSVPhaseFailed r m now (set_requirements rs sy))" for r m now rs
    by (rule set_requirements_after [of rs]) simp
  then show ?thesis
    using assms succeeded_status_proceeds by (auto simp: succeeded_checks_def Let_def split: sync_splits)
qed

lemma failed_status_proceeds:
  assumes "failed_status env installer strategy sy = (err, sy')" and ph: "st_Phase (status_of sy) = CSVPhaseFailed"
  shows "proceeds sy sy'"
proof -
  have "proceeds sy sy2" if "updateInstallStatus env installer strategy' CSVPhasePending ''NeedsReinstall'' sy = (e, sy2)"
    for strategy' e sy2 using updateInstallStatus_proceeds(1) [OF that] ph by simp
  then show ?thesis using assms by (auto simp: failed_status_def Let_def split: sync_splits)
qed

lemma failed_checks_proceeds:
  assumes "failed_checks env installer strategy sy = (err, sy')" and ph: "st_Phase (status_of sy) = CSVPhaseFailed"
  shows "proceeds sy sy'"
proof -
  have "proceeds sy (set_phase CSVPhasePending r m now (set_requirements rs sy))" for r m now rs
    by (rule set_requirements_after [of rs]) (simp add: ph)
  then show ?thesis
    using assms failed_status_proceeds by (auto simp: failed_checks_def Let_def split: sync_splits)
qed

lemma check_replacements_proceeds:
  assumes "checkReplacementsAndUpdateStatus env sy = (err, sy')" and "st_Phase (status_of sy) = CSVPhaseSucceeded"
  shows "proceeds sy sy'" and "err = None \<Longrightarrow> sy' = sy"
  using assms by (auto simp: checkReplacementsAndUpdateStatus_def split: sync_splits)

lemma parsed_phases_proceed:
  "sync_install_ready env sy = (err, sy') \<Longrightarrow> st_Phase (status_of sy) = CSVPhaseInstallReady \<Longrightarrow> proceeds sy sy'"
  "sync_installing env sy = (err, sy') \<Longrightarrow> st_Phase (status_of sy) = CSVPhaseInstalling \<Longrightarrow> proceeds sy sy'"
  unfolding sync_install_ready_def sync_installing_def Let_def
  by (erule after_parse_proceeds, rule install_strategy_proceeds, assumption, simp,
      erule after_parse_proceeds, rule installing_status_proceeds, assumption, simp)

lemma sync_succeeded_proceeds:
  assumes "sync_succeeded env sy = (err, sy')" and ph: "st_Phase (status_of sy) = CSVPhaseSucceeded"
  shows "proceeds sy sy'"
proof -
  obtain e sy1 where c: "checkReplacementsAndUpdateStatus env sy = (e, sy1)" by (metis surj_pair)
  show ?thesis
  proof (cases e)
    case None
    then have "(case parseStrategiesAndUpdateStatus env sy of
        (parsed, sy1) \<Rightarrow> case parsed of None \<Rightarrow> (None, sy1) | Some (installer, strategy) \<Rightarrow> succeeded_checks env installer strategy sy1) = (err, sy')"
      using check_replacements_proceeds(2) [OF c ph] c assms(1) by (simp add: sync_succeeded_def Let_def)
    then show ?thesis by (rule after_parse_proceeds) (auto simp: ph intro: succeeded_checks_proceeds)
  next
    case (Some e')
    then show ?thesis using assms(1) c check_replacements_proceeds(1) [OF c ph] by (simp add: sync_succeeded_def)
  qed
qed

lemma sync_failed_proceeds:
  assumes "sync_failed env g sy = (err, sy')" and ph: "st_Phase (status_of sy) = CSVPhaseFailed"
  shows "proceeds sy sy'"
proof (cases "if UpgradeStrategy g = UpgradeStrategyUnsafeFailForward then being_replaced env (sy_csv sy) else None")
  case None
  then have "(case parseStrategiesAndUpdateStatus env sy of
      (parsed, sy1) \<Rightarrow> case parsed of None \<Rightarrow> (None, sy1) | Some (installer, strategy) \<Rightarrow> failed_checks env installer strategy sy1) = (err, sy')"
    using assms(1) by (simp only: sync_failed_def Let_def option.case)
  then show ?thesis by (rule after_parse_proceeds) (auto simp: ph intro: failed_checks_proceeds)
next
  case (Some c)
  then show ?thesis using assms by (auto simp: sync_failed_def)
qed

lemma replaced_by_proceeds:
  "replaced_by env next' sy = (err, sy') \<Longrightarrow> st_Phase (status_of sy) = CSVPhaseReplacing \<Longrightarrow> proceeds sy sy'"
  by (auto simp: replaced_by_def split: sync_splits)

lemma sync_replacing_proceeds:
  assumes "sync_replacing env g sy = Moved err sy'" and ph: "st_Phase (status_of sy) = CSVPhaseReplacing"
  shows "proceeds sy sy'"
proof -
  have "proceeds sy sy'" if "case_prod Moved (replaced_by env n sy) = Moved err sy'" for n
    using that replaced_by_proceeds [of env n sy] ph by (auto split: prod.splits)
  then show ?thesis using assms(1) by (auto simp: sync_replacing_def Let_def split: sync_splits)
qed

lemma switch_phase_proceeds:
  assumes "switch_phase env g sy = Moved err sy'"
  shows "proceeds sy sy'"
proof -
  have m: "case_prod Moved r = Moved err sy' \<longleftrightarrow> r = (err, sy')" for r :: "'a returned" by (cases r) simp
  have n: "proceeds sy sy'" if "sync_none env sy = (err, sy')" "st_Phase (status_of sy) = CSVPhaseNone"
    using that by (auto simp: sync_none_def)
  have d: "proceeds sy sy'" if "sync_deleting env sy = (err, sy')" using that by (auto simp: sync_deleting_def)
  show ?thesis
    using assms unfolding switch_phase_def Let_def
    by (auto simp: m split: if_splits intro: n d sync_pending_proceeds parsed_phases_proceed sync_succeeded_proceeds
        sync_failed_proceeds sync_replacing_proceeds)
qed

subsection \<open>The checks before the switch\<close>

lemma cleanup_proceeds [simp]: "proceeds sy sy' \<Longrightarrow> proceeds sy (cleanupCSVDeployments env sy')"
  by (auto simp: cleanupCSVDeployments_def split: sum.split option.split)

lemma cleanup_csv [simp]: "sy_csv (cleanupCSVDeployments env sy) = sy_csv sy"
  by (auto simp: cleanupCSVDeployments_def split: sum.split option.split)

lemma update_group_simps [sync_simps, simp]:
  "sy_csv (snd (update_group env g sy)) = sy_csv sy" "sy_log (snd (update_group env g sy)) = sy_log sy @ [UpdateOperatorGroup g]"
  "proceeds sy (snd (update_group env g sy))"
  by (simp_all add: update_group_def)

lemma update_group_result:
  "update_group env g sy = (err, sy') \<Longrightarrow> sy_csv sy' = sy_csv sy \<and> proceeds sy sy'"
  by (metis snd_conv update_group_simps(1,3))

lemma check_provided_Return:
  "check_provided env surface g groups sy = Return (err, sy') \<Longrightarrow> proceeds sy sy' \<and>
     st_Phase (status_of sy') \<in> {st_Phase (status_of sy), CSVPhaseFailed}"
  by (auto simp: check_provided_def Let_def split: if_splits prod.splits dest!: update_group_result)

lemma check_provided_Continue: "check_provided env surface g groups sy = Continue g' sy' \<Longrightarrow> g' = g \<and> sy' = sy"
  by (auto simp: check_provided_def Let_def split: if_splits prod.splits)

lemma check_group_Return:
  "check_group env surface g sy = Return (err, sy') \<Longrightarrow> proceeds sy sy' \<and>
     st_Phase (status_of sy') \<in> {st_Phase (status_of sy), CSVPhaseFailed}"
  using check_provided_Return by (fastforce simp: check_group_def Let_def split: sum.splits option.splits)

lemma operatorGroup_proceeds:
  assumes "operatorGroupForCSV env sy = (g, err, sy')"
  shows "proceeds sy sy' \<and> st_Phase (status_of sy') \<in> {st_Phase (status_of sy), CSVPhaseFailed}"
proof (cases "env_groups env (csv_Namespace (sy_csv sy))")
  case (Inr groups)
  define csv where "csv = (sy_csv sy)\<lparr>csv_Annotations := setOperatorGroupAnnotations (csv_Annotations (sy_csv sy)) (groups ! 0) True\<rparr>"
  define sy1 where "sy1 = act [UpdateCSV csv] (sy\<lparr>sy_csv := csv\<rparr>)"
  have m1: "moves sy sy1" unfolding sy1_def csv_def by auto
  have st1: "status_of sy1 = status_of sy" by (simp add: sy1_def csv_def)
  have after: "proceeds sy sy''" if "proceeds sy1 sy''" for sy''
    using that moves_trans [OF m1] by (auto simp: proceeds_def st1)
  show ?thesis
    using st1 assms [unfolded operatorGroupForCSV_def Inr sum.case Let_def, folded csv_def, folded sy1_def]
    by (auto simp: after split: if_splits sum.splits option.splits)
next
  case (Inl e)
  then show ?thesis using assms by (simp add: operatorGroupForCSV_def Let_def)
qed

lemma operatorGroup_Some:
  "operatorGroupForCSV env sy = (Some g, err, sy') \<Longrightarrow>
     sy' = sy \<and> env_groups env (csv_Namespace (sy_csv sy)) = Inr [g] \<and> \<not> operatorGroupAnnotationsDiffer (csv_Annotations (sy_csv sy)) g"
  by (auto simp: operatorGroupForCSV_def Let_def length_Suc_conv split: if_splits sum.splits option.splits)

text \<open>A CSV that passes the checks is a member of the only operator group of its namespace, whose targets its install modes support.\<close>

definition group_member :: "('v, 's) olm_env \<Rightarrow> 'v ClusterServiceVersion \<Rightarrow> OperatorGroup \<Rightarrow> bool" where
  "group_member env c g \<longleftrightarrow> env_groups env (csv_Namespace c) = Inr [g] \<and> \<not> operatorGroupAnnotationsDiffer (csv_Annotations c) g \<and>
     (\<exists>modeSet. NewInstallModeSet (csv_InstallModes c) = Inr modeSet \<and>
        Supports modeSet (csv_Namespace c) (strings_Split (BuildTargetNamespaces g) CHR '','') = None)"

lemma sync_checks_Return:
  assumes "sync_checks env c = Return (err, sy)"
  shows "proceeds \<lparr>sy_csv = c, sy_log = []\<rparr> sy \<and> st_Phase (status_of sy) \<in> {st_Phase (csv_Status c), CSVPhaseFailed}"
proof (cases "apiSurfaceOfCSV c")
  case (Inr surface)
  obtain g e sy1 where g: "operatorGroupForCSV env \<lparr>sy_csv = c, sy_log = []\<rparr> = (g, e, sy1)" by (metis prod_cases3)
  show ?thesis
  proof (cases g)
    case None
    then show ?thesis using assms Inr g operatorGroup_proceeds [OF g] by (simp add: sync_checks_def)
  next
    case (Some g')
    then have "sy1 = \<lparr>sy_csv = c, sy_log = []\<rparr>" using operatorGroup_Some [of env _ g'] g by metis
    then have "check_group env surface g' \<lparr>sy_csv = c, sy_log = []\<rparr> = Return (err, sy)"
      using assms Inr g Some by (simp add: sync_checks_def)
    then show ?thesis using check_group_Return by fastforce
  qed
next
  case (Inl e)
  then show ?thesis using assms by (auto simp: sync_checks_def)
qed

lemma sync_checks_Continue:
  assumes "sync_checks env c = Continue g sy"
  shows "sy = \<lparr>sy_csv = c, sy_log = []\<rparr>" and "group_member env c g"
proof -
  obtain surface where s: "apiSurfaceOfCSV c = Inr surface" using assms by (cases "apiSurfaceOfCSV c") (auto simp: sync_checks_def)
  obtain g' e sy1 where g: "operatorGroupForCSV env \<lparr>sy_csv = c, sy_log = []\<rparr> = (g', e, sy1)" by (metis prod_cases3)
  obtain h where h: "g' = Some h" using assms s g by (cases g') (auto simp: sync_checks_def)
  note o = operatorGroup_Some [OF g [unfolded h]]
  have cg: "check_group env surface h \<lparr>sy_csv = c, sy_log = []\<rparr> = Continue g sy"
    using assms s g h o by (simp add: sync_checks_def)
  then obtain modeSet targets groups where m: "NewInstallModeSet (csv_InstallModes c) = Inr modeSet"
      "map_of (csv_Annotations c) OperatorGroupTargetsAnnotationKey = Some targets"
      "Supports modeSet (csv_Namespace c) (strings_Split targets CHR '','') = None"
      "check_provided env surface h groups \<lparr>sy_csv = c, sy_log = []\<rparr> = Continue g sy"
    by (auto simp: check_group_def Let_def split: sum.splits option.splits)
  then have gh: "g = h" "sy = \<lparr>sy_csv = c, sy_log = []\<rparr>" using check_provided_Continue by blast+
  have "targets = BuildTargetNamespaces h" using o m(2) by (simp add: operatorGroupAnnotationsDiffer_def split: if_splits)
  then show "group_member env c g" using o m gh by (auto simp: group_member_def)
  show "sy = \<lparr>sy_csv = c, sy_log = []\<rparr>" by (fact gh(2))
qed

lemma transition_proceeds:
  assumes "transitionCSVState env c = Moved err sy"
  shows "proceeds \<lparr>sy_csv = c, sy_log = []\<rparr> sy"
proof (cases "sync_checks env c")
  case (Return r)
  obtain e sy' where r: "r = (e, sy')" by (cases r)
  then have "sy' = sy" using assms Return by (simp add: transitionCSVState_def split: if_splits)
  then show ?thesis using sync_checks_Return [OF Return [unfolded r]] by simp
next
  case (Continue g sy0)
  then have "switch_phase env g sy0 = Moved err sy" using assms by (simp add: transitionCSVState_def split: if_splits)
  then show ?thesis using switch_phase_proceeds sync_checks_Continue(1) [OF Continue] by blast
qed

end
