(* ===== verification/Lifecycle_Properties.thy ===== *)
theory Lifecycle_Properties
  imports Csv_Lifecycle Source_Properties
begin

text \<open>
  The properties of the OLM operator's state machine: the lifecycle of a ClusterServiceVersion with the conditions of its
  phases, that a sync returns and when it panics, and the exclusive use of APIs by the operator groups it updates.
\<close>

subsection \<open>When an operator may be installed\<close>








subsection \<open>When an operator has succeeded\<close>





subsection \<open>When an operator is replaced\<close>






subsection \<open>The lifecycle\<close>





text \<open>A cluster in which the CSV of the instance can be installed\<close>

definition member_csv :: "string \<Rightarrow> nat ClusterServiceVersion" where
  "member_csv phase = (a_csv 1 ''a1'' '''' phase [])
     \<lparr>csv_Annotations := [(''olm.operatorNamespace'', ''n''), (''olm.operatorGroup'', ''og''), (''olm.targetNamespaces'', ''n'')],
      csv_InstallModes := [\<lparr>im_Type = ''OwnNamespace'', im_Supported = True\<rparr>]\<rparr>"

definition member_group :: "string \<Rightarrow> OperatorGroup" where
  "member_group apis = some_group\<lparr>og_Namespaces := [''n''], og_Annotations := [(''olm.providedAPIs'', apis)]\<rparr>"

definition some_env :: "OperatorGroup \<Rightarrow> (nat, unit) olm_env" where
  "some_env g = \<lparr>env_order = (\<lambda>_ _. 0), env_now = (\<lambda>_. 7), env_updateCSV = Inr, env_deleteCSV = (\<lambda>_. None),
     env_getCSV = (\<lambda>_ _ _. Inl (StatusError ''NotFound'' '''')), env_lookupCSV = (\<lambda>_ _. Inl (StatusError ''NotFound'' '''')),
     env_listCSVs = (\<lambda>_ _. Inr []), env_groups = (\<lambda>_. Inr [g]), env_allGroups = Inr [g], env_updateGroup = (\<lambda>_. None),
     env_requeueGroup = (\<lambda>_ _. None), env_selector = (\<lambda>_. Inr \<lparr>ns_trivial = True, ns_List = Inr []\<rparr>),
     env_condition = (\<lambda>_ _. Inl (StatusError ''NotFound'' '''')), env_APIService = (\<lambda>_. Inl (StatusError ''NotFound'' '''')),
     env_requirements = (\<lambda>_. (True, [], None)), env_strategy = (\<lambda>_. Inr ()), env_deployments = (\<lambda>_. Some [''d'']),
     env_client = (\<lambda>_. None), env_installer = (\<lambda>_ _ _. \<lparr>si_Install = (\<lambda>_. None), si_CheckInstalled = (\<lambda>_. (True, None)),
       si_ShouldRotateCerts = (\<lambda>_. Inr False), si_CertsRotated = False, si_CertsRotateAt = 0\<rparr>),
     env_deploymentSpecs = (\<lambda>_. Inr), env_apiServices = (\<lambda>_. (True, None)), env_webhooks = (\<lambda>_. (True, None)),
     env_apiResources = (\<lambda>_. []), env_clusterRoles = (\<lambda>_. None)\<rparr>"



text \<open>
  When a sync panics, and that it never fails to return.
\<close>

lemma sync_panics:
  "transitionCSVState env c = Panics \<longleftrightarrow> st_Reason (csv_Status c) \<noteq> ''InstallComponentFailedNoRetry'' \<and>
     phase_of c = CSVPhaseReplacing \<and> IsReplacing (env_getCSV env 0) c = None \<and> being_replaced env c = None \<and>
     (\<exists>g. sync_checks env c = Continue g \<lparr>sy_csv = c, sy_log = []\<rparr> \<and> UpgradeStrategy g = UpgradeStrategyUnsafeFailForward)"
proof -
  have r: "sync_replacing env g sy = Panics \<longleftrightarrow> IsReplacing (env_getCSV env 0) (sy_csv sy) = None \<and>
      being_replaced env (sy_csv sy) = None \<and> UpgradeStrategy g = UpgradeStrategyUnsafeFailForward" for g and sy :: "'a sync"
    by (auto simp: sync_replacing_def Let_def split: option.splits sum.splits prod.splits if_splits)
  have "switch_phase env g sy = Panics \<longleftrightarrow> phase_of (sy_csv sy) = CSVPhaseReplacing \<and> sync_replacing env g sy = Panics" for g and sy :: "'a sync"
    by (auto simp: switch_phase_def Let_def split: if_splits prod.splits)
  then show ?thesis
    by (auto simp: transitionCSVState_def r split: if_splits checked.splits prod.splits dest: sync_checks_Continue(1))
qed

lemma sync_returns: "transitionCSVState env c \<noteq> Diverges"
proof -
  have w: "WalkReplacementChain n m [WithUniqueCSVs []] \<noteq> None" for n :: "'a ClusterServiceVersion option" and m
    using walk_returns [of "[]" "[WithUniqueCSVs []]"] by (cases n) (auto simp: WalkReplacementChain_def)
  have "sync_replacing env g sy \<noteq> Diverges" for g and sy :: "'a sync"
    by (auto simp: w sync_replacing_def Let_def split: option.splits sum.splits prod.splits if_splits)
  then show ?thesis
    by (auto simp: transitionCSVState_def switch_phase_def Let_def split: if_splits checked.splits prod.splits)
qed

text \<open>
  C32. A sync of a ClusterServiceVersion returns, also when CSVs replace each other in a circle, and it dereferences nil in
  exactly one situation: with fail-forward upgrades, for a CSV that passes the checks of its group in phase
  \<^verbatim>\<open>Replacing\<close>, that replaces no CSV which can be found, and whose own replacement is not there.
\<close>

theorem sync_total:
  "transitionCSVState env c \<noteq> Diverges \<and>
   (transitionCSVState env c = Panics \<longleftrightarrow> st_Reason (csv_Status c) \<noteq> ''InstallComponentFailedNoRetry'' \<and>
      phase_of c = CSVPhaseReplacing \<and> IsReplacing (env_getCSV env 0) c = None \<and> being_replaced env c = None \<and>
      (\<exists>g. sync_checks env c = Continue g \<lparr>sy_csv = c, sy_log = []\<rparr> \<and> UpgradeStrategy g = UpgradeStrategyUnsafeFailForward))"
  using sync_returns [of env c] sync_panics [of env c] by blast

lemma replacing_checks:
  "sync_checks (some_env (member_group ''K.v1.g'')) (member_csv CSVPhaseReplacing) =
     Continue (member_group ''K.v1.g'') \<lparr>sy_csv = member_csv CSVPhaseReplacing, sy_log = []\<rparr>"
  by code_simp

theorem sync_total_witness:
  "transitionCSVState (some_env (member_group ''K.v1.g'')) (member_csv CSVPhaseReplacing) = Panics"
proof -
  have "IsReplacing (env_getCSV (some_env (member_group ''K.v1.g'')) 0) (member_csv CSVPhaseReplacing) = None"
      "being_replaced (some_env (member_group ''K.v1.g'')) (member_csv CSVPhaseReplacing) = None"
      "UpgradeStrategy (member_group ''K.v1.g'') = UpgradeStrategyUnsafeFailForward"
    by code_simp+
  moreover have "phase_of (member_csv CSVPhaseReplacing) = CSVPhaseReplacing"
      "st_Reason (csv_Status (member_csv CSVPhaseReplacing)) \<noteq> ''InstallComponentFailedNoRetry''"
    by (simp_all add: member_csv_def a_csv_def new_status_def)
  ultimately show ?thesis
    using sync_total [of "some_env (member_group ''K.v1.g'')" "member_csv CSVPhaseReplacing"] replacing_checks by simp
qed

subsection \<open>Operator groups share no APIs\<close>

definition apis_of :: "OperatorGroup \<Rightarrow> APIKey set" where
  "apis_of g = set (gs_providedAPIs (NewOperatorGroup g))"

abbreviation id_of :: "OperatorGroup \<Rightarrow> string" where
  "id_of g \<equiv> group_Identifier (NewOperatorGroup g)"

definition groups_meet :: "OperatorGroup \<Rightarrow> OperatorGroup \<Rightarrow> bool" where
  "groups_meet g h \<longleftrightarrow> scope (gs_targets (NewOperatorGroup g)) \<inter> scope (gs_targets (NewOperatorGroup h)) \<noteq> {}"

text \<open>No API is provided by two groups with a namespace in common.\<close>

definition apis_exclusive :: "OperatorGroup list \<Rightarrow> bool" where
  "apis_exclusive groups \<longleftrightarrow>
     (\<forall>g \<in> set groups. \<forall>h \<in> set groups. id_of g \<noteq> id_of h \<longrightarrow> groups_meet g h \<longrightarrow> apis_of g \<inter> apis_of h = {})"

definition replace_group :: "OperatorGroup \<Rightarrow> OperatorGroup list \<Rightarrow> OperatorGroup list" where
  "replace_group g' groups = map (\<lambda>h. if og_Name h = og_Name g' \<and> og_Namespace h = og_Namespace g' then g' else h) groups"

definition no_other :: "OperatorGroup \<Rightarrow> OperatorGroup list \<Rightarrow> APIKey set \<Rightarrow> bool" where
  "no_other g groups P \<longleftrightarrow> (\<forall>h \<in> set groups. id_of h \<noteq> id_of g \<longrightarrow> groups_meet g h \<longrightarrow> P \<inter> apis_of h = {})"

lemma set_provided_surface:
  "NewOperatorGroup (set_provided apis g) = (NewOperatorGroup g)\<lparr>gs_providedAPIs := GVKStringToProvidedAPISet (APISet_String apis)\<rparr>"
  by (simp add: NewOperatorGroup_def set_provided_def annotation_def Let_def alist_simps)

lemma set_provided_apis:
  assumes "\<forall>k \<in> set apis. plain_key k"
  shows "apis_of (set_provided apis g) = set apis" and "groups_meet (set_provided apis g) h = groups_meet g h" "groups_meet h (set_provided apis g) = groups_meet h g"
    and "id_of (set_provided apis g) = id_of g"
  using GVKString_roundtrip [OF assms] by (simp_all add: apis_of_def groups_meet_def set_provided_surface group_Identifier_def)

lemma groups_meet_sym: "groups_meet g h \<Longrightarrow> groups_meet h g"
  by (auto simp: groups_meet_def)

text \<open>Changing the APIs of one group to ones no other group has keeps the groups apart.\<close>

lemma exclusive_replace:
  assumes "apis_exclusive groups" and "\<forall>k \<in> set apis. plain_key k" and "no_other g groups (set apis)"
  shows "apis_exclusive (replace_group (set_provided apis g) groups)"
proof -
  let ?g = "set_provided apis g"
  note sp = set_provided_apis [OF assms(2)]
  have elem: "x = ?g \<or> x \<in> set groups" if "x \<in> set (replace_group ?g groups)" for x
    using that by (auto simp: replace_group_def split: if_splits)
  have other: "apis_of ?g \<inter> apis_of h = {}" if "h \<in> set groups" "id_of ?g \<noteq> id_of h" "groups_meet ?g h" for h
    using that assms(3) sp unfolding no_other_def by auto
  show ?thesis
    unfolding apis_exclusive_def
  proof (intro ballI impI)
    fix x y assume xy: "x \<in> set (replace_group ?g groups)" "y \<in> set (replace_group ?g groups)" "id_of x \<noteq> id_of y" "groups_meet x y"
    show "apis_of x \<inter> apis_of y = {}"
      using elem [OF xy(1)] elem [OF xy(2)] other [of x] other [of y] xy(3,4) groups_meet_sym [OF xy(4)] assms(1)
      unfolding apis_exclusive_def by (metis inf_commute)
  qed
qed

lemma no_other_iff:
  "no_other g groups (set P) \<longleftrightarrow> \<not> (\<exists>h \<in> set (NewOperatorGroupSurfaces (filter (\<lambda>h. og_Name h \<noteq> og_Name g \<or> og_Namespace h \<noteq> og_Namespace g) groups)).
     group_Identifier h \<noteq> id_of g \<and> scope (gs_targets (NewOperatorGroup g)) \<inter> scope (gs_targets h) \<noteq> {} \<and> set P \<inter> set (gs_providedAPIs h) \<noteq> {})"
proof -
  have "og_Name h \<noteq> og_Name g \<or> og_Namespace h \<noteq> og_Namespace g" if "id_of h \<noteq> id_of g" for h
    using that by (auto simp: group_Identifier_def NewOperatorGroup_def Let_def)
  then show ?thesis by (auto simp: no_other_def groups_meet_def apis_of_def NewOperatorGroupSurfaces_def)
qed

lemma reconcile_groups:
  "ReconcileAPIIntersection P (NewOperatorGroup g)
      (NewOperatorGroupSurfaces (filter (\<lambda>h. og_Name h \<noteq> og_Name g \<or> og_Namespace h \<noteq> og_Namespace g) groups)) =
    (if set P \<subseteq> apis_of g then (if no_other g groups (set P) then NoAPIConflict else RemoveAPIs)
     else if no_other g groups (set P) then AddAPIs else APIConflict)"
proof -
  have "(if S then (if X then a else b) else if X then d else e) = (if S then (if \<not> X then b else a) else if \<not> X then e else d)"
    for S X and a b d e :: APIReconciliationResult by simp
  then show ?thesis unfolding Reconcile_cases no_other_iff apis_of_def .
qed

lemma check_provided_updates:
  assumes "check_provided env surface g groups sy = Return (err, sy')" and "UpdateOperatorGroup g' \<in> set (sy_log sy')"
    and "UpdateOperatorGroup g' \<notin> set (sy_log sy)"
  defines "P \<equiv> StripPlural (os_ProvidedAPIs surface)"
  shows "no_other g groups (set P) \<and> g' = set_provided (APISet_Union (gs_providedAPIs (NewOperatorGroup g)) [P]) g \<or>
    g' = set_provided (APISet_Difference (gs_providedAPIs (NewOperatorGroup g)) P) g"
proof -
  have ph: "UpdateOperatorGroup g' \<notin> set (sy_log (cleanupCSVDeployments env (set_phase p r m now sy)))" for p r m now
    using assms(3) by (auto simp: cleanupCSVDeployments_def set_phase_def split: sum.split option.split)
  have up: "UpdateOperatorGroup g' \<in> set (sy_log sy2) \<longleftrightarrow> g' = h" if "update_group env h sy = (e, sy2)" for h e sy2
    using update_group_simps(2) [of env h sy] that assms(3) by auto
  show ?thesis
    using assms(1,2) ph assms(3) unfolding check_provided_def Let_def reconcile_groups P_def [symmetric]
    by (auto split: if_splits prod.splits simp: up)
qed

lemma sync_checks_update:
  assumes "sync_checks env c = Return (err, sy)" and "env_groups env (csv_Namespace c) = Inr [g]" and "env_allGroups env = Inr groups"
    and "apiSurfaceOfCSV c = Inr surface" and "UpdateOperatorGroup g' \<in> set (sy_log sy)"
  shows "check_provided env surface g groups \<lparr>sy_csv = c, sy_log = []\<rparr> = Return (err, sy)"
proof -
  let ?s0 = "\<lparr>sy_csv = c, sy_log = []\<rparr>"
  have no: "UpdateOperatorGroup g' \<notin> set (sy_log (set_phase_if_changed p r m now s))" if "UpdateOperatorGroup g' \<notin> set (sy_log s)"
    for p r m now and s :: "'a sync" using that by (auto simp: set_phase_if_changed_def)
  show ?thesis
  proof (cases "operatorGroupAnnotationsDiffer (csv_Annotations c) g")
    case True
    obtain h e sy2 where o: "operatorGroupForCSV env ?s0 = (h, e, sy2)" by (metis prod_cases3)
    then have n: "h = None" "UpdateOperatorGroup g' \<notin> set (sy_log sy2)"
      using True assms(2) no by (auto simp: operatorGroupForCSV_def Let_def split: sum.splits option.splits if_splits)
    then have "sy = sy2" using o assms(1,4) by (simp add: sync_checks_def)
    then show ?thesis using n(2) assms(5) by simp
  next
    case False
    then have "operatorGroupForCSV env ?s0 = (Some g, None, ?s0)" using assms(2) by (simp add: operatorGroupForCSV_def)
    then have "check_group env surface g ?s0 = Return (err, sy)" using assms(1,4) by (simp add: sync_checks_def)
    then show ?thesis using no [of ?s0] assms(3,5) by (auto simp: check_group_def Let_def split: sum.splits option.splits)
  qed
qed

lemma sync_checks_provided:
  assumes "sync_checks env c = Continue h sy" and "env_groups env (csv_Namespace c) = Inr [g]" and "env_allGroups env = Inr groups"
    and "apiSurfaceOfCSV c = Inr surface"
  shows "check_provided env surface g groups \<lparr>sy_csv = c, sy_log = []\<rparr> = Continue h sy"
proof -
  have "h = g" "\<not> operatorGroupAnnotationsDiffer (csv_Annotations c) g"
    using sync_checks_Continue(2) [OF assms(1)] assms(2) by (simp_all add: group_member_def)
  then have "operatorGroupForCSV env \<lparr>sy_csv = c, sy_log = []\<rparr> = (Some g, None, \<lparr>sy_csv = c, sy_log = []\<rparr>)"
    using assms(2) by (simp add: operatorGroupForCSV_def)
  then have "check_group env surface g \<lparr>sy_csv = c, sy_log = []\<rparr> = Continue h sy" using assms(1,4) by (simp add: sync_checks_def)
  then show ?thesis using assms(3) by (auto simp: check_group_def Let_def split: sum.splits option.splits)
qed

text \<open>
  C30. The sync of a ClusterServiceVersion keeps the operator groups apart. If no two groups with a namespace in common
  provide the same API, and the group of the CSV is among those that are listed, then this is still so after any update
  of a group the checks ask for, which only adds the APIs of the CSV to its group or takes them away; and a CSV
  gets past the checks only when its group provides all its APIs and no group with a common namespace
  provides any of them. The provided APIs of the CSV are assumed to have names that can be read back from the annotation of
  a group.
\<close>

theorem provided_apis_exclusive:
  assumes "env_groups env (csv_Namespace c) = Inr [g]" and "env_allGroups env = Inr groups" and "g \<in> set groups" and "apis_exclusive groups"
    and "apiSurfaceOfCSV c = Inr surface"
  defines "P \<equiv> set (StripPlural (os_ProvidedAPIs surface))"
  assumes "\<forall>k \<in> P. plain_key k"
  shows "case sync_checks env c of
      Return (err, sy) \<Rightarrow> \<forall>g'. UpdateOperatorGroup g' \<in> set (sy_log sy) \<longrightarrow>
        apis_exclusive (replace_group g' groups) \<and> id_of g' = id_of g \<and> (apis_of g' = apis_of g \<union> P \<or> apis_of g' = apis_of g - P)
    | Continue h sy \<Rightarrow> h = g \<and> P \<subseteq> apis_of g \<and> no_other g groups P"
proof -
  let ?s0 = "\<lparr>sy_csv = c, sy_log = []\<rparr>"
  have plain: "\<forall>k \<in> set (gs_providedAPIs (NewOperatorGroup g)). plain_key k"
    using parsed_plain by (simp add: NewOperatorGroup_def Let_def)
  let ?U = "APISet_Union (gs_providedAPIs (NewOperatorGroup g)) [StripPlural (os_ProvidedAPIs surface)]"
  let ?D = "APISet_Difference (gs_providedAPIs (NewOperatorGroup g)) (StripPlural (os_ProvidedAPIs surface))"
  have U: "set ?U = apis_of g \<union> P" "\<forall>k \<in> set ?U. plain_key k" using plain assms(7) by (auto simp: APISet_Union_set P_def apis_of_def)
  have D: "set ?D = apis_of g - P" "\<forall>k \<in> set ?D. plain_key k" using plain by (auto simp: APISet_Difference_set P_def apis_of_def)
  have own: "no_other g groups (apis_of g)" using assms(3,4) groups_meet_sym by (auto simp: no_other_def apis_exclusive_def)
  show ?thesis
  proof (cases "sync_checks env c")
    case (Return r)
    obtain err sy where r: "r = (err, sy)" by (cases r)
    have "apis_exclusive (replace_group g' groups) \<and> id_of g' = id_of g \<and> (apis_of g' = apis_of g \<union> P \<or> apis_of g' = apis_of g - P)"
      if upd: "UpdateOperatorGroup g' \<in> set (sy_log sy)" for g'
    proof -
      have "check_provided env surface g groups ?s0 = Return (err, sy)"
        using sync_checks_update [OF Return [unfolded r] assms(1,2,5) upd] .
      from check_provided_updates [OF this upd] consider
          "no_other g groups P" "g' = set_provided ?U g" | "g' = set_provided ?D g" unfolding P_def by auto
      then show ?thesis
      proof cases
        case 1
        then have "no_other g groups (set ?U)" using own U(1) by (auto simp: no_other_def)
        then show ?thesis using exclusive_replace [OF assms(4) U(2)] set_provided_apis [OF U(2)] U(1) 1(2) by simp
      next
        case 2
        have "no_other g groups (set ?D)" using own D(1) by (auto simp: no_other_def)
        then show ?thesis using exclusive_replace [OF assms(4) D(2)] set_provided_apis [OF D(2)] D(1) 2 by simp
      qed
    qed
    then show ?thesis using Return r by simp
  next
    case (Continue h sy)
    have "check_provided env surface g groups ?s0 = Continue h sy"
      using sync_checks_provided [OF Continue assms(1,2,5)] .
    moreover have "gs_providedAPIs (NewOperatorGroup g) = GVKStringToProvidedAPISet (APISet_String ?U) \<Longrightarrow> P \<subseteq> apis_of g"
      using GVKString_roundtrip [OF U(2)] U(1) by (auto simp: apis_of_def)
    ultimately show ?thesis
      using Continue unfolding check_provided_def Let_def reconcile_groups P_def [symmetric]
      by (auto simp: NewOperatorGroup_def Let_def split: if_splits prod.splits)
  qed
qed

text \<open>The group of the instance gets the API of its operator, beside a group of another namespace.\<close>

definition other_group :: OperatorGroup where
  "other_group = (member_group ''L.v1.g'')\<lparr>og_Namespace := ''m'', og_Namespaces := [''n'', ''m'']\<rparr>"

definition two_groups :: "(nat, unit) olm_env" where
  "two_groups = (some_env (member_group ''''))\<lparr>env_allGroups := Inr [member_group '''', other_group]\<rparr>"

lemma two_groups_update:
  "case sync_checks two_groups (member_csv CSVPhasePending) of
     Return (err, sy) \<Rightarrow> list_ex (\<lambda>a. case a of UpdateOperatorGroup g \<Rightarrow> True | _ \<Rightarrow> False) (sy_log sy) | _ \<Rightarrow> False"
  by code_simp

lemma two_groups_surface:
  "apiSurfaceOfCSV (member_csv p) =
     Inr \<lparr>os_ProvidedAPIs = [\<lparr>api_Group = ''g'', api_Version = ''v1'', api_Kind = ''K'', api_Plural = ''ks''\<rparr>], os_RequiredAPIs = []\<rparr>"
  by (simp add: apiSurfaceOfCSV_def member_csv_def a_csv_def EmptyAPISet_def api_add_def add_services_def)

theorem provided_apis_exclusive_witness:
  "\<exists>err sy g'. sync_checks two_groups (member_csv CSVPhasePending) = Return (err, sy) \<and> UpdateOperatorGroup g' \<in> set (sy_log sy) \<and>
     apis_exclusive (replace_group g' [member_group '''', other_group])"
proof -
  obtain err sy a where a: "sync_checks two_groups (member_csv CSVPhasePending) = Return (err, sy)" "a \<in> set (sy_log sy)"
      "case a of UpdateOperatorGroup g \<Rightarrow> True | _ \<Rightarrow> False"
    using two_groups_update unfolding list_ex_iff by (fastforce split: checked.splits prod.splits)
  then obtain g' where s: "sync_checks two_groups (member_csv CSVPhasePending) = Return (err, sy)" "UpdateOperatorGroup g' \<in> set (sy_log sy)"
    by (cases a) auto
  have "gs_providedAPIs (NewOperatorGroup (member_group '''')) = []" by code_simp
  then have "apis_exclusive [member_group '''', other_group]" by (auto simp: apis_exclusive_def apis_of_def)
  moreover have "env_groups two_groups (csv_Namespace (member_csv CSVPhasePending)) = Inr [member_group '''']"
      "env_allGroups two_groups = Inr [member_group '''', other_group]"
    by (simp_all add: two_groups_def some_env_def)
  moreover have "\<forall>k \<in> set (StripPlural [\<lparr>api_Group = ''g'', api_Version = ''v1'', api_Kind = ''K'', api_Plural = ''ks''\<rparr>]). plain_key k"
    by (simp add: StripPlural_set plain_key_def)
  ultimately have "apis_exclusive (replace_group g' [member_group '''', other_group])"
    using provided_apis_exclusive [of two_groups "member_csv CSVPhasePending" "member_group ''''" "[member_group '''', other_group]", OF _ _ _ _ two_groups_surface]
    using s by simp
  then show ?thesis using s by blast
qed

subsection \<open>Runs\<close>

text \<open>
  The syncs of a ClusterServiceVersion over time, each in some cluster out of \<open>envs\<close>, and the edits that users
  make in between, which leave the status alone
\<close>

inductive csv_run :: "('v, 's) olm_env set \<Rightarrow> 'v ClusterServiceVersion \<Rightarrow> 'v ClusterServiceVersion \<Rightarrow> bool" for envs c where
  run_start: "csv_run envs c c"
| run_sync: "csv_run envs c d \<Longrightarrow> env \<in> envs \<Longrightarrow> transitionCSVState env d = Moved err sy \<Longrightarrow> csv_run envs c (sy_csv sy)"
| run_edit: "csv_run envs c d \<Longrightarrow> csv_Status e = csv_Status d \<Longrightarrow> csv_run envs c e"

lemma run_history: "csv_run envs c d \<Longrightarrow> history_ok (csv_Status c) \<Longrightarrow> history_ok (csv_Status d)"
proof (induction rule: csv_run.induct)
  case (run_sync d env err sy)
  then show ?case using transition_proceeds [OF run_sync.hyps(3)] moves_history by (fastforce simp: proceeds_def)
qed simp_all

text \<open>Once it has been given up without a retry, a CSV keeps its status.\<close>

lemma run_no_retry:
  "csv_run envs c d \<Longrightarrow> st_Reason (csv_Status c) = ''InstallComponentFailedNoRetry'' \<Longrightarrow> csv_Status d = csv_Status c"
  by (induction rule: csv_run.induct) (auto simp: transitionCSVState_def)

end
