(* ===== verification/Spec2Isabelle.thy ===== *)
theory Spec2Isabelle
  imports Cluster Plan_Properties Choice_Properties Catalog_Properties Lifecycle_Properties
begin

text \<open>
  A verification of the core of the operator lifecycle manager (OLM): the resolution of dependencies, its catalogs, and
  the state machine of installed operators. The program is in
  \<^verbatim>\<open>src/staging/operator-lifecycle-manager\<close> with the API types of \<^verbatim>\<open>src/staging/api\<close> and the catalog format of
  \<^verbatim>\<open>src/staging/operator-registry\<close>. A user creates a \<^verbatim>\<open>Subscription\<close>; OLM looks for the subscribed operator in the
  catalogs, adds the operators it depends on, checks that the result fits together with what is installed, and writes
  an \<^verbatim>\<open>InstallPlan\<close> whose steps create the objects. One of them is a \<^verbatim>\<open>ClusterServiceVersion\<close> (CSV), which the
  OLM operator then takes through its phases until the operator runs. The path a subscription takes through the code is also the order of
  the theories. Paths below are relative to \<^verbatim>\<open>pkg/controller/registry/resolver\<close> unless they say otherwise.

  \<^bold>\<open>Sources.\<close> \<open>Csv_Source\<close> (\<^verbatim>\<open>source_csvs.go\<close>) turns the ClusterServiceVersions of a namespace into cache entries,
  \<open>Registry_Source\<close> (\<^verbatim>\<open>source_registry.go\<close>) the bundles of a catalog; \<open>Fail_Forward\<close> (\<^verbatim>\<open>fail_forward.go\<close>) follows
  chains of replacements, \<open>Api_Properties\<close> holds the properties annotation and the properties of APIs, \<open>Csv\<close> the
  API types of \<^verbatim>\<open>api/pkg/operators/v1alpha1\<close> and \<^verbatim>\<open>v1\<close> (status, phases, install modes, operator groups,
  subscriptions), \<open>Cache_Entry\<close> the entries and API sets (\<^verbatim>\<open>cache/operators.go\<close>, \<^verbatim>\<open>cache/cache.go\<close>), \<open>Json\<close> decoding.
  Lemmas: what a snapshot holds, that it returns on circular replacements, that the validity channels of a catalog
  are closed exactly once and at last, round trips of properties, the bounded phase history (C14 to C24).

  \<^bold>\<open>Catalogs.\<close> The content of a catalog is written down as a file-based configuration (\<^verbatim>\<open>operator-registry/alpha\<close>).
  \<open>Catalog_Config\<close> (\<^verbatim>\<open>declcfg\<close>) has the configuration and its conversion to and from the model of \<open>Catalog_Model\<close>
  (\<^verbatim>\<open>model/model.go\<close>), where packages, channels and bundles point to each other and live in a store;
  \<open>Catalog_Property\<close> (\<^verbatim>\<open>property/property.go\<close>) parses their properties, whose JSON texts \<open>Json_Text\<close> reads and compacts.
  \<open>Catalog_Valid\<close> shows that validation accepts exactly the valid models, with \<open>upgrade_graph\<close> as the abstract
  specification of a channel (C38); \<open>Catalog_Roundtrip\<close> and \<open>Catalog_Back\<close> follow the loops of the two conversions
  to the round trip (C40), which keeps packages, channels and bundles and drops deprecations, other blobs and package properties.

  \<^bold>\<open>Cache.\<close> \<open>Snapshots\<close> (\<^verbatim>\<open>cache/cache.go\<close>) with \<open>Cache_Runs\<close>, where calls of \<^verbatim>\<open>Namespaced\<close> on one cache interleave
  as steps of an inductive relation between its locked sections; \<open>Predicates\<close> (\<^verbatim>\<open>cache/predicates.go\<close>) and
  \<open>Olm_Constraints\<close> (\<^verbatim>\<open>api/pkg/constraints\<close> and its conversion to predicates). Snapshot headers are addresses of a
  list, because calls share them. Lemmas: every finder has exactly the requested snapshots and no source two valid
  ones in any interleaving (C8, C9), the order of catalogs (C33), the meaning of constraints (C34).

  \<^bold>\<open>Resolver.\<close> \<open>Variable_Types\<close> (\<^verbatim>\<open>variable_types.go\<close>), \<open>Channel_Sort\<close>, \<open>Bundle_Variables\<close> and \<open>Resolver\<close>
  (\<^verbatim>\<open>resolver.go\<close>) make the solver's input from subscriptions and finder and read the operators off its answer. Bundle
  variables are shared by pointer and live in a heap, the \<open>world\<close>. \<open>Bundle_Closure\<close>, \<open>Resolver_Sound\<close>,
  \<open>Resolver_Correct\<close> and \<open>Resolver_Total\<close> hold the invariants of the loops. Results: the input is well formed, no call
  panics, the operators are those of a valid installation in the sense of an abstract specification, and what makes
  resolution fail (C10 to C13); the order of a channel and identifiers (C35, C36).

  \<^bold>\<open>Solver.\<close> \<open>Lit_Mapping\<close> (\<^verbatim>\<open>solver/constraints.go\<close>, \<^verbatim>\<open>variable.go\<close>, \<^verbatim>\<open>lit_mapping.go\<close>), \<open>Search\<close> (\<^verbatim>\<open>search.go\<close>,
  \<^verbatim>\<open>tracer.go\<close>) and \<open>Solve\<close> (\<^verbatim>\<open>solve.go\<close>). The SAT library gini is third-party code, vendored under
  \<^verbatim>\<open>src/vendor\<close>: it is a record of operations, a parameter of every definition, whose documented behaviour is the locale \<open>inter_S\<close> of \<open>Gini\<close> (an
  extension of \<open>logic_C\<close>, the circuits); \<open>Ref_Gini\<close> interprets the locale on an executable backend, so that the
  hypotheses are satisfiable and the witnesses evaluate. \<open>Encoding\<close>, \<open>Search_Total\<close>, \<open>Search_Sound\<close> and
  \<open>Solve_Correct\<close> prove what \<open>Solver_Properties\<close> states: soundness, conflicts, decision, minimality, and that
  \<^verbatim>\<open>Solve\<close> returns for every backend (C1 to C7).

  \<^bold>\<open>Plan.\<close> \<open>Owners\<close> (\<^verbatim>\<open>pkg/lib/ownerutil/util.go\<close>), \<open>Rbac\<close> (\<^verbatim>\<open>rbac.go\<close>), \<open>Steps\<close> (\<^verbatim>\<open>steps.go\<close>) and
  \<open>Step_Resolver\<close> (\<^verbatim>\<open>step_resolver.go\<close>) turn the operators into steps, bundle lookups and updated subscriptions.
  \<open>Plan_Properties\<close>: the plan carries out the resolution, is empty when nothing is to do, is ordered, and grants the
  rules the operator asks for; owner labels are read back (C25 to C29, C31).

  \<^bold>\<open>Installed operators.\<close> The OLM operator (\<^verbatim>\<open>pkg/controller/operators/olm\<close>). \<open>Group_Surface\<close> (\<^verbatim>\<open>groups.go\<close>,
  \<^verbatim>\<open>labeler.go\<close>) has the namespaces and provided APIs of operator groups, \<open>Csv_Chain\<close> (\<^verbatim>\<open>pkg/lib/csv\<close> and
  \<^verbatim>\<open>getReplacementChain\<close> of \<^verbatim>\<open>operator.go\<close>) how CSVs replace each other, \<open>Csv_Env\<close> the errors, the answers of the cluster and
  the actions on it, \<open>Csv_Sync\<close> the state machine \<^verbatim>\<open>transitionCSVState\<close> with one definition for every phase. The cluster is the
  record \<open>olm_env\<close> of answers, in which requests made several times within a sync are numbered; actions are
  kept in a log. \<open>Csv_Lifecycle\<close> shows that a sync is a sequence of moves along the lifecycle, \<open>Lifecycle_Properties\<close> under which
  conditions the phases are entered (C37), that operator groups never share APIs (C30), that a sync returns
  and when it panics (C32), and what holds after any run of syncs (\<open>run_history\<close>).

  \<^bold>\<open>Together.\<close> \<open>Cluster\<close> puts the sources behind the cache as \<^verbatim>\<open>NewOperatorCacheProvider\<close> does; C39 below is about the
  resolver over such a cache.

  \<^bold>\<open>Conventions.\<close> A struct is a record and keeps its field names behind a short prefix; a Go map is an association list
  with distinct keys whose order stands for the iteration order, and where a loop ranges over a map whose order
  matters the iteration is a parameter (\<open>iteration\<close>, \<open>osr_range\<close>) that may permute it. A nil dereference, an index out of range
  and an empty pop are branches of the model (\<open>Panic\<close>, \<open>Panics\<close>, or \<open>None\<close>), an error is a value. Strings are
  lists of bytes. Hashes are words of their width. Versions and version ranges are values of type variables with the
  operations of the semver library as parameters (\<open>libs\<close>); the Kubernetes clients, listers and serializers are
  parameters as well. A request that a loop repeats for the same key, such as \<^verbatim>\<open>GetPackage\<close> for the bundles of a catalog, has the
  same answer each time. Slices of pointers to properties are lists of properties: a nil element cannot be written down, so the
  nil check of \<^verbatim>\<open>predicateForProperty\<close> has no branch.

  \<^bold>\<open>Termination and bounds.\<close> Loops over slices are structural. The worklist of \<^verbatim>\<open>getBundleVariables\<close> is a function
  with a termination proof (it only adds entries of the finder it has not seen). The loops of the search and the walk along
  replacements are partial functions whose result \<open>None\<close> means that the code does not return; C5 and C15 prove that
  they return for all inputs and every backend. \<^verbatim>\<open>validateReplacesChain\<close> and the loops of \<^verbatim>\<open>getReplacementChain\<close> are functions with
  termination proofs; \<^verbatim>\<open>GetFinalCSVInReplacing\<close> is a partial function, which in a circle does not return. Only the JSON
  parser has fuel, twice the length of the text, which \<open>parse_fuel\<close> in \<open>Json_Text\<close> proves to be enough.

  \<^bold>\<open>Not modelled.\<close> The controllers around this code (\<^verbatim>\<open>pkg/controller/operators\<close> without the state machine, the bundle
  unpacker, the install strategies, the registry pod reconcilers, the package server): they are sequences of calls of
  the Kubernetes API, interleaved by work queues, and what they compute is kept in that API. For the state machine, whether
  requirements are met, what the installer reports and whether API services and webhooks are available are answers in
  \<open>olm_env\<close>. Generated code (clients,
  informers, deep copies, openapi), fakes, command lines, the SQLite store of operator-registry (its logic is in SQL
  statements), image handling, and instrumentation. The manifest lists each part with its reason.
\<close>

subsection \<open>The resolver on a cluster\<close>

text \<open>
  C39. The parts fit together. However calls of the cache interleave, as long as the sources it asks are the
  catalogs and the installed operators of the cluster, the resolver works with any finder the cache hands out: it
  never panics, and every input it builds is one the solver accepts.
\<close>

theorem cluster_resolution:
  assumes "cache_run P s" and "\<And>sources m. (sources, m) \<in> set (cs_finders s) \<Longrightarrow> cluster_request L PT is_zero len sources"
    and "(sources, m) \<in> set (cs_finders s)"
    and "F = \<lparr>f_headers = ch_headers (cs_cache s), f_map = m\<rparr>" and "inj_on e_addr (pool F)"
    and "closed_system r" and "iterates it" and "\<And>sub. sub \<in> set subs \<Longrightarrow> sub_Namespace sub = namespaces ! 0"
  shows "Resolve r G F it namespaces subs \<noteq> Inl Panic \<and>
    (case resolver_input r F it namespaces subs of Inl err \<Rightarrow> True | Inr (input, starting) \<Rightarrow> well_formed input)"
proof -
  have F: "good_finder F" "labelled F" "versioned F subs" using cluster_finder [OF assms(1-5)] by simp_all
  have "well_formed input" if "resolver_input r F it namespaces subs = Inr (input, starting)" for input starting
    using resolver_input_built [OF F(1,2) assms(6,7) _ that] built_well_formed(1) [OF _ assms(7)] assms(8) by blast
  then show ?thesis using Resolve_no_panic [OF F(1,3), of r G it namespaces] by (auto split: sum.split)
qed

theorem cluster_resolution_witness:
  "\<exists>es F. csv_Snapshot nat_libs (\<lambda>v. v = 0) (\<lambda>_. 1) 7 some_source = Some (Inr es) \<and> e_Name ` pool F = {''a2''} \<and>
     Resolve \<lparr>r_libs = nat_libs, r_system = None\<rparr> (ref_gini True) F in_order [''n''] [some_subscription] \<noteq> Inl Panic"
proof -
  obtain es where es: "csv_Snapshot nat_libs (\<lambda>v. v = 0) (\<lambda>_. 1) 7 some_source = Some (Inr es)" "map e_Name es = [''a2'']"
    using some_snapshot by (elim exE conjE) (rule that)
  let ?m = "[(cluster_key, 0)] :: (SourceKey \<times> nat) list"
  define F where "F = \<lparr>f_headers = ch_headers (cs_cache (cluster_state es)), f_map = ?m\<rparr>"
  have pool: "pool F = set es" by (simp add: F_def cluster_state_def pool_def new_header_def hdr_entries_def)
  have fs: "cs_finders (cluster_state es) = [([(cluster_key, Inr (Some es))], ?m)]" by (simp add: cluster_state_def)
  obtain e where e: "es = [e]" "e_Name e = ''a2''" using es(2) by (cases es) auto
  have "Resolve \<lparr>r_libs = nat_libs, r_system = None\<rparr> (ref_gini True) F in_order [''n''] [some_subscription] \<noteq> Inl Panic"
  proof (rule cluster_resolution [OF cluster_state_run [of es] _ _ F_def, THEN conjunct1])
    show "cluster_request nat_libs (\<lambda>_. None) (\<lambda>v. v = 0) (\<lambda>_. 1) sources" if "(sources, m) \<in> set (cs_finders (cluster_state es))" for sources m
      using that cluster_state_request [OF es(1)] by (simp add: fs)
    show "inj_on e_addr (pool F)" by (simp add: pool e(1))
  qed (simp_all add: fs closed_system_def some_cluster(6) some_subscription_def)
  then show ?thesis using es(1) pool e by (intro exI [of _ es] exI [of _ F]) simp
qed

end
